(* ===== verification/Voice_Prelude.thy ===== *)
theory Voice_Prelude
  imports Complex_Main "HOL-Library.AList" "HOL-Library.Sublist"
begin

text \<open>
  Shared vocabulary of the development.  It fixes how the Python values the sources handle are
  represented (JSON values, dictionaries in insertion order, results that may be an exception),
  the \<^theory_text>\<open>named_theorems\<close> collections the components fill, and the generic list
  and association-list lemmas their proofs share.
\<close>

section \<open>Collections\<close>

named_theorems py_simps \<open>unfolding rules of the Python value layer\<close>
named_theorems wio_defs \<open>definitions of the WorkerIO operations\<close>
named_theorems stream_simps \<open>equations of the streaming operators\<close>

section \<open>Results that may be an exception\<close>

text \<open>An operation that may raise returns \<open>Inl\<close> of its exception or \<open>Inr\<close> of its value.\<close>

definition res_bind :: "'e + 'a \<Rightarrow> ('a \<Rightarrow> 'e + 'b) \<Rightarrow> 'e + 'b" where
  "res_bind r f = (case r of Inl e \<Rightarrow> Inl e | Inr x \<Rightarrow> f x)"

definition check :: "bool \<Rightarrow> 'e \<Rightarrow> 'e + unit" where
  "check b e = (if b then Inr () else Inl e)"

definition of_option :: "'e \<Rightarrow> 'a option \<Rightarrow> 'e + 'a" where
  "of_option e x = (case x of None \<Rightarrow> Inl e | Some v \<Rightarrow> Inr v)"

text \<open>A \<^verbatim>\<open>for\<close> loop whose body may raise.\<close>

fun res_fold :: "('a \<Rightarrow> 's \<Rightarrow> 'e + 's) \<Rightarrow> 'a list \<Rightarrow> 's \<Rightarrow> 'e + 's" where
  "res_fold f [] s = Inr s"
| "res_fold f (x # xs) s = res_bind (f x s) (res_fold f xs)"

section \<open>Python values\<close>

text \<open>
  JSON and TOML values as Python holds them after parsing.  A dictionary keeps insertion order,
  so an object is an association list; floats are taken as exact rationals.
\<close>

datatype json =
    JNull
  | JBool bool
  | JInt int
  | JFloat rat
  | JStr string
  | JList "json list"
  | JObj "(string \<times> json) list"

type_synonym dict = "(string \<times> json) list"

text \<open>\<^verbatim>\<open>d.get(k)\<close>: an absent key reads as \<^verbatim>\<open>None\<close>.\<close>

definition dget :: "dict \<Rightarrow> string \<Rightarrow> json" where
  "dget d k = (case map_of d k of None \<Rightarrow> JNull | Some v \<Rightarrow> v)"

text \<open>Truth value of a Python object, as used by \<^verbatim>\<open>or\<close>, \<^verbatim>\<open>not\<close> and \<^verbatim>\<open>if\<close>.\<close>

fun truthy :: "json \<Rightarrow> bool" where
  "truthy JNull = False"
| "truthy (JBool b) = b"
| "truthy (JInt i) = (i \<noteq> 0)"
| "truthy (JFloat r) = (r \<noteq> 0)"
| "truthy (JStr s) = (s \<noteq> [])"
| "truthy (JList xs) = (xs \<noteq> [])"
| "truthy (JObj d) = (d \<noteq> [])"

text \<open>\<^verbatim>\<open>a or b\<close>.\<close>

definition py_or :: "json \<Rightarrow> json \<Rightarrow> json" where
  "py_or a b = (if truthy a then a else b)"

text \<open>The number a value compares as: \<^verbatim>\<open>True == 1 == 1.0\<close> in Python.\<close>

fun num_of :: "json \<Rightarrow> rat option" where
  "num_of (JBool b) = Some (if b then 1 else 0)"
| "num_of (JInt i) = Some (of_int i)"
| "num_of (JFloat r) = Some r"
| "num_of _ = None"

text \<open>\<^verbatim>\<open>a == b\<close> on scalars (numbers across their types, everything else structurally).\<close>

definition py_eq :: "json \<Rightarrow> json \<Rightarrow> bool" where
  "py_eq a b = (case (num_of a, num_of b) of
      (Some x, Some y) \<Rightarrow> x = y
    | (None, None) \<Rightarrow> a = b
    | _ \<Rightarrow> False)"

section \<open>Runs of a step function\<close>

text \<open>Executing a sequence of actions; \<open>None\<close> as soon as one is not enabled.\<close>

fun runs :: "('s \<Rightarrow> 'a \<Rightarrow> 's option) \<Rightarrow> 's \<Rightarrow> 'a list \<Rightarrow> 's option" where
  "runs step s [] = Some s"
| "runs step s (a # as) = (case step s a of None \<Rightarrow> None | Some s' \<Rightarrow> runs step s' as)"

lemma runs_append:
  "runs step s (as @ bs) = (case runs step s as of None \<Rightarrow> None | Some s' \<Rightarrow> runs step s' bs)"
  by (induction as arbitrary: s) (auto split: option.splits)

lemma runs_snoc_Some:
  "runs step s (as @ [a]) = Some t \<longleftrightarrow> (\<exists>u. runs step s as = Some u \<and> step u a = Some t)"
  by (auto simp: runs_append split: option.splits)

text \<open>
  The contract between a step function and what its runs keep: an invariant that every enabled
  step keeps, given a property of the run so far that prefixes inherit (such as the freshness of
  the ids used in it).
\<close>

locale step_invariant =
  fixes step :: "'s \<Rightarrow> 'a \<Rightarrow> 's option"
    and start :: "'s \<Rightarrow> bool"
    and admissible :: "'a list \<Rightarrow> bool"
    and inv :: "'a list \<Rightarrow> 's \<Rightarrow> bool"
  assumes inv_start: "start s \<Longrightarrow> inv [] s"
    and admissible_prefix: "admissible (as @ [a]) \<Longrightarrow> admissible as"
    and inv_step: "admissible (as @ [a]) \<Longrightarrow> inv as s \<Longrightarrow> step s a = Some t \<Longrightarrow> inv (as @ [a]) t"
begin

lemma runs_inv:
  assumes "start s" and "admissible as" and "runs step s as = Some t"
  shows "inv as t"
  using assms(2,3)
proof (induction as arbitrary: t rule: rev_induct)
  case Nil
  with assms(1) show ?case by (simp add: inv_start)
next
  case (snoc a as)
  from snoc.prems(2) obtain u where u: "runs step s as = Some u" "step u a = Some t"
    by (auto simp: runs_snoc_Some)
  from snoc.prems(1) have "admissible as" by (rule admissible_prefix)
  then have "inv as u" using u(1) by (rule snoc.IH)
  with snoc.prems(1) u(2) show ?case by (blast intro: inv_step)
qed

end

section \<open>Lemmas on results\<close>

lemma res_bind_Inl [simp]: "res_bind (Inl e) f = Inl e"
  by (simp add: res_bind_def)

lemma res_bind_Inr [simp]: "res_bind (Inr x) f = f x"
  by (simp add: res_bind_def)

lemma res_bind_eq_Inr [simp]: "res_bind r f = Inr y \<longleftrightarrow> (\<exists>x. r = Inr x \<and> f x = Inr y)"
  by (cases r) auto

lemma res_bind_eq_Inl: "res_bind r f = Inl e \<longleftrightarrow> r = Inl e \<or> (\<exists>x. r = Inr x \<and> f x = Inl e)"
  by (cases r) auto

lemma check_eq_Inr [simp]: "check b e = Inr u \<longleftrightarrow> b"
  by (simp add: check_def)

lemma check_True [simp]: "check True e = Inr ()"
  by (simp add: check_def)

lemma check_False [simp]: "check False e = Inl e"
  by (simp add: check_def)

lemma of_option_eq_Inr [simp]: "of_option e x = Inr v \<longleftrightarrow> x = Some v"
  by (cases x) (auto simp: of_option_def)

lemma of_option_simps [simp]: "of_option e None = Inl e" "of_option e (Some v) = Inr v"
  by (simp_all add: of_option_def)

section \<open>Lemmas on values\<close>

lemma py_eq_str [simp]: "py_eq v (JStr s) \<longleftrightarrow> v = JStr s"
  by (cases v) (auto simp: py_eq_def)

lemma dget_Nil [simp]: "dget [] k = JNull"
  by (simp add: dget_def)

lemma dget_Cons [simp]: "dget ((k', v) # d) k = (if k' = k then v else dget d k)"
  by (simp add: dget_def)

section \<open>Lemmas on lists and dictionaries\<close>

lemma sum_list_update_nat:
  fixes f :: "'a \<Rightarrow> nat"
  assumes "i < length xs"
  shows "sum_list (map f (xs[i := x])) + f (xs ! i) = sum_list (map f xs) + f x"
  using assms
proof (induction xs arbitrary: i)
  case Nil
  then show ?case by simp
next
  case (Cons y ys)
  show ?case
  proof (cases i)
    case 0
    then show ?thesis by simp
  next
    case (Suc j)
    with Cons.prems have "j < length ys" by simp
    then show ?thesis using Cons.IH [of j] Suc by simp
  qed
qed

lemma member_le_sum_list_nat:
  fixes f :: "'a \<Rightarrow> nat"
  shows "i < length xs \<Longrightarrow> f (xs ! i) \<le> sum_list (map f xs)"
  by (induction xs arbitrary: i) (auto simp: nth_Cons trans_le_add2 split: nat.splits)

lemma map_of_update [simp]: "map_of (AList.update k v d) = (map_of d)(k \<mapsto> v)"
  by (simp add: update_conv')

lemma map_of_delete [simp]: "map_of (AList.delete k d) = (map_of d)(k := None)"
  by (simp add: delete_conv')

lemma distinct_map_filter_nth:
  assumes "distinct (List.map_filter f xs)" and "i < length xs" and "j < length xs"
    and "f (xs ! i) = Some k" and "f (xs ! j) = Some k"
  shows "i = j"
  using assms
proof (induction xs arbitrary: i j)
  case Nil
  then show ?case by simp
next
  case (Cons x xs)
  have mem: "k \<in> set (List.map_filter f xs)" if "n < length xs" "f (xs ! n) = Some k" for n
    using that by (force simp: List.map_filter_def)
  from Cons show ?case
    by (cases i; cases j) (auto simp: map_filter_simps mem split: option.splits)
qed

lemma map_filter_snoc:
  "List.map_filter f (xs @ [x]) =
     List.map_filter f xs @ (case f x of None \<Rightarrow> [] | Some y \<Rightarrow> [y])"
  by (auto simp: List.map_filter_def split: option.splits)

lemma map_filter_list_update:
  "i < length xs \<Longrightarrow> f x = f (xs ! i) \<Longrightarrow> List.map_filter f (xs[i := x]) = List.map_filter f xs"
  by (induction xs arbitrary: i) (auto simp: map_filter_simps nth_Cons split: nat.splits option.splits)

lemma in_set_update_other: "x \<in> set xs \<Longrightarrow> xs ! j \<noteq> x \<Longrightarrow> x \<in> set (xs[j := y])"
  by (metis in_set_conv_nth length_list_update nth_list_update_neq)

lemma upt_split: "a \<le> b \<Longrightarrow> b \<le> c \<Longrightarrow> [a..<c] = [a..<b] @ [b..<c]"
  using upt_add_eq_append [of a b "c - b"] by simp

text \<open>A loop that simulates another step by step ends in a related state.\<close>

lemma res_fold_append: "res_fold f (xs @ ys) s = res_bind (res_fold f xs s) (res_fold f ys)"
proof (induction xs arbitrary: s)
  case (Cons x xs)
  then show ?case by (cases "f x s") auto
qed simp

lemma res_fold_simulation:
  assumes "\<And>a s t t'. a \<in> set xs \<Longrightarrow> R s t \<Longrightarrow> f a t = Inr t' \<Longrightarrow> \<exists>s'. g a s = Inr s' \<and> R s' t'"
    and "R s t" and "res_fold f xs t = Inr t'"
  shows "\<exists>s'. res_fold g xs s = Inr s' \<and> R s' t'"
  using assms
proof (induction xs arbitrary: s t)
  case (Cons a xs)
  from Cons.prems(3) obtain u where u: "f a t = Inr u" "res_fold f xs u = Inr t'" by auto
  from Cons.prems(1) [OF _ Cons.prems(2) u(1)] obtain v where v: "g a s = Inr v" "R v u" by auto
  have "\<exists>s'. res_fold g xs v = Inr s' \<and> R s' t'"
    using Cons.prems(1) v(2) u(2) by (intro Cons.IH) auto
  then show ?case using v(1) by simp
qed auto

end
