(* ===== verification/WorkerIO.thy ===== *)
theory WorkerIO
  imports Voice_Prelude
begin

text \<open>
  The subprocess-worker multiplexer \<^verbatim>\<open>WorkerIO\<close> of
  \<^verbatim>\<open>deploy/docker/worker_io.voxedge-patch.py\<close>: callers of \<^verbatim>\<open>request\<close> (synchronous
  generator) and \<^verbatim>\<open>send_request\<close> (async generator), the stdout reader thread, any number of
  \<^verbatim>\<open>close\<close> calls and \<^verbatim>\<open>cancel\<close>, interleaved.  One step of the model is one atomic
  action of one thread: what runs under a lock is one step, and so is every access to the
  semaphore, to a queue and to the closed flag outside a lock.
\<close>

section \<open>State\<close>

text \<open>A parsed stdout event, and the sentinel the reader and \<^verbatim>\<open>close\<close> put into queues.\<close>

type_synonym event = dict

definition worker_exit :: event where
  "worker_exit = [(''event'', JStr ''_worker_exit'')]"

definition is_exit :: "event \<Rightarrow> bool" where
  "is_exit ev \<longleftrightarrow> py_eq (dget ev ''event'') (JStr ''_worker_exit'')"

definition is_terminal :: "event \<Rightarrow> bool" where
  "is_terminal ev \<longleftrightarrow>
     py_eq (dget ev ''event'') (JStr ''done'') \<or> py_eq (dget ev ''event'') (JStr ''cancelled'')"

definition is_error :: "event \<Rightarrow> bool" where
  "is_error ev \<longleftrightarrow> py_eq (dget ev ''event'') (JStr ''error'')"

text \<open>Which of the two request generators a caller runs.\<close>

datatype api = Sync | Async

text \<open>How a call ended.\<close>

datatype outcome =
    Returned
  | WorkerExitError
  | KeyErrorId
  | ValueErrorId
  | WriteError
  | QueueEmpty
  | TimeoutErr
  | GeneratorExit
  | CancelledErr

text \<open>
  Program counters of a caller.  \<open>Submitted\<close>, \<open>Acquiring\<close>, \<open>JobDone\<close> and \<open>Acquired\<close> are the
  states of the executor job that runs the semaphore's \<^verbatim>\<open>acquire\<close> for \<^verbatim>\<open>send_request\<close>
  (queued, blocked in the call, finished in its thread, and its result copied to the asyncio
  future with the task not yet resumed); \<^verbatim>\<open>request\<close> starts in \<open>Acquiring\<close>.  \<open>GetQueued\<close> is the
  executor job of an asynchronous \<^verbatim>\<open>q.get\<close> that no thread has taken yet, \<open>Get\<close> the call itself.
  \<open>Orphaned\<close> is a job that outlives its cancelled task, \<open>LateRelease\<close> the
  done-callback about to release, \<open>Abort\<close> the release before the early raise of
  \<^verbatim>\<open>send_request\<close>, and \<open>Leaked\<close> an orphaned job that obtained its permit.
\<close>

datatype pc =
    Submitted
  | Acquiring
  | JobDone
  | Acquired
  | Orphaned
  | LateRelease
  | Leaked
  | CheckClosed
  | Abort
  | Register
  | WriteLine
  | PopFailed outcome
  | GetQueued
  | Get
  | Yielded event
  | FinPop outcome
  | FinRelease outcome
  | FinCancel outcome
  | Finished outcome

text \<open>
  A running call: its generator, its request id (\<^verbatim>\<open>payload["id"]\<close> for \<^verbatim>\<open>request\<close>, absent when
  the payload has none), the rest of the payload, the queue it created, and what it has yielded.
\<close>

record caller =
  c_api :: api
  c_rid :: "string option"
  c_body :: json
  c_pc :: pc
  c_queue :: "nat option"
  c_seen :: "event list"

text \<open>Lines written to the worker's stdin: requests (id and payload) and cancels.\<close>

datatype stdin_line = ReqLine string json | CancelLine string

text \<open>
  The reader thread: in its loop, about to \<^verbatim>\<open>put\<close> an event into a queue it looked up, in its
  \<^verbatim>\<open>finally\<close>, or gone.  A \<^verbatim>\<open>close\<close> call: flag set and about to drain the in-flight table, or
  about to notify the queues it took.
\<close>

datatype reader = RLoop | RPut nat event | RFinally | RDone

datatype closer = Draining | Notifying "nat list"

text \<open>
  The object: \<^verbatim>\<open>_inflight\<close> (a dictionary from request id to queue), the queue objects by
  address, \<^verbatim>\<open>_sem\<close>, \<^verbatim>\<open>_closed\<close>, the class counter \<^verbatim>\<open>_cancel_count\<close>, what reached the
  worker's stdin, the threads, and the semaphore's initial value.  \<open>pool\<close> is the number of threads
  of the default executor that run the jobs of \<^verbatim>\<open>send_request\<close>; \<open>stale\<close> has the queues in whose
  \<^verbatim>\<open>get\<close> a thread is still blocked although its task was cancelled.
\<close>

record wio =
  inflight :: "(string \<times> nat) list"
  queues :: "nat \<Rightarrow> event list"
  next_queue :: nat
  sem :: nat
  closed :: bool
  cancel_count :: nat
  stdin :: "stdin_line list"
  callers :: "caller list"
  reader :: reader
  closers :: "closer list"
  capacity :: nat
  pool :: nat
  stale :: "nat list"

text \<open>\<^verbatim>\<open>__init__\<close>: the semaphore gets \<^verbatim>\<open>max(1, int(concurrency))\<close> and the reader starts.\<close>

definition wio_init :: "nat \<Rightarrow> int \<Rightarrow> wio" where
  "wio_init threads concurrency = \<lparr>
     inflight = [], queues = (\<lambda>_. []), next_queue = 0,
     sem = nat (max 1 concurrency), closed = False, cancel_count = 0, stdin = [],
     callers = [], reader = RLoop, closers = [], capacity = nat (max 1 concurrency),
     pool = threads, stale = []\<rparr>"

text \<open>The executor: a thread is busy from the start of a job to its end.\<close>

definition in_thread :: "caller \<Rightarrow> bool" where
  "in_thread c \<longleftrightarrow> c_pc c = Orphaned \<or> c_api c = Async \<and> (c_pc c = Acquiring \<or> c_pc c = Get)"

definition busy :: "wio \<Rightarrow> nat" where
  "busy s = length (filter in_thread (callers s)) + length (stale s)"

definition thread_free :: "wio \<Rightarrow> bool" where
  "thread_free s \<longleftrightarrow> busy s < pool s"

section \<open>Operations\<close>

definition q_put :: "nat \<Rightarrow> event \<Rightarrow> wio \<Rightarrow> wio" where
  "q_put q ev s = s\<lparr>queues := (queues s)(q := queues s q @ [ev])\<rparr>"

definition set_caller :: "nat \<Rightarrow> caller \<Rightarrow> wio \<Rightarrow> wio" where
  "set_caller i c s = s\<lparr>callers := (callers s)[i := c]\<rparr>"

definition goto :: "nat \<Rightarrow> pc \<Rightarrow> wio \<Rightarrow> wio" where
  "goto i p s = set_caller i ((callers s ! i)\<lparr>c_pc := p\<rparr>) s"

text \<open>\<^verbatim>\<open>self._inflight.pop(request_id, None)\<close>.\<close>

definition pop_inflight :: "string option \<Rightarrow> wio \<Rightarrow> wio" where
  "pop_inflight r s =
     (case r of None \<Rightarrow> s | Some k \<Rightarrow> s\<lparr>inflight := AList.delete k (inflight s)\<rparr>)"

text \<open>
  \<^verbatim>\<open>cancel\<close>: count the call, then, unless closed, write a cancel line under the stdin lock;
  a failing write is swallowed (\<open>ok\<close> says whether the pipe accepts it).
\<close>

definition cancel :: "bool \<Rightarrow> string \<Rightarrow> wio \<Rightarrow> wio" where
  "cancel ok r s =
     (let s1 = s\<lparr>cancel_count := Suc (cancel_count s)\<rparr>
      in if closed s1 then s1
         else if ok then s1\<lparr>stdin := stdin s1 @ [CancelLine r]\<rparr> else s1)"

text \<open>
  Calling \<^verbatim>\<open>request(payload)\<close>: the first thing the generator does is \<^verbatim>\<open>_sem.acquire()\<close>.
  Calling \<^verbatim>\<open>send_request(request_id, payload)\<close>: \<^verbatim>\<open>setdefault\<close> fills a missing id and a
  different one raises before anything is taken.
\<close>

definition call_request :: "string option \<Rightarrow> json \<Rightarrow> wio \<Rightarrow> wio" where
  "call_request pid body s =
     s\<lparr>callers := callers s @
        [\<lparr>c_api = Sync, c_rid = pid, c_body = body, c_pc = Acquiring, c_queue = None, c_seen = []\<rparr>]\<rparr>"

definition call_send_request :: "string \<Rightarrow> string option \<Rightarrow> json \<Rightarrow> wio \<Rightarrow> wio" where
  "call_send_request request_id pid body s =
     (let pid' = (case pid of None \<Rightarrow> request_id | Some p \<Rightarrow> p);
          p0 = (if pid' \<noteq> request_id then Finished ValueErrorId else Submitted)
      in s\<lparr>callers := callers s @
        [\<lparr>c_api = Async, c_rid = Some request_id, c_body = body, c_pc = p0, c_queue = None,
          c_seen = []\<rparr>]\<rparr>)"

text \<open>Insertion of a new queue: before the stdin write, so no event can arrive unrouted.\<close>

definition register :: "nat \<Rightarrow> string \<Rightarrow> wio \<Rightarrow> wio" where
  "register i k s =
     (let q = next_queue s;
          s1 = s\<lparr>next_queue := Suc q, queues := (queues s)(q := []),
                 inflight := AList.update k q (inflight s)\<rparr>
      in set_caller i ((callers s ! i)\<lparr>c_queue := Some q, c_pc := WriteLine\<rparr>) s1)"

text \<open>Where a call goes when its body raises or returns with \<open>o\<close>, from inside the \<^verbatim>\<open>try\<close>.\<close>

definition fail_write :: "api \<Rightarrow> outcome \<Rightarrow> pc" where
  "fail_write a out = (case a of Sync \<Rightarrow> FinPop out | Async \<Rightarrow> PopFailed out)"

text \<open>How a call waits for its next event: \<^verbatim>\<open>send_request\<close> hands \<^verbatim>\<open>q.get\<close> to the executor.\<close>

definition await_event :: "api \<Rightarrow> pc" where
  "await_event a = (case a of Sync \<Rightarrow> Get | Async \<Rightarrow> GetQueued)"

text \<open>
  The write under \<^verbatim>\<open>_stdin_lock\<close>: the closed flag is read again there; \<open>ok\<close> says whether
  \<^verbatim>\<open>write\<close> and \<^verbatim>\<open>flush\<close> succeed.
\<close>

definition write_line :: "bool \<Rightarrow> nat \<Rightarrow> string \<Rightarrow> wio \<Rightarrow> wio" where
  "write_line ok i k s =
     (let c = callers s ! i
      in if closed s then goto i (fail_write (c_api c) WorkerExitError) s
         else if ok then goto i (await_event (c_api c)) (s\<lparr>stdin := stdin s @ [ReqLine k (c_body c)]\<rparr>)
         else goto i (fail_write (c_api c) WriteError) s)"

text \<open>\<^verbatim>\<open>q.get\<close> with an event available: the sentinel raises, anything else is yielded.\<close>

definition get_event :: "nat \<Rightarrow> nat \<Rightarrow> wio \<Rightarrow> wio option" where
  "get_event i q s =
     (case queues s q of
        [] \<Rightarrow> None
      | ev # rest \<Rightarrow>
          (let s1 = s\<lparr>queues := (queues s)(q := rest)\<rparr>;
               c = callers s ! i
           in if is_exit ev then Some (goto i (FinPop WorkerExitError) s1)
              else Some (set_caller i (c\<lparr>c_pc := Yielded ev, c_seen := c_seen c @ [ev]\<rparr>) s1)))"

text \<open>The \<^verbatim>\<open>finally\<close> arm: release the slot, then \<^verbatim>\<open>send_request\<close> cancels unless it finished.\<close>

definition after_release :: "api \<Rightarrow> outcome \<Rightarrow> pc" where
  "after_release a out = (if a = Async \<and> out \<noteq> Returned then FinCancel out else Finished out)"

text \<open>
  One atomic step of caller \<open>i\<close> that needs nothing from outside but the pipe (\<open>ok\<close>).
  \<open>None\<close>: the caller is blocked or waits for its consumer.  The jobs of \<^verbatim>\<open>send_request\<close>, one to
  acquire the semaphore and one for every \<^verbatim>\<open>q.get\<close>, start when a thread is free.
\<close>

definition caller_step :: "bool \<Rightarrow> nat \<Rightarrow> wio \<Rightarrow> wio option" where
  "caller_step ok i s =
     (let c = callers s ! i in
      case c_pc c of
        Submitted \<Rightarrow> if thread_free s then Some (goto i Acquiring s) else None
      | Acquiring \<Rightarrow>
          if sem s = 0 then None
          else Some (goto i (if c_api c = Sync then CheckClosed else JobDone)
                       (s\<lparr>sem := sem s - 1\<rparr>))
      | JobDone \<Rightarrow> Some (goto i Acquired s)
      | Acquired \<Rightarrow> Some (goto i CheckClosed s)
      | Orphaned \<Rightarrow> if sem s = 0 then None else Some (goto i Leaked (s\<lparr>sem := sem s - 1\<rparr>))
      | LateRelease \<Rightarrow> Some (goto i (Finished CancelledErr) (s\<lparr>sem := Suc (sem s)\<rparr>))
      | Leaked \<Rightarrow> None
      | CheckClosed \<Rightarrow>
          if closed s
          then Some (goto i (if c_api c = Sync then FinRelease WorkerExitError else Abort) s)
          else Some (goto i Register s)
      | Abort \<Rightarrow> Some (goto i (Finished WorkerExitError) (s\<lparr>sem := Suc (sem s)\<rparr>))
      | Register \<Rightarrow>
          (case c_rid c of
             None \<Rightarrow> Some (goto i (FinRelease KeyErrorId) s)
           | Some k \<Rightarrow> Some (register i k s))
      | WriteLine \<Rightarrow> (case c_rid c of None \<Rightarrow> None | Some k \<Rightarrow> Some (write_line ok i k s))
      | PopFailed out \<Rightarrow> Some (goto i (FinPop out) (pop_inflight (c_rid c) s))
      | GetQueued \<Rightarrow> if thread_free s then Some (goto i Get s) else None
      | Get \<Rightarrow> (case c_queue c of None \<Rightarrow> None | Some q \<Rightarrow> get_event i q s)
      | Yielded ev \<Rightarrow> None
      | FinPop out \<Rightarrow> Some (goto i (FinRelease out) (pop_inflight (c_rid c) s))
      | FinRelease out \<Rightarrow>
          Some (goto i (after_release (c_api c) out) (s\<lparr>sem := Suc (sem s)\<rparr>))
      | FinCancel out \<Rightarrow>
          (case c_rid c of None \<Rightarrow> None
           | Some k \<Rightarrow> Some (goto i (Finished out) (cancel ok k s)))
      | Finished out \<Rightarrow> None)"

text \<open>The consumer asks for the next event: after a terminal one the generator returns.\<close>

definition resume :: "nat \<Rightarrow> wio \<Rightarrow> wio option" where
  "resume i s = (case c_pc (callers s ! i) of
      Yielded ev \<Rightarrow>
        Some (goto i (if is_terminal ev then FinPop Returned else await_event (c_api (callers s ! i))) s)
    | _ \<Rightarrow> None)"

text \<open>The consumer drops the generator at a yield.\<close>

definition abandon :: "nat \<Rightarrow> wio \<Rightarrow> wio option" where
  "abandon i s = (case c_pc (callers s ! i) of
      Yielded ev \<Rightarrow> Some (goto i (FinPop GeneratorExit) s)
    | _ \<Rightarrow> None)"

text \<open>Sixty seconds pass on an empty queue.\<close>

definition timeout :: "nat \<Rightarrow> wio \<Rightarrow> wio option" where
  "timeout i s =
     (let c = callers s ! i in
      case (c_pc c, c_queue c) of
        (Get, Some q) \<Rightarrow>
          if queues s q = []
          then Some (goto i (FinPop (if c_api c = Sync then QueueEmpty else TimeoutErr)) s)
          else None
      | _ \<Rightarrow> None)"

text \<open>
  The asyncio task of a \<^verbatim>\<open>send_request\<close> is cancelled.  While the executor job is queued,
  cancelling the future cancels the job.  While the job is blocked in \<^verbatim>\<open>acquire\<close>, the future
  that \<^verbatim>\<open>run_in_executor\<close> returned is itself cancelled, so the done-callback's \<^verbatim>\<open>f.result()\<close>
  raises and is swallowed: the job stays behind as an orphan, or, if it had just taken the permit,
  leaves it taken.  Once the future has its result the callback sees \<^verbatim>\<open>True\<close> and releases.  At a
  \<^verbatim>\<open>get\<close> the \<^verbatim>\<open>finally\<close> arm runs; a job that has a thread keeps it, blocked in the queue.
\<close>

definition cancel_task :: "nat \<Rightarrow> wio \<Rightarrow> wio option" where
  "cancel_task i s =
     (let c = callers s ! i in
      if c_api c = Sync then None
      else case c_pc c of
        Submitted \<Rightarrow> Some (goto i (Finished CancelledErr) s)
      | Acquiring \<Rightarrow> Some (goto i Orphaned s)
      | JobDone \<Rightarrow> Some (goto i Leaked s)
      | Acquired \<Rightarrow> Some (goto i LateRelease s)
      | GetQueued \<Rightarrow> Some (goto i (FinPop CancelledErr) s)
      | Get \<Rightarrow>
          (case c_queue c of None \<Rightarrow> None
           | Some q \<Rightarrow> Some (goto i (FinPop CancelledErr) (s\<lparr>stale := stale s @ [q]\<rparr>)))
      | _ \<Rightarrow> None)"

text \<open>The thread of such a job takes an event nobody waits for, or sixty seconds pass.\<close>

definition remove_nth :: "nat \<Rightarrow> 'a list \<Rightarrow> 'a list" where
  "remove_nth j xs = take j xs @ drop (Suc j) xs"

definition stale_step :: "nat \<Rightarrow> wio \<Rightarrow> wio" where
  "stale_step j s =
     (let q = stale s ! j in
      s\<lparr>stale := remove_nth j (stale s), queues := (queues s)(q := tl (queues s q))\<rparr>)"

text \<open>\<^verbatim>\<open>close\<close>: set the flag under the stdin lock, drain the table under its lock, notify.\<close>

definition close_begin :: "wio \<Rightarrow> wio" where
  "close_begin s = s\<lparr>closed := True, closers := closers s @ [Draining]\<rparr>"

definition close_step :: "nat \<Rightarrow> wio \<Rightarrow> wio option" where
  "close_step j s =
     (case closers s ! j of
        Draining \<Rightarrow>
          Some (s\<lparr>inflight := [],
                  closers := (closers s)[j := Notifying (map snd (inflight s))]\<rparr>)
      | Notifying [] \<Rightarrow> None
      | Notifying (q # qs) \<Rightarrow>
          Some (q_put q worker_exit (s\<lparr>closers := (closers s)[j := Notifying qs]\<rparr>)))"

text \<open>The request id of an event: \<^verbatim>\<open>event.get("request_id") or event.get("id")\<close>.\<close>

definition event_rid :: "event \<Rightarrow> json" where
  "event_rid ev = py_or (dget ev ''request_id'') (dget ev ''id'')"

text \<open>
  Looking an id up in the dictionary.  The keys are strings, so another hashable value is never
  found; a list or an object is not hashable and the lookup raises (\<open>None\<close>).
\<close>

fun lookup_rid :: "(string \<times> nat) list \<Rightarrow> json \<Rightarrow> nat option option" where
  "lookup_rid d (JStr k) = Some (map_of d k)"
| "lookup_rid d (JList _) = None"
| "lookup_rid d (JObj _) = None"
| "lookup_rid d _ = Some None"

text \<open>
  Routing one parsed event, under the in-flight lock: by id, and an error without a known id to
  the sole in-flight request, if there is exactly one.  \<open>None\<close>: the lookup raised.
\<close>

definition route :: "(string \<times> nat) list \<Rightarrow> event \<Rightarrow> nat option option" where
  "route d ev =
     (case (if truthy (event_rid ev) then lookup_rid d (event_rid ev) else Some None) of
        None \<Rightarrow> None
      | Some (Some q) \<Rightarrow> Some (Some q)
      | Some None \<Rightarrow>
          if is_error ev \<and> length d = 1 then Some (Some (snd (hd d))) else Some None)"

text \<open>What \<^verbatim>\<open>json.loads\<close> makes of a stdout line: it raises, or it returns a value.\<close>

datatype stdout_item = BlankLine | NotJson | Parsed json

text \<open>
  One iteration of \<^verbatim>\<open>_reader_loop\<close>.  A value that is not an object has no \<^verbatim>\<open>get\<close>; that
  exception, like one from the lookup, leaves the loop for the \<^verbatim>\<open>finally\<close> arm.
\<close>

definition reader_line :: "stdout_item \<Rightarrow> wio \<Rightarrow> wio option" where
  "reader_line item s =
     (if reader s \<noteq> RLoop then None
      else case item of
        BlankLine \<Rightarrow> Some s
      | NotJson \<Rightarrow> Some s
      | Parsed v \<Rightarrow>
          (case v of
             JObj ev \<Rightarrow>
               (case route (inflight s) ev of
                  None \<Rightarrow> Some (s\<lparr>reader := RFinally\<rparr>)
                | Some None \<Rightarrow> Some s
                | Some (Some q) \<Rightarrow> Some (s\<lparr>reader := RPut q ev\<rparr>))
           | _ \<Rightarrow> Some (s\<lparr>reader := RFinally\<rparr>)))"

definition reader_eof :: "wio \<Rightarrow> wio option" where
  "reader_eof s = (if reader s = RLoop then Some (s\<lparr>reader := RFinally\<rparr>) else None)"

text \<open>The reader's own next step: the pending \<^verbatim>\<open>put\<close>, or the whole \<^verbatim>\<open>finally\<close> under the lock.\<close>

definition reader_step :: "wio \<Rightarrow> wio option" where
  "reader_step s = (case reader s of
      RPut q ev \<Rightarrow> Some (q_put q ev (s\<lparr>reader := RLoop\<rparr>))
    | RFinally \<Rightarrow>
        Some ((fold (\<lambda>q. q_put q worker_exit) (map snd (inflight s)) s)
                \<lparr>inflight := [], reader := RDone\<rparr>)
    | _ \<Rightarrow> None)"

section \<open>Interleaved runs\<close>

datatype action =
    CallRequest "string option" json
  | CallSendRequest string "string option" json
  | Step nat
  | StepBrokenPipe nat
  | Resume nat
  | Abandon nat
  | Timeout nat
  | CancelTask nat
  | StaleStep nat
  | Cancel bool string
  | CloseBegin
  | CloseStep nat
  | StdoutLine stdout_item
  | StdoutEOF
  | ReaderStep

text \<open>\<open>None\<close>: the action is not enabled.\<close>

fun wio_step :: "wio \<Rightarrow> action \<Rightarrow> wio option" where
  "wio_step s (CallRequest pid body) = Some (call_request pid body s)"
| "wio_step s (CallSendRequest r pid body) = Some (call_send_request r pid body s)"
| "wio_step s (Step i) = (if i < length (callers s) then caller_step True i s else None)"
| "wio_step s (StepBrokenPipe i) = (if i < length (callers s) then caller_step False i s else None)"
| "wio_step s (Resume i) = (if i < length (callers s) then resume i s else None)"
| "wio_step s (Abandon i) = (if i < length (callers s) then abandon i s else None)"
| "wio_step s (Timeout i) = (if i < length (callers s) then timeout i s else None)"
| "wio_step s (CancelTask i) = (if i < length (callers s) then cancel_task i s else None)"
| "wio_step s (StaleStep j) = (if j < length (stale s) then Some (stale_step j s) else None)"
| "wio_step s (Cancel ok r) = Some (cancel ok r s)"
| "wio_step s CloseBegin = Some (close_begin s)"
| "wio_step s (CloseStep j) = (if j < length (closers s) then close_step j s else None)"
| "wio_step s (StdoutLine item) = reader_line item s"
| "wio_step s StdoutEOF = reader_eof s"
| "wio_step s ReaderStep = reader_step s"

definition wio_run :: "wio \<Rightarrow> action list \<Rightarrow> wio option" where
  "wio_run = runs wio_step"

text \<open>The request ids of the calls of a run, in order.\<close>

fun call_ids :: "action list \<Rightarrow> string list" where
  "call_ids [] = []"
| "call_ids (CallRequest (Some k) _ # as) = k # call_ids as"
| "call_ids (CallSendRequest k _ _ # as) = k # call_ids as"
| "call_ids (_ # as) = call_ids as"

text \<open>The events the worker emitted on stdout in a run, in order.\<close>

fun emitted :: "action list \<Rightarrow> event list" where
  "emitted [] = []"
| "emitted (StdoutLine (Parsed (JObj ev)) # as) = ev # emitted as"
| "emitted (_ # as) = emitted as"

end
