(* ===== verification/WorkerIO_Props.thy ===== *)
theory WorkerIO_Props
  imports WorkerIO
begin

text \<open>
  The structural invariants of \<^verbatim>\<open>WorkerIO\<close> that need no assumption on the callers: permits
  are conserved, the in-flight table has distinct keys owned by live callers, and queues are
  private.  Every action is first classified (\<open>caller_move\<close>, \<open>wio_step_cases\<close>), and each
  invariant is proved over the classification.
\<close>

section \<open>Frame lemmas\<close>

definition holds :: "caller \<Rightarrow> nat" where
  "holds c = (case c_pc c of
      Submitted \<Rightarrow> 0 | Acquiring \<Rightarrow> 0 | Orphaned \<Rightarrow> 0 | FinCancel _ \<Rightarrow> 0 | Finished _ \<Rightarrow> 0
    | _ \<Rightarrow> 1)"

definition holders :: "wio \<Rightarrow> nat" where
  "holders s = sum_list (map holds (callers s))"

lemma callers_goto [simp]:
  "callers (goto i p s) = (callers s)[i := (callers s ! i)\<lparr>c_pc := p\<rparr>]"
  by (simp add: goto_def set_caller_def)

lemma goto_frame [simp]:
  "inflight (goto i p s) = inflight s" "queues (goto i p s) = queues s"
  "next_queue (goto i p s) = next_queue s" "sem (goto i p s) = sem s"
  "closed (goto i p s) = closed s" "stdin (goto i p s) = stdin s"
  "reader (goto i p s) = reader s" "closers (goto i p s) = closers s"
  "capacity (goto i p s) = capacity s" "cancel_count (goto i p s) = cancel_count s"
  "pool (goto i p s) = pool s" "stale (goto i p s) = stale s"
  by (simp_all add: goto_def set_caller_def)

lemma pop_inflight_frame [simp]:
  "callers (pop_inflight r s) = callers s" "queues (pop_inflight r s) = queues s"
  "next_queue (pop_inflight r s) = next_queue s" "sem (pop_inflight r s) = sem s"
  "closed (pop_inflight r s) = closed s" "stdin (pop_inflight r s) = stdin s"
  "reader (pop_inflight r s) = reader s" "closers (pop_inflight r s) = closers s"
  "capacity (pop_inflight r s) = capacity s" "pool (pop_inflight r s) = pool s" "stale (pop_inflight r s) = stale s"
  by (simp_all add: pop_inflight_def split: option.splits)

lemma cancel_frame [simp]:
  "callers (cancel ok r s) = callers s" "queues (cancel ok r s) = queues s"
  "next_queue (cancel ok r s) = next_queue s" "sem (cancel ok r s) = sem s"
  "closed (cancel ok r s) = closed s" "inflight (cancel ok r s) = inflight s"
  "reader (cancel ok r s) = reader s" "closers (cancel ok r s) = closers s"
  "capacity (cancel ok r s) = capacity s" "pool (cancel ok r s) = pool s" "stale (cancel ok r s) = stale s"
  by (simp_all add: cancel_def Let_def)

lemma q_put_frame [simp]:
  "callers (q_put q e s) = callers s" "inflight (q_put q e s) = inflight s"
  "next_queue (q_put q e s) = next_queue s" "sem (q_put q e s) = sem s"
  "closed (q_put q e s) = closed s" "stdin (q_put q e s) = stdin s"
  "reader (q_put q e s) = reader s" "closers (q_put q e s) = closers s"
  "capacity (q_put q e s) = capacity s" "pool (q_put q e s) = pool s" "stale (q_put q e s) = stale s"
  by (simp_all add: q_put_def)

lemma fold_q_put_frame [simp]:
  "callers (fold (\<lambda>q. q_put q e) qs s) = callers s"
  "next_queue (fold (\<lambda>q. q_put q e) qs s) = next_queue s"
  "sem (fold (\<lambda>q. q_put q e) qs s) = sem s"
  "closed (fold (\<lambda>q. q_put q e) qs s) = closed s"
  "stdin (fold (\<lambda>q. q_put q e) qs s) = stdin s"
  "closers (fold (\<lambda>q. q_put q e) qs s) = closers s"
  "capacity (fold (\<lambda>q. q_put q e) qs s) = capacity s" "pool (fold (\<lambda>q. q_put q e) qs s) = pool s" "stale (fold (\<lambda>q. q_put q e) qs s) = stale s"
  by (induction qs arbitrary: s) simp_all

lemma stale_step_frame [simp]:
  "callers (stale_step j s) = callers s" "inflight (stale_step j s) = inflight s"
  "next_queue (stale_step j s) = next_queue s" "sem (stale_step j s) = sem s"
  "closed (stale_step j s) = closed s" "stdin (stale_step j s) = stdin s"
  "reader (stale_step j s) = reader s" "closers (stale_step j s) = closers s"
  "capacity (stale_step j s) = capacity s" "pool (stale_step j s) = pool s"
  "stale (stale_step j s) = remove_nth j (stale s)"
  by (simp_all add: stale_step_def Let_def)

lemma remove_nth_set: "set (remove_nth j xs) \<subseteq> set xs"
  by (auto simp: remove_nth_def dest: in_set_takeD in_set_dropD)

lemma remove_nth_length: "j < length xs \<Longrightarrow> length (remove_nth j xs) = length xs - 1"
  by (simp add: remove_nth_def)

text \<open>Only the queue of the thread that ends changes, and only by losing its first event.\<close>

lemma stale_step_queues:
  "q \<notin> set (stale s) \<Longrightarrow> j < length (stale s) \<Longrightarrow> queues (stale_step j s) q = queues s q"
  "subseq (queues (stale_step j s) q) (queues s q)"
  by (auto simp: stale_step_def Let_def)

lemma holds_update [simp]: "holds (c\<lparr>c_queue := q\<rparr>) = holds c" "holds (c\<lparr>c_seen := es\<rparr>) = holds c"
  by (simp_all add: holds_def)

section \<open>The moves of a caller\<close>

text \<open>
  A caller is live from the insertion of its queue to its last \<^verbatim>\<open>pop\<close>, and waiting while it
  consumes events.  Every action of a caller is one of ten moves, each with its effect on the
  shared state; the invariants are proved over the moves.
\<close>

definition live :: "pc \<Rightarrow> bool" where
  "live p = (case p of
      WriteLine \<Rightarrow> True | PopFailed _ \<Rightarrow> True | GetQueued \<Rightarrow> True | Get \<Rightarrow> True | Yielded _ \<Rightarrow> True | FinPop _ \<Rightarrow> True
    | _ \<Rightarrow> False)"

definition fresh :: "pc \<Rightarrow> bool" where
  "fresh p = (p \<in> {Submitted, Acquiring, JobDone, Acquired, CheckClosed, Register})"

definition waiting :: "pc \<Rightarrow> bool" where
  "waiting p = (case p of GetQueued \<Rightarrow> True | Get \<Rightarrow> True | Yielded _ \<Rightarrow> True | _ \<Rightarrow> False)"

lemma live_simps [simp]:
  "live WriteLine" "live (PopFailed e)" "live GetQueued" "live Get" "live (Yielded ev)" "live (FinPop e)"
  "\<not> live Submitted" "\<not> live Acquiring" "\<not> live JobDone" "\<not> live Acquired" "\<not> live Orphaned"
  "\<not> live LateRelease" "\<not> live Leaked" "\<not> live CheckClosed" "\<not> live Abort"
  "\<not> live Register" "\<not> live (FinRelease e)" "\<not> live (FinCancel e)" "\<not> live (Finished e)"
  by (simp_all add: live_def)

lemma waiting_simps [simp]:
  "waiting GetQueued" "waiting Get" "waiting (Yielded ev)" "\<not> waiting WriteLine" "\<not> waiting (PopFailed e)"
  "\<not> waiting (FinPop e)" "\<not> waiting Register" "\<not> waiting (Finished e)"
  by (simp_all add: waiting_def)

inductive caller_move :: "nat \<Rightarrow> wio \<Rightarrow> wio \<Rightarrow> bool" where
  stay: "\<lbrakk>live p = live (c_pc (callers s ! i)); waiting p \<Longrightarrow> waiting (c_pc (callers s ! i));
          fresh p \<Longrightarrow> fresh (c_pc (callers s ! i)); p \<noteq> WriteLine;
          holds ((callers s ! i)\<lparr>c_pc := p\<rparr>) = holds (callers s ! i)\<rbrakk>
         \<Longrightarrow> caller_move i s (goto i p s)"
| take_permit: "\<lbrakk>0 < sem s; \<not> live p; \<not> live (c_pc (callers s ! i));
          fresh p \<Longrightarrow> fresh (c_pc (callers s ! i));
          holds (callers s ! i) = 0; holds ((callers s ! i)\<lparr>c_pc := p\<rparr>) = 1\<rbrakk>
         \<Longrightarrow> caller_move i s (goto i p (s\<lparr>sem := sem s - 1\<rparr>))"
| give_permit: "\<lbrakk>\<not> live p; \<not> fresh p; \<not> live (c_pc (callers s ! i));
          holds (callers s ! i) = 1; holds ((callers s ! i)\<lparr>c_pc := p\<rparr>) = 0\<rbrakk>
         \<Longrightarrow> caller_move i s (goto i p (s\<lparr>sem := Suc (sem s)\<rparr>))"
| enter: "\<lbrakk>c_pc (callers s ! i) = Register; c_rid (callers s ! i) = Some k\<rbrakk>
         \<Longrightarrow> caller_move i s (register i k s)"
| send: "\<lbrakk>c_pc (callers s ! i) = WriteLine; \<not> closed s; c_rid (callers s ! i) = Some k\<rbrakk>
         \<Longrightarrow> caller_move i s (goto i (await_event (c_api (callers s ! i)))
               (s\<lparr>stdin := stdin s @ [ReqLine k (c_body (callers s ! i))]\<rparr>))"
| pop: "\<lbrakk>live (c_pc (callers s ! i)); \<not> waiting p; \<not> fresh p; p \<noteq> WriteLine;
          holds (callers s ! i) = 1; holds ((callers s ! i)\<lparr>c_pc := p\<rparr>) = 1\<rbrakk>
         \<Longrightarrow> caller_move i s (goto i p (pop_inflight (c_rid (callers s ! i)) s))"
| consume_exit: "\<lbrakk>c_pc (callers s ! i) = Get; c_queue (callers s ! i) = Some q;
          queues s q = ev # rest; is_exit ev\<rbrakk>
         \<Longrightarrow> caller_move i s (goto i (FinPop WorkerExitError) (s\<lparr>queues := (queues s)(q := rest)\<rparr>))"
| consume: "\<lbrakk>c_pc (callers s ! i) = Get; c_queue (callers s ! i) = Some q;
          queues s q = ev # rest; \<not> is_exit ev\<rbrakk>
         \<Longrightarrow> caller_move i s (set_caller i ((callers s ! i)\<lparr>c_pc := Yielded ev,
               c_seen := c_seen (callers s ! i) @ [ev]\<rparr>) (s\<lparr>queues := (queues s)(q := rest)\<rparr>))"
| leave_get: "\<lbrakk>c_pc (callers s ! i) = Get; c_api (callers s ! i) = Async; c_queue (callers s ! i) = Some q\<rbrakk>
         \<Longrightarrow> caller_move i s (goto i (FinPop CancelledErr) (s\<lparr>stale := stale s @ [q]\<rparr>))"
| send_cancel: "\<lbrakk>c_pc (callers s ! i) = FinCancel out; c_rid (callers s ! i) = Some k\<rbrakk>
         \<Longrightarrow> caller_move i s (goto i (Finished out) (cancel ok k s))"

lemma await_event_simps [simp]:
  "live (await_event a)" "waiting (await_event a)" "\<not> fresh (await_event a)" "await_event a \<noteq> WriteLine"
  "holds (c\<lparr>c_pc := await_event a\<rparr>) = 1"
  by (cases a; simp add: await_event_def fresh_def holds_def)+

lemma caller_step_move:
  assumes "caller_step ok i s = Some t"
  shows "caller_move i s t"
proof (cases "c_pc (callers s ! i)")
  case WriteLine
  with assms obtain k where k: "c_rid (callers s ! i) = Some k" and t: "t = write_line ok i k s"
    by (auto simp: caller_step_def Let_def split: option.splits)
  show ?thesis
  proof (cases "\<not> closed s \<and> ok")
    case True
    then show ?thesis
      using caller_move.send [of s i k] WriteLine k unfolding t write_line_def by (simp add: Let_def)
  next
    case False
    then show ?thesis
      using WriteLine k unfolding t write_line_def
      by (auto simp: Let_def fail_write_def live_def waiting_def fresh_def holds_def split: api.splits
          intro!: caller_move.stay)
  qed
next
  case Get
  with assms show ?thesis
    by (auto simp: caller_step_def Let_def get_event_def split: option.splits list.splits if_splits
        intro: caller_move.consume caller_move.consume_exit)
next
  case Register
  with assms show ?thesis
    by (auto simp: caller_step_def Let_def live_def waiting_def fresh_def holds_def split: option.splits
        intro!: caller_move.stay caller_move.enter)
next
  case (FinCancel out)
  with assms show ?thesis
    by (auto simp: caller_step_def Let_def split: option.splits intro: caller_move.send_cancel)
next
  case (PopFailed out)
  with assms have "t = goto i (FinPop out) (pop_inflight (c_rid (callers s ! i)) s)"
    by (simp add: caller_step_def Let_def)
  with PopFailed show ?thesis
    by (auto simp: live_def waiting_def fresh_def holds_def intro!: caller_move.pop)
next
  case (FinPop out)
  with assms have "t = goto i (FinRelease out) (pop_inflight (c_rid (callers s ! i)) s)"
    by (simp add: caller_step_def Let_def)
  with FinPop show ?thesis
    by (auto simp: live_def waiting_def fresh_def holds_def intro!: caller_move.pop)
qed (use assms in \<open>auto simp: caller_step_def Let_def live_def waiting_def fresh_def holds_def after_release_def
        split: if_splits intro!: caller_move.stay caller_move.take_permit [unfolded One_nat_def] caller_move.give_permit\<close>)

lemma resume_move: "resume i s = Some t \<Longrightarrow> caller_move i s t"
  by (cases "c_api (callers s ! i)")
    (auto simp: resume_def await_event_def live_def waiting_def fresh_def holds_def split: pc.splits if_splits intro!: caller_move.stay)

lemma abandon_move: "abandon i s = Some t \<Longrightarrow> caller_move i s t"
  by (auto simp: abandon_def live_def waiting_def fresh_def holds_def split: pc.splits intro!: caller_move.stay)

lemma timeout_move: "timeout i s = Some t \<Longrightarrow> caller_move i s t"
  by (auto simp: timeout_def Let_def live_def waiting_def fresh_def holds_def
      split: pc.splits option.splits if_splits intro!: caller_move.stay)

lemma cancel_task_move: "cancel_task i s = Some t \<Longrightarrow> caller_move i s t"
  by (cases "c_api (callers s ! i)")
    (auto simp: cancel_task_def Let_def live_def waiting_def fresh_def holds_def
      split: pc.splits if_splits option.splits intro!: caller_move.stay caller_move.leave_get)

text \<open>A leaked permit's job has no step left.\<close>

lemma leaked_stuck:
  "caller_step ok i s = Some t \<Longrightarrow> c_pc (callers s ! i) \<noteq> Leaked"
  "resume i s = Some t \<Longrightarrow> c_pc (callers s ! i) \<noteq> Leaked"
  "abandon i s = Some t \<Longrightarrow> c_pc (callers s ! i) \<noteq> Leaked"
  "timeout i s = Some t \<Longrightarrow> c_pc (callers s ! i) \<noteq> Leaked"
  "cancel_task i s = Some t \<Longrightarrow> c_pc (callers s ! i) \<noteq> Leaked"
  by (auto simp: caller_step_def resume_def abandon_def timeout_def cancel_task_def Let_def
      split: if_splits option.splits)

text \<open>Every action of the system is one of eleven kinds; the invariants are proved kind by kind.\<close>

lemma wio_step_cases [consumes 1, case_names call move stale cancel close_begin drain notify skip stop deliver own]:
  assumes "wio_step s a = Some t"
  obtains
    (call) c where "t = s\<lparr>callers := callers s @ [c]\<rparr>"
      "c_pc c \<in> {Submitted, Acquiring, Finished ValueErrorId}" "c_queue c = None" "c_seen c = []"
      "call_ids [a] = (case c_rid c of None \<Rightarrow> [] | Some k \<Rightarrow> [k])" "emitted [a] = []"
  | (move) i where "i < length (callers s)" "caller_move i s t" "call_ids [a] = []" "emitted [a] = []"
      "c_pc (callers s ! i) \<noteq> Leaked"
  | (stale) j where "j < length (stale s)" "t = stale_step j s" "call_ids [a] = []" "emitted [a] = []"
  | (cancel) ok r where "t = cancel ok r s" "call_ids [a] = []" "emitted [a] = []"
  | (close_begin) "t = close_begin s" "call_ids [a] = []" "emitted [a] = []"
  | (drain) j where "j < length (closers s)" "closers s ! j = Draining"
      "t = s\<lparr>inflight := [], closers := (closers s)[j := Notifying (map snd (inflight s))]\<rparr>"
      "call_ids [a] = []" "emitted [a] = []"
  | (notify) j q qs where "j < length (closers s)" "closers s ! j = Notifying (q # qs)"
      "t = q_put q worker_exit (s\<lparr>closers := (closers s)[j := Notifying qs]\<rparr>)"
      "call_ids [a] = []" "emitted [a] = []"
  | (skip) "t = s" "call_ids [a] = []"
  | (stop) "reader s = RLoop" "t = s\<lparr>reader := RFinally\<rparr>" "call_ids [a] = []"
  | (deliver) q ev where "reader s = RLoop" "route (inflight s) ev = Some (Some q)"
      "t = s\<lparr>reader := RPut q ev\<rparr>" "call_ids [a] = []" "emitted [a] = [ev]"
  | (own) "call_ids [a] = []" "emitted [a] = []" "reader_step s = Some t"
proof (cases a)
  case (CallRequest pid body)
  with assms show ?thesis
    by (intro call [of "\<lparr>c_api = Sync, c_rid = pid, c_body = body, c_pc = Acquiring,
          c_queue = None, c_seen = []\<rparr>"])
      (auto simp: call_request_def fresh_def split: option.splits)
next
  case (CallSendRequest r pid body)
  with assms show ?thesis
    by (intro call [of "last (callers t)"])
      (auto simp: call_send_request_def fresh_def Let_def split: option.splits if_splits)
next
  case (StdoutLine item)
  with assms show ?thesis
    by (auto simp: reader_line_def split: if_splits stdout_item.splits json.splits option.splits
        intro: skip stop deliver)
next
  case (Step i)
  with assms show ?thesis by (intro move [of i]) (auto split: if_splits intro: caller_step_move dest: leaked_stuck)
next
  case (StepBrokenPipe i)
  with assms show ?thesis by (intro move [of i]) (auto split: if_splits intro: caller_step_move dest: leaked_stuck)
next
  case (Resume i)
  with assms show ?thesis by (intro move [of i]) (auto split: if_splits intro: resume_move dest: leaked_stuck)
next
  case (Abandon i)
  with assms show ?thesis by (intro move [of i]) (auto split: if_splits intro: abandon_move dest: leaked_stuck)
next
  case (Timeout i)
  with assms show ?thesis by (intro move [of i]) (auto split: if_splits intro: timeout_move dest: leaked_stuck)
next
  case (CancelTask i)
  with assms show ?thesis by (intro move [of i]) (auto split: if_splits intro: cancel_task_move dest: leaked_stuck)
next
  case (StaleStep j)
  with assms show ?thesis by (intro stale [of j]) (auto split: if_splits)
next
  case (Cancel ok r)
  with assms show ?thesis by (intro cancel [of ok r]) auto
next
  case CloseBegin
  with assms show ?thesis by (intro close_begin) auto
next
  case (CloseStep j)
  with assms consider "closers s ! j = Draining" | q qs where "closers s ! j = Notifying (q # qs)"
    by (auto simp: close_step_def split: if_splits closer.splits list.splits)
  then show ?thesis
  proof cases
    case 1
    with CloseStep assms show ?thesis
      by (intro drain [of j]) (auto simp: close_step_def split: if_splits)
  next
    case 2
    with CloseStep assms show ?thesis
      by (intro notify [of j q qs]) (auto simp: close_step_def split: if_splits)
  qed
next
  case StdoutEOF
  with assms show ?thesis by (intro stop) (auto simp: reader_eof_def split: if_splits)
next
  case ReaderStep
  with assms show ?thesis by (intro own) auto
qed

lemma call_ids_append [simp]: "call_ids (as @ bs) = call_ids as @ call_ids bs"
  by (induction as rule: call_ids.induct) auto

lemma emitted_append [simp]: "emitted (as @ bs) = emitted as @ emitted bs"
  by (induction as rule: emitted.induct) auto

lemma fold_q_put_queues:
  "queues (fold (\<lambda>q. q_put q e) qs s) q = queues s q @ replicate (count_list qs q) e"
  by (induction qs arbitrary: s) (auto simp: q_put_def replicate_append_same)

section \<open>Permits\<close>

definition permits_ok :: "wio \<Rightarrow> bool" where
  "permits_ok s \<longleftrightarrow> sem s + holders s = capacity s"

lemma permits_local:
  assumes "i < length (callers s)" and "permits_ok s"
    and "callers t = (callers s)[i := callers t ! i]"
    and "sem t + holds (callers t ! i) = sem s + holds (callers s ! i)"
    and "capacity t = capacity s"
  shows "permits_ok t"
  using sum_list_update_nat [OF assms(1), of holds "callers t ! i"] assms(2-5)
  by (simp add: permits_ok_def holders_def)

lemma register_frame [simp]:
  "callers (register i k s) =
     (callers s)[i := (callers s ! i)\<lparr>c_queue := Some (next_queue s), c_pc := WriteLine\<rparr>]"
  "sem (register i k s) = sem s" "capacity (register i k s) = capacity s"
  "closed (register i k s) = closed s" "closers (register i k s) = closers s"
  "reader (register i k s) = reader s" "stdin (register i k s) = stdin s"
  "inflight (register i k s) = AList.update k (next_queue s) (inflight s)"
  "next_queue (register i k s) = Suc (next_queue s)"
  "queues (register i k s) = (queues s)(next_queue s := [])"
  "pool (register i k s) = pool s" "stale (register i k s) = stale s"
  by (simp_all add: register_def set_caller_def Let_def)

lemma set_caller_frame [simp]:
  "callers (set_caller i c s) = (callers s)[i := c]" "sem (set_caller i c s) = sem s"
  "capacity (set_caller i c s) = capacity s" "closed (set_caller i c s) = closed s"
  "closers (set_caller i c s) = closers s" "reader (set_caller i c s) = reader s"
  "inflight (set_caller i c s) = inflight s" "next_queue (set_caller i c s) = next_queue s"
  "queues (set_caller i c s) = queues s" "stdin (set_caller i c s) = stdin s"
  "pool (set_caller i c s) = pool s" "stale (set_caller i c s) = stale s"
  by (simp_all add: set_caller_def)

lemma permits_move:
  assumes "caller_move i s t" and "i < length (callers s)" and "permits_ok s"
  shows "permits_ok t"
proof (rule permits_local [OF assms(2,3)])
  show "callers t = (callers s)[i := callers t ! i]"
    using assms(1,2) by cases simp_all
  show "sem t + holds (callers t ! i) = sem s + holds (callers s ! i)"
    using assms(1,2) by cases (simp_all add: holds_def await_event_def split: api.splits)
  show "capacity t = capacity s"
    using assms(1) by cases simp_all
qed

lemma reader_step_frame:
  assumes "reader_step s = Some t"
  shows "callers t = callers s" "sem t = sem s" "capacity t = capacity s"
    "next_queue t = next_queue s" "closed t = closed s" "closers t = closers s" "stdin t = stdin s"
    "pool t = pool s" "stale t = stale s"
  using assms by (auto simp: reader_step_def split: reader.splits)

lemma permits_step:
  assumes "wio_step s a = Some t" and "permits_ok s"
  shows "permits_ok t"
  using assms(1)
proof (cases rule: wio_step_cases)
  case (call c)
  then have "holds c = 0" by (auto simp: holds_def)
  with call assms(2) show ?thesis by (simp add: permits_ok_def holders_def)
next
  case (move i)
  then show ?thesis using permits_move assms(2) by blast
next
  case own
  then show ?thesis using assms(2) by (simp add: permits_ok_def holders_def reader_step_frame)
qed (use assms(2) in \<open>simp_all add: permits_ok_def holders_def close_begin_def\<close>)

section \<open>The in-flight table\<close>

text \<open>
  Keys are distinct; every entry belongs to a live caller that created the queue for that id;
  queues are not shared and were allocated; a caller has no queue before it registers, and no
  thread is left blocked in the queue of a caller that still uses it.
\<close>

definition owns :: "wio \<Rightarrow> nat \<Rightarrow> string \<Rightarrow> nat \<Rightarrow> bool" where
  "owns s i k q \<longleftrightarrow> i < length (callers s) \<and> c_rid (callers s ! i) = Some k
     \<and> c_queue (callers s ! i) = Some q"

definition keys_ok :: "wio \<Rightarrow> bool" where
  "keys_ok s \<longleftrightarrow> distinct (map fst (inflight s))
     \<and> (\<forall>k q. map_of (inflight s) k = Some q \<longrightarrow> (\<exists>i. owns s i k q \<and> live (c_pc (callers s ! i))))"

definition queues_ok :: "wio \<Rightarrow> bool" where
  "queues_ok s \<longleftrightarrow>
     (\<forall>i<length (callers s). \<forall>q. c_queue (callers s ! i) = Some q \<longrightarrow> q < next_queue s)
   \<and> (\<forall>i<length (callers s). \<forall>j<length (callers s). \<forall>q.
        c_queue (callers s ! i) = Some q \<longrightarrow> c_queue (callers s ! j) = Some q \<longrightarrow> i = j)"

definition phase_ok :: "caller \<Rightarrow> bool" where
  "phase_ok c \<longleftrightarrow> (live (c_pc c) \<longrightarrow> c_queue c \<noteq> None \<and> c_rid c \<noteq> None)
     \<and> (fresh (c_pc c) \<longrightarrow> c_queue c = None \<and> c_seen c = [])
     \<and> (c_queue c = None \<longrightarrow> c_seen c = [])"

definition stale_ok :: "wio \<Rightarrow> bool" where
  "stale_ok s \<longleftrightarrow> (\<forall>q\<in>set (stale s). q < next_queue s
     \<and> (\<forall>i k. owns s i k q \<longrightarrow> \<not> waiting (c_pc (callers s ! i)) \<and> c_pc (callers s ! i) \<noteq> WriteLine))"

definition phases_ok :: "wio \<Rightarrow> bool" where
  "phases_ok s \<longleftrightarrow> (\<forall>c\<in>set (callers s). phase_ok c)"

definition pending_ok :: "wio \<Rightarrow> bool" where
  "pending_ok s \<longleftrightarrow> (\<forall>q ev. reader s = RPut q ev \<longrightarrow> q < next_queue s)"

lemmas move_phase_simps = live_def waiting_def fresh_def

lemma live_not_fresh: "live p \<Longrightarrow> \<not> fresh p"
  by (auto simp: live_def fresh_def)

lemma waiting_live: "waiting p \<Longrightarrow> live p"
  by (auto simp: live_def waiting_def split: pc.splits)

lemma phases_move:
  assumes "caller_move i s t" and "i < length (callers s)" and "phases_ok s"
  shows "phases_ok t"
proof -
  have c: "phase_ok (callers s ! i)" using assms(2,3) by (simp add: phases_ok_def)
  have "phase_ok (callers t ! i)"
    using assms(1,2) c by cases (auto simp: phase_ok_def move_phase_simps await_event_def split: api.splits)
  moreover have "callers t = (callers s)[i := callers t ! i]"
    using assms(1,2) by cases simp_all
  ultimately show ?thesis
    using assms(3) by (metis phases_ok_def set_update_subset_insert insert_iff subsetD)
qed

lemma queues_move:
  assumes "caller_move i s t" and "i < length (callers s)" and "queues_ok s"
  shows "queues_ok t"
  using assms(1)
proof cases
  case (enter k)
  have lt: "\<And>j. j < length (callers s) \<Longrightarrow> c_queue (callers s ! j) \<noteq> Some (next_queue s)"
    using assms(3) by (auto simp: queues_ok_def)
  show ?thesis
    using enter assms(2,3) lt
    by (auto simp: queues_ok_def nth_list_update less_Suc_eq)
qed (use assms(2,3) in \<open>auto simp: queues_ok_def nth_list_update\<close>)

lemma keys_okE:
  assumes "keys_ok s" and "map_of (inflight s) k = Some q"
  obtains i where "owns s i k q" "live (c_pc (callers s ! i))"
  using assms unfolding keys_ok_def by blast

lemma keys_frame:
  assumes "keys_ok s" and "inflight t = inflight s"
    and "\<And>j k q. owns s j k q \<Longrightarrow> live (c_pc (callers s ! j)) \<Longrightarrow>
           owns t j k q \<and> live (c_pc (callers t ! j))"
  shows "keys_ok t"
  using assms unfolding keys_ok_def by metis

lemma keys_frame_local:
  assumes "i < length (callers s)" and "keys_ok s" and "inflight t = inflight s"
    and "callers t = (callers s)[i := callers t ! i]"
    and "c_rid (callers t ! i) = c_rid (callers s ! i)"
    and "c_queue (callers t ! i) = c_queue (callers s ! i)"
    and "live (c_pc (callers t ! i)) = live (c_pc (callers s ! i))"
  shows "keys_ok t"
proof (rule keys_frame [OF assms(2,3)])
  fix j k q
  assume "owns s j k q" "live (c_pc (callers s ! j))"
  then show "owns t j k q \<and> live (c_pc (callers t ! j))"
    using assms(1,4-7) by (cases "j = i") (metis owns_def length_list_update nth_list_update_neq)+
qed

lemma keys_move:
  assumes "caller_move i s t" and "i < length (callers s)" and "keys_ok s"
  shows "keys_ok t"
  using assms(1)
proof cases
  case (enter k)
  then have i: "\<not> live (c_pc (callers s ! i))" by (simp add: live_def)
  show ?thesis
    unfolding keys_ok_def
  proof (intro conjI allI impI)
    show "distinct (map fst (inflight t))"
      using assms(3) enter by (simp add: keys_ok_def distinct_update)
    fix k' q'
    assume m: "map_of (inflight t) k' = Some q'"
    show "\<exists>j. owns t j k' q' \<and> live (c_pc (callers t ! j))"
    proof (cases "k' = k")
      case True
      with m enter assms(2) show ?thesis
        by (intro exI [of _ i]) (auto simp: owns_def live_def)
    next
      case False
      with m enter have "map_of (inflight s) k' = Some q'" by simp
      with assms(3) obtain j where j: "owns s j k' q'" "live (c_pc (callers s ! j))"
        by (rule keys_okE)
      with i have "j \<noteq> i" by auto
      with j enter show ?thesis by (intro exI [of _ j]) (auto simp: owns_def)
    qed
  qed
next
  case (pop p)
  show ?thesis
    unfolding keys_ok_def
  proof (intro conjI allI impI)
    show "distinct (map fst (inflight t))"
      using assms(3) pop by (auto simp: keys_ok_def pop_inflight_def distinct_delete split: option.splits)
    fix k' q'
    assume m: "map_of (inflight t) k' = Some q'"
    then have m': "map_of (inflight s) k' = Some q'" "c_rid (callers s ! i) \<noteq> Some k'"
      using pop by (auto simp: pop_inflight_def split: option.splits if_splits)
    from assms(3) m'(1) obtain j where j: "owns s j k' q'" "live (c_pc (callers s ! j))"
      by (rule keys_okE)
    with m' have "j \<noteq> i" by (auto simp: owns_def)
    with j pop show "\<exists>j. owns t j k' q' \<and> live (c_pc (callers t ! j))"
      by (intro exI [of _ j]) (auto simp: owns_def)
  qed
qed (rule keys_frame_local [OF assms(2,3)]; simp add: assms(2))+

text \<open>The bound on the table: one entry per live caller, and live callers hold permits.\<close>

lemma holders_card: "holders s = card {i. i < length (callers s) \<and> holds (callers s ! i) = 1}"
proof -
  have h: "holds c = (if holds c = 1 then 1 else 0)" for c
    by (auto simp: holds_def split: pc.splits)
  have "holders s = (\<Sum>i<length (callers s). holds (callers s ! i))"
    by (simp add: holders_def sum_list_sum_nth atLeast0LessThan)
  also have "\<dots> = (\<Sum>i<length (callers s). if holds (callers s ! i) = 1 then 1 else 0)"
    by (subst h) simp
  also have "\<dots> = card {i. i < length (callers s) \<and> holds (callers s ! i) = 1}"
    by (simp add: sum.If_cases lessThan_def Collect_conj_eq)
  finally show ?thesis .
qed

lemma live_holds: "live (c_pc c) \<Longrightarrow> holds c = 1"
  by (auto simp: live_def holds_def split: pc.splits)

lemma inflight_le_holders:
  assumes "keys_ok s"
  shows "length (inflight s) \<le> holders s"
proof -
  let ?D = "dom (map_of (inflight s))"
  let ?H = "{i. i < length (callers s) \<and> holds (callers s ! i) = 1}"
  let ?rid = "\<lambda>i. the (c_rid (callers s ! i))"
  have "?D \<subseteq> ?rid ` ?H"
  proof
    fix k
    assume "k \<in> ?D"
    then obtain q where "map_of (inflight s) k = Some q" by blast
    with assms obtain i where "owns s i k q" "live (c_pc (callers s ! i))"
      by (rule keys_okE)
    then show "k \<in> ?rid ` ?H" by (intro image_eqI [of _ _ i]) (auto simp: owns_def live_holds)
  qed
  then have "card ?D \<le> card ?H"
    by (rule surj_card_le [rotated]) simp
  moreover have "card ?D = length (inflight s)"
    using assms distinct_card [of "map fst (inflight s)"]
    by (simp add: keys_ok_def dom_map_of_conv_image_fst)
  ultimately show ?thesis by (simp add: holders_card)
qed

end
