(* ===== verification/WorkerIO_Wake.thy ===== *)
theory WorkerIO_Wake
  imports WorkerIO_Props
begin

text \<open>
  Invariants of whole runs of \<^verbatim>\<open>WorkerIO\<close>: the combined structural invariant, and, for runs
  whose request ids are unique, that no caller waiting for events is ever lost by the two parties
  that empty the in-flight table (\<^verbatim>\<open>close\<close> and the reader's \<^verbatim>\<open>finally\<close>).
\<close>

section \<open>The structural invariant of the whole system\<close>

definition table_ok :: "wio \<Rightarrow> bool" where
  "table_ok s \<longleftrightarrow> keys_ok s \<and> queues_ok s \<and> phases_ok s \<and> pending_ok s \<and> stale_ok s"

lemma table_init: "table_ok (wio_init p n)"
  by (simp add: table_ok_def keys_ok_def queues_ok_def phases_ok_def pending_ok_def stale_ok_def wio_init_def)

lemma queues_okD:
  assumes "queues_ok s" and "owns s i k q" and "owns s j k' q"
  shows "i = j"
  using assms unfolding queues_ok_def owns_def by blast

lemma owned_allocated: "queues_ok s \<Longrightarrow> owns s i k q \<Longrightarrow> q < next_queue s"
  unfolding queues_ok_def owns_def by blast

lemma map_of_owned:
  assumes "table_ok s" and "map_of (inflight s) k = Some q"
  shows "q < next_queue s"
proof -
  have "keys_ok s" "queues_ok s" using assms(1) by (simp_all add: table_ok_def)
  from this(1) assms(2) obtain i where "owns s i k q" by (rule keys_okE)
  with \<open>queues_ok s\<close> show ?thesis by (blast intro: owned_allocated)
qed

lemma route_owner:
  assumes "table_ok s" and "route (inflight s) ev = Some (Some q)"
  obtains k where "map_of (inflight s) k = Some q" "event_rid ev = JStr k \<or> is_error ev"
proof -
  have d: "distinct (map fst (inflight s))"
    using assms(1) by (simp add: table_ok_def keys_ok_def)
  consider k where "event_rid ev = JStr k" "map_of (inflight s) k = Some q"
    | "is_error ev" "length (inflight s) = 1" "q = snd (hd (inflight s))"
    using assms(2) unfolding route_def
    by (cases "event_rid ev") (auto split: if_splits option.splits)
  then show ?thesis
  proof cases
    case 1
    then show ?thesis using that by blast
  next
    case 2
    then obtain k where "inflight s = [(k, q)]"
      by (cases "inflight s") auto
    with 2(1) show ?thesis using that [of k] by simp
  qed
qed

lemma pending_move:
  assumes "caller_move i s t" and "pending_ok s"
  shows "pending_ok t"
  using assms by cases (auto simp: pending_ok_def less_SucI)

lemma table_callers_only:
  assumes "table_ok s" and "callers t = callers s" and "next_queue t = next_queue s"
    and "inflight t = inflight s \<or> inflight t = []" and "pending_ok t" and "set (stale t) \<subseteq> set (stale s)"
  shows "table_ok t"
proof -
  have o: "owns t = owns s" using assms(2) by (simp add: owns_def fun_eq_iff)
  have "keys_ok t"
    using assms(1,2,4) unfolding table_ok_def keys_ok_def o by auto
  moreover have "queues_ok t" "phases_ok t"
    using assms(1-3) by (simp_all add: table_ok_def queues_ok_def phases_ok_def)
  moreover have "stale_ok t"
    using assms(1,2,3,6) unfolding table_ok_def stale_ok_def o by auto
  ultimately show ?thesis using assms(5) by (simp add: table_ok_def)
qed

lemma move_callersE:
  assumes "caller_move i s t"
  obtains c where "callers t = (callers s)[i := c]" "c_rid c = c_rid (callers s ! i)"
  using assms by cases simp_all

lemma move_other:
  assumes "caller_move i s t" and "j \<noteq> i"
  shows "callers t ! j = callers s ! j" and "owns t j k q = owns s j k q"
  by (rule move_callersE [OF assms(1)]; use assms(2) in \<open>simp add: owns_def\<close>)+

lemma stale_move:
  assumes m: "caller_move i s t" and i: "i < length (callers s)" and tab: "table_ok s"
  shows "stale_ok t"
  unfolding stale_ok_def
proof (intro ballI conjI allI impI)
  fix q
  assume q: "q \<in> set (stale t)"
  have st: "stale_ok s" and qok: "queues_ok s" using tab by (simp_all add: table_ok_def)
  have old: "q \<in> set (stale s) \<or> c_queue (callers s ! i) = Some q \<and> c_pc (callers s ! i) = Get
      \<and> c_pc (callers t ! i) = FinPop CancelledErr"
    using m q i by cases auto
  have lt: "q < next_queue s" using old st qok i by (auto simp: stale_ok_def queues_ok_def)
  have "next_queue s \<le> next_queue t" using m by cases auto
  with lt show "q < next_queue t" by simp
  fix j k
  assume o: "owns t j k q"
  have own: "owns s j k q"
  proof (cases "j = i")
    case True
    show ?thesis using m o lt True i by cases (auto simp: owns_def)
  next
    case False
    then show ?thesis using o by (simp add: move_other [OF m])
  qed
  show "\<not> waiting (c_pc (callers t ! j))" "c_pc (callers t ! j) \<noteq> WriteLine"
  proof -
    have "\<not> waiting (c_pc (callers t ! j)) \<and> c_pc (callers t ! j) \<noteq> WriteLine"
    proof (cases "j = i")
      case True
      from old show ?thesis
      proof
        assume "q \<in> set (stale s)"
        then have nw: "\<not> waiting (c_pc (callers s ! i))" "c_pc (callers s ! i) \<noteq> WriteLine"
          using st own True by (auto simp: stale_ok_def)
        show ?thesis using m nw o lt True i by cases (auto simp: owns_def dest: waiting_live)
      qed (simp add: True)
    next
      case False
      then have "q \<in> set (stale s)"
        using old qok own i unfolding queues_ok_def owns_def by metis
      then show ?thesis using st own False by (auto simp: stale_ok_def move_other [OF m])
    qed
    then show "\<not> waiting (c_pc (callers t ! j))" "c_pc (callers t ! j) \<noteq> WriteLine" by simp_all
  qed
qed

lemma table_call:
  assumes "table_ok s" and "c_queue c = None" and "c_seen c = []" and "\<not> live (c_pc c)"
  shows "table_ok (s\<lparr>callers := callers s @ [c]\<rparr>)" (is "table_ok ?t")
proof -
  have "keys_ok ?t"
    by (rule keys_frame [of s]) (use assms(1) in \<open>auto simp: table_ok_def owns_def nth_append\<close>)
  moreover have "queues_ok ?t"
    using assms(1,2) by (auto simp: table_ok_def queues_ok_def nth_append less_Suc_eq)
  moreover have "phases_ok ?t"
    using assms by (auto simp: table_ok_def phases_ok_def phase_ok_def)
  moreover have "stale_ok ?t"
    using assms(1,2) by (auto simp: table_ok_def stale_ok_def owns_def nth_append less_Suc_eq)
  ultimately show ?thesis using assms(1) by (simp add: table_ok_def pending_ok_def)
qed

lemma table_step:
  assumes "wio_step s a = Some t" and "table_ok s"
  shows "table_ok t"
  using assms(1)
proof (cases rule: wio_step_cases)
  case (call c)
  then show ?thesis using assms(2) by (auto intro!: table_call)
next
  case (move i)
  then show ?thesis
    using assms(2) keys_move queues_move phases_move pending_move stale_move unfolding table_ok_def by blast
next
  case (stale j)
  then show ?thesis
    using assms(2) by (intro table_callers_only [OF assms(2)]) (simp_all add: table_ok_def pending_ok_def remove_nth_set)
next
  case (deliver q ev)
  from assms(2) deliver(2) obtain k where "map_of (inflight s) k = Some q"
    by (rule route_owner)
  with assms(2) have "q < next_queue s" by (rule map_of_owned)
  with deliver show ?thesis
    by (intro table_callers_only [OF assms(2)]) (simp_all add: pending_ok_def)
next
  case own
  then show ?thesis
    by (intro table_callers_only [OF assms(2)])
      (auto simp: reader_step_def pending_ok_def split: reader.splits)
qed (rule table_callers_only [OF assms(2)];
     use assms(2) in \<open>simp add: close_begin_def table_ok_def pending_ok_def\<close>)+

lemma permits_init: "permits_ok (wio_init p n)"
  by (simp add: permits_ok_def wio_init_def holders_def)

interpretation wio_table: step_invariant wio_step "\<lambda>s. \<exists>p n. s = wio_init p n" "\<lambda>_. True"
  "\<lambda>_ s. permits_ok s \<and> table_ok s"
proof
  fix s :: wio
  assume "\<exists>p n. s = wio_init p n"
  then show "permits_ok s \<and> table_ok s" using table_init permits_init by blast
next
  fix s t :: wio and a :: action
  assume "permits_ok s \<and> table_ok s" "wio_step s a = Some t"
  then show "permits_ok t \<and> table_ok t" using table_step permits_step by blast
qed simp

section \<open>Waking the waiting callers\<close>

text \<open>
  The documented precondition of the class is that request ids are unique.  Under it, a caller
  that waits for events is either still in the table or has its sentinel: in its queue, or about
  to be put there by a \<^verbatim>\<open>close\<close> in progress.
\<close>

definition rids_ok :: "action list \<Rightarrow> wio \<Rightarrow> bool" where
  "rids_ok as s \<longleftrightarrow> List.map_filter c_rid (callers s) = call_ids as"

definition unique_rids :: "wio \<Rightarrow> bool" where
  "unique_rids s \<longleftrightarrow> distinct (List.map_filter c_rid (callers s))"

definition woken :: "wio \<Rightarrow> nat \<Rightarrow> bool" where
  "woken s q \<longleftrightarrow> worker_exit \<in> set (queues s q)
     \<or> (\<exists>qs. Notifying qs \<in> set (closers s) \<and> q \<in> set qs)"

definition wake_ok :: "wio \<Rightarrow> bool" where
  "wake_ok s \<longleftrightarrow> (\<forall>i k q. owns s i k q \<longrightarrow>
     c_pc (callers s ! i) = WriteLine \<or> waiting (c_pc (callers s ! i)) \<longrightarrow>
     map_of (inflight s) k = Some q \<or> woken s q)"

definition drained_ok :: "wio \<Rightarrow> bool" where
  "drained_ok s \<longleftrightarrow> (closed s \<longrightarrow> Draining \<notin> set (closers s) \<longrightarrow>
     (\<forall>i k q. owns s i k q \<longrightarrow> waiting (c_pc (callers s ! i)) \<longrightarrow> map_of (inflight s) k \<noteq> Some q))"

lemma is_exit_worker_exit [simp]: "is_exit worker_exit"
  by (simp add: is_exit_def worker_exit_def)

lemma rids_step:
  assumes "wio_step s a = Some t" and "rids_ok as s"
  shows "rids_ok (as @ [a]) t"
  using assms(1)
proof (cases rule: wio_step_cases)
  case (call c)
  with assms(2) show ?thesis by (simp add: rids_ok_def map_filter_snoc)
next
  case (move i)
  from move(2) obtain c where "callers t = (callers s)[i := c]" "c_rid c = c_rid (callers s ! i)"
    by (rule move_callersE)
  with move(1,3) assms(2) show ?thesis by (simp add: rids_ok_def map_filter_list_update)
next
  case own
  with assms(2) show ?thesis by (simp add: rids_ok_def reader_step_frame)
qed (use assms(2) in \<open>simp_all add: rids_ok_def close_begin_def\<close>)

lemma unique_ridsD:
  assumes "unique_rids s" and "i < length (callers s)" and "j < length (callers s)"
    and "c_rid (callers s ! i) = Some k" and "c_rid (callers s ! j) = Some k"
  shows "i = j"
  using distinct_map_filter_nth [of c_rid "callers s" i j k] assms by (simp add: unique_rids_def)

lemma wake_okD:
  assumes "wake_ok s" and "owns s i k q"
    and "c_pc (callers s ! i) = WriteLine \<or> waiting (c_pc (callers s ! i))"
  shows "map_of (inflight s) k = Some q \<or> woken s q"
  using assms unfolding wake_ok_def by blast

lemma wake_move:
  assumes m: "caller_move i s t" and i: "i < length (callers s)"
    and tab: "table_ok s" and uniq: "unique_rids s" and wake: "wake_ok s"
  shows "wake_ok t"
  unfolding wake_ok_def
proof (intro allI impI)
  fix j k q
  assume o: "owns t j k q" and p: "c_pc (callers t ! j) = WriteLine \<or> waiting (c_pc (callers t ! j))"
  have qok: "queues_ok s" using tab by (simp add: table_ok_def)
  show "map_of (inflight t) k = Some q \<or> woken t q"
  proof (cases "j = i")
    case False
    note same = move_other [OF m False]
    from o same have own: "owns s j k q" by simp
    with wake p same have old: "owns s j k q" "map_of (inflight s) k = Some q \<or> woken s q"
      using wake_okD [of s j k q] by simp_all
    then have lt: "q < next_queue s" using qok owned_allocated by blast
    have other: "c_rid (callers s ! i) \<noteq> Some k"
      using unique_ridsD [OF uniq, of i j] i old(1) False by (auto simp: owns_def)
    have mine: "c_queue (callers s ! i) \<noteq> Some q"
      using qok i old(1) False unfolding queues_ok_def owns_def by metis
    show ?thesis
      using m old lt other mine
      by cases (auto simp: woken_def pop_inflight_def split: option.splits)
  next
    case True
    show ?thesis
      using m
    proof cases
      case (consume q' ev rest)
      then have own: "owns s i k q" and q': "q' = q" using o True i by (auto simp: owns_def)
      have "map_of (inflight s) k = Some q \<or> woken s q"
        using wake_okD [OF wake own] consume by simp
      moreover have "ev \<noteq> worker_exit" using consume by auto
      ultimately show ?thesis using consume q' by (auto simp: woken_def)
    qed (use i o p wake True in \<open>auto simp: wake_ok_def owns_def woken_def dest: waiting_live\<close>)
  qed
qed

lemma wake_frame:
  assumes "wake_ok s" and "callers t = callers s"
    and "\<And>k q. map_of (inflight s) k = Some q \<or> woken s q \<Longrightarrow>
           map_of (inflight t) k = Some q \<or> woken t q"
  shows "wake_ok t"
  using assms(1,3) unfolding wake_ok_def owns_def assms(2) by blast

lemma wake_step:
  assumes "wio_step s a = Some t" and "table_ok s" and "unique_rids s" and "wake_ok s"
  shows "wake_ok t"
  using assms(1)
proof (cases rule: wio_step_cases)
  case (call c)
  with assms(4) show ?thesis
    by (auto simp: wake_ok_def owns_def woken_def nth_append less_Suc_eq)
next
  case (move i)
  then show ?thesis using wake_move assms(2-4) by blast
next
  case (stale j)
  show ?thesis
    unfolding wake_ok_def
  proof (intro allI impI)
    fix i k q
    assume o: "owns t i k q" and p: "c_pc (callers t ! i) = WriteLine \<or> waiting (c_pc (callers t ! i))"
    have own: "owns s i k q" "c_pc (callers s ! i) = WriteLine \<or> waiting (c_pc (callers s ! i))"
      using o p stale(2) by (simp_all add: owns_def)
    then have "q \<notin> set (stale s)" using assms(2) by (auto simp: table_ok_def stale_ok_def)
    then have "queues t q = queues s q" using stale by (simp add: stale_step_queues)
    then show "map_of (inflight t) k = Some q \<or> woken t q"
      using wake_okD [OF assms(4) own] stale(2) by (simp add: woken_def)
  qed
next
  case (drain j)
  have n: "Notifying (map snd (inflight s)) \<in> set (closers t)"
    using drain(1,3) by (simp add: set_update_memI)
  have "woken t q" if "map_of (inflight s) k = Some q" for k q
  proof -
    have "q \<in> set (map snd (inflight s))" using map_of_SomeD [OF that] by force
    with n show ?thesis unfolding woken_def by blast
  qed
  moreover have "woken t q" if "woken s q" for q
  proof -
    have "Notifying qs \<in> set (closers t)" if "Notifying qs \<in> set (closers s)" for qs
      using in_set_update_other [OF that, of j] drain(2,3) by simp
    with that drain show ?thesis by (auto simp: woken_def)
  qed
  ultimately show ?thesis using drain by (intro wake_frame [OF assms(4)]) auto
next
  case (notify j q qs)
  have "woken t q'" if "woken s q'" for q'
  proof (cases "q' = q")
    case True
    with notify show ?thesis by (simp add: woken_def q_put_def)
  next
    case False
    have "\<exists>rs'. Notifying rs' \<in> set (closers t) \<and> q' \<in> set rs'"
      if "Notifying rs \<in> set (closers s)" "q' \<in> set rs" for rs
    proof -
      from that(1) obtain n where n: "n < length (closers s)" "closers s ! n = Notifying rs"
        by (auto simp: in_set_conv_nth)
      have "closers t ! n = Notifying (if n = j then qs else rs)"
        using n notify by (simp add: nth_list_update)
      moreover have "q' \<in> set (if n = j then qs else rs)"
        using n notify that(2) False by auto
      moreover have "n < length (closers t)" using n notify by simp
      ultimately show ?thesis by (metis nth_mem)
    qed
    with \<open>woken s q'\<close> notify show ?thesis by (auto simp: woken_def q_put_def)
  qed
  then show ?thesis using notify by (intro wake_frame [OF assms(4)]) auto
next
  case own
  then consider q ev where "t = q_put q ev (s\<lparr>reader := RLoop\<rparr>)"
    | "t = (fold (\<lambda>q. q_put q worker_exit) (map snd (inflight s)) s)\<lparr>inflight := [], reader := RDone\<rparr>"
    by (auto simp: reader_step_def split: reader.splits)
  then show ?thesis
  proof cases
    case 1
    then show ?thesis
      by (intro wake_frame [OF assms(4)]) (auto simp: woken_def q_put_def)
  next
    case 2
    have "0 < count_list (map snd (inflight s)) q" if "map_of (inflight s) k = Some q" for k q
      using map_of_SomeD [OF that] by (force simp: count_list_0_iff zero_less_iff_neq_zero)
    then show ?thesis
      using 2 by (intro wake_frame [OF assms(4)]) (auto simp: woken_def fold_q_put_queues)
  qed
qed (rule wake_frame [OF assms(4)]; auto simp: close_begin_def woken_def)+

lemma drained_move:
  assumes m: "caller_move i s t" and tab: "table_ok s" and drained: "drained_ok s"
  shows "drained_ok t"
  unfolding drained_ok_def
proof (intro impI allI)
  fix j k q
  assume c: "closed t" "Draining \<notin> set (closers t)"
    and o: "owns t j k q" and w: "waiting (c_pc (callers t ! j))"
  have j: "owns s j k q \<and> waiting (c_pc (callers s ! j))"
  proof (cases "j = i")
    case True
    show ?thesis using m o w c True by cases (auto simp: owns_def dest: waiting_live)
  next
    case False
    with m o w show ?thesis by (simp add: move_other)
  qed
  have lt: "q < next_queue s" using tab j owned_allocated by (auto simp: table_ok_def)
  have "closed s = closed t \<and> closers s = closers t"
    using m by cases simp_all
  with c drained j have no: "map_of (inflight s) k \<noteq> Some q" by (auto simp: drained_ok_def)
  show "map_of (inflight t) k \<noteq> Some q"
    using m lt no by cases (auto simp: pop_inflight_def split: option.splits)
qed

lemma drained_frame:
  assumes "drained_ok s" and "callers t = callers s" and "inflight t = inflight s"
    and "closed t = closed s" and "Draining \<in> set (closers s) \<Longrightarrow> Draining \<in> set (closers t)"
  shows "drained_ok t"
  using assms unfolding drained_ok_def owns_def by metis

lemma drained_step:
  assumes "wio_step s a = Some t" and "table_ok s" and "drained_ok s"
  shows "drained_ok t"
  using assms(1)
proof (cases rule: wio_step_cases)
  case (call c)
  with assms(3) show ?thesis
    by (auto simp: drained_ok_def owns_def nth_append less_Suc_eq)
next
  case (move i)
  then show ?thesis using drained_move assms(2,3) by blast
next
  case close_begin
  then show ?thesis by (simp add: drained_ok_def close_begin_def)
next
  case (drain j)
  then show ?thesis by (simp add: drained_ok_def)
next
  case (notify j q qs)
  have "Draining \<in> set (closers t)" if "Draining \<in> set (closers s)"
    using in_set_update_other [OF that, of j] notify(2,3) by simp
  then show ?thesis using notify by (intro drained_frame [OF assms(3)]) simp_all
next
  case own
  then consider "drained_ok t = drained_ok s" | "inflight t = []"
    by (auto simp: reader_step_def drained_ok_def owns_def split: reader.splits)
  then show ?thesis using assms(3) by cases (simp_all add: drained_ok_def)
qed (rule drained_frame [OF assms(3)]; simp)+

lemma unique_rids_run: "rids_ok as s \<Longrightarrow> distinct (call_ids as) \<Longrightarrow> unique_rids s"
  by (simp add: rids_ok_def unique_rids_def)

interpretation wio_wake: step_invariant wio_step "\<lambda>s. \<exists>p n. s = wio_init p n" "distinct \<circ> call_ids"
  "\<lambda>as s. table_ok s \<and> rids_ok as s \<and> wake_ok s \<and> drained_ok s"
proof
  fix s :: wio
  assume "\<exists>p n. s = wio_init p n"
  then show "table_ok s \<and> rids_ok [] s \<and> wake_ok s \<and> drained_ok s"
    using table_init
    by (auto simp: rids_ok_def wake_ok_def drained_ok_def owns_def wio_init_def map_filter_simps)
next
  fix as :: "action list" and a :: action and s t :: wio
  assume "(distinct \<circ> call_ids) (as @ [a])" "wio_step s a = Some t"
    and "table_ok s \<and> rids_ok as s \<and> wake_ok s \<and> drained_ok s"
  then show "table_ok t \<and> rids_ok (as @ [a]) t \<and> wake_ok t \<and> drained_ok t"
    using table_step rids_step drained_step wake_step unique_rids_run by auto
qed simp

end
