(* ===== verification/WorkerIO_Route.thy ===== *)
theory WorkerIO_Route
  imports WorkerIO_Wake
begin

text \<open>
  What a caller receives: only events of its own request (or errors), in the order the worker
  emitted them, at most one terminal event and nothing after it; and after a completed
  \<^verbatim>\<open>close\<close> every waiting caller can run to its end.
\<close>

section \<open>The stream of a caller\<close>

definition pending :: "wio \<Rightarrow> nat \<Rightarrow> event list" where
  "pending s q = (case reader s of RPut q' ev \<Rightarrow> if q' = q then [ev] else [] | _ \<Rightarrow> [])"

definition stream :: "wio \<Rightarrow> nat \<Rightarrow> nat \<Rightarrow> event list" where
  "stream s i q =
     c_seen (callers s ! i) @ filter (\<lambda>ev. \<not> is_exit ev) (queues s q @ pending s q)"

definition own_event :: "string \<Rightarrow> event \<Rightarrow> bool" where
  "own_event k ev \<longleftrightarrow> event_rid ev = JStr k \<or> is_error ev"

definition routed_ok :: "action list \<Rightarrow> wio \<Rightarrow> bool" where
  "routed_ok as s \<longleftrightarrow> (\<forall>i k q. owns s i k q \<longrightarrow>
     (\<forall>ev\<in>set (stream s i q). own_event k ev)
   \<and> subseq (stream s i q) (filter (\<lambda>ev. \<not> is_exit ev) (emitted as)))"

lemma pending_simps [simp]:
  "reader s = RLoop \<Longrightarrow> pending s q = []" "reader s = RFinally \<Longrightarrow> pending s q = []"
  "reader s = RDone \<Longrightarrow> pending s q = []"
  "reader s = RPut q' ev \<Longrightarrow> pending s q = (if q' = q then [ev] else [])"
  by (simp_all add: pending_def)

lemma pending_cong: "reader t = reader s \<Longrightarrow> pending t q = pending s q"
  by (simp add: pending_def)

lemma pending_fresh: "pending_ok s \<Longrightarrow> next_queue s \<le> q \<Longrightarrow> pending s q = []"
  by (auto simp: pending_def pending_ok_def split: reader.splits)

lemma stream_move:
  assumes m: "caller_move i s t" and i: "i < length (callers s)" and tab: "table_ok s"
    and o: "owns t j k q"
  shows "owns s j k q \<and> stream t j q = stream s j q \<or> stream t j q = []"
proof (cases "j = i")
  case True
  have ph: "phase_ok (callers s ! i)" using tab i by (simp add: table_ok_def phases_ok_def)
  have pend: "pending s (next_queue s) = []" using tab by (simp add: table_ok_def pending_fresh)
  show ?thesis
    using m ph pend o True i
    by cases (auto simp: owns_def stream_def phase_ok_def fresh_def pending_def)
next
  case False
  note same = move_other [OF m False]
  have own: "owns s j k q" using o same by simp
  then have lt: "q < next_queue s" using tab owned_allocated by (auto simp: table_ok_def)
  have ne: "c_queue (callers s ! i) \<noteq> Some q"
    using tab i own False unfolding table_ok_def queues_ok_def owns_def by metis
  have "queues t q = queues s q \<and> reader t = reader s" using m lt ne by cases auto
  then show ?thesis using own same(1) by (simp add: stream_def pending_def)
qed

lemma routed_frame:
  assumes "routed_ok as s"
    and "\<And>i k q. owns t i k q \<Longrightarrow> owns s i k q \<and> subseq (stream t i q) (stream s i q) \<or> stream t i q = []"
  shows "routed_ok (as @ [a]) t"
  unfolding routed_ok_def
proof (intro allI impI)
  fix i k q
  assume "owns t i k q"
  then consider "owns s i k q" "subseq (stream t i q) (stream s i q)" | "stream t i q = []"
    using assms(2) by blast
  then show "(\<forall>ev\<in>set (stream t i q). own_event k ev)
    \<and> subseq (stream t i q) (filter (\<lambda>ev. \<not> is_exit ev) (emitted (as @ [a])))"
  proof cases
    case 1
    then have old: "\<forall>ev\<in>set (stream s i q). own_event k ev"
      "subseq (stream s i q) (filter (\<lambda>ev. \<not> is_exit ev) (emitted as))"
      using assms(1) by (simp_all add: routed_ok_def)
    have "set (stream t i q) \<subseteq> set (stream s i q)" using 1(2) by (auto elim: list_emb_set)
    moreover have "subseq (stream t i q) (filter (\<lambda>ev. \<not> is_exit ev) (emitted as))"
      by (rule subseq_order.order_trans [OF 1(2) old(2)])
    ultimately show ?thesis using old(1) by (auto simp: subseq_rev_drop_many)
  qed simp
qed

lemma routed_deliver:
  assumes tab: "table_ok s" and r: "routed_ok as s" and d: "reader s = RLoop"
    and ev: "route (inflight s) ev = Some (Some q)" and em: "emitted [a] = [ev]"
  shows "routed_ok (as @ [a]) (s\<lparr>reader := RPut q ev\<rparr>)" (is "routed_ok _ ?t")
  unfolding routed_ok_def
proof (intro allI impI)
  fix i k q'
  assume "owns ?t i k q'"
  then have o: "owns s i k q'" by (simp add: owns_def)
  let ?e = "if q = q' \<and> \<not> is_exit ev then [ev] else []"
  have st: "stream ?t i q' = stream s i q' @ ?e" using d by (simp add: stream_def)
  have old: "(\<forall>e\<in>set (stream s i q'). own_event k e)
    \<and> subseq (stream s i q') (filter (\<lambda>ev. \<not> is_exit ev) (emitted as))"
    using r o by (simp add: routed_ok_def)
  from tab ev obtain k' where k': "map_of (inflight s) k' = Some q" "event_rid ev = JStr k' \<or> is_error ev"
    by (rule route_owner)
  have "keys_ok s" "queues_ok s" using tab by (simp_all add: table_ok_def)
  from this(1) k'(1) obtain j where j: "owns s j k' q" by (rule keys_okE)
  have "own_event k ev" if "q = q'"
  proof -
    have "j = i" using queues_okD [OF \<open>queues_ok s\<close> j] o that by blast
    then show ?thesis using j o k'(2) by (simp add: owns_def own_event_def)
  qed
  then show "(\<forall>ev\<in>set (stream ?t i q'). own_event k ev)
    \<and> subseq (stream ?t i q') (filter (\<lambda>ev. \<not> is_exit ev) (emitted (as @ [a])))"
    using old em unfolding st by (auto intro: subseq_rev_drop_many list_emb_append_mono)
qed

lemma routed_step:
  assumes "wio_step s a = Some t" and "table_ok s" and "routed_ok as s"
  shows "routed_ok (as @ [a]) t"
  using assms(1)
proof (cases rule: wio_step_cases)
  case (call c)
  then show ?thesis
    by (intro routed_frame [OF assms(3)])
      (auto simp: owns_def stream_def nth_append less_Suc_eq pending_def)
next
  case (move i)
  then show ?thesis
    by (intro routed_frame [OF assms(3)]) (drule stream_move [OF move(2,1) assms(2)], auto)
next
  case (stale j)
  have "subseq (stream t i q) (stream s i q)" for i q
    using stale stale_step_queues(2) [of j s q]
    by (auto simp: stream_def pending_cong [of "stale_step j s" s] intro!: list_emb_append_mono subseq_filter)
  then show ?thesis using stale(2) by (intro routed_frame [OF assms(3)]) (simp add: owns_def)
next
  case (deliver q ev)
  then show ?thesis using routed_deliver assms(2,3) by blast
next
  case own
  have "callers t = callers s" using own by (simp add: reader_step_frame)
  moreover have "filter (\<lambda>ev. \<not> is_exit ev) (queues t q @ pending t q)
      = filter (\<lambda>ev. \<not> is_exit ev) (queues s q @ pending s q)" for q
    using own(3) by (auto simp: reader_step_def q_put_def fold_q_put_queues split: reader.splits)
  ultimately show ?thesis
    by (intro routed_frame [OF assms(3)]) (simp add: owns_def stream_def)
qed (rule routed_frame [OF assms(3)];
     simp add: owns_def stream_def pending_def close_begin_def q_put_def)+

interpretation wio_route: step_invariant wio_step "\<lambda>s. \<exists>p n. s = wio_init p n" "\<lambda>_. True"
  "\<lambda>as s. table_ok s \<and> routed_ok as s"
proof
  fix s :: wio
  assume "\<exists>p n. s = wio_init p n"
  then show "table_ok s \<and> routed_ok [] s"
    using table_init by (auto simp: routed_ok_def owns_def wio_init_def)
next
  fix as :: "action list" and a :: action and s t :: wio
  assume "wio_step s a = Some t" and "table_ok s \<and> routed_ok as s"
  then show "table_ok t \<and> routed_ok (as @ [a]) t" using table_step routed_step by blast
qed simp

end
