(* ===== verification/WorkerIO_Live.thy ===== *)
theory WorkerIO_Live
  imports WorkerIO_Route
begin

text \<open>
  What a single call does from its first event to its end: the discipline of terminal events, the
  closed worker's stdin, and that a woken caller reaches its end by its own steps.
\<close>

section \<open>Terminal events\<close>

fun outcome_of :: "pc \<Rightarrow> outcome option" where
  "outcome_of (PopFailed e) = Some e"
| "outcome_of (FinPop e) = Some e"
| "outcome_of (FinRelease e) = Some e"
| "outcome_of (FinCancel e) = Some e"
| "outcome_of (Finished e) = Some e"
| "outcome_of _ = None"

definition no_terminal :: "event list \<Rightarrow> bool" where
  "no_terminal evs \<longleftrightarrow> (\<forall>ev\<in>set evs. \<not> is_terminal ev)"

definition seen_ok :: "caller \<Rightarrow> bool" where
  "seen_ok c \<longleftrightarrow> no_terminal (butlast (c_seen c))
     \<and> (case c_pc c of
          Yielded ev \<Rightarrow> c_seen c \<noteq> [] \<and> last (c_seen c) = ev
        | GetQueued \<Rightarrow> no_terminal (c_seen c)
        | Get \<Rightarrow> no_terminal (c_seen c)
        | WriteLine \<Rightarrow> no_terminal (c_seen c)
        | Register \<Rightarrow> no_terminal (c_seen c)
        | p \<Rightarrow> True)
     \<and> (outcome_of (c_pc c) = Some Returned \<longrightarrow> c_seen c \<noteq> [] \<and> is_terminal (last (c_seen c)))"

definition all_seen_ok :: "wio \<Rightarrow> bool" where
  "all_seen_ok s \<longleftrightarrow> (\<forall>c\<in>set (callers s). seen_ok c \<and> phase_ok c)"

lemma no_terminal_simps [simp]:
  "no_terminal []" "no_terminal (xs @ [x]) \<longleftrightarrow> no_terminal xs \<and> \<not> is_terminal x"
  by (auto simp: no_terminal_def)

lemma no_terminal_butlast: "no_terminal xs \<Longrightarrow> no_terminal (butlast xs)"
  by (auto simp: no_terminal_def dest: in_set_butlastD)

lemma no_terminal_last:
  "no_terminal (butlast xs) \<Longrightarrow> xs \<noteq> [] \<Longrightarrow> \<not> is_terminal (last xs) \<Longrightarrow> no_terminal xs"
  by (metis append_butlast_last_id no_terminal_simps(2))

lemma fresh_seen: "phase_ok c \<Longrightarrow> fresh (c_pc c) \<Longrightarrow> c_seen c = []"
  by (simp add: phase_ok_def)

lemma seen_caller_step:
  assumes "caller_step ok i s = Some t" and "i < length (callers s)"
    and "seen_ok (callers s ! i)" and "phase_ok (callers s ! i)"
  shows "seen_ok (callers t ! i)"
proof (cases "c_pc (callers s ! i)")
  case WriteLine
  with assms show ?thesis
    by (auto simp: caller_step_def Let_def write_line_def seen_ok_def fail_write_def await_event_def
        no_terminal_butlast split: option.splits if_splits api.splits)
next
  case Get
  with assms show ?thesis
    by (auto simp: caller_step_def Let_def get_event_def seen_ok_def no_terminal_butlast
        split: option.splits list.splits if_splits)
next
  case CheckClosed
  with assms fresh_seen [OF assms(4)] show ?thesis
    by (auto simp: caller_step_def Let_def seen_ok_def fresh_def split: if_splits)
qed (use assms in \<open>auto simp: caller_step_def Let_def seen_ok_def after_release_def
        split: option.splits if_splits\<close>)

lemma seen_resume:
  assumes "resume i s = Some t" and "i < length (callers s)" and "seen_ok (callers s ! i)"
  shows "seen_ok (callers t ! i)"
  using assms
  by (cases "c_pc (callers s ! i)")
    (auto simp: resume_def seen_ok_def await_event_def no_terminal_last split: if_splits api.splits)

lemma seen_abandon:
  assumes "abandon i s = Some t" and "i < length (callers s)" and "seen_ok (callers s ! i)"
  shows "seen_ok (callers t ! i)"
  using assms by (cases "c_pc (callers s ! i)") (auto simp: abandon_def seen_ok_def)

lemma seen_timeout:
  assumes "timeout i s = Some t" and "i < length (callers s)" and "seen_ok (callers s ! i)"
  shows "seen_ok (callers t ! i)"
  using assms
  by (cases "c_pc (callers s ! i)")
    (auto simp: timeout_def Let_def seen_ok_def split: option.splits if_splits)

lemma seen_cancel_task:
  assumes "cancel_task i s = Some t" and "i < length (callers s)" and "seen_ok (callers s ! i)"
  shows "seen_ok (callers t ! i)"
  using assms
  by (cases "c_pc (callers s ! i)") (auto simp: cancel_task_def Let_def seen_ok_def split: if_splits option.splits)

lemma seen_local:
  assumes "all_seen_ok s" and "i < length (callers s)" and "caller_move i s t"
    and "seen_ok (callers s ! i) \<Longrightarrow> phase_ok (callers s ! i) \<Longrightarrow> seen_ok (callers t ! i)"
  shows "all_seen_ok t"
proof -
  have ph: "phases_ok t"
    using phases_move [OF assms(3,2)] assms(1) by (simp add: all_seen_ok_def phases_ok_def)
  have "callers t = (callers s)[i := callers t ! i]"
    using assms(3,2) by cases simp_all
  then have "set (callers t) \<subseteq> insert (callers t ! i) (set (callers s))"
    using set_update_subset_insert [of "callers s" i "callers t ! i"] by simp
  then show ?thesis
    using assms(1,2,4) ph unfolding all_seen_ok_def phases_ok_def by (metis insert_iff nth_mem subsetD)
qed

lemma seen_step:
  assumes "wio_step s a = Some t" and "all_seen_ok s"
  shows "all_seen_ok t"
proof (cases a)
  case (Step i)
  with assms show ?thesis
    by (auto split: if_splits intro: seen_local caller_step_move seen_caller_step)
next
  case (StepBrokenPipe i)
  with assms show ?thesis
    by (auto split: if_splits intro: seen_local caller_step_move seen_caller_step)
next
  case (Resume i)
  with assms show ?thesis by (auto split: if_splits intro: seen_local resume_move seen_resume)
next
  case (Abandon i)
  with assms show ?thesis by (auto split: if_splits intro: seen_local abandon_move seen_abandon)
next
  case (Timeout i)
  with assms show ?thesis by (auto split: if_splits intro: seen_local timeout_move seen_timeout)
next
  case (CancelTask i)
  with assms show ?thesis
    by (auto split: if_splits intro: seen_local cancel_task_move seen_cancel_task)
next
  case (CallRequest pid body)
  with assms show ?thesis
    by (auto simp: all_seen_ok_def call_request_def seen_ok_def phase_ok_def fresh_def)
next
  case (CallSendRequest r pid body)
  with assms show ?thesis
    by (auto simp: all_seen_ok_def call_send_request_def Let_def seen_ok_def phase_ok_def fresh_def
        split: if_splits)
next
  case (StdoutLine item)
  with assms show ?thesis
    by (auto simp: all_seen_ok_def reader_line_def
        split: if_splits stdout_item.splits json.splits option.splits)
next
  case (CloseStep j)
  with assms show ?thesis
    by (auto simp: all_seen_ok_def close_step_def split: if_splits closer.splits list.splits)
qed (use assms in \<open>auto simp: all_seen_ok_def close_begin_def reader_eof_def reader_step_frame
       split: if_splits\<close>)

interpretation wio_seen: step_invariant wio_step "\<lambda>s. \<exists>p n. s = wio_init p n" "\<lambda>_. True"
  "\<lambda>as s. all_seen_ok s"
proof
  fix s :: wio
  assume "\<exists>p n. s = wio_init p n"
  then show "all_seen_ok s" by (auto simp: all_seen_ok_def wio_init_def)
qed (simp_all add: seen_step)

section \<open>A closed worker\<close>

lemma closed_step:
  assumes "wio_step s a = Some t" and "closed s"
  shows "closed t \<and> stdin t = stdin s"
  using assms(1)
proof (cases rule: wio_step_cases)
  case (move i)
  from move(2) assms(2) show ?thesis by cases (simp_all add: cancel_def Let_def)
next
  case (cancel ok r)
  with assms(2) show ?thesis by (simp add: cancel_def Let_def)
next
  case own
  with assms(2) show ?thesis by (simp add: reader_step_frame)
qed (use assms(2) in \<open>simp_all add: close_begin_def\<close>)

lemma closed_run:
  assumes "wio_run s as = Some t" and "closed s"
  shows "closed t \<and> stdin t = stdin s"
  using assms
proof (induction as arbitrary: s)
  case (Cons a as)
  then obtain u where u: "wio_step s a = Some u" "wio_run u as = Some t"
    by (auto simp: wio_run_def split: option.splits)
  with Cons.prems(2) have "closed u \<and> stdin u = stdin s" by (simp add: closed_step)
  with Cons.IH [OF u(2)] show ?case by simp
qed (simp add: wio_run_def)

section \<open>The threads of the executor\<close>

definition pool_ok :: "wio \<Rightarrow> bool" where
  "pool_ok s \<longleftrightarrow> busy s \<le> pool s"

lemma length_filter_update:
  assumes "i < length xs"
  shows "length (filter P (xs[i := y])) + of_bool (P (xs ! i)) = length (filter P xs) + of_bool (P y)"
proof -
  have "length (filter P (take i xs @ xs ! i # drop (Suc i) xs)) = length (filter P xs)"
    using id_take_nth_drop [OF assms] by simp
  then show ?thesis using assms by (auto simp: upd_conv_take_nth_drop)
qed

lemma busy_update:
  assumes "i < length (callers s)" and "callers t = (callers s)[i := callers t ! i]"
  shows "busy t + length (stale s) + of_bool (in_thread (callers s ! i))
    = busy s + length (stale t) + of_bool (in_thread (callers t ! i))"
  using length_filter_update [OF assms(1), of in_thread "callers t ! i"] assms(2)
  unfolding busy_def by simp

lemma move_update: "caller_move i s t \<Longrightarrow> i < length (callers s) \<Longrightarrow> callers t = (callers s)[i := callers t ! i]"
  by (erule move_callersE) simp

lemma move_pool: "caller_move i s t \<Longrightarrow> pool t = pool s"
  by (erule caller_move.cases) simp_all

text \<open>A job takes a thread only when one is free, and a cancelled \<^verbatim>\<open>get\<close> hands its thread on.\<close>

lemma pool_ok_move:
  assumes "caller_move i s t" and "i < length (callers s)" and "pool_ok s"
    and "stale t = stale s \<and> (in_thread (callers t ! i) \<longrightarrow> in_thread (callers s ! i) \<or> thread_free s)
      \<or> length (stale t) = Suc (length (stale s)) \<and> in_thread (callers s ! i) \<and> \<not> in_thread (callers t ! i)"
  shows "pool_ok t"
  using busy_update [OF assms(2) move_update [OF assms(1,2)]] assms(3,4) move_pool [OF assms(1)]
  by (auto simp: pool_ok_def thread_free_def of_bool_def split: if_splits)

lemma caller_step_threads:
  assumes "caller_step ok i s = Some t" and "i < length (callers s)"
  shows "stale t = stale s \<and> (in_thread (callers t ! i) \<longrightarrow> in_thread (callers s ! i) \<or> thread_free s)"
proof (cases "c_pc (callers s ! i)")
  case WriteLine
  with assms show ?thesis
    by (auto simp: caller_step_def Let_def write_line_def fail_write_def await_event_def in_thread_def
        split: option.splits if_splits api.splits)
next
  case Get
  with assms show ?thesis
    by (auto simp: caller_step_def Let_def get_event_def in_thread_def split: option.splits list.splits if_splits)
next
  case (FinCancel out)
  with assms show ?thesis by (auto simp: caller_step_def Let_def in_thread_def split: option.splits)
qed (use assms in \<open>auto simp: caller_step_def Let_def in_thread_def after_release_def split: option.splits if_splits\<close>)

lemma pool_step:
  assumes "wio_step s a = Some t" and "pool_ok s"
  shows "pool_ok t"
proof (cases a)
  case (Step i)
  with assms show ?thesis by (auto split: if_splits intro: pool_ok_move caller_step_move dest: caller_step_threads)
next
  case (StepBrokenPipe i)
  with assms show ?thesis by (auto split: if_splits intro: pool_ok_move caller_step_move dest: caller_step_threads)
next
  case (Resume i)
  with assms have m: "resume i s = Some t" "i < length (callers s)" by (auto split: if_splits)
  then have "stale t = stale s \<and> \<not> in_thread (callers t ! i)"
    by (auto simp: resume_def await_event_def in_thread_def split: pc.splits api.splits if_splits)
  then show ?thesis using pool_ok_move [OF resume_move] m assms(2) by blast
next
  case (Abandon i)
  with assms have m: "abandon i s = Some t" "i < length (callers s)" by (auto split: if_splits)
  then have "stale t = stale s \<and> \<not> in_thread (callers t ! i)"
    by (auto simp: abandon_def in_thread_def split: pc.splits)
  then show ?thesis using pool_ok_move [OF abandon_move] m assms(2) by blast
next
  case (Timeout i)
  with assms have m: "timeout i s = Some t" "i < length (callers s)" by (auto split: if_splits)
  then have "stale t = stale s \<and> \<not> in_thread (callers t ! i)"
    by (auto simp: timeout_def Let_def in_thread_def split: pc.splits option.splits if_splits)
  then show ?thesis using pool_ok_move [OF timeout_move] m assms(2) by blast
next
  case (CancelTask i)
  with assms have m: "cancel_task i s = Some t" "i < length (callers s)" by (auto split: if_splits)
  then have "stale t = stale s \<and> (in_thread (callers t ! i) \<longrightarrow> in_thread (callers s ! i))
      \<or> length (stale t) = Suc (length (stale s)) \<and> in_thread (callers s ! i) \<and> \<not> in_thread (callers t ! i)"
    by (cases "c_api (callers s ! i)")
      (auto simp: cancel_task_def Let_def in_thread_def split: pc.splits option.splits if_splits)
  then show ?thesis using pool_ok_move [OF cancel_task_move] m assms(2) by blast
next
  case (StaleStep j)
  with assms show ?thesis by (auto simp: pool_ok_def busy_def remove_nth_length split: if_splits)
next
  case (CallRequest pid body)
  with assms show ?thesis by (auto simp: pool_ok_def busy_def call_request_def in_thread_def)
next
  case (CallSendRequest r pid body)
  with assms show ?thesis by (auto simp: pool_ok_def busy_def call_send_request_def Let_def in_thread_def)
next
  case (StdoutLine item)
  with assms show ?thesis
    by (auto simp: pool_ok_def busy_def reader_line_def split: if_splits stdout_item.splits json.splits option.splits)
next
  case (CloseStep j)
  with assms show ?thesis
    by (auto simp: pool_ok_def busy_def close_step_def split: if_splits closer.splits list.splits)
qed (use assms in \<open>auto simp: pool_ok_def busy_def close_begin_def reader_eof_def reader_step_frame split: if_splits\<close>)

interpretation wio_pool: step_invariant wio_step "\<lambda>s. \<exists>p n. s = wio_init p n" "\<lambda>_. True" "\<lambda>as s. pool_ok s"
proof
  fix s :: wio
  assume "\<exists>p n. s = wio_init p n"
  then show "pool_ok s" by (auto simp: pool_ok_def busy_def wio_init_def)
qed (simp_all add: pool_step)

text \<open>
  Every thread is blocked in \<^verbatim>\<open>acquire\<close>, and whoever has a permit waits for a thread (or never gives
  it back).
\<close>

definition blocked_acquire :: "caller \<Rightarrow> bool" where
  "blocked_acquire c \<longleftrightarrow> c_pc c = Orphaned \<or> c_api c = Async \<and> c_pc c = Acquiring"

definition pool_stuck :: "wio \<Rightarrow> bool" where
  "pool_stuck s \<longleftrightarrow> sem s = 0 \<and> pool s \<le> length (filter blocked_acquire (callers s))
     \<and> (\<forall>c\<in>set (callers s). holds c = 1 \<longrightarrow> c_pc c = Leaked \<or> c_pc c = GetQueued)"

lemma stuck_no_thread:
  assumes "pool_stuck s"
  shows "\<not> thread_free s"
proof -
  have "length (filter blocked_acquire cs) \<le> length (filter in_thread cs)" for cs
    by (induction cs) (auto simp: blocked_acquire_def in_thread_def)
  from this [of "callers s"] show ?thesis using assms by (simp add: pool_stuck_def thread_free_def busy_def)
qed

text \<open>What a caller can still do then: end, or leave its blocked job behind.\<close>

lemma stuck_local:
  assumes "pool_stuck s" and "i < length (callers s)" and "callers t = (callers s)[i := callers t ! i]"
    and "sem t = sem s" and "pool t = pool s" and "holds (callers t ! i) = 0"
    and "blocked_acquire (callers s ! i) \<longrightarrow> blocked_acquire (callers t ! i)"
  shows "pool_stuck t"
proof -
  have "length (filter blocked_acquire (callers s)) \<le> length (filter blocked_acquire (callers t))"
    using length_filter_update [OF assms(2), of blocked_acquire "callers t ! i"] assms(3,7) by (auto simp: of_bool_def split: if_splits)
  moreover have "set (callers t) \<subseteq> insert (callers t ! i) (set (callers s))"
    using set_update_subset_insert [of "callers s" i "callers t ! i"] assms(3) by simp
  ultimately show ?thesis using assms(1,4-6) unfolding pool_stuck_def by auto
qed

lemma stuck_pc:
  assumes "pool_stuck s" and "i < length (callers s)"
  shows "c_pc (callers s ! i) \<in> {Submitted, Acquiring, Orphaned, Leaked, GetQueued} \<or> (\<exists>out. c_pc (callers s ! i) \<in> {FinCancel out, Finished out})"
proof -
  have "holds (callers s ! i) = 1 \<longrightarrow> c_pc (callers s ! i) = Leaked \<or> c_pc (callers s ! i) = GetQueued"
    using assms by (simp add: pool_stuck_def)
  then show ?thesis by (auto simp: holds_def split: pc.splits)
qed

lemma stuck_caller_step:
  assumes "pool_stuck s" and "i < length (callers s)" and "caller_step ok i s = Some t"
  shows "pool_stuck t \<and> c_pc (callers s ! i) \<noteq> GetQueued \<and> c_pc (callers t ! i) \<noteq> GetQueued"
proof -
  have s0: "sem s = 0" "\<not> thread_free s" using assms(1) stuck_no_thread by (auto simp: pool_stuck_def)
  from stuck_pc [OF assms(1,2)] obtain out where f: "c_pc (callers s ! i) = FinCancel out"
    using assms(3) s0 by (auto simp: caller_step_def Let_def)
  then obtain k where "t = goto i (Finished out) (cancel ok k s)"
    using assms(3) by (auto simp: caller_step_def Let_def split: option.splits)
  then have "pool_stuck t"
    using f assms(2) by (intro stuck_local [OF assms(1,2)]) (auto simp: holds_def blocked_acquire_def)
  then show ?thesis using f assms(2) \<open>t = goto i (Finished out) (cancel ok k s)\<close> by simp
qed

lemma stuck_move:
  assumes "wio_step s a = Some t" and "pool_stuck s"
    and "\<And>i. i < length (callers s) \<Longrightarrow> c_pc (callers s ! i) = GetQueued \<Longrightarrow> a \<noteq> CancelTask i"
    and "i < length (callers s)" and "a \<in> {Step i, StepBrokenPipe i, Resume i, Abandon i, Timeout i, CancelTask i}"
  shows "pool_stuck t \<and> c_pc (callers s ! i) \<noteq> GetQueued \<and> c_pc (callers t ! i) \<noteq> GetQueued"
proof -
  note pc = stuck_pc [OF assms(2,4)]
  consider ok where "caller_step ok i s = Some t" | "resume i s = Some t \<or> abandon i s = Some t \<or> timeout i s = Some t"
    | "a = CancelTask i" "cancel_task i s = Some t"
    using assms(1,4,5) by auto
  then show ?thesis
  proof cases
    case 1
    then show ?thesis using stuck_caller_step [OF assms(2,4)] by blast
  next
    case 2
    then show ?thesis using pc by (auto simp: resume_def abandon_def timeout_def Let_def split: option.splits)
  next
    case 3
    then have "c_pc (callers s ! i) \<noteq> GetQueued" using assms(3,4) by blast
    with 3 pc have c: "c_api (callers s ! i) = Async"
      "c_pc (callers s ! i) = Submitted \<and> t = goto i (Finished CancelledErr) s \<or> c_pc (callers s ! i) = Acquiring \<and> t = goto i Orphaned s"
      by (cases "c_api (callers s ! i)"; auto simp: cancel_task_def Let_def)+
    then have "pool_stuck t"
      using assms(4) by (intro stuck_local [OF assms(2,4)]) (auto simp: holds_def blocked_acquire_def)
    then show ?thesis using c(2) assms(4) by auto
  qed
qed

lemma stuck_step:
  assumes "wio_step s a = Some t" and "pool_stuck s"
    and "\<And>i. i < length (callers s) \<Longrightarrow> c_pc (callers s ! i) = GetQueued \<Longrightarrow> a \<noteq> CancelTask i"
  shows "pool_stuck t \<and> (\<forall>i<length (callers s). c_pc (callers s ! i) = GetQueued
    \<longrightarrow> i < length (callers t) \<and> callers t ! i = callers s ! i)
    \<and> (\<forall>i<length (callers t). c_pc (callers t ! i) = GetQueued \<longrightarrow> i < length (callers s) \<and> c_pc (callers s ! i) = GetQueued)"
proof (cases "\<exists>i. a \<in> {Step i, StepBrokenPipe i, Resume i, Abandon i, Timeout i, CancelTask i}")
  case True
  then obtain i where a: "a \<in> {Step i, StepBrokenPipe i, Resume i, Abandon i, Timeout i, CancelTask i}" ..
  then have i: "i < length (callers s)" using assms(1) by (auto split: if_splits)
  have "caller_move i s t"
    using assms(1) a by (auto split: if_splits intro: caller_step_move resume_move abandon_move timeout_move cancel_task_move)
  then obtain c where "callers t = (callers s)[i := c]" by (rule move_callersE)
  then show ?thesis using stuck_move [OF assms i a] i by (auto simp: nth_list_update)
next
  case False
  consider "callers t = callers s" "sem t = sem s" "pool t = pool s"
    | c where "callers t = callers s @ [c]" "sem t = sem s" "pool t = pool s" "holds c = 0" "c_pc c \<noteq> GetQueued"
  proof (cases a)
    case (CallRequest pid body)
    with assms(1) that(2) show ?thesis by (auto simp: call_request_def holds_def)
  next
    case (CallSendRequest r pid body)
    with assms(1) that(2) show ?thesis by (auto simp: call_send_request_def Let_def holds_def)
  next
    case (StdoutLine item)
    with assms(1) that(1) show ?thesis
      by (auto simp: reader_line_def split: if_splits stdout_item.splits json.splits option.splits)
  next
    case (CloseStep j)
    with assms(1) that(1) show ?thesis
      by (auto simp: close_step_def split: if_splits closer.splits list.splits)
  qed (use assms(1) that(1) False in \<open>auto simp: close_begin_def reader_eof_def reader_step_frame split: if_splits\<close>)
  then show ?thesis
  proof cases
    case 1
    then show ?thesis using assms(2) by (simp add: pool_stuck_def)
  next
    case 2
    then have "pool_stuck t" using assms(2) by (auto simp: pool_stuck_def)
    then show ?thesis using 2 by (auto simp: nth_append less_Suc_eq)
  qed
qed

lemma stuck_run:
  assumes "wio_run s as = Some t" and "pool_stuck s"
    and "\<forall>i<length (callers s). c_pc (callers s ! i) = GetQueued \<longrightarrow> CancelTask i \<notin> set as"
  shows "pool_stuck t \<and> (\<forall>i<length (callers s). c_pc (callers s ! i) = GetQueued \<longrightarrow> callers t ! i = callers s ! i)"
  using assms
proof (induction as arbitrary: s)
  case (Cons a as)
  then obtain u where u: "wio_step s a = Some u" "wio_run u as = Some t"
    by (auto simp: wio_run_def split: option.splits)
  have s: "pool_stuck u" "\<And>i. i < length (callers s) \<Longrightarrow> c_pc (callers s ! i) = GetQueued
      \<Longrightarrow> i < length (callers u) \<and> callers u ! i = callers s ! i"
    "\<And>i. i < length (callers u) \<Longrightarrow> c_pc (callers u ! i) = GetQueued \<Longrightarrow> i < length (callers s) \<and> c_pc (callers s ! i) = GetQueued"
    using stuck_step [OF u(1) Cons.prems(2)] Cons.prems(3) by auto
  have "\<forall>i<length (callers u). c_pc (callers u ! i) = GetQueued \<longrightarrow> CancelTask i \<notin> set as"
    using s(3) Cons.prems(3) by auto
  from Cons.IH [OF u(2) s(1) this] show ?case using s(2) by metis
qed (simp add: wio_run_def)

section \<open>From the sentinel to the end of the call\<close>

text \<open>The actions of caller \<open>i\<close> and of its consumer alone.\<close>

definition own_actions :: "nat \<Rightarrow> action set" where
  "own_actions i = {Step i, Resume i}"

definition ends :: "nat \<Rightarrow> wio \<Rightarrow> outcome set \<Rightarrow> bool" where
  "ends i s outs \<longleftrightarrow> (\<exists>bs u. set bs \<subseteq> own_actions i \<and> wio_run s bs = Some u
     \<and> (\<exists>out\<in>outs. c_pc (callers u ! i) = Finished out))"

lemma ends_step:
  assumes "wio_step s a = Some t" and "a \<in> own_actions i" and "ends i t outs"
  shows "ends i s outs"
proof -
  from assms(3) obtain bs u where "set bs \<subseteq> own_actions i" "wio_run t bs = Some u"
    "\<exists>out\<in>outs. c_pc (callers u ! i) = Finished out"
    unfolding ends_def by blast
  with assms(1,2) show ?thesis
    unfolding ends_def wio_run_def by (intro exI [of _ "a # bs"] exI [of _ u]) auto
qed

lemma ends_finished: "c_pc (callers s ! i) = Finished out \<Longrightarrow> out \<in> outs \<Longrightarrow> ends i s outs"
  unfolding ends_def wio_run_def by (intro exI [of _ "[]"] exI [of _ s]) auto

lemma ends_caller_step:
  assumes "caller_step True i s = Some t" and "i < length (callers s)" and "ends i t outs"
  shows "ends i s outs"
  using assms by (intro ends_step [of s "Step i" t]) (auto simp: own_actions_def)

lemma ends_fin_pop:
  assumes "i < length (callers s)" and "c_pc (callers s ! i) = FinPop out"
    and "c_rid (callers s ! i) = Some k" and "out \<in> outs"
  shows "ends i s outs"
proof -
  let ?s1 = "goto i (FinRelease out) (pop_inflight (Some k) s)"
  let ?p = "after_release (c_api (callers s ! i)) out"
  let ?s2 = "goto i ?p (?s1\<lparr>sem := Suc (sem ?s1)\<rparr>)"
  have s1: "caller_step True i s = Some ?s1" using assms by (simp add: caller_step_def Let_def)
  have s2: "caller_step True i ?s1 = Some ?s2"
    using assms(1) by (simp add: caller_step_def Let_def)
  have "ends i ?s2 outs"
  proof (cases "?p = Finished out")
    case True
    then show ?thesis using assms(1,4) by (intro ends_finished [of _ _ out]) simp_all
  next
    case False
    then have p: "?p = FinCancel out" by (simp add: after_release_def split: if_splits)
    have "caller_step True i ?s2 = Some (goto i (Finished out) (cancel True k ?s2))"
      using assms(1,3) p by (simp add: caller_step_def Let_def)
    then show ?thesis
      by (rule ends_caller_step) (use assms(1,4) in \<open>auto intro!: ends_finished [of _ _ out]\<close>)
  qed
  then have "ends i ?s1 outs" using s2 assms(1) by (intro ends_caller_step [OF s2]) simp_all
  then show ?thesis using assms(1) by (intro ends_caller_step [OF s1])
qed

text \<open>A call whose job has a thread gives it back with every event and can take it again.\<close>

lemma ends_get:
  assumes "i < length (callers s)" and "c_pc (callers s ! i) = Get" and "pool_ok s"
    and "c_queue (callers s ! i) = Some q" and "c_rid (callers s ! i) = Some k"
    and "worker_exit \<in> set (queues s q)"
  shows "ends i s {Returned, WorkerExitError}"
  using assms
proof (induction "queues s q" arbitrary: s)
  case Nil
  then show ?case by simp
next
  case (Cons ev rest)
  let ?c = "callers s ! i"
  let ?s1 = "s\<lparr>queues := (queues s)(q := rest)\<rparr>"
  show ?case
  proof (cases "is_exit ev")
    case True
    let ?t = "goto i (FinPop WorkerExitError) ?s1"
    have "caller_step True i s = Some ?t"
      using Cons.prems True Cons.hyps(2) [symmetric] by (simp add: caller_step_def Let_def get_event_def)
    then show ?thesis
      by (rule ends_caller_step)
        (use Cons.prems in \<open>auto intro: ends_fin_pop [of i ?t WorkerExitError k]\<close>)
  next
    case False
    let ?t = "set_caller i (?c\<lparr>c_pc := Yielded ev, c_seen := c_seen ?c @ [ev]\<rparr>) ?s1"
    let ?u = "goto i (if is_terminal ev then FinPop Returned else await_event (c_api ?c)) ?t"
    have s1: "caller_step True i s = Some ?t"
      using Cons.prems False Cons.hyps(2) [symmetric] by (simp add: caller_step_def Let_def get_event_def)
    have s2: "wio_step ?t (Resume i) = Some ?u"
      using Cons.prems by (simp add: resume_def)
    have "wio_step s (Step i) = Some ?t" using s1 Cons.prems(1) by simp
    then have pool: "pool_ok ?u" using pool_step s2 Cons.prems(3) by blast
    have "ends i ?u {Returned, WorkerExitError}"
    proof (cases "is_terminal ev")
      case True
      then show ?thesis using Cons.prems by (intro ends_fin_pop [of i ?u Returned k]) simp_all
    next
      case nt: False
      have x: "worker_exit \<in> set rest"
        using Cons.prems(6) Cons.hyps(2) [symmetric] False by auto
      show ?thesis
      proof (cases "c_api ?c")
        case Sync
        then show ?thesis using Cons.prems nt x pool by (intro Cons.hyps(1)) (simp_all add: await_event_def)
      next
        case Async
        have "busy ?u + 1 = busy s"
          using busy_update [of i s ?u] Cons.prems(1,2) nt Async by (simp add: in_thread_def await_event_def)
        then have free: "thread_free ?u" using Cons.prems(3) by (simp add: thread_free_def pool_ok_def)
        let ?v = "goto i Get ?u"
        have s3: "caller_step True i ?u = Some ?v"
          using Cons.prems(1) nt Async free by (simp add: caller_step_def Let_def await_event_def)
        then have "pool_ok ?v" using pool_step [of ?u "Step i" ?v] pool Cons.prems(1) by simp
        then have "ends i ?v {Returned, WorkerExitError}"
          using Cons.prems x by (intro Cons.hyps(1)) simp_all
        then show ?thesis using Cons.prems(1) by (intro ends_caller_step [OF s3]) simp_all
      qed
    qed
    then have "ends i ?t {Returned, WorkerExitError}"
      using s2 by (rule ends_step [rotated 2]) (simp add: own_actions_def)
    then show ?thesis using Cons.prems(1) by (intro ends_caller_step [OF s1])
  qed
qed

lemma ends_waiting:
  assumes "i < length (callers s)" and "c_pc (callers s ! i) = Get \<or> c_pc (callers s ! i) = GetQueued \<and> thread_free s"
    and "pool_ok s" and "c_queue (callers s ! i) = Some q" and "c_rid (callers s ! i) = Some k"
    and "worker_exit \<in> set (queues s q)"
  shows "ends i s {Returned, WorkerExitError}"
proof (cases "c_pc (callers s ! i) = Get")
  case False
  let ?t = "goto i Get s"
  have st: "caller_step True i s = Some ?t" using False assms(2) by (auto simp: caller_step_def Let_def)
  then have "pool_ok ?t" using pool_step [of s "Step i" ?t] assms(1,3) by simp
  then have "ends i ?t {Returned, WorkerExitError}" using assms by (intro ends_get [of i ?t q k]) simp_all
  then show ?thesis using assms(1) by (intro ends_caller_step [OF st])
qed (use assms in \<open>auto intro: ends_get\<close>)

end
