(* ===== verification/WorkerIO_Theorems.thy ===== *)
theory WorkerIO_Theorems
  imports WorkerIO_Live
begin

text \<open>
  The properties of \<^verbatim>\<open>WorkerIO\<close> over its runs: every statement starts from a freshly created
  object and quantifies over every interleaving of its callers, its reader, \<^verbatim>\<open>close\<close> and
  \<^verbatim>\<open>cancel\<close>.  Each property with hypotheses has a concrete run in which they hold.
\<close>

section \<open>Auxiliary facts on runs\<close>

lemma capacity_step:
  assumes "wio_step s a = Some t"
  shows "capacity t = capacity s"
  using assms
proof (cases rule: wio_step_cases)
  case (move i)
  from move(2) show ?thesis by cases simp_all
next
  case own
  then show ?thesis by (simp add: reader_step_frame)
qed (simp_all add: close_begin_def)

lemma capacity_run: "wio_run s as = Some t \<Longrightarrow> capacity t = capacity s"
  by (induction as arbitrary: s)
    (auto simp: wio_run_def dest!: capacity_step split: option.splits)

lemma wio_run_append:
  "wio_run s (as @ bs) = Some t \<longleftrightarrow> (\<exists>u. wio_run s as = Some u \<and> wio_run u bs = Some t)"
  by (auto simp: wio_run_def runs_append split: option.splits)

lemma wio_run_Cons:
  "wio_run s (a # as) = Some t \<longleftrightarrow> (\<exists>u. wio_step s a = Some u \<and> wio_run u as = Some t)"
  by (auto simp: wio_run_def split: option.splits)

lemma wio_run_Nil [simp]: "wio_run s [] = Some t \<longleftrightarrow> t = s"
  by (auto simp: wio_run_def)

lemma run_table:
  assumes "wio_run (wio_init p n) as = Some s"
  shows "permits_ok s" "table_ok s"
  using wio_table.runs_inv [of "wio_init p n" as s] assms by (auto simp: wio_run_def)

lemma run_wake:
  assumes "wio_run (wio_init p n) as = Some s" and "distinct (call_ids as)"
  shows "table_ok s" "wake_ok s" "drained_ok s"
  using wio_wake.runs_inv [of "wio_init p n" as s] assms by (auto simp: wio_run_def)

lemma closers_step:
  assumes "wio_step s a = Some t" and "closers s \<noteq> [] \<Longrightarrow> closed s"
  shows "closers t \<noteq> [] \<Longrightarrow> closed t"
  using assms(1)
proof (cases rule: wio_step_cases)
  case (move i)
  assume "closers t \<noteq> []"
  moreover have "closers t = closers s \<and> closed t = closed s" using move(2) by cases simp_all
  ultimately show "closed t" using assms(2) by simp
next
  case own
  assume "closers t \<noteq> []"
  with own assms(2) show "closed t" by (simp add: reader_step_frame)
qed (use assms(2) in \<open>auto simp: close_begin_def\<close>)

interpretation wio_closers: step_invariant wio_step "\<lambda>s. \<exists>p n. s = wio_init p n" "\<lambda>_. True"
  "\<lambda>as s. closers s \<noteq> [] \<longrightarrow> closed s"
proof
  fix s :: wio
  assume "\<exists>p n. s = wio_init p n"
  then show "closers s \<noteq> [] \<longrightarrow> closed s" by (auto simp: wio_init_def)
qed (use closers_step in auto)

text \<open>An orphaned executor job that has obtained its permit keeps it for ever.\<close>

lemma leaked_step:
  assumes "wio_step s a = Some t" and "i < length (callers s)" and "c_pc (callers s ! i) = Leaked"
  shows "i < length (callers t) \<and> c_pc (callers t ! i) = Leaked"
  using assms(1)
proof (cases rule: wio_step_cases)
  case (move j)
  then have "j \<noteq> i" using assms(3) by auto
  then show ?thesis using move(1,2) assms(2,3) by (auto simp: move_other elim!: move_callersE)
next
  case own
  with assms show ?thesis by (simp add: reader_step_frame)
qed (use assms(2,3) in \<open>auto simp: close_begin_def nth_append\<close>)

lemma leaked_run:
  assumes "wio_run s as = Some t" and "i < length (callers s)" and "c_pc (callers s ! i) = Leaked"
  shows "i < length (callers t) \<and> c_pc (callers t ! i) = Leaked"
  using assms
proof (induction as arbitrary: s)
  case (Cons a as)
  then obtain u where "wio_step s a = Some u" "wio_run u as = Some t" by (auto simp: wio_run_Cons)
  with Cons show ?case by (blast dest: leaked_step)
qed simp

definition leaked :: "wio \<Rightarrow> nat set" where
  "leaked s = {i. i < length (callers s) \<and> c_pc (callers s ! i) = Leaked}"

lemma leaked_mono: "wio_run s as = Some t \<Longrightarrow> leaked s \<subseteq> leaked t"
  unfolding leaked_def using leaked_run by blast

lemma leaked_le_holders: "card (leaked s) \<le> holders s"
  unfolding holders_card leaked_def by (rule card_mono) (auto simp: holds_def)

text \<open>Once the reader is gone, nothing but \<^verbatim>\<open>close\<close> puts anything into a queue.\<close>

definition silent :: "nat \<Rightarrow> wio \<Rightarrow> bool" where
  "silent m s \<longleftrightarrow> reader s = RDone \<and> closers s = [] \<and> (\<forall>q. m \<le> q \<longrightarrow> q < next_queue s \<longrightarrow> queues s q = [])"

lemma silent_step:
  assumes "wio_step s a = Some t" and "silent m s" and "closers t = []"
  shows "silent m t"
  using assms(1)
proof (cases rule: wio_step_cases)
  case (move i)
  from move(2) assms(2,3) show ?thesis by cases (auto simp: silent_def less_Suc_eq)
next
  case (stale j)
  have "queues t q = []" if "queues s q = []" for q
    using stale_step_queues(2) [of j s q] that stale(2) by simp
  with stale(2) assms(2) show ?thesis by (simp add: silent_def)
next
  case own
  with assms(2) show ?thesis by (simp add: silent_def reader_step_def)
qed (use assms(2,3) in \<open>auto simp: silent_def close_begin_def\<close>)

lemma silent_run:
  assumes "wio_run s as = Some t" and "silent m s" and "\<not> closed t"
    and "closers s \<noteq> [] \<Longrightarrow> closed s"
  shows "silent m t"
  using assms
proof (induction as arbitrary: s)
  case (Cons a as)
  then obtain u where u: "wio_step s a = Some u" "wio_run u as = Some t" by (auto simp: wio_run_Cons)
  have c: "closers u \<noteq> [] \<Longrightarrow> closed u" using closers_step [OF u(1) Cons.prems(4)] by blast
  then have "closers u = []" using closed_run [OF u(2)] Cons.prems(3) by auto
  then have "silent m u" using silent_step [OF u(1) Cons.prems(2)] by blast
  with Cons.IH [OF u(2)] Cons.prems(3) c show ?case by blast
qed simp

section \<open>Concrete runs\<close>

text \<open>One request sent; then \<^verbatim>\<open>close\<close> completes.\<close>

definition send_a :: "action list" where
  "send_a = CallRequest (Some ''a'') JNull # replicate 4 (Step 0)"

definition send_and_close :: "action list" where
  "send_and_close = send_a @ [CloseBegin, CloseStep 0, CloseStep 0]"

definition tok :: "string \<Rightarrow> event" where
  "tok k = [(''event'', JStr ''token''), (''id'', JStr k)]"

definition done_of :: "string \<Rightarrow> event" where
  "done_of k = [(''event'', JStr ''done''), (''id'', JStr k)]"

text \<open>The request receives a token and its terminal event and returns.\<close>

definition send_and_finish :: "action list" where
  "send_and_finish = send_a @
     [StdoutLine (Parsed (JObj (tok ''a''))), ReaderStep, StdoutLine (Parsed (JObj (tok ''b''))),
      StdoutLine (Parsed (JObj (done_of ''a''))), ReaderStep,
      Step 0, Resume 0, Step 0, Resume 0, Step 0, Step 0]"

text \<open>
  Capacity one: the slot is held, an asynchronous caller blocks in \<^verbatim>\<open>acquire\<close> and its task is
  cancelled, the first request completes, and the orphaned job takes the permit.
\<close>

definition cancel_while_acquiring :: "action list" where
  "cancel_while_acquiring = send_a @
     [CallSendRequest ''b'' None JNull, Step 1, CancelTask 1,
      StdoutLine (Parsed (JObj (done_of ''a''))), ReaderStep,
      Step 0, Resume 0, Step 0, Step 0, Step 1]"

text \<open>
  Two threads, one slot: the permit is held while two further calls block both threads in
  \<^verbatim>\<open>acquire\<close>, before the holder's first \<^verbatim>\<open>q.get\<close> gets one; then \<^verbatim>\<open>close\<close> completes.
\<close>

definition exhausted :: "action list" where
  "exhausted = CallSendRequest ''a'' None JNull # replicate 7 (Step 0)
     @ [CallSendRequest ''b'' None JNull, Step 1, CallSendRequest ''c'' None JNull, Step 2,
        CloseBegin, CloseStep 0, CloseStep 0]"

definition final :: "action list \<Rightarrow> wio" where
  "final as = the (wio_run (wio_init 2 1) as)"

lemmas scenario_defs = send_a_def send_and_close_def send_and_finish_def
  cancel_while_acquiring_def exhausted_def final_def await_event_def thread_free_def busy_def in_thread_def wio_run_def wio_init_def tok_def done_of_def numeral_nat
  call_request_def call_send_request_def caller_step_def goto_def set_caller_def register_def
  write_line_def reader_line_def reader_step_def route_def event_rid_def q_put_def get_event_def
  resume_def is_exit_def is_terminal_def is_error_def close_begin_def close_step_def
  pop_inflight_def after_release_def cancel_task_def worker_exit_def py_or_def Let_def

lemma final_run:
  "wio_run (wio_init 2 1) send_a = Some (final send_a)"
  "wio_run (wio_init 2 1) send_and_close = Some (final send_and_close)"
  "wio_run (wio_init 2 1) send_and_finish = Some (final send_and_finish)"
  "wio_run (wio_init 2 1) cancel_while_acquiring = Some (final cancel_while_acquiring)"
  "wio_run (wio_init 2 1) exhausted = Some (final exhausted)"
  by (simp_all add: scenario_defs)

lemma final_state:
  "c_pc (callers (final send_a) ! 0) = Get" "owns (final send_a) 0 ''a'' 0"
  "reader (final send_a) = RLoop" "inflight (final send_a) = [(''a'', 0)]"
  "closed (final send_and_close)" "closers (final send_and_close) = [Notifying []]"
  "owns (final send_and_close) 0 ''a'' 0" "c_pc (callers (final send_and_close) ! 0) = Get"
  "length (callers (final send_and_finish)) = 1"
  "c_rid (callers (final send_and_finish) ! 0) = Some ''a''"
  "c_pc (callers (final send_and_finish) ! 0) = Finished Returned"
  "c_seen (callers (final send_and_finish) ! 0) = [tok ''a'', done_of ''a'']"
  "map c_pc (callers (final cancel_while_acquiring)) = [Finished Returned, Leaked]"
  by (simp_all add: scenario_defs owns_def)



lemma scenario_ids:
  "call_ids send_a = [''a'']" "call_ids send_and_close = [''a'']"
  "call_ids exhausted = [''a'', ''b'', ''c'']"
  by (simp_all add: send_a_def send_and_close_def exhausted_def numeral_nat)

section \<open>Properties\<close>

text \<open>
  C1: slots are conserved.  In every reachable state the free permits and the calls that are
  between their acquire and their release add up to \<^verbatim>\<open>max(1, concurrency)\<close>, so at most that
  many requests are in the in-flight table.
\<close>

theorem slots_conserved:
  assumes "wio_run (wio_init p n) as = Some s"
  shows "sem s + holders s = nat (max 1 n) \<and> length (inflight s) \<le> nat (max 1 n)"
proof -
  have "capacity s = nat (max 1 n)" using capacity_run [OF assms] by (simp add: wio_init_def)
  then show ?thesis
    using run_table [OF assms] inflight_le_holders [of s]
    by (simp add: permits_ok_def table_ok_def)
qed

theorem slots_conserved_witness:
  "sem (final send_a) + holders (final send_a) = 1 \<and> length (inflight (final send_a)) \<le> 1"
  using slots_conserved [OF final_run(1)] by simp

text \<open>
  C2: \<^verbatim>\<open>close\<close> loses no waiting caller.  For unique request ids, whenever the flag is set and
  every \<^verbatim>\<open>close\<close> call has finished, every caller that waits for events has the
  \<^verbatim>\<open>_worker_exit\<close> sentinel in its queue, however the calls, the reader and \<^verbatim>\<open>close\<close> were
  interleaved.
\<close>

theorem close_wakes_all:
  assumes "wio_run (wio_init p n) as = Some s" and "distinct (call_ids as)"
    and "closed s" and "\<forall>c\<in>set (closers s). c = Notifying []"
    and "owns s i k q" and "waiting (c_pc (callers s ! i))"
  shows "worker_exit \<in> set (queues s q)"
proof -
  note inv = run_wake [OF assms(1,2)]
  have "Draining \<notin> set (closers s)" using assms(4) by auto
  then have "map_of (inflight s) k \<noteq> Some q" using inv(3) assms(3,5,6) by (auto simp: drained_ok_def)
  then have "woken s q" using wake_okD [OF inv(2) assms(5)] assms(6) by blast
  then show ?thesis using assms(4) by (auto simp: woken_def)
qed

theorem close_wakes_all_witness: "worker_exit \<in> set (queues (final send_and_close) 0)"
  by (rule close_wakes_all [OF final_run(2), of 0 "''a''"])
    (simp_all add: final_state scenario_ids)



text \<open>
  C4: requests are isolated and ordered.  Whatever a call has yielded is an event that carries
  its own request id, or an error event, and the events it yielded are a subsequence of what the
  worker emitted on stdout: nothing is duplicated, invented or reordered.  This needs no
  assumption on the ids.
\<close>

theorem events_routed_in_order:
  assumes "wio_run (wio_init p n) as = Some s" and "i < length (callers s)"
    and "c_rid (callers s ! i) = Some k"
  shows "(\<forall>ev\<in>set (c_seen (callers s ! i)). event_rid ev = JStr k \<or> is_error ev)
    \<and> subseq (c_seen (callers s ! i)) (emitted as)"
proof (cases "c_queue (callers s ! i)")
  case None
  have "phase_ok (callers s ! i)"
    using run_table(2) [OF assms(1)] assms(2) by (simp add: table_ok_def phases_ok_def)
  with None show ?thesis by (simp add: phase_ok_def)
next
  case (Some q)
  have "routed_ok as s"
    using wio_route.runs_inv [of "wio_init p n" as s] assms(1) by (auto simp: wio_run_def)
  moreover have "owns s i k q" using assms(2,3) Some by (simp add: owns_def)
  ultimately have r: "\<forall>ev\<in>set (stream s i q). own_event k ev"
    "subseq (stream s i q) (filter (\<lambda>ev. \<not> is_exit ev) (emitted as))"
    by (simp_all add: routed_ok_def)
  have "subseq (c_seen (callers s ! i)) (stream s i q)"
    unfolding stream_def by (rule subseq_rev_drop_many) simp
  then have "subseq (c_seen (callers s ! i)) (emitted as)"
    by (rule subseq_order.order_trans
        [OF _ subseq_order.order_trans [OF r(2) subseq_filter_left]])
  with r(1) show ?thesis by (simp add: own_event_def stream_def)
qed

theorem events_routed_in_order_witness:
  "(event_rid (tok ''a'') = JStr ''a'' \<or> is_error (tok ''a''))
    \<and> subseq [tok ''a'', done_of ''a''] (emitted send_and_finish)"
  using events_routed_in_order [OF final_run(3), of 0 "''a''"] by (simp add: final_state)

text \<open>
  C5: no event is lost once the request line is written.  For unique ids, while the reader is in its
  loop, a call waits and no sentinel is on its way to it, an event that carries its (non-empty) id
  goes to its queue and changes nothing else.  This is what inserting the queue before the stdin write is for.
\<close>

theorem no_event_lost:
  assumes "wio_run (wio_init p n) as = Some s" and "distinct (call_ids as)"
    and "owns s i k q" and "waiting (c_pc (callers s ! i))" and "\<not> woken s q"
    and "reader s = RLoop" and "event_rid ev = JStr k" and "k \<noteq> []"
  shows "wio_run s [StdoutLine (Parsed (JObj ev)), ReaderStep] = Some (q_put q ev s)"
proof -
  have "map_of (inflight s) k = Some q"
    using wake_okD [OF run_wake(2) [OF assms(1,2)] assms(3)] assms(4,5) by blast
  then have "route (inflight s) ev = Some (Some q)" using assms(7,8) by (simp add: route_def)
  then show ?thesis
    using assms(6) by (simp add: wio_run_def reader_line_def reader_step_def q_put_def)
qed

theorem no_event_lost_witness:
  "wio_run (final send_a) [StdoutLine (Parsed (JObj (tok ''a''))), ReaderStep]
     = Some (q_put 0 (tok ''a'') (final send_a))"
proof (rule no_event_lost [OF final_run(1), where i = 0 and k = "''a''"])
  show "\<not> woken (final send_a) 0" by (simp add: woken_def scenario_defs)
qed (simp_all add: final_state scenario_ids event_rid_def tok_def py_or_def)

text \<open>The discipline of terminal events.  A call that returned yielded exactly one terminal event
  (\<^verbatim>\<open>done\<close> or \<^verbatim>\<open>cancelled\<close>), and it was the last.
\<close>

theorem returned_after_terminal:
  assumes "wio_run (wio_init p n) as = Some s" and "i < length (callers s)"
    and "c_pc (callers s ! i) = Finished Returned"
  shows "\<exists>evs ev. c_seen (callers s ! i) = evs @ [ev] \<and> is_terminal ev
    \<and> (\<forall>e\<in>set evs. \<not> is_terminal e)"
proof -
  have "all_seen_ok s"
    using wio_seen.runs_inv [of "wio_init p n" as s] assms(1) by (auto simp: wio_run_def)
  then have "seen_ok (callers s ! i)" using assms(2) by (simp add: all_seen_ok_def)
  then show ?thesis
    using assms(3) append_butlast_last_id [of "c_seen (callers s ! i)"]
    by (intro exI [of _ "butlast (c_seen (callers s ! i))"] exI [of _ "last (c_seen (callers s ! i))"])
      (simp add: seen_ok_def no_terminal_def)
qed

theorem returned_after_terminal_witness:
  "\<exists>evs ev. [tok ''a'', done_of ''a''] = evs @ [ev] \<and> is_terminal ev
    \<and> filter is_terminal evs = []"
  using returned_after_terminal [OF final_run(3), of 0] by (simp add: final_state filter_empty_conv)

text \<open>
  Once closed, always closed, and nothing more reaches the worker's stdin: no request line
  and no cancel line, whatever steps follow.
\<close>

theorem closed_stdin_silent:
  assumes "closed s" and "wio_run s bs = Some t"
  shows "closed t \<and> stdin t = stdin s"
  using closed_run [OF assms(2,1)] .

theorem closed_stdin_silent_witness:
  "closed (the (wio_run (final send_and_close) [CallRequest (Some ''c'') JNull, Cancel True ''a'']))
    \<and> stdin (the (wio_run (final send_and_close) [CallRequest (Some ''c'') JNull, Cancel True ''a'']))
      = stdin (final send_and_close)"
  by (rule closed_stdin_silent [where bs = "[CallRequest (Some ''c'') JNull, Cancel True ''a'']"])
    (simp_all add: final_state wio_run_def)

text \<open>
  C6: the slot of a cancelled waiter is lost.  When a task is cancelled while its executor job is
  blocked in \<^verbatim>\<open>acquire\<close>, the job later takes a permit that the done-callback does not give
  back; once as many jobs as there are slots have done so, no permit is ever free again, so no
  request can start, whatever happens afterwards.
\<close>

theorem leaked_slots_starve:
  assumes "wio_run (wio_init p n) as = Some s" and "card (leaked s) = nat (max 1 n)"
    and "wio_run s bs = Some t"
  shows "sem t = 0 \<and> (\<forall>i<length (callers t). c_pc (callers t ! i) = Acquiring \<longrightarrow>
    wio_step t (Step i) = None)"
proof -
  have run: "wio_run (wio_init p n) (as @ bs) = Some t" using assms(1,3) by (auto simp: wio_run_append)
  have "capacity t = nat (max 1 n)" using capacity_run [OF run] by (simp add: wio_init_def)
  then have "sem t + holders t = nat (max 1 n)" using run_table(1) [OF run] by (simp add: permits_ok_def)
  moreover have "card (leaked s) \<le> card (leaked t)"
    using leaked_mono [OF assms(3)] by (intro card_mono) (simp_all add: leaked_def)
  ultimately have "sem t = 0" using leaked_le_holders [of t] assms(2) by linarith
  then show ?thesis by (simp add: caller_step_def)
qed

theorem leaked_slots_starve_witness:
  "sem (the (wio_run (final cancel_while_acquiring) [CallRequest (Some ''c'') JNull])) = 0"
proof -
  let ?s = "final cancel_while_acquiring"
  have l: "length (callers ?s) = 2" using arg_cong [OF final_state(13), of length] by simp
  have pcs: "c_pc (callers ?s ! 0) = Finished Returned" "c_pc (callers ?s ! 1) = Leaked"
    using final_state(13) l by (metis (no_types) length_map nth_map nth_Cons_0 nth_Cons_Suc One_nat_def lessI
      zero_less_numeral one_less_numeral_iff semiring_norm(76))+
  have "leaked ?s = {1}"
    unfolding leaked_def using l pcs by (auto simp: numeral_nat less_Suc_eq)
  then show ?thesis
    using leaked_slots_starve [OF final_run(4), of "[CallRequest (Some ''c'') JNull]"]
    by (simp add: wio_run_def)
qed

text \<open>
  C7: one stdout line that is valid JSON but not an object ends the reader for good, without
  closing the object: a request registered afterwards gets no event and no sentinel as long as
  nobody calls \<^verbatim>\<open>close\<close>, so it can only run into its timeout.
\<close>

theorem dead_reader_starves:
  assumes "wio_run (wio_init p n) as = Some s" and "\<forall>d. v \<noteq> JObj d" and "reader s = RLoop"
    and "wio_run s ([StdoutLine (Parsed v), ReaderStep] @ bs) = Some t" and "\<not> closed t"
    and "owns t i k q" and "next_queue s \<le> q"
  shows "reader t = RDone \<and> queues t q = []"
proof -
  let ?u = "(fold (\<lambda>q. q_put q worker_exit) (map snd (inflight s)) (s\<lparr>reader := RFinally\<rparr>))
      \<lparr>inflight := [], reader := RDone\<rparr>"
  have step: "wio_step s (StdoutLine (Parsed v)) = Some (s\<lparr>reader := RFinally\<rparr>)"
    using assms(2,3) by (auto simp: reader_line_def split: json.splits)
  have run: "wio_run ?u bs = Some t"
    using assms(4) step by (simp add: wio_run_Cons reader_step_def)
  have cl: "closers s \<noteq> [] \<Longrightarrow> closed s"
    using wio_closers.runs_inv [of "wio_init p n" as s] assms(1) by (auto simp: wio_run_def)
  have "\<not> closed s" using closed_run [OF run] assms(5) by auto
  then have "silent (next_queue s) ?u" using cl by (auto simp: silent_def)
  then have s: "silent (next_queue s) t" using silent_run [OF run] assms(5) cl by auto
  have "wio_run (wio_init p n) (as @ [StdoutLine (Parsed v), ReaderStep] @ bs) = Some t"
    using assms(1,4) by (simp only: wio_run_append) blast
  then have "q < next_queue t"
    using run_table(2) assms(6) owned_allocated by (auto simp: table_ok_def)
  with s assms(7) show ?thesis by (simp add: silent_def)
qed

text \<open>A heartbeat number on stdout, then a request sent as usual.\<close>

definition after_heartbeat :: wio where
  "after_heartbeat = the (wio_run (wio_init 2 1) ([StdoutLine (Parsed (JInt 1)), ReaderStep] @ send_a))"

theorem dead_reader_starves_witness:
  "reader after_heartbeat = RDone \<and> queues after_heartbeat 0 = []"
proof (rule dead_reader_starves [of 2 1 "[]" "wio_init 2 1" "JInt 1" send_a])
  show "wio_run (wio_init 2 1) ([StdoutLine (Parsed (JInt 1)), ReaderStep] @ send_a) = Some after_heartbeat"
    by (simp add: after_heartbeat_def scenario_defs)
  show "owns after_heartbeat 0 ''a'' 0" "\<not> closed after_heartbeat"
    by (simp_all add: after_heartbeat_def scenario_defs owns_def)
qed (simp_all add: wio_init_def)

end
