(* ===== verification/Stream_Core.thy ===== *)
theory Stream_Core
  imports Voice_Prelude
begin

text \<open>
  Streaming over a time axis.  A tensor is the list of its frames along time (batch and channel
  axes are inside a frame), a Python slice \<^verbatim>\<open>x[a:b]\<close> clips and counts negative indices from
  the end, and a chunk loop cuts the input by a list of lengths.  The two locales are the contract
  of a streaming operator: fed any split of an input, its outputs join up to the output on the
  whole input.
\<close>

section \<open>Python slices\<close>

definition py_index :: "int \<Rightarrow> int \<Rightarrow> int" where
  "py_index n i = (if i < 0 then max 0 (i + n) else min i n)"

definition py_slice :: "'a list \<Rightarrow> int \<Rightarrow> int \<Rightarrow> 'a list" where
  "py_slice xs a b =
     (let n = int (length xs); i = py_index n a; j = py_index n b
      in take (nat (j - i)) (drop (nat i) xs))"

text \<open>\<^verbatim>\<open>xs[a:]\<close>.\<close>

definition py_from :: "'a list \<Rightarrow> int \<Rightarrow> 'a list" where
  "py_from xs a = drop (nat (py_index (int (length xs)) a)) xs"

lemma py_slice_nonneg:
  "0 \<le> a \<Longrightarrow> 0 \<le> b \<Longrightarrow> py_slice xs a b = take (nat b - nat a) (drop (nat a) xs)"
proof -
  assume ab: "0 \<le> a" "0 \<le> b"
  then obtain m n where mn: "a = int m" "b = int n" by (metis nonneg_int_cases)
  have "take (nat (min (int n) (int (length xs)) - min (int m) (int (length xs))))
      (drop (nat (min (int m) (int (length xs)))) xs) = take (n - m) (drop m xs)"
    by (cases "m \<le> length xs"; cases "n \<le> length xs") (auto simp: min_def nat_diff_distrib')
  then show ?thesis using mn by (simp add: py_slice_def py_index_def Let_def)
qed

lemma py_slice_nat: "py_slice xs (int m) (int m + int n) = take n (drop m xs)"
  by (simp add: py_slice_nonneg nat_add_distrib)

lemma py_from_neg: "0 < p \<Longrightarrow> py_from xs (- int p) = drop (length xs - p) xs"
  by (cases "p \<le> length xs") (auto simp: py_from_def py_index_def nat_diff_distrib' max_def)

lemma py_from_0 [simp]: "py_from xs 0 = xs"
  by (simp add: py_from_def py_index_def)

section \<open>Chunk loops\<close>

text \<open>
  \<^verbatim>\<open>for index, chunk in enumerate(chunks)\<close>: cut the next part, skip it when it is empty (the
  offset then stays), otherwise run the body on the part and advance by the chunk length.
\<close>

fun for_chunks ::
  "(nat \<Rightarrow> int \<Rightarrow> 'a list \<Rightarrow> 's \<Rightarrow> 'e + 'o \<times> 's) \<Rightarrow> 'a list \<Rightarrow> nat \<Rightarrow> int \<Rightarrow> 's \<Rightarrow> int list
     \<Rightarrow> 'e + 'o list \<times> int \<times> 's" where
  "for_chunks body x index offset st [] = Inr ([], offset, st)"
| "for_chunks body x index offset st (chunk # chunks) =
     (let part = py_slice x offset (offset + chunk)
      in if part = [] then for_chunks body x (Suc index) offset st chunks
         else res_bind (body index offset part st) (\<lambda>(y, st').
           res_bind (for_chunks body x (Suc index) (offset + chunk) st' chunks)
             (\<lambda>(ys, offset', st''). Inr (y # ys, offset', st''))))"

text \<open>The same loop over a list of parts that is already cut.\<close>

fun for_parts ::
  "(nat \<Rightarrow> int \<Rightarrow> 'a list \<Rightarrow> 's \<Rightarrow> 'e + 'o \<times> 's) \<Rightarrow> nat \<Rightarrow> int \<Rightarrow> 's \<Rightarrow> 'a list list
     \<Rightarrow> 'e + 'o list \<times> 's" where
  "for_parts body index offset st [] = Inr ([], st)"
| "for_parts body index offset st (part # parts) =
     (if part = [] then for_parts body (Suc index) offset st parts
      else res_bind (body index offset part st) (\<lambda>(y, st').
        res_bind (for_parts body (Suc index) (offset + int (length part)) st' parts)
          (\<lambda>(ys, st''). Inr (y # ys, st''))))"

text \<open>The parts a list of lengths cuts an input into.\<close>

fun cut :: "'a list \<Rightarrow> int list \<Rightarrow> 'a list list" where
  "cut x [] = []"
| "cut x (c # cs) = take (nat c) x # cut (drop (nat c) x) cs"

definition covers :: "int list \<Rightarrow> 'a list \<Rightarrow> bool" where
  "covers cs x \<longleftrightarrow> (\<forall>c\<in>set cs. 0 \<le> c) \<and> sum_list cs = int (length x)"

lemma covers_Cons: "covers (c # cs) x \<Longrightarrow> covers cs (drop (nat c) x) \<and> 0 \<le> c \<and> nat c \<le> length x"
proof -
  assume a: "covers (c # cs) x"
  have "0 \<le> sum_list cs" using a by (intro sum_list_nonneg) (simp add: covers_def)
  then show ?thesis using a by (auto simp: covers_def of_nat_diff)
qed

lemma concat_cut: "covers cs x \<Longrightarrow> concat (cut x cs) = x"
proof (induction cs arbitrary: x)
  case (Cons c cs)
  then show ?case using covers_Cons [OF Cons.prems] by simp
qed (simp add: covers_def)

lemma length_cut [simp]: "length (cut x cs) = length cs"
  by (induction cs arbitrary: x) auto

lemma last_cut:
  assumes "covers cs x" and "cs \<noteq> []" and "0 < last cs"
  shows "last (cut x cs) \<noteq> []"
  using assms
proof (induction cs arbitrary: x)
  case (Cons c cs)
  show ?case
  proof (cases "cs = []")
    case True
    then show ?thesis using Cons.prems by (auto simp: covers_def)
  next
    case False
    moreover from this have "cut (drop (nat c) x) cs \<noteq> []"
      by (metis length_0_conv length_cut)
    ultimately show ?thesis using Cons covers_Cons [OF Cons.prems(1)] by simp
  qed
qed simp

text \<open>Cutting inside the loop and cutting first are the same.\<close>

lemma for_chunks_parts:
  assumes "covers cs (drop m x)" and "m \<le> length x"
  shows "for_chunks body x i (int m) st cs =
    res_bind (for_parts body i (int m) st (cut (drop m x) cs))
      (\<lambda>(ys, st'). Inr (ys, int (length x), st'))"
  using assms
proof (induction cs arbitrary: m i st)
  case Nil
  then show ?case by (simp add: covers_def)
next
  case (Cons c cs)
  note c = covers_Cons [OF Cons.prems(1)]
  then obtain n where n: "c = int n" by (metis nonneg_int_cases)
  have part: "py_slice x (int m) (int m + c) = take n (drop m x)" unfolding n by (rule py_slice_nat)
  have nm: "n + m \<le> length x" using c n Cons.prems(2) by auto
  have cov: "covers cs (drop (n + m) x)" using c n by (simp add: add.commute)
  have IH: "for_chunks body x j (int (n + m)) st' cs =
    res_bind (for_parts body j (int (n + m)) st' (cut (drop (n + m) x) cs))
      (\<lambda>(ys, st'). Inr (ys, int (length x), st'))" for j st'
    using Cons.IH [OF cov nm] .
  define o' where "o' = int (n + m)"
  define d where "d = cut (drop (n + m) x) cs"
  have e: "int m + c = o'" "nat c = n" "cut (drop (nat c) (drop m x)) cs = d"
    using n by (simp_all add: o'_def d_def)
  note IH' = IH [folded o'_def d_def]
  show ?case
  proof (cases "take n (drop m x) = []")
    case True
    then have "n = 0" using nm Cons.prems(2) by auto
    then have "o' = int m" by (simp add: o'_def)
    then show ?thesis using True e IH' [of "Suc i" st] part by (simp add: Let_def)
  next
    case False
    have l: "int m + int (length (take n (drop m x))) = o'" using nm by (simp add: o'_def)
    show ?thesis
    proof (cases "body i (int m) (take n (drop m x)) st")
      case (Inl err)
      then show ?thesis using False part e by (simp add: Let_def)
    next
      case (Inr r)
      obtain y st' where r: "r = (y, st')" by (cases r)
      have "for_chunks body x i (int m) st (c # cs) = res_bind (for_chunks body x (Suc i) o' st' cs)
          (\<lambda>(ys, offset', st''). Inr (y # ys, offset', st''))"
        using False part e Inr r by (simp add: Let_def)
      moreover have "for_parts body i (int m) st (cut (drop m x) (c # cs)) =
          res_bind (for_parts body (Suc i) o' st' d) (\<lambda>(ys, st''). Inr (y # ys, st''))"
        using False e(2,3) l Inr r by simp
      ultimately show ?thesis
        unfolding IH' by (cases "for_parts body (Suc i) o' st' d") auto
    qed
  qed
qed

lemma for_chunks_cut:
  assumes "covers cs x" and "for_parts body i 0 st (cut x cs) = Inr (outs, st')"
  shows "for_chunks body x i 0 st cs = Inr (outs, int (length x), st')"
  using for_chunks_parts [of cs 0 x body i st] assms by simp

text \<open>Chunks that do not reach the end of the input do not see what is beyond them.\<close>

lemma for_chunks_take:
  assumes "\<forall>c\<in>set cs. 0 < c" and "int k + sum_list cs = int n" and "n \<le> length x"
  shows "for_chunks body (take n x) i (int k) st cs = for_chunks body x i (int k) st cs"
  using assms(1,2)
proof (induction cs arbitrary: i k st)
  case (Cons c cs)
  obtain j where j: "c = int j" "0 < j" using Cons.prems(1) by (metis list.set_intros(1) pos_int_cases)
  have "0 \<le> sum_list cs" using Cons.prems(1) by (simp add: sum_list_nonneg less_imp_le)
  then have kj: "k + j \<le> n" using Cons.prems(2) j by simp
  have "py_slice (take n x) (int k) (int k + c) = py_slice x (int k) (int k + c)"
    unfolding j py_slice_nat using kj by (simp add: take_drop min_def)
  moreover have "for_chunks body (take n x) (Suc i) (int k + c) st' cs
      = for_chunks body x (Suc i) (int k + c) st' cs" for st'
    using Cons.IH [of "k + j" "Suc i" st'] Cons.prems j by simp
  moreover have "py_slice x (int k) (int k + c) \<noteq> []"
    unfolding j py_slice_nat using kj assms(3) j by simp
  ultimately show ?case by simp
qed simp

lemma for_parts_length:
  "for_parts body i off st ps = Inr (outs, st') \<Longrightarrow> length outs = length (filter (\<lambda>p. p \<noteq> []) ps)"
  by (induction ps arbitrary: i off st outs) (auto split: if_splits prod.splits)

section \<open>Contracts of streaming operators\<close>

text \<open>
  A causal operator: \<open>rep\<close> says what its state remembers of the input so far, and one step on a
  non-empty part extends the output on the input so far by exactly what it returns.
\<close>

locale causal_stream =
  fixes step :: "int \<Rightarrow> 'a list \<Rightarrow> 's \<Rightarrow> 'e + 'b list \<times> 's"
    and init :: "'s"
    and rep :: "'a list \<Rightarrow> 's \<Rightarrow> bool"
    and full :: "'a list \<Rightarrow> 'b list"
  assumes rep_init: "rep [] init"
    and full_Nil: "full [] = []"
    and step_ok: "rep xs s \<Longrightarrow> ys \<noteq> [] \<Longrightarrow> \<exists>out s'. step (int (length xs)) ys s = Inr (out, s')
      \<and> rep (xs @ ys) s' \<and> full (xs @ ys) = full xs @ out"
begin

lemma parts_from:
  assumes "rep xs s"
  shows "\<exists>outs s'. for_parts (\<lambda>i off. step off) i (int (length xs)) s ps = Inr (outs, s')
    \<and> rep (xs @ concat ps) s' \<and> full (xs @ concat ps) = full xs @ concat outs"
  using assms
proof (induction ps arbitrary: xs s i)
  case (Cons p ps)
  show ?case
  proof (cases "p = []")
    case True
    then show ?thesis using Cons by simp
  next
    case False
    with step_ok [OF Cons.prems] obtain out s1 where
      1: "step (int (length xs)) p s = Inr (out, s1)" "rep (xs @ p) s1"
        "full (xs @ p) = full xs @ out"
      by blast
    from Cons.IH [OF 1(2), of "Suc i"] obtain outs s2 where
      2: "for_parts (\<lambda>i off. step off) (Suc i) (int (length (xs @ p))) s1 ps = Inr (outs, s2)"
        "rep ((xs @ p) @ concat ps) s2" "full ((xs @ p) @ concat ps) = full (xs @ p) @ concat outs"
      by blast
    then show ?thesis
      using False 1 by (intro exI [of _ "out # outs"] exI [of _ s2]) simp
  qed
qed simp

lemma parts_full:
  "\<exists>outs s'. for_parts (\<lambda>i off. step off) i 0 init ps = Inr (outs, s')
    \<and> rep (concat ps) s' \<and> concat outs = full (concat ps)"
  using parts_from [OF rep_init, of i ps] by (auto simp: full_Nil)

lemma chunks_full:
  assumes "covers cs x"
  shows "\<exists>outs s'. for_chunks (\<lambda>i off. step off) x i 0 init cs = Inr (outs, int (length x), s')
    \<and> concat outs = full x"
proof -
  from parts_full [of i "cut x cs"] obtain outs s' where
    "for_parts (\<lambda>i off. step off) i 0 init (cut x cs) = Inr (outs, s')" "concat outs = full x"
    by (auto simp: concat_cut [OF assms])
  then show ?thesis
    using for_chunks_parts [of cs 0 x "\<lambda>i off. step off" i init] assms by simp
qed

end

text \<open>An operator with one output frame per input frame: its outputs match its parts in length.\<close>

locale frame_stream = causal_stream +
  assumes full_length: "length (full xs) = length xs"
begin

lemma step_length:
  assumes "rep xs s" and "ys \<noteq> []" and "step (int (length xs)) ys s = Inr (out, s')"
  shows "length out = length ys"
  using step_ok [OF assms(1,2)] assms(3) full_length [of "xs @ ys"] full_length [of xs] by auto

lemma parts_lengths_from:
  assumes "rep xs s" and "for_parts (\<lambda>i off. step off) i (int (length xs)) s ps = Inr (outs, s')"
  shows "map length outs = map length (filter (\<lambda>p. p \<noteq> []) ps)"
  using assms
proof (induction ps arbitrary: xs s i outs)
  case (Cons p ps)
  show ?case
  proof (cases "p = []")
    case True
    then show ?thesis using Cons by simp
  next
    case False
    with step_ok [OF Cons.prems(1)] obtain out s1 where
      1: "step (int (length xs)) p s = Inr (out, s1)" "rep (xs @ p) s1" by blast
    from Cons.prems(2) False 1 obtain outs' where
      2: "for_parts (\<lambda>i off. step off) (Suc i) (int (length (xs @ p))) s1 ps = Inr (outs', s')"
        "outs = out # outs'"
      by (auto split: prod.splits)
    show ?thesis
      using Cons.IH [OF 1(2) 2(1)] 2(2) False step_length [OF Cons.prems(1) False 1(1)] by simp
  qed
qed simp

lemma parts_lengths:
  "for_parts (\<lambda>i off. step off) i 0 init ps = Inr (outs, s') \<Longrightarrow>
    map length outs = map length (filter (\<lambda>p. p \<noteq> []) ps)"
  using parts_lengths_from [OF rep_init, of i ps outs s'] by simp

end

text \<open>An operator that holds frames back and releases the rest on its last part.\<close>

locale finishing_stream = causal_stream step init rep full
  for step :: "int \<Rightarrow> 'a list \<Rightarrow> 's \<Rightarrow> 'e + 'b list \<times> 's" and init and rep and full +
  fixes last_step :: "int \<Rightarrow> 'a list \<Rightarrow> 's \<Rightarrow> 'e + 'b list \<times> 's"
    and whole :: "'a list \<Rightarrow> 'b list"
  assumes last_ok: "rep xs s \<Longrightarrow> ys \<noteq> [] \<Longrightarrow>
    \<exists>out s'. last_step (int (length xs)) ys s = Inr (out, s') \<and> whole (xs @ ys) = full xs @ out"
begin

lemma finish_from:
  assumes "rep xs s" and "ps \<noteq> []" and "last ps \<noteq> []" and "i + length ps = Suc n"
  shows "\<exists>outs s'. for_parts (\<lambda>i off. if i = n then last_step off else step off) i
      (int (length xs)) s ps = Inr (outs, s') \<and> whole (xs @ concat ps) = full xs @ concat outs"
  using assms
proof (induction ps arbitrary: xs s i)
  case (Cons p ps)
  let ?body = "\<lambda>i off. if i = n then last_step off else step off"
  show ?case
  proof (cases "ps = []")
    case True
    then have "p \<noteq> []" "i = n" using Cons.prems by auto
    then show ?thesis using last_ok [OF Cons.prems(1), of p] True by auto
  next
    case ps: False
    then have i: "i \<noteq> n" and lst: "last ps \<noteq> []" and n: "Suc i + length ps = Suc n"
      using Cons.prems by (cases ps; simp)+
    show ?thesis
    proof (cases "p = []")
      case True
      then show ?thesis using Cons.IH [OF Cons.prems(1) ps lst n] by simp
    next
      case False
      with step_ok [OF Cons.prems(1)] obtain out s1 where
        1: "step (int (length xs)) p s = Inr (out, s1)" "rep (xs @ p) s1"
          "full (xs @ p) = full xs @ out"
        by blast
      from Cons.IH [OF 1(2) ps lst n] obtain outs s2 where
        2: "for_parts ?body (Suc i) (int (length (xs @ p))) s1 ps = Inr (outs, s2)"
          "whole ((xs @ p) @ concat ps) = full (xs @ p) @ concat outs"
        by blast
      then show ?thesis
        using False i 1 by (intro exI [of _ "out # outs"] exI [of _ s2]) simp
    qed
  qed
qed simp

lemma finish_parts:
  assumes "ps \<noteq> []" and "last ps \<noteq> []"
  shows "\<exists>outs s'. for_parts (\<lambda>i off. if i = length ps - 1 then last_step off else step off) 0 0 init ps
    = Inr (outs, s') \<and> concat outs = whole (concat ps)"
  using finish_from [OF rep_init assms, of 0 "length ps - 1"] assms(1)
  by (auto simp: full_Nil)

end

section \<open>Making chunks\<close>

text \<open>
  \<^verbatim>\<open>make_chunks\<close> of \<^verbatim>\<open>qwen3_code2wav_stateful_reference.py\<close>.  With a pattern entry of zero or
  less the Python loop may run for ever, so the model takes fuel; \<open>None\<close> is fuel exhausted, and
  an empty pattern raises (\<open>Inl\<close>) when its remainder is taken.
\<close>

datatype pattern_error = ZeroDivision

fun make_chunks_from ::
  "nat \<Rightarrow> int \<Rightarrow> int list \<Rightarrow> int \<Rightarrow> nat \<Rightarrow> (pattern_error + int list) option" where
  "make_chunks_from 0 tot pattern offset index = None"
| "make_chunks_from (Suc fuel) tot pattern offset index =
     (if \<not> offset < tot then Some (Inr [])
      else if pattern = [] then Some (Inl ZeroDivision)
      else let chunk = min (pattern ! (index mod length pattern)) (tot - offset)
           in map_option (\<lambda>r. res_bind r (\<lambda>cs. Inr (chunk # cs)))
                (make_chunks_from fuel tot pattern (offset + chunk) (Suc index)))"

definition make_chunks :: "int \<Rightarrow> int list \<Rightarrow> (pattern_error + int list) option" where
  "make_chunks tot pattern = make_chunks_from (Suc (nat tot)) tot pattern 0 0"

lemma make_chunks_from_covers:
  assumes "pattern \<noteq> []" and "\<forall>c\<in>set pattern. 0 < c" and "tot - offset \<le> int fuel"
  shows "\<exists>cs. make_chunks_from (Suc fuel) tot pattern offset index = Some (Inr cs)
    \<and> (\<forall>c\<in>set cs. 0 < c) \<and> sum_list cs = max 0 (tot - offset)"
  using assms(3)
proof (induction fuel arbitrary: offset index)
  case 0
  then show ?case by simp
next
  case (Suc fuel)
  show ?case
  proof (cases "offset < tot")
    case True
    let ?c = "min (pattern ! (index mod length pattern)) (tot - offset)"
    have "0 < pattern ! (index mod length pattern)" using assms(1,2) by simp
    then have c: "0 < ?c" "?c \<le> tot - offset" using True by auto
    then have "tot - (offset + ?c) \<le> int fuel" using Suc.prems by linarith
    from Suc.IH [OF this, of "Suc index"] obtain cs where
      cs: "make_chunks_from (Suc fuel) tot pattern (offset + ?c) (Suc index) = Some (Inr cs)"
        "\<forall>c\<in>set cs. 0 < c" "sum_list cs = max 0 (tot - (offset + ?c))"
      by blast
    have "make_chunks_from (Suc (Suc fuel)) tot pattern offset index = Some (Inr (?c # cs))"
      using True assms(1) cs(1)
      by (simp only: make_chunks_from.simps(2) [of "Suc fuel"] Let_def) simp
    then show ?thesis using cs(2,3) c by (intro exI [of _ "?c # cs"]) auto
  qed simp
qed

lemma make_chunks_covers:
  assumes "pattern \<noteq> []" and "\<forall>c\<in>set pattern. 0 < c"
  obtains cs where "make_chunks (int (length x)) pattern = Some (Inr cs)" "covers cs x"
    "\<forall>c\<in>set cs. 0 < c"
  using make_chunks_from_covers [OF assms, of "int (length x)" 0 "length x" 0] that
  by (auto simp: make_chunks_def covers_def less_imp_le simp del: make_chunks_from.simps)

end
