(* ===== verification/Code2Wav_Conv.thy ===== *)
theory Code2Wav_Conv
  imports Stream_Core
begin

text \<open>
  Causal and transposed convolutions of the streaming Code2Wav decoder:
  \<^verbatim>\<open>scripts/qwen3_code2wav_stateful_reference.py\<close> and the product versions in
  \<^verbatim>\<open>scripts/qwen3_tts_code2wav_stateful_real_gate.py\<close> and
  \<^verbatim>\<open>scripts/qwen3_tts_code2wav_stateful_export.py\<close>.  The convolutions themselves are PyTorch:
  they are fields of the module records, and what is relied on is their documented formula
  (\<open>valid_conv\<close>, \<open>overlap_add\<close>).  Arithmetic is that of a commutative monoid of frames, so
  rounding is not modelled.
\<close>

section \<open>Exceptions\<close>

datatype c2w_error =
    NotImplementedStride
  | ChunksCover int int
  | CatEmpty
  | ConvTooShort
  | ZipStrict
  | UnhandledBlock
  | PatternZero
  | RangeStepZero

text \<open>\<^verbatim>\<open>torch.cat\<close> refuses an empty list.\<close>

definition torch_cat :: "'a list list \<Rightarrow> c2w_error + 'a list" where
  "torch_cat outs = (if outs = [] then Inl CatEmpty else Inr (concat outs))"

section \<open>Causal convolution\<close>

record 'f conv_mod =
  conv_stride :: nat
  conv_padding :: nat
  conv_fn :: "'f list \<Rightarrow> 'f list"

record 'f conv_state =
  history :: "'f list"

definition causal_conv_step ::
  "'f conv_mod \<Rightarrow> 'f list \<Rightarrow> 'f conv_state \<Rightarrow> c2w_error + 'f list \<times> 'f conv_state" where
  "causal_conv_step m x state =
     (if conv_stride m \<noteq> 1 then Inl NotImplementedStride
      else if conv_padding m = 0 then Inr (conv_fn m x, \<lparr>history = []\<rparr>)
      else let padded = history state @ x
           in Inr (conv_fn m padded,
                   \<lparr>history = py_from padded (- int (conv_padding m))\<rparr>))"

definition conv_init :: "'f::zero conv_mod \<Rightarrow> 'f conv_state" where
  "conv_init m = \<lparr>history = replicate (conv_padding m) 0\<rparr>"

definition causal_conv_stream :: "'f::zero conv_mod \<Rightarrow> 'f list \<Rightarrow> int list \<Rightarrow> c2w_error + 'f list" where
  "causal_conv_stream m x chunks =
     res_bind (for_chunks (\<lambda>index offset. causal_conv_step m) x 0 0 (conv_init m) chunks)
       (\<lambda>(outs, offset, state).
          if offset \<noteq> int (length x) then Inl (ChunksCover offset (int (length x)))
          else torch_cat outs)"

definition causal_conv_stream_chunks ::
  "'f::zero conv_mod \<Rightarrow> 'f list list \<Rightarrow> c2w_error + 'f list list" where
  "causal_conv_stream_chunks m chunks =
     (if chunks = [] then Inr []
      else res_bind (for_parts (\<lambda>index offset. causal_conv_step m) 0 0 (conv_init m) chunks)
             (\<lambda>(outs, state). Inr outs))"

text \<open>
  The product gate's step has no shortcut without padding and its chunk loop does not skip empty
  parts; the exported step keeps the state it got when there is no padding and does not look at
  the stride.
\<close>

definition rg_causal_conv_step ::
  "'f conv_mod \<Rightarrow> 'f list \<Rightarrow> 'f conv_state \<Rightarrow> c2w_error + 'f list \<times> 'f conv_state" where
  "rg_causal_conv_step m x state =
     (if conv_stride m \<noteq> 1 then Inl NotImplementedStride
      else let padded = history state @ x;
               history_len = conv_padding m
           in Inr (conv_fn m padded,
                   \<lparr>history = (if history_len \<noteq> 0 then py_from padded (- int history_len)
                               else py_slice padded 0 0)\<rparr>))"

fun rg_for_parts ::
  "(nat \<Rightarrow> 'a list \<Rightarrow> 's \<Rightarrow> 'e + 'o \<times> 's) \<Rightarrow> nat \<Rightarrow> 's \<Rightarrow> 'a list list \<Rightarrow> 'e + 'o list \<times> 's" where
  "rg_for_parts body index st [] = Inr ([], st)"
| "rg_for_parts body index st (part # parts) =
     res_bind (body index part st) (\<lambda>(y, st').
       res_bind (rg_for_parts body (Suc index) st' parts) (\<lambda>(ys, st''). Inr (y # ys, st'')))"

definition rg_causal_conv_stream_chunks ::
  "'f::zero conv_mod \<Rightarrow> 'f list list \<Rightarrow> c2w_error + 'f list list" where
  "rg_causal_conv_stream_chunks m chunks =
     (if chunks = [] then Inr []
      else res_bind (rg_for_parts (\<lambda>index. rg_causal_conv_step m) 0 (conv_init m) chunks)
             (\<lambda>(outs, state). Inr outs))"

definition ex_causal_conv_step :: "'f conv_mod \<Rightarrow> 'f list \<Rightarrow> 'f list \<Rightarrow> 'f list \<times> 'f list" where
  "ex_causal_conv_step m x state =
     (if conv_padding m = 0 then (conv_fn m x, state)
      else let padded = state @ x
           in (conv_fn m padded, py_from padded (- int (conv_padding m))))"

section \<open>Transposed convolution\<close>

text \<open>
  \<open>tc_fn\<close> is \<^verbatim>\<open>F.conv_transpose1d\<close> with the module's weights and no bias.
\<close>

record 'f tconv_mod =
  tc_stride :: nat
  tc_left_pad :: nat
  tc_right_pad :: nat
  tc_fn :: "'f list \<Rightarrow> 'f list"
  tc_bias :: "'f option"

record 'f tconv_state =
  raw_acc :: "'f list"
  emitted_trimmed :: int
  input_offset :: int

definition add_bias :: "'f::plus option \<Rightarrow> 'f list \<Rightarrow> 'f list" where
  "add_bias b ys = (case b of None \<Rightarrow> ys | Some c \<Rightarrow> map (\<lambda>y. y + c) ys)"

text \<open>\<^verbatim>\<open>acc[..., start : start + len(raw)] += raw\<close>, with the segment inside \<open>acc\<close>.\<close>

definition add_segment :: "nat \<Rightarrow> 'f::plus list \<Rightarrow> 'f list \<Rightarrow> 'f list" where
  "add_segment start raw acc =
     map (\<lambda>j. if start \<le> j \<and> j < start + length raw then acc ! j + raw ! (j - start) else acc ! j)
       [0..<length acc]"

text \<open>Growing with zeros to a length that is at least the present one.\<close>

definition grow :: "nat \<Rightarrow> 'f::zero list \<Rightarrow> 'f list" where
  "grow n xs = xs @ replicate (n - length xs) 0"

text \<open>A raw segment and where it starts; the loop that collects the segments.\<close>

record 'f tconv_chunk =
  tc_start :: int
  tc_raw :: "'f list"

definition collect_step ::
  "'f tconv_mod \<Rightarrow> int \<Rightarrow> 'f list \<Rightarrow> int \<Rightarrow> c2w_error + 'f tconv_chunk \<times> int" where
  "collect_step m offset part raw_len =
     (let raw = tc_fn m part; start = offset * int (tc_stride m)
      in Inr (\<lparr>tc_start = start, tc_raw = raw\<rparr>, max raw_len (start + int (length raw))))"

definition transposed_conv_stream_collect ::
  "'f::comm_monoid_add tconv_mod \<Rightarrow> 'f list \<Rightarrow> int list \<Rightarrow> c2w_error + 'f list" where
  "transposed_conv_stream_collect m x chunks =
     res_bind (for_chunks (\<lambda>index. collect_step m) x 0 0 0 chunks)
       (\<lambda>(pieces, offset, raw_len).
          if offset \<noteq> int (length x) then Inl (ChunksCover offset (int (length x)))
          else let full_raw = replicate (nat raw_len) 0;
                   full_raw = fold (\<lambda>piece. add_segment (nat (tc_start piece)) (tc_raw piece))
                                pieces full_raw;
                   full_raw = add_bias (tc_bias m) full_raw;
                   right = int (length full_raw) - int (tc_right_pad m)
               in Inr (py_slice full_raw (int (tc_left_pad m)) right))"

definition transposed_conv_emit_step ::
  "'f::comm_monoid_add tconv_mod \<Rightarrow> 'f list \<Rightarrow> 'f tconv_state \<Rightarrow> bool \<Rightarrow> 'f list \<times> 'f tconv_state" where
  "transposed_conv_emit_step m x state final =
     (let stride = int (tc_stride m);
          left_pad = int (tc_left_pad m);
          right_pad = int (tc_right_pad m);
          raw = tc_fn m x;
          start = input_offset state * stride;
          raw_len = max (int (length (raw_acc state))) (start + int (length raw));
          raw_accum = (if raw_len > int (length (raw_acc state)) then grow (nat raw_len) (raw_acc state)
                       else raw_acc state);
          raw_accum = add_segment (nat start) raw raw_accum;
          next_input_offset = input_offset state + int (length x);
          stable_trimmed_end =
            (if final then max 0 (int (length raw_accum) - right_pad - left_pad)
             else max 0 (next_input_offset * stride - left_pad));
          emit_start = emitted_trimmed state;
          emit_end = max emit_start stable_trimmed_end;
          y = py_slice raw_accum (left_pad + emit_start) (left_pad + emit_end);
          y = (if y \<noteq> [] then add_bias (tc_bias m) y else y)
      in (y, \<lparr>raw_acc = raw_accum, emitted_trimmed = emit_end, input_offset = next_input_offset\<rparr>))"

definition tconv_init :: "'f tconv_state" where
  "tconv_init = \<lparr>raw_acc = [], emitted_trimmed = 0, input_offset = 0\<rparr>"

definition transposed_conv_stream_emit ::
  "'f::comm_monoid_add tconv_mod \<Rightarrow> 'f list \<Rightarrow> int list \<Rightarrow> c2w_error + 'f list" where
  "transposed_conv_stream_emit m x chunks =
     res_bind (for_chunks (\<lambda>index offset part state.
         Inr (transposed_conv_emit_step m part state (int index = int (length chunks) - 1)))
         x 0 0 tconv_init chunks)
       (\<lambda>(outs, offset, state).
          if offset \<noteq> int (length x) then Inl (ChunksCover offset (int (length x)))
          else torch_cat outs)"

definition transposed_conv_stream_emit_chunks ::
  "'f::comm_monoid_add tconv_mod \<Rightarrow> 'f list list \<Rightarrow> c2w_error + 'f list list" where
  "transposed_conv_stream_emit_chunks m chunks =
     (if chunks = [] then Inr []
      else res_bind (for_parts (\<lambda>index offset part state.
               Inr (transposed_conv_emit_step m part state (int index = int (length chunks) - 1)))
               0 0 tconv_init chunks)
             (\<lambda>(outs, state). Inr (filter (\<lambda>y. y \<noteq> []) outs)))"

text \<open>The exported step carries the pending right edge; without right padding there is none.\<close>

definition ex_transposed_conv_step ::
  "'f::comm_monoid_add tconv_mod \<Rightarrow> 'f list \<Rightarrow> 'f list \<Rightarrow> 'f list \<times> 'f list" where
  "ex_transposed_conv_step m x pending =
     (let raw = tc_fn m x;
          raw = (if pending \<noteq> [] then add_segment 0 pending raw else raw);
          emit_len = length x * tc_stride m;
          y = add_bias (tc_bias m) (take emit_len raw)
      in (y, drop emit_len raw))"

definition ex_transposed_conv_no_state ::
  "'f::comm_monoid_add tconv_mod \<Rightarrow> 'f list \<Rightarrow> 'f list" where
  "ex_transposed_conv_no_state m x =
     add_bias (tc_bias m) (take (length x * tc_stride m) (tc_fn m x))"

end
