(* ===== verification/Code2Wav_Conv_Props.thy ===== *)
theory Code2Wav_Conv_Props
  imports Code2Wav_Conv
begin

text \<open>
  The streaming convolutions meet the contracts of \<open>Stream_Core\<close>.  What is assumed of PyTorch is
  its documented formula: a convolution is one function of a window of frames
  (\<open>valid_conv\<close>), a transposed convolution overlap-adds the contributions of the input frames
  (\<open>overlap_add\<close>).
\<close>

section \<open>Causal convolution\<close>

definition valid_conv :: "'f conv_mod \<Rightarrow> ('f list \<Rightarrow> 'f) \<Rightarrow> bool" where
  "valid_conv m g \<longleftrightarrow> conv_stride m = 1 \<and>
     (\<forall>xs. conv_padding m < length xs \<longrightarrow>
        conv_fn m xs = map (\<lambda>t. g (take (Suc (conv_padding m)) (drop t xs)))
          [0..<length xs - conv_padding m])"

text \<open>The full module: \<^verbatim>\<open>padding\<close> zeros on the left, then the convolution.\<close>

definition causal_conv_full :: "'f::zero conv_mod \<Rightarrow> 'f list \<Rightarrow> c2w_error + 'f list" where
  "causal_conv_full m x =
     (if x = [] then Inl ConvTooShort
      else Inr (conv_fn m (replicate (conv_padding m) 0 @ x)))"

definition causal_frames :: "nat \<Rightarrow> ('f::zero list \<Rightarrow> 'f) \<Rightarrow> 'f list \<Rightarrow> 'f list" where
  "causal_frames p g xs =
     map (\<lambda>t. g (take (Suc p) (drop t (replicate p 0 @ xs)))) [0..<length xs]"

definition conv_rep :: "'f::zero conv_mod \<Rightarrow> 'f list \<Rightarrow> 'f conv_state \<Rightarrow> bool" where
  "conv_rep m xs st \<longleftrightarrow>
     history st = drop (length xs) (replicate (conv_padding m) 0 @ xs)"

lemma causal_conv_full_frames:
  "valid_conv m g \<Longrightarrow> x \<noteq> [] \<Longrightarrow>
    causal_conv_full m x = Inr (causal_frames (conv_padding m) g x)"
  by (simp add: causal_conv_full_def valid_conv_def causal_frames_def)

lemma drop_join: "n \<le> length zs \<Longrightarrow> drop k (drop n zs @ ys) = drop (n + k) (zs @ ys)"
proof -
  assume "n \<le> length zs"
  then have "drop n zs @ ys = drop n (zs @ ys)" by simp
  then show ?thesis by (simp only: drop_drop add.commute)
qed

lemma upt_add_map: "[0..<m + n] = [0..<m] @ map (\<lambda>t. m + t) [0..<n]"
  by (rule nth_equalityI) (auto simp: nth_append)

lemma causal_frames_append:
  "causal_frames p g (xs @ ys) = causal_frames p g xs @
     map (\<lambda>t. g (take (Suc p) (drop t (drop (length xs) (replicate p 0 @ xs) @ ys)))) [0..<length ys]"
proof -
  define Z where "Z = replicate p 0 @ xs"
  have l: "length Z = p + length xs" by (simp add: Z_def)
  have 1: "take (Suc p) (drop t (Z @ ys)) = take (Suc p) (drop t Z)" if "t < length xs" for t
    using that l by simp
  have 2: "drop t (drop (length xs) Z @ ys) = drop (length xs + t) (Z @ ys)" for t
    using l by (intro drop_join) simp
  have "map (\<lambda>t. g (take (Suc p) (drop t (Z @ ys)))) [0..<length xs + length ys]
      = map (\<lambda>t. g (take (Suc p) (drop t Z))) [0..<length xs]
        @ map (\<lambda>t. g (take (Suc p) (drop (length xs + t) (Z @ ys)))) [0..<length ys]"
    unfolding upt_add_map map_append map_map o_def using 1 by (simp del: drop_append take_append)
  then show ?thesis
    by (simp only: causal_frames_def append_assoc [symmetric] length_append Z_def 2 [unfolded Z_def])
qed

lemma conv_step_frames:
  assumes "valid_conv m g" and "conv_rep m xs st" and "ys \<noteq> []"
  shows "causal_conv_step m ys st = Inr
      (map (\<lambda>t. g (take (Suc (conv_padding m)) (drop t (history st @ ys)))) [0..<length ys],
       \<lparr>history = drop (length ys) (history st @ ys)\<rparr>)"
proof -
  have l: "length (history st) = conv_padding m" using assms(2) by (simp add: conv_rep_def)
  show ?thesis
  proof (cases "conv_padding m = 0")
    case True
    with l assms show ?thesis by (simp add: causal_conv_step_def valid_conv_def)
  next
    case False
    then show ?thesis
      using l assms by (simp add: causal_conv_step_def valid_conv_def Let_def py_from_neg)
  qed
qed

lemma conv_rep_step:
  "conv_rep m xs st \<Longrightarrow> conv_rep m (xs @ ys) \<lparr>history = drop (length ys) (history st @ ys)\<rparr>"
  by (simp only: conv_rep_def conv_state.simps append_assoc [symmetric] length_append)
    (rule drop_join, simp)

lemma conv_frame_stream:
  assumes "valid_conv m g"
  shows "frame_stream (\<lambda>off. causal_conv_step m) (conv_init m) (conv_rep m)
    (causal_frames (conv_padding m) g)"
proof
  fix xs ys :: "'a list" and st
  assume a: "conv_rep m xs st" "ys \<noteq> []"
  show "\<exists>out s'. causal_conv_step m ys st = Inr (out, s') \<and> conv_rep m (xs @ ys) s'
    \<and> causal_frames (conv_padding m) g (xs @ ys) = causal_frames (conv_padding m) g xs @ out"
    unfolding conv_step_frames [OF assms a] causal_frames_append
    using conv_rep_step [OF a(1), of ys] a(1) [unfolded conv_rep_def] by (intro exI conjI refl) simp_all
qed (simp_all add: conv_rep_def conv_init_def causal_frames_def)

text \<open>The instance with the formula itself as the convolution.\<close>

definition window_conv :: "nat \<Rightarrow> ('f list \<Rightarrow> 'f) \<Rightarrow> 'f conv_mod" where
  "window_conv p g = \<lparr>conv_stride = 1, conv_padding = p,
     conv_fn = (\<lambda>xs. map (\<lambda>t. g (take (Suc p) (drop t xs))) [0..<length xs - p])\<rparr>"

lemma window_conv_valid: "valid_conv (window_conv p g) g"
  by (simp add: valid_conv_def window_conv_def)

interpretation window_conv: frame_stream "\<lambda>off. causal_conv_step (window_conv p g)"
  "conv_init (window_conv p g)" "conv_rep (window_conv p g)"
  "causal_frames (conv_padding (window_conv p g)) g"
  by (rule conv_frame_stream) (rule window_conv_valid)

lemma causal_conv_chunks_frames:
  assumes "valid_conv m g"
  shows "\<exists>outs. causal_conv_stream_chunks m ps = Inr outs
    \<and> concat outs = causal_frames (conv_padding m) g (concat ps)
    \<and> map length outs = map length (filter (\<lambda>p. p \<noteq> []) ps)"
proof -
  from frame_stream.axioms(1) [OF conv_frame_stream [OF assms]]
  have "\<exists>outs s'. for_parts (\<lambda>i off. causal_conv_step m) 0 0 (conv_init m) ps = Inr (outs, s')
    \<and> conv_rep m (concat ps) s' \<and> concat outs = causal_frames (conv_padding m) g (concat ps)"
    by (rule causal_stream.parts_full)
  then obtain outs s' where
    o: "for_parts (\<lambda>i off. causal_conv_step m) 0 0 (conv_init m) ps = Inr (outs, s')"
      "concat outs = causal_frames (conv_padding m) g (concat ps)"
    by blast
  then show ?thesis
    using frame_stream.parts_lengths [OF conv_frame_stream [OF assms] o(1)]
    by (cases "ps = []") (simp_all add: causal_conv_stream_chunks_def causal_frames_def)
qed

lemma causal_conv_stream_frames:
  assumes "valid_conv m g" and "covers cs x" and "x \<noteq> []"
  shows "causal_conv_stream m x cs = Inr (causal_frames (conv_padding m) g x)"
proof -
  from frame_stream.axioms(1) [OF conv_frame_stream [OF assms(1)]] assms(2)
  have "\<exists>outs s'. for_chunks (\<lambda>i off. causal_conv_step m) x 0 0 (conv_init m) cs
      = Inr (outs, int (length x), s') \<and> concat outs = causal_frames (conv_padding m) g x"
    by (rule causal_stream.chunks_full)
  then obtain outs s' where
    o: "for_chunks (\<lambda>i off. causal_conv_step m) x 0 0 (conv_init m) cs = Inr (outs, int (length x), s')"
      "concat outs = causal_frames (conv_padding m) g x"
    by blast
  moreover have "outs \<noteq> []" using o(2) assms(3) by (auto simp: causal_frames_def)
  ultimately show ?thesis by (simp add: causal_conv_stream_def torch_cat_def)
qed

end
