(* ===== verification/Code2Wav_TConv_Props.thy ===== *)
theory Code2Wav_TConv_Props
  imports Code2Wav_Conv_Props
begin

text \<open>
  Transposed convolution by overlap-add: collecting all segments, emitting the stable prefix with
  the rest released on the last part, and carrying the pending right edge give the same frames as
  the module on the whole input.
\<close>

section \<open>Overlap-add\<close>

text \<open>Sample \<open>j\<close> of the raw output: input frame \<open>i\<close> contributes to \<open>i s, \<dots>, i s + K - 1\<close>.\<close>

definition raw_at :: "nat \<Rightarrow> nat \<Rightarrow> ('f \<Rightarrow> nat \<Rightarrow> 'f) \<Rightarrow> 'f list \<Rightarrow> nat \<Rightarrow> 'f::comm_monoid_add" where
  "raw_at s K ker xs j =
     sum_list (map (\<lambda>i. if i * s \<le> j \<and> j < i * s + K then ker (xs ! i) (j - i * s) else 0)
       [0..<length xs])"

definition raw_len :: "nat \<Rightarrow> nat \<Rightarrow> 'f list \<Rightarrow> nat" where
  "raw_len s K xs = (if xs = [] then 0 else (length xs - 1) * s + K)"

definition overlap_add ::
  "'f::comm_monoid_add tconv_mod \<Rightarrow> nat \<Rightarrow> ('f \<Rightarrow> nat \<Rightarrow> 'f) \<Rightarrow> bool" where
  "overlap_add m K ker \<longleftrightarrow> 0 < tc_stride m \<and> tc_stride m \<le> K \<and> tc_right_pad m \<le> K \<and>
     (\<forall>xs. xs \<noteq> [] \<longrightarrow>
        tc_fn m xs = map (raw_at (tc_stride m) K ker xs) [0..<raw_len (tc_stride m) K xs])"

text \<open>The full module: raw output, bias, then the trim on both sides.\<close>

definition tconv_full :: "'f::comm_monoid_add tconv_mod \<Rightarrow> 'f list \<Rightarrow> c2w_error + 'f list" where
  "tconv_full m x =
     (if x = [] then Inl ConvTooShort
      else let raw = add_bias (tc_bias m) (tc_fn m x)
           in Inr (py_slice raw (int (tc_left_pad m)) (int (length raw) - int (tc_right_pad m))))"

definition bias_frame :: "'f::plus option \<Rightarrow> 'f \<Rightarrow> 'f" where
  "bias_frame b y = (case b of None \<Rightarrow> y | Some c \<Rightarrow> y + c)"

lemma add_bias_map: "add_bias b ys = map (bias_frame b) ys"
  by (cases b) (simp_all add: add_bias_def bias_frame_def [abs_def])

lemma add_bias_Nil [simp]: "add_bias b [] = []"
  by (simp add: add_bias_map)

lemma raw_at_append:
  "raw_at s K ker (xs @ ys) j = raw_at s K ker xs j
     + (if length xs * s \<le> j then raw_at s K ker ys (j - length xs * s) else 0)"
proof -
  let ?n = "length xs"
  have shift: "(if (?n + i) * s \<le> j \<and> j < (?n + i) * s + K
        then ker ((xs @ ys) ! (?n + i)) (j - (?n + i) * s) else 0)
      = (if ?n * s \<le> j then if i * s \<le> j - ?n * s \<and> j - ?n * s < i * s + K
           then ker (ys ! i) (j - ?n * s - i * s) else 0 else 0)" for i
    by (auto simp: add_mult_distrib)
  have 1: "map (\<lambda>i. if i * s \<le> j \<and> j < i * s + K then ker ((xs @ ys) ! i) (j - i * s) else 0) [0..<?n]
      = map (\<lambda>i. if i * s \<le> j \<and> j < i * s + K then ker (xs ! i) (j - i * s) else 0) [0..<?n]"
    by (simp add: nth_append)
  show ?thesis
    unfolding raw_at_def length_append upt_add_map map_append map_map o_def sum_list_append 1 shift
    by simp
qed

lemma raw_at_beyond: "raw_len s K xs \<le> j \<Longrightarrow> raw_at s K ker xs j = 0"
proof -
  assume j: "raw_len s K xs \<le> j"
  have "i * s + K \<le> j" if "i < length xs" for i
  proof -
    have "i * s \<le> (length xs - 1) * s" using that by (intro mult_right_mono) auto
    moreover have "raw_len s K xs = (length xs - 1) * s + K" using that by (auto simp: raw_len_def)
    ultimately show ?thesis using j by linarith
  qed
  then have "map (\<lambda>i. if i * s \<le> j \<and> j < i * s + K then ker (xs ! i) (j - i * s) else 0) [0..<length xs]
      = map (\<lambda>i. 0) [0..<length xs]"
    by (intro map_cong) (auto simp: leD)
  then show ?thesis unfolding raw_at_def by (simp only: sum_list_0)
qed

lemma raw_len_append:
  assumes "ys \<noteq> []"
  shows "raw_len s K (xs @ ys) = length xs * s + raw_len s K ys"
  using assms by (cases ys) (auto simp: raw_len_def add_mult_distrib)

lemma raw_len_mono: "s \<le> K \<Longrightarrow> raw_len s K xs \<le> length xs * s + K"
  by (cases xs) (auto simp: raw_len_def)

lemma raw_len_ge: "s \<le> K \<Longrightarrow> length xs * s \<le> raw_len s K xs"
  by (cases xs) (auto simp: raw_len_def)

lemma raw_at_stable: "j < length xs * s \<Longrightarrow> raw_at s K ker (xs @ ys) j = raw_at s K ker xs j"
  by (simp add: raw_at_append)

lemma grow_map:
  assumes "n \<le> m" and "\<And>j. n \<le> j \<Longrightarrow> f j = 0"
  shows "grow m (map f [0..<n]) = map f [0..<m]"
proof -
  obtain k where m: "m = n + k" using assms(1) le_Suc_ex by blast
  show ?thesis
    unfolding m upt_add_map map_append map_map o_def
    using assms(2) by (simp add: grow_def map_replicate_const)
qed

lemma add_segment_map:
  "add_segment start (map g [0..<k]) (map f [0..<n]) =
     map (\<lambda>j. if start \<le> j \<and> j < start + k then f j + g (j - start) else f j) [0..<n]"
  by (auto simp: add_segment_def)

lemma py_slice_map:
  assumes "b \<le> n \<or> b \<le> a"
  shows "py_slice (map f [0..<n]) (int a) (int b) = map f [a..<b]"
proof -
  have "py_slice (map f [0..<n]) (int a) (int b) = take (b - a) (drop a (map f [0..<n]))"
    using py_slice_nonneg [of "int a" "int b" "map f [0..<n]"] by simp
  also have "\<dots> = map f [a..<b]"
    using assms by (cases "a < b") (auto simp: take_map drop_map)
  finally show ?thesis .
qed

lemma tconv_full_frames:
  assumes "overlap_add m K ker" and "x \<noteq> []"
  shows "tconv_full m x = Inr (map (\<lambda>j. bias_frame (tc_bias m) (raw_at (tc_stride m) K ker x j))
    [tc_left_pad m..<raw_len (tc_stride m) K x - tc_right_pad m])"
proof -
  let ?L = "raw_len (tc_stride m) K x"
  have "tc_right_pad m \<le> ?L" using assms by (auto simp: overlap_add_def raw_len_def)
  then have e: "int ?L - int (tc_right_pad m) = int (?L - tc_right_pad m)" by simp
  have r: "add_bias (tc_bias m) (tc_fn m x)
      = map (\<lambda>j. bias_frame (tc_bias m) (raw_at (tc_stride m) K ker x j)) [0..<?L]"
    using assms by (simp add: overlap_add_def add_bias_map)
  show ?thesis
    using assms(2) unfolding tconv_full_def Let_def r length_map length_upt
    by (simp add: e py_slice_map)
qed

section \<open>Emitting the stable prefix\<close>

definition stable_frames ::
  "'f::comm_monoid_add tconv_mod \<Rightarrow> nat \<Rightarrow> ('f \<Rightarrow> nat \<Rightarrow> 'f) \<Rightarrow> 'f list \<Rightarrow> 'f list" where
  "stable_frames m K ker xs =
     map (\<lambda>j. bias_frame (tc_bias m) (raw_at (tc_stride m) K ker xs j))
       [tc_left_pad m..<max (tc_left_pad m) (length xs * tc_stride m)]"

definition trimmed_frames ::
  "'f::comm_monoid_add tconv_mod \<Rightarrow> nat \<Rightarrow> ('f \<Rightarrow> nat \<Rightarrow> 'f) \<Rightarrow> 'f list \<Rightarrow> 'f list" where
  "trimmed_frames m K ker xs =
     map (\<lambda>j. bias_frame (tc_bias m) (raw_at (tc_stride m) K ker xs j))
       [tc_left_pad m..<raw_len (tc_stride m) K xs - tc_right_pad m]"

definition tconv_rep ::
  "'f::comm_monoid_add tconv_mod \<Rightarrow> nat \<Rightarrow> ('f \<Rightarrow> nat \<Rightarrow> 'f) \<Rightarrow> 'f list \<Rightarrow> 'f tconv_state \<Rightarrow> bool" where
  "tconv_rep m K ker xs st \<longleftrightarrow>
     raw_acc st = map (raw_at (tc_stride m) K ker xs) [0..<raw_len (tc_stride m) K xs]
   \<and> emitted_trimmed st = int (length xs * tc_stride m - tc_left_pad m)
   \<and> input_offset st = int (length xs)"

lemma tconv_accumulate:
  assumes "overlap_add m K ker" and "tconv_rep m K ker xs st" and "ys \<noteq> []"
  defines "s \<equiv> tc_stride m" and "raw \<equiv> tc_fn m ys" and "acc \<equiv> raw_acc st"
  defines "rl \<equiv> max (int (length acc)) (input_offset st * int s + int (length raw))"
  shows "add_segment (nat (input_offset st * int s)) raw
      (if rl > int (length acc) then grow (nat rl) acc else acc)
    = map (raw_at s K ker (xs @ ys)) [0..<raw_len s K (xs @ ys)]"
proof -
  let ?n = "length xs * s" and ?R = "raw_len s K (xs @ ys)"
  have sK: "s \<le> K" and raw: "raw = map (raw_at s K ker ys) [0..<raw_len s K ys]"
    using assms(1,3) by (simp_all add: overlap_add_def s_def raw_def)
  have acc: "acc = map (raw_at s K ker xs) [0..<raw_len s K xs]" and off: "input_offset st = int (length xs)"
    using assms(2) by (simp_all add: tconv_rep_def acc_def s_def)
  have R: "?R = ?n + raw_len s K ys" using raw_len_append [OF assms(3)] .
  have "K \<le> raw_len s K ys" using assms(3) by (simp add: raw_len_def)
  then have le: "raw_len s K xs \<le> ?R" using raw_len_mono [OF sK, of xs] R by linarith
  have start: "nat (input_offset st * int s) = ?n"
    unfolding off of_nat_mult [symmetric] nat_int ..
  have "input_offset st * int s + int (length raw) = int ?R" unfolding off R raw by simp
  then have rl: "rl = int ?R" unfolding rl_def acc using le by simp
  have "(if rl > int (length acc) then grow (nat rl) acc else acc) = grow ?R acc"
    unfolding rl using le acc by (auto simp: grow_def)
  also have "\<dots> = map (raw_at s K ker xs) [0..<?R]"
    unfolding acc by (rule grow_map [OF le raw_at_beyond])
  finally have g: "(if rl > int (length acc) then grow (nat rl) acc else acc)
      = map (raw_at s K ker xs) [0..<?R]" .
  show ?thesis
    unfolding g start raw add_segment_map R by (intro map_cong refl) (auto simp: raw_at_append)
qed

lemma py_slice_bias:
  assumes "b \<le> n \<or> b \<le> a" and "ys = py_slice (map f [0..<n]) (int a) (int b)"
  shows "(if ys \<noteq> [] then add_bias c ys else ys) = map (\<lambda>j. bias_frame c (f j)) [a..<b]"
  using assms(2) unfolding py_slice_map [OF assms(1)] by (simp add: add_bias_map)

lemma emit_end_arith:
  fixes n N R r l :: nat
  assumes "n \<le> N"
  shows "max (int (n - l)) (if final then max 0 (int R - int r - int l) else max 0 (int N - int l))
    = int (if final then max (n - l) (R - (r + l)) else N - l)"
  using assms by (cases final) simp_all

lemma tconv_emit_step:
  fixes m :: "'f::comm_monoid_add tconv_mod" and final :: bool
  assumes "overlap_add m K ker" and "tconv_rep m K ker xs st" and "ys \<noteq> []"
  defines "s \<equiv> tc_stride m" and "l \<equiv> tc_left_pad m"
  defines "e \<equiv> (if final then max (length xs * s - l) (raw_len s K (xs @ ys) - (tc_right_pad m + l))
                else length (xs @ ys) * s - l)"
  shows "transposed_conv_emit_step m ys st final =
    (map (\<lambda>j. bias_frame (tc_bias m) (raw_at s K ker (xs @ ys) j)) [l + (length xs * s - l)..<l + e],
     \<lparr>raw_acc = map (raw_at s K ker (xs @ ys)) [0..<raw_len s K (xs @ ys)],
      emitted_trimmed = int e, input_offset = int (length (xs @ ys))\<rparr>)"
proof -
  let ?n = "length xs * s" and ?R = "raw_len s K (xs @ ys)" and ?f = "raw_at s K ker (xs @ ys)"
  have sK: "s \<le> K" using assms(1) by (simp add: overlap_add_def s_def)
  have st: "emitted_trimmed st = int (?n - l)" "input_offset st = int (length xs)"
    using assms(2) by (simp_all add: tconv_rep_def s_def l_def)
  have mono: "?n \<le> length (xs @ ys) * s" by (simp add: add_mult_distrib)
  have off: "(input_offset st + int (length ys)) * int s = int (length (xs @ ys) * s)"
    unfolding st(2) by simp
  have ee: "max (emitted_trimmed st)
    (if final then max 0 (int ?R - int (tc_right_pad m) - int l)
     else max 0 ((input_offset st + int (length ys)) * int s - int l)) = int e"
    unfolding off e_def st(1) by (rule emit_end_arith [OF mono])
  have len: "l + e \<le> ?R \<or> l + e \<le> l + (?n - l)"
    using mono raw_len_ge [OF sK, of "xs @ ys"] by (auto simp: e_def)
  note acc = tconv_accumulate [OF assms(1-3), folded s_def]
  have pos: "int l + int (?n - l) = int (l + (?n - l))" "int l + int e = int (l + e)" by simp_all
  show ?thesis
    unfolding transposed_conv_emit_step_def Let_def s_def [symmetric] l_def [symmetric] acc
      length_map length_upt minus_nat.diff_0 ee
    unfolding st(1) pos py_slice_bias [OF len refl] by (simp add: st(2))
qed

lemma map_upt_join: "a \<le> b \<Longrightarrow> b \<le> c \<Longrightarrow> map f [a..<c] = map f [a..<b] @ map f [b..<c]"
  by (simp add: upt_split [of a b c])

lemma stable_frames_append:
  "map (\<lambda>j. bias_frame (tc_bias m) (raw_at (tc_stride m) K ker (xs @ ys) j))
     [tc_left_pad m..<max (tc_left_pad m) (length xs * tc_stride m)] = stable_frames m K ker xs"
  unfolding stable_frames_def by (intro map_cong refl) (auto simp: raw_at_stable)

lemma tconv_finishing_stream:
  assumes "overlap_add m K ker"
  shows "finishing_stream (\<lambda>off part st. Inr (transposed_conv_emit_step m part st False) :: c2w_error + _)
    tconv_init (tconv_rep m K ker) (stable_frames m K ker)
    (\<lambda>off part st. Inr (transposed_conv_emit_step m part st True)) (trimmed_frames m K ker)"
proof
  fix xs ys :: "'a list" and st
  assume a: "tconv_rep m K ker xs st" "ys \<noteq> []"
  let ?s = "tc_stride m" and ?l = "tc_left_pad m"
  let ?f = "\<lambda>j. bias_frame (tc_bias m) (raw_at ?s K ker (xs @ ys) j)"
  let ?n = "length xs * ?s" and ?N = "length (xs @ ys) * ?s" and ?R = "raw_len ?s K (xs @ ys)"
  have l: "?l + (k - ?l) = max ?l k" for k :: nat by simp
  have nN: "?n \<le> ?N" by (simp add: add_mult_distrib)
  have "stable_frames m K ker (xs @ ys) = map ?f [?l..<max ?l ?N]" by (simp add: stable_frames_def)
  also have "\<dots> = map ?f [?l..<max ?l ?n] @ map ?f [max ?l ?n..<max ?l ?N]"
    by (rule map_upt_join [OF max.cobounded1 max.mono [OF order_refl nN]])
  finally show "\<exists>out st'. (Inr (transposed_conv_emit_step m ys st False) :: c2w_error + _) = Inr (out, st')
      \<and> tconv_rep m K ker (xs @ ys) st' \<and> stable_frames m K ker (xs @ ys) = stable_frames m K ker xs @ out"
    unfolding stable_frames_append tconv_emit_step [OF assms a] if_False l
    by (auto simp: tconv_rep_def)
  have "0 < length ys" and sK: "tc_right_pad m \<le> K" using a(2) assms by (simp_all add: overlap_add_def)
  then have "?n + K \<le> ?R" using raw_len_append [OF a(2), of ?s K xs] a(2) by (simp add: raw_len_def)
  then have nR: "?n \<le> ?R - tc_right_pad m" using sK by linarith
  then have e: "?l + max (?n - ?l) (?R - (tc_right_pad m + ?l)) = max (max ?l ?n) (?R - tc_right_pad m)"
    by linarith
  have "trimmed_frames m K ker (xs @ ys) = map ?f [?l..<?R - tc_right_pad m]"
    by (simp add: trimmed_frames_def)
  also have "\<dots> = map ?f [?l..<max ?l ?n] @ map ?f [max ?l ?n..<max (max ?l ?n) (?R - tc_right_pad m)]"
  proof (cases "?l \<le> ?R - tc_right_pad m")
    case True
    then show ?thesis
      using nR map_upt_join [of ?l "max ?l ?n" "?R - tc_right_pad m" ?f] by (simp add: max_def)
  next
    case False
    then show ?thesis using nR by simp
  qed
  finally show "\<exists>out st'. (Inr (transposed_conv_emit_step m ys st True) :: c2w_error + _) = Inr (out, st')
      \<and> trimmed_frames m K ker (xs @ ys) = stable_frames m K ker xs @ out"
    unfolding stable_frames_append tconv_emit_step [OF assms a] if_True l e by simp
qed (simp_all add: tconv_rep_def tconv_init_def raw_len_def stable_frames_def)

text \<open>The instance with the formula itself as the transposed convolution.\<close>

definition kernel_tconv ::
  "nat \<Rightarrow> nat \<Rightarrow> nat \<Rightarrow> 'f option \<Rightarrow> nat \<Rightarrow> ('f \<Rightarrow> nat \<Rightarrow> 'f) \<Rightarrow> 'f::comm_monoid_add tconv_mod" where
  "kernel_tconv d l r b k ker =
     (let s = Suc d; K = s + k
      in \<lparr>tc_stride = s, tc_left_pad = l, tc_right_pad = min r K,
          tc_fn = (\<lambda>xs. map (raw_at s K ker xs) [0..<raw_len s K xs]), tc_bias = b\<rparr>)"

lemma kernel_tconv_overlap: "overlap_add (kernel_tconv d l r b k ker) (Suc d + k) ker"
  by (simp add: overlap_add_def kernel_tconv_def Let_def)

interpretation kernel_tconv: finishing_stream
  "\<lambda>off part st. Inr (transposed_conv_emit_step (kernel_tconv d l r b k ker) part st False) :: c2w_error + _"
  tconv_init "tconv_rep (kernel_tconv d l r b k ker) (Suc d + k) ker"
  "stable_frames (kernel_tconv d l r b k ker) (Suc d + k) ker"
  "\<lambda>off part st. Inr (transposed_conv_emit_step (kernel_tconv d l r b k ker) part st True)"
  "trimmed_frames (kernel_tconv d l r b k ker) (Suc d + k) ker"
  by (rule tconv_finishing_stream) (rule kernel_tconv_overlap)

lemma emit_body:
  "(\<lambda>index offset part state.
      Inr (transposed_conv_emit_step m part state (int index = int n - 1)) :: c2w_error + _)
   = (\<lambda>i off. if i = n - 1 then (\<lambda>part st. Inr (transposed_conv_emit_step m part st True))
        else (\<lambda>part st. Inr (transposed_conv_emit_step m part st False)))" if "0 < n"
proof -
  have "int i = int n - 1 \<longleftrightarrow> i = n - 1" for i using that by linarith
  then show ?thesis by (simp add: fun_eq_iff)
qed

lemma tconv_emit_parts:
  assumes "overlap_add m K ker" and "ps \<noteq> []" and "last ps \<noteq> []" and "n = length ps"
  shows "\<exists>outs s'. for_parts (\<lambda>index offset part state.
      Inr (transposed_conv_emit_step m part state (int index = int n - 1)) :: c2w_error + _)
      0 0 tconv_init ps = Inr (outs, s') \<and> concat outs = trimmed_frames m K ker (concat ps)"
  using finishing_stream.finish_parts [OF tconv_finishing_stream [OF assms(1)] assms(2,3)]
  unfolding emit_body [of n m, unfolded assms(4), OF length_greater_0_conv [THEN iffD2, OF assms(2)]] assms(4) .

lemma tconv_emit_frames:
  assumes "overlap_add m K ker" and "covers cs x" and "x \<noteq> []" and "0 < last cs"
  shows "transposed_conv_stream_emit m x cs = tconv_full m x"
proof -
  have cs: "cs \<noteq> []" using assms(2,3) by (auto simp: covers_def)
  then have ps: "cut x cs \<noteq> []" by (metis length_0_conv length_cut)
  from tconv_emit_parts [OF assms(1) ps last_cut [OF assms(2) cs assms(4)], of "length cs"]
  obtain outs s' where o: "for_parts (\<lambda>index offset part state.
      Inr (transposed_conv_emit_step m part state (int index = int (length cs) - 1)) :: c2w_error + _)
      0 0 tconv_init (cut x cs) = Inr (outs, s')" "concat outs = trimmed_frames m K ker x"
    by (auto simp: concat_cut [OF assms(2)])
  have "last (cut x cs) \<in> set (filter (\<lambda>p. p \<noteq> []) (cut x cs))"
    using last_cut [OF assms(2) cs assms(4)] ps by simp
  then have "outs \<noteq> []" using for_parts_length [OF o(1)] by (metis length_0_conv length_pos_if_in_set less_numeral_extra(3))
  then show ?thesis
    using o(2) tconv_full_frames [OF assms(1,3)] for_chunks_cut [OF assms(2) o(1)]
    by (simp add: transposed_conv_stream_emit_def torch_cat_def trimmed_frames_def)
qed

lemma tconv_emit_chunks_frames:
  assumes "overlap_add m K ker" and "ps \<noteq> []" and "last ps \<noteq> []"
  shows "\<exists>outs. transposed_conv_stream_emit_chunks m ps = Inr outs
    \<and> tconv_full m (concat ps) = Inr (concat outs) \<and> (\<forall>y\<in>set outs. y \<noteq> [])"
proof -
  have x: "concat ps \<noteq> []" using assms(2,3) last_in_set by fastforce
  from tconv_emit_parts [OF assms refl] obtain outs s' where
    "for_parts (\<lambda>index offset part state.
      Inr (transposed_conv_emit_step m part state (int index = int (length ps) - 1)) :: c2w_error + _)
      0 0 tconv_init ps = Inr (outs, s')" "concat outs = trimmed_frames m K ker (concat ps)"
    by blast
  moreover have "concat (filter (\<lambda>y. y \<noteq> []) outs) = concat outs" by (induction outs) auto
  ultimately show ?thesis
    using assms(2) tconv_full_frames [OF assms(1) x]
    by (simp add: transposed_conv_stream_emit_chunks_def trimmed_frames_def)
qed

section \<open>Collecting all segments\<close>

lemma length_add_segment [simp]: "length (add_segment a r acc) = length acc"
  by (simp add: add_segment_def)

lemma collect_parts:
  assumes "overlap_add m K ker"
  defines "s \<equiv> tc_stride m"
  shows "\<exists>pieces. for_parts (\<lambda>i. collect_step m) i (int n) (int rl) ps
      = Inr (pieces, int (max rl (if concat ps = [] then 0 else n * s + raw_len s K (concat ps))))
    \<and> (\<forall>f R. fold (\<lambda>piece. add_segment (nat (tc_start piece)) (tc_raw piece)) pieces (map f [0..<R])
        = map (\<lambda>j. if n * s \<le> j then f j + raw_at s K ker (concat ps) (j - n * s) else f j) [0..<R])"
proof (induction ps arbitrary: i n rl)
  case Nil
  then show ?case by (simp add: raw_at_def)
next
  case (Cons p ps)
  show ?case
  proof (cases "p = []")
    case True
    then show ?thesis
      using Cons.IH [of "Suc i" n rl]
      by (simp only: concat.simps append.simps for_parts.simps simp_thms if_True)
  next
    case False
    then have raw: "tc_fn m p = map (raw_at s K ker p) [0..<raw_len s K p]" and sK: "s \<le> K"
      using assms(1) by (simp_all add: overlap_add_def s_def)
    let ?n' = "n + length p" and ?rl' = "max rl (n * s + raw_len s K p)"
    from Cons.IH [of "Suc i" ?n' ?rl'] obtain pieces where IH:
      "for_parts (\<lambda>i. collect_step m) (Suc i) (int ?n') (int ?rl') ps
        = Inr (pieces, int (max ?rl' (if concat ps = [] then 0 else ?n' * s + raw_len s K (concat ps))))"
      "\<And>f R. fold (\<lambda>piece. add_segment (nat (tc_start piece)) (tc_raw piece)) pieces (map f [0..<R])
        = map (\<lambda>j. if ?n' * s \<le> j then f j + raw_at s K ker (concat ps) (j - ?n' * s) else f j) [0..<R]"
      by blast
    let ?piece = "\<lparr>tc_start = int (n * s), tc_raw = tc_fn m p\<rparr>"
    have cs: "collect_step m (int n) p (int rl) = Inr (?piece, int ?rl')"
      by (simp add: collect_step_def Let_def raw of_nat_max flip: s_def)
    have len: "max ?rl' (if concat ps = [] then 0 else ?n' * s + raw_len s K (concat ps))
      = max rl (if p @ concat ps = [] then 0 else n * s + raw_len s K (p @ concat ps))"
    proof (cases "concat ps = []")
      case True
      show ?thesis using False unfolding True by simp
    next
      case ne: False
      have "K \<le> raw_len s K (concat ps)" unfolding raw_len_def if_not_P [OF ne] by simp
      then show ?thesis
        using False ne raw_len_append [OF ne, of s K p] raw_len_mono [OF sK, of p]
        by (simp only: append_is_Nil_conv simp_thms if_False add_mult_distrib)
    qed
    have "fold (\<lambda>piece. add_segment (nat (tc_start piece)) (tc_raw piece)) (?piece # pieces) (map f [0..<R])
      = map (\<lambda>j. if n * s \<le> j then f j + raw_at s K ker (p @ concat ps) (j - n * s) else f j) [0..<R]"
      for f R
    proof -
      have "raw_at s K ker p (j - n * s) = 0" if "n * s + raw_len s K p \<le> j" for j
        using that by (intro raw_at_beyond) simp
      then show ?thesis
        unfolding fold_simps o_apply tconv_chunk.simps nat_int raw add_segment_map IH(2)
        by (intro map_cong refl) (auto simp: raw_at_append add_mult_distrib add.assoc)
    qed
    then show ?thesis
      using False cs IH(1) len
      by (intro exI [of _ "?piece # pieces"]) (simp del: fold_simps of_nat_max)
  qed
qed

lemma tconv_collect_frames:
  assumes "overlap_add m K ker" and "covers cs x" and "x \<noteq> []"
  shows "transposed_conv_stream_collect m x cs = tconv_full m x"
proof -
  let ?s = "tc_stride m" and ?R = "raw_len (tc_stride m) K x"
  let ?add = "fold (\<lambda>piece. add_segment (nat (tc_start piece)) (tc_raw piece))"
  from collect_parts [OF assms(1), of 0 0 0 "cut x cs"] obtain pieces where
    p: "for_parts (\<lambda>i. collect_step m) 0 0 0 (cut x cs) = Inr (pieces, int ?R)"
      "\<And>f R. ?add pieces (map f [0..<R]) = map (\<lambda>j. f j + raw_at ?s K ker x j) [0..<R]"
    using assms(3) by (auto simp: concat_cut [OF assms(2)])
  have z: "replicate ?R 0 = map (\<lambda>_. 0) [0..<?R]" by (simp add: map_replicate_const)
  have "?add pieces (replicate ?R 0) = tc_fn m x"
    unfolding z p(2) using assms(1,3) by (simp add: overlap_add_def)
  then show ?thesis
    using for_chunks_cut [OF assms(2) p(1)] assms(3)
    by (simp add: transposed_conv_stream_collect_def tconv_full_def Let_def)
qed

section \<open>The exported step\<close>

text \<open>
  With no left padding and a right padding of kernel minus stride, the pending edge is the part of
  the raw output that later frames still add to.
\<close>

definition pending_rep ::
  "'f::comm_monoid_add tconv_mod \<Rightarrow> nat \<Rightarrow> ('f \<Rightarrow> nat \<Rightarrow> 'f) \<Rightarrow> 'f list \<Rightarrow> 'f list \<Rightarrow> bool" where
  "pending_rep m K ker xs pend \<longleftrightarrow>
     pend = map (raw_at (tc_stride m) K ker xs)
       [length xs * tc_stride m..<length xs * tc_stride m + (K - tc_stride m)]"

lemma ex_tconv_step_frames:
  assumes "overlap_add m K ker" and "pending_rep m K ker xs pend" and "ys \<noteq> []"
  defines "s \<equiv> tc_stride m" and "n \<equiv> length xs * tc_stride m"
  shows "ex_transposed_conv_step m ys pend =
    (map (\<lambda>j. bias_frame (tc_bias m) (raw_at s K ker (xs @ ys) j)) [n..<length (xs @ ys) * s],
     map (raw_at s K ker (xs @ ys)) [length (xs @ ys) * s..<length (xs @ ys) * s + (K - s)])"
proof -
  let ?k = "length ys * s" and ?d = "K - s"
  have sK: "s \<le> K" and raw: "tc_fn m ys = map (raw_at s K ker ys) [0..<raw_len s K ys]"
    using assms(1,3) by (simp_all add: overlap_add_def s_def)
  have len: "raw_len s K ys = ?k + ?d"
    using assms(3) sK by (cases ys) (auto simp: raw_len_def)
  have pend: "pend = map (\<lambda>j. raw_at s K ker xs (n + j)) [0..<?d]"
    using assms(2) by (auto simp: pending_rep_def s_def n_def map_add_upt [symmetric] o_def add.commute
        intro: nth_equalityI)
  have cut: "raw_at s K ker xs (n + j) = 0" if "?d \<le> j" for j
  proof (rule raw_at_beyond)
    show "raw_len s K xs \<le> n + j"
      using that sK by (cases xs) (auto simp: raw_len_def n_def s_def)
  qed
  have sum: "raw_at s K ker (xs @ ys) (n + j) = raw_at s K ker ys j + raw_at s K ker xs (n + j)" for j
    by (simp add: raw_at_append n_def s_def add.commute)
  have "add_segment 0 pend (tc_fn m ys) = map (\<lambda>j. raw_at s K ker (xs @ ys) (n + j)) [0..<?k + ?d]"
    unfolding pend raw add_segment_map len by (intro map_cong refl) (auto simp: sum cut)
  moreover have "tc_fn m ys = map (\<lambda>j. raw_at s K ker (xs @ ys) (n + j)) [0..<?k + ?d]" if "pend = []"
    using that unfolding raw len pend by (intro map_cong refl) (auto simp: sum cut)
  ultimately have r: "(if pend \<noteq> [] then add_segment 0 pend (tc_fn m ys) else tc_fn m ys)
      = map (\<lambda>j. raw_at s K ker (xs @ ys) (n + j)) [0..<?k + ?d]"
    by simp
  have N: "length (xs @ ys) * s = n + ?k" by (simp add: add_mult_distrib n_def s_def)
  have shift: "map f [n + a..<n + b] = map (\<lambda>j. f (n + j)) [a..<b]" for f :: "nat \<Rightarrow> 'a" and a b
    by (rule nth_equalityI) (auto simp: add.assoc)
  show ?thesis
    unfolding ex_transposed_conv_step_def Let_def r s_def [symmetric] N add.assoc
    using shift [where a = 0] by (simp add: take_map drop_map add_bias_map shift o_def)
qed

end
