(* ===== verification/Code2Wav_Attn.thy ===== *)
theory Code2Wav_Attn
  imports Code2Wav_Conv_Props
begin

text \<open>
  Sliding-window attention and the pre-transformer of the streaming Code2Wav decoder
  (\<^verbatim>\<open>attention_step\<close>, \<^verbatim>\<open>transformer_layer_step\<close>, \<^verbatim>\<open>pre_transformer_stream_chunks\<close>).
  Projections with their rotary embedding, normalisations and the softmax-weighted sum are PyTorch
  modules and enter as fields; the masking, the positions and the cache are the code's own.  What
  is relied on is that a masked key has no weight when some key is not masked.
\<close>

section \<open>Attention\<close>

text \<open>
  \<open>at_attend q kvs\<close> is the output for one query: scores, the additive mask, softmax, the weighted
  sum and the output projection; the flag of an entry says that its mask value is zero.
\<close>

record ('f, 'q, 'k, 'v) attn_mod =
  at_q :: "'f \<Rightarrow> int \<Rightarrow> 'q"
  at_k :: "'f \<Rightarrow> int \<Rightarrow> 'k"
  at_v :: "'f \<Rightarrow> 'v"
  at_attend :: "'q \<Rightarrow> ('k \<times> 'v \<times> bool) list \<Rightarrow> 'f"
  at_window :: int

record ('k, 'v) attn_state =
  st_k :: "'k list"
  st_v :: "'v list"
  st_pos :: "int list"

definition valid_key :: "int \<Rightarrow> int \<Rightarrow> int \<Rightarrow> bool" where
  "valid_key window q_pos k_pos \<longleftrightarrow> k_pos > q_pos - window \<and> k_pos \<le> q_pos"

definition attend_all ::
  "('f, 'q, 'k, 'v) attn_mod \<Rightarrow> 'f list \<Rightarrow> int list \<Rightarrow> 'k list \<Rightarrow> 'v list \<Rightarrow> int list \<Rightarrow> 'f list" where
  "attend_all m hidden positions all_k all_v all_pos =
     map2 (\<lambda>h p. at_attend m (at_q m h p)
             (map (\<lambda>(k, v, kp). (k, v, valid_key (at_window m) p kp)) (zip all_k (zip all_v all_pos))))
       hidden positions"

definition attention_step ::
  "('f, 'q, 'k, 'v) attn_mod \<Rightarrow> 'f list \<Rightarrow> ('k, 'v) attn_state \<Rightarrow> int \<Rightarrow> 'f list \<times> ('k, 'v) attn_state" where
  "attention_step m hidden state position_offset =
     (let positions = map (\<lambda>i. position_offset + int i) [0..<length hidden];
          all_k = st_k state @ map2 (at_k m) hidden positions;
          all_v = st_v state @ map (at_v m) hidden;
          all_pos = st_pos state @ positions;
          out = attend_all m hidden positions all_k all_v all_pos;
          keep = max 0 (at_window m - 1)
      in (out, if keep \<noteq> 0
               then \<lparr>st_k = py_from all_k (- keep), st_v = py_from all_v (- keep),
                     st_pos = py_from all_pos (- keep)\<rparr>
               else \<lparr>st_k = py_slice all_k 0 0, st_v = py_slice all_v 0 0,
                     st_pos = py_slice all_pos 0 0\<rparr>))"

text \<open>The product gate slices \<^verbatim>\<open>[-keep:]\<close> whatever \<^verbatim>\<open>keep\<close> is; positions are given.\<close>

definition rg_attention_step ::
  "('f, 'q, 'k, 'v) attn_mod \<Rightarrow> 'f list \<Rightarrow> ('k, 'v) attn_state \<Rightarrow> int list \<Rightarrow> 'f list \<times> ('k, 'v) attn_state" where
  "rg_attention_step m hidden state positions =
     (let all_k = st_k state @ map2 (at_k m) hidden positions;
          all_v = st_v state @ map (at_v m) hidden;
          all_pos = st_pos state @ positions;
          out = attend_all m hidden positions all_k all_v all_pos;
          keep = max 0 (at_window m - 1)
      in (out, \<lparr>st_k = py_from all_k (- keep), st_v = py_from all_v (- keep),
                st_pos = py_from all_pos (- keep)\<rparr>))"

definition empty_attention_state :: "('k, 'v) attn_state" where
  "empty_attention_state = \<lparr>st_k = [], st_v = [], st_pos = []\<rparr>"

definition attention_stream ::
  "('f, 'q, 'k, 'v) attn_mod \<Rightarrow> 'f list \<Rightarrow> int list \<Rightarrow> c2w_error + 'f list" where
  "attention_stream m hidden chunks =
     res_bind (for_chunks (\<lambda>index offset part state. Inr (attention_step m part state offset))
         hidden 0 0 empty_attention_state chunks)
       (\<lambda>(outs, offset, state).
          if offset \<noteq> int (length hidden) then Inl (ChunksCover offset (int (length hidden)))
          else torch_cat outs)"

section \<open>Transformer layers\<close>

record ('f, 'q, 'k, 'v) layer_mod =
  ly_input_layernorm :: "'f \<Rightarrow> 'f"
  ly_self_attn :: "('f, 'q, 'k, 'v) attn_mod"
  ly_self_attn_layer_scale :: "'f \<Rightarrow> 'f"
  ly_post_attention_layernorm :: "'f \<Rightarrow> 'f"
  ly_mlp_gate_proj :: "'f \<Rightarrow> 'f"
  ly_silu :: "'f \<Rightarrow> 'f"
  ly_mlp_up_proj :: "'f \<Rightarrow> 'f"
  ly_mlp_down_proj :: "'f \<Rightarrow> 'f"
  ly_mlp_layer_scale :: "'f \<Rightarrow> 'f"

definition layer_tail :: "('f::{plus,times}, 'q, 'k, 'v) layer_mod \<Rightarrow> 'f \<Rightarrow> 'f" where
  "layer_tail ly x =
     (let h = ly_post_attention_layernorm ly x;
          h = ly_mlp_down_proj ly (ly_silu ly (ly_mlp_gate_proj ly h) * ly_mlp_up_proj ly h)
      in x + ly_mlp_layer_scale ly h)"

definition transformer_layer_step ::
  "('f::{plus,times}, 'q, 'k, 'v) layer_mod \<Rightarrow> 'f list \<Rightarrow> ('k, 'v) attn_state \<Rightarrow> int
     \<Rightarrow> 'f list \<times> ('k, 'v) attn_state" where
  "transformer_layer_step ly x state position_offset =
     (let residual = x;
          h = map (ly_input_layernorm ly) x;
          (h, attn_state) = attention_step (ly_self_attn ly) h state position_offset;
          x = map2 (\<lambda>r y. r + ly_self_attn_layer_scale ly y) residual h
      in (map (layer_tail ly) x, attn_state))"

text \<open>\<^verbatim>\<open>for index, layer in enumerate(model.layers)\<close>, updating \<^verbatim>\<open>states[index]\<close>.\<close>

fun layers_step ::
  "('f::{plus,times}, 'q, 'k, 'v) layer_mod list \<Rightarrow> 'f list \<Rightarrow> ('k, 'v) attn_state list \<Rightarrow> int
     \<Rightarrow> 'f list \<times> ('k, 'v) attn_state list" where
  "layers_step (ly # lys) hidden (st # sts) offset =
     (let (hidden, st') = transformer_layer_step ly hidden st offset;
          (hidden, sts') = layers_step lys hidden sts offset
      in (hidden, st' # sts'))"
| "layers_step _ hidden sts offset = (hidden, sts)"

record ('c, 'f, 'q, 'k, 'v) pre_mod =
  pm_embed :: "'c \<Rightarrow> 'f"
  pm_layers :: "('f, 'q, 'k, 'v) layer_mod list"
  pm_norm :: "'f \<Rightarrow> 'f"

definition pre_transformer_stream_chunks ::
  "('c, 'f::{plus,times}, 'q, 'k, 'v) pre_mod \<Rightarrow> 'c list \<Rightarrow> int list \<Rightarrow> c2w_error + 'f list list" where
  "pre_transformer_stream_chunks model codes chunks =
     res_bind (for_chunks (\<lambda>index offset part states.
          let (hidden, states) = layers_step (pm_layers model) (map (pm_embed model) part) states offset
          in Inr (map (pm_norm model) hidden, states))
         codes 0 0 (map (\<lambda>ly. empty_attention_state) (pm_layers model)) chunks)
       (\<lambda>(outs, offset, states).
          if offset \<noteq> int (length codes) then Inl (ChunksCover offset (int (length codes)))
          else Inr outs)"

definition pre_transformer_stream ::
  "('c, 'f::{plus,times}, 'q, 'k, 'v) pre_mod \<Rightarrow> 'c list \<Rightarrow> int list \<Rightarrow> c2w_error + 'f list" where
  "pre_transformer_stream model codes chunks =
     res_bind (pre_transformer_stream_chunks model codes chunks) torch_cat"

section \<open>The whole sequence at once\<close>

text \<open>
  The attention module on a whole sequence, the layer module, and \<^verbatim>\<open>pre_transformer_full\<close>.
\<close>

definition attention_full :: "('f, 'q, 'k, 'v) attn_mod \<Rightarrow> 'f list \<Rightarrow> 'f list" where
  "attention_full m xs =
     map (\<lambda>i. at_attend m (at_q m (xs ! i) (int i))
        (map (\<lambda>j. (at_k m (xs ! j) (int j), at_v m (xs ! j), valid_key (at_window m) (int i) (int j)))
          [0..<length xs])) [0..<length xs]"

definition layer_full :: "('f::{plus,times}, 'q, 'k, 'v) layer_mod \<Rightarrow> 'f list \<Rightarrow> 'f list" where
  "layer_full ly x =
     map (layer_tail ly)
       (map2 (\<lambda>r y. r + ly_self_attn_layer_scale ly y) x
         (attention_full (ly_self_attn ly) (map (ly_input_layernorm ly) x)))"

definition pre_transformer_full ::
  "('c, 'f::{plus,times}, 'q, 'k, 'v) pre_mod \<Rightarrow> 'c list \<Rightarrow> 'f list" where
  "pre_transformer_full model codes =
     map (pm_norm model) (fold layer_full (pm_layers model) (map (pm_embed model) codes))"

definition masked_no_weight :: "('f, 'q, 'k, 'v) attn_mod \<Rightarrow> bool" where
  "masked_no_weight m \<longleftrightarrow> 1 \<le> at_window m \<and>
     (\<forall>q kvs. (\<exists>(k, v, b)\<in>set kvs. b) \<longrightarrow>
        at_attend m q kvs = at_attend m q (filter (\<lambda>(k, v, b). b) kvs))"

end
