(* ===== verification/Code2Wav_Attn_Props.thy ===== *)
theory Code2Wav_Attn_Props
  imports Code2Wav_Attn
begin

text \<open>
  Chunked attention with the cache cut to the last \<^verbatim>\<open>sliding_window - 1\<close> keys equals attention
  over the whole sequence, for the reference step and the product gate's step, and so do the layers
  stacked on it.
\<close>

section \<open>Keys that a query can see\<close>

definition kv_at :: "('f, 'q, 'k, 'v) attn_mod \<Rightarrow> 'f list \<Rightarrow> nat \<Rightarrow> 'k \<times> 'v \<times> int" where
  "kv_at m xs j = (at_k m (xs ! j) (int j), at_v m (xs ! j), int j)"

definition flag :: "('f, 'q, 'k, 'v) attn_mod \<Rightarrow> nat \<Rightarrow> 'k \<times> 'v \<times> int \<Rightarrow> 'k \<times> 'v \<times> bool" where
  "flag m i = (\<lambda>(k, v, kp). (k, v, valid_key (at_window m) (int i) kp))"

text \<open>The output for query \<open>i\<close> over the visible keys only.\<close>

definition seen_out :: "('f, 'q, 'k, 'v) attn_mod \<Rightarrow> 'f list \<Rightarrow> nat \<Rightarrow> 'f" where
  "seen_out m xs i = at_attend m (at_q m (xs ! i) (int i))
     (map (\<lambda>j. flag m i (kv_at m xs j)) (filter (\<lambda>j. valid_key (at_window m) (int i) (int j)) [0..<Suc i]))"

lemma masked_no_weightD:
  assumes "masked_no_weight m" and "\<exists>(k, v, b)\<in>set kvs. b"
  shows "at_attend m q kvs = at_attend m q (filter (\<lambda>(k, v, b). b) kvs)"
  using assms unfolding masked_no_weight_def by blast

lemma attend_seen:
  assumes "masked_no_weight m" and "i < n" and "d \<le> i"
    and "d = 0 \<or> int d \<le> int i - at_window m + 1"
  shows "at_attend m q (map (\<lambda>j. flag m i (kv_at m xs j)) [d..<n]) =
    at_attend m q (map (\<lambda>j. flag m i (kv_at m xs j))
      (filter (\<lambda>j. valid_key (at_window m) (int i) (int j)) [0..<Suc i]))"
proof -
  let ?v = "\<lambda>j. valid_key (at_window m) (int i) (int j)"
  let ?f = "\<lambda>j. flag m i (kv_at m xs j)"
  have w: "1 \<le> at_window m" using assms(1) by (simp add: masked_no_weight_def)
  have snd: "snd (snd (?f j)) = ?v j" for j by (simp add: flag_def kv_at_def)
  have "?v i" using w by (simp add: valid_key_def)
  moreover have "i \<in> set [d..<n]" using assms(2,3) by simp
  ultimately have "\<exists>(k, v, b)\<in>set (map ?f [d..<n]). b"
    by (intro bexI [of _ "?f i"]) (auto simp: flag_def kv_at_def)
  then have "at_attend m q (map ?f [d..<n]) = at_attend m q (filter (\<lambda>(k, v, b). b) (map ?f [d..<n]))"
    by (rule masked_no_weightD [OF assms(1)])
  also have "filter (\<lambda>(k, v, b). b) (map ?f [d..<n]) = map ?f (filter ?v [d..<n])"
    by (simp add: filter_map o_def split_beta snd)
  also have "filter ?v [d..<n] = filter ?v [0..<Suc i]"
  proof -
    have "[0..<n] = [0..<d] @ [d..<n]" "[0..<n] = [0..<Suc i] @ [Suc i..<n]"
      using assms(2,3) by (auto intro!: upt_split simp del: upt_Suc)
    moreover have "filter ?v [0..<d] = []" "filter ?v [Suc i..<n] = []"
      using assms(4) by (auto simp: filter_empty_conv valid_key_def)
    ultimately show ?thesis by (metis append_Nil append_Nil2 filter_append)
  qed
  finally show ?thesis .
qed

lemma attention_full_seen:
  assumes "masked_no_weight m"
  shows "attention_full m xs = map (seen_out m xs) [0..<length xs]"
  unfolding attention_full_def seen_out_def
proof (intro map_cong refl)
  fix i
  assume "i \<in> set [0..<length xs]"
  then have i: "i < length xs" by simp
  have f: "map (\<lambda>j. (at_k m (xs ! j) (int j), at_v m (xs ! j), valid_key (at_window m) (int i) (int j)))
      [0..<length xs] = map (\<lambda>j. flag m i (kv_at m xs j)) [0..<length xs]"
    by (simp add: flag_def kv_at_def)
  show "at_attend m (at_q m (xs ! i) (int i))
      (map (\<lambda>j. (at_k m (xs ! j) (int j), at_v m (xs ! j), valid_key (at_window m) (int i) (int j)))
        [0..<length xs])
    = at_attend m (at_q m (xs ! i) (int i)) (map (\<lambda>j. flag m i (kv_at m xs j))
        (filter (\<lambda>j. valid_key (at_window m) (int i) (int j)) [0..<Suc i]))"
    unfolding f by (rule attend_seen [OF assms i]) simp_all
qed

lemma seen_out_append: "i < length xs \<Longrightarrow> seen_out m (xs @ ys) i = seen_out m xs i"
  unfolding seen_out_def kv_at_def
  by (intro arg_cong2 [where f = "at_attend m"] map_cong refl)
    (auto simp: nth_append simp del: upt_Suc)

lemma attention_full_append:
  assumes "masked_no_weight m"
  shows "attention_full m (xs @ ys) =
    attention_full m xs @ map (seen_out m (xs @ ys)) [length xs..<length (xs @ ys)]"
proof -
  have u: "[0..<length (xs @ ys)] = [0..<length xs] @ [length xs..<length (xs @ ys)]"
    by (rule upt_split) auto
  show ?thesis
    unfolding attention_full_seen [OF assms] u map_append by (simp add: seen_out_append)
qed

section \<open>The cache\<close>

definition attn_rep :: "('f, 'q, 'k, 'v) attn_mod \<Rightarrow> 'f list \<Rightarrow> ('k, 'v) attn_state \<Rightarrow> bool" where
  "attn_rep m xs st \<longleftrightarrow> (\<exists>d\<le>length xs. (d = 0 \<or> int d + (at_window m - 1) \<le> int (length xs))
     \<and> st = \<lparr>st_k = map (\<lambda>j. at_k m (xs ! j) (int j)) [d..<length xs],
             st_v = map (\<lambda>j. at_v m (xs ! j)) [d..<length xs],
             st_pos = map int [d..<length xs]\<rparr>)"

lemma map_upt_append_frames:
  assumes "d \<le> length xs"
  shows "map (\<lambda>j. f (xs ! j) (int j)) [d..<length xs]
      @ map2 f ys (map (\<lambda>i. int (length xs) + int i) [0..<length ys])
    = map (\<lambda>j. f ((xs @ ys) ! j) (int j)) [d..<length (xs @ ys)]"
  by (rule nth_equalityI) (use assms in \<open>auto simp: nth_append algebra_simps\<close>)

lemma attn_step_out:
  fixes ys :: "'f list"
  assumes "masked_no_weight m" and "attn_rep m xs st"
  defines "ps \<equiv> map (\<lambda>i. int (length xs) + int i) [0..<length ys]"
  obtains d where "d \<le> length xs" "d = 0 \<or> int d + (at_window m - 1) \<le> int (length xs)"
    "st_k st @ map2 (at_k m) ys ps = map (\<lambda>j. at_k m ((xs @ ys) ! j) (int j)) [d..<length (xs @ ys)]"
    "st_v st @ map (at_v m) ys = map (\<lambda>j. at_v m ((xs @ ys) ! j)) [d..<length (xs @ ys)]"
    "st_pos st @ ps = map int [d..<length (xs @ ys)]"
    "attend_all m ys ps (st_k st @ map2 (at_k m) ys ps) (st_v st @ map (at_v m) ys) (st_pos st @ ps)
       = map (seen_out m (xs @ ys)) [length xs..<length (xs @ ys)]"
proof -
  let ?n = "length xs" and ?N = "length (xs @ ys)"
  from assms(2) obtain d where d: "d \<le> ?n" "d = 0 \<or> int d + (at_window m - 1) \<le> int ?n"
    and st: "st_k st = map (\<lambda>j. at_k m (xs ! j) (int j)) [d..<?n]"
      "st_v st = map (\<lambda>j. at_v m (xs ! j)) [d..<?n]" "st_pos st = map int [d..<?n]"
    unfolding attn_rep_def by (elim exE conjE) (rule that, simp_all)
  have k: "st_k st @ map2 (at_k m) ys ps = map (\<lambda>j. at_k m ((xs @ ys) ! j) (int j)) [d..<?N]"
    unfolding st ps_def by (rule map_upt_append_frames [OF d(1)])
  have v: "st_v st @ map (at_v m) ys = map (\<lambda>j. at_v m ((xs @ ys) ! j)) [d..<?N]"
    unfolding st by (rule nth_equalityI) (use d(1) in \<open>auto simp: nth_append add.commute\<close>)
  have p: "st_pos st @ ps = map int [d..<?N]"
    unfolding st ps_def by (rule nth_equalityI) (use d(1) in \<open>auto simp: nth_append\<close>)
  have kv: "zip (st_k st @ map2 (at_k m) ys ps) (zip (st_v st @ map (at_v m) ys) (st_pos st @ ps))
      = map (kv_at m (xs @ ys)) [d..<?N]"
    unfolding k v p by (rule nth_equalityI) (auto simp: kv_at_def)
  have "attend_all m ys ps (st_k st @ map2 (at_k m) ys ps) (st_v st @ map (at_v m) ys) (st_pos st @ ps)
      = map (\<lambda>i. at_attend m (at_q m ((xs @ ys) ! i) (int i))
          (map (\<lambda>j. flag m i (kv_at m (xs @ ys) j)) [d..<?N])) [?n..<?N]"
    unfolding attend_all_def kv
    by (rule nth_equalityI) (auto simp: ps_def nth_append flag_def o_def split_beta)
  also have "\<dots> = map (seen_out m (xs @ ys)) [?n..<?N]"
    unfolding seen_out_def using d
    by (intro map_cong refl attend_seen [OF assms(1)]) auto
  finally show ?thesis using that d k v p by blast
qed

lemma attn_rep_cut:
  assumes "masked_no_weight m" and "d \<le> length zs" and "d = 0 \<or> int d + (at_window m - 1) \<le> int (length zs)"
    and "d' = (if at_window m - 1 = 0 then e else length zs - (nat (at_window m - 1)))"
    and "e = d \<or> e = length zs" and "d'' = max d d'"
  shows "attn_rep m zs \<lparr>st_k = map (\<lambda>j. at_k m (zs ! j) (int j)) [d''..<length zs],
    st_v = map (\<lambda>j. at_v m (zs ! j)) [d''..<length zs], st_pos = map int [d''..<length zs]\<rparr>"
proof -
  have "1 \<le> at_window m" using assms(1) by (simp add: masked_no_weight_def)
  then have "d'' \<le> length zs" "d'' = 0 \<or> int d'' + (at_window m - 1) \<le> int (length zs)"
    using assms(2-6) by (auto simp: max_def split: if_splits)
  then show ?thesis unfolding attn_rep_def by (intro exI [of _ d'']) simp
qed

lemma drop_map_upt: "drop (length (map f [d..<n]) - k) (map f [d..<n]) = map f [max d (n - k)..<n]"
proof -
  have "d + (n - (d + k)) = max d (n - k)" by linarith
  then show ?thesis by (simp add: drop_map)
qed

lemma py_from_map_upt: "0 < k \<Longrightarrow> py_from (map f [d..<n]) (- int k) = map f [max d (n - k)..<n]"
  by (simp add: py_from_neg drop_map_upt del: length_map)

lemma attention_frame_stream:
  assumes "masked_no_weight m"
  shows "frame_stream (\<lambda>off part st. Inr (attention_step m part st off) :: c2w_error + _)
    empty_attention_state (attn_rep m) (attention_full m)"
proof
  fix xs ys :: "'a list" and st
  assume a: "attn_rep m xs st" "ys \<noteq> []"
  let ?N = "length (xs @ ys)" and ?w = "at_window m - 1"
  have w: "max 0 ?w = int (nat ?w)" using assms by (simp add: masked_no_weight_def)
  obtain d where
    d: "d \<le> length xs" "d = 0 \<or> int d + ?w \<le> int (length xs)" and
    o: "st_k st @ map2 (at_k m) ys (map (\<lambda>i. int (length xs) + int i) [0..<length ys])
          = map (\<lambda>j. at_k m ((xs @ ys) ! j) (int j)) [d..<?N]"
      "st_v st @ map (at_v m) ys = map (\<lambda>j. at_v m ((xs @ ys) ! j)) [d..<?N]"
      "st_pos st @ map (\<lambda>i. int (length xs) + int i) [0..<length ys] = map int [d..<?N]" and
    out: "attend_all m ys (map (\<lambda>i. int (length xs) + int i) [0..<length ys])
        (st_k st @ map2 (at_k m) ys (map (\<lambda>i. int (length xs) + int i) [0..<length ys]))
        (st_v st @ map (at_v m) ys) (st_pos st @ map (\<lambda>i. int (length xs) + int i) [0..<length ys])
       = map (seen_out m (xs @ ys)) [length xs..<?N]"
    by (rule attn_step_out [OF assms a(1), of ys])
  let ?d' = "if ?w = 0 then ?N else ?N - nat ?w"
  let ?d'' = "max d ?d'"
  let ?st' = "\<lparr>st_k = map (\<lambda>j. at_k m ((xs @ ys) ! j) (int j)) [?d''..<?N],
    st_v = map (\<lambda>j. at_v m ((xs @ ys) ! j)) [?d''..<?N], st_pos = map int [?d''..<?N]\<rparr>"
  have step: "attention_step m ys st (int (length xs)) = (map (seen_out m (xs @ ys)) [length xs..<?N], ?st')"
  proof (cases "?w = 0")
    case True
    then show ?thesis
      unfolding attention_step_def Let_def out unfolding o using d
      by (simp add: py_slice_def py_index_def)
  next
    case False
    then have "0 < nat ?w" using assms by (simp add: masked_no_weight_def)
    then show ?thesis
      unfolding attention_step_def Let_def out w unfolding o using False
      by (simp only: py_from_map_upt) simp
  qed
  have rep: "attn_rep m (xs @ ys) ?st'"
    by (rule attn_rep_cut [OF assms]) (use d in auto)
  show "\<exists>out st'. (Inr (attention_step m ys st (int (length xs))) :: c2w_error + _) = Inr (out, st')
    \<and> attn_rep m (xs @ ys) st' \<and> attention_full m (xs @ ys) = attention_full m xs @ out"
    unfolding step by (rule exI, rule exI, rule conjI, rule refl, rule conjI, rule rep, rule attention_full_append [OF assms])
qed (simp_all add: attn_rep_def empty_attention_state_def attention_full_def)

definition positions_from :: "int \<Rightarrow> nat \<Rightarrow> int list" where
  "positions_from off n = map (\<lambda>i. off + int i) [0..<n]"

lemma rg_attention_frame_stream:
  assumes "masked_no_weight m"
  shows "frame_stream (\<lambda>off part st.
      Inr (rg_attention_step m part st (positions_from off (length part))) :: c2w_error + _)
    empty_attention_state (attn_rep m) (attention_full m)"
proof
  fix xs ys :: "'a list" and st
  assume a: "attn_rep m xs st" "ys \<noteq> []"
  let ?N = "length (xs @ ys)" and ?w = "at_window m - 1"
  let ?ps = "map (\<lambda>i. int (length xs) + int i) [0..<length ys]"
  have w: "max 0 ?w = int (nat ?w)" using assms by (simp add: masked_no_weight_def)
  obtain d where
    d: "d \<le> length xs" "d = 0 \<or> int d + ?w \<le> int (length xs)" and
    o: "st_k st @ map2 (at_k m) ys ?ps = map (\<lambda>j. at_k m ((xs @ ys) ! j) (int j)) [d..<?N]"
      "st_v st @ map (at_v m) ys = map (\<lambda>j. at_v m ((xs @ ys) ! j)) [d..<?N]"
      "st_pos st @ ?ps = map int [d..<?N]" and
    out: "attend_all m ys ?ps (st_k st @ map2 (at_k m) ys ?ps) (st_v st @ map (at_v m) ys) (st_pos st @ ?ps)
       = map (seen_out m (xs @ ys)) [length xs..<?N]"
    by (rule attn_step_out [OF assms a(1), of ys])
  let ?d' = "if ?w = 0 then d else ?N - nat ?w"
  let ?d'' = "max d ?d'"
  let ?st' = "\<lparr>st_k = map (\<lambda>j. at_k m ((xs @ ys) ! j) (int j)) [?d''..<?N],
    st_v = map (\<lambda>j. at_v m ((xs @ ys) ! j)) [?d''..<?N], st_pos = map int [?d''..<?N]\<rparr>"
  have step: "rg_attention_step m ys st (positions_from (int (length xs)) (length ys))
      = (map (seen_out m (xs @ ys)) [length xs..<?N], ?st')"
  proof (cases "?w = 0")
    case True
    then show ?thesis
      unfolding rg_attention_step_def Let_def positions_from_def out unfolding o by simp
  next
    case False
    then have "0 < nat ?w" using assms by (simp add: masked_no_weight_def)
    then show ?thesis
      unfolding rg_attention_step_def Let_def positions_from_def out w unfolding o using False
      by (simp only: py_from_map_upt) simp
  qed
  have rep: "attn_rep m (xs @ ys) ?st'"
    by (rule attn_rep_cut [OF assms]) (use d in auto)
  show "\<exists>out st'. (Inr (rg_attention_step m ys st (positions_from (int (length xs)) (length ys))) :: c2w_error + _)
      = Inr (out, st') \<and> attn_rep m (xs @ ys) st' \<and> attention_full m (xs @ ys) = attention_full m xs @ out"
    unfolding step
    by (rule exI, rule exI, rule conjI, rule refl, rule conjI, rule rep, rule attention_full_append [OF assms])
qed (simp_all add: attn_rep_def empty_attention_state_def attention_full_def)

section \<open>Layers\<close>

lemma attention_step_ok:
  assumes "masked_no_weight m" and "attn_rep m xs st" and "ys \<noteq> []"
  obtains out st' where "attention_step m ys st (int (length xs)) = (out, st')"
    "attn_rep m (xs @ ys) st'" "attention_full m (xs @ ys) = attention_full m xs @ out"
    "length out = length ys"
proof -
  note fs = attention_frame_stream [OF assms(1)]
  from causal_stream.step_ok [OF frame_stream.axioms(1) [OF fs] assms(2,3)]
  obtain out st' where 1: "attention_step m ys st (int (length xs)) = (out, st')"
    "attn_rep m (xs @ ys) st'" "attention_full m (xs @ ys) = attention_full m xs @ out"
    by blast
  moreover have "length out = length ys"
    using frame_stream.step_length [OF fs assms(2,3), of out st'] 1(1) by simp
  ultimately show ?thesis using that by blast
qed

fun layers_ok :: "('f::{plus,times}, 'q, 'k, 'v) layer_mod list \<Rightarrow> bool" where
  "layers_ok [] = True"
| "layers_ok (ly # lys) = (masked_no_weight (ly_self_attn ly) \<and> layers_ok lys)"

fun layers_rep ::
  "('f::{plus,times}, 'q, 'k, 'v) layer_mod list \<Rightarrow> 'f list \<Rightarrow> ('k, 'v) attn_state list \<Rightarrow> bool" where
  "layers_rep [] xs sts = (sts = [])"
| "layers_rep (ly # lys) xs [] = False"
| "layers_rep (ly # lys) xs (st # sts) =
     (attn_rep (ly_self_attn ly) (map (ly_input_layernorm ly) xs) st \<and> layers_rep lys (layer_full ly xs) sts)"

lemma length_layer_full [simp]: "length (layer_full ly x) = length x"
  by (simp add: layer_full_def attention_full_def)

lemma layer_step_ok:
  assumes "masked_no_weight (ly_self_attn ly)"
    and "attn_rep (ly_self_attn ly) (map (ly_input_layernorm ly) xs) st" and "ys \<noteq> []"
  obtains out st' where "transformer_layer_step ly ys st (int (length xs)) = (out, st')"
    "attn_rep (ly_self_attn ly) (map (ly_input_layernorm ly) (xs @ ys)) st'"
    "layer_full ly (xs @ ys) = layer_full ly xs @ out" "length out = length ys"
proof -
  let ?ln = "map (ly_input_layernorm ly)"
  from assms(3) have "?ln ys \<noteq> []" by simp
  from attention_step_ok [OF assms(1,2) this] obtain h st' where
    h: "attention_step (ly_self_attn ly) (?ln ys) st (int (length xs)) = (h, st')"
      "attn_rep (ly_self_attn ly) (?ln (xs @ ys)) st'"
      "attention_full (ly_self_attn ly) (?ln (xs @ ys)) = attention_full (ly_self_attn ly) (?ln xs) @ h"
      "length h = length ys"
    by (metis length_map map_append)
  have l: "length (attention_full (ly_self_attn ly) (?ln xs)) = length xs" by (simp add: attention_full_def)
  let ?out = "map (layer_tail ly) (map2 (\<lambda>r y. r + ly_self_attn_layer_scale ly y) ys h)"
  have "layer_full ly (xs @ ys) = layer_full ly xs @ ?out"
    using h(3) l h(4) by (simp add: layer_full_def)
  then show ?thesis
    using that [of ?out st'] h by (simp add: transformer_layer_step_def Let_def)
qed

lemma layers_step_ok:
  assumes "layers_ok lys" and "layers_rep lys xs sts" and "ys \<noteq> []"
  shows "\<exists>out sts'. layers_step lys ys sts (int (length xs)) = (out, sts') \<and> layers_rep lys (xs @ ys) sts'
    \<and> fold layer_full lys (xs @ ys) = fold layer_full lys xs @ out"
  using assms
proof (induction lys arbitrary: xs ys sts)
  case (Cons ly lys)
  then obtain st sts0 where sts: "sts = st # sts0"
    "attn_rep (ly_self_attn ly) (map (ly_input_layernorm ly) xs) st" "layers_rep lys (layer_full ly xs) sts0"
    by (cases sts) auto
  from Cons.prems(1) have m: "masked_no_weight (ly_self_attn ly)" and ok: "layers_ok lys" by simp_all
  obtain o1 st' where
    1: "transformer_layer_step ly ys st (int (length xs)) = (o1, st')"
      "attn_rep (ly_self_attn ly) (map (ly_input_layernorm ly) (xs @ ys)) st'"
      "layer_full ly (xs @ ys) = layer_full ly xs @ o1" "length o1 = length ys"
    by (rule layer_step_ok [OF m sts(2) Cons.prems(3)])
  then have "o1 \<noteq> []" using Cons.prems(3) by auto
  from Cons.IH [OF ok sts(3) this] 1 obtain o2 sts' where
    "layers_step lys o1 sts0 (int (length xs)) = (o2, sts')" "layers_rep lys (layer_full ly (xs @ ys)) sts'"
    "fold layer_full lys (layer_full ly (xs @ ys)) = fold layer_full lys (layer_full ly xs) @ o2"
    by auto
  then show ?case using 1 sts(1) by simp
qed auto

lemma pre_transformer_causal_stream:
  fixes model :: "('c, 'f::{plus,times}, 'q, 'k, 'v) pre_mod"
  assumes "layers_ok (pm_layers model)"
  shows "frame_stream (\<lambda>off part states.
      let (hidden, states) = layers_step (pm_layers model) (map (pm_embed model) part) states off
      in Inr (map (pm_norm model) hidden, states) :: c2w_error + _)
    (map (\<lambda>ly. empty_attention_state) (pm_layers model))
    (\<lambda>xs. layers_rep (pm_layers model) (map (pm_embed model) xs))
    (pre_transformer_full model)"
proof
  fix xs ys :: "'c list" and sts
  assume a: "layers_rep (pm_layers model) (map (pm_embed model) xs) sts" "ys \<noteq> []"
  from a(2) have "map (pm_embed model) ys \<noteq> []" by simp
  from layers_step_ok [OF assms a(1) this]
  show "\<exists>out s'. (let (hidden, states) = layers_step (pm_layers model) (map (pm_embed model) ys) sts (int (length xs))
      in Inr (map (pm_norm model) hidden, states) :: c2w_error + _) = Inr (out, s')
    \<and> layers_rep (pm_layers model) (map (pm_embed model) (xs @ ys)) s'
    \<and> pre_transformer_full model (xs @ ys) = pre_transformer_full model xs @ out"
    by (auto simp: pre_transformer_full_def)
next
  have empty: "layers_rep lys (fold layer_full pre ([] :: 'f list)) (map (\<lambda>ly. empty_attention_state) lys)"
    if "fold layer_full pre ([] :: 'f list) = []" for lys pre :: "('f, 'q, 'k, 'v) layer_mod list"
    using that
    by (induction lys) (simp_all add: attn_rep_def empty_attention_state_def layer_full_def)
  then show "layers_rep (pm_layers model) (map (pm_embed model) []) (map (\<lambda>ly. empty_attention_state) (pm_layers model))"
    using empty [of "[]" "pm_layers model"] by simp
  have f: "length (fold layer_full lys x) = length x" 
    for lys :: "('f, 'q, 'k, 'v) layer_mod list" and x
    by (induction lys arbitrary: x) simp_all
  then show "length (pre_transformer_full model xs) = length xs" for xs
    by (simp add: pre_transformer_full_def)
  then show "pre_transformer_full model [] = []" by (metis length_0_conv)
qed

end
