(* ===== verification/Code2Wav_Model.thy ===== *)
theory Code2Wav_Model
  imports Code2Wav_TConv_Props Code2Wav_Attn_Props
begin

text \<open>
  The composed decoder of \<^verbatim>\<open>scripts/qwen3_code2wav_stateful_reference.py\<close>: ConvNeXt blocks,
  residual units, decoder stages, the two ways to run the convolutional network (collecting whole
  tensors, or passing lists of chunks from stage to stage) and the two entry points
  \<^verbatim>\<open>code2wav_stream_collect\<close> and \<^verbatim>\<open>code2wav_stream_online\<close>.  Transposes and permutes only
  move the time axis and have no counterpart on lists of frames.
\<close>

section \<open>Blocks\<close>

record 'f convnext_mod =
  cx_dwconv :: "'f conv_mod"
  cx_norm :: "'f \<Rightarrow> 'f"
  cx_pwconv1 :: "'f \<Rightarrow> 'f"
  cx_act :: "'f \<Rightarrow> 'f"
  cx_pwconv2 :: "'f \<Rightarrow> 'f"
  cx_gamma :: "'f"

record 'f unit_mod =
  ru_act1 :: "'f \<Rightarrow> 'f"
  ru_conv1 :: "'f conv_mod"
  ru_act2 :: "'f \<Rightarrow> 'f"
  ru_conv2 :: "'f conv_mod"

record 'f stage_mod =
  ds_act :: "'f \<Rightarrow> 'f"
  ds_tconv :: "'f tconv_mod"
  ds_units :: "'f unit_mod list"

datatype 'f dec_block =
    ConvBlock "'f conv_mod"
  | StageBlock "'f stage_mod"
  | SnakeBlock "'f \<Rightarrow> 'f"
  | OtherBlock

record ('c, 'f, 'q, 'k, 'v) c2w_model =
  cm_pre :: "('c, 'f, 'q, 'k, 'v) pre_mod"
  cm_upsample :: "('f tconv_mod \<times> 'f convnext_mod) list"
  cm_decoder :: "'f dec_block list"
  cm_clamp :: "'f \<Rightarrow> 'f"

definition convnext_point :: "'f::times convnext_mod \<Rightarrow> 'f \<Rightarrow> 'f" where
  "convnext_point b y =
     cx_gamma b * cx_pwconv2 b (cx_act b (cx_pwconv1 b (cx_norm b y)))"

definition zip_strict :: "'a list \<Rightarrow> 'b list \<Rightarrow> c2w_error + ('a \<times> 'b) list" where
  "zip_strict xs ys = (if length xs \<noteq> length ys then Inl ZipStrict else Inr (zip xs ys))"

definition chunks_of :: "int \<Rightarrow> int list \<Rightarrow> c2w_error + int list" where
  "chunks_of n pattern =
     (case make_chunks n pattern of Some (Inr cs) \<Rightarrow> Inr cs | _ \<Rightarrow> Inl PatternZero)"

section \<open>Collecting whole tensors\<close>

definition stream_convnext_block ::
  "'f::{comm_monoid_add,times} convnext_mod \<Rightarrow> 'f list \<Rightarrow> int list \<Rightarrow> c2w_error + 'f list" where
  "stream_convnext_block block x chunks =
     res_bind (causal_conv_stream (cx_dwconv block) x chunks)
       (\<lambda>y. Inr (map2 (\<lambda>residual y. residual + convnext_point block y) x y))"

definition stream_decoder_residual_unit ::
  "'f::comm_monoid_add unit_mod \<Rightarrow> 'f list \<Rightarrow> int list \<Rightarrow> c2w_error + 'f list" where
  "stream_decoder_residual_unit unit x chunks =
     res_bind (causal_conv_stream (ru_conv1 unit) (map (ru_act1 unit) x) chunks) (\<lambda>y.
     res_bind (causal_conv_stream (ru_conv2 unit) (map (ru_act2 unit) y) chunks) (\<lambda>y.
       Inr (map2 (+) x y)))"

definition stream_decoder_stage_collect ::
  "'f::comm_monoid_add stage_mod \<Rightarrow> 'f list \<Rightarrow> int list \<Rightarrow> c2w_error + 'f list \<times> int list" where
  "stream_decoder_stage_collect stage x chunks =
     res_bind (transposed_conv_stream_collect (ds_tconv stage) (map (ds_act stage) x) chunks) (\<lambda>y.
     res_bind (chunks_of (int (length y)) [11, 3, 17, 5]) (\<lambda>chunks.
     res_bind (res_fold (\<lambda>unit y. stream_decoder_residual_unit unit y chunks) (ds_units stage) y) (\<lambda>y.
       Inr (y, chunks))))"

definition upsample_collect ::
  "'f::{comm_monoid_add,times} tconv_mod \<times> 'f convnext_mod \<Rightarrow> 'f list \<times> int list
     \<Rightarrow> c2w_error + 'f list \<times> int list" where
  "upsample_collect = (\<lambda>(tconv, block) (hidden, chunks).
     res_bind (transposed_conv_stream_collect tconv hidden chunks) (\<lambda>hidden.
     res_bind (chunks_of (int (length hidden)) [9, 4, 13, 2]) (\<lambda>chunks.
     res_bind (stream_convnext_block block hidden chunks) (\<lambda>hidden. Inr (hidden, chunks)))))"

definition decoder_collect ::
  "'f::comm_monoid_add dec_block \<Rightarrow> 'f list \<times> int list \<Rightarrow> c2w_error + 'f list \<times> int list" where
  "decoder_collect block = (\<lambda>(wav, chunks).
     case block of
       ConvBlock m \<Rightarrow> res_bind (causal_conv_stream m wav chunks) (\<lambda>wav. Inr (wav, chunks))
     | StageBlock stage \<Rightarrow> stream_decoder_stage_collect stage wav chunks
     | SnakeBlock f \<Rightarrow> Inr (map f wav, chunks)
     | OtherBlock \<Rightarrow> Inl UnhandledBlock)"

definition convnet_stream_collect ::
  "('c, 'f::{comm_monoid_add,times}, 'q, 'k, 'v) c2w_model \<Rightarrow> 'f list \<Rightarrow> int list
     \<Rightarrow> c2w_error + 'f list" where
  "convnet_stream_collect model hidden chunks =
     res_bind (res_fold upsample_collect (cm_upsample model) (hidden, chunks)) (\<lambda>hc.
     res_bind (res_fold decoder_collect (cm_decoder model) hc) (\<lambda>(wav, chunks). Inr wav))"

definition code2wav_stream_collect ::
  "('c, 'f::{comm_monoid_add,times}, 'q, 'k, 'v) c2w_model \<Rightarrow> 'c list \<Rightarrow> int list
     \<Rightarrow> c2w_error + 'f list" where
  "code2wav_stream_collect model codes chunks =
     res_bind (pre_transformer_stream (cm_pre model) codes chunks) (\<lambda>hidden.
     res_bind (convnet_stream_collect model hidden chunks) (\<lambda>wav. Inr (map (cm_clamp model) wav)))"

section \<open>Passing chunks online\<close>

definition stream_convnext_block_chunks ::
  "'f::{comm_monoid_add,times} convnext_mod \<Rightarrow> 'f list list \<Rightarrow> c2w_error + 'f list list" where
  "stream_convnext_block_chunks block chunks =
     res_bind (causal_conv_stream_chunks (cx_dwconv block) chunks) (\<lambda>conv.
     res_bind (zip_strict chunks conv) (\<lambda>ps.
       Inr (map (\<lambda>(residual, y). map2 (\<lambda>r y. r + convnext_point block y) residual y) ps)))"

definition stream_decoder_residual_unit_chunks ::
  "'f::comm_monoid_add unit_mod \<Rightarrow> 'f list list \<Rightarrow> c2w_error + 'f list list" where
  "stream_decoder_residual_unit_chunks unit chunks =
     res_bind (causal_conv_stream_chunks (ru_conv1 unit) (map (map (ru_act1 unit)) chunks)) (\<lambda>y_chunks.
     res_bind (causal_conv_stream_chunks (ru_conv2 unit) (map (map (ru_act2 unit)) y_chunks)) (\<lambda>y_chunks.
     res_bind (zip_strict chunks y_chunks) (\<lambda>ps.
       Inr (map (\<lambda>(residual, y). map2 (+) residual y) ps))))"

definition stream_decoder_stage_chunks ::
  "'f::comm_monoid_add stage_mod \<Rightarrow> 'f list list \<Rightarrow> c2w_error + 'f list list" where
  "stream_decoder_stage_chunks stage chunks =
     res_bind (transposed_conv_stream_emit_chunks (ds_tconv stage) (map (map (ds_act stage)) chunks))
       (res_fold stream_decoder_residual_unit_chunks (ds_units stage))"

definition upsample_online ::
  "'f::{comm_monoid_add,times} tconv_mod \<times> 'f convnext_mod \<Rightarrow> 'f list list \<Rightarrow> c2w_error + 'f list list" where
  "upsample_online = (\<lambda>(tconv, block) chunks.
     res_bind (transposed_conv_stream_emit_chunks tconv chunks) (stream_convnext_block_chunks block))"

definition decoder_online ::
  "'f::comm_monoid_add dec_block \<Rightarrow> 'f list list \<Rightarrow> c2w_error + 'f list list" where
  "decoder_online block chunks =
     (case block of
        ConvBlock m \<Rightarrow> causal_conv_stream_chunks m chunks
      | StageBlock stage \<Rightarrow> stream_decoder_stage_chunks stage chunks
      | SnakeBlock f \<Rightarrow> Inr (map (map f) chunks)
      | OtherBlock \<Rightarrow> Inl UnhandledBlock)"

definition convnet_stream_online ::
  "('c, 'f::{comm_monoid_add,times}, 'q, 'k, 'v) c2w_model \<Rightarrow> 'f list list \<Rightarrow> c2w_error + 'f list list" where
  "convnet_stream_online model chunks =
     res_bind (res_fold upsample_online (cm_upsample model) chunks)
       (res_fold decoder_online (cm_decoder model))"

definition code2wav_stream_online ::
  "('c, 'f::{comm_monoid_add,times}, 'q, 'k, 'v) c2w_model \<Rightarrow> 'c list \<Rightarrow> int list
     \<Rightarrow> c2w_error + 'f list" where
  "code2wav_stream_online model codes chunks =
     res_bind (pre_transformer_stream_chunks (cm_pre model) codes chunks) (\<lambda>hidden_chunks.
     res_bind (convnet_stream_online model hidden_chunks) (\<lambda>wav_chunks.
     res_bind (torch_cat wav_chunks) (\<lambda>wav. Inr (map (cm_clamp model) wav))))"

section \<open>The full model\<close>

text \<open>
  The modules on a whole tensor, composed as the model composes them; a convolution raises on an
  empty tensor.
\<close>

definition convnext_full ::
  "'f::{comm_monoid_add,times} convnext_mod \<Rightarrow> 'f list \<Rightarrow> c2w_error + 'f list" where
  "convnext_full block x =
     res_bind (causal_conv_full (cx_dwconv block) x)
       (\<lambda>y. Inr (map2 (\<lambda>r y. r + convnext_point block y) x y))"

definition unit_full :: "'f::comm_monoid_add unit_mod \<Rightarrow> 'f list \<Rightarrow> c2w_error + 'f list" where
  "unit_full unit x =
     res_bind (causal_conv_full (ru_conv1 unit) (map (ru_act1 unit) x)) (\<lambda>y.
     res_bind (causal_conv_full (ru_conv2 unit) (map (ru_act2 unit) y)) (\<lambda>y. Inr (map2 (+) x y)))"

definition stage_full :: "'f::comm_monoid_add stage_mod \<Rightarrow> 'f list \<Rightarrow> c2w_error + 'f list" where
  "stage_full stage x =
     res_bind (tconv_full (ds_tconv stage) (map (ds_act stage) x)) (res_fold unit_full (ds_units stage))"

definition upsample_full ::
  "'f::{comm_monoid_add,times} tconv_mod \<times> 'f convnext_mod \<Rightarrow> 'f list \<Rightarrow> c2w_error + 'f list" where
  "upsample_full = (\<lambda>(tconv, block) x. res_bind (tconv_full tconv x) (convnext_full block))"

definition block_full :: "'f::comm_monoid_add dec_block \<Rightarrow> 'f list \<Rightarrow> c2w_error + 'f list" where
  "block_full block x =
     (case block of
        ConvBlock m \<Rightarrow> causal_conv_full m x
      | StageBlock stage \<Rightarrow> stage_full stage x
      | SnakeBlock f \<Rightarrow> Inr (map f x)
      | OtherBlock \<Rightarrow> Inl UnhandledBlock)"

definition convnet_full ::
  "('c, 'f::{comm_monoid_add,times}, 'q, 'k, 'v) c2w_model \<Rightarrow> 'f list \<Rightarrow> c2w_error + 'f list" where
  "convnet_full model x =
     res_bind (res_fold upsample_full (cm_upsample model) x) (res_fold block_full (cm_decoder model))"

definition code2wav_full ::
  "('c, 'f::{comm_monoid_add,times}, 'q, 'k, 'v) c2w_model \<Rightarrow> 'c list \<Rightarrow> c2w_error + 'f list" where
  "code2wav_full model codes =
     res_bind (convnet_full model (pre_transformer_full (cm_pre model) codes))
       (\<lambda>wav. Inr (map (cm_clamp model) wav))"

text \<open>What is assumed of the modules of a model.\<close>

definition conv_ok :: "'f conv_mod \<Rightarrow> bool" where
  "conv_ok m \<longleftrightarrow> (\<exists>g. valid_conv m g)"

definition tconv_ok :: "'f::comm_monoid_add tconv_mod \<Rightarrow> bool" where
  "tconv_ok m \<longleftrightarrow> (\<exists>K ker. overlap_add m K ker)"

definition stage_ok :: "'f::comm_monoid_add stage_mod \<Rightarrow> bool" where
  "stage_ok st \<longleftrightarrow> tconv_ok (ds_tconv st) \<and>
     (\<forall>u\<in>set (ds_units st). conv_ok (ru_conv1 u) \<and> conv_ok (ru_conv2 u))"

definition model_ok :: "('c, 'f::{comm_monoid_add,times}, 'q, 'k, 'v) c2w_model \<Rightarrow> bool" where
  "model_ok model \<longleftrightarrow> layers_ok (pm_layers (cm_pre model))
     \<and> (\<forall>(t, b)\<in>set (cm_upsample model). tconv_ok t \<and> conv_ok (cx_dwconv b))
     \<and> (\<forall>b\<in>set (cm_decoder model).
          (\<forall>m. b = ConvBlock m \<longrightarrow> conv_ok m) \<and> (\<forall>st. b = StageBlock st \<longrightarrow> stage_ok st))"

end
