(* ===== verification/Code2Wav_Model_Props.thy ===== *)
theory Code2Wav_Model_Props
  imports Code2Wav_Model
begin

text \<open>
  Both ways of streaming the composed decoder simulate the full model, stage by stage: collecting
  keeps the tensor and a list of lengths that covers it, the online way keeps a list of non-empty
  chunks that join up to the tensor.
\<close>

section \<open>Collecting\<close>

lemma covers_length: "covers cs x \<Longrightarrow> length y = length x \<Longrightarrow> covers cs y"
  by (simp add: covers_def)

lemma conv_full_length: "conv_ok m \<Longrightarrow> causal_conv_full m x = Inr y \<Longrightarrow> length y = length x"
  by (cases "x = []") (auto simp: conv_ok_def causal_conv_full_frames causal_frames_def causal_conv_full_def valid_conv_def)

lemma conv_collect:
  assumes "conv_ok m" and "causal_conv_full m x = Inr y" and "covers cs x"
  shows "causal_conv_stream m x cs = Inr y"
proof -
  have "x \<noteq> []" using assms(2) by (auto simp: causal_conv_full_def)
  then show ?thesis
    using assms causal_conv_stream_frames causal_conv_full_frames by (fastforce simp: conv_ok_def)
qed

lemma tconv_collect:
  assumes "tconv_ok m" and "tconv_full m x = Inr y" and "covers cs x"
  shows "transposed_conv_stream_collect m x cs = Inr y"
proof -
  have "x \<noteq> []" using assms(2) by (auto simp: tconv_full_def)
  moreover obtain K ker where "overlap_add m K ker" using assms(1) by (auto simp: tconv_ok_def)
  ultimately show ?thesis using tconv_collect_frames [of m K ker cs x] assms(2,3) by simp
qed

lemma chunks_of_covers:
  assumes "pattern \<noteq> []" and "\<forall>c\<in>set pattern. 0 < c"
  obtains cs where "chunks_of (int (length x)) pattern = Inr cs" "covers cs x"
  by (rule make_chunks_covers [OF assms, of x]) (simp add: that chunks_of_def)

lemma convnext_collect:
  assumes "conv_ok (cx_dwconv b)" and "convnext_full b x = Inr y" and "covers cs x"
  shows "stream_convnext_block b x cs = Inr y"
  using assms conv_collect [OF assms(1)] by (auto simp: convnext_full_def stream_convnext_block_def)

lemma convnext_full_length:
  "conv_ok (cx_dwconv b) \<Longrightarrow> convnext_full b x = Inr y \<Longrightarrow> length y = length x"
  by (auto simp: convnext_full_def dest: conv_full_length)

lemma unit_full_length:
  "conv_ok (ru_conv1 u) \<Longrightarrow> conv_ok (ru_conv2 u) \<Longrightarrow> unit_full u x = Inr y \<Longrightarrow> length y = length x"
  by (auto simp: unit_full_def dest!: conv_full_length)

lemma unit_collect:
  assumes "conv_ok (ru_conv1 u)" and "conv_ok (ru_conv2 u)" and "unit_full u x = Inr y"
    and "covers cs x"
  shows "stream_decoder_residual_unit u x cs = Inr y"
proof -
  from assms(3) obtain y1 y2 where
    y: "causal_conv_full (ru_conv1 u) (map (ru_act1 u) x) = Inr y1"
      "causal_conv_full (ru_conv2 u) (map (ru_act2 u) y1) = Inr y2" "y = map2 (+) x y2"
    by (auto simp: unit_full_def)
  have c: "covers cs (map (ru_act1 u) x)" "covers cs (map (ru_act2 u) y1)"
    using assms(4) conv_full_length [OF assms(1) y(1)] by (simp_all add: covers_def)
  show ?thesis
    using conv_collect [OF assms(1) y(1) c(1)] conv_collect [OF assms(2) y(2) c(2)] y(3)
    by (simp add: stream_decoder_residual_unit_def)
qed

lemma stage_collect:
  assumes "stage_ok st" and "stage_full st x = Inr y" and "covers cs x"
  shows "\<exists>cs'. stream_decoder_stage_collect st x cs = Inr (y, cs') \<and> covers cs' y"
proof -
  from assms(2) obtain z where z: "tconv_full (ds_tconv st) (map (ds_act st) x) = Inr z"
    "res_fold unit_full (ds_units st) z = Inr y"
    by (auto simp: stage_full_def)
  have t: "transposed_conv_stream_collect (ds_tconv st) (map (ds_act st) x) cs = Inr z"
    using assms(1,3) z(1) by (intro tconv_collect) (auto simp: stage_ok_def covers_def)
  obtain cs' where cs': "chunks_of (int (length z)) [11, 3, 17, 5] = Inr cs'" "covers cs' z"
    by (rule chunks_of_covers [of "[11, 3, 17, 5]" z]) auto
  have "\<exists>s'. res_fold (\<lambda>unit y. stream_decoder_residual_unit unit y cs') (ds_units st) z = Inr s'
      \<and> (s' = y \<and> covers cs' y)"
  proof (rule res_fold_simulation [where R = "\<lambda>s t. s = t \<and> covers cs' t", OF _ _ z(2)])
    fix u s t t'
    assume "u \<in> set (ds_units st)" "s = t \<and> covers cs' t" "unit_full u t = Inr t'"
    then show "\<exists>s'. stream_decoder_residual_unit u s cs' = Inr s' \<and> s' = t' \<and> covers cs' t'"
      using assms(1) unit_collect [of u t t' cs'] unit_full_length [of u t t'] covers_length [of cs' t t']
      by (simp add: stage_ok_def)
  qed (use cs'(2) in simp)
  then show ?thesis using t cs' by (simp add: stream_decoder_stage_collect_def)
qed

lemma upsample_collect_ok:
  assumes "tconv_ok t" and "conv_ok (cx_dwconv b)" and "upsample_full (t, b) x = Inr y"
    and "covers cs x"
  shows "\<exists>cs'. upsample_collect (t, b) (x, cs) = Inr (y, cs') \<and> covers cs' y"
proof -
  from assms(3) obtain z where z: "tconv_full t x = Inr z" "convnext_full b z = Inr y"
    by (auto simp: upsample_full_def)
  obtain cs' where cs': "chunks_of (int (length z)) [9, 4, 13, 2] = Inr cs'" "covers cs' z"
    by (rule chunks_of_covers [of "[9, 4, 13, 2]" z]) auto
  show ?thesis
    using tconv_collect [OF assms(1) z(1) assms(4)] cs' convnext_collect [OF assms(2) z(2) cs'(2)]
      convnext_full_length [OF assms(2) z(2)]
    by (simp add: upsample_collect_def covers_length)
qed

lemma decoder_collect_ok:
  assumes "\<forall>m. b = ConvBlock m \<longrightarrow> conv_ok m" and "\<forall>st. b = StageBlock st \<longrightarrow> stage_ok st"
    and "block_full b x = Inr y" and "covers cs x"
  shows "\<exists>cs'. decoder_collect b (x, cs) = Inr (y, cs') \<and> covers cs' y"
proof (cases b)
  case (ConvBlock m)
  then show ?thesis
    using assms conv_collect [of m x y cs] conv_full_length [of m x y] covers_length [of cs x y]
    by (simp add: decoder_collect_def block_full_def)
next
  case (StageBlock st)
  then show ?thesis
    using assms stage_collect [of st x y cs] by (simp add: decoder_collect_def block_full_def)
next
  case (SnakeBlock f)
  then show ?thesis
    using assms(3,4) by (auto simp: decoder_collect_def block_full_def covers_def)
qed (use assms(3) in \<open>simp add: block_full_def\<close>)

lemma convnet_collect:
  assumes "model_ok model" and "convnet_full model x = Inr y" and "covers cs x"
  shows "convnet_stream_collect model x cs = Inr y"
proof -
  let ?R = "\<lambda>(s, cs) t. s = t \<and> covers cs t"
  from assms(2) obtain z where z: "res_fold upsample_full (cm_upsample model) x = Inr z"
    "res_fold block_full (cm_decoder model) z = Inr y"
    by (auto simp: convnet_full_def)
  have "\<exists>s'. res_fold upsample_collect (cm_upsample model) (x, cs) = Inr s' \<and> ?R s' z"
  proof (rule res_fold_simulation [where R = ?R, OF _ _ z(1)])
    fix a s t t'
    assume "a \<in> set (cm_upsample model)" "?R s t" "upsample_full a t = Inr t'"
    then show "\<exists>s'. upsample_collect a s = Inr s' \<and> ?R s' t'"
      using assms(1) upsample_collect_ok [of "fst a" "snd a" t t' "snd s"]
      by (cases a; cases s) (auto simp: model_ok_def)
  qed (use assms(3) in simp)
  then obtain cs1 where 1: "res_fold upsample_collect (cm_upsample model) (x, cs) = Inr (z, cs1)"
    "covers cs1 z" by auto
  have "\<exists>s'. res_fold decoder_collect (cm_decoder model) (z, cs1) = Inr s' \<and> ?R s' y"
  proof (rule res_fold_simulation [where R = ?R, OF _ _ z(2)])
    fix b s t t'
    assume "b \<in> set (cm_decoder model)" "?R s t" "block_full b t = Inr t'"
    then show "\<exists>s'. decoder_collect b s = Inr s' \<and> ?R s' t'"
      using assms(1) decoder_collect_ok [of b t t' "snd s"]
      by (cases s) (auto simp: model_ok_def)
  qed (use 1(2) in simp)
  then show ?thesis using 1(1) by (auto simp: convnet_stream_collect_def)
qed

section \<open>Online\<close>

definition joins :: "'a list list \<Rightarrow> 'a list \<Rightarrow> bool" where
  "joins cs x \<longleftrightarrow> concat cs = x \<and> (\<forall>c\<in>set cs. c \<noteq> [])"

lemma joins_filter: "joins cs x \<Longrightarrow> filter (\<lambda>p. p \<noteq> []) cs = cs"
  by (simp add: joins_def filter_id_conv)

lemma joins_map: "joins cs x \<Longrightarrow> joins (map (map f) cs) (map f x)"
  by (auto simp: joins_def map_concat)

lemma joins_last: "joins cs x \<Longrightarrow> x \<noteq> [] \<Longrightarrow> cs \<noteq> [] \<and> last cs \<noteq> []"
  by (auto simp: joins_def)

lemma joins_lengths:
  assumes "joins cs x" and "map length ds = map length cs"
  shows "joins ds (concat ds)"
  unfolding joins_def
proof (intro conjI ballI refl)
  fix d
  assume "d \<in> set ds"
  then obtain n where n: "n < length ds" "d = ds ! n" by (auto simp: in_set_conv_nth)
  have l: "length cs = length ds" using arg_cong [OF assms(2), of length] by simp
  have "length d = length (cs ! n)"
    using n l arg_cong [OF assms(2), of "\<lambda>z. z ! n"] by simp
  moreover have "cs ! n \<noteq> []" using n l assms(1) by (simp add: joins_def)
  ultimately show "d \<noteq> []" by auto
qed

lemma residual_concat:
  assumes "map length ys = map length cs"
  shows "concat (map (\<lambda>(r, y). map2 f r y) (zip cs ys)) = map2 f (concat cs) (concat ys)"
    and "map length (map (\<lambda>(r, y). map2 f r y) (zip cs ys)) = map length cs"
  using assms by (induction cs arbitrary: ys) (auto simp: Cons_eq_map_conv)

lemma residual_joins:
  assumes "joins cs x" and "map length ys = map length cs"
  shows "zip_strict cs ys = Inr (zip cs ys)"
    and "joins (map (\<lambda>(r, y). map2 f r y) (zip cs ys)) (map2 f x (concat ys))"
proof -
  show "zip_strict cs ys = Inr (zip cs ys)"
    using arg_cong [OF assms(2), of length] by (simp add: zip_strict_def)
  note r = residual_concat [OF assms(2), of f]
  have "joins (map (\<lambda>(r, y). map2 f r y) (zip cs ys)) (concat (map (\<lambda>(r, y). map2 f r y) (zip cs ys)))"
    by (rule joins_lengths [OF assms(1) r(2)])
  then show "joins (map (\<lambda>(r, y). map2 f r y) (zip cs ys)) (map2 f x (concat ys))"
    using r(1) assms(1) by (simp add: joins_def)
qed

lemma conv_online:
  assumes "conv_ok m" and "causal_conv_full m x = Inr y" and "joins cs x"
  obtains ys where "causal_conv_stream_chunks m cs = Inr ys" "joins ys y" "map length ys = map length cs"
proof -
  have x: "x \<noteq> []" using assms(2) by (auto simp: causal_conv_full_def)
  obtain g where g: "valid_conv m g" using assms(1) by (auto simp: conv_ok_def)
  from causal_conv_chunks_frames [OF g, of cs] obtain ys where
    ys: "causal_conv_stream_chunks m cs = Inr ys" "concat ys = causal_frames (conv_padding m) g (concat cs)"
      "map length ys = map length (filter (\<lambda>p. p \<noteq> []) cs)"
    by blast
  have "map length ys = map length cs" using ys(3) joins_filter [OF assms(3)] by simp
  moreover have "concat ys = y"
    using ys(2) assms(2,3) causal_conv_full_frames [OF g x] by (simp add: joins_def)
  ultimately show ?thesis using that ys(1) joins_lengths [OF assms(3), of ys] by auto
qed

lemma tconv_online:
  assumes "tconv_ok m" and "tconv_full m x = Inr y" and "joins cs x"
  obtains ys where "transposed_conv_stream_emit_chunks m cs = Inr ys" "joins ys y"
proof -
  have "x \<noteq> []" using assms(2) by (auto simp: tconv_full_def)
  then have cs: "cs \<noteq> []" "last cs \<noteq> []" using joins_last [OF assms(3)] by simp_all
  obtain K ker where "overlap_add m K ker" using assms(1) by (auto simp: tconv_ok_def)
  from tconv_emit_chunks_frames [OF this cs] obtain ys where
    "transposed_conv_stream_emit_chunks m cs = Inr ys" "tconv_full m (concat cs) = Inr (concat ys)"
    "\<forall>y\<in>set ys. y \<noteq> []"
    by blast
  then show ?thesis using that assms(2,3) by (simp add: joins_def)
qed

lemma convnext_online:
  assumes "conv_ok (cx_dwconv b)" and "convnext_full b x = Inr y" and "joins cs x"
  shows "\<exists>ys. stream_convnext_block_chunks b cs = Inr ys \<and> joins ys y"
proof -
  from assms(2) obtain z where z: "causal_conv_full (cx_dwconv b) x = Inr z"
    "y = map2 (\<lambda>r y. r + convnext_point b y) x z"
    by (auto simp: convnext_full_def)
  obtain zs where zs: "causal_conv_stream_chunks (cx_dwconv b) cs = Inr zs" "joins zs z"
    "map length zs = map length cs"
    by (rule conv_online [OF assms(1) z(1) assms(3)])
  show ?thesis
    using zs(1,2) residual_joins(1) [OF assms(3) zs(3)]
      residual_joins(2) [OF assms(3) zs(3), of "\<lambda>r y. r + convnext_point b y"] z(2)
    by (simp add: stream_convnext_block_chunks_def joins_def)
qed

lemma unit_online:
  assumes "conv_ok (ru_conv1 u)" and "conv_ok (ru_conv2 u)" and "unit_full u x = Inr y"
    and "joins cs x"
  shows "\<exists>ys. stream_decoder_residual_unit_chunks u cs = Inr ys \<and> joins ys y"
proof -
  from assms(3) obtain y1 y2 where
    y: "causal_conv_full (ru_conv1 u) (map (ru_act1 u) x) = Inr y1"
      "causal_conv_full (ru_conv2 u) (map (ru_act2 u) y1) = Inr y2" "y = map2 (+) x y2"
    by (auto simp: unit_full_def)
  obtain c1 where c1: "causal_conv_stream_chunks (ru_conv1 u) (map (map (ru_act1 u)) cs) = Inr c1"
    "joins c1 y1" "map length c1 = map length (map (map (ru_act1 u)) cs)"
    by (rule conv_online [OF assms(1) y(1) joins_map [OF assms(4)]])
  obtain c2 where c2: "causal_conv_stream_chunks (ru_conv2 u) (map (map (ru_act2 u)) c1) = Inr c2"
    "joins c2 y2" "map length c2 = map length (map (map (ru_act2 u)) c1)"
    by (rule conv_online [OF assms(2) y(2) joins_map [OF c1(2)]])
  have l: "map length c2 = map length cs" using c1(3) c2(3) by (simp add: o_def)
  note r = residual_joins(1) [OF assms(4) l] residual_joins(2) [OF assms(4) l, of "(+)"]
  show ?thesis
    using c1(1) c2(1,2) r y(3) by (simp add: stream_decoder_residual_unit_chunks_def joins_def)
qed

lemma stage_online:
  assumes "stage_ok st" and "stage_full st x = Inr y" and "joins cs x"
  shows "\<exists>ys. stream_decoder_stage_chunks st cs = Inr ys \<and> joins ys y"
proof -
  from assms(2) obtain z where z: "tconv_full (ds_tconv st) (map (ds_act st) x) = Inr z"
    "res_fold unit_full (ds_units st) z = Inr y"
    by (auto simp: stage_full_def)
  have "tconv_ok (ds_tconv st)" using assms(1) by (simp add: stage_ok_def)
  from tconv_online [OF this z(1) joins_map [OF assms(3)]] obtain zs where
    zs: "transposed_conv_stream_emit_chunks (ds_tconv st) (map (map (ds_act st)) cs) = Inr zs" "joins zs z" .
  have "\<exists>s'. res_fold stream_decoder_residual_unit_chunks (ds_units st) zs = Inr s' \<and> joins s' y"
  proof (rule res_fold_simulation [where R = joins, OF _ zs(2) z(2)])
    fix u s t t'
    assume "u \<in> set (ds_units st)" "joins s t" "unit_full u t = Inr t'"
    then show "\<exists>s'. stream_decoder_residual_unit_chunks u s = Inr s' \<and> joins s' t'"
      using assms(1) unit_online [of u t t' s] by (simp add: stage_ok_def)
  qed
  then show ?thesis using zs(1) by (simp add: stream_decoder_stage_chunks_def)
qed

lemma convnet_online:
  assumes "model_ok model" and "convnet_full model x = Inr y" and "joins cs x"
  shows "\<exists>ys. convnet_stream_online model cs = Inr ys \<and> joins ys y"
proof -
  from assms(2) obtain z where z: "res_fold upsample_full (cm_upsample model) x = Inr z"
    "res_fold block_full (cm_decoder model) z = Inr y"
    by (auto simp: convnet_full_def)
  have "\<exists>s'. res_fold upsample_online (cm_upsample model) cs = Inr s' \<and> joins s' z"
  proof (rule res_fold_simulation [where R = joins, OF _ assms(3) z(1)])
    fix a s t t'
    assume a: "a \<in> set (cm_upsample model)" "joins s t" "upsample_full a t = Inr t'"
    obtain tc b where ab: "a = (tc, b)" by (cases a)
    with a assms(1) have ok: "tconv_ok tc" "conv_ok (cx_dwconv b)" by (auto simp: model_ok_def)
    from a(3) ab obtain u where u: "tconv_full tc t = Inr u" "convnext_full b u = Inr t'"
      by (auto simp: upsample_full_def)
    obtain us where "transposed_conv_stream_emit_chunks tc s = Inr us" "joins us u"
      by (rule tconv_online [OF ok(1) u(1) a(2)])
    then show "\<exists>s'. upsample_online a s = Inr s' \<and> joins s' t'"
      using convnext_online [OF ok(2) u(2)] ab by (simp add: upsample_online_def)
  qed
  then obtain zs where zs: "res_fold upsample_online (cm_upsample model) cs = Inr zs" "joins zs z"
    by blast
  have "\<exists>s'. res_fold decoder_online (cm_decoder model) zs = Inr s' \<and> joins s' y"
  proof (rule res_fold_simulation [where R = joins, OF _ zs(2) z(2)])
    fix b s t t'
    assume b: "b \<in> set (cm_decoder model)" "joins s t" "block_full b t = Inr t'"
    show "\<exists>s'. decoder_online b s = Inr s' \<and> joins s' t'"
    proof (cases b)
      case (ConvBlock m)
      with b assms(1) have "conv_ok m" "causal_conv_full m t = Inr t'"
        by (auto simp: model_ok_def block_full_def)
      from conv_online [OF this b(2)] show ?thesis using ConvBlock by (auto simp: decoder_online_def)
    next
      case (StageBlock st)
      with b assms(1) have "stage_ok st" "stage_full st t = Inr t'"
        by (auto simp: model_ok_def block_full_def)
      from stage_online [OF this b(2)] show ?thesis using StageBlock by (simp add: decoder_online_def)
    next
      case (SnakeBlock f)
      with b joins_map [OF b(2), of f] show ?thesis by (auto simp: decoder_online_def block_full_def)
    qed (use b(3) in \<open>simp add: block_full_def\<close>)
  qed
  then show ?thesis using zs(1) by (simp add: convnet_stream_online_def)
qed

section \<open>The pre-transformer\<close>

lemma pre_chunks:
  assumes "layers_ok (pm_layers pm)" and "covers cs codes"
  shows "\<exists>outs. pre_transformer_stream_chunks pm codes cs = Inr outs
    \<and> joins outs (pre_transformer_full pm codes)"
proof -
  note fs = pre_transformer_causal_stream [OF assms(1)]
  from causal_stream.parts_full [OF frame_stream.axioms(1) [OF fs], of 0 "cut codes cs"]
  obtain outs sts where o: "for_parts (\<lambda>i off part states.
      let (hidden, states) = layers_step (pm_layers pm) (map (pm_embed pm) part) states off
      in Inr (map (pm_norm pm) hidden, states) :: c2w_error + _) 0 0
      (map (\<lambda>ly. empty_attention_state) (pm_layers pm)) (cut codes cs) = Inr (outs, sts)"
    "concat outs = pre_transformer_full pm codes"
    by (auto simp: concat_cut [OF assms(2)])
  have l: "map length outs = map length (filter (\<lambda>p. p \<noteq> []) (cut codes cs))"
    using frame_stream.parts_lengths [OF fs o(1)] .
  have "joins outs (concat outs)"
    by (rule joins_lengths [of "filter (\<lambda>p. p \<noteq> []) (cut codes cs)", OF _ l]) (simp add: joins_def)
  then show ?thesis
    using for_chunks_cut [OF assms(2) o(1)] o(2)
    by (simp add: pre_transformer_stream_chunks_def)
qed

lemma pre_full_length:
  "layers_ok (pm_layers pm) \<Longrightarrow> length (pre_transformer_full pm codes) = length codes"
  using frame_stream.full_length [OF pre_transformer_causal_stream] by blast

end
