(* ===== verification/Code2Wav_Gate.thy ===== *)
theory Code2Wav_Gate
  imports Code2Wav_Model_Props
begin

text \<open>
  The product gate \<^verbatim>\<open>scripts/qwen3_tts_code2wav_stateful_real_gate.py\<close>: the online decoder of
  the tokenizer-12Hz model, with its own chunk loops (which do not skip empty parts), attention
  cache and layer step.  Module fields are as in the reference; \<open>qm_decode\<close> is the quantizer's
  frame-wise code lookup.
\<close>

section \<open>Definitions\<close>

text \<open>The emit step has the same body as the reference's.\<close>

definition rg_transposed_conv_emit_step ::
  "'f::comm_monoid_add tconv_mod \<Rightarrow> 'f list \<Rightarrow> 'f tconv_state \<Rightarrow> bool \<Rightarrow> 'f list \<times> 'f tconv_state" where
  "rg_transposed_conv_emit_step m x state final =
     (let stride = int (tc_stride m);
          left_pad = int (tc_left_pad m);
          right_pad = int (tc_right_pad m);
          raw = tc_fn m x;
          start = input_offset state * stride;
          raw_len = max (int (length (raw_acc state))) (start + int (length raw));
          raw_accum = (if raw_len > int (length (raw_acc state)) then grow (nat raw_len) (raw_acc state)
                       else raw_acc state);
          raw_accum = add_segment (nat start) raw raw_accum;
          next_input_offset = input_offset state + int (length x);
          stable_trimmed_end =
            (if final then max 0 (int (length raw_accum) - right_pad - left_pad)
             else max 0 (next_input_offset * stride - left_pad));
          emit_start = emitted_trimmed state;
          emit_end = max emit_start stable_trimmed_end;
          y = py_slice raw_accum (left_pad + emit_start) (left_pad + emit_end);
          y = (if y \<noteq> [] then add_bias (tc_bias m) y else y)
      in (y, \<lparr>raw_acc = raw_accum, emitted_trimmed = emit_end, input_offset = next_input_offset\<rparr>))"

definition rg_transposed_conv_stream_chunks ::
  "'f::comm_monoid_add tconv_mod \<Rightarrow> 'f list list \<Rightarrow> c2w_error + 'f list list" where
  "rg_transposed_conv_stream_chunks m chunks =
     (if chunks = [] then Inr []
      else res_bind (rg_for_parts (\<lambda>index part state.
               Inr (rg_transposed_conv_emit_step m part state (int index = int (length chunks) - 1)))
               0 tconv_init chunks)
             (\<lambda>(outs, state). Inr (filter (\<lambda>y. y \<noteq> []) outs)))"

text \<open>Grouped-query attention repeats each key/value head.\<close>

definition repeat_kv :: "'h list \<Rightarrow> nat \<Rightarrow> 'h list" where
  "repeat_kv heads n_rep = (if n_rep = 1 then heads else concat (map (replicate n_rep) heads))"

record ('f, 'q, 'k, 'v) rg_layer =
  rl_input_layernorm :: "'f \<Rightarrow> 'f"
  rl_self_attn :: "('f, 'q, 'k, 'v) attn_mod"
  rl_self_attn_layer_scale :: "'f \<Rightarrow> 'f"
  rl_post_attention_layernorm :: "'f \<Rightarrow> 'f"
  rl_mlp :: "'f \<Rightarrow> 'f"
  rl_mlp_layer_scale :: "'f \<Rightarrow> 'f"

definition rg_tail :: "('f::plus, 'q, 'k, 'v) rg_layer \<Rightarrow> 'f \<Rightarrow> 'f" where
  "rg_tail ly x = x + rl_mlp_layer_scale ly (rl_mlp ly (rl_post_attention_layernorm ly x))"

definition rg_transformer_layer_step ::
  "('f::plus, 'q, 'k, 'v) rg_layer \<Rightarrow> 'f list \<Rightarrow> ('k, 'v) attn_state \<Rightarrow> int list
     \<Rightarrow> 'f list \<times> ('k, 'v) attn_state" where
  "rg_transformer_layer_step ly hidden state positions =
     (let residual = hidden;
          h = map (rl_input_layernorm ly) hidden;
          (h, attn_state) = rg_attention_step (rl_self_attn ly) h state positions;
          hidden = map2 (\<lambda>r y. r + rl_self_attn_layer_scale ly y) residual h
      in (map (rg_tail ly) hidden, attn_state))"

fun rg_layers_step ::
  "('f::plus, 'q, 'k, 'v) rg_layer list \<Rightarrow> 'f list \<Rightarrow> ('k, 'v) attn_state list \<Rightarrow> int list
     \<Rightarrow> 'f list \<times> ('k, 'v) attn_state list" where
  "rg_layers_step (ly # lys) hidden (st # sts) positions =
     (let (hidden, st') = rg_transformer_layer_step ly hidden st positions;
          (hidden, sts') = rg_layers_step lys hidden sts positions
      in (hidden, st' # sts'))"
| "rg_layers_step _ hidden sts positions = (hidden, sts)"

record ('f, 'q, 'k, 'v) rg_pre =
  rp_input_proj :: "'f \<Rightarrow> 'f"
  rp_layers :: "('f, 'q, 'k, 'v) rg_layer list"
  rp_norm :: "'f \<Rightarrow> 'f"
  rp_output_proj :: "'f \<Rightarrow> 'f"

text \<open>The state of the chunk loop: the layer states and the offset.\<close>

definition rg_pre_body ::
  "('f::plus, 'q, 'k, 'v) rg_pre \<Rightarrow> 'f list \<Rightarrow> ('k, 'v) attn_state list \<times> int
     \<Rightarrow> c2w_error + 'f list \<times> ('k, 'v) attn_state list \<times> int" where
  "rg_pre_body pre part = (\<lambda>(states, offset).
     let hidden = map (rp_input_proj pre) part;
         positions = positions_from offset (length hidden);
         (hidden, states) = rg_layers_step (rp_layers pre) hidden states positions;
         hidden = map (rp_output_proj pre) (map (rp_norm pre) hidden)
     in Inr (hidden, states, offset + int (length hidden)))"

definition rg_pre_transformer_stream_chunks ::
  "('f::plus, 'q, 'k, 'v) rg_pre \<Rightarrow> 'f list list \<Rightarrow> c2w_error + 'f list list" where
  "rg_pre_transformer_stream_chunks pre chunks =
     (if chunks = [] then Inr []
      else res_bind (rg_for_parts (\<lambda>index. rg_pre_body pre) 0
               (map (\<lambda>ly. empty_attention_state) (rp_layers pre), 0) chunks)
             (\<lambda>(outs, st). Inr outs))"

definition rg_convnext_stream_chunks ::
  "'f::{comm_monoid_add,times} convnext_mod \<Rightarrow> 'f list list \<Rightarrow> c2w_error + 'f list list" where
  "rg_convnext_stream_chunks block chunks =
     res_bind (rg_causal_conv_stream_chunks (cx_dwconv block) chunks) (\<lambda>conv.
     res_bind (zip_strict chunks conv) (\<lambda>ps.
       Inr (map (\<lambda>(residual, y). map2 (\<lambda>r y. r + convnext_point block y) residual y) ps)))"

definition rg_decoder_residual_unit_stream_chunks ::
  "'f::comm_monoid_add unit_mod \<Rightarrow> 'f list list \<Rightarrow> c2w_error + 'f list list" where
  "rg_decoder_residual_unit_stream_chunks unit chunks =
     res_bind (rg_causal_conv_stream_chunks (ru_conv1 unit) (map (map (ru_act1 unit)) chunks)) (\<lambda>y.
     res_bind (rg_causal_conv_stream_chunks (ru_conv2 unit) (map (map (ru_act2 unit)) y)) (\<lambda>y.
     res_bind (zip_strict chunks y) (\<lambda>ps.
       Inr (map (\<lambda>(residual, part). map2 (+) residual part) ps))))"

definition rg_decoder_block_stream_chunks ::
  "'f::comm_monoid_add stage_mod \<Rightarrow> 'f list list \<Rightarrow> c2w_error + 'f list list" where
  "rg_decoder_block_stream_chunks block chunks =
     res_bind (rg_transposed_conv_stream_chunks (ds_tconv block) (map (map (ds_act block)) chunks))
       (res_fold rg_decoder_residual_unit_stream_chunks (ds_units block))"

definition rg_upsample ::
  "'f::{comm_monoid_add,times} tconv_mod \<times> 'f convnext_mod \<Rightarrow> 'f list list \<Rightarrow> c2w_error + 'f list list" where
  "rg_upsample = (\<lambda>(tconv, block) chunks.
     res_bind (rg_transposed_conv_stream_chunks tconv chunks) (rg_convnext_stream_chunks block))"

definition rg_decoder ::
  "'f::comm_monoid_add dec_block \<Rightarrow> 'f list list \<Rightarrow> c2w_error + 'f list list" where
  "rg_decoder block chunks =
     (case block of
        ConvBlock m \<Rightarrow> rg_causal_conv_stream_chunks m chunks
      | StageBlock stage \<Rightarrow> rg_decoder_block_stream_chunks stage chunks
      | SnakeBlock f \<Rightarrow> Inr (map (map f) chunks)
      | OtherBlock \<Rightarrow> Inl UnhandledBlock)"

record ('c, 'f, 'q, 'k, 'v) rg_model =
  qm_decode :: "'c \<Rightarrow> 'f"
  qm_pre_conv :: "'f conv_mod"
  qm_pre :: "('f, 'q, 'k, 'v) rg_pre"
  qm_upsample :: "('f tconv_mod \<times> 'f convnext_mod) list"
  qm_decoder :: "'f dec_block list"
  qm_clamp :: "'f \<Rightarrow> 'f"

text \<open>
  \<^verbatim>\<open>[codes[..., start : start + n] for start in range(0, T, n)]\<close>: a step of zero raises, a
  negative one gives no chunk.
\<close>

definition code_chunks :: "'c list \<Rightarrow> int \<Rightarrow> c2w_error + 'c list list" where
  "code_chunks codes n =
     (if n = 0 then Inl RangeStepZero
      else if n < 0 then Inr []
      else Inr (map (\<lambda>i. py_slice codes (int i * n) (int i * n + n))
                 [0..<nat ((int (length codes) + n - 1) div n)]))"

definition rg_code2wav_online ::
  "('c, 'f::{comm_monoid_add,times}, 'q, 'k, 'v) rg_model \<Rightarrow> 'c list \<Rightarrow> int \<Rightarrow> c2w_error + 'f list" where
  "rg_code2wav_online model codes chunk_frames =
     res_bind (code_chunks codes chunk_frames) (\<lambda>chunks.
     res_bind (rg_causal_conv_stream_chunks (qm_pre_conv model) (map (map (qm_decode model)) chunks)) (\<lambda>chunks.
     res_bind (rg_pre_transformer_stream_chunks (qm_pre model) chunks) (\<lambda>chunks.
     res_bind (res_fold rg_upsample (qm_upsample model) chunks) (\<lambda>chunks.
     res_bind (res_fold rg_decoder (qm_decoder model) chunks) (\<lambda>chunks.
     res_bind (torch_cat chunks) (\<lambda>wav. Inr (map (qm_clamp model) wav)))))))"

section \<open>The full model\<close>

definition rg_layer_full :: "('f::plus, 'q, 'k, 'v) rg_layer \<Rightarrow> 'f list \<Rightarrow> 'f list" where
  "rg_layer_full ly x =
     map (rg_tail ly)
       (map2 (\<lambda>r y. r + rl_self_attn_layer_scale ly y) x
         (attention_full (rl_self_attn ly) (map (rl_input_layernorm ly) x)))"

definition rg_pre_full :: "('f::plus, 'q, 'k, 'v) rg_pre \<Rightarrow> 'f list \<Rightarrow> 'f list" where
  "rg_pre_full pre x =
     map (rp_output_proj pre) (map (rp_norm pre)
       (fold rg_layer_full (rp_layers pre) (map (rp_input_proj pre) x)))"

definition rg_full ::
  "('c, 'f::{comm_monoid_add,times}, 'q, 'k, 'v) rg_model \<Rightarrow> 'c list \<Rightarrow> c2w_error + 'f list" where
  "rg_full model codes =
     res_bind (causal_conv_full (qm_pre_conv model) (map (qm_decode model) codes)) (\<lambda>h.
     res_bind (res_fold upsample_full (qm_upsample model) (rg_pre_full (qm_pre model) h)) (\<lambda>h.
     res_bind (res_fold block_full (qm_decoder model) h) (\<lambda>wav. Inr (map (qm_clamp model) wav))))"

definition rg_model_ok :: "('c, 'f::{comm_monoid_add,times}, 'q, 'k, 'v) rg_model \<Rightarrow> bool" where
  "rg_model_ok model \<longleftrightarrow> conv_ok (qm_pre_conv model)
     \<and> (\<forall>ly\<in>set (rp_layers (qm_pre model)). masked_no_weight (rl_self_attn ly))
     \<and> (\<forall>(t, b)\<in>set (qm_upsample model). tconv_ok t \<and> conv_ok (cx_dwconv b))
     \<and> (\<forall>b\<in>set (qm_decoder model).
          (\<forall>m. b = ConvBlock m \<longrightarrow> conv_ok m) \<and> (\<forall>st. b = StageBlock st \<longrightarrow> stage_ok st))"

end
