(* ===== verification/Code2Wav_Gate_Props.thy ===== *)
theory Code2Wav_Gate_Props
  imports Code2Wav_Gate
begin

text \<open>
  The product gate's online decoder equals its full model for every positive chunk size.  On
  non-empty chunks its loops are the reference's, so the stage lemmas carry over.
\<close>

section \<open>Loops over non-empty parts\<close>

lemma rg_for_parts_eq:
  assumes "\<forall>p\<in>set ps. p \<noteq> []"
  shows "rg_for_parts body i st ps = for_parts (\<lambda>i off. body i) i off st ps"
  using assms
proof (induction ps arbitrary: i st off)
  case (Cons p ps)
  have IH: "rg_for_parts body (Suc i) st' ps =
      for_parts (\<lambda>i off. body i) (Suc i) (off + int (length p)) st' ps" for st'
    using Cons by simp
  show ?case using Cons.prems unfolding rg_for_parts.simps for_parts.simps IH by simp
qed simp

lemma rg_loop: "joins ps x \<Longrightarrow> rg_for_parts body i st ps = for_parts (\<lambda>i off. body i) i 0 st ps"
  by (rule rg_for_parts_eq) (simp add: joins_def)

lemma rg_conv_step_eq:
  assumes "valid_conv m g" and "conv_rep m xs st"
  shows "rg_causal_conv_step m ys st = causal_conv_step m ys st"
  using assms
  by (simp add: rg_causal_conv_step_def causal_conv_step_def conv_rep_def py_slice_def py_index_def Let_def)

lemma rg_conv_frame_stream:
  assumes "valid_conv m g"
  shows "frame_stream (\<lambda>off. rg_causal_conv_step m) (conv_init m) (conv_rep m)
    (causal_frames (conv_padding m) g)"
proof -
  note fs = conv_frame_stream [OF assms]
  note cs = frame_stream.axioms(1) [OF fs]
  show ?thesis
  proof
    fix xs ys :: "'a list" and st
    assume a: "conv_rep m xs st" "ys \<noteq> []"
    show "\<exists>out s'. rg_causal_conv_step m ys st = Inr (out, s') \<and> conv_rep m (xs @ ys) s'
      \<and> causal_frames (conv_padding m) g (xs @ ys) = causal_frames (conv_padding m) g xs @ out"
      unfolding rg_conv_step_eq [OF assms a(1)] by (rule causal_stream.step_ok [OF cs a])
  qed (rule causal_stream.rep_init [OF cs] causal_stream.full_Nil [OF cs]
        frame_stream.full_length [OF fs])+
qed

lemma rg_conv_online:
  assumes "conv_ok m" and "causal_conv_full m x = Inr y" and "joins cs x"
  obtains ys where "rg_causal_conv_stream_chunks m cs = Inr ys" "joins ys y"
    "map length ys = map length cs"
proof -
  have x: "x \<noteq> []" using assms(2) by (auto simp: causal_conv_full_def)
  obtain g where g: "valid_conv m g" using assms(1) by (auto simp: conv_ok_def)
  note fs = rg_conv_frame_stream [OF g]
  from causal_stream.parts_full [OF frame_stream.axioms(1) [OF fs], of 0 cs] obtain ys s' where
    ys: "for_parts (\<lambda>i off. rg_causal_conv_step m) 0 0 (conv_init m) cs = Inr (ys, s')"
      "concat ys = causal_frames (conv_padding m) g (concat cs)"
    by blast
  have l: "map length ys = map length cs"
    using frame_stream.parts_lengths [OF fs ys(1)] joins_filter [OF assms(3)] by simp
  have "concat ys = y"
    using ys(2) assms(2,3) causal_conv_full_frames [OF g x] by (simp add: joins_def)
  then have "joins ys y" using joins_lengths [OF assms(3) l] by simp
  moreover have "rg_causal_conv_stream_chunks m cs = Inr ys"
    using ys(1) joins_last [OF assms(3) x]
    by (simp add: rg_causal_conv_stream_chunks_def rg_loop [OF assms(3)])
  ultimately show ?thesis using that l by blast
qed

lemma rg_emit_step_eq: "rg_transposed_conv_emit_step = transposed_conv_emit_step"
  unfolding fun_eq_iff rg_transposed_conv_emit_step_def transposed_conv_emit_step_def
  by (intro allI) (rule refl)

lemma rg_tconv_online:
  assumes "tconv_ok m" and "tconv_full m x = Inr y" and "joins cs x"
  obtains ys where "rg_transposed_conv_stream_chunks m cs = Inr ys" "joins ys y"
proof -
  have "rg_transposed_conv_stream_chunks m cs = transposed_conv_stream_emit_chunks m cs"
    by (simp add: rg_transposed_conv_stream_chunks_def transposed_conv_stream_emit_chunks_def
        rg_emit_step_eq rg_loop [OF assms(3)])
  then show ?thesis using tconv_online [OF assms] that by auto
qed

lemma rg_convnext_online:
  assumes "conv_ok (cx_dwconv b)" and "convnext_full b x = Inr y" and "joins cs x"
  shows "\<exists>ys. rg_convnext_stream_chunks b cs = Inr ys \<and> joins ys y"
proof -
  from assms(2) obtain z where z: "causal_conv_full (cx_dwconv b) x = Inr z"
    "y = map2 (\<lambda>r y. r + convnext_point b y) x z"
    by (auto simp: convnext_full_def)
  obtain zs where zs: "rg_causal_conv_stream_chunks (cx_dwconv b) cs = Inr zs" "joins zs z"
    "map length zs = map length cs"
    by (rule rg_conv_online [OF assms(1) z(1) assms(3)])
  show ?thesis
    using zs(1,2) residual_joins(1) [OF assms(3) zs(3)]
      residual_joins(2) [OF assms(3) zs(3), of "\<lambda>r y. r + convnext_point b y"] z(2)
    by (simp add: rg_convnext_stream_chunks_def joins_def)
qed

lemma rg_unit_online:
  assumes "conv_ok (ru_conv1 u)" and "conv_ok (ru_conv2 u)" and "unit_full u x = Inr y"
    and "joins cs x"
  shows "\<exists>ys. rg_decoder_residual_unit_stream_chunks u cs = Inr ys \<and> joins ys y"
proof -
  from assms(3) obtain y1 y2 where
    y: "causal_conv_full (ru_conv1 u) (map (ru_act1 u) x) = Inr y1"
      "causal_conv_full (ru_conv2 u) (map (ru_act2 u) y1) = Inr y2" "y = map2 (+) x y2"
    by (auto simp: unit_full_def)
  obtain c1 where c1: "rg_causal_conv_stream_chunks (ru_conv1 u) (map (map (ru_act1 u)) cs) = Inr c1"
    "joins c1 y1" "map length c1 = map length (map (map (ru_act1 u)) cs)"
    by (rule rg_conv_online [OF assms(1) y(1) joins_map [OF assms(4)]])
  obtain c2 where c2: "rg_causal_conv_stream_chunks (ru_conv2 u) (map (map (ru_act2 u)) c1) = Inr c2"
    "joins c2 y2" "map length c2 = map length (map (map (ru_act2 u)) c1)"
    by (rule rg_conv_online [OF assms(2) y(2) joins_map [OF c1(2)]])
  have l: "map length c2 = map length cs" using c1(3) c2(3) by (simp add: o_def)
  note r = residual_joins(1) [OF assms(4) l] residual_joins(2) [OF assms(4) l, of "(+)"]
  show ?thesis
    using c1(1) c2(1,2) r y(3) by (simp add: rg_decoder_residual_unit_stream_chunks_def joins_def)
qed

lemma rg_stage_online:
  assumes "stage_ok st" and "stage_full st x = Inr y" and "joins cs x"
  shows "\<exists>ys. rg_decoder_block_stream_chunks st cs = Inr ys \<and> joins ys y"
proof -
  from assms(2) obtain z where z: "tconv_full (ds_tconv st) (map (ds_act st) x) = Inr z"
    "res_fold unit_full (ds_units st) z = Inr y"
    by (auto simp: stage_full_def)
  have "tconv_ok (ds_tconv st)" using assms(1) by (simp add: stage_ok_def)
  from rg_tconv_online [OF this z(1) joins_map [OF assms(3)]] obtain zs where
    zs: "rg_transposed_conv_stream_chunks (ds_tconv st) (map (map (ds_act st)) cs) = Inr zs" "joins zs z" .
  have "\<exists>s'. res_fold rg_decoder_residual_unit_stream_chunks (ds_units st) zs = Inr s' \<and> joins s' y"
  proof (rule res_fold_simulation [where R = joins, OF _ zs(2) z(2)])
    fix u s t t'
    assume "u \<in> set (ds_units st)" "joins s t" "unit_full u t = Inr t'"
    then show "\<exists>s'. rg_decoder_residual_unit_stream_chunks u s = Inr s' \<and> joins s' t'"
      using assms(1) rg_unit_online [of u t t' s] by (simp add: stage_ok_def)
  qed
  then show ?thesis using zs(1) by (simp add: rg_decoder_block_stream_chunks_def)
qed

section \<open>Layers\<close>

lemma rg_attention_step_ok:
  assumes "masked_no_weight m" and "attn_rep m xs st" and "ys \<noteq> []" and "length ys = n"
  obtains out st' where "rg_attention_step m ys st (positions_from (int (length xs)) n) = (out, st')"
    "attn_rep m (xs @ ys) st'" "attention_full m (xs @ ys) = attention_full m xs @ out"
    "length out = n"
proof -
  note fs = rg_attention_frame_stream [OF assms(1)]
  from causal_stream.step_ok [OF frame_stream.axioms(1) [OF fs] assms(2,3)]
  obtain out st' where 1: "rg_attention_step m ys st (positions_from (int (length xs)) (length ys)) = (out, st')"
    "attn_rep m (xs @ ys) st'" "attention_full m (xs @ ys) = attention_full m xs @ out"
    by blast
  moreover have "length out = length ys"
    using frame_stream.step_length [OF fs assms(2,3), of out st'] 1(1) by simp
  ultimately show ?thesis using that assms(4) by blast
qed

fun rg_layers_rep ::
  "('f::plus, 'q, 'k, 'v) rg_layer list \<Rightarrow> 'f list \<Rightarrow> ('k, 'v) attn_state list \<Rightarrow> bool" where
  "rg_layers_rep [] xs sts = (sts = [])"
| "rg_layers_rep (ly # lys) xs [] = False"
| "rg_layers_rep (ly # lys) xs (st # sts) =
     (attn_rep (rl_self_attn ly) (map (rl_input_layernorm ly) xs) st
      \<and> rg_layers_rep lys (rg_layer_full ly xs) sts)"

lemma length_rg_layer_full [simp]: "length (rg_layer_full ly x) = length x"
  by (simp add: rg_layer_full_def attention_full_def)

lemma rg_layer_step_ok:
  assumes "masked_no_weight (rl_self_attn ly)"
    and "attn_rep (rl_self_attn ly) (map (rl_input_layernorm ly) xs) st" and "ys \<noteq> []" and "length ys = n"
  obtains out st' where
    "rg_transformer_layer_step ly ys st (positions_from (int (length xs)) n) = (out, st')"
    "attn_rep (rl_self_attn ly) (map (rl_input_layernorm ly) (xs @ ys)) st'"
    "rg_layer_full ly (xs @ ys) = rg_layer_full ly xs @ out" "length out = n"
proof -
  let ?ln = "map (rl_input_layernorm ly)"
  from assms(3,4) have ys: "?ln ys \<noteq> []" "length (?ln ys) = n" by simp_all
  obtain h st' where
    h: "rg_attention_step (rl_self_attn ly) (?ln ys) st (positions_from (int (length (?ln xs))) n) = (h, st')"
      "attn_rep (rl_self_attn ly) (?ln xs @ ?ln ys) st'"
      "attention_full (rl_self_attn ly) (?ln xs @ ?ln ys) = attention_full (rl_self_attn ly) (?ln xs) @ h"
      "length h = n"
    by (rule rg_attention_step_ok [OF assms(1,2) ys])
  have l: "length (attention_full (rl_self_attn ly) (?ln xs)) = length xs" by (simp add: attention_full_def)
  let ?out = "map (rg_tail ly) (map2 (\<lambda>r y. r + rl_self_attn_layer_scale ly y) ys h)"
  have "rg_layer_full ly (xs @ ys) = rg_layer_full ly xs @ ?out"
    using h(3) l h(4) by (simp add: rg_layer_full_def)
  then show ?thesis
    using that [of ?out st'] h assms(4) by (simp add: rg_transformer_layer_step_def Let_def)
qed

lemma rg_layers_step_ok:
  assumes "\<forall>ly\<in>set lys. masked_no_weight (rl_self_attn ly)" and "rg_layers_rep lys xs sts"
    and "ys \<noteq> []" and "length ys = n"
  shows "\<exists>out sts'. rg_layers_step lys ys sts (positions_from (int (length xs)) n) = (out, sts')
    \<and> rg_layers_rep lys (xs @ ys) sts' \<and> length out = n
    \<and> fold rg_layer_full lys (xs @ ys) = fold rg_layer_full lys xs @ out"
  using assms
proof (induction lys arbitrary: xs ys sts)
  case (Cons ly lys)
  then obtain st sts0 where sts: "sts = st # sts0"
    "attn_rep (rl_self_attn ly) (map (rl_input_layernorm ly) xs) st"
    "rg_layers_rep lys (rg_layer_full ly xs) sts0"
    by (cases sts) auto
  from Cons.prems(1) have m: "masked_no_weight (rl_self_attn ly)" by simp
  obtain o1 st' where
    1: "rg_transformer_layer_step ly ys st (positions_from (int (length xs)) n) = (o1, st')"
      "attn_rep (rl_self_attn ly) (map (rl_input_layernorm ly) (xs @ ys)) st'"
      "rg_layer_full ly (xs @ ys) = rg_layer_full ly xs @ o1" "length o1 = n"
    by (rule rg_layer_step_ok [OF m sts(2) Cons.prems(3,4)])
  then have "o1 \<noteq> []" using Cons.prems(3,4) by auto
  from Cons.IH [OF _ sts(3) this 1(4)] Cons.prems(1) 1 obtain o2 sts' where
    "rg_layers_step lys o1 sts0 (positions_from (int (length xs)) n) = (o2, sts')" "length o2 = n"
    "rg_layers_rep lys (rg_layer_full ly (xs @ ys)) sts'"
    "fold rg_layer_full lys (rg_layer_full ly (xs @ ys)) = fold rg_layer_full lys (rg_layer_full ly xs) @ o2"
    by auto
  then show ?case using 1 sts(1) by simp
qed auto

definition rg_pre_rep ::
  "('f::plus, 'q, 'k, 'v) rg_pre \<Rightarrow> 'f list \<Rightarrow> ('k, 'v) attn_state list \<times> int \<Rightarrow> bool" where
  "rg_pre_rep pre xs st \<longleftrightarrow>
     rg_layers_rep (rp_layers pre) (map (rp_input_proj pre) xs) (fst st) \<and> snd st = int (length xs)"

lemma rg_fold_length: "length (fold rg_layer_full lys x) = length x"
  by (induction lys arbitrary: x) simp_all

lemma rg_pre_frame_stream:
  fixes pre :: "('f::plus, 'q, 'k, 'v) rg_pre"
  assumes "\<forall>ly\<in>set (rp_layers pre). masked_no_weight (rl_self_attn ly)"
  shows "frame_stream (\<lambda>off. rg_pre_body pre) (map (\<lambda>ly. empty_attention_state) (rp_layers pre), 0)
    (rg_pre_rep pre) (rg_pre_full pre)"
proof
  fix xs ys :: "'f list" and st
  assume a: "rg_pre_rep pre xs st" "ys \<noteq> []"
  let ?in = "map (rp_input_proj pre)"
  obtain sts off where st: "st = (sts, off)" by (cases st)
  have r: "rg_layers_rep (rp_layers pre) (?in xs) sts" "off = int (length xs)"
    using a(1) st by (simp_all add: rg_pre_rep_def)
  have ys: "?in ys \<noteq> []" "length (?in ys) = length ys" using a(2) by simp_all
  from rg_layers_step_ok [OF assms r(1) ys] obtain out sts' where
    o: "rg_layers_step (rp_layers pre) (?in ys) sts (positions_from (int (length xs)) (length ys)) = (out, sts')"
      "rg_layers_rep (rp_layers pre) (?in (xs @ ys)) sts'" "length out = length ys"
      "fold rg_layer_full (rp_layers pre) (?in (xs @ ys)) = fold rg_layer_full (rp_layers pre) (?in xs) @ out"
    by auto
  show "\<exists>out s'. rg_pre_body pre ys st = Inr (out, s') \<and> rg_pre_rep pre (xs @ ys) s'
    \<and> rg_pre_full pre (xs @ ys) = rg_pre_full pre xs @ out"
    using o st r(2) by (simp add: rg_pre_body_def Let_def rg_pre_rep_def rg_pre_full_def)
next
  have "rg_layers_rep lys ([] :: 'f list) (map (\<lambda>ly. empty_attention_state) lys)"
    for lys :: "('f, 'q, 'k, 'v) rg_layer list"
    by (induction lys) (simp_all add: attn_rep_def empty_attention_state_def rg_layer_full_def)
  then show "rg_pre_rep pre [] (map (\<lambda>ly. empty_attention_state) (rp_layers pre), 0)"
    by (simp add: rg_pre_rep_def)
  show "length (rg_pre_full pre xs) = length xs" for xs
    by (simp add: rg_pre_full_def rg_fold_length)
  then show "rg_pre_full pre [] = []" by (metis length_0_conv)
qed

lemma rg_pre_online:
  assumes "\<forall>ly\<in>set (rp_layers pre). masked_no_weight (rl_self_attn ly)" and "joins cs x"
  obtains ys where "rg_pre_transformer_stream_chunks pre cs = Inr ys" "joins ys (rg_pre_full pre x)"
proof -
  note fs = rg_pre_frame_stream [OF assms(1)]
  from causal_stream.parts_full [OF frame_stream.axioms(1) [OF fs], of 0 cs] obtain ys s' where
    ys: "for_parts (\<lambda>i off. rg_pre_body pre) 0 0 (map (\<lambda>ly. empty_attention_state) (rp_layers pre), 0) cs
        = Inr (ys, s')" "concat ys = rg_pre_full pre (concat cs)"
    by blast
  have l: "map length ys = map length cs"
    using frame_stream.parts_lengths [OF fs ys(1)] joins_filter [OF assms(2)] by simp
  have "joins ys (rg_pre_full pre x)"
    using joins_lengths [OF assms(2) l] ys(2) assms(2) by (simp add: joins_def)
  moreover have "rg_pre_transformer_stream_chunks pre cs = Inr ys"
    using ys(1) by (cases "cs = []") (simp_all add: rg_pre_transformer_stream_chunks_def rg_loop [OF assms(2)])
  ultimately show ?thesis using that by blast
qed

section \<open>The whole gate\<close>

lemma code_chunks_joins:
  assumes "0 < n"
  obtains cs where "code_chunks codes n = Inr cs" "joins cs codes"
proof -
  obtain k where k: "n = int k" "0 < k" using assms by (metis nonneg_int_cases less_imp_le of_nat_0_less_iff)
  define q where "q = (length codes + k - 1) div k"
  have q: "nat ((int (length codes) + n - 1) div n) = q"
    using k(2) unfolding k(1) q_def by (simp add: nat_div_distrib nat_diff_distrib' flip: of_nat_add of_nat_Suc)
  have part: "py_slice codes (int i * n) (int i * n + n) = take k (drop (i * k) codes)" for i
    using py_slice_nat [of codes "i * k" k] by (simp add: k(1))
  have cat: "concat (map (\<lambda>i. take k (drop (i * k) codes)) [0..<r]) = take (r * k) codes" for r
    by (induction r) (simp_all add: add.commute flip: take_add)
  have "length codes \<le> q * k"
  proof -
    have "length codes + k - 1 < q * k + k" unfolding q_def using k(2)
      by (metis add.commute dividend_less_div_times mult.commute)
    then show ?thesis using k(2) by linarith
  qed
  moreover have "take k (drop (i * k) codes) \<noteq> []" if "i < q" for i
  proof -
    have "(i + 1) * k \<le> q * k" using that by (intro mult_right_mono) auto
    also have "\<dots> \<le> length codes + k - 1" unfolding q_def by simp
    finally have "i * k < length codes" using k(2) by simp
    then show ?thesis using k(2) by simp
  qed
  ultimately have "joins (map (\<lambda>i. take k (drop (i * k) codes)) [0..<q]) codes"
    using cat [of q] by (auto simp: joins_def simp del: take_eq_Nil)
  then show ?thesis
    using that assms by (simp add: code_chunks_def q part)
qed

lemma rg_upsample_online:
  assumes "\<forall>(t, b)\<in>set ups. tconv_ok t \<and> conv_ok (cx_dwconv b)"
    and "res_fold upsample_full ups x = Inr y" and "joins cs x"
  shows "\<exists>ys. res_fold rg_upsample ups cs = Inr ys \<and> joins ys y"
proof (rule res_fold_simulation [where R = joins, OF _ assms(3,2)])
  fix a s t t'
  assume a: "a \<in> set ups" "joins s t" "upsample_full a t = Inr t'"
  obtain tc b where ab: "a = (tc, b)" by (cases a)
  with a assms(1) have ok: "tconv_ok tc" "conv_ok (cx_dwconv b)" by auto
  from a(3) ab obtain u where u: "tconv_full tc t = Inr u" "convnext_full b u = Inr t'"
    by (auto simp: upsample_full_def)
  obtain us where "rg_transposed_conv_stream_chunks tc s = Inr us" "joins us u"
    by (rule rg_tconv_online [OF ok(1) u(1) a(2)])
  then show "\<exists>s'. rg_upsample a s = Inr s' \<and> joins s' t'"
    using rg_convnext_online [OF ok(2) u(2)] ab by (simp add: rg_upsample_def)
qed

lemma rg_decoder_online:
  assumes "\<forall>b\<in>set dec. (\<forall>m. b = ConvBlock m \<longrightarrow> conv_ok m) \<and> (\<forall>st. b = StageBlock st \<longrightarrow> stage_ok st)"
    and "res_fold block_full dec x = Inr y" and "joins cs x"
  shows "\<exists>ys. res_fold rg_decoder dec cs = Inr ys \<and> joins ys y"
proof (rule res_fold_simulation [where R = joins, OF _ assms(3,2)])
  fix b s t t'
  assume b: "b \<in> set dec" "joins s t" "block_full b t = Inr t'"
  show "\<exists>s'. rg_decoder b s = Inr s' \<and> joins s' t'"
  proof (cases b)
    case (ConvBlock m)
    with b assms(1) have "conv_ok m" "causal_conv_full m t = Inr t'"
      by (auto simp: block_full_def)
    from rg_conv_online [OF this b(2)] show ?thesis using ConvBlock by (auto simp: rg_decoder_def)
  next
    case (StageBlock st)
    with b assms(1) have "stage_ok st" "stage_full st t = Inr t'"
      by (auto simp: block_full_def)
    from rg_stage_online [OF this b(2)] show ?thesis using StageBlock by (simp add: rg_decoder_def)
  next
    case (SnakeBlock f)
    with b joins_map [OF b(2), of f] show ?thesis by (auto simp: rg_decoder_def block_full_def)
  qed (use b(3) in \<open>simp add: block_full_def\<close>)
qed

lemma rg_online_full:
  assumes "rg_model_ok model" and "0 < n" and "rg_full model codes = Inr wav" and "wav \<noteq> []"
  shows "rg_code2wav_online model codes n = Inr wav"
proof -
  from assms(3) obtain h1 h2 h3 where
    h: "causal_conv_full (qm_pre_conv model) (map (qm_decode model) codes) = Inr h1"
      "res_fold upsample_full (qm_upsample model) (rg_pre_full (qm_pre model) h1) = Inr h2"
      "res_fold block_full (qm_decoder model) h2 = Inr h3" "wav = map (qm_clamp model) h3"
    by (auto simp: rg_full_def)
  have ok: "conv_ok (qm_pre_conv model)"
      "\<forall>ly\<in>set (rp_layers (qm_pre model)). masked_no_weight (rl_self_attn ly)"
    using assms(1) by (simp_all add: rg_model_ok_def)
  obtain c0 where c0: "code_chunks codes n = Inr c0" "joins c0 codes"
    by (rule code_chunks_joins [OF assms(2)])
  obtain c1 where c1: "rg_causal_conv_stream_chunks (qm_pre_conv model) (map (map (qm_decode model)) c0) = Inr c1"
    "joins c1 h1"
    by (rule rg_conv_online [OF ok(1) h(1) joins_map [OF c0(2)]])
  obtain c2 where c2: "rg_pre_transformer_stream_chunks (qm_pre model) c1 = Inr c2"
    "joins c2 (rg_pre_full (qm_pre model) h1)"
    by (rule rg_pre_online [OF ok(2) c1(2)])
  from rg_upsample_online [OF _ h(2) c2(2)] assms(1) obtain c3 where
    c3: "res_fold rg_upsample (qm_upsample model) c2 = Inr c3" "joins c3 h2"
    by (auto simp: rg_model_ok_def)
  from rg_decoder_online [OF _ h(3) c3(2)] assms(1) obtain c4 where
    c4: "res_fold rg_decoder (qm_decoder model) c3 = Inr c4" "joins c4 h3"
    by (auto simp: rg_model_ok_def)
  have "c4 \<noteq> []" using c4(2) assms(4) h(4) by (auto simp: joins_def)
  then show ?thesis
    using c0(1) c1(1) c2(1) c3(1) c4 h(4)
    by (simp add: rg_code2wav_online_def torch_cat_def joins_def)
qed

end
