(* ===== verification/Code2Wav_Theorems.thy ===== *)
theory Code2Wav_Theorems
  imports Code2Wav_Gate_Props
begin

text \<open>
  The properties of the streaming Code2Wav decoders.  The modules are parameters with the
  documented formulas of their convolutions and attention as hypotheses; each property has an
  instance with concrete integer modules.
\<close>

section \<open>A concrete model\<close>

text \<open>Integer frames; a weighted window sum, a two-tap upsampling kernel and a summing attention.\<close>

definition ex_conv :: "nat \<Rightarrow> int conv_mod" where
  "ex_conv p = window_conv p (\<lambda>ws. sum_list (map2 (*) ws (map int [1..<p + 2])))"

definition ex_tconv :: "int tconv_mod" where
  "ex_tconv = kernel_tconv 1 1 1 (Some 5) 2 (\<lambda>x k. x * (int k + 1))"

definition ex_attn :: "(int, int, int, int) attn_mod" where
  "ex_attn = \<lparr>at_q = (\<lambda>h p. h + p), at_k = (\<lambda>h p. h * 2 + p), at_v = (\<lambda>h. h),
     at_attend = (\<lambda>q kvs. sum_list (map (\<lambda>(k, v, b). if b then q * k * v else 0) kvs)),
     at_window = 3\<rparr>"

definition ex_layer :: "(int, int, int, int) layer_mod" where
  "ex_layer = \<lparr>ly_input_layernorm = (\<lambda>x. x + 1), ly_self_attn = ex_attn,
     ly_self_attn_layer_scale = (\<lambda>x. x), ly_post_attention_layernorm = (\<lambda>x. x - 1),
     ly_mlp_gate_proj = (\<lambda>x. x), ly_silu = (\<lambda>x. if 0 \<le> x then x else 0), ly_mlp_up_proj = (\<lambda>x. 2),
     ly_mlp_down_proj = (\<lambda>x. x), ly_mlp_layer_scale = (\<lambda>x. x)\<rparr>"

definition ex_unit :: "int unit_mod" where
  "ex_unit = \<lparr>ru_act1 = (\<lambda>x. x), ru_conv1 = ex_conv 2, ru_act2 = (\<lambda>x. x), ru_conv2 = ex_conv 0\<rparr>"

definition ex_stage :: "int stage_mod" where
  "ex_stage = \<lparr>ds_act = (\<lambda>x. x), ds_tconv = ex_tconv, ds_units = [ex_unit]\<rparr>"

definition ex_convnext :: "int convnext_mod" where
  "ex_convnext = \<lparr>cx_dwconv = ex_conv 1, cx_norm = (\<lambda>x. x), cx_pwconv1 = (\<lambda>x. x), cx_act = (\<lambda>x. x),
     cx_pwconv2 = (\<lambda>x. x), cx_gamma = 1\<rparr>"

definition ex_model :: "(int, int, int, int, int) c2w_model" where
  "ex_model = \<lparr>cm_pre = \<lparr>pm_embed = (\<lambda>c. c), pm_layers = [ex_layer], pm_norm = (\<lambda>x. x)\<rparr>,
     cm_upsample = [(ex_tconv, ex_convnext)],
     cm_decoder = [ConvBlock (ex_conv 2), StageBlock ex_stage, SnakeBlock (\<lambda>x. x)],
     cm_clamp = (\<lambda>x. max (- 99999) (min 99999 x))\<rparr>"

definition ex_rg_model :: "(int, int, int, int, int) rg_model" where
  "ex_rg_model = \<lparr>qm_decode = (\<lambda>c. c), qm_pre_conv = ex_conv 2,
     qm_pre = \<lparr>rp_input_proj = (\<lambda>x. x),
       rp_layers = [\<lparr>rl_input_layernorm = (\<lambda>x. x), rl_self_attn = ex_attn,
         rl_self_attn_layer_scale = (\<lambda>x. x), rl_post_attention_layernorm = (\<lambda>x. x),
         rl_mlp = (\<lambda>x. x), rl_mlp_layer_scale = (\<lambda>x. x)\<rparr>],
       rp_norm = (\<lambda>x. x), rp_output_proj = (\<lambda>x. x)\<rparr>,
     qm_upsample = [(ex_tconv, ex_convnext)],
     qm_decoder = [ConvBlock (ex_conv 2), StageBlock ex_stage, SnakeBlock (\<lambda>x. x)],
     qm_clamp = (\<lambda>x. max (- 99999) (min 99999 x))\<rparr>"

lemma ex_conv_ok: "conv_ok (ex_conv p)"
  unfolding conv_ok_def ex_conv_def using window_conv_valid by blast

lemma ex_tconv_overlap: "overlap_add ex_tconv 4 (\<lambda>x k. x * (int k + 1))"
  using kernel_tconv_overlap [of 1 1 1 "Some 5" 2 "\<lambda>x k. x * (int k + 1)"]
  unfolding ex_tconv_def by (simp add: eval_nat_numeral)

lemma ex_tconv_ok: "tconv_ok ex_tconv"
  unfolding tconv_ok_def using ex_tconv_overlap by blast

lemma ex_attn_ok: "masked_no_weight ex_attn"
proof -
  have "sum_list (map (\<lambda>(k, v, b). if b then q * k * v else 0) kvs) =
    sum_list (map (\<lambda>(k, v, b). if b then q * k * v else 0) (filter (\<lambda>(k, v, b). b) kvs))"
    for q :: int and kvs :: "(int \<times> int \<times> bool) list"
    by (induction kvs) auto
  then show ?thesis by (simp add: masked_no_weight_def ex_attn_def)
qed

lemma ex_model_ok: "model_ok ex_model"
  by (simp add: model_ok_def ex_model_def ex_layer_def ex_attn_ok ex_tconv_ok ex_convnext_def ex_conv_ok
      stage_ok_def ex_stage_def ex_unit_def)

lemma ex_rg_model_ok: "rg_model_ok ex_rg_model"
  by (simp add: rg_model_ok_def ex_rg_model_def ex_attn_ok ex_tconv_ok ex_convnext_def ex_conv_ok
      stage_ok_def ex_stage_def ex_unit_def)

lemmas ex_defs = ex_conv_def ex_tconv_def ex_attn_def ex_layer_def ex_unit_def ex_stage_def
  ex_convnext_def ex_model_def ex_rg_model_def window_conv_def kernel_tconv_def

definition yields :: "c2w_error + 'a list \<Rightarrow> bool" where
  "yields r = (case r of Inl e \<Rightarrow> False | Inr w \<Rightarrow> w \<noteq> [])"

lemma yieldsE:
  assumes "yields r"
  obtains w where "r = Inr w" "w \<noteq> []"
  using assms by (auto simp: yields_def split: sum.splits)

lemma ex_yields:
  "yields (code2wav_full ex_model [1, 0, 2, 1, 0])" "yields (rg_full ex_rg_model [1, 0, 2, 1, 0])"
  by code_simp+

section \<open>Properties\<close>

text \<open>
  C8: the online decoder is exact.  For every split of the codes into chunks and every model
  whose modules follow their documented formulas, whenever the full model produces a waveform the
  online decoder, which carries histories, pending tails and attention caches from chunk to chunk,
  produces the same.
\<close>

theorem code2wav_online_exact:
  assumes "model_ok model" and "covers chunks codes" and "code2wav_full model codes = Inr wav"
    and "wav \<noteq> []"
  shows "code2wav_stream_online model codes chunks = Inr wav"
proof -
  let ?h = "pre_transformer_full (cm_pre model) codes"
  from assms(3) obtain y where y: "convnet_full model ?h = Inr y" "wav = map (cm_clamp model) y"
    by (auto simp: code2wav_full_def)
  from pre_chunks [OF _ assms(2), of "cm_pre model"] assms(1) obtain hs where
    hs: "pre_transformer_stream_chunks (cm_pre model) codes chunks = Inr hs" "joins hs ?h"
    by (auto simp: model_ok_def)
  from convnet_online [OF assms(1) y(1) hs(2)] obtain ys where
    ys: "convnet_stream_online model hs = Inr ys" "joins ys y"
    by blast
  have "ys \<noteq> []" using ys(2) y(2) assms(4) by (auto simp: joins_def)
  then show ?thesis
    using hs(1) ys y(2) by (simp add: code2wav_stream_online_def torch_cat_def joins_def)
qed

theorem code2wav_online_exact_witness:
  "code2wav_stream_online ex_model [1, 0, 2, 1, 0] [2, 0, 1, 2]
     = code2wav_full ex_model [1, 0, 2, 1, 0]"
  by (rule yieldsE [OF ex_yields(1)])
    (simp add: code2wav_online_exact [OF ex_model_ok] covers_def)

text \<open>
  Collecting is exact.  The variant that collects whole tensors between stages and re-cuts
  them with \<^verbatim>\<open>make_chunks\<close> gives the full model's waveform as well, for every split.
\<close>

theorem code2wav_collect_exact:
  assumes "model_ok model" and "covers chunks codes" and "code2wav_full model codes = Inr wav"
    and "codes \<noteq> []"
  shows "code2wav_stream_collect model codes chunks = Inr wav"
proof -
  let ?h = "pre_transformer_full (cm_pre model) codes"
  have lys: "layers_ok (pm_layers (cm_pre model))" using assms(1) by (simp add: model_ok_def)
  from assms(3) obtain y where y: "convnet_full model ?h = Inr y" "wav = map (cm_clamp model) y"
    by (auto simp: code2wav_full_def)
  from pre_chunks [OF lys assms(2)] obtain hs where
    hs: "pre_transformer_stream_chunks (cm_pre model) codes chunks = Inr hs" "joins hs ?h"
    by blast
  have "length ?h = length codes" by (rule pre_full_length [OF lys])
  then have "hs \<noteq> []" "covers chunks ?h" using hs(2) assms(2,4) by (auto simp: joins_def covers_def)
  then show ?thesis
    using hs convnet_collect [OF assms(1) y(1)] y(2)
    by (simp add: code2wav_stream_collect_def pre_transformer_stream_def torch_cat_def joins_def)
qed

theorem code2wav_collect_exact_witness:
  "code2wav_stream_collect ex_model [1, 0, 2, 1, 0] [2, 0, 1, 2]
     = code2wav_full ex_model [1, 0, 2, 1, 0]"
  by (rule yieldsE [OF ex_yields(1)])
    (simp add: code2wav_collect_exact [OF ex_model_ok] covers_def)

text \<open>
  C9: the product gate is exact.  For every positive \<^verbatim>\<open>chunk_frames\<close> the online decoder of the
  product model equals its full forward pass, whenever that produces a waveform.
\<close>

theorem product_gate_exact:
  assumes "rg_model_ok model" and "0 < chunk_frames" and "rg_full model codes = Inr wav"
    and "wav \<noteq> []"
  shows "rg_code2wav_online model codes chunk_frames = Inr wav"
  by (rule rg_online_full [OF assms])

theorem product_gate_exact_witness:
  "rg_code2wav_online ex_rg_model [1, 0, 2, 1, 0] 2 = rg_full ex_rg_model [1, 0, 2, 1, 0]"
  by (rule yieldsE [OF ex_yields(2)]) (simp add: product_gate_exact [OF ex_rg_model_ok])

text \<open>
  A causal convolution streamed over any split equals the convolution of the zero-padded
  input; a split that does not cover the input is refused with the two lengths.
\<close>

theorem causal_conv_stream_exact:
  assumes "valid_conv m g" and "\<forall>c\<in>set chunks. 0 < c" and "sum_list chunks \<le> int (length x)" and "chunks \<noteq> []"
  shows "causal_conv_stream m x chunks =
    (if sum_list chunks = int (length x) then Inr (conv_fn m (replicate (conv_padding m) 0 @ x))
     else Inl (ChunksCover (sum_list chunks) (int (length x))))"
proof (cases "sum_list chunks = int (length x)")
  case True
  have "0 < sum_list chunks" using assms(2,4) by (cases chunks) (auto simp: add_pos_nonneg sum_list_nonneg less_imp_le)
  then have x: "x \<noteq> []" using True by auto
  have c: "covers chunks x" using True assms(2) by (simp add: covers_def less_imp_le)
  show ?thesis
    using True causal_conv_stream_frames [OF assms(1) c x] causal_conv_full_frames [OF assms(1) x] x
    by (simp add: causal_conv_full_def)
next
  case False
  define n where "n = nat (sum_list chunks)"
  have pos: "0 \<le> sum_list chunks" using assms(2) by (simp add: sum_list_nonneg less_imp_le)
  have n: "n < length x" "sum_list chunks = int n" using False assms(3) pos by (auto simp: n_def)
  have c: "covers chunks (take n x)" using n assms(2) by (simp add: covers_def less_imp_le)
  have "for_chunks (\<lambda>i off. causal_conv_step m) (take n x) 0 0 (conv_init m) chunks
      = for_chunks (\<lambda>i off. causal_conv_step m) x 0 0 (conv_init m) chunks"
    using for_chunks_take [of chunks 0 n x _ 0 "conv_init m"] assms(2) n by simp
  then obtain outs st where "for_chunks (\<lambda>i off. causal_conv_step m) x 0 0 (conv_init m) chunks
      = Inr (outs, int (length (take n x)), st)"
    using causal_stream.chunks_full [OF frame_stream.axioms(1) [OF conv_frame_stream [OF assms(1)]] c, of 0]
    by auto
  then show ?thesis using False n by (simp add: causal_conv_stream_def)
qed

theorem causal_conv_stream_exact_witness:
  "causal_conv_stream (ex_conv 2) [1, 2, 3, 4] [1, 3] = Inr (conv_fn (ex_conv 2) [0, 0, 1, 2, 3, 4])
   \<and> causal_conv_stream (ex_conv 2) [1, 2, 3, 4] [1, 2] = Inl (ChunksCover 3 4)"
  using causal_conv_stream_exact [OF window_conv_valid, of "[1, 3]" "[1, 2, 3, 4]" 2
      "\<lambda>ws. sum_list (map2 (*) ws (map int [1..<2 + 2]))"]
    causal_conv_stream_exact [OF window_conv_valid, of "[1, 2]" "[1, 2, 3, 4]" 2
      "\<lambda>ws. sum_list (map2 (*) ws (map int [1..<2 + 2]))"]
  by (simp add: ex_conv_def window_conv_def numeral_2_eq_2)

text \<open>
  C10: transposed convolution.  Collecting segments by overlap-add gives the trimmed output of the
  module on the whole input for every split, and emitting stable samples online gives the same
  provided the last chunk is not empty.
\<close>

theorem transposed_conv_stream_exact:
  assumes "overlap_add m K ker" and "covers chunks x" and "x \<noteq> []"
  shows "transposed_conv_stream_collect m x chunks = tconv_full m x
    \<and> (0 < last chunks \<longrightarrow> transposed_conv_stream_emit m x chunks = tconv_full m x)"
  using tconv_collect_frames [OF assms] tconv_emit_frames [OF assms] by blast

theorem transposed_conv_stream_exact_witness:
  "transposed_conv_stream_collect ex_tconv [3, 1, 2] [1, 2] = tconv_full ex_tconv [3, 1, 2]
   \<and> transposed_conv_stream_emit ex_tconv [3, 1, 2] [1, 2] = tconv_full ex_tconv [3, 1, 2]"
  using transposed_conv_stream_exact [OF ex_tconv_overlap, of "[1, 2]" "[3, 1, 2]"] by (simp add: covers_def)

text \<open>
  An empty last chunk loses samples.  \<^verbatim>\<open>transposed_conv_stream_emit\<close> skips empty parts before
  it looks whether the part is the last, so with a trailing zero the right edge is never released:
  the stream is shorter than the module's output although the chunks cover the input.
\<close>

theorem emit_trailing_empty_chunk:
  "covers [1, 2, 0] [3, 1, 2 :: int]
   \<and> transposed_conv_stream_emit ex_tconv [3, 1, 2] [1, 2, 0] \<noteq> tconv_full ex_tconv [3, 1, 2]
   \<and> transposed_conv_stream_collect ex_tconv [3, 1, 2] [1, 2, 0] = tconv_full ex_tconv [3, 1, 2]"
  unfolding covers_def by code_simp

text \<open>
  Sliding-window attention with a cache of \<^verbatim>\<open>sliding_window - 1\<close> keys equals attention over the
  whole sequence, for every split.
\<close>

theorem attention_stream_exact:
  assumes "masked_no_weight m" and "covers chunks x" and "x \<noteq> []"
  shows "attention_stream m x chunks = Inr (attention_full m x)"
proof -
  note fs = attention_frame_stream [OF assms(1)]
  from causal_stream.chunks_full [OF frame_stream.axioms(1) [OF fs] assms(2), of 0]
  obtain outs st where o: "for_chunks (\<lambda>index offset part state. Inr (attention_step m part state offset) :: c2w_error + _)
      x 0 0 empty_attention_state chunks = Inr (outs, int (length x), st)" "concat outs = attention_full m x"
    by blast
  have "length (attention_full m x) = length x" using frame_stream.full_length [OF fs] .
  then have "outs \<noteq> []" using o(2) assms(3) by (metis concat.simps(1) length_0_conv)
  then show ?thesis using o by (simp add: attention_stream_def torch_cat_def)
qed

theorem attention_stream_exact_witness:
  "attention_stream ex_attn [1, 4, 2, 5] [2, 0, 2] = Inr (attention_full ex_attn [1, 4, 2, 5])"
  by (rule attention_stream_exact [OF ex_attn_ok]) (simp_all add: covers_def)

text \<open>\<^verbatim>\<open>make_chunks\<close> ends for every pattern of positive lengths and its chunks are positive and
  sum to the total; with an empty pattern and something to cut it raises.
\<close>

theorem make_chunks_total:
  assumes "\<forall>c\<in>set pattern. 0 < c"
  shows "if pattern = [] \<and> 0 < n then make_chunks n pattern = Some (Inl ZeroDivision)
    else (\<exists>cs. make_chunks n pattern = Some (Inr cs) \<and> (\<forall>c\<in>set cs. 0 < c) \<and> sum_list cs = max 0 n)"
proof (cases "pattern = []")
  case True
  then show ?thesis by (cases "nat n") (auto simp: make_chunks_def)
next
  case False
  then show ?thesis
    using make_chunks_from_covers [OF _ assms, of n 0 "nat n" 0]
    by (simp add: make_chunks_def del: make_chunks_from.simps)
qed

theorem make_chunks_total_witness:
  "\<exists>cs. make_chunks 31 [9, 4, 13, 2] = Some (Inr cs) \<and> sum_list cs = 31"
  using make_chunks_total [of "[9, 4, 13, 2]" 31] by auto

end
