(* ===== verification/Py_Text.thy ===== *)
theory Py_Text
  imports Voice_Prelude
begin

text \<open>
  What the scripts use of Python's \<^verbatim>\<open>str\<close> and \<^verbatim>\<open>int\<close>: stripping, line splitting, prefixes,
  splitting at a separator, case folding of ASCII letters, and parsing of decimal integers.  A
  character stands for a code point below 256.
\<close>

definition code :: "char \<Rightarrow> nat" where
  "code c = of_char c"

definition is_space :: "char \<Rightarrow> bool" where
  "is_space c \<longleftrightarrow> code c \<in> {9, 10, 11, 12, 13, 28, 29, 30, 31, 32, 133, 160}"

definition strip :: "string \<Rightarrow> string" where
  "strip s = rev (dropWhile is_space (rev (dropWhile is_space s)))"

definition is_break :: "char \<Rightarrow> bool" where
  "is_break c \<longleftrightarrow> code c \<in> {10, 11, 12, 13, 28, 29, 30, 133}"

text \<open>\<^verbatim>\<open>str.splitlines\<close>: a carriage return followed by a line feed is one break.\<close>

fun splitlines_from :: "string \<Rightarrow> string \<Rightarrow> string list" where
  "splitlines_from cur [] = (if cur = [] then [] else [rev cur])"
| "splitlines_from cur [c] = (if is_break c then [rev cur] else [rev (c # cur)])"
| "splitlines_from cur (c # d # s) =
     (if code c = 13 \<and> code d = 10 then rev cur # splitlines_from [] s
      else if is_break c then rev cur # splitlines_from [] (d # s)
      else splitlines_from (c # cur) (d # s))"

definition splitlines :: "string \<Rightarrow> string list" where
  "splitlines s = splitlines_from [] s"

text \<open>\<^verbatim>\<open>s.split(c, 1)[0]\<close> and what is left of \<^verbatim>\<open>s.split(c, 1)[1]\<close>.\<close>

definition before :: "char \<Rightarrow> string \<Rightarrow> string" where
  "before c s = takeWhile (\<lambda>d. d \<noteq> c) s"

definition after :: "char \<Rightarrow> string \<Rightarrow> string" where
  "after c s = tl (dropWhile (\<lambda>d. d \<noteq> c) s)"

definition is_digit :: "char \<Rightarrow> bool" where
  "is_digit c \<longleftrightarrow> 48 \<le> code c \<and> code c \<le> 57"

definition to_lower :: "char \<Rightarrow> char" where
  "to_lower c = (if 65 \<le> code c \<and> code c \<le> 90 then char_of (code c + 32) else c)"

definition lower :: "string \<Rightarrow> string" where
  "lower s = map to_lower s"

text \<open>
  \<^verbatim>\<open>int(s)\<close>: surrounding white space, one sign, and digits with single underscores between
  them; \<open>None\<close> is \<^verbatim>\<open>ValueError\<close>.
\<close>

fun digits_value :: "int \<Rightarrow> bool \<Rightarrow> string \<Rightarrow> int option" where
  "digits_value acc after_digit [] = (if after_digit then Some acc else None)"
| "digits_value acc after_digit (c # s) =
     (if is_digit c then digits_value (acc * 10 + (int (code c) - 48)) True s
      else if code c = 95 \<and> after_digit then digits_value acc False s
      else None)"

definition py_int :: "string \<Rightarrow> int option" where
  "py_int s = (case strip s of
      [] \<Rightarrow> None
    | c # t \<Rightarrow>
        if code c = 45 then map_option uminus (digits_value 0 False t)
        else if code c = 43 then digits_value 0 False t
        else digits_value 0 False (c # t))"

text \<open>\<^verbatim>\<open>str(n)\<close> of a natural number.\<close>

definition digit :: "nat \<Rightarrow> char" where
  "digit d = char_of (48 + d)"

fun str_nat :: "nat \<Rightarrow> string" where
  "str_nat n = (if n < 10 then [digit n] else str_nat (n div 10) @ [digit (n mod 10)])"

declare str_nat.simps [simp del]

text \<open>\<^verbatim>\<open>str(i)\<close> of an integer.\<close>

definition str_int :: "int \<Rightarrow> string" where
  "str_int i = (if i < 0 then CHR ''-'' # str_nat (nat (- i)) else str_nat (nat i))"

section \<open>Paths\<close>

text \<open>\<^verbatim>\<open>a / b\<close> on \<^verbatim>\<open>Path\<close>: an absolute right operand replaces the left one.\<close>

definition path_join :: "string \<Rightarrow> string \<Rightarrow> string" where
  "path_join a b =
     (if prefix ''/'' b then b
      else if a = [] then b
      else if last a = CHR ''/'' then a @ b else a @ ''/'' @ b)"

text \<open>\<^verbatim>\<open>path.relative_to(root)\<close> succeeds.\<close>

definition under_root :: "string \<Rightarrow> string \<Rightarrow> bool" where
  "under_root rt path \<longleftrightarrow> path = rt \<or> prefix (path_join rt []) path"

text \<open>\<^verbatim>\<open>Path(line).name == line\<close> for a non-empty line.\<close>

definition is_basename :: "string \<Rightarrow> bool" where
  "is_basename line \<longleftrightarrow> CHR ''/'' \<notin> set line \<and> line \<noteq> ''.''"

text \<open>\<^verbatim>\<open>path.parent\<close> and \<^verbatim>\<open>path.name\<close> of a path with a directory part.\<close>

definition path_parent :: "string \<Rightarrow> string" where
  "path_parent p = rev (tl (dropWhile (\<lambda>c. c \<noteq> CHR ''/'') (rev p)))"

definition path_name :: "string \<Rightarrow> string" where
  "path_name p = rev (takeWhile (\<lambda>c. c \<noteq> CHR ''/'') (rev p))"

lemma path_join_inject:
  "\<not> prefix ''/'' b \<Longrightarrow> \<not> prefix ''/'' c \<Longrightarrow> path_join a b = path_join a c \<longleftrightarrow> b = c"
  by (auto simp: path_join_def)

lemma length_lower [simp]: "length (lower s) = length s"
  by (simp add: lower_def)

lemma strip_no_ends:
  "strip s = [] \<or> (\<not> is_space (hd (strip s)) \<and> \<not> is_space (last (strip s)))"
proof (cases "strip s = []")
  case False
  let ?t = "dropWhile is_space s"
  have "rev (strip s) = dropWhile is_space (rev ?t)" by (simp add: strip_def)
  then have last: "\<not> is_space (last (strip s))"
    using False hd_dropWhile [of is_space "rev ?t"] by (metis hd_rev rev_is_Nil_conv)
  have "prefix (strip s) ?t"
    unfolding strip_def by (metis prefix_def rev_append rev_rev_ident takeWhile_dropWhile_id)
  then obtain u where "?t = strip s @ u" by (auto simp: prefix_def)
  then have "hd (strip s) = hd ?t" "?t \<noteq> []" using False by auto
  then have "\<not> is_space (hd (strip s))" using hd_dropWhile [of is_space s] by simp
  with last show ?thesis by simp
qed simp

lemma code_digit: "d < 10 \<Longrightarrow> code (digit d) = 48 + d"
  by (simp add: digit_def code_def)

lemma digits_str_nat:
  "digits_value acc b (str_nat n @ t)
     = digits_value (acc * 10 ^ length (str_nat n) + int n) True t"
proof (induction n arbitrary: acc b t rule: str_nat.induct)
  case (1 n)
  show ?case
  proof (cases "n < 10")
    case True
    then show ?thesis by (simp add: str_nat.simps [of n] is_digit_def code_digit)
  next
    case False
    have n: "int n = int (n div 10) * 10 + int (n mod 10)"
      by (metis div_mult_mod_eq of_nat_add of_nat_mult of_nat_numeral)
    have "digits_value acc b (str_nat n @ t) =
      digits_value (acc * 10 ^ length (str_nat (n div 10)) + int (n div 10)) True (digit (n mod 10) # t)"
      using False 1 [of acc b "digit (n mod 10) # t"] by (simp add: str_nat.simps [of n])
    also have "\<dots> = digits_value ((acc * 10 ^ length (str_nat (n div 10)) + int (n div 10)) * 10 + int (n mod 10)) True t"
    proof -
      have "n mod 10 < 10" by simp
      then have "is_digit (digit (n mod 10))" "code (digit (n mod 10)) = 48 + n mod 10"
        by (simp_all only: is_digit_def code_digit) simp
      then show ?thesis by simp
    qed
    also have "(acc * 10 ^ length (str_nat (n div 10)) + int (n div 10)) * 10 + int (n mod 10)
      = acc * 10 ^ length (str_nat n) + int n"
      using False by (subst n) (simp add: str_nat.simps [of n] algebra_simps)
    finally show ?thesis .
  qed
qed

lemma str_nat_digits: "\<forall>c\<in>set (str_nat n). is_digit c"
proof (induction n rule: str_nat.induct)
  case (1 n)
  then show ?case by (cases "n < 10") (auto simp: str_nat.simps [of n] is_digit_def code_digit)
qed

lemma str_nat_nonempty [simp]: "str_nat n \<noteq> []"
  by (simp add: str_nat.simps [of n])

lemma strip_id: "\<forall>c\<in>set s. \<not> is_space c \<Longrightarrow> strip s = s"
proof -
  assume a: "\<forall>c\<in>set s. \<not> is_space c"
  have "dropWhile is_space xs = xs" if "\<forall>c\<in>set xs. \<not> is_space c" for xs
    using that by (cases xs) auto
  from this [of s] this [of "rev s"] a have "dropWhile is_space s = s" "dropWhile is_space (rev s) = rev s"
    by auto
  then show ?thesis by (simp add: strip_def)
qed

lemma is_digit_not_space: "is_digit c \<Longrightarrow> \<not> is_space c"
  by (auto simp: is_digit_def is_space_def)

lemma py_int_str_nat [simp]: "py_int (str_nat n) = Some (int n)"
proof -
  have st: "strip (str_nat n) = str_nat n"
    by (rule strip_id) (metis is_digit_not_space str_nat_digits)
  obtain c t where ct: "str_nat n = c # t" by (meson list.exhaust str_nat_nonempty)
  then have "is_digit c" using str_nat_digits [of n] by simp
  then have "code c \<noteq> 45" "code c \<noteq> 43" by (auto simp: is_digit_def)
  then show ?thesis using st ct digits_str_nat [of 0 False n "[]"] by (simp add: py_int_def)
qed

lemma str_nat_inject [simp]: "str_nat i = str_nat j \<longleftrightarrow> i = j"
  by (metis of_nat_eq_iff option.inject py_int_str_nat)

lemma before_append: "c \<notin> set s \<Longrightarrow> before c (s @ c # t) = s"
  by (induction s) (auto simp: before_def)

lemma dot_not_digit: "CHR ''.'' \<notin> set (str_nat n)"
  using str_nat_digits [of n] by (auto simp: is_digit_def code_def)

lemma before_no_sep: "c \<notin> set (before c s)"
  by (auto simp: before_def dest: set_takeWhileD)

lemma before_after: "c \<in> set s \<Longrightarrow> before c s @ c # after c s = s"
proof -
  assume "c \<in> set s"
  then have "dropWhile (\<lambda>d. d \<noteq> c) s \<noteq> []" by simp
  then have "dropWhile (\<lambda>d. d \<noteq> c) s = c # after c s"
    using hd_dropWhile [of "\<lambda>d. d \<noteq> c" s] by (cases "dropWhile (\<lambda>d. d \<noteq> c) s") (auto simp: after_def)
  then show ?thesis by (metis before_def takeWhile_dropWhile_id)
qed

end
