(* ===== verification/Release_Gates.thy ===== *)
theory Release_Gates
  imports Py_Text
begin

text \<open>
  The fail-closed gates of \<^verbatim>\<open>engine-overlay/\<close>: manifest provenance
  (\<^verbatim>\<open>validate-manifest.py\<close>), the release tuple (\<^verbatim>\<open>verify-release-target.py\<close>), the CUDA
  compatibility probe (\<^verbatim>\<open>probe-cuda-compat.py\<close>) and the SparkTTS token gate
  (\<^verbatim>\<open>validate-spark-token-gate.py\<close>).  The file system, path resolution, SHA-256, UTF-8
  decoding and the TOML and JSON parsers are fields of an environment record.
\<close>

section \<open>Manifest provenance\<close>

record menv =
  read_file :: "string \<Rightarrow> string option"
  resolve :: "string \<Rightarrow> string"
  sha :: "string \<Rightarrow> string"
  decode :: "string \<Rightarrow> string option"
  parse_toml :: "string \<Rightarrow> dict option"

datatype mf_error =
    Usage
  | NoManifest
  | CannotParse
  | MissingTable string
  | BadKind string string
  | PinMismatch
  | VersionMismatch
  | RemoteMismatch
  | TargetMismatch string
  | BuildType
  | WrongDirectory string
  | WrongPath string
  | EscapesRoot string
  | NotAFile string
  | Stale string
  | NonBasename string
  | DuplicateEntries string
  | CountMismatch string
  | SparseNumbering
  | UncaughtDecode

datatype kind = KStr | KInt

text \<open>\<^verbatim>\<open>isinstance\<close>: a \<^verbatim>\<open>bool\<close> is an \<^verbatim>\<open>int\<close>.\<close>

fun is_kind :: "kind \<Rightarrow> json \<Rightarrow> bool" where
  "is_kind KStr (JStr _) = True"
| "is_kind KInt (JInt _) = True"
| "is_kind KInt (JBool _) = True"
| "is_kind _ _ = False"

definition table :: "dict \<Rightarrow> string \<Rightarrow> mf_error + dict" where
  "table data name = (case dget data name of JObj d \<Rightarrow> Inr d | _ \<Rightarrow> Inl (MissingTable name))"

definition value_of :: "dict \<Rightarrow> string \<Rightarrow> string \<Rightarrow> kind \<Rightarrow> mf_error + json" where
  "value_of entry table_name key k =
     (let result = dget entry key
      in if is_kind k result then Inr result else Inl (BadKind table_name key))"

definition locked_path :: "menv \<Rightarrow> string \<Rightarrow> json \<Rightarrow> string \<Rightarrow> string \<Rightarrow> mf_error + string" where
  "locked_path env rt raw expected field =
     (if \<not> py_eq raw (JStr expected) then Inl (WrongPath field)
      else let path = resolve env (path_join rt expected)
           in if \<not> under_root rt path then Inl (EscapesRoot field)
              else if read_file env path = None then Inl (NotAFile field)
              else Inr path)"

fun collect_entries :: "string \<Rightarrow> string list \<Rightarrow> mf_error + string list" where
  "collect_entries path [] = Inr []"
| "collect_entries path (raw # raws) =
     (let line = strip raw
      in if line = [] \<or> prefix ''#'' line then collect_entries path raws
         else if \<not> is_basename line then Inl (NonBasename path)
         else res_bind (collect_entries path raws) (\<lambda>rest. Inr (line # rest)))"

definition series_entries :: "menv \<Rightarrow> string \<Rightarrow> mf_error + string list" where
  "series_entries env path =
     res_bind (of_option UncaughtDecode (Option.bind (read_file env path) (decode env))) (\<lambda>text.
     res_bind (collect_entries path (splitlines text)) (\<lambda>entries.
       if length entries \<noteq> card (set entries) then Inl (DuplicateEntries path) else Inr entries))"

definition verify_hash :: "menv \<Rightarrow> string \<Rightarrow> json \<Rightarrow> string \<Rightarrow> mf_error + unit" where
  "verify_hash env path expected field =
     (case read_file env path of
        None \<Rightarrow> Inl (NotAFile field)
      | Some bytes \<Rightarrow> check (py_eq (JStr (sha env bytes)) expected) (Stale field))"

definition expected_target :: dict where
  "expected_target =
     [(''device'', JStr ''jetson-orin-nx''), (''sm'', JStr ''87''), (''jetpack'', JStr ''6.2''),
      (''l4t'', JStr ''36.4.3''), (''cuda'', JStr ''12.6''), (''tensorrt'', JStr ''10.3''),
      (''embedded_target'', JStr ''jetson-orin''), (''aarch64_build'', JBool True)]"

fun check_target :: "dict \<Rightarrow> dict \<Rightarrow> mf_error + unit" where
  "check_target target [] = Inr ()"
| "check_target target ((key, wanted) # rest) =
     (if \<not> py_eq (dget target key) wanted then Inl (TargetMismatch key) else check_target target rest)"

definition verify_release_target :: "dict \<Rightarrow> mf_error + unit" where
  "verify_release_target data =
     res_bind (table data ''target'') (\<lambda>target.
     res_bind (check_target target expected_target) (\<lambda>_.
     res_bind (table data ''build'') (\<lambda>build.
       check (py_eq (dget build ''type'') (JStr ''Release'')) BuildType)))"

definition verify_upstream :: "dict \<Rightarrow> string \<Rightarrow> mf_error + unit" where
  "verify_upstream data pin =
     res_bind (table data ''upstream'') (\<lambda>upstream.
     res_bind (value_of upstream ''upstream'' ''pin'' KStr) (\<lambda>p.
     res_bind (check (py_eq p (JStr pin)) PinMismatch) (\<lambda>_.
     res_bind (check (py_eq (dget upstream ''version'') (JStr ''v0.9.1'')) VersionMismatch) (\<lambda>_.
       check (py_eq (dget upstream ''remote'')
               (JStr ''https://github.com/NVIDIA/TensorRT-Edge-LLM.git'')) RemoteMismatch))))"

text \<open>
  One patch section: its directory, its locked files, their recorded hashes, and the number of
  series entries.  The first locked file is the series.
\<close>

definition lock_file :: "menv \<Rightarrow> string \<Rightarrow> dict \<Rightarrow> string \<Rightarrow> string \<times> string \<Rightarrow> mf_error + string" where
  "lock_file env rt entry name = (\<lambda>(key, expected).
     res_bind (value_of entry name key KStr) (\<lambda>raw. locked_path env rt raw expected key))"

fun lock_files ::
  "menv \<Rightarrow> string \<Rightarrow> dict \<Rightarrow> string \<Rightarrow> (string \<times> string) list \<Rightarrow> mf_error + string list" where
  "lock_files env rt entry name [] = Inr []"
| "lock_files env rt entry name (f # fs) =
     res_bind (lock_file env rt entry name f) (\<lambda>path.
     res_bind (lock_files env rt entry name fs) (\<lambda>paths. Inr (path # paths)))"

fun check_hashes :: "menv \<Rightarrow> dict \<Rightarrow> string \<Rightarrow> (string \<times> string) list \<Rightarrow> mf_error + unit" where
  "check_hashes env entry name [] = Inr ()"
| "check_hashes env entry name ((path, key) # rest) =
     res_bind (value_of entry name key KStr) (\<lambda>expected.
     res_bind (verify_hash env path expected key) (\<lambda>_. check_hashes env entry name rest))"

definition verify_section ::
  "menv \<Rightarrow> string \<Rightarrow> dict \<Rightarrow> string \<Rightarrow> string \<Rightarrow> (string \<times> string \<times> string) list \<Rightarrow> int
     \<Rightarrow> mf_error + dict" where
  "verify_section env rt data name dir files count =
     res_bind (table data name) (\<lambda>entry.
     res_bind (value_of entry name ''directory'' KStr) (\<lambda>d.
     res_bind (check (py_eq d (JStr dir)) (WrongDirectory name)) (\<lambda>_.
     res_bind (lock_files env rt entry name (map (\<lambda>(key, expected, hash). (key, expected)) files)) (\<lambda>paths.
     res_bind (check_hashes env entry name (zip paths (map (\<lambda>(key, expected, hash). hash) files))) (\<lambda>_.
     res_bind (series_entries env (hd paths)) (\<lambda>entries.
     res_bind (value_of entry name ''count'' KInt) (\<lambda>n.
     res_bind (check (py_eq n (JInt count) \<and> py_eq n (JInt (int (length entries)))) (CountMismatch name)) (\<lambda>_.
       Inr entry))))))))"

definition proposed_files :: "(string \<times> string \<times> string) list" where
  "proposed_files =
     [(''series'', ''patches/upstream-v091-prs/series'', ''series_sha256''),
      (''lock'', ''patches/upstream-v091-prs/LOCK'', ''lock_sha256''),
      (''checksums'', ''patches/upstream-v091-prs/SHA256SUMS'', ''checksums_sha256'')]"

definition local_files :: "(string \<times> string \<times> string) list" where
  "local_files =
     [(''series'', ''patches/v091-candidate/series'', ''series_sha256''),
      (''checksums'', ''patches/v091-candidate/SHA256SUMS'', ''checksums_sha256'')]"

definition validate_data :: "menv \<Rightarrow> string \<Rightarrow> string \<Rightarrow> dict \<Rightarrow> mf_error + unit" where
  "validate_data env rt pin data =
     res_bind (verify_upstream data pin) (\<lambda>_.
     res_bind (verify_release_target data) (\<lambda>_.
     res_bind (verify_section env rt data ''proposed_upstream_patches'' ''patches/upstream-v091-prs''
       proposed_files 7) (\<lambda>_.
     res_bind (verify_section env rt data ''patches'' ''patches/v091-candidate'' local_files 35) (\<lambda>local.
       check (dget local ''sparse_numbering'' = JBool True) SparseNumbering))))"

definition validate_manifest :: "menv \<Rightarrow> string list \<Rightarrow> mf_error + unit" where
  "validate_manifest env argv =
     (case argv of
        [overlay_root, manifest_arg, pin] \<Rightarrow>
          (let rt = resolve env overlay_root; manifest = resolve env manifest_arg
           in case read_file env manifest of
                None \<Rightarrow> Inl NoManifest
              | Some bytes \<Rightarrow>
                  res_bind (of_option CannotParse (parse_toml env bytes)) (validate_data env rt pin))
      | _ \<Rightarrow> Inl Usage)"

section \<open>The release tuple of the build host\<close>

record probed =
  p_sm :: string
  p_platform :: string
  p_embedded_target :: string
  p_l4t :: string
  p_cuda :: string
  p_tensorrt :: string

definition release_mismatches :: "probed \<Rightarrow> string list" where
  "release_mismatches a =
     map fst (filter (\<lambda>(key, actual, wanted). actual \<noteq> wanted)
       [(''sm'', p_sm a, ''87''), (''platform'', p_platform a, ''tegra''),
        (''embedded_target'', p_embedded_target a, ''jetson-orin''),
        (''l4t'', p_l4t a, ''36.4.3''), (''cuda'', p_cuda a, ''12.6'')])
     @ (if \<not> prefix ''10.3'' (p_tensorrt a) then [''tensorrt''] else [])"

text \<open>\<^verbatim>\<open>parser.error\<close> exits with status 2.\<close>

definition release_target_exit :: "probed \<Rightarrow> nat" where
  "release_target_exit a = (if release_mismatches a \<noteq> [] then 2 else 0)"

section \<open>CUDA compatibility probe\<close>

text \<open>
  What the probe reads: the two override variables, the driver's calls (their status and the
  version) and what torch reports.
\<close>

record cuda_env =
  env_driver :: "string option"
  env_torch :: "string option"
  lib_loads :: bool
  cu_init :: int
  cu_version_status :: int
  cu_version :: int
  torch_imports :: bool
  torch_cuda :: "string option"
  torch_available :: bool

definition driver_version :: "cuda_env \<Rightarrow> int option" where
  "driver_version e =
     (case env_driver e of
        Some v \<Rightarrow> if v \<noteq> [] then py_int v
                  else (if lib_loads e \<and> cu_init e = 0 \<and> cu_version_status e = 0 then Some (cu_version e) else None)
      | None \<Rightarrow> (if lib_loads e \<and> cu_init e = 0 \<and> cu_version_status e = 0 then Some (cu_version e) else None))"

definition torch_version :: "cuda_env \<Rightarrow> string option" where
  "torch_version e =
     (let installed = (case torch_cuda e of
            Some v \<Rightarrow> if torch_imports e \<and> v \<noteq> [] \<and> torch_available e then Some v else None
          | None \<Rightarrow> None)
      in case env_torch e of Some v \<Rightarrow> (if v \<noteq> [] then Some v else installed) | None \<Rightarrow> installed)"

definition probe_exit :: "cuda_env \<Rightarrow> nat" where
  "probe_exit e =
     (case driver_version e of
        None \<Rightarrow> 7
      | Some driver \<Rightarrow>
          (case torch_version e of
             None \<Rightarrow> 7
           | Some tc \<Rightarrow>
               (case py_int (before (CHR ''.'') tc) of
                  None \<Rightarrow> 7
                | Some torch_major \<Rightarrow> if torch_major > driver div 1000 then 7 else 0)))"

section \<open>SparkTTS token gate\<close>

datatype exit_status = Exit nat | Uncaught

text \<open>\<open>gate\<close> is what reading and \<^verbatim>\<open>json.loads\<close> give, absent when one of them raises.\<close>

definition spark_gate :: "string list \<Rightarrow> (string \<Rightarrow> json option) \<Rightarrow> exit_status" where
  "spark_gate argv load =
     (case argv of
        [path, expected_mode] \<Rightarrow>
          (case load path of
             None \<Rightarrow> Exit 10
           | Some (JObj gate) \<Rightarrow>
               if dget gate ''passed'' \<noteq> JBool True \<or> \<not> py_eq (dget gate ''mode'') (JStr expected_mode)
                  \<or> \<not> py_eq (dget gate ''global_token_count'') (JInt 32)
               then Exit 10 else Exit 0
           | Some _ \<Rightarrow> Uncaught)
      | _ \<Rightarrow> Exit 2)"

end
