(* ===== verification/Release_Gates_Props.thy ===== *)
theory Release_Gates_Props
  imports Release_Gates
begin

text \<open>
  What passing a gate guarantees, and that each gate is fail-closed: the accepting branch is
  reached only when every recorded fact agrees with the files on disk and the probed host.
\<close>

section \<open>Pieces of the manifest check\<close>

lemma py_eq_str_left [simp]: "py_eq (JStr s) v \<longleftrightarrow> v = JStr s"
  by (cases v) (auto simp: py_eq_def)

lemma table_Inr [simp]: "table data name = Inr d \<longleftrightarrow> dget data name = JObj d"
  by (auto simp: table_def split: json.splits)

lemma value_of_Inr [simp]: "value_of e t k kd = Inr v \<longleftrightarrow> v = dget e k \<and> is_kind kd v"
  by (auto simp: value_of_def Let_def)

definition locked_ok :: "menv \<Rightarrow> string \<Rightarrow> dict \<Rightarrow> string \<times> string \<times> string \<Rightarrow> bool" where
  "locked_ok env rt entry = (\<lambda>(key, expected, hash).
     dget entry key = JStr expected \<and> under_root rt (resolve env (path_join rt expected))
     \<and> (\<exists>bytes. read_file env (resolve env (path_join rt expected)) = Some bytes
          \<and> dget entry hash = JStr (sha env bytes)))"

lemma locked_path_Inr:
  "locked_path env rt raw expected field = Inr path \<longleftrightarrow>
     raw = JStr expected \<and> path = resolve env (path_join rt expected) \<and> under_root rt path
     \<and> read_file env path \<noteq> None"
  by (auto simp: locked_path_def Let_def)

lemma lock_files_Inr:
  assumes "lock_files env rt entry name (map (\<lambda>(key, expected, hash). (key, expected)) files) = Inr paths"
  shows "paths = map (\<lambda>(key, expected, hash). resolve env (path_join rt expected)) files
    \<and> (\<forall>(key, expected, hash)\<in>set files. dget entry key = JStr expected
        \<and> under_root rt (resolve env (path_join rt expected)))"
  using assms
  by (induction files arbitrary: paths) (auto simp: lock_file_def locked_path_Inr)

lemma check_hashes_Inr:
  assumes "check_hashes env entry name (zip (map (\<lambda>(key, expected, hash). resolve env (path_join rt expected)) files)
      (map (\<lambda>(key, expected, hash). hash) files)) = Inr u"
  shows "\<forall>(key, expected, hash)\<in>set files.
    \<exists>bytes. read_file env (resolve env (path_join rt expected)) = Some bytes
      \<and> dget entry hash = JStr (sha env bytes)"
  using assms
proof (induction files arbitrary: u)
  case (Cons f fs)
  obtain key ex h where f: "f = (key, ex, h)" by (cases f)
  from Cons.prems obtain u' where
    v: "verify_hash env (resolve env (path_join rt ex)) (dget entry h) h = Inr u'"
      "is_kind KStr (dget entry h)" and
    rest: "check_hashes env entry name (zip (map (\<lambda>(key, expected, hash). resolve env (path_join rt expected)) fs)
      (map (\<lambda>(key, expected, hash). hash) fs)) = Inr u"
    by (auto simp: f)
  from v obtain bytes where "read_file env (resolve env (path_join rt ex)) = Some bytes"
    "dget entry h = JStr (sha env bytes)"
    by (cases "read_file env (resolve env (path_join rt ex))") (auto simp: verify_hash_def py_eq_str)
  then show ?case using Cons.IH [OF rest] by (auto simp: f)
qed simp

lemma collect_entries_ok:
  "collect_entries path raws = Inr es \<Longrightarrow> \<forall>e\<in>set es. e \<noteq> [] \<and> is_basename e \<and> \<not> prefix ''#'' e"
  by (induction raws arbitrary: es) (auto simp: Let_def split: if_splits)

lemma series_entries_ok:
  "series_entries env path = Inr es \<Longrightarrow> distinct es \<and> (\<forall>e\<in>set es. e \<noteq> [] \<and> is_basename e)"
  by (auto simp: series_entries_def card_distinct dest!: collect_entries_ok split: if_splits)

lemma verify_section_sound:
  assumes "verify_section env rt data name dir files n = Inr entry" and "files \<noteq> []"
  shows "dget data name = JObj entry \<and> dget entry ''directory'' = JStr dir
    \<and> (\<forall>f\<in>set files. locked_ok env rt entry f)
    \<and> (\<exists>es. series_entries env (resolve env (path_join rt (fst (snd (hd files))))) = Inr es
         \<and> distinct es \<and> int (length es) = n)"
proof -
  from assms(1) obtain paths es u c where
    e: "dget data name = JObj entry" "dget entry ''directory'' = JStr dir" and
    l: "lock_files env rt entry name (map (\<lambda>(key, expected, hash). (key, expected)) files) = Inr paths" and
    h: "check_hashes env entry name (zip paths (map (\<lambda>(key, expected, hash). hash) files)) = Inr u" and
    s: "series_entries env (hd paths) = Inr es" and
    n: "py_eq c (JInt n)" "py_eq c (JInt (int (length es)))"
    unfolding verify_section_def by (auto simp: py_eq_str)
  note paths = lock_files_Inr [OF l]
  have hash: "\<forall>(key, expected, hash)\<in>set files.
    \<exists>bytes. read_file env (resolve env (path_join rt expected)) = Some bytes
      \<and> dget entry hash = JStr (sha env bytes)"
    using check_hashes_Inr [of env entry name rt files u] h paths by simp
  have "\<forall>f\<in>set files. locked_ok env rt entry f"
    using paths hash unfolding locked_ok_def by fastforce
  moreover have "hd paths = resolve env (path_join rt (fst (snd (hd files))))"
    using paths assms(2) by (cases files) auto
  moreover have "int (length es) = n" using n by (auto simp: py_eq_def split: option.splits)
  ultimately show ?thesis using e s series_entries_ok [OF s] by auto
qed

lemma check_target_Inr:
  "check_target t wanted = Inr u \<Longrightarrow> \<forall>(k, w)\<in>set wanted. py_eq (dget t k) w"
  by (induction wanted) (auto split: if_splits)

lemma manifest_accept_parts:
  assumes "validate_manifest env [overlay_root, manifest, pin] = Inr ()"
  obtains data pr loc t up where
    "Option.bind (read_file env (resolve env manifest)) (parse_toml env) = Some data"
    "dget data ''upstream'' = JObj up" "dget up ''pin'' = JStr pin"
    "dget data ''target'' = JObj t" "\<forall>(k, w)\<in>set expected_target. py_eq (dget t k) w"
    "verify_section env (resolve env overlay_root) data ''proposed_upstream_patches''
       ''patches/upstream-v091-prs'' proposed_files 7 = Inr pr"
    "verify_section env (resolve env overlay_root) data ''patches'' ''patches/v091-candidate''
       local_files 35 = Inr loc"
proof -
  from assms obtain data where
    data: "Option.bind (read_file env (resolve env manifest)) (parse_toml env) = Some data"
      "validate_data env (resolve env overlay_root) pin data = Inr ()"
    by (auto simp: validate_manifest_def Let_def split: option.splits)
  from data(2) obtain pr loc where
    up: "verify_upstream data pin = Inr ()" and tg: "verify_release_target data = Inr ()" and
    p: "verify_section env (resolve env overlay_root) data ''proposed_upstream_patches''
       ''patches/upstream-v091-prs'' proposed_files 7 = Inr pr" and
    l: "verify_section env (resolve env overlay_root) data ''patches'' ''patches/v091-candidate''
       local_files 35 = Inr loc"
    unfolding validate_data_def by auto
  from up obtain u where "dget data ''upstream'' = JObj u" "dget u ''pin'' = JStr pin"
    unfolding verify_upstream_def by (auto simp: py_eq_str)
  moreover from tg obtain t w where "dget data ''target'' = JObj t" "check_target t expected_target = Inr w"
    unfolding verify_release_target_def by auto
  ultimately show thesis using that data(1) p l check_target_Inr by blast
qed

lemma manifest_sections:
  assumes "validate_manifest env [overlay_root, manifest, pin] = Inr ()"
  shows "\<exists>data pr loc.
    Option.bind (read_file env (resolve env manifest)) (parse_toml env) = Some data
    \<and> verify_section env (resolve env overlay_root) data ''proposed_upstream_patches''
       ''patches/upstream-v091-prs'' proposed_files 7 = Inr pr
    \<and> verify_section env (resolve env overlay_root) data ''patches'' ''patches/v091-candidate''
       local_files 35 = Inr loc"
  by (rule manifest_accept_parts [OF assms]) blast

section \<open>A small overlay\<close>

text \<open>An overlay whose manifest is accepted: the digest of a file is its length in tally marks.\<close>

definition demo_series :: "nat \<Rightarrow> string" where
  "demo_series n = concat (map (\<lambda>i. [char_of (65 + i), CHR 0x0A]) [0..<n])"

definition demo_sha :: "string \<Rightarrow> string" where
  "demo_sha bytes = replicate (length bytes) (CHR ''a'')"

definition demo_data :: dict where
  "demo_data =
     [(''upstream'', JObj [(''pin'', JStr ''abc''), (''version'', JStr ''v0.9.1''),
         (''remote'', JStr ''https://github.com/NVIDIA/TensorRT-Edge-LLM.git'')]),
      (''target'', JObj expected_target), (''build'', JObj [(''type'', JStr ''Release'')]),
      (''proposed_upstream_patches'', JObj
         [(''directory'', JStr ''patches/upstream-v091-prs''),
          (''series'', JStr ''patches/upstream-v091-prs/series''),
          (''lock'', JStr ''patches/upstream-v091-prs/LOCK''),
          (''checksums'', JStr ''patches/upstream-v091-prs/SHA256SUMS''),
          (''series_sha256'', JStr (demo_sha (demo_series 7))),
          (''lock_sha256'', JStr ''a''), (''checksums_sha256'', JStr ''aa''), (''count'', JInt 7)]),
      (''patches'', JObj
         [(''directory'', JStr ''patches/v091-candidate''),
          (''series'', JStr ''patches/v091-candidate/series''),
          (''checksums'', JStr ''patches/v091-candidate/SHA256SUMS''),
          (''series_sha256'', JStr (demo_sha (demo_series 35))),
          (''checksums_sha256'', JStr ''aaa''), (''count'', JInt 35),
          (''sparse_numbering'', JBool True)])]"

definition demo_menv :: menv where
  "demo_menv = \<lparr>read_file = map_of
       [(''/o/m.toml'', ''M''),
        (''/o/patches/upstream-v091-prs/series'', demo_series 7),
        (''/o/patches/upstream-v091-prs/LOCK'', ''L''),
        (''/o/patches/upstream-v091-prs/SHA256SUMS'', ''SS''),
        (''/o/patches/v091-candidate/series'', demo_series 35),
        (''/o/patches/v091-candidate/SHA256SUMS'', ''SSS'')],
     resolve = (\<lambda>p. p), sha = demo_sha, decode = Some,
     parse_toml = (\<lambda>b. if b = ''M'' then Some demo_data else None)\<rparr>"

lemma demo_accepted: "validate_manifest demo_menv [''/o'', ''/o/m.toml'', ''abc''] = Inr ()"
  by code_simp

lemma demo_env_simps [simp]: "resolve demo_menv p = p" "sha demo_menv = demo_sha"
  by (simp_all add: demo_menv_def)

section \<open>Properties\<close>

text \<open>
  C11: an accepted manifest pins the sources.  When validation succeeds, the manifest's pin is the
  given one, the target tuple is the qualified one, and for both patch sections every locked file
  lies under the overlay root, exists and hashes to the recorded value, and the series files list
  exactly 7 and 35 distinct base names.
\<close>

theorem manifest_accept_sound:
  assumes "validate_manifest env [overlay_root, manifest, pin] = Inr ()"
  defines "rt \<equiv> resolve env overlay_root"
  shows "\<exists>data pr loc. Option.bind (read_file env (resolve env manifest)) (parse_toml env) = Some data
    \<and> (\<exists>up. dget data ''upstream'' = JObj up \<and> dget up ''pin'' = JStr pin)
    \<and> (\<exists>t. dget data ''target'' = JObj t \<and> (\<forall>(k, w)\<in>set expected_target. py_eq (dget t k) w))
    \<and> dget data ''proposed_upstream_patches'' = JObj pr \<and> dget data ''patches'' = JObj loc
    \<and> (\<forall>f\<in>set proposed_files. locked_ok env rt pr f) \<and> (\<forall>f\<in>set local_files. locked_ok env rt loc f)
    \<and> (\<exists>es. series_entries env (resolve env (path_join rt ''patches/upstream-v091-prs/series'')) = Inr es
         \<and> distinct es \<and> length es = 7)
    \<and> (\<exists>es. series_entries env (resolve env (path_join rt ''patches/v091-candidate/series'')) = Inr es
         \<and> distinct es \<and> length es = 35)"
proof -
  from manifest_accept_parts [OF assms(1)] obtain data pr loc t up where
    d: "Option.bind (read_file env (resolve env manifest)) (parse_toml env) = Some data"
      "dget data ''upstream'' = JObj up" "dget up ''pin'' = JStr pin"
      "dget data ''target'' = JObj t" "\<forall>(k, w)\<in>set expected_target. py_eq (dget t k) w" and
    p: "verify_section env rt data ''proposed_upstream_patches'' ''patches/upstream-v091-prs''
      proposed_files 7 = Inr pr" and
    l: "verify_section env rt data ''patches'' ''patches/v091-candidate'' local_files 35 = Inr loc"
    unfolding rt_def .
  show ?thesis
    using d verify_section_sound [OF p] verify_section_sound [OF l]
    by (intro exI [of _ data] exI [of _ pr] exI [of _ loc])
      (simp add: proposed_files_def local_files_def)
qed

text \<open>Tampering is detected.  If a manifest is accepted and then the content of one of the five
  locked files changes to one with another digest, with the manifest itself untouched, the same
  validation fails.
\<close>

theorem tampering_detected:
  assumes "validate_manifest env [overlay_root, manifest, pin] = Inr ()"
    and "path \<in> (\<lambda>(key, expected, hash). resolve env (path_join (resolve env overlay_root) expected))
           ` set (proposed_files @ local_files)"
    and "path \<noteq> resolve env manifest"
    and "read_file env path = Some old" and "sha env new \<noteq> sha env old"
  shows "validate_manifest (env\<lparr>read_file := (read_file env)(path \<mapsto> new)\<rparr>)
    [overlay_root, manifest, pin] \<noteq> Inr ()"
proof
  let ?e = "env\<lparr>read_file := (read_file env)(path \<mapsto> new)\<rparr>"
  let ?rt = "resolve env overlay_root"
  assume "validate_manifest ?e [overlay_root, manifest, pin] = Inr ()"
  from manifest_sections [OF this] obtain data' pr' loc' where
    d': "Option.bind (read_file ?e (resolve env manifest)) (parse_toml env) = Some data'" and
    p': "verify_section ?e ?rt data' ''proposed_upstream_patches'' ''patches/upstream-v091-prs''
      proposed_files 7 = Inr pr'" and
    l': "verify_section ?e ?rt data' ''patches'' ''patches/v091-candidate'' local_files 35 = Inr loc'"
    by auto
  from manifest_sections [OF assms(1)] obtain data pr loc where
    d: "Option.bind (read_file env (resolve env manifest)) (parse_toml env) = Some data" and
    p: "verify_section env ?rt data ''proposed_upstream_patches'' ''patches/upstream-v091-prs''
      proposed_files 7 = Inr pr" and
    l: "verify_section env ?rt data ''patches'' ''patches/v091-candidate'' local_files 35 = Inr loc"
    by auto
  have [simp]: "data' = data" using d d' assms(3) by simp
  note s = verify_section_sound [OF p] verify_section_sound [OF p']
    verify_section_sound [OF l] verify_section_sound [OF l']
  have [simp]: "pr' = pr" "loc' = loc" using s by (auto simp: proposed_files_def local_files_def)
  have no: "\<not> (locked_ok env ?rt entry f \<and> locked_ok ?e ?rt entry f)"
    if "path = (\<lambda>(key, expected, hash). resolve env (path_join ?rt expected)) f" for entry f
    using that assms(4,5) by (cases f) (auto simp: locked_ok_def)
  from assms(2) obtain f where f: "f \<in> set proposed_files \<or> f \<in> set local_files"
    "path = (\<lambda>(key, expected, hash). resolve env (path_join ?rt expected)) f" by auto
  show False
    using f(1) no [OF f(2)] s by (auto simp: proposed_files_def local_files_def)
qed

theorem manifest_accept_sound_witness:
  "\<exists>es. series_entries demo_menv ''/o/patches/v091-candidate/series'' = Inr es
         \<and> distinct es \<and> length es = 35"
  using manifest_accept_sound [OF demo_accepted]
  by (auto simp: path_join_def)

theorem tampering_detected_witness:
  "validate_manifest (demo_menv\<lparr>read_file := (read_file demo_menv)
      (''/o/patches/upstream-v091-prs/LOCK'' \<mapsto> ''LL'')\<rparr>) [''/o'', ''/o/m.toml'', ''abc''] \<noteq> Inr ()"
  by (rule tampering_detected [OF demo_accepted, where old = "''L''"])
    (simp_all add: demo_menv_def demo_sha_def path_join_def proposed_files_def local_files_def)

text \<open>
  The CUDA probe is fail-closed and compares majors.  The exit status is 0 or 7; it is 7
  whenever one of the two versions cannot be determined; and with the driver at version \<open>d\<close> and
  torch reporting \<^verbatim>\<open>m.x\<close>, it is 0 exactly when \<open>1000 * m\<close> does not exceed \<open>d\<close>.
\<close>

theorem probe_fail_closed:
  "probe_exit e \<in> {0, 7}
   \<and> (driver_version e = None \<or> torch_version e = None \<longrightarrow> probe_exit e = 7)
   \<and> (driver_version e = Some d \<and> torch_version e = Some (str_nat m @ CHR ''.'' # x)
        \<longrightarrow> probe_exit e = (if 1000 * int m \<le> d then 0 else 7))"
proof -
  have "d = 1000 * (d div 1000) + d mod 1000" "0 \<le> d mod 1000" "d mod 1000 < 1000" by simp_all
  then have "int m > d div 1000 \<longleftrightarrow> \<not> 1000 * int m \<le> d" by linarith
  then show ?thesis
    by (auto simp: probe_exit_def before_append dot_not_digit split: option.splits)
qed

definition demo_cuda :: cuda_env where
  "demo_cuda = \<lparr>env_driver = None, env_torch = Some ''12.8'', lib_loads = True, cu_init = 0,
     cu_version_status = 0, cu_version = 12060, torch_imports = False, torch_cuda = None,
     torch_available = False\<rparr>"

theorem probe_fail_closed_witness: "probe_exit demo_cuda = 0"
proof -
  have "torch_version demo_cuda = Some (str_nat 12 @ CHR ''.'' # ''8'')" by code_simp
  moreover have "driver_version demo_cuda = Some 12060" by code_simp
  ultimately show ?thesis using probe_fail_closed [of demo_cuda 12060 12 "''8''"] by simp
qed

text \<open>
  The release tuple.  The gate exits with 0 exactly on the qualified host tuple, TensorRT
  being any version whose text starts with \<^verbatim>\<open>10.3\<close>, and otherwise lists at least one
  mismatching field.  The prefix test also admits \<^verbatim>\<open>10.30\<close>, which is not a
  \<^verbatim>\<open>10.3.x\<close> release.
\<close>

theorem release_target_exact:
  "(release_target_exit a = 0 \<longleftrightarrow>
      p_sm a = ''87'' \<and> p_platform a = ''tegra'' \<and> p_embedded_target a = ''jetson-orin''
      \<and> p_l4t a = ''36.4.3'' \<and> p_cuda a = ''12.6'' \<and> (\<exists>x. p_tensorrt a = ''10.3'' @ x))
   \<and> release_target_exit \<lparr>p_sm = ''87'', p_platform = ''tegra'', p_embedded_target = ''jetson-orin'',
        p_l4t = ''36.4.3'', p_cuda = ''12.6'', p_tensorrt = ''10.30.1''\<rparr> = 0"
  by (auto simp: release_target_exit_def release_mismatches_def prefix_def split: if_splits)

text \<open>The SparkTTS token gate.  Apart from a wrong argument count (status 2), it exits with 0 on
  a record that has passed in the requested mode with 32 global tokens and with 10 on every other
  JSON object and on a file that cannot be read or parsed.  A JSON value that is not an object
  escapes as an uncaught exception instead.
\<close>

theorem spark_gate_total:
  "spark_gate [path, mode] load =
     (case load path of
        Some (JObj g) \<Rightarrow>
          Exit (if dget g ''passed'' = JBool True \<and> dget g ''mode'' = JStr mode
                   \<and> num_of (dget g ''global_token_count'') = Some 32 then 0 else 10)
      | None \<Rightarrow> Exit 10
      | _ \<Rightarrow> Uncaught)
   \<and> (length argv \<noteq> 2 \<longrightarrow> spark_gate argv load = Exit 2)"
proof -
  have "py_eq v (JInt 32) \<longleftrightarrow> num_of v = Some 32" for v
    by (cases v) (auto simp: py_eq_def)
  then show ?thesis
    by (auto simp: spark_gate_def split: option.splits json.splits list.splits)
qed

theorem spark_gate_total_witness: "spark_gate [] (\<lambda>_. None) = Exit 2"
  using spark_gate_total [of "[]" "[]" "\<lambda>_. None" "[]"] by simp

end
