(* ===== verification/Artifacts.thy ===== *)
theory Artifacts
  imports Py_Text "HOL-Library.List_Lexorder" "HOL-Library.Char_ord"
begin

text \<open>
  Artifact deployment and packaging: \<^verbatim>\<open>scripts/deploy_qwen3_artifacts.py\<close> (verify or download
  an artifact set, generate and verify its checksum sidecar) and
  \<^verbatim>\<open>scripts/package_qwen3_artifacts.py\<close> (stage a set for upload).  The file system is a store
  from path text to the bytes of the regular file there; directories are implied by their files.
  SHA-256, JSON printing and parsing and the download tools are fields of an environment record.
\<close>

type_synonym store = "string \<Rightarrow> string option"

datatype art_error =
    KeyErr
  | AttributeErr
  | TypeErr
  | ValueErr
  | FileNotFound string
  | SameFile string
  | BadJson
  | RepoNotConfigured
  | NoDownloader
  | DownloadFailed

section \<open>JSON access\<close>

text \<open>\<^verbatim>\<open>x.get(k, default)\<close>; anything but a dictionary has no such attribute.\<close>

fun jget :: "json \<Rightarrow> string \<Rightarrow> json \<Rightarrow> art_error + json" where
  "jget (JObj d) k dflt = Inr (case map_of d k of None \<Rightarrow> dflt | Some v \<Rightarrow> v)"
| "jget _ k dflt = Inl AttributeErr"

text \<open>\<^verbatim>\<open>x[k]\<close> on a dictionary.\<close>

fun jindex :: "json \<Rightarrow> string \<Rightarrow> art_error + json" where
  "jindex (JObj d) k = of_option KeyErr (map_of d k)"
| "jindex _ k = Inl TypeErr"

fun strs :: "json list \<Rightarrow> art_error + string list" where
  "strs [] = Inr []"
| "strs (JStr s # xs) = res_bind (strs xs) (\<lambda>r. Inr (s # r))"
| "strs (_ # xs) = Inl TypeErr"

fun str_list :: "json \<Rightarrow> art_error + string list" where
  "str_list (JList xs) = strs xs"
| "str_list _ = Inl TypeErr"

text \<open>\<^verbatim>\<open>json.dump(..., sort_keys=True)\<close> followed by \<^verbatim>\<open>json.load\<close>: every object comes back sorted.\<close>

fun jsort :: "json \<Rightarrow> json" where
  "jsort (JObj d) = JObj (sort_key fst (map (\<lambda>(k, v). (k, jsort v)) d))"
| "jsort (JList xs) = JList (map jsort xs)"
| "jsort v = v"

section \<open>Environment\<close>

record request =
  rq_repo :: string
  rq_type :: json
  rq_revision :: json
  rq_root :: string
  rq_include :: "string list"

record aenv =
  sha256 :: "string \<Rightarrow> string"
  dumps :: "json \<Rightarrow> string"
  loads :: "string \<Rightarrow> json option"
  project_root :: string
  env_root :: "string option"
  env_repo :: "string option"
  env_revision :: "string option"
  hub :: "(request \<Rightarrow> store \<Rightarrow> art_error + store) option"
  hf_cli :: "(request \<Rightarrow> store \<Rightarrow> art_error + store) option"

text \<open>\<^verbatim>\<open>a or b\<close> on optional strings.\<close>

definition str_or :: "string option \<Rightarrow> 'a \<Rightarrow> (string \<Rightarrow> 'a) \<Rightarrow> 'a" where
  "str_or a b f = (case a of Some s \<Rightarrow> if s \<noteq> [] then f s else b | None \<Rightarrow> b)"

definition resolve_path :: "aenv \<Rightarrow> string \<Rightarrow> string" where
  "resolve_path env path = (if prefix ''/'' path then path else path_join (project_root env) path)"

definition load_json :: "aenv \<Rightarrow> store \<Rightarrow> string \<Rightarrow> art_error + json" where
  "load_json env st path =
     res_bind (of_option (FileNotFound path) (st path)) (\<lambda>bytes. of_option BadJson (loads env bytes))"

definition load_manifest :: "aenv \<Rightarrow> store \<Rightarrow> string \<Rightarrow> art_error + json" where
  "load_manifest env st path = load_json env st (resolve_path env path)"

definition artifact_set :: "json \<Rightarrow> string \<Rightarrow> art_error + json" where
  "artifact_set manifest set_name =
     res_bind (jget manifest ''artifact_sets'' (JObj [])) (\<lambda>sets. jindex sets set_name)"

fun path_of :: "json \<Rightarrow> art_error + string" where
  "path_of (JStr s) = Inr s"
| "path_of _ = Inl TypeErr"

definition set_root :: "aenv \<Rightarrow> json \<Rightarrow> string option \<Rightarrow> art_error + string" where
  "set_root env aset root_override =
     str_or root_override
       (str_or (env_root env)
         (res_bind (jget aset ''root'' JNull) (\<lambda>r. path_of (py_or r (JStr ''/opt/models/qwen3-edgellm''))))
         Inr)
       Inr"

definition required_paths ::
  "aenv \<Rightarrow> json \<Rightarrow> string \<Rightarrow> string option \<Rightarrow> art_error + (string \<times> string list)" where
  "required_paths env manifest set_name root_override =
     res_bind (artifact_set manifest set_name) (\<lambda>aset.
     res_bind (set_root env aset root_override) (\<lambda>rt.
     res_bind (jget aset ''required_files'' (JList [])) (\<lambda>files.
     res_bind (str_list files) (\<lambda>rels.
       Inr (rt, map (path_join rt) rels)))))"

definition verify :: "store \<Rightarrow> string list \<Rightarrow> string list" where
  "verify st paths = filter (\<lambda>path. st path = None) paths"

text \<open>\<^verbatim>\<open>path.parent / name\<close>.\<close>

definition sibling :: "string \<Rightarrow> string \<Rightarrow> string" where
  "sibling path name = rev (dropWhile (\<lambda>c. c \<noteq> CHR ''/'') (rev path)) @ name"

definition default_checksum_path :: "string \<Rightarrow> string" where
  "default_checksum_path manifest_path = sibling manifest_path ''qwen3_checksums.json''"

definition load_checksums :: "aenv \<Rightarrow> store \<Rightarrow> string \<Rightarrow> art_error + json" where
  "load_checksums env st path =
     (if st path = None then Inr (JObj [(''schema_version'', JInt 1), (''artifact_sets'', JObj [])])
      else load_json env st path)"

definition write_checksums :: "aenv \<Rightarrow> store \<Rightarrow> string \<Rightarrow> json \<Rightarrow> store" where
  "write_checksums env st path data = st(path \<mapsto> dumps env data @ [CHR 0x0A])"

definition relative_keys :: "json \<Rightarrow> string \<Rightarrow> art_error + string list" where
  "relative_keys manifest set_name =
     res_bind (jindex manifest ''artifact_sets'') (\<lambda>sets.
     res_bind (jindex sets set_name) (\<lambda>aset.
     res_bind (jget aset ''required_files'' (JList [])) str_list))"

section \<open>Checksums\<close>

datatype reason = Missing | SizeMismatch nat json | ShaMismatch string json

definition check_file ::
  "aenv \<Rightarrow> store \<Rightarrow> json \<Rightarrow> string \<Rightarrow> string
     \<Rightarrow> nat \<times> (string \<times> reason) list \<Rightarrow> art_error + nat \<times> (string \<times> reason) list" where
  "check_file env st files rt rel = (\<lambda>(checked, mismatches).
     res_bind (jget files rel JNull) (\<lambda>meta.
       if \<not> truthy meta then Inr (checked, mismatches)
       else case st (path_join rt rel) of
         None \<Rightarrow> Inr (checked, mismatches @ [(rel, Missing)])
       | Some bytes \<Rightarrow>
           res_bind (jget meta ''size_bytes'' JNull) (\<lambda>expected_size.
             if expected_size \<noteq> JNull \<and> \<not> py_eq (JInt (int (length bytes))) expected_size
             then Inr (checked, mismatches @ [(rel, SizeMismatch (length bytes) expected_size)])
             else res_bind (jget meta ''sha256'' JNull) (\<lambda>expected_sha.
               if truthy expected_sha \<and> \<not> py_eq (JStr (sha256 env bytes)) expected_sha
               then Inr (checked, mismatches @ [(rel, ShaMismatch (sha256 env bytes) expected_sha)])
               else Inr (checked + 1, mismatches)))))"

definition verify_checksums ::
  "aenv \<Rightarrow> store \<Rightarrow> json \<Rightarrow> string \<Rightarrow> string \<Rightarrow> string list
     \<Rightarrow> art_error + nat \<times> (string \<times> reason) list" where
  "verify_checksums env st checksums set_name rt rel_keys =
     res_bind (jget checksums ''artifact_sets'' (JObj [])) (\<lambda>sets.
     res_bind (jget sets set_name JNull) (\<lambda>entry.
     res_bind (jget (py_or entry (JObj [])) ''files'' JNull) (\<lambda>f.
       let files = py_or f (JObj [])
       in if \<not> truthy files then Inr (0, [])
          else res_fold (check_file env st files rt) rel_keys (0, []))))"

fun sidecar_files :: "aenv \<Rightarrow> store \<Rightarrow> string \<Rightarrow> string list \<Rightarrow> dict \<Rightarrow> dict" where
  "sidecar_files env st rt [] files = files"
| "sidecar_files env st rt (rel # rels) files =
     (case st (path_join rt rel) of
        None \<Rightarrow> sidecar_files env st rt rels files
      | Some bytes \<Rightarrow>
          sidecar_files env st rt rels
            (AList.update rel (JObj [(''size_bytes'', JInt (int (length bytes))),
                                     (''sha256'', JStr (sha256 env bytes))]) files))"

definition setdefault :: "string \<Rightarrow> json \<Rightarrow> dict \<Rightarrow> dict" where
  "setdefault k v d = (if map_of d k = None then d @ [(k, v)] else d)"

definition generate_sidecar ::
  "aenv \<Rightarrow> store \<Rightarrow> json \<Rightarrow> string \<Rightarrow> string \<Rightarrow> string list \<Rightarrow> art_error + json" where
  "generate_sidecar env st checksums set_name rt rel_keys =
     (let files = sidecar_files env st rt rel_keys [] in
      case checksums of
        JObj c \<Rightarrow>
          (let c = setdefault ''artifact_sets'' (JObj []) (setdefault ''schema_version'' (JInt 1) c) in
           case dget c ''artifact_sets'' of
             JObj sets \<Rightarrow>
               Inr (JObj (AList.update ''artifact_sets''
                 (JObj (AList.update set_name (JObj [(''files'', JObj files)]) sets)) c))
           | _ \<Rightarrow> Inl TypeErr)
      | _ \<Rightarrow> Inl AttributeErr)"

section \<open>Download and the command\<close>

text \<open>The pattern \<^verbatim>\<open>f"{rel}*"\<close> per required file; the hub library first, then the command line.\<close>

definition snapshot_download :: "aenv \<Rightarrow> store \<Rightarrow> json \<Rightarrow> string \<Rightarrow> string \<Rightarrow> art_error + store" where
  "snapshot_download env st manifest set_name rt =
     res_bind (str_or (env_repo env) (jget manifest ''hf_repo_id'' JNull) (\<lambda>s. Inr (JStr s))) (\<lambda>repo.
     res_bind (if \<not> truthy repo then Inl RepoNotConfigured
               else case repo of JStr s \<Rightarrow> if prefix ''REPLACE_WITH_'' s then Inl RepoNotConfigured else Inr s
                    | _ \<Rightarrow> Inl AttributeErr) (\<lambda>repo_id.
     res_bind (str_or (env_revision env) (jget manifest ''revision'' (JStr ''main'')) (\<lambda>s. Inr (JStr s))) (\<lambda>revision.
     res_bind (jget manifest ''repo_type'' (JStr ''model'')) (\<lambda>repo_type.
     res_bind (relative_keys manifest set_name) (\<lambda>rels.
       let rq = \<lparr>rq_repo = repo_id, rq_type = repo_type, rq_revision = revision, rq_root = rt,
                 rq_include = map (\<lambda>rel. rel @ ''*'') rels\<rparr>
       in case hub env of
            Some fetch \<Rightarrow> fetch rq st
          | None \<Rightarrow> (case hf_cli env of Some fetch \<Rightarrow> fetch rq st | None \<Rightarrow> Inl NoDownloader))))))"

record dargs =
  a_manifest :: string
  a_set :: string
  a_root :: "string option"
  a_check_only :: bool
  a_checksums :: "string option"
  a_verify_sha256 :: bool
  a_generate_sidecar :: bool

definition checksum_path :: "aenv \<Rightarrow> dargs \<Rightarrow> string" where
  "checksum_path env a =
     str_or (a_checksums a) (default_checksum_path (resolve_path env (a_manifest a))) (\<lambda>s. s)"

definition generate_branch ::
  "aenv \<Rightarrow> dargs \<Rightarrow> store \<Rightarrow> string \<Rightarrow> string list \<Rightarrow> string list \<Rightarrow> art_error + nat \<times> store" where
  "generate_branch env a st rt paths rel_keys =
     (if verify st paths \<noteq> [] then Inr (4, st)
      else res_bind (load_checksums env st (checksum_path env a)) (\<lambda>checksums.
           res_bind (generate_sidecar env st checksums (a_set a) rt rel_keys) (\<lambda>data.
             Inr (0, write_checksums env st (checksum_path env a) data))))"

definition verify_branch ::
  "aenv \<Rightarrow> dargs \<Rightarrow> store \<Rightarrow> string \<Rightarrow> string list \<Rightarrow> art_error + nat \<times> store" where
  "verify_branch env a st rt rel_keys =
     (if a_verify_sha256 a
      then res_bind (load_checksums env st (checksum_path env a)) (\<lambda>checksums.
           res_bind (verify_checksums env st checksums (a_set a) rt rel_keys) (\<lambda>(checked, mismatches).
             if mismatches \<noteq> [] then Inr (5, st) else Inr (0, st)))
      else Inr (0, st))"

definition deploy_main :: "aenv \<Rightarrow> dargs \<Rightarrow> store \<Rightarrow> art_error + nat \<times> store" where
  "deploy_main env a st =
     res_bind (load_manifest env st (a_manifest a)) (\<lambda>manifest.
     res_bind (required_paths env manifest (a_set a) (a_root a)) (\<lambda>(rt, paths).
     res_bind (relative_keys manifest (a_set a)) (\<lambda>rel_keys.
       if a_generate_sidecar a then generate_branch env a st rt paths rel_keys
       else if verify st paths \<noteq> [] then
         (if a_check_only a then Inr (2, st)
          else res_bind (snapshot_download env st manifest (a_set a) rt) (\<lambda>st'.
            if verify st' paths \<noteq> [] then Inr (3, st')
            else verify_branch env a st' rt rel_keys))
       else verify_branch env a st rt rel_keys)))"

section \<open>Packaging\<close>

definition required_files :: "json \<Rightarrow> string \<Rightarrow> art_error + string list" where
  "required_files manifest set_name =
     res_bind (artifact_set manifest set_name) (\<lambda>aset.
     res_bind (jget aset ''required_files'' (JList [])) str_list)"

text \<open>\<^verbatim>\<open>--map RELATIVE_PATH=SOURCE_PATH\<close>; \<open>expand\<close> is \<^verbatim>\<open>Path.expanduser\<close>.\<close>

fun parse_maps ::
  "(string \<Rightarrow> string) \<Rightarrow> string list \<Rightarrow> (string \<times> string) list \<Rightarrow> art_error + (string \<times> string) list" where
  "parse_maps expand [] result = Inr result"
| "parse_maps expand (v # vs) result =
     (if CHR ''='' \<notin> set v then Inl ValueErr
      else parse_maps expand vs (AList.update (before (CHR ''='') v) (expand (after (CHR ''='') v)) result))"

definition resolve_source :: "string \<Rightarrow> string option \<Rightarrow> (string \<times> string) list \<Rightarrow> string option" where
  "resolve_source rel source_root maps =
     (case map_of maps rel of
        Some src \<Rightarrow> Some src
      | None \<Rightarrow> (case source_root of None \<Rightarrow> None | Some r \<Rightarrow> Some (path_join r rel)))"

text \<open>\<^verbatim>\<open>shutil.copy2\<close> raises when source and destination are one file.\<close>

definition copy2 :: "store \<Rightarrow> string \<Rightarrow> string \<Rightarrow> art_error + store" where
  "copy2 st src dst =
     (if src = dst then Inl (SameFile src)
      else res_bind (of_option (FileNotFound src) (st src)) (\<lambda>bytes. Inr (st(dst \<mapsto> bytes))))"

record staged_file =
  sf_path :: string
  sf_source :: string
  sf_size :: nat
  sf_sha256 :: string

record pargs =
  p_manifest :: string
  p_set :: string
  p_source_root :: "string option"
  p_out :: string
  p_map :: "string list"
  p_dry_run :: bool

record pstate =
  staged :: "staged_file list"
  missing :: "(string \<times> string) list"
  disk :: store

definition stage_file ::
  "aenv \<Rightarrow> bool \<Rightarrow> string option \<Rightarrow> (string \<times> string) list \<Rightarrow> string \<Rightarrow> string \<Rightarrow> pstate \<Rightarrow> art_error + pstate" where
  "stage_file env dry source_root maps out_root rel s =
     (case resolve_source rel source_root maps of
        None \<Rightarrow> Inr (s\<lparr>missing := missing s @ [(rel, ''no source mapping'')]\<rparr>)
      | Some src \<Rightarrow>
          (case disk s src of
             None \<Rightarrow> Inr (s\<lparr>missing := missing s @ [(rel, src)]\<rparr>)
           | Some bytes \<Rightarrow>
               (let f = \<lparr>sf_path = rel, sf_source = src, sf_size = length bytes,
                         sf_sha256 = (if dry then [] else sha256 env bytes)\<rparr>;
                    s = s\<lparr>staged := staged s @ [f]\<rparr>
                in if dry then Inr s
                   else res_bind (copy2 (disk s) src (path_join out_root rel)) (\<lambda>d. Inr (s\<lparr>disk := d\<rparr>)))))"

definition staged_json :: "staged_file \<Rightarrow> json" where
  "staged_json f = JObj [(''path'', JStr (sf_path f)), (''source'', JStr (sf_source f)),
     (''size'', JInt (int (sf_size f))), (''sha256'', JStr (sf_sha256 f))]"

definition inventory :: "pargs \<Rightarrow> staged_file list \<Rightarrow> json" where
  "inventory a fs = JObj [(''schema_version'', JInt 1), (''artifact_set'', JStr (p_set a)),
     (''manifest'', JStr (p_manifest a)), (''files'', JList (map staged_json fs))]"

definition inventory_path :: "(string \<Rightarrow> string) \<Rightarrow> pargs \<Rightarrow> string" where
  "inventory_path expand a =
     path_join (path_join (expand (p_out a)) ''checksums'') (p_set a @ ''.json'')"

definition stage_files ::
  "aenv \<Rightarrow> (string \<Rightarrow> string) \<Rightarrow> pargs \<Rightarrow> (string \<times> string) list \<Rightarrow> string list \<Rightarrow> store \<Rightarrow> art_error + pstate" where
  "stage_files env expand a maps rels st =
     res_fold (stage_file env (p_dry_run a) (str_or (p_source_root a) None (\<lambda>s. Some (expand s))) maps
         (expand (p_out a))) rels \<lparr>staged = [], missing = [], disk = st\<rparr>"

definition package_main ::
  "aenv \<Rightarrow> (string \<Rightarrow> string) \<Rightarrow> pargs \<Rightarrow> store \<Rightarrow> art_error + nat \<times> store" where
  "package_main env expand a st =
     res_bind (load_json env st (p_manifest a)) (\<lambda>manifest.
     res_bind (required_files manifest (p_set a)) (\<lambda>rels.
     res_bind (parse_maps expand (p_map a) []) (\<lambda>maps.
     res_bind (stage_files env expand a maps rels st) (\<lambda>s.
       if missing s \<noteq> [] then Inr (2, disk s)
       else if p_dry_run a then Inr (0, disk s)
       else Inr (0, (disk s)(inventory_path expand a
              \<mapsto> dumps env (inventory a (staged s)) @ [CHR 0x0A]))))))"

end
