(* ===== verification/Artifacts_Props.thy ===== *)
theory Artifacts_Props
  imports Artifacts
begin

text \<open>
  What the artifact commands guarantee: a generated sidecar verifies and detects every later
  change of a required file, the exit statuses mean what they say, and a staged set is an exact
  copy that the deployment check accepts.
\<close>

section \<open>Sorted JSON documents\<close>

lemma map_of_insort: "map_of (insort_key fst x xs) = map_of (x # xs)"
proof (induction xs)
  case (Cons y ys)
  then show ?case by (cases x; cases y) (auto simp: fun_eq_iff)
qed simp

lemma map_of_sort_key [simp]: "map_of (sort_key fst xs) = map_of xs"
proof (induction xs)
  case (Cons x xs)
  then show ?case by (cases x) (simp add: map_of_insort)
qed simp

lemma sort_key_Nil_iff [simp]: "sort_key f xs = [] \<longleftrightarrow> xs = []"
  by (metis length_0_conv length_sort)

lemma truthy_jsort [simp]: "truthy (jsort j) = truthy j"
  by (cases j) auto

lemma map_of_map_snd: "map_of (map (\<lambda>(k, v). (k, f v)) d) k = map_option f (map_of d k)"
  by (induction d) auto

lemma jget_jsort [simp]:
  "jget (jsort (JObj d)) k dflt = Inr (case map_of d k of None \<Rightarrow> dflt | Some v \<Rightarrow> jsort v)"
  by (simp add: map_of_map_snd split: option.splits)

declare jsort.simps(1) [simp del]

lemma jsort_obj_cases: "\<exists>d'. jsort (JObj d) = JObj d'"
  by (simp add: jsort.simps(1))

section \<open>The sidecar\<close>

definition entry_of :: "aenv \<Rightarrow> string \<Rightarrow> json" where
  "entry_of env bytes = JObj [(''size_bytes'', JInt (int (length bytes))), (''sha256'', JStr (sha256 env bytes))]"

lemma map_of_sidecar_files:
  "map_of (sidecar_files env st rt rels acc) rel =
     (case st (path_join rt rel) of
        Some bytes \<Rightarrow> if rel \<in> set rels then Some (entry_of env bytes) else map_of acc rel
      | None \<Rightarrow> map_of acc rel)"
  by (induction rels arbitrary: acc) (auto simp: entry_of_def split: option.splits)

definition same_file :: "aenv \<Rightarrow> string \<Rightarrow> string \<Rightarrow> bool" where
  "same_file env old new \<longleftrightarrow>
     length old = length new \<and> (sha256 env old = [] \<or> sha256 env old = sha256 env new)"

lemma py_eq_JInt [simp]: "py_eq (JInt a) (JInt b) \<longleftrightarrow> a = b"
  by (simp add: py_eq_def)

lemma check_recorded:
  assumes "map_of files rel = Some (entry_of env old)" and "st (path_join rt rel) = Some new"
  shows "\<exists>m. check_file env st (jsort (JObj files)) rt rel (c, ms)
    = Inr (if same_file env old new then (c + 1, ms) else (c, ms @ [(rel, m)]))"
  using assms by (auto simp: check_file_def entry_of_def same_file_def)

lemma check_all_recorded:
  assumes "\<forall>rel\<in>set rels. map_of files rel = Some (entry_of env (old rel))
      \<and> st (path_join rt rel) = Some (new rel)"
  shows "\<exists>c' ms'. res_fold (check_file env st (jsort (JObj files)) rt) rels (c, ms) = Inr (c', ms @ ms')
    \<and> (ms' = [] \<longleftrightarrow> (\<forall>rel\<in>set rels. same_file env (old rel) (new rel)))
    \<and> (ms' = [] \<longrightarrow> c' = c + length rels)"
  using assms
proof (induction rels arbitrary: c ms)
  case (Cons rel rels)
  from check_recorded [of files rel env "old rel" st rt "new rel" c ms] Cons.prems obtain m where
    m: "check_file env st (jsort (JObj files)) rt rel (c, ms)
      = Inr (if same_file env (old rel) (new rel) then (c + 1, ms) else (c, ms @ [(rel, m)]))"
    by auto
  show ?case
  proof (cases "same_file env (old rel) (new rel)")
    case True
    with Cons.IH [of "c + 1" ms] Cons.prems m show ?thesis by auto
  next
    case False
    with Cons.IH [of c "ms @ [(rel, m)]"] Cons.prems m show ?thesis by fastforce
  qed
qed simp

lemma generated_document:
  assumes "generate_sidecar env st checksums set_name rt rels = Inr data"
  shows "\<exists>c sets. data = JObj c \<and> map_of c ''artifact_sets'' = Some (JObj sets)
    \<and> map_of sets set_name = Some (JObj [(''files'', JObj (sidecar_files env st rt rels []))])"
  using assms by (auto simp: generate_sidecar_def Let_def split: json.splits)

text \<open>Verifying any store against the sidecar that was generated from another one.\<close>

lemma verify_generated:
  assumes "generate_sidecar env st0 checksums set_name rt rels = Inr data"
    and "\<forall>rel\<in>set rels. st0 (path_join rt rel) = Some (old rel) \<and> st (path_join rt rel) = Some (new rel)"
  shows "\<exists>c ms. verify_checksums env st (jsort data) set_name rt rels = Inr (c, ms)
    \<and> (ms = [] \<longleftrightarrow> (\<forall>rel\<in>set rels. same_file env (old rel) (new rel)))
    \<and> (ms = [] \<longrightarrow> c = length rels)"
proof -
  let ?files = "sidecar_files env st0 rt rels []"
  from generated_document [OF assms(1)] obtain c sets where
    d: "data = JObj c" "map_of c ''artifact_sets'' = Some (JObj sets)"
      "map_of sets set_name = Some (JObj [(''files'', JObj ?files)])" by auto
  have rec: "\<forall>rel\<in>set rels. map_of ?files rel = Some (entry_of env (old rel))
      \<and> st (path_join rt rel) = Some (new rel)"
    using assms(2) by (simp add: map_of_sidecar_files)
  then have "?files = [] \<longrightarrow> rels = []" by (cases rels) force+
  then have "verify_checksums env st (jsort data) set_name rt rels
      = res_fold (check_file env st (jsort (JObj ?files)) rt) rels (0, [])"
    unfolding verify_checksums_def d(1) by (auto simp: d(2,3) py_or_def)
  then show ?thesis using check_all_recorded [OF rec, of 0 "[]"] by auto
qed

lemma jget_Inr: "jget j k v = Inr x \<longleftrightarrow> (\<exists>d. j = JObj d \<and> x = (case map_of d k of None \<Rightarrow> v | Some y \<Rightarrow> y))"
  by (cases j) auto

lemma jindex_Inr: "jindex j k = Inr x \<longleftrightarrow> (\<exists>d. j = JObj d \<and> map_of d k = Some x)"
  by (cases j) auto

lemma required_paths_keys:
  assumes "required_paths env manifest set_name ovr = Inr (rt, paths)"
  shows "\<exists>rels. relative_keys manifest set_name = Inr rels \<and> paths = map (path_join rt) rels"
proof -
  from assms obtain aset files rels where
    a: "artifact_set manifest set_name = Inr aset" "jget aset ''required_files'' (JList []) = Inr files"
      "str_list files = Inr rels" "paths = map (path_join rt) rels"
    unfolding required_paths_def by auto
  from a(1) obtain sets where s: "jindex manifest ''artifact_sets'' = Inr sets" "jindex sets set_name = Inr aset"
    by (auto simp: artifact_set_def jget_Inr jindex_Inr split: option.splits)
  with a have "relative_keys manifest set_name = Inr rels" by (simp add: relative_keys_def)
  with a(4) show ?thesis by blast
qed

text \<open>The command once the manifest, the root and the required files are known.\<close>

lemma deploy_main_unfold:
  assumes "load_manifest env st (a_manifest a) = Inr manifest"
    and "required_paths env manifest (a_set a) (a_root a) = Inr (rt, paths)"
    and "relative_keys manifest (a_set a) = Inr rels"
  shows "deploy_main env a st =
    (if a_generate_sidecar a then generate_branch env a st rt paths rels
     else if verify st paths \<noteq> [] then
       (if a_check_only a then Inr (2, st)
        else res_bind (snapshot_download env st manifest (a_set a) rt) (\<lambda>st'.
          if verify st' paths \<noteq> [] then Inr (3, st')
          else verify_branch env a st' rt rels))
     else verify_branch env a st rt rels)"
  by (simp add: deploy_main_def assms)

lemma verify_Nil [simp]: "verify st paths = [] \<longleftrightarrow> (\<forall>p\<in>set paths. st p \<noteq> None)"
  by (auto simp: verify_def filter_empty_conv)

text \<open>A generating run that succeeds: the document written and the store it leaves.\<close>

lemma generate_run:
  assumes "load_manifest env st (a_manifest a) = Inr manifest"
    and "required_paths env manifest (a_set a) (a_root a) = Inr (rt, map (path_join rt) rels)"
    and "relative_keys manifest (a_set a) = Inr rels"
    and "a_generate_sidecar a" and "deploy_main env a st = Inr (0, st')"
  obtains checksums data where
    "load_checksums env st (checksum_path env a) = Inr checksums"
    "generate_sidecar env st checksums (a_set a) rt rels = Inr data"
    "st' = st(checksum_path env a \<mapsto> dumps env data @ [CHR 0x0A])"
    "\<forall>rel\<in>set rels. st (path_join rt rel) \<noteq> None"
  using assms(4,5) that unfolding deploy_main_unfold [OF assms(1-3)]
  by (auto simp: generate_branch_def write_checksums_def split: if_splits)

text \<open>
  A later verification, of a store in which the manifest and the sidecar are as the generating
  run left them and every required file exists.
\<close>

lemma verify_after_generate:
  assumes man: "load_manifest env st (a_manifest a) = Inr manifest"
    and req: "required_paths env manifest (a_set a) (a_root a) = Inr (rt, map (path_join rt) rels)"
    and keys: "relative_keys manifest (a_set a) = Inr rels"
    and gen: "generate_sidecar env st0 checksums (a_set a) rt rels = Inr data"
    and law: "loads env (dumps env data @ [CHR 0x0A]) = Some (jsort data)"
    and side: "st (checksum_path env a) = Some (dumps env data @ [CHR 0x0A])"
    and ex: "\<forall>rel\<in>set rels. st0 (path_join rt rel) \<noteq> None \<and> st (path_join rt rel) \<noteq> None"
    and mode: "\<not> a_generate_sidecar a" "a_verify_sha256 a"
  shows "deploy_main env a st =
    Inr (if \<forall>rel\<in>set rels. same_file env (the (st0 (path_join rt rel))) (the (st (path_join rt rel)))
         then 0 else 5, st)"
proof -
  from ex have "\<forall>rel\<in>set rels. st0 (path_join rt rel) = Some (the (st0 (path_join rt rel)))
      \<and> st (path_join rt rel) = Some (the (st (path_join rt rel)))" by auto
  from verify_generated [OF gen this] obtain c ms where
    v: "verify_checksums env st (jsort data) (a_set a) rt rels = Inr (c, ms)"
      "ms = [] \<longleftrightarrow> (\<forall>rel\<in>set rels.
         same_file env (the (st0 (path_join rt rel))) (the (st (path_join rt rel))))" by auto
  show ?thesis
    unfolding deploy_main_unfold [OF man req keys]
    using mode side law ex v by (simp add: verify_branch_def load_checksums_def load_json_def)
qed

section \<open>Staging\<close>

lemma stage_files_run:
  assumes "res_fold (stage_file env False sr maps out) rels s = Inr s'" and "missing s' = []"
    and "\<forall>rel\<in>set rels. \<forall>rel'\<in>set rels. resolve_source rel sr maps \<noteq> Some (path_join out rel')"
  shows "missing s = [] \<and> (\<forall>p. p \<notin> path_join out ` set rels \<longrightarrow> disk s' p = disk s p)
    \<and> (\<forall>rel\<in>set rels. \<exists>src bytes. resolve_source rel sr maps = Some src \<and> disk s src = Some bytes)
    \<and> staged s' = staged s @ map (\<lambda>rel. let src = the (resolve_source rel sr maps);
          bytes = the (disk s src)
        in \<lparr>sf_path = rel, sf_source = src, sf_size = length bytes, sf_sha256 = sha256 env bytes\<rparr>) rels
    \<and> (inj_on (path_join out) (set rels) \<longrightarrow>
         (\<forall>rel\<in>set rels. disk s' (path_join out rel) = disk s (the (resolve_source rel sr maps))))"
  using assms
proof (induction rels arbitrary: s)
  case Nil
  then show ?case by simp
next
  case (Cons rel rels)
  from Cons.prems(1) obtain s1 where
    s1: "stage_file env False sr maps out rel s = Inr s1" and
    rest: "res_fold (stage_file env False sr maps out) rels s1 = Inr s'" by auto
  have src': "\<forall>rel\<in>set rels. \<forall>rel'\<in>set rels. resolve_source rel sr maps \<noteq> Some (path_join out rel')"
    using Cons.prems(3) by simp
  note IH = Cons.IH [OF rest Cons.prems(2) src']
  from s1 IH obtain src bytes where
    sb: "resolve_source rel sr maps = Some src" "disk s src = Some bytes" "missing s = []" and
    s1': "s1 = s\<lparr>staged := staged s @ [\<lparr>sf_path = rel, sf_source = src, sf_size = length bytes,
        sf_sha256 = sha256 env bytes\<rparr>], disk := (disk s)(path_join out rel \<mapsto> bytes)\<rparr>"
    by (auto simp: stage_file_def copy2_def Let_def split: option.splits if_splits)
  have old: "disk s1 (the (resolve_source r sr maps)) = disk s (the (resolve_source r sr maps))"
    if "r \<in> set rels" for r
  proof -
    from that IH obtain x where "resolve_source r sr maps = Some x" by blast
    moreover have "x \<noteq> path_join out rel" using Cons.prems(3) that calculation by auto
    ultimately show ?thesis by (simp add: s1')
  qed
  have ex: "\<exists>x bytes. resolve_source r sr maps = Some x \<and> disk s x = Some bytes" if "r \<in> set rels" for r
    using IH that old [OF that] by (metis option.sel)
  have here: "disk s' (path_join out rel) = Some bytes"
    if "inj_on (path_join out) (set (rel # rels))"
  proof (cases "rel \<in> set rels")
    case True
    then show ?thesis using IH that old [OF True] sb by auto
  next
    case False
    then have "path_join out rel \<notin> path_join out ` set rels" using that by auto
    then show ?thesis using IH by (simp add: s1')
  qed
  show ?case
    using IH sb old ex here by (auto simp: s1' Let_def inj_on_def)
qed

section \<open>Verification\<close>

text \<open>What the sidecar has on a file, and when a file is not what it has.\<close>

fun jfield :: "json \<Rightarrow> string \<Rightarrow> json" where
  "jfield (JObj d) k = dget d k"
| "jfield _ k = JNull"

definition sidecar_entry :: "json \<Rightarrow> string \<Rightarrow> string \<Rightarrow> json" where
  "sidecar_entry checksums set_name rel =
     jfield (jfield (jfield (jfield checksums ''artifact_sets'') set_name) ''files'') rel"

definition mismatched :: "aenv \<Rightarrow> json \<Rightarrow> string option \<Rightarrow> bool" where
  "mismatched env meta content \<longleftrightarrow> truthy meta \<and>
     (case content of None \<Rightarrow> True
      | Some bytes \<Rightarrow>
          jfield meta ''size_bytes'' \<noteq> JNull \<and> \<not> py_eq (JInt (int (length bytes))) (jfield meta ''size_bytes'')
          \<or> truthy (jfield meta ''sha256'') \<and> \<not> py_eq (JStr (sha256 env bytes)) (jfield meta ''sha256''))"

lemma jget_null: "jget j k JNull = Inr x \<Longrightarrow> x = jfield j k"
  by (cases j) (auto simp: dget_def split: option.splits)

lemma check_file_result:
  assumes "check_file env st files rt rel (c, ms) = Inr (c', ms')"
  shows "if mismatched env (jfield files rel) (st (path_join rt rel)) then \<exists>m. ms' = ms @ [(rel, m)] else ms' = ms"
proof -
  from assms obtain meta where m: "jget files rel JNull = Inr meta"
    "(if \<not> truthy meta then Inr (c, ms)
       else case st (path_join rt rel) of
         None \<Rightarrow> Inr (c, ms @ [(rel, Missing)])
       | Some bytes \<Rightarrow>
           res_bind (jget meta ''size_bytes'' JNull) (\<lambda>expected_size.
             if expected_size \<noteq> JNull \<and> \<not> py_eq (JInt (int (length bytes))) expected_size
             then Inr (c, ms @ [(rel, SizeMismatch (length bytes) expected_size)])
             else res_bind (jget meta ''sha256'' JNull) (\<lambda>expected_sha.
               if truthy expected_sha \<and> \<not> py_eq (JStr (sha256 env bytes)) expected_sha
               then Inr (c, ms @ [(rel, ShaMismatch (sha256 env bytes) expected_sha)])
               else Inr (c + 1, ms)))) = Inr (c', ms')"
    by (auto simp: check_file_def)
  have meta: "jfield files rel = meta" using jget_null [OF m(1)] by simp
  show ?thesis
  proof (cases "truthy meta")
    case True
    then show ?thesis
      using m(2) unfolding meta mismatched_def
      by (auto split: option.splits if_splits dest!: jget_null)
  qed (use m(2) in \<open>auto simp: meta mismatched_def\<close>)
qed

lemma check_all_result:
  assumes "res_fold (check_file env st files rt) rels (c, ms) = Inr (c', ms')"
  shows "map fst ms' = map fst ms @ filter (\<lambda>rel. mismatched env (jfield files rel) (st (path_join rt rel))) rels"
  using assms
proof (induction rels arbitrary: c ms)
  case (Cons rel rels)
  then obtain c1 ms1 where s: "check_file env st files rt rel (c, ms) = Inr (c1, ms1)"
    "res_fold (check_file env st files rt) rels (c1, ms1) = Inr (c', ms')" by auto
  then show ?case using check_file_result [OF s(1)] Cons.IH [OF s(2)] by (auto split: if_splits)
qed simp

lemma jfield_falsy: "\<not> truthy j \<Longrightarrow> jfield j k = JNull"
  by (cases j) (auto simp: dget_def)

lemma jfield_py_or: "jfield (py_or j (JObj [])) k = jfield j k"
  by (auto simp: py_or_def jfield_falsy dget_def)

lemma verify_checksums_result:
  assumes "verify_checksums env st checksums set_name rt rels = Inr (c, ms)"
  shows "map fst ms = filter (\<lambda>rel. mismatched env (sidecar_entry checksums set_name rel) (st (path_join rt rel))) rels"
proof -
  from assms obtain sets entry f where j: "jget checksums ''artifact_sets'' (JObj []) = Inr sets"
    "jget sets set_name JNull = Inr entry" "jget (py_or entry (JObj [])) ''files'' JNull = Inr f"
    "(if \<not> truthy (py_or f (JObj [])) then Inr (0, [])
      else res_fold (check_file env st (py_or f (JObj [])) rt) rels (0, [])) = Inr (c, ms)"
    by (auto simp: verify_checksums_def Let_def)
  have "jfield sets set_name = jfield (jfield checksums ''artifact_sets'') set_name"
    using j(1) by (cases checksums) (auto simp: dget_def split: option.splits)
  then have e: "sidecar_entry checksums set_name rel = jfield (py_or f (JObj [])) rel" for rel
    using jget_null [OF j(2)] jget_null [OF j(3)] by (simp add: sidecar_entry_def jfield_py_or)
  show ?thesis
  proof (cases "truthy (py_or f (JObj []))")
    case True
    then show ?thesis using j(4) check_all_result [of env st "py_or f (JObj [])" rt rels 0 "[]" c ms] by (simp add: e)
  next
    case False
    then show ?thesis using j(4) by (simp add: e jfield_falsy mismatched_def)
  qed
qed

text \<open>The files of the set that are not what the sidecar of the run has on them.\<close>

definition wrong_files :: "aenv \<Rightarrow> dargs \<Rightarrow> store \<Rightarrow> string \<Rightarrow> string list \<Rightarrow> string set option" where
  "wrong_files env a st rt rels =
     (case load_checksums env st (checksum_path env a) of
        Inl e \<Rightarrow> None
      | Inr checksums \<Rightarrow>
          Some {rel \<in> set rels. mismatched env (sidecar_entry checksums (a_set a) rel) (st (path_join rt rel))})"

lemma verify_branch_result:
  assumes "verify_branch env a st rt rels = Inr (c, t)"
  shows "t = st \<and> (if a_verify_sha256 a
    then \<exists>wrong. wrong_files env a st rt rels = Some wrong \<and> c = (if wrong = {} then 0 else 5) else c = 0)"
proof (cases "a_verify_sha256 a")
  case True
  with assms obtain checksums n ms where v: "load_checksums env st (checksum_path env a) = Inr checksums"
    "verify_checksums env st checksums (a_set a) rt rels = Inr (n, ms)" "(c, t) = (if ms \<noteq> [] then (5, st) else (0, st))"
    by (auto simp: verify_branch_def split: if_splits)
  have "{rel \<in> set rels. mismatched env (sidecar_entry checksums (a_set a) rel) (st (path_join rt rel))} = fst ` set ms"
    using arg_cong [OF verify_checksums_result [OF v(2)], of set] by auto
  then show ?thesis using v True by (auto simp: wrong_files_def split: if_splits)
qed (use assms in \<open>simp add: verify_branch_def\<close>)

text \<open>The same command line with \<^verbatim>\<open>--verify-sha256\<close> in place of \<^verbatim>\<open>--generate-sidecar\<close>.\<close>

definition verify_args :: "dargs \<Rightarrow> dargs" where
  "verify_args a = a\<lparr>a_generate_sidecar := False, a_verify_sha256 := True\<rparr>"

section \<open>A small artifact set\<close>

definition demo_manifest :: json where
  "demo_manifest = JObj [(''artifact_sets'', JObj [(''s'', JObj
     [(''root'', JStr ''/r''), (''required_files'', JList [JStr ''a'', JStr ''b''])])])]"

definition demo_sidecar :: json where
  "demo_sidecar = JObj [(''schema_version'', JInt 1), (''artifact_sets'', JObj [(''s'', JObj [(''files'', JObj
     [(''a'', JObj [(''size_bytes'', JInt 2), (''sha256'', JStr ''xyd'')]),
      (''b'', JObj [(''size_bytes'', JInt 1), (''sha256'', JStr ''zd'')])])])])]"

definition demo_aenv :: aenv where
  "demo_aenv = \<lparr>sha256 = (\<lambda>b. b @ ''d''), dumps = (\<lambda>j. ''J''),
     loads = (\<lambda>b. if b = ''M'' then Some demo_manifest else Some (jsort demo_sidecar)),
     project_root = ''/p'', env_root = None, env_repo = None, env_revision = None,
     hub = None, hf_cli = None\<rparr>"

definition demo_store :: store where
  "demo_store = [''/p/m.json'' \<mapsto> ''M'', ''/r/a'' \<mapsto> ''xy'', ''/r/b'' \<mapsto> ''z'']"

definition demo_args :: dargs where
  "demo_args = \<lparr>a_manifest = ''m.json'', a_set = ''s'', a_root = None, a_check_only = False,
     a_checksums = None, a_verify_sha256 = False, a_generate_sidecar = True\<rparr>"

lemma demo_facts:
  "load_manifest demo_aenv demo_store ''m.json'' = Inr demo_manifest"
  "required_paths demo_aenv demo_manifest ''s'' None = Inr (''/r'', [''/r/a'', ''/r/b''])"
  "relative_keys demo_manifest ''s'' = Inr [''a'', ''b'']"
  "checksum_path demo_aenv demo_args = ''/p/qwen3_checksums.json''"
  "resolve_path demo_aenv ''m.json'' = ''/p/m.json''"
  "load_checksums demo_aenv demo_store ''/p/qwen3_checksums.json''
     = Inr (JObj [(''schema_version'', JInt 1), (''artifact_sets'', JObj [])])"
  "generate_sidecar demo_aenv demo_store (JObj [(''schema_version'', JInt 1), (''artifact_sets'', JObj [])])
     ''s'' ''/r'' [''a'', ''b''] = Inr demo_sidecar"
  "deploy_main demo_aenv demo_args demo_store
     = Inr (0, demo_store(''/p/qwen3_checksums.json'' \<mapsto> ''J'' @ [CHR 0x0A]))"
  by (simp_all add: demo_aenv_def demo_store_def demo_manifest_def demo_args_def demo_sidecar_def
      load_manifest_def load_json_def resolve_path_def path_join_def required_paths_def artifact_set_def
      set_root_def str_or_def py_or_def relative_keys_def checksum_path_def default_checksum_path_def
      sibling_def load_checksums_def generate_sidecar_def setdefault_def Let_def deploy_main_def
      generate_branch_def write_checksums_def)

section \<open>Properties\<close>

text \<open>
  C12: a generated sidecar round-trips and detects tampering.  After a successful
  \<^verbatim>\<open>--generate-sidecar\<close> run, a \<^verbatim>\<open>--verify-sha256\<close> run on any store in which the manifest
  and the sidecar are unchanged and all required files exist exits with 0 when every required file
  has the recorded size and digest, and with 5 otherwise; in particular it exits with 0 on the
  store the generation left.  The sidecar path must not be the path of a required file or of the
  manifest.
\<close>

theorem sidecar_roundtrip:
  assumes man: "load_manifest env st (a_manifest a) = Inr manifest"
    and req: "required_paths env manifest (a_set a) (a_root a) = Inr (rt, paths)"
    and gen: "a_generate_sidecar a" "deploy_main env a st = Inr (0, st')"
    and law: "\<And>checksums data. load_checksums env st (checksum_path env a) = Inr checksums \<Longrightarrow>
      generate_sidecar env st checksums (a_set a) rt rels = Inr data \<Longrightarrow>
      loads env (dumps env data @ [CHR 0x0A]) = Some (jsort data)"
    and keys: "relative_keys manifest (a_set a) = Inr rels"
    and apart: "checksum_path env a \<notin> set (resolve_path env (a_manifest a) # paths)"
  shows "deploy_main env (verify_args a) st' = Inr (0, st')
    \<and> (\<forall>later. load_manifest env later (a_manifest a) = Inr manifest
         \<and> later (checksum_path env a) = st' (checksum_path env a) \<and> (\<forall>p\<in>set paths. later p \<noteq> None)
         \<longrightarrow> deploy_main env (verify_args a) later =
               Inr (if \<forall>p\<in>set paths. same_file env (the (st p)) (the (later p)) then 0 else 5, later))"
proof -
  have paths: "paths = map (path_join rt) rels" using required_paths_keys [OF req] keys by auto
  note req' = req [unfolded paths]
  obtain checksums data where
    d: "load_checksums env st (checksum_path env a) = Inr checksums"
      "generate_sidecar env st checksums (a_set a) rt rels = Inr data"
      "st' = st(checksum_path env a \<mapsto> dumps env data @ [CHR 0x0A])"
      "\<forall>rel\<in>set rels. st (path_join rt rel) \<noteq> None"
    by (rule generate_run [OF man req' keys gen])
  have c [simp]: "checksum_path env (verify_args a) = checksum_path env a" "a_manifest (verify_args a) = a_manifest a"
    "a_set (verify_args a) = a_set a" "a_root (verify_args a) = a_root a" "\<not> a_generate_sidecar (verify_args a)" "a_verify_sha256 (verify_args a)"
    by (simp_all add: verify_args_def checksum_path_def)
  have main: "deploy_main env (verify_args a) later =
      Inr (if \<forall>p\<in>set paths. same_file env (the (st p)) (the (later p)) then 0 else 5, later)"
    if "load_manifest env later (a_manifest a) = Inr manifest"
      "later (checksum_path env a) = st' (checksum_path env a)" "\<forall>p\<in>set paths. later p \<noteq> None" for later
    using verify_after_generate [of env later "verify_args a" manifest rt rels st checksums data] that req' keys d law
    by (auto simp: paths)
  have "load_manifest env st' (a_manifest a) = Inr manifest"
    using man apart d(3) by (auto simp: load_manifest_def load_json_def)
  moreover have same: "\<forall>p\<in>set paths. st' p = st p" using apart d(3) by auto
  moreover have "\<forall>p\<in>set paths. st p \<noteq> None" using d(4) paths by auto
  ultimately have "deploy_main env (verify_args a) st' = Inr (0, st')"
    using main [of st'] by (simp add: same_file_def)
  with main show ?thesis by blast
qed

theorem sidecar_roundtrip_witness:
  "deploy_main demo_aenv (verify_args demo_args)
     (demo_store(''/p/qwen3_checksums.json'' \<mapsto> ''J'' @ [CHR 0x0A]))
   = Inr (0, demo_store(''/p/qwen3_checksums.json'' \<mapsto> ''J'' @ [CHR 0x0A]))"
proof -
  have a: "a_manifest demo_args = ''m.json''" "a_set demo_args = ''s''" "a_root demo_args = None"
    "a_generate_sidecar demo_args" by (simp_all add: demo_args_def)
  have law: "loads demo_aenv (dumps demo_aenv data @ [CHR 0x0A]) = Some (jsort data)"
    if "load_checksums demo_aenv demo_store (checksum_path demo_aenv demo_args) = Inr checksums"
      "generate_sidecar demo_aenv demo_store checksums (a_set demo_args) ''/r'' [''a'', ''b''] = Inr data"
    for checksums data
    using that by (auto simp: a demo_facts) (simp add: demo_aenv_def)
  show ?thesis
    using sidecar_roundtrip [of demo_aenv demo_store demo_args demo_manifest "''/r''" "[''/r/a'', ''/r/b'']"
        "demo_store(''/p/qwen3_checksums.json'' \<mapsto> ''J'' @ [CHR 0x0A])" "[''a'', ''b'']", OF _ _ _ _ law]
    by (simp add: a demo_facts)
qed

text \<open>
  C13: what the exit statuses of the deployment command mean.  Status 0 leaves every required
  file in place; a generating run has then written its sidecar, and a verifying run has found no file
  that differs from what the sidecar has on it.  Status 2 is given only by a check-only run that finds a
  file missing and changes nothing; 3 only when files are still missing after the download; 4 only by a
  generating run that finds a file missing and writes nothing; 5 only by a verifying run that found
  every file and one of them different from its entry in size or digest.  No other status is returned.
\<close>

theorem deploy_exit_status:
  assumes "load_manifest env st (a_manifest a) = Inr manifest"
    and "required_paths env manifest (a_set a) (a_root a) = Inr (rt, paths)"
    and "relative_keys manifest (a_set a) = Inr rels"
    and "deploy_main env a st = Inr (status, st')"
  shows "(status = 0 \<and> (a_generate_sidecar a \<longrightarrow> (\<forall>p\<in>set paths. st p \<noteq> None)
          \<and> (\<exists>checksums data. load_checksums env st (checksum_path env a) = Inr checksums
              \<and> generate_sidecar env st checksums (a_set a) rt rels = Inr data
              \<and> st' = write_checksums env st (checksum_path env a) data))
        \<and> (\<forall>p\<in>set paths. st' p \<noteq> None)
        \<and> (\<not> a_generate_sidecar a \<and> a_verify_sha256 a \<longrightarrow> wrong_files env a st' rt rels = Some {}))
    \<or> (status = 2 \<and> \<not> a_generate_sidecar a \<and> a_check_only a \<and> st' = st \<and> (\<exists>p\<in>set paths. st p = None))
    \<or> (status = 3 \<and> \<not> a_generate_sidecar a \<and> \<not> a_check_only a \<and> (\<exists>p\<in>set paths. st p = None)
        \<and> snapshot_download env st manifest (a_set a) rt = Inr st' \<and> (\<exists>p\<in>set paths. st' p = None))
    \<or> (status = 4 \<and> a_generate_sidecar a \<and> st' = st \<and> (\<exists>p\<in>set paths. st p = None))
    \<or> (status = 5 \<and> \<not> a_generate_sidecar a \<and> a_verify_sha256 a \<and> (\<forall>p\<in>set paths. st' p \<noteq> None)
        \<and> (\<exists>wrong. wrong_files env a st' rt rels = Some wrong \<and> wrong \<noteq> {}))"
proof (cases "a_generate_sidecar a")
  case True
  then show ?thesis
    using assms(4) unfolding deploy_main_unfold [OF assms(1-3)] generate_branch_def
    by (auto simp: write_checksums_def split: if_splits)
next
  case gen: False
  have final: "(status = 0 \<and> (\<forall>p\<in>set paths. st' p \<noteq> None) \<and> (a_verify_sha256 a \<longrightarrow> wrong_files env a st' rt rels = Some {}))
    \<or> (status = 5 \<and> a_verify_sha256 a \<and> (\<forall>p\<in>set paths. st' p \<noteq> None)
        \<and> (\<exists>wrong. wrong_files env a st' rt rels = Some wrong \<and> wrong \<noteq> {}))"
    if "verify_branch env a u rt rels = Inr (status, st')" "\<forall>p\<in>set paths. u p \<noteq> None" for u
    using verify_branch_result [OF that(1)] that(2) by (auto split: if_splits)
  show ?thesis
  proof (cases "\<forall>p\<in>set paths. st p \<noteq> None")
    case True
    then have "verify_branch env a st rt rels = Inr (status, st')"
      using assms(4) gen unfolding deploy_main_unfold [OF assms(1-3)] by simp
    from final [OF this True] gen show ?thesis by blast
  next
    case False
    then have "verify st paths \<noteq> []" by simp
    note main = assms(4) [unfolded deploy_main_unfold [OF assms(1-3)]]
    show ?thesis
    proof (cases "a_check_only a")
      case True
      then show ?thesis using main gen False \<open>verify st paths \<noteq> []\<close> by simp
    next
      case co: False
      then obtain u where u: "snapshot_download env st manifest (a_set a) rt = Inr u"
        "(if verify u paths \<noteq> [] then Inr (3, u) else verify_branch env a u rt rels) = Inr (status, st')"
        using main gen \<open>verify st paths \<noteq> []\<close> by auto
      show ?thesis
      proof (cases "verify u paths = []")
        case True
        then show ?thesis using u(2) final [of u] gen by auto
      next
        case v: False
        then have "status = 3" "st' = u" using u(2) by auto
        then show ?thesis using v False u(1) gen co by auto
      qed
    qed
  qed
qed

text \<open>The generating run of the example, and a verifying one after a file has changed.\<close>

definition demo_tampered :: store where
  "demo_tampered = demo_store(''/p/qwen3_checksums.json'' \<mapsto> ''J'' @ [CHR 0x0A], ''/r/b'' \<mapsto> ''y'')"

lemma demo_tampered_run: "deploy_main demo_aenv (verify_args demo_args) demo_tampered = Inr (5, demo_tampered)"
  by (simp add: demo_tampered_def demo_aenv_def demo_store_def demo_manifest_def demo_args_def demo_sidecar_def verify_args_def
      load_manifest_def load_json_def resolve_path_def path_join_def required_paths_def artifact_set_def
      set_root_def str_or_def py_or_def relative_keys_def checksum_path_def default_checksum_path_def
      sibling_def load_checksums_def deploy_main_def verify_branch_def verify_checksums_def check_file_def jsort.simps(1) Let_def)

theorem deploy_exit_status_witness:
  "(demo_store(''/p/qwen3_checksums.json'' \<mapsto> ''J'' @ [CHR 0x0A])) ''/r/b'' \<noteq> None
    \<and> (\<exists>wrong. wrong_files demo_aenv (verify_args demo_args) demo_tampered ''/r'' [''a'', ''b''] = Some wrong \<and> wrong \<noteq> {})"
proof
  show "(demo_store(''/p/qwen3_checksums.json'' \<mapsto> ''J'' @ [CHR 0x0A])) ''/r/b'' \<noteq> None"
    using deploy_exit_status [of demo_aenv demo_store demo_args demo_manifest "''/r''"
      "[''/r/a'', ''/r/b'']" "[''a'', ''b'']" 0 "demo_store(''/p/qwen3_checksums.json'' \<mapsto> ''J'' @ [CHR 0x0A])"] demo_facts
    by (auto simp: demo_args_def write_checksums_def)
  have "load_manifest demo_aenv demo_tampered ''m.json'' = Inr demo_manifest"
    by (simp add: demo_tampered_def demo_aenv_def demo_store_def load_manifest_def load_json_def resolve_path_def path_join_def)
  then show "\<exists>wrong. wrong_files demo_aenv (verify_args demo_args) demo_tampered ''/r'' [''a'', ''b''] = Some wrong \<and> wrong \<noteq> {}"
    using deploy_exit_status [of demo_aenv demo_tampered "verify_args demo_args" demo_manifest "''/r''"
      "[''/r/a'', ''/r/b'']" "[''a'', ''b'']" 5 demo_tampered] demo_facts(2,3) demo_tampered_run
    by (simp add: verify_args_def demo_args_def)
qed

text \<open>
  C14: a staged set is an exact copy and deploys.  When packaging ends with status 0 outside a dry
  run, with sources and destinations disjoint and distinct destinations, every required file under
  the output root has the bytes of its source, and the deployment check with that root accepts the
  staged tree.
\<close>

theorem staged_set_deploys:
  assumes man: "load_json env st (p_manifest p) = Inr manifest"
    and rels: "required_files manifest (p_set p) = Inr rels"
    and maps: "parse_maps expand (p_map p) [] = Inr maps"
    and run: "package_main env expand p st = Inr (0, st')" "\<not> p_dry_run p"
    and apart: "\<forall>rel\<in>set rels. \<forall>rel'\<in>set rels.
        resolve_source rel (str_or (p_source_root p) None (\<lambda>s. Some (expand s))) maps
          \<noteq> Some (path_join (expand (p_out p)) rel')"
    and inj: "inj_on (path_join (expand (p_out p))) (set rels)"
    and clear: "inventory_path expand p \<notin> path_join (expand (p_out p)) ` set rels"
      "resolve_path env (p_manifest p) = p_manifest p" "p_manifest p \<noteq> inventory_path expand p"
      "p_manifest p \<notin> path_join (expand (p_out p)) ` set rels" "expand (p_out p) \<noteq> []"
  shows "(\<forall>rel\<in>set rels. \<exists>src bytes.
       resolve_source rel (str_or (p_source_root p) None (\<lambda>s. Some (expand s))) maps = Some src
       \<and> st src = Some bytes \<and> st' (path_join (expand (p_out p)) rel) = Some bytes)
    \<and> deploy_main env \<lparr>a_manifest = p_manifest p, a_set = p_set p, a_root = Some (expand (p_out p)),
        a_check_only = True, a_checksums = None, a_verify_sha256 = False, a_generate_sidecar = False\<rparr> st'
      = Inr (0, st')"
proof -
  let ?out = "expand (p_out p)"
  let ?sr = "str_or (p_source_root p) None (\<lambda>s. Some (expand s))"
  from run man rels maps obtain s where
    s: "res_fold (stage_file env False ?sr maps ?out) rels \<lparr>staged = [], missing = [], disk = st\<rparr> = Inr s"
      "missing s = []" and
    st': "st' = (disk s)(inventory_path expand p \<mapsto> dumps env (inventory p (staged s)) @ [CHR 0x0A])"
    by (auto simp: package_main_def stage_files_def split: if_splits)
  note r = stage_files_run [OF s(1,2) apart]
  have copied: "\<exists>src bytes. resolve_source rel ?sr maps = Some src \<and> st src = Some bytes
      \<and> st' (path_join ?out rel) = Some bytes" if "rel \<in> set rels" for rel
  proof -
    from r that obtain src bytes where sb: "resolve_source rel ?sr maps = Some src" "st src = Some bytes"
      by auto
    moreover have "disk s (path_join ?out rel) = Some bytes" using r that inj sb by simp
    moreover have "path_join ?out rel \<noteq> inventory_path expand p" using clear(1) that by (metis image_eqI)
    ultimately show ?thesis by (simp add: st')
  qed
  have "st' (p_manifest p) = st (p_manifest p)" using r clear(3,4) by (simp add: st')
  then have man': "load_manifest env st' (p_manifest p) = Inr manifest"
    using man clear(2) by (simp add: load_manifest_def load_json_def)
  from rels have req: "required_paths env manifest (p_set p) (Some ?out) = Inr (?out, map (path_join ?out) rels)"
    using clear(5) by (auto simp: required_files_def required_paths_def set_root_def str_or_def)
  obtain keys where keys: "relative_keys manifest (p_set p) = Inr keys"
    using required_paths_keys [OF req] by blast
  have "\<forall>q\<in>set (map (path_join ?out) rels). st' q \<noteq> None" using copied by fastforce
  then show ?thesis
    using copied man' req keys by (simp add: deploy_main_def verify_branch_def)
qed

definition demo_pargs :: pargs where
  "demo_pargs = \<lparr>p_manifest = ''/p/m.json'', p_set = ''s'', p_source_root = Some ''/r'', p_out = ''/o'',
     p_map = [''b=/r/a''], p_dry_run = False\<rparr>"

theorem staged_set_deploys_witness:
  "\<exists>st'. package_main demo_aenv (\<lambda>x. x) demo_pargs demo_store = Inr (0, st') \<and> st' ''/o/b'' = Some ''xy''"
proof -
  let ?st = "demo_store(''/o/a'' \<mapsto> ''xy'', ''/o/b'' \<mapsto> ''xy'', ''/o/checksums/s.json'' \<mapsto> ''J'' @ [CHR 0x0A])"
  have m: "parse_maps (\<lambda>x. x) [''b=/r/a''] [] = Inr [(''b'', ''/r/a'')]"
    by (simp add: before_def after_def)
  have i: "inventory_path (\<lambda>x. x) demo_pargs = ''/o/checksums/s.json''"
    by (simp add: inventory_path_def demo_pargs_def path_join_def)
  have r: "required_files demo_manifest ''s'' = Inr [''a'', ''b'']"
    by (simp add: required_files_def artifact_set_def demo_manifest_def)
  have l: "load_json demo_aenv demo_store ''/p/m.json'' = Inr demo_manifest"
    by (simp add: load_json_def demo_aenv_def demo_store_def)
  have src: "resolve_source ''a'' (Some ''/r'') [(''b'', ''/r/a'')] = Some ''/r/a''"
    "resolve_source ''b'' (Some ''/r'') [(''b'', ''/r/a'')] = Some ''/r/a''"
    by (simp_all add: resolve_source_def path_join_def)
  have j: "path_join ''/o'' ''a'' = ''/o/a''" "path_join ''/o'' ''b'' = ''/o/b''"
    by (simp_all add: path_join_def)
  have run: "package_main demo_aenv (\<lambda>x. x) demo_pargs demo_store = Inr (0, ?st)"
    using m i r l src j
    by (simp add: package_main_def stage_files_def stage_file_def copy2_def demo_pargs_def str_or_def
        demo_store_def Let_def) (simp add: demo_aenv_def)
  have "?st ''/o/b'' = Some ''xy''"
    using staged_set_deploys [of demo_aenv demo_store demo_pargs demo_manifest "[''a'', ''b'']" "\<lambda>x. x"
        "[(''b'', ''/r/a'')]" ?st] m i r l src j run
    by (simp add: demo_pargs_def str_or_def resolve_path_def inj_on_def demo_store_def)
  with run show ?thesis by blast
qed

end
