(* ===== verification/Engine_Bundle.thy ===== *)
theory Engine_Bundle
  imports Artifacts
begin

text \<open>
  Engine bundles for upload: \<^verbatim>\<open>models/common/build_engine_bundle.py\<close>.  The operations of
  \<^verbatim>\<open>engine_resolver\<close> that it calls, SHA-256, JSON printing and the tar writer are fields of the
  environment; a tar file is a function of its members in order.
\<close>

record espec =
  model_id :: string
  engine_file :: string
  engine_path :: string
  onnx_input :: "string option"
  hf_only :: bool

record benv =
  from_dict :: "json \<Rightarrow> art_error + espec"
  meta_path :: "string \<Rightarrow> string"
  compile_locally :: "espec \<Rightarrow> store \<Rightarrow> art_error + store"
  path_under :: "string \<Rightarrow> string \<Rightarrow> string option"
  onnx_manifest_candidates :: "espec \<Rightarrow> (string \<times> string) list"
  extra_file_paths :: "espec \<Rightarrow> string list"
  host_key :: string
  host_dict :: json
  b_sha256 :: "string \<Rightarrow> string"
  b_dumps :: "json \<Rightarrow> string"
  tar_gz :: "(string \<times> string) list \<Rightarrow> string"

definition step0_engine :: string where
  "step0_engine = ''matcha_estimator_step0_bf16.engine''"

section \<open>Files of one engine\<close>

definition compile_one :: "benv \<Rightarrow> espec \<Rightarrow> store \<Rightarrow> art_error + store" where
  "compile_one env spec st =
     (if hf_only spec then Inr st
      else compile_locally env spec
             (st(engine_path spec := None, meta_path env (engine_path spec) := None)))"

definition bundle_engine_paths :: "espec \<Rightarrow> string list" where
  "bundle_engine_paths spec =
     engine_path spec #
     (if engine_file spec = step0_engine
      then map (\<lambda>i. path_join (path_parent (engine_path spec))
                      (''matcha_estimator_step'' @ str_nat i @ ''_bf16.engine'')) [1, 2]
      else [])"

definition bundle_extra_paths :: "benv \<Rightarrow> store \<Rightarrow> espec \<Rightarrow> string list" where
  "bundle_extra_paths env st spec = filter (\<lambda>p. st p \<noteq> None) (extra_file_paths env spec)"

definition model_root :: "espec \<Rightarrow> string" where
  "model_root spec = path_parent (path_parent (engine_path spec))"

text \<open>The closure \<^verbatim>\<open>add\<close>; its state is \<^verbatim>\<open>seen\<close> and \<^verbatim>\<open>result\<close>.\<close>

definition add_onnx ::
  "benv \<Rightarrow> store \<Rightarrow> string \<Rightarrow> string \<Rightarrow> string list \<times> (string \<times> string) list
     \<Rightarrow> string list \<times> (string \<times> string) list" where
  "add_onnx env st rt path = (\<lambda>(seen, result).
     case path_under env path rt of
       None \<Rightarrow> (seen, result)
     | Some rel \<Rightarrow>
         if st path = None \<or> rel \<in> set seen then (seen, result)
         else (seen @ [rel], result @ [(rel, path)]))"

definition bundle_onnx_paths :: "benv \<Rightarrow> store \<Rightarrow> espec \<Rightarrow> (string \<times> string) list" where
  "bundle_onnx_paths env st spec =
     (let rt = model_root spec;
          s0 = ([], []);
          s1 = (case onnx_input spec of
                  None \<Rightarrow> s0
                | Some inp \<Rightarrow>
                    if inp = [] then s0
                    else (case find (\<lambda>(rel, path). st path \<noteq> None) (onnx_manifest_candidates env spec) of
                            None \<Rightarrow> s0
                          | Some (rel, path) \<Rightarrow> add_onnx env st rt path s0));
          onnx_dir = path_join rt ''onnx'';
          s2 = (if engine_file spec = step0_engine
                then fold (\<lambda>f. add_onnx env st rt (path_join onnx_dir f))
                       (''matcha_encoder_trt.onnx''
                        # map (\<lambda>i. ''matcha_estimator_step'' @ str_nat i @ ''_trt.onnx'') [0, 1, 2]) s1
                else s1)
      in snd s2)"

definition bundle_extra_manifest_paths :: "benv \<Rightarrow> store \<Rightarrow> espec \<Rightarrow> (string \<times> string) list" where
  "bundle_extra_manifest_paths env st spec =
     List.map_filter (\<lambda>path. map_option (\<lambda>rel. (rel, path)) (path_under env path (model_root spec)))
       (bundle_extra_paths env st spec)"

definition record_file :: "benv \<Rightarrow> string \<Rightarrow> json" where
  "record_file env bytes =
     JObj [(''sha256'', JStr (b_sha256 env bytes)), (''size'', JInt (int (length bytes)))]"

definition copy_manifest_file ::
  "benv \<Rightarrow> string \<Rightarrow> string \<times> string \<Rightarrow> store \<times> dict \<Rightarrow> art_error + store \<times> dict" where
  "copy_manifest_file env model_dir = (\<lambda>(rel_path, src) (st, files).
     let dst = path_join model_dir rel_path in
     res_bind (copy2 st src dst) (\<lambda>st'.
     res_bind (of_option (FileNotFound dst) (st' dst)) (\<lambda>bytes.
       Inr (st', AList.update rel_path (record_file env bytes) files))))"

section \<open>The archive\<close>

text \<open>Members added so far and the paths already in the archive.\<close>

definition add_member ::
  "store \<Rightarrow> string \<Rightarrow> string list \<times> (string \<times> string) list \<Rightarrow> string list \<times> (string \<times> string) list" where
  "add_member st path = (\<lambda>(added, members).
     case st path of
       None \<Rightarrow> (added, members)
     | Some bytes \<Rightarrow>
         if path \<in> set added then (added, members)
         else (added @ [path], members @ [(path_name path, bytes)]))"

definition add_spec ::
  "benv \<Rightarrow> store \<Rightarrow> espec \<Rightarrow> string list \<times> (string \<times> string) list
     \<Rightarrow> string list \<times> (string \<times> string) list" where
  "add_spec env st spec acc =
     (if hf_only spec \<or> st (engine_path spec) = None then acc
      else let (added, members) = fold (add_member st)
                 (bundle_engine_paths spec @ bundle_extra_paths env st spec) acc;
               meta = meta_path env (engine_path spec)
           in case st meta of
                None \<Rightarrow> (added, members)
              | Some bytes \<Rightarrow> (added, members @ [(path_name meta, bytes)]))"

definition pack_members :: "benv \<Rightarrow> store \<Rightarrow> espec list \<Rightarrow> string list \<times> (string \<times> string) list" where
  "pack_members env st specs = fold (add_spec env st) specs ([], [])"

section \<open>One model and all models\<close>

definition rel_bundle :: "benv \<Rightarrow> string" where
  "rel_bundle env = ''engines/'' @ host_key env @ ''.tar.gz''"

definition prepare_engines :: "benv \<Rightarrow> bool \<Rightarrow> espec list \<Rightarrow> store \<Rightarrow> art_error + store" where
  "prepare_engines env skip_build specs st =
     (if \<not> skip_build then res_fold (compile_one env) specs st
      else case filter (\<lambda>spec. \<not> hf_only spec \<and> st (engine_path spec) = None) specs of
             [] \<Rightarrow> Inr st
           | spec # _ \<Rightarrow> Inl (FileNotFound (engine_path spec)))"

definition manifest_sources :: "benv \<Rightarrow> store \<Rightarrow> espec \<Rightarrow> (string \<times> string) list" where
  "manifest_sources env st spec = bundle_onnx_paths env st spec @ bundle_extra_manifest_paths env st spec"

definition copy_spec ::
  "benv \<Rightarrow> string \<Rightarrow> espec \<Rightarrow> store \<times> dict \<Rightarrow> art_error + store \<times> dict" where
  "copy_spec env model_dir spec = (\<lambda>(st, files).
     res_fold (copy_manifest_file env model_dir) (manifest_sources env st spec) (st, files))"

definition bundle_model ::
  "benv \<Rightarrow> string \<Rightarrow> bool \<Rightarrow> string \<times> espec list \<Rightarrow> store \<Rightarrow> art_error + store" where
  "bundle_model env out_root skip_build = (\<lambda>(mid, specs) st.
     let model_dir = path_join (path_join out_root ''models'') mid;
         bundle_path = path_join (path_join model_dir ''engines'') (host_key env @ ''.tar.gz'')
     in res_bind (prepare_engines env skip_build specs st) (\<lambda>st.
        let st = st(bundle_path := None);
            bytes = tar_gz env (snd (pack_members env st specs));
            st = st(bundle_path \<mapsto> bytes)
        in res_bind (res_fold (copy_spec env model_dir) specs
                       (st, [(rel_bundle env, record_file env bytes)])) (\<lambda>(st, files).
           Inr (st(path_join model_dir ''manifest.json'' \<mapsto>
             b_dumps env (JObj [(''model_id'', JStr mid), (''host_signatures'', JList [host_dict env]),
               (''files'', JObj files)]))))))"

fun group_specs :: "benv \<Rightarrow> json list \<Rightarrow> (string \<times> espec list) list \<Rightarrow> art_error + (string \<times> espec list) list" where
  "group_specs env [] by_model = Inr by_model"
| "group_specs env (raw # raws) by_model =
     res_bind (from_dict env raw) (\<lambda>spec.
       let old = (case map_of by_model (model_id spec) of None \<Rightarrow> [] | Some xs \<Rightarrow> xs)
       in group_specs env raws (AList.update (model_id spec) (old @ [spec]) by_model))"

definition bundle_per_model :: "benv \<Rightarrow> json \<Rightarrow> string \<Rightarrow> bool \<Rightarrow> store \<Rightarrow> art_error + store" where
  "bundle_per_model env profile out_root skip_build st =
     res_bind (jget profile ''required_engines'' JNull) (\<lambda>raws.
     res_bind (case py_or raws (JList []) of JList xs \<Rightarrow> Inr xs | _ \<Rightarrow> Inl TypeErr) (\<lambda>raws.
     res_bind (group_specs env raws []) (\<lambda>by_model.
       res_fold (bundle_model env out_root skip_build) by_model st)))"

end
