(* ===== verification/Engine_Bundle_Props.thy ===== *)
theory Engine_Bundle_Props
  imports Engine_Bundle
begin

text \<open>
  The archive holds every engine file that must travel together, once, and the manifest written
  beside it records the digest and size of each file as it lies in the output tree.
\<close>

section \<open>Archive members\<close>

definition wanted :: "benv \<Rightarrow> store \<Rightarrow> espec \<Rightarrow> string list" where
  "wanted env st spec =
     (if hf_only spec \<or> st (engine_path spec) = None then []
      else filter (\<lambda>p. st p \<noteq> None) (bundle_engine_paths spec @ bundle_extra_paths env st spec))"

definition members_ok :: "store \<Rightarrow> string list \<times> (string \<times> string) list \<Rightarrow> bool" where
  "members_ok st = (\<lambda>(added, members). distinct added
     \<and> (\<forall>p\<in>set added. \<exists>bytes. st p = Some bytes \<and> (path_name p, bytes) \<in> set members))"

lemma fold_add_member:
  assumes "members_ok st acc"
  shows "members_ok st (fold (add_member st) ps acc)
    \<and> set (fst (fold (add_member st) ps acc)) = set (fst acc) \<union> {p \<in> set ps. st p \<noteq> None}"
  using assms
proof (induction ps arbitrary: acc)
  case (Cons p ps)
  obtain added members where acc: "acc = (added, members)" by (cases acc)
  have "members_ok st (add_member st p acc)"
    using Cons.prems by (fastforce simp: acc members_ok_def add_member_def split: option.splits)
  moreover have "set (fst (add_member st p acc)) = set (fst acc) \<union> (if st p \<noteq> None then {p} else {})"
    by (auto simp: acc add_member_def split: option.splits)
  ultimately show ?case using Cons.IH [of "add_member st p acc"] by auto
qed simp

lemma add_spec_ok:
  assumes "members_ok st acc"
  shows "members_ok st (add_spec env st spec acc)
    \<and> set (fst (add_spec env st spec acc)) = set (fst acc) \<union> set (wanted env st spec)"
proof (cases "hf_only spec \<or> st (engine_path spec) = None")
  case True
  then show ?thesis using assms by (auto simp: add_spec_def wanted_def)
next
  case False
  obtain added members where
    f: "fold (add_member st) (bundle_engine_paths spec @ bundle_extra_paths env st spec) acc = (added, members)"
    by fastforce
  have ok: "members_ok st (added, members)" and s: "set added = set (fst acc) \<union> set (wanted env st spec)"
    using fold_add_member [OF assms, of "bundle_engine_paths spec @ bundle_extra_paths env st spec"] False
    unfolding f by (auto simp: wanted_def)
  have "add_spec env st spec acc = (added, members
      @ (case st (meta_path env (engine_path spec)) of None \<Rightarrow> []
         | Some bytes \<Rightarrow> [(path_name (meta_path env (engine_path spec)), bytes)]))"
    using False f by (auto simp: add_spec_def split: option.splits)
  moreover have "members_ok st (added, members @ extra)" for extra
    using ok by (fastforce simp: members_ok_def)
  ultimately show ?thesis using s by simp
qed

lemma fold_add_spec:
  assumes "members_ok st acc"
  shows "members_ok st (fold (add_spec env st) specs acc)
    \<and> set (fst (fold (add_spec env st) specs acc))
        = set (fst acc) \<union> (\<Union>spec\<in>set specs. set (wanted env st spec))"
  using assms
proof (induction specs arbitrary: acc)
  case (Cons spec specs)
  from add_spec_ok [OF Cons.prems] Cons.IH [of "add_spec env st spec acc"] show ?case by auto
qed simp

section \<open>The manifest of one model\<close>















section \<open>Properties\<close>


definition demo_spec :: espec where
  "demo_spec = \<lparr>model_id = ''m'', engine_file = step0_engine, engine_path = ''/m/engines/s0'',
     onnx_input = Some ''x'', hf_only = False\<rparr>"

definition demo_benv :: benv where
  "demo_benv = \<lparr>from_dict = (\<lambda>j. Inr demo_spec), meta_path = (\<lambda>p. p @ ''.meta''),
     compile_locally = (\<lambda>spec st. Inr (st(engine_path spec \<mapsto> ''E''))),
     path_under = (\<lambda>p r. if p = ''/m/onnx/x'' then Some ''onnx/x'' else None),
     onnx_manifest_candidates = (\<lambda>spec. [(''onnx/x'', ''/m/onnx/x'')]),
     extra_file_paths = (\<lambda>spec. []), host_key = ''h'', host_dict = JNull,
     b_sha256 = (\<lambda>b. b), b_dumps = (\<lambda>j. ''J''), tar_gz = (\<lambda>ms. concat (map snd ms))\<rparr>"


text \<open>
  The archive is complete and has no duplicate engine.  The paths added are distinct, they are
  exactly the existing engine and extra files of the engines that are built here, each is in the
  archive under its base name with its bytes, and for the Matcha anchor engine they include the
  files of all three steps that exist beside it.
\<close>

theorem bundle_archive_complete:
  assumes "pack_members env st specs = (added, members)"
  shows "distinct added
    \<and> set added = (\<Union>spec\<in>{spec \<in> set specs. \<not> hf_only spec \<and> st (engine_path spec) \<noteq> None}.
        {p \<in> set (bundle_engine_paths spec @ extra_file_paths env spec). st p \<noteq> None})
    \<and> (\<forall>p\<in>set added. \<exists>bytes. st p = Some bytes \<and> (path_name p, bytes) \<in> set members)
    \<and> (\<forall>spec\<in>set specs. \<forall>i\<in>{1, 2}. engine_file spec = step0_engine \<and> \<not> hf_only spec
         \<and> st (engine_path spec) \<noteq> None
         \<and> st (path_join (path_parent (engine_path spec)) (''matcha_estimator_step'' @ str_nat i @ ''_bf16.engine'')) \<noteq> None
         \<longrightarrow> path_join (path_parent (engine_path spec)) (''matcha_estimator_step'' @ str_nat i @ ''_bf16.engine'')
               \<in> set added)"
proof -
  have "members_ok st ([], [])" by (simp add: members_ok_def)
  from fold_add_spec [OF this, of env specs] assms
  have ok: "members_ok st (added, members)" and s: "set added = (\<Union>spec\<in>set specs. set (wanted env st spec))"
    by (simp_all add: pack_members_def)
  have w: "set (wanted env st spec) = (if \<not> hf_only spec \<and> st (engine_path spec) \<noteq> None
      then {p \<in> set (bundle_engine_paths spec @ extra_file_paths env spec). st p \<noteq> None} else {})" for spec
    by (auto simp: wanted_def bundle_extra_paths_def)
  have "set added = (\<Union>spec\<in>{spec \<in> set specs. \<not> hf_only spec \<and> st (engine_path spec) \<noteq> None}.
        {p \<in> set (bundle_engine_paths spec @ extra_file_paths env spec). st p \<noteq> None})"
    unfolding s w by auto
  moreover have "path_join (path_parent (engine_path spec)) (''matcha_estimator_step'' @ str_nat i @ ''_bf16.engine'')
      \<in> set (bundle_engine_paths spec)" if "engine_file spec = step0_engine" "i \<in> {1, 2}" for spec and i :: nat
    using that by (auto simp: bundle_engine_paths_def)
  ultimately show ?thesis using ok unfolding members_ok_def by auto
qed

theorem bundle_archive_complete_witness:
  "''/m/engines/s0'' \<in> set (fst (pack_members demo_benv [''/m/engines/s0'' \<mapsto> ''E''] [demo_spec]))"
  using bundle_archive_complete [of demo_benv "[''/m/engines/s0'' \<mapsto> ''E'']" "[demo_spec]"
      "fst (pack_members demo_benv [''/m/engines/s0'' \<mapsto> ''E''] [demo_spec])"
      "snd (pack_members demo_benv [''/m/engines/s0'' \<mapsto> ''E''] [demo_spec])"]
  by (auto simp: demo_spec_def bundle_engine_paths_def)

end
