(* ===== verification/Speech_Text.thy ===== *)
theory Speech_Text
  imports Voice_Prelude
begin

text \<open>
  Text comparison of the round-trip verifiers.  A text is the list of its code points; lowering of
  code points outside ASCII is a table \<open>low\<close>.  Floating-point quotients are taken as exact
  rationals.
\<close>

type_synonym utext = "nat list"

section \<open>Normalisation\<close>

definition u_lower :: "(nat \<Rightarrow> nat list) \<Rightarrow> utext \<Rightarrow> utext" where
  "u_lower low s =
     concat (map (\<lambda>c. if 65 \<le> c \<and> c \<le> 90 then [c + 32] else if c < 128 then [c] else low c) s)"

definition u_space :: "nat \<Rightarrow> bool" where
  "u_space c \<longleftrightarrow> (9 \<le> c \<and> c \<le> 13) \<or> (28 \<le> c \<and> c \<le> 32) \<or> c = 133 \<or> c = 160 \<or> c = 5760
     \<or> (8192 \<le> c \<and> c \<le> 8202) \<or> c = 8232 \<or> c = 8233 \<or> c = 8239 \<or> c = 8287 \<or> c = 12288"

definition u_lstrip :: "utext \<Rightarrow> utext" where
  "u_lstrip s = dropWhile u_space s"

definition u_strip :: "utext \<Rightarrow> utext" where
  "u_strip s = rev (u_lstrip (rev (u_lstrip s)))"

text \<open>The class \<^verbatim>\<open>[a-z0-9\u4e00-\u9fff]\<close> that normalisation keeps.\<close>

definition kept :: "nat \<Rightarrow> bool" where
  "kept c \<longleftrightarrow> (97 \<le> c \<and> c \<le> 122) \<or> (48 \<le> c \<and> c \<le> 57) \<or> (19968 \<le> c \<and> c \<le> 40959)"

definition normalize_text :: "(nat \<Rightarrow> nat list) \<Rightarrow> utext \<Rightarrow> utext" where
  "normalize_text low text = filter kept (u_lower low text)"

section \<open>Longest common subsequence by rows\<close>

definition lcs_row :: "nat \<Rightarrow> utext \<Rightarrow> nat list \<Rightarrow> nat list" where
  "lcs_row ca b prev =
     foldl (\<lambda>cur j. cur[j := if ca = b ! (j - 1) then prev ! (j - 1) + 1 else max (prev ! j) (cur ! (j - 1))])
       (replicate (length b + 1) 0) [1..<length b + 1]"

definition lcs_table :: "utext \<Rightarrow> utext \<Rightarrow> nat list" where
  "lcs_table a b = foldl (\<lambda>prev ca. lcs_row ca b prev) (replicate (length b + 1) 0) a"

definition lcs_similarity :: "(nat \<Rightarrow> nat list) \<Rightarrow> utext \<Rightarrow> utext \<Rightarrow> rat" where
  "lcs_similarity low expected actual =
     (let a = normalize_text low expected; b = normalize_text low actual
      in if a = [] \<and> b = [] then 1
         else if a = [] \<or> b = [] then 0
         else of_nat (last (lcs_table a b)) / of_nat (max (length a) (length b)))"

text \<open>\<^verbatim>\<open>kw in text\<close>.\<close>

fun contains :: "'a list \<Rightarrow> 'a list \<Rightarrow> bool" where
  "contains kw [] = (kw = [])"
| "contains kw (c # s) = (prefix kw (c # s) \<or> contains kw s)"

definition check_keywords :: "(nat \<Rightarrow> nat list) \<Rightarrow> utext list \<Rightarrow> utext \<Rightarrow> utext list" where
  "check_keywords low keywords actual =
     filter (\<lambda>kw. \<not> contains (u_lower low kw) (u_lower low actual)) keywords"

section \<open>What the rows compute\<close>

text \<open>The specification: the greatest length of a common subsequence.\<close>

definition common :: "'a list \<Rightarrow> 'a list \<Rightarrow> 'a list \<Rightarrow> bool" where
  "common zs xs ys \<longleftrightarrow> subseq zs xs \<and> subseq zs ys"

definition is_lcs :: "nat \<Rightarrow> 'a list \<Rightarrow> 'a list \<Rightarrow> bool" where
  "is_lcs n xs ys \<longleftrightarrow> (\<exists>zs. common zs xs ys \<and> length zs = n) \<and> (\<forall>zs. common zs xs ys \<longrightarrow> length zs \<le> n)"

lemma subseq_snoc_snoc:
  "subseq (ws @ [w]) (xs @ [x]) \<longleftrightarrow> (w = x \<and> subseq ws xs) \<or> subseq (ws @ [w]) xs"
proof
  assume "subseq (ws @ [w]) (xs @ [x])"
  then obtain us vs where u: "ws @ [w] = us @ vs" "subseq us xs" "subseq vs [x]"
    unfolding subseq_append_iff by blast
  then consider "vs = []" | "vs = [x]" by (cases vs) (auto elim: list_emb.cases split: if_splits)
  then show "(w = x \<and> subseq ws xs) \<or> subseq (ws @ [w]) xs"
    by cases (use u in auto)
next
  assume "(w = x \<and> subseq ws xs) \<or> subseq (ws @ [w]) xs"
  then show "subseq (ws @ [w]) (xs @ [x])"
    by (auto intro: list_emb_append_mono subseq_rev_drop_many)
qed

lemma subseq_snocD: "subseq (ws @ [w]) xs \<Longrightarrow> subseq ws xs"
  by (rule subseq_order.order_trans [of _ "ws @ [w]"]) (simp_all add: subseq_rev_drop_many)

lemma is_lcs_Nil [simp]: "is_lcs n [] ys \<longleftrightarrow> n = 0" "is_lcs n xs [] \<longleftrightarrow> n = 0"
  by (auto simp: is_lcs_def common_def)

lemma is_lcs_same:
  assumes "is_lcs n xs ys"
  shows "is_lcs (n + 1) (xs @ [x]) (ys @ [x])"
proof -
  from assms obtain zs where z: "common zs xs ys" "length zs = n" by (auto simp: is_lcs_def)
  then have "common (zs @ [x]) (xs @ [x]) (ys @ [x])" by (simp add: common_def)
  moreover have "length ws \<le> n + 1" if "common ws (xs @ [x]) (ys @ [x])" for ws
  proof (cases ws rule: rev_cases)
    case (snoc us u)
    then have "common us xs ys" using that by (auto simp: common_def subseq_snoc_snoc dest: subseq_snocD)
    then show ?thesis using assms snoc by (auto simp: is_lcs_def)
  qed simp
  ultimately show ?thesis using z(2) unfolding is_lcs_def by (metis length_append_singleton Suc_eq_plus1)
qed

lemma is_lcs_diff:
  assumes "is_lcs m xs (ys @ [y])" and "is_lcs n (xs @ [x]) ys" and "x \<noteq> y"
  shows "is_lcs (max m n) (xs @ [x]) (ys @ [y])"
proof -
  have grow: "common zs xs' ys' \<Longrightarrow> common zs (xs' @ us) (ys' @ vs)" for zs xs' ys' us vs :: "'a list"
    by (auto simp: common_def intro: list_emb_append2 subseq_rev_drop_many)
  have "\<exists>zs. common zs (xs @ [x]) (ys @ [y]) \<and> length zs = max m n"
    using assms(1,2) grow [of _ xs "ys @ [y]" "[x]" "[]"] grow [of _ "xs @ [x]" ys "[]" "[y]"]
    unfolding is_lcs_def max_def by auto
  moreover have "length ws \<le> max m n" if "common ws (xs @ [x]) (ys @ [y])" for ws
  proof (cases ws rule: rev_cases)
    case (snoc us u)
    then have "common ws xs (ys @ [y]) \<or> common ws (xs @ [x]) ys"
      using that assms(3) by (auto simp: common_def subseq_snoc_snoc)
    then show ?thesis using assms(1,2) by (auto simp: is_lcs_def)
  qed simp
  ultimately show ?thesis unfolding is_lcs_def by blast
qed

definition row_ok :: "utext \<Rightarrow> utext \<Rightarrow> nat \<Rightarrow> nat list \<Rightarrow> bool" where
  "row_ok a b k row \<longleftrightarrow> length row = length b + 1 \<and> (\<forall>j<k. is_lcs (row ! j) a (take j b))"

lemma row_ok_extend:
  assumes "row_ok a b k row" and "k \<le> length b" and "is_lcs v a (take k b)"
  shows "row_ok a b (k + 1) (row[k := v])"
proof -
  have "k < length row" using assms(1,2) by (simp add: row_ok_def)
  then show ?thesis using assms by (auto simp: row_ok_def nth_list_update)
qed

lemma lcs_row_ok:
  assumes "row_ok a b (length b + 1) prev" and "k \<le> length b"
  shows "row_ok (a @ [ca]) b (k + 1) (foldl (\<lambda>cur j. cur[j := if ca = b ! (j - 1) then prev ! (j - 1) + 1
      else max (prev ! j) (cur ! (j - 1))]) (replicate (length b + 1) 0) [1..<k + 1])"
  using assms(2)
proof (induction k)
  case 0
  then show ?case by (simp add: row_ok_def)
next
  case (Suc k)
  define f where "f = (\<lambda>cur j. cur[j := if ca = b ! (j - 1) then prev ! (j - 1) + 1 else max (prev ! j) (cur ! (j - 1))])"
  define cur where "cur = foldl f (replicate (length b + 1) 0) [1..<k + 1]"
  have IH: "row_ok (a @ [ca]) b (Suc k) cur" using Suc by (simp add: cur_def f_def)
  have k: "k < length b" using Suc.prems by simp
  then have t: "take (Suc k) b = take k b @ [b ! k]" by (simp add: take_Suc_conv_app_nth)
  have p: "is_lcs (prev ! k) a (take k b)" "is_lcs (prev ! Suc k) a (take k b @ [b ! k])"
    using assms(1) k t by (auto simp: row_ok_def)
  have c: "is_lcs (cur ! k) (a @ [ca]) (take k b)" using IH by (simp add: row_ok_def)
  define v where "v = (if ca = b ! k then prev ! k + 1 else max (prev ! Suc k) (cur ! k))"
  have "is_lcs v (a @ [ca]) (take (Suc k) b)"
    unfolding t v_def using is_lcs_same [OF p(1), of ca] is_lcs_diff [OF p(2) c] by auto
  then have "row_ok (a @ [ca]) b (Suc k + 1) (cur[Suc k := v])"
    using IH k by (intro row_ok_extend) auto
  moreover have "foldl f (replicate (length b + 1) 0) [1..<Suc k + 1] = f cur (Suc k)"
    by (simp add: cur_def)
  moreover have "f cur (Suc k) = cur[Suc k := v]" by (simp add: f_def v_def)
  ultimately show ?case unfolding f_def by simp
qed

lemma lcs_table_ok: "row_ok a b (length b + 1) (lcs_table a b)"
proof (induction a rule: rev_induct)
  case Nil
  then show ?case by (simp add: row_ok_def lcs_table_def nth_Cons')
next
  case (snoc ca a)
  have "lcs_table (a @ [ca]) b = lcs_row ca b (lcs_table a b)" by (simp add: lcs_table_def)
  then show ?case
    using lcs_row_ok [OF snoc, of "length b" ca] unfolding lcs_row_def by simp
qed

lemma lcs_table_last: "is_lcs (last (lcs_table a b)) a b"
proof -
  have l: "length (lcs_table a b) = length b + 1" and "is_lcs (lcs_table a b ! length b) a (take (length b) b)"
    using lcs_table_ok [of a b] by (auto simp: row_ok_def)
  moreover have "last (lcs_table a b) = lcs_table a b ! length b"
    using l by (subst last_conv_nth) auto
  ultimately show ?thesis by simp
qed

lemma is_lcs_bound: "is_lcs n xs ys \<Longrightarrow> n \<le> min (length xs) (length ys)"
  by (auto simp: is_lcs_def common_def dest: list_emb_length)

lemma is_lcs_full:
  assumes "is_lcs n xs ys"
  shows "n = max (length xs) (length ys) \<longleftrightarrow> xs = ys"
proof
  assume n: "n = max (length xs) (length ys)"
  from assms obtain zs where z: "subseq zs xs" "subseq zs ys" "length zs = n"
    by (auto simp: is_lcs_def common_def)
  with n have "length zs = length xs" "length zs = length ys"
    using list_emb_length [OF z(1)] list_emb_length [OF z(2)] by auto
  then show "xs = ys" using z(1,2) by (metis subseq_same_length)
next
  assume "xs = ys"
  then have "common xs xs ys" by (simp add: common_def)
  then have "length xs \<le> n" using assms by (auto simp: is_lcs_def)
  then show "n = max (length xs) (length ys)" using is_lcs_bound [OF assms] \<open>xs = ys\<close> by simp
qed

lemma is_lcs_unique: "is_lcs m xs ys \<Longrightarrow> is_lcs n xs ys \<Longrightarrow> m = n"
  by (metis is_lcs_def order_antisym)

lemma is_lcs_sym: "is_lcs n xs ys \<longleftrightarrow> is_lcs n ys xs"
  by (auto simp: is_lcs_def common_def)

lemma contains_iff: "contains kw s \<longleftrightarrow> sublist kw s"
  by (induction s) (auto simp: sublist_Cons_right)

end
