(* ===== verification/Wav_File.thy ===== *)
theory Wav_File
  imports Voice_Prelude
begin

text \<open>
  WAV files at the level of bytes, as Python's \<^verbatim>\<open>wave\<close> and \<^verbatim>\<open>struct\<close> modules write and
  read them, and the raw PCM stream with its four-byte sample-rate header that the verifiers wrap.
  A byte is a natural number below 256.
\<close>

type_synonym bytes = "nat list"

datatype vexc =
    UrlError
  | TimeoutErr
  | RuntimeErr
  | ValueErr
  | KeyErr
  | WaveErr
  | StructErr
  | EofErr
  | OtherErr

text \<open>\<^verbatim>\<open>struct.pack\<close> and \<^verbatim>\<open>struct.unpack\<close> of unsigned little-endian fields.\<close>

primrec le :: "nat \<Rightarrow> nat \<Rightarrow> bytes" where
  "le 0 x = []"
| "le (Suc n) x = x mod 256 # le n (x div 256)"

primrec from_le :: "bytes \<Rightarrow> nat" where
  "from_le [] = 0"
| "from_le (b # bs) = b + 256 * from_le bs"

definition ascii :: "string \<Rightarrow> bytes" where
  "ascii s = map of_char s"

record wav_info =
  sample_rate :: nat
  channels :: nat
  sample_width :: nat
  frames :: nat
  file_bytes :: nat

section \<open>Writing\<close>

definition wav_header :: "nat \<Rightarrow> nat \<Rightarrow> nat \<Rightarrow> nat \<Rightarrow> bytes" where
  "wav_header nch width rate len =
     ascii ''RIFF'' @ le 4 (36 + len) @ ascii ''WAVE'' @ ascii ''fmt '' @ le 4 16
     @ le 2 1 @ le 2 nch @ le 4 rate @ le 4 (nch * rate * width) @ le 2 (nch * width) @ le 2 (width * 8)
     @ ascii ''data'' @ le 4 len"

definition wav_write :: "nat \<Rightarrow> nat \<Rightarrow> nat \<Rightarrow> bytes \<Rightarrow> vexc + bytes" where
  "wav_write nch width rate pcm =
     (if rate = 0 then Inl WaveErr
      else if 2 ^ 32 \<le> nch * rate * width \<or> 2 ^ 32 \<le> 36 + length pcm then Inl StructErr
      else Inr (wav_header nch width rate (length pcm) @ pcm))"

section \<open>Reading\<close>

text \<open>The \<^verbatim>\<open>fmt\<close> chunk: channels, rate and sample width; only PCM is known.\<close>

definition read_fmt :: "bytes \<Rightarrow> vexc + nat \<times> nat \<times> nat" where
  "read_fmt bs =
     (if length bs < 14 then Inl EofErr
      else let tag = from_le (take 2 bs); nch = from_le (take 2 (drop 2 bs));
               rate = from_le (take 4 (drop 4 bs)) in
        if tag \<noteq> 1 then Inl WaveErr
        else if length bs < 16 then Inl EofErr
        else let width = (from_le (take 2 (drop 14 bs)) + 7) div 8 in
          if width = 0 \<or> nch = 0 then Inl WaveErr else Inr (nch, rate, width))"

text \<open>
  The chunk loop; \<open>left\<close> is what the enclosing chunk still declares.  The result has the format, the
  declared size of the \<^verbatim>\<open>data\<close> chunk and what there is of it.
\<close>

function read_chunks :: "(nat \<times> nat \<times> nat) option \<Rightarrow> nat \<Rightarrow> bytes \<Rightarrow> vexc + (nat \<times> nat \<times> nat) \<times> nat \<times> bytes" where
  "read_chunks fmt left bs =
     (if length (take left bs) < 8 then Inl WaveErr
      else let name = take 4 bs; size = from_le (take 4 (drop 4 bs)); body = drop 8 bs;
               skip = size + size mod 2;
               next = (\<lambda>fmt. if left - 8 < skip then Inl RuntimeErr
                              else read_chunks fmt (left - 8 - skip) (drop skip body))
           in if name = ascii ''fmt '' then
                (case read_fmt (take (left - 8) (take size body)) of Inl e \<Rightarrow> Inl e | Inr f \<Rightarrow> next (Some f))
              else if name = ascii ''data'' then
                (case fmt of None \<Rightarrow> Inl WaveErr
                 | Some (nch, rate, width) \<Rightarrow> Inr ((nch, rate, width), size, take size (take (left - 8) body)))
              else next fmt)"
  by pat_completeness auto

termination
  by (relation "measure (\<lambda>(fmt, left, bs). length bs)") auto

declare read_chunks.simps [simp del]

definition wav_read :: "bytes \<Rightarrow> vexc + wav_info \<times> bytes" where
  "wav_read bs =
     (if length bs < 8 then Inl EofErr
      else if take 4 bs \<noteq> ascii ''RIFF'' then Inl WaveErr
      else let size = from_le (take 4 (drop 4 bs)); body = drop 8 bs in
        if take (min 4 size) body \<noteq> ascii ''WAVE'' then Inl WaveErr
        else res_bind (read_chunks None (size - 4) (drop 4 body)) (\<lambda>((nch, rate, width), len, data).
          let nframes = len div (nch * width) in
          Inr (\<lparr>sample_rate = rate, channels = nch, sample_width = width, frames = nframes, file_bytes = length bs\<rparr>,
               take (nframes * (nch * width)) data)))"

definition wav_open :: "bytes \<Rightarrow> vexc + wav_info" where
  "wav_open bs = res_bind (wav_read bs) (\<lambda>(info, data). Inr info)"

section \<open>The stream response\<close>

definition stream_to_wav :: "bytes \<Rightarrow> vexc + bytes \<times> wav_info" where
  "stream_to_wav stream =
     (if length stream < 4 then Inl RuntimeErr
      else let rate = from_le (take 4 stream); pcm = drop 4 stream in
        res_bind (wav_write 1 2 rate pcm) (\<lambda>file.
        res_bind (wav_open file) (\<lambda>info. Inr (file, info))))"

section \<open>Lemmas\<close>

lemma length_le [simp]: "length (le n x) = n"
  by (induction n arbitrary: x) auto

lemma from_le_le: "from_le (le n x) = x mod 256 ^ n"
  by (induction n arbitrary: x) (auto simp: mod_mult2_eq mult.commute)

lemma from_le_le_id [simp]: "x < 256 ^ n \<Longrightarrow> from_le (le n x) = x"
  by (simp add: from_le_le)

lemma length_ascii [simp]: "length (ascii s) = length s"
  by (simp add: ascii_def)

lemma take_field [simp]: "length f = n \<Longrightarrow> take n (f @ r) = f"
  and drop_field [simp]: "length f = n \<Longrightarrow> drop n (f @ r) = r"
  by auto

lemma drop_fields: "length f \<le> n \<Longrightarrow> drop n (f @ r) = drop (n - length f) r"
  by simp

lemma length_wav_header [simp]: "length (wav_header nch width rate len) = 44"
  by (simp add: wav_header_def)

lemma read_fmt_written:
  assumes "0 < nch" "nch < 2 ^ 16" "rate < 2 ^ 32" "0 < width" "width * 8 < 2 ^ 16" "length x = 6"
  shows "read_fmt (le 2 1 @ le 2 nch @ le 4 rate @ x @ le 2 (width * 8)) = Inr (nch, rate, width)"
  using assms by (simp add: read_fmt_def Let_def)

lemma fmt_not_data [simp]: "ascii ''data'' \<noteq> ascii ''fmt ''"
  by (simp add: ascii_def)

lemma read_data_chunk:
  assumes "len < 2 ^ 32"
  shows "read_chunks (Some (nch, rate, width)) (8 + k) (ascii ''data'' @ le 4 len @ pcm)
    = Inr ((nch, rate, width), len, take len (take k pcm))"
  using assms by (subst read_chunks.simps) (simp add: Let_def)

lemma read_fmt_chunk:
  assumes "length f = 16" and "read_fmt f = Inr g"
  shows "read_chunks None (24 + k) (ascii ''fmt '' @ le 4 16 @ f @ rest) = read_chunks (Some g) k rest"
  using assms by (subst read_chunks.simps) (simp add: Let_def)

lemma wav_read_written:
  assumes "0 < nch" "nch < 2 ^ 16" "rate < 2 ^ 32" "0 < width" "width * 8 < 2 ^ 16"
    and "36 + length pcm < 2 ^ 32"
  shows "wav_read (wav_header nch width rate (length pcm) @ pcm) = Inr (\<lparr>sample_rate = rate, channels = nch,
    sample_width = width, frames = length pcm div (nch * width), file_bytes = 44 + length pcm\<rparr>,
    take (length pcm div (nch * width) * (nch * width)) pcm)"
proof -
  let ?len = "length pcm"
  define f where "f = le 2 1 @ le 2 nch @ le 4 rate @ (le 4 (nch * rate * width) @ le 2 (nch * width)) @ le 2 (width * 8)"
  have f: "length f = 16" "read_fmt f = Inr (nch, rate, width)"
    using read_fmt_written [of nch rate width "le 4 (nch * rate * width) @ le 2 (nch * width)"] assms(1-5)
    by (simp_all add: f_def)
  define rest where "rest = ascii ''fmt '' @ le 4 16 @ f @ ascii ''data'' @ le 4 ?len @ pcm"
  have wf: "wav_header nch width rate ?len @ pcm = ascii ''RIFF'' @ le 4 (36 + ?len) @ ascii ''WAVE'' @ rest"
    by (simp add: wav_header_def rest_def f_def)
  have l: "length rest = 32 + ?len" using f(1) by (simp add: rest_def)
  have "read_chunks None (32 + ?len) rest = read_chunks (Some (nch, rate, width)) (8 + ?len) (ascii ''data'' @ le 4 ?len @ pcm)"
    using read_fmt_chunk [OF f, of "8 + ?len"] by (simp add: rest_def add.assoc)
  also have "\<dots> = Inr ((nch, rate, width), ?len, pcm)"
    using assms(6) read_data_chunk [of ?len nch rate width ?len pcm] by simp
  finally have r: "read_chunks None (32 + ?len) rest = Inr ((nch, rate, width), ?len, pcm)" .
  show ?thesis
    unfolding wf using assms(6) r l by (simp add: wav_read_def Let_def)
qed

lemma wav_open_written:
  assumes "0 < nch" "nch < 2 ^ 16" "rate < 2 ^ 32" "0 < width" "width * 8 < 2 ^ 16"
    and "36 + length pcm < 2 ^ 32"
  shows "wav_open (wav_header nch width rate (length pcm) @ pcm) = Inr \<lparr>sample_rate = rate, channels = nch,
    sample_width = width, frames = length pcm div (nch * width), file_bytes = 44 + length pcm\<rparr>"
  unfolding wav_open_def wav_read_written [OF assms] by simp

end
