(* ===== verification/Roundtrip_Verify.thy ===== *)
theory Roundtrip_Verify
  imports Speech_Text Wav_File
begin

text \<open>
  The HTTP round-trip verifier \<^verbatim>\<open>models/common/verify_tts_asr_roundtrip.py\<close>: synthesize every
  case, transcribe the WAV file, and compare the transcript with the text.  The two services are
  fields of an environment; a response that the client cannot decode is one of its exceptions.
\<close>

section \<open>Cases and services\<close>

text \<open>\<open>Some None\<close> is a key present with the value \<^verbatim>\<open>null\<close>.\<close>

record rcase =
  c_name :: "utext option"
  c_text :: "utext option"
  c_language :: "utext option"
  c_speaker :: "int option option"
  c_speed :: "rat option option"
  c_min_similarity :: "rat option"
  c_keywords :: "utext list"

record rargs =
  tts_url :: string
  asr_url :: string
  language :: utext
  speaker_id :: "int option"
  speed :: "rat option"
  min_similarity :: rat
  streaming :: bool

record payload =
  pl_text :: utext
  pl_speaker :: "int option"
  pl_speed :: "rat option"
  pl_language :: "utext option"

record services =
  low :: "nat \<Rightarrow> nat list"
  get_health :: "string \<Rightarrow> vexc + (string \<Rightarrow> bool)"
  post_tts :: "string \<Rightarrow> payload \<Rightarrow> vexc + bytes"
  post_asr :: "string \<Rightarrow> utext \<Rightarrow> bytes \<Rightarrow> vexc + utext"

record case_result =
  passed :: bool
  r_text :: utext
  asr_text :: utext
  similarity :: rat
  threshold :: rat
  missing_keywords :: "utext list"
  wav :: wav_info

definition default_cases :: "(string \<times> rat \<times> string list) list" where
  "default_cases =
     [(''Hello, this is a TensorRT Kokoro test.'', 11 / 20, []),
      (''Please close the bedroom window and turn on the desk light.'', 11 / 20,
         [''bedroom'', ''window'', ''desk'', ''light'']),
      (''Please close the bedroom window, turn on the desk light, and turn off the kitchen fan.'', 1 / 2,
         [''bedroom'', ''window'', ''light'', ''kitchen'', ''fan''])]"

definition case_of :: "string \<times> rat \<times> string list \<Rightarrow> rcase" where
  "case_of = (\<lambda>(said, sim, kws).
     \<lparr>c_name = None, c_text = Some (ascii said), c_language = Some (ascii ''en''), c_speaker = None, c_speed = None,
      c_min_similarity = Some sim, c_keywords = map ascii kws\<rparr>)"

text \<open>The cases file: none given, one that cannot be read, JSON that is not a list, or the list.\<close>

definition load_cases :: "(vexc + rcase list option) option \<Rightarrow> vexc + rcase list" where
  "load_cases given =
     (case given of
        None \<Rightarrow> Inr (map case_of default_cases)
      | Some data \<Rightarrow> res_bind data (of_option ValueErr))"

definition rstrip_slash :: "string \<Rightarrow> string" where
  "rstrip_slash s = rev (dropWhile (\<lambda>c. c = CHR ''/'') (rev s))"

text \<open>\<^verbatim>\<open>d.get(key, default)\<close> on an optional key.\<close>

definition get_or :: "'a option \<Rightarrow> 'a \<Rightarrow> 'a" where
  "get_or v dflt = (case v of None \<Rightarrow> dflt | Some x \<Rightarrow> x)"

definition case_language :: "rargs \<Rightarrow> rcase \<Rightarrow> utext" where
  "case_language args c = (case c_language c of Some l \<Rightarrow> if l \<noteq> [] then l else language args
                           | None \<Rightarrow> language args)"

definition case_payload :: "rargs \<Rightarrow> rcase \<Rightarrow> utext \<Rightarrow> payload" where
  "case_payload args c text =
     (let lang = case_language args c in
      \<lparr>pl_text = text,
       pl_speaker = get_or (c_speaker c) (speaker_id args),
       pl_speed = get_or (c_speed c) (speed args),
       pl_language = (if lang \<noteq> [] then Some lang else None)\<rparr>)"

definition synthesize :: "services \<Rightarrow> rargs \<Rightarrow> payload \<Rightarrow> vexc + bytes \<times> wav_info" where
  "synthesize env args pl =
     res_bind (post_tts env (rstrip_slash (tts_url args) @ (if streaming args then ''/tts/stream'' else ''/tts'')) pl)
       (\<lambda>audio.
         if streaming args then stream_to_wav audio
         else res_bind (wav_open audio) (\<lambda>info. Inr (audio, info)))"

definition run_case :: "services \<Rightarrow> rargs \<Rightarrow> rcase \<Rightarrow> vexc + case_result" where
  "run_case env args c =
     res_bind (of_option KeyErr (c_text c)) (\<lambda>text.
     res_bind (synthesize env args (case_payload args c text)) (\<lambda>(wav_file, info).
     res_bind (post_asr env (rstrip_slash (asr_url args) @ ''/asr'') (case_language args c) wav_file) (\<lambda>reply.
       let actual = u_strip reply;
           sim = lcs_similarity (low env) text actual;
           min_sim = get_or (c_min_similarity c) (min_similarity args);
           miss = check_keywords (low env) (c_keywords c) actual
       in Inr \<lparr>passed = (actual \<noteq> [] \<and> sim \<ge> min_sim \<and> miss = []), r_text = text, asr_text = actual,
               similarity = sim, threshold = min_sim, missing_keywords = miss, wav = info\<rparr>)))"

section \<open>The command\<close>

text \<open>The exceptions \<^verbatim>\<open>main\<close> turns into status 1.\<close>

definition caught :: "vexc \<Rightarrow> bool" where
  "caught e \<longleftrightarrow> e \<in> {UrlError, TimeoutErr, RuntimeErr, ValueErr}"

fun run_cases :: "services \<Rightarrow> rargs \<Rightarrow> rcase list \<Rightarrow> vexc + case_result list" where
  "run_cases env args [] = Inr []"
| "run_cases env args (c # cs) =
     res_bind (run_case env args c) (\<lambda>r. res_bind (run_cases env args cs) (\<lambda>rs. Inr (r # rs)))"

definition roundtrip_report ::
  "services \<Rightarrow> rargs \<Rightarrow> (vexc + rcase list option) option \<Rightarrow> vexc + case_result list" where
  "roundtrip_report env args given =
     res_bind (load_cases given) (\<lambda>cases.
     res_bind (get_health env (rstrip_slash (tts_url args) @ ''/health'')) (\<lambda>h_tts.
     res_bind (get_health env (rstrip_slash (asr_url args) @ ''/health'')) (\<lambda>h_asr.
     res_bind (check (h_tts ''tts'') RuntimeErr) (\<lambda>_.
     res_bind (check (h_asr ''asr'') RuntimeErr) (\<lambda>_.
       run_cases env args cases)))))"

definition roundtrip_main ::
  "services \<Rightarrow> rargs \<Rightarrow> (vexc + rcase list option) option \<Rightarrow> vexc + nat" where
  "roundtrip_main env args given =
     (case roundtrip_report env args given of
        Inr results \<Rightarrow> Inr (if \<forall>r\<in>set results. passed r then 0 else 1)
      | Inl e \<Rightarrow> if caught e then Inr 1 else Inl e)"

section \<open>Lemmas\<close>

lemma run_cases_Inr:
  "run_cases env args cs = Inr rs \<longleftrightarrow> list_all2 (\<lambda>c r. run_case env args c = Inr r) cs rs"
  by (induction cs arbitrary: rs) (auto simp: list_all2_Cons1)

lemma run_case_Inr:
  assumes "run_case env args c = Inr r"
  shows "\<exists>text wav_file reply. c_text c = Some text
    \<and> synthesize env args (case_payload args c text) = Inr (wav_file, wav r)
    \<and> post_asr env (rstrip_slash (asr_url args) @ ''/asr'') (case_language args c) wav_file = Inr reply
    \<and> r_text r = text \<and> asr_text r = u_strip reply
    \<and> similarity r = lcs_similarity (low env) text (u_strip reply)
    \<and> threshold r = get_or (c_min_similarity c) (min_similarity args)
    \<and> missing_keywords r = check_keywords (low env) (c_keywords c) (u_strip reply)
    \<and> passed r = (asr_text r \<noteq> [] \<and> similarity r \<ge> threshold r \<and> missing_keywords r = [])"
  using assms unfolding run_case_def by (auto simp: Let_def)

lemma stream_to_wav_written:
  assumes "rate < 2 ^ 32" and "36 + length pcm < 2 ^ 32"
  shows "stream_to_wav (le 4 rate @ pcm) =
       (if rate = 0 then Inl WaveErr
        else if 2 ^ 31 \<le> rate then Inl StructErr
        else Inr (wav_header 1 2 rate (length pcm) @ pcm,
          \<lparr>sample_rate = rate, channels = 1, sample_width = 2, frames = length pcm div 2,
           file_bytes = 44 + length pcm\<rparr>))"
  using assms wav_open_written [of 1 rate 2 pcm]
  by (auto simp: stream_to_wav_def Let_def wav_write_def)

lemma nat_quotient_one: "0 < q \<Longrightarrow> of_nat p / of_nat q = (1 :: rat) \<longleftrightarrow> p = q"
  by (simp add: divide_eq_eq)

lemma lcs_similarity_self: "lcs_similarity l x x = 1"
  using is_lcs_full [OF lcs_table_last, of "normalize_text l x" "normalize_text l x"]
  by (auto simp: lcs_similarity_def Let_def)

section \<open>Properties\<close>

text \<open>
  C16: the similarity is the normalised length of a longest common subsequence.  The row-by-row
  table ends in the greatest length of a common subsequence of the normalised texts, so the
  similarity lies between 0 and 1, is symmetric, and is 1 exactly when the normalised texts are
  equal.
\<close>

theorem lcs_similarity_exact:
  "is_lcs (last (lcs_table (normalize_text l x) (normalize_text l y))) (normalize_text l x) (normalize_text l y)
   \<and> 0 \<le> lcs_similarity l x y \<and> lcs_similarity l x y \<le> 1
   \<and> lcs_similarity l x y = lcs_similarity l y x
   \<and> (lcs_similarity l x y = 1 \<longleftrightarrow> normalize_text l x = normalize_text l y)"
proof -
  let ?a = "normalize_text l x" and ?b = "normalize_text l y"
  have n: "is_lcs (last (lcs_table ?a ?b)) ?a ?b" by (rule lcs_table_last)
  have sym: "last (lcs_table ?a ?b) = last (lcs_table ?b ?a)"
    using is_lcs_unique [OF n] lcs_table_last [of ?b ?a] is_lcs_sym by metis
  have le: "last (lcs_table ?a ?b) \<le> max (length ?a) (length ?b)" using is_lcs_bound [OF n] by linarith
  have full: "last (lcs_table ?a ?b) = max (length ?a) (length ?b) \<longleftrightarrow> ?a = ?b" by (rule is_lcs_full [OF n])
  show ?thesis
  proof (cases "?a = [] \<or> ?b = []")
    case True
    then show ?thesis using n by (auto simp: lcs_similarity_def Let_def)
  next
    case False
    then have pos: "0 < max (length ?a) (length ?b)" by (simp add: less_max_iff_disj)
    have q: "lcs_similarity l x y = of_nat (last (lcs_table ?a ?b)) / of_nat (max (length ?a) (length ?b))"
      using False by (simp add: lcs_similarity_def Let_def)
    have q': "lcs_similarity l y x = lcs_similarity l x y"
      using False by (simp add: lcs_similarity_def Let_def sym max.commute)
    have "lcs_similarity l x y \<le> 1" using le pos unfolding q by (simp add: divide_le_eq)
    moreover have "lcs_similarity l x y = 1 \<longleftrightarrow> last (lcs_table ?a ?b) = max (length ?a) (length ?b)"
      unfolding q by (rule nat_quotient_one [OF pos])
    moreover have "0 \<le> lcs_similarity l x y" unfolding q by simp
    ultimately show ?thesis using n q' full by simp
  qed
qed

text \<open>
  C17: what a passing run shows.  When the verifier exits with 0, both services reported ready
  and every case has run, and for every case the transcript of the
  synthesized audio is not empty, it shares with the text a common subsequence of at least the
  required share of the longer normalised text, and it contains every keyword.
\<close>

theorem roundtrip_pass_sound:
  assumes "roundtrip_main env args given = Inr 0" and "load_cases given = Inr cases" and "c \<in> set cases"
  shows "\<exists>text wav_file info reply. c_text c = Some text
    \<and> synthesize env args (case_payload args c text) = Inr (wav_file, info)
    \<and> post_asr env (rstrip_slash (asr_url args) @ ''/asr'') (case_language args c) wav_file = Inr reply
    \<and> u_strip reply \<noteq> []
    \<and> (let a = normalize_text (low env) text; b = normalize_text (low env) (u_strip reply) in
         a = b \<or> (\<exists>zs. subseq zs a \<and> subseq zs b
           \<and> of_nat (length zs) \<ge> get_or (c_min_similarity c) (min_similarity args)
               * of_nat (max (length a) (length b))))
    \<and> (\<forall>kw\<in>set (c_keywords c). sublist (u_lower (low env) kw) (u_lower (low env) (u_strip reply)))"
proof -
  from assms(1) obtain rs where rs: "roundtrip_report env args given = Inr rs" "\<forall>r\<in>set rs. passed r"
    by (auto simp: roundtrip_main_def split: sum.splits if_splits)
  then have "list_all2 (\<lambda>c r. run_case env args c = Inr r) cases rs"
    using assms(2) by (auto simp: roundtrip_report_def run_cases_Inr)
  then have nth: "length rs = length cases" "\<forall>i<length cases. run_case env args (cases ! i) = Inr (rs ! i)"
    by (simp_all add: list_all2_conv_all_nth)
  from assms(3) obtain i where "i < length cases" "cases ! i = c" by (auto simp: in_set_conv_nth)
  with nth rs(2) obtain r where r: "run_case env args c = Inr r" "passed r" by (metis nth_mem)
  from run_case_Inr [OF r(1)] obtain said wav_file reply where
    x: "c_text c = Some said" "synthesize env args (case_payload args c said) = Inr (wav_file, wav r)"
      "post_asr env (rstrip_slash (asr_url args) @ ''/asr'') (case_language args c) wav_file = Inr reply" and
    y: "asr_text r = u_strip reply" "similarity r = lcs_similarity (low env) said (u_strip reply)"
      "threshold r = get_or (c_min_similarity c) (min_similarity args)"
      "missing_keywords r = check_keywords (low env) (c_keywords c) (u_strip reply)"
      "passed r = (asr_text r \<noteq> [] \<and> similarity r \<ge> threshold r \<and> missing_keywords r = [])"
    by blast
  from r(2) have "asr_text r \<noteq> []" "similarity r \<ge> threshold r" "missing_keywords r = []"
    unfolding y(5) by simp_all
  then have ne: "u_strip reply \<noteq> []" and
    sim: "lcs_similarity (low env) said (u_strip reply) \<ge> get_or (c_min_similarity c) (min_similarity args)" and
    kws: "check_keywords (low env) (c_keywords c) (u_strip reply) = []"
    unfolding y(1-4) by simp_all
  let ?a = "normalize_text (low env) said" and ?b = "normalize_text (low env) (u_strip reply)"
  let ?m = "get_or (c_min_similarity c) (min_similarity args)"
  have kw: "\<forall>kw\<in>set (c_keywords c). sublist (u_lower (low env) kw) (u_lower (low env) (u_strip reply))"
    using kws by (simp add: check_keywords_def filter_empty_conv contains_iff)
  have "?a = ?b \<or> (\<exists>zs. subseq zs ?a \<and> subseq zs ?b
      \<and> of_nat (length zs) \<ge> ?m * of_nat (max (length ?a) (length ?b)))"
  proof (cases "?a = [] \<or> ?b = []")
    case True
    have "?m * of_nat (max (length ?a) (length ?b)) \<le> 0" if "?a \<noteq> ?b"
      using True sim that by (auto simp: lcs_similarity_def Let_def mult_nonpos_nonneg)
    then show ?thesis by (metis list.size(3) list_emb_Nil of_nat_0)
  next
    case False
    from lcs_table_last [of ?a ?b] obtain zs where
      z: "subseq zs ?a" "subseq zs ?b" "length zs = last (lcs_table ?a ?b)"
      by (auto simp: is_lcs_def common_def)
    have "0 < max (length ?a) (length ?b)" using False by (simp add: less_max_iff_disj)
    then have "?m * of_nat (max (length ?a) (length ?b)) \<le> of_nat (length zs)"
      using sim False z(3) by (simp add: lcs_similarity_def Let_def pos_le_divide_eq)
    with z show ?thesis by blast
  qed
  with x ne kw show ?thesis unfolding Let_def by blast
qed

definition demo_services :: services where
  "demo_services = \<lparr>low = (\<lambda>c. [c]), get_health = (\<lambda>_. Inr (\<lambda>_. True)),
     post_tts = (\<lambda>_ pl. Inr (le 4 24000 @ pl_text pl)),
     post_asr = (\<lambda>_ _ file. Inr (drop 44 file))\<rparr>"

definition demo_rargs :: rargs where
  "demo_rargs = \<lparr>tts_url = ''u/'', asr_url = ''u'', language = [101, 110], speaker_id = Some 52, speed = None,
     min_similarity = 1 / 2, streaming = True\<rparr>"

definition demo_case :: rcase where
  "demo_case = \<lparr>c_name = None, c_text = Some [72, 105], c_language = None, c_speaker = None, c_speed = None,
     c_min_similarity = None, c_keywords = [[104]]\<rparr>"

theorem roundtrip_pass_sound_witness:
  "\<exists>reply. u_strip reply \<noteq> [] \<and> sublist (u_lower (low demo_services) [104]) (u_lower (low demo_services) (u_strip reply))"
proof -
  have "u_strip [72, 105] = [72, 105]" by (simp add: u_strip_def u_lstrip_def u_space_def)
  then have "roundtrip_main demo_services demo_rargs (Some (Inr (Some [demo_case]))) = Inr 0"
    using stream_to_wav_written [of 24000 "[72, 105]"]
    by (simp add: roundtrip_main_def roundtrip_report_def run_case_def synthesize_def case_payload_def
        demo_services_def demo_rargs_def demo_case_def Let_def get_or_def lcs_similarity_self
        check_keywords_def u_lower_def load_cases_def del: le.simps)
  from roundtrip_pass_sound [OF this, of "[demo_case]" demo_case] show ?thesis
    by (auto simp: demo_case_def load_cases_def)
qed

text \<open>
  Wrapping a stream response.  A stream that carries its sample rate in the first four bytes,
  little-endian, becomes a mono 16-bit WAV file whose header reads back with that rate and with
  half as many frames as the PCM part has bytes.  A response shorter than the header, a rate of
  zero, and a rate whose byte rate does not fit 32 bits are refused, each with its own exception.
\<close>

theorem stream_to_wav_roundtrip:
  assumes "rate < 2 ^ 32" and "36 + length pcm < 2 ^ 32" and "length short < 4"
  shows "stream_to_wav (le 4 rate @ pcm) =
       (if rate = 0 then Inl WaveErr
        else if 2 ^ 31 \<le> rate then Inl StructErr
        else Inr (wav_header 1 2 rate (length pcm) @ pcm,
          \<lparr>sample_rate = rate, channels = 1, sample_width = 2, frames = length pcm div 2,
           file_bytes = 44 + length pcm\<rparr>))
    \<and> stream_to_wav short = Inl RuntimeErr"
  using stream_to_wav_written [OF assms(1,2)] assms(3) by (simp add: stream_to_wav_def)

theorem stream_to_wav_roundtrip_witness:
  "\<exists>file. stream_to_wav (le 4 24000 @ [1, 2, 3, 4, 5]) = Inr (file, \<lparr>sample_rate = 24000, channels = 1,
     sample_width = 2, frames = 2, file_bytes = 49\<rparr>)"
  using stream_to_wav_roundtrip [of 24000 "[1, 2, 3, 4, 5]" "[]"] by simp

end
