(* ===== verification/Pruned_Vocab.thy ===== *)
theory Pruned_Vocab
  imports Py_Text Wav_File
begin

text \<open>
  Expansion of a pruned text embedding: \<^verbatim>\<open>models/qwen3/expand_qwen3_tts_pruned_vocab.py\<close>.
  The token map sends a reduced id to the original tokenizer id; a row of the embedding is any
  list of half-precision values given by its bytes.  The tokenizer and the JSON parser are
  parameters.
\<close>

definition VOCAB :: nat where "VOCAB = 151936"

definition DIM :: nat where "DIM = 2048"

datatype vocab_error = RowsMismatch nat int | BadMetadata | BadMap | IndexErr

section \<open>The expanded map\<close>

definition corpus_step :: "int \<Rightarrow> nat list \<Rightarrow> nat list" where
  "corpus_step token_id seen =
     (if 0 \<le> token_id \<and> token_id < int VOCAB \<and> nat token_id \<notin> set seen then seen @ [nat token_id] else seen)"

definition corpus_token_ids :: "(string \<Rightarrow> int list) \<Rightarrow> string list \<Rightarrow> nat list" where
  "corpus_token_ids encode corpus =
     fold (\<lambda>line. fold corpus_step (encode line)) corpus []"

text \<open>The closure \<^verbatim>\<open>add\<close>; its state is \<^verbatim>\<open>additions\<close>, and \<^verbatim>\<open>keep\<close> is the base map with them.\<close>

definition add_token :: "nat list \<Rightarrow> int \<Rightarrow> nat list \<Rightarrow> nat list" where
  "add_token base token_id additions =
     (if 0 \<le> token_id \<and> token_id < int VOCAB \<and> nat token_id \<notin> set base \<union> set additions
      then additions @ [nat token_id] else additions)"

fun fill_rows :: "nat list \<Rightarrow> int \<Rightarrow> nat list \<Rightarrow> nat list \<Rightarrow> nat list" where
  "fill_rows base add_rows [] additions = additions"
| "fill_rows base add_rows (t # ts) additions =
     (if int (length additions) \<ge> add_rows then additions
      else fill_rows base add_rows ts (add_token base (int t) additions))"

definition wanted_first :: "(string \<Rightarrow> int list) \<Rightarrow> nat list \<Rightarrow> string list \<Rightarrow> int list \<Rightarrow> nat list" where
  "wanted_first encode base corpus force_ids =
     fold (add_token base) (map int (corpus_token_ids encode corpus)) (fold (add_token base) force_ids [])"

definition build_expanded_map ::
  "(string \<Rightarrow> int list) \<Rightarrow> nat list \<Rightarrow> int \<Rightarrow> string list \<Rightarrow> int list \<Rightarrow> vocab_error + nat list" where
  "build_expanded_map encode base add_rows corpus force_ids =
     (let additions = fill_rows base add_rows [0..<VOCAB] (wanted_first encode base corpus force_ids)
      in if int (length additions) \<noteq> add_rows then Inl (RowsMismatch (length additions) add_rows)
         else Inr (base @ additions))"

section \<open>Files\<close>

text \<open>\<^verbatim>\<open>ndarray.tofile\<close> and \<^verbatim>\<open>np.fromfile\<close> of \<^verbatim>\<open>uint32\<close>.\<close>

definition write_map :: "nat list \<Rightarrow> bytes" where
  "write_map m = concat (map (le 4) m)"

fun read_map :: "bytes \<Rightarrow> nat list" where
  "read_map (a # b # c # d # bs) = from_le [a, b, c, d] # read_map bs"
| "read_map _ = []"

text \<open>The header \<^verbatim>\<open>json.dumps\<close> prints with the separators the source asks for.\<close>

definition header_text :: "nat \<Rightarrow> nat \<Rightarrow> nat \<Rightarrow> string" where
  "header_text rows cols nbytes =
     [CHR 123, CHR 34] @ ''text_embedding'' @ [CHR 34, CHR 58, CHR 123, CHR 34] @ ''dtype'' @ [CHR 34, CHR 58, CHR 34]
     @ ''F16'' @ [CHR 34, CHR 44, CHR 34] @ ''shape'' @ [CHR 34, CHR 58, CHR 91] @ str_nat rows @ [CHR 44] @ str_nat cols
     @ [CHR 93, CHR 44, CHR 34] @ ''data_offsets'' @ [CHR 34, CHR 58, CHR 91] @ ''0'' @ [CHR 44] @ str_nat nbytes
     @ [CHR 93, CHR 125, CHR 125]"

definition pad_header :: "bytes \<Rightarrow> bytes" where
  "pad_header h = h @ replicate ((8 - length h mod 8) mod 8) 32"

definition write_text_embedding_safetensors :: "bytes list \<Rightarrow> bytes" where
  "write_text_embedding_safetensors rows =
     (let h = pad_header (ascii (header_text (length rows) DIM (length (concat rows))))
      in le 8 (length h) @ h @ concat rows)"

definition read_safetensors_header :: "(bytes \<Rightarrow> 'h option) \<Rightarrow> bytes \<Rightarrow> vocab_error + 'h \<times> nat" where
  "read_safetensors_header loads bs =
     (if length bs < 8 then Inl BadMetadata
      else let header_len = from_le (take 8 bs) in
        res_bind (of_option BadMetadata (loads (take header_len (drop 8 bs)))) (\<lambda>h. Inr (h, 8 + header_len)))"

record tensor_meta =
  m_keys :: "string list"
  m_dtype :: string
  m_shape :: "nat list"
  m_offsets :: "nat \<times> nat"

text \<open>The full table: metadata as expected, then \<^verbatim>\<open>VOCAB\<close> rows of \<^verbatim>\<open>2 * DIM\<close> bytes.\<close>

definition load_text_embedding_memmap ::
  "(bytes \<Rightarrow> tensor_meta option) \<Rightarrow> bytes \<Rightarrow> vocab_error + (nat \<Rightarrow> bytes)" where
  "load_text_embedding_memmap loads bs =
     res_bind (read_safetensors_header loads bs) (\<lambda>(meta, data_start).
       if set (m_keys meta) \<noteq> {''text_embedding''} then Inl BadMetadata
       else if m_dtype meta \<noteq> ''F16'' \<or> m_shape meta \<noteq> [VOCAB, DIM] then Inl BadMetadata
       else if m_offsets meta \<noteq> (0, VOCAB * DIM * 2) then Inl BadMetadata
       else Inr (\<lambda>r. take (2 * DIM) (drop (data_start + r * (2 * DIM)) bs)))"

text \<open>Fancy indexing of the table: an id outside it raises.\<close>

definition select_rows :: "(nat \<Rightarrow> bytes) \<Rightarrow> nat list \<Rightarrow> vocab_error + bytes list" where
  "select_rows full m = (if \<forall>t\<in>set m. t < VOCAB then Inr (map full m) else Inl IndexErr)"

text \<open>
  Corpus lines of a file: stripped, without blank lines and comments; \<open>read_map\<close> gives the base map.
\<close>

definition corpus_lines_of :: "string \<Rightarrow> string list" where
  "corpus_lines_of content =
     map strip (filter (\<lambda>line. strip line \<noteq> [] \<and> \<not> prefix ''#'' (dropWhile is_space line)) (splitlines content))"

definition expand_main ::
  "(bytes \<Rightarrow> tensor_meta option) \<Rightarrow> (string \<Rightarrow> int list) \<Rightarrow> bytes \<Rightarrow> bytes \<Rightarrow> int \<Rightarrow> string list
     \<Rightarrow> string list \<Rightarrow> int list \<Rightarrow> vocab_error + bytes \<times> bytes" where
  "expand_main loads encode token_map full_table add_rows corpus files force_ids =
     res_bind (build_expanded_map encode (read_map token_map) add_rows
                 (corpus @ concat (map corpus_lines_of files)) force_ids) (\<lambda>m.
     res_bind (load_text_embedding_memmap loads full_table) (\<lambda>full.
     res_bind (select_rows full m) (\<lambda>rows.
       Inr (write_text_embedding_safetensors rows, write_map m))))"

section \<open>Lemmas\<close>

text \<open>What every step of the expansion keeps of the additions.\<close>

definition additions_ok :: "nat list \<Rightarrow> nat list \<Rightarrow> bool" where
  "additions_ok base xs \<longleftrightarrow> distinct xs \<and> set xs \<inter> set base = {} \<and> (\<forall>x\<in>set xs. x < VOCAB)"

lemma add_token_ok:
  assumes "additions_ok base xs"
  shows "additions_ok base (add_token base t xs) \<and> prefix xs (add_token base t xs)
    \<and> (0 \<le> t \<and> t < int VOCAB \<longrightarrow> nat t \<in> set base \<union> set (add_token base t xs))"
  using assms by (auto simp: additions_ok_def add_token_def)

lemma fold_add_token:
  assumes "additions_ok base xs"
  shows "additions_ok base (fold (add_token base) ts xs) \<and> prefix xs (fold (add_token base) ts xs)
    \<and> (\<forall>t\<in>set ts. 0 \<le> t \<and> t < int VOCAB \<longrightarrow> nat t \<in> set base \<union> set (fold (add_token base) ts xs))"
  using assms
proof (induction ts arbitrary: xs)
  case (Cons t ts)
  note s = add_token_ok [OF Cons.prems, of t]
  from Cons.IH [of "add_token base t xs"] s show ?case
    by (auto dest: set_mono_prefix intro: prefix_order.trans)
qed simp

lemma fill_rows_ok:
  assumes "additions_ok base xs"
  shows "additions_ok base (fill_rows base n ts xs) \<and> prefix xs (fill_rows base n ts xs)
    \<and> (int (length xs) \<le> n \<longrightarrow> int (length (fill_rows base n ts xs)) \<le> n)"
  using assms
proof (induction ts arbitrary: xs)
  case (Cons t ts)
  note s = add_token_ok [OF Cons.prems, of "int t"]
  have l: "length (add_token base (int t) xs) \<le> Suc (length xs)" by (simp add: add_token_def)
  show ?case
  proof (cases "int (length xs) \<ge> n")
    case True
    with Cons.prems show ?thesis by simp
  next
    case False
    with l have "int (length (add_token base (int t) xs)) \<le> n" by linarith
    with Cons.IH [of "add_token base (int t) xs"] s False show ?thesis
      by (auto intro: prefix_order.trans)
  qed
qed simp

lemma fill_rows_exhausts:
  assumes "additions_ok base xs" and "int (length (fill_rows base n ts xs)) < n"
  shows "\<forall>t\<in>set ts. t < VOCAB \<longrightarrow> t \<in> set base \<union> set (fill_rows base n ts xs)"
  using assms
proof (induction ts arbitrary: xs)
  case (Cons t ts)
  note s = add_token_ok [OF Cons.prems(1), of "int t"]
  have "length xs \<le> length (fill_rows base n (t # ts) xs)"
    using fill_rows_ok [OF Cons.prems(1), of n "t # ts"] prefix_length_le by blast
  then have lt: "int (length xs) < n" using Cons.prems(2) by linarith
  then have f: "fill_rows base n (t # ts) xs = fill_rows base n ts (add_token base (int t) xs)" by simp
  have "prefix (add_token base (int t) xs) (fill_rows base n (t # ts) xs)"
    unfolding f using s fill_rows_ok by blast
  with Cons.IH [of "add_token base (int t) xs"] s Cons.prems(2) f show ?case
    by (auto dest: set_mono_prefix)
qed simp

lemma read_write_map: "\<forall>t\<in>set m. t < 2 ^ 32 \<Longrightarrow> read_map (write_map m) = m"
proof (induction m)
  case (Cons t m)
  have four: "(4 :: nat) = Suc (Suc (Suc (Suc 0)))" by simp
  have "le 4 t = [t mod 256, t div 256 mod 256, t div 256 div 256 mod 256, t div 256 div 256 div 256 mod 256]"
    unfolding four le.simps by simp
  moreover have "from_le (le 4 t) = t" using Cons.prems by simp
  ultimately show ?case using Cons by (simp add: write_map_def)
qed (simp add: write_map_def)

lemma pad_header_aligned: "length (pad_header h) mod 8 = 0"
proof -
  have "length (pad_header h) = length h + (8 - length h mod 8) mod 8" by (simp add: pad_header_def)
  moreover have "(length h + (8 - length h mod 8)) mod 8 = 0"
  proof -
    obtain q r where h: "length h = 8 * q + r" "r < 8"
      by (metis mult_div_mod_eq mod_less_divisor zero_less_numeral)
    then have "length h + (8 - length h mod 8) = 8 * (q + 1)" by simp
    then show ?thesis by simp
  qed
  ultimately show ?thesis by (simp add: mod_add_right_eq)
qed

lemma wanted_first_ok:
  "additions_ok base (wanted_first encode base corpus force_ids)
   \<and> (\<forall>t\<in>set force_ids. 0 \<le> t \<and> t < int VOCAB \<longrightarrow> nat t \<in> set base \<union> set (wanted_first encode base corpus force_ids))
   \<and> (\<forall>t\<in>set (corpus_token_ids encode corpus). t < VOCAB \<longrightarrow> t \<in> set base \<union> set (wanted_first encode base corpus force_ids))"
proof -
  have "additions_ok base []" by (simp add: additions_ok_def)
  note f = fold_add_token [OF this, of force_ids]
  note c = fold_add_token [of base "fold (add_token base) force_ids []" "map int (corpus_token_ids encode corpus)"]
  from f c show ?thesis unfolding wanted_first_def by (auto dest: set_mono_prefix)
qed

lemma nth_row_concat:
  assumes "\<forall>x\<in>set rows. length x = w" and "r < length rows"
  shows "take w (drop (r * w) (concat rows)) = rows ! r"
  using assms
proof (induction rows arbitrary: r)
  case (Cons x rows)
  show ?case
  proof (cases r)
    case 0
    with Cons.prems show ?thesis by simp
  next
    case (Suc k)
    with Cons show ?thesis by (simp add: drop_append)
  qed
qed simp

section \<open>Properties\<close>

text \<open>
  What the expanded map is.  A successful expansion keeps the base map as its first part and
  appends exactly the requested number of new ids, all distinct, inside the vocabulary and not in
  the base map; every requested id and every corpus token inside the vocabulary is then present.
  It fails only when the requested ids and corpus tokens alone are more than the rows asked for, or
  when the whole vocabulary is already covered.
\<close>

theorem expanded_map_exact:
  "case build_expanded_map encode base add_rows corpus force_ids of
     Inr m \<Rightarrow> \<exists>new. m = base @ new \<and> int (length new) = add_rows \<and> distinct new \<and> set new \<inter> set base = {}
       \<and> (\<forall>t\<in>set new. t < VOCAB)
       \<and> (\<forall>t\<in>set force_ids. 0 \<le> t \<and> t < int VOCAB \<longrightarrow> nat t \<in> set m)
       \<and> (\<forall>t\<in>set (corpus_token_ids encode corpus). t < VOCAB \<longrightarrow> t \<in> set m)
   | Inl e \<Rightarrow> \<exists>k. e = RowsMismatch k add_rows
       \<and> (add_rows < int (length (wanted_first encode base corpus force_ids)) \<and> add_rows < int k
          \<or> int k < add_rows \<and> add_rows + int (card (set base \<inter> {..<VOCAB})) > int VOCAB)"
proof -
  let ?w = "wanted_first encode base corpus force_ids"
  let ?a = "fill_rows base add_rows [0..<VOCAB] ?w"
  note w = wanted_first_ok [of base encode corpus force_ids]
  note a = fill_rows_ok [OF conjunct1 [OF w], of add_rows "[0..<VOCAB]"]
  have sub: "set ?w \<subseteq> set ?a" using a by (auto dest: set_mono_prefix)
  show ?thesis
  proof (cases "int (length ?a) = add_rows")
    case True
    then show ?thesis
      using a w sub by (fastforce simp: build_expanded_map_def Let_def additions_ok_def)
  next
    case False
    have "add_rows < int (length ?w) \<and> add_rows < int (length ?a)
        \<or> int (length ?a) < add_rows \<and> add_rows + int (card (set base \<inter> {..<VOCAB})) > int VOCAB"
    proof (cases "int (length ?a) < add_rows")
      case True
      have "{..<VOCAB} \<subseteq> (set base \<inter> {..<VOCAB}) \<union> set ?a"
        using fill_rows_exhausts [OF conjunct1 [OF w] True] by auto
      then have "VOCAB \<le> card ((set base \<inter> {..<VOCAB}) \<union> set ?a)"
        by (metis card_lessThan card_mono finite_Int finite_Un finite_set)
      also have "\<dots> \<le> card (set base \<inter> {..<VOCAB}) + length ?a"
        by (meson add_left_mono card_Un_le card_length order_trans)
      finally show ?thesis using True by linarith
    next
      case F: False
      with False have "add_rows < int (length ?a)" by simp
      moreover have "add_rows < int (length ?w)" using a calculation by auto
      ultimately show ?thesis by simp
    qed
    with False show ?thesis by (simp add: build_expanded_map_def Let_def)
  qed
qed

lemma fill_rows_done: "n \<le> int (length xs) \<Longrightarrow> fill_rows base n ts xs = xs"
  by (cases ts) auto

lemma demo_map: "build_expanded_map (\<lambda>_. []) [] 1 [] [5] = Inr [5]"
  by (simp add: build_expanded_map_def wanted_first_def corpus_token_ids_def add_token_def VOCAB_def
      fill_rows_done del: upt_Suc)

theorem expanded_map_exact_witness:
  "\<exists>new. [5] = [] @ new \<and> length new = 1 \<and> distinct new"
  using expanded_map_exact [where encode = "\<lambda>_. []" and base = "[]" and add_rows = 1 and corpus = "[]"
      and force_ids = "[5]"] unfolding demo_map by auto

text \<open>
  C18: the expanded files read back.  After a successful run, the written token map reads back as
  the expanded map, the tensor data starts at a multiple of eight, and row \<open>r\<close> of it is the row of
  the full table for the id the map gives to \<open>r\<close>.
\<close>

theorem expanded_files_roundtrip:
  assumes run: "expand_main loads encode token_map full_table add_rows corpus given force_ids = Inr (emb, tm)"
    and full: "load_text_embedding_memmap loads full_table = Inr full"
    and big: "\<forall>t<VOCAB. length (full t) = 2 * DIM"
    and len: "length emb < 2 ^ 64"
  shows "\<exists>new start. read_map tm = read_map token_map @ new \<and> int (length new) = add_rows
    \<and> start = 8 + from_le (take 8 emb) \<and> start mod 8 = 0
    \<and> (\<forall>r<length (read_map tm). take (2 * DIM) (drop (start + r * (2 * DIM)) emb) = full (read_map tm ! r))"
proof -
  from run full obtain m rows where
    m: "build_expanded_map encode (read_map token_map) add_rows (corpus @ concat (map corpus_lines_of given)) force_ids = Inr m"
      "select_rows full m = Inr rows" "emb = write_text_embedding_safetensors rows" "tm = write_map m"
    by (auto simp: expand_main_def)
  from m(1) obtain new where new: "m = read_map token_map @ new" "int (length new) = add_rows"
    by (auto simp: build_expanded_map_def Let_def split: if_splits)
  from m(2) have rows: "rows = map full m" "\<forall>t\<in>set m. t < VOCAB" by (auto simp: select_rows_def split: if_splits)
  have "VOCAB < 2 ^ 32" by (simp add: VOCAB_def)
  with rows(2) have tm: "read_map tm = m" unfolding m(4) by (intro read_write_map) (auto intro: less_trans)
  have w: "\<forall>x\<in>set rows. length x = 2 * DIM" using rows big by auto
  then have n: "length (concat rows) = length m * (2 * DIM)"
    using rows(1) by (simp add: length_concat sum_list_triv comp_def cong: map_cong)
  let ?h = "pad_header (ascii (header_text (length rows) DIM (length (concat rows))))"
  have e: "emb = le 8 (length ?h) @ ?h @ concat rows" unfolding m(3) write_text_embedding_safetensors_def Let_def ..
  then have h: "length ?h < 256 ^ 8" using len by simp
  from e have start: "8 + from_le (take 8 emb) = 8 + length ?h" using h by simp
  have "drop (8 + length ?h + k) emb = drop k (concat rows)" for k
    unfolding e by (simp add: add.commute)
  then have "take (2 * DIM) (drop (8 + length ?h + r * (2 * DIM)) emb) = full (m ! r)" if "r < length m" for r
    using nth_row_concat [OF w, of r] that rows(1) by simp
  moreover have "(8 + length ?h) mod 8 = 0"
    using pad_header_aligned [of "ascii (header_text (length rows) DIM (length (concat rows)))"] by presburger
  ultimately show ?thesis using new start tm by (intro exI [of _ new] exI [of _ "8 + length ?h"]) simp
qed

definition demo_meta :: tensor_meta where
  "demo_meta = \<lparr>m_keys = [''text_embedding''], m_dtype = ''F16'', m_shape = [VOCAB, DIM], m_offsets = (0, VOCAB * DIM * 2)\<rparr>"

theorem expanded_files_roundtrip_witness:
  "\<exists>emb tm. expand_main (\<lambda>_. Some demo_meta) (\<lambda>_. []) [] (le 8 0 @ replicate (VOCAB * (2 * DIM)) 7) 1 [] [] [5]
     = Inr (emb, tm) \<and> read_map tm = [5]"
proof -
  let ?table = "le 8 0 @ replicate (VOCAB * (2 * DIM)) 7"
  define full where "full = (\<lambda>r. take (2 * DIM) (drop (8 + r * (2 * DIM)) ?table))"
  have load: "load_text_embedding_memmap (\<lambda>_. Some demo_meta) ?table = Inr full"
    by (simp add: load_text_embedding_memmap_def read_safetensors_header_def demo_meta_def full_def
        Let_def del: le.simps take_append drop_append)
  have big: "\<forall>t<VOCAB. length (full t) = 2 * DIM"
  proof (intro allI impI)
    fix t assume "t < VOCAB"
    then have "Suc t * (2 * DIM) \<le> VOCAB * (2 * DIM)" by (intro mult_le_mono1) simp
    then show "length (full t) = 2 * DIM" by (simp add: full_def del: le.simps)
  qed
  have "5 < VOCAB" by (simp add: VOCAB_def)
  define emb where "emb = write_text_embedding_safetensors [full 5]"
  have run: "expand_main (\<lambda>_. Some demo_meta) (\<lambda>_. []) [] ?table 1 [] [] [5] = Inr (emb, write_map [5])"
    using load \<open>5 < VOCAB\<close> demo_map by (simp add: expand_main_def select_rows_def emb_def del: le.simps)
  have "length (full 5) = 4096" using big \<open>5 < VOCAB\<close> by (simp add: DIM_def)
  then have "length emb < 2 ^ 64"
    by (simp add: emb_def write_text_embedding_safetensors_def Let_def pad_header_def header_text_def
        DIM_def str_nat.simps del: le.simps)
  from expanded_files_roundtrip [OF run load big this] have "length (read_map (write_map [5])) = 1" by auto
  with run show ?thesis by (intro exI [of _ emb] exI [of _ "write_map [5]"]) (simp add: read_write_map)
qed

end
