(* ===== verification/Code2Wav_Export.thy ===== *)
theory Code2Wav_Export
  imports Code2Wav_Gate_Props Py_Text
begin

text \<open>
  The exported module of \<^verbatim>\<open>scripts/qwen3_tts_code2wav_stateful_export.py\<close>: one chunk in, one
  chunk of waveform out, with every piece of state an explicit input and output tensor addressed by
  a cursor.  A state tensor is the list of its frames; keys, values and feature frames are kept
  apart by their constructor.
\<close>

section \<open>State tensors\<close>

datatype ('k, 'v, 'f) sval = KS "'k list" | VS "'v list" | FS "'f list"

datatype xp_error = StateIndex | StateKind | UnhandledDecoderBlock | Chunking c2w_error

fun as_keys :: "('k, 'v, 'f) sval \<Rightarrow> xp_error + 'k list" where
  "as_keys (KS ks) = Inr ks"
| "as_keys _ = Inl StateKind"

fun as_values :: "('k, 'v, 'f) sval \<Rightarrow> xp_error + 'v list" where
  "as_values (VS vs) = Inr vs"
| "as_values _ = Inl StateKind"

fun as_frames :: "('k, 'v, 'f) sval \<Rightarrow> xp_error + 'f list" where
  "as_frames (FS xs) = Inr xs"
| "as_frames _ = Inl StateKind"

definition take_state :: "'s list \<Rightarrow> nat \<Rightarrow> xp_error + 's \<times> nat" where
  "take_state states cursor =
     (if cursor < length states then Inr (states ! cursor, cursor + 1) else Inl StateIndex)"

text \<open>What a step hands on: the hidden frames, the cursor and the outputs so far.\<close>

type_synonym ('k, 'v, 'f) carry = "'f list \<times> nat \<times> ('k, 'v, 'f) sval list"

section \<open>Steps of the modules\<close>

definition xp_conv ::
  "'f conv_mod \<Rightarrow> ('k, 'v, 'f) sval list \<Rightarrow> ('k, 'v, 'f) carry \<Rightarrow> xp_error + ('k, 'v, 'f) carry" where
  "xp_conv m states = (\<lambda>(hidden, cursor, outputs).
     if conv_padding m = 0 then Inr (conv_fn m hidden, cursor, outputs)
     else res_bind (take_state states cursor) (\<lambda>(s, cursor).
          res_bind (as_frames s) (\<lambda>state.
            let (y, next_state) = ex_causal_conv_step m hidden state
            in Inr (y, cursor, outputs @ [FS next_state]))))"

definition xp_tconv ::
  "'f::comm_monoid_add tconv_mod \<Rightarrow> ('k, 'v, 'f) sval list \<Rightarrow> ('k, 'v, 'f) carry
     \<Rightarrow> xp_error + ('k, 'v, 'f) carry" where
  "xp_tconv m states = (\<lambda>(hidden, cursor, outputs).
     if tc_right_pad m = 0 then Inr (ex_transposed_conv_no_state m hidden, cursor, outputs)
     else res_bind (take_state states cursor) (\<lambda>(s, cursor).
          res_bind (as_frames s) (\<lambda>pending.
            let (y, next_pending) = ex_transposed_conv_step m hidden pending
            in Inr (y, cursor, outputs @ [FS next_pending]))))"

text \<open>A frame-wise function on the hidden frames of a carry.\<close>

definition on_hidden :: "('f \<Rightarrow> 'f) \<Rightarrow> ('k, 'v, 'f) carry \<Rightarrow> ('k, 'v, 'f) carry" where
  "on_hidden f = (\<lambda>(hidden, cursor, outputs). (map f hidden, cursor, outputs))"

text \<open>\<^verbatim>\<open>residual + g(y)\<close>, the residual being the hidden frames of the first carry.\<close>

definition residual_of ::
  "('f \<Rightarrow> 'f \<Rightarrow> 'f) \<Rightarrow> ('k, 'v, 'f) carry \<Rightarrow> ('k, 'v, 'f) carry \<Rightarrow> ('k, 'v, 'f) carry" where
  "residual_of g = (\<lambda>(residual, _, _) (y, cursor, outputs). (map2 g residual y, cursor, outputs))"

definition xp_convnext ::
  "'f::{comm_monoid_add,times} convnext_mod \<Rightarrow> ('k, 'v, 'f) sval list \<Rightarrow> ('k, 'v, 'f) carry
     \<Rightarrow> xp_error + ('k, 'v, 'f) carry" where
  "xp_convnext block states c =
     res_bind (xp_conv (cx_dwconv block) states c) (\<lambda>d.
       Inr (residual_of (\<lambda>r y. r + convnext_point block y) c d))"

definition xp_unit ::
  "'f::comm_monoid_add unit_mod \<Rightarrow> ('k, 'v, 'f) sval list \<Rightarrow> ('k, 'v, 'f) carry
     \<Rightarrow> xp_error + ('k, 'v, 'f) carry" where
  "xp_unit unit states c =
     res_bind (xp_conv (ru_conv1 unit) states (on_hidden (ru_act1 unit) c)) (\<lambda>d.
     res_bind (xp_conv (ru_conv2 unit) states (on_hidden (ru_act2 unit) d)) (\<lambda>d.
       Inr (residual_of (\<lambda>r y. r + y) c d)))"

definition xp_stage ::
  "'f::comm_monoid_add stage_mod \<Rightarrow> ('k, 'v, 'f) sval list \<Rightarrow> ('k, 'v, 'f) carry
     \<Rightarrow> xp_error + ('k, 'v, 'f) carry" where
  "xp_stage block states c =
     res_bind (xp_tconv (ds_tconv block) states (on_hidden (ds_act block) c))
       (res_fold (\<lambda>unit. xp_unit unit states) (ds_units block))"

definition xp_block ::
  "'f::comm_monoid_add dec_block \<Rightarrow> ('k, 'v, 'f) sval list \<Rightarrow> ('k, 'v, 'f) carry
     \<Rightarrow> xp_error + ('k, 'v, 'f) carry" where
  "xp_block block states c =
     (case block of
        ConvBlock m \<Rightarrow> xp_conv m states c
      | StageBlock stage \<Rightarrow> xp_stage stage states c
      | SnakeBlock f \<Rightarrow> Inr (on_hidden f c)
      | OtherBlock \<Rightarrow> Inl UnhandledDecoderBlock)"

definition xp_upsample ::
  "'f::{comm_monoid_add,times} tconv_mod \<times> 'f convnext_mod \<Rightarrow> ('k, 'v, 'f) sval list
     \<Rightarrow> ('k, 'v, 'f) carry \<Rightarrow> xp_error + ('k, 'v, 'f) carry" where
  "xp_upsample = (\<lambda>(tconv, block) states c.
     res_bind (xp_tconv tconv states c) (xp_convnext block states))"

section \<open>Attention\<close>

text \<open>Positions of the cache are counted back from the offset; negative ones are masked.\<close>

definition xp_attention_step ::
  "('f, 'q, 'k, 'v) attn_mod \<Rightarrow> int \<Rightarrow> 'f list \<Rightarrow> 'k list \<Rightarrow> 'v list \<Rightarrow> int \<Rightarrow> 'f list \<times> 'k list \<times> 'v list" where
  "xp_attention_step m keep hidden k_state v_state position_offset =
     (let positions = positions_from position_offset (length hidden);
          all_k = k_state @ map2 (at_k m) hidden positions;
          all_v = v_state @ map (at_v m) hidden;
          past_positions = positions_from (position_offset - keep) (nat keep);
          all_positions = past_positions @ positions;
          out = map2 (\<lambda>h p. at_attend m (at_q m h p)
                  (map (\<lambda>(k, v, kp). (k, v, kp \<ge> 0 \<and> valid_key (at_window m) p kp))
                    (zip all_k (zip all_v all_positions)))) hidden positions
      in (out, py_from all_k (- keep), py_from all_v (- keep)))"

definition xp_layer ::
  "int \<Rightarrow> int \<Rightarrow> ('f::plus, 'q, 'k, 'v) rg_layer \<Rightarrow> ('k, 'v, 'f) sval list \<Rightarrow> ('k, 'v, 'f) carry
     \<Rightarrow> xp_error + ('k, 'v, 'f) carry" where
  "xp_layer keep position_offset ly states = (\<lambda>(hidden, cursor, outputs).
     res_bind (take_state states cursor) (\<lambda>(ks, cursor).
     res_bind (take_state states cursor) (\<lambda>(vs, cursor).
     res_bind (as_keys ks) (\<lambda>k_state.
     res_bind (as_values vs) (\<lambda>v_state.
       let (h, next_k, next_v) = xp_attention_step (rl_self_attn ly) keep
               (map (rl_input_layernorm ly) hidden) k_state v_state position_offset;
           hidden = map2 (\<lambda>r y. r + rl_self_attn_layer_scale ly y) hidden h
       in Inr (map (rg_tail ly) hidden, cursor, outputs @ [KS next_k, VS next_v]))))))"

definition xp_pre_transformer_step ::
  "int \<Rightarrow> ('f::plus, 'q, 'k, 'v) rg_pre \<Rightarrow> int \<Rightarrow> ('k, 'v, 'f) sval list \<Rightarrow> ('k, 'v, 'f) carry
     \<Rightarrow> xp_error + ('k, 'v, 'f) carry" where
  "xp_pre_transformer_step keep pre position_offset states c =
     res_bind (res_fold (\<lambda>ly. xp_layer keep position_offset ly states) (rp_layers pre)
                 (on_hidden (rp_input_proj pre) c))
       (\<lambda>c. Inr (on_hidden (rp_output_proj pre) (on_hidden (rp_norm pre) c)))"

section \<open>The module\<close>

definition xp_forward ::
  "int \<Rightarrow> ('c, 'f::{comm_monoid_add,times}, 'q, 'k, 'v) rg_model \<Rightarrow> 'c list \<Rightarrow> int \<Rightarrow> ('k, 'v, 'f) sval list
     \<Rightarrow> xp_error + 'f list \<times> ('k, 'v, 'f) sval list" where
  "xp_forward keep model codes position_offset states =
     (let hidden = map (qm_decode model) codes in
      res_bind (take_state states (2 * length (rp_layers (qm_pre model)))) (\<lambda>(s, cursor).
      res_bind (as_frames s) (\<lambda>state.
        let (hidden, next_state) = ex_causal_conv_step (qm_pre_conv model) hidden state in
        res_bind (xp_pre_transformer_step keep (qm_pre model) position_offset states (hidden, 0, []))
          (\<lambda>(hidden, _, pre_outputs).
        res_bind (res_fold (\<lambda>b. xp_upsample b states) (qm_upsample model)
                    (hidden, cursor, pre_outputs @ [FS next_state])) (\<lambda>c.
        res_bind (res_fold (\<lambda>b. xp_block b states) (qm_decoder model) c) (\<lambda>(hidden, _, outputs).
          Inr (map (qm_clamp model) hidden, outputs)))))))"

section \<open>State specifications\<close>

datatype skind = KeyState | ValueState | FrameState

record state_spec =
  sp_name :: string
  sp_shape :: "nat list"
  sp_kind :: skind

record 'f xp_config =
  num_key_value_heads :: nat
  head_dim :: nat
  in_channels :: "'f conv_mod \<Rightarrow> nat"
  out_channels :: "'f tconv_mod \<Rightarrow> nat"

definition attn_specs :: "'f xp_config \<Rightarrow> nat \<Rightarrow> nat \<Rightarrow> state_spec list" where
  "attn_specs cfg keep i =
     (let shape = [1, num_key_value_heads cfg, keep, head_dim cfg] in
      [\<lparr>sp_name = ''attn_'' @ str_nat i @ ''_k'', sp_shape = shape, sp_kind = KeyState\<rparr>,
       \<lparr>sp_name = ''attn_'' @ str_nat i @ ''_v'', sp_shape = shape, sp_kind = ValueState\<rparr>])"

definition add_conv :: "'f xp_config \<Rightarrow> string \<Rightarrow> 'f conv_mod \<Rightarrow> state_spec list" where
  "add_conv cfg name m =
     (if conv_padding m = 0 then []
      else [\<lparr>sp_name = name, sp_shape = [1, in_channels cfg m, conv_padding m], sp_kind = FrameState\<rparr>])"

definition add_tconv :: "'f xp_config \<Rightarrow> string \<Rightarrow> 'f tconv_mod \<Rightarrow> state_spec list" where
  "add_tconv cfg name m =
     (if tc_right_pad m = 0 then []
      else [\<lparr>sp_name = name, sp_shape = [1, out_channels cfg m, tc_right_pad m], sp_kind = FrameState\<rparr>])"

definition upsample_specs :: "'f xp_config \<Rightarrow> nat \<Rightarrow> 'f tconv_mod \<times> 'f convnext_mod \<Rightarrow> state_spec list" where
  "upsample_specs cfg i = (\<lambda>(t, b).
     add_tconv cfg (''upsample_'' @ str_nat i @ ''_tconv_pending'') t
     @ add_conv cfg (''upsample_'' @ str_nat i @ ''_convnext_dw_state'') (cx_dwconv b))"

definition unit_specs :: "'f xp_config \<Rightarrow> string \<Rightarrow> nat \<Rightarrow> 'f unit_mod \<Rightarrow> state_spec list" where
  "unit_specs cfg pre j u =
     add_conv cfg (pre @ ''_unit_'' @ str_nat j @ ''_conv1_state'') (ru_conv1 u)
     @ add_conv cfg (pre @ ''_unit_'' @ str_nat j @ ''_conv2_state'') (ru_conv2 u)"

text \<open>\<^verbatim>\<open>enumerate(xs, start)\<close> with a body that appends.\<close>

fun enum_concat :: "(nat \<Rightarrow> 'a \<Rightarrow> 'b list) \<Rightarrow> nat \<Rightarrow> 'a list \<Rightarrow> 'b list" where
  "enum_concat f i [] = []"
| "enum_concat f i (x # xs) = f i x @ enum_concat f (Suc i) xs"

definition block_specs :: "'f xp_config \<Rightarrow> nat \<Rightarrow> 'f dec_block \<Rightarrow> state_spec list" where
  "block_specs cfg i block =
     (let pre = ''decoder_'' @ str_nat i in
      case block of
        ConvBlock m \<Rightarrow> add_conv cfg (pre @ ''_conv_state'') m
      | StageBlock st \<Rightarrow> add_tconv cfg (pre @ ''_tconv_pending'') (ds_tconv st)
          @ enum_concat (unit_specs cfg pre) 2 (ds_units st)
      | _ \<Rightarrow> [])"

definition build_state_specs ::
  "'f xp_config \<Rightarrow> int \<Rightarrow> ('c, 'f, 'q, 'k, 'v) rg_model \<Rightarrow> state_spec list" where
  "build_state_specs cfg keep model =
     concat (map (attn_specs cfg (nat keep)) [0..<length (rp_layers (qm_pre model))])
     @ add_conv cfg ''pre_conv_state'' (qm_pre_conv model)
     @ enum_concat (upsample_specs cfg) 0 (qm_upsample model)
     @ enum_concat (block_specs cfg) 0 (qm_decoder model)"

text \<open>\<^verbatim>\<open>torch.zeros(spec.shape)\<close>: the time axis is the third one in either kind of shape.\<close>

definition zero_state :: "state_spec \<Rightarrow> ('k::zero, 'v::zero, 'f::zero) sval" where
  "zero_state spec =
     (let n = sp_shape spec ! 2 in
      case sp_kind spec of
        KeyState \<Rightarrow> KS (replicate n 0)
      | ValueState \<Rightarrow> VS (replicate n 0)
      | FrameState \<Rightarrow> FS (replicate n 0))"

definition initial_states ::
  "'f xp_config \<Rightarrow> int \<Rightarrow> ('c, 'f::zero, 'q, 'k::zero, 'v::zero) rg_model \<Rightarrow> ('k, 'v, 'f) sval list" where
  "initial_states cfg keep model = map zero_state (build_state_specs cfg keep model)"

section \<open>The explicit-state gate\<close>

fun xp_chunks ::
  "int \<Rightarrow> ('c, 'f::{comm_monoid_add,times}, 'q, 'k, 'v) rg_model \<Rightarrow> int \<Rightarrow> ('k, 'v, 'f) sval list
     \<Rightarrow> 'c list list \<Rightarrow> xp_error + 'f list list \<times> ('k, 'v, 'f) sval list" where
  "xp_chunks keep model offset states [] = Inr ([], states)"
| "xp_chunks keep model offset states (part # parts) =
     res_bind (xp_forward keep model part offset states) (\<lambda>(y, states).
     res_bind (xp_chunks keep model (offset + int (length part)) states parts) (\<lambda>(ys, states).
       Inr (y # ys, states)))"

definition of_c2w :: "c2w_error + 'a \<Rightarrow> xp_error + 'a" where
  "of_c2w r = (case r of Inl e \<Rightarrow> Inl (Chunking e) | Inr x \<Rightarrow> Inr x)"

definition explicit_state_stream ::
  "'f xp_config \<Rightarrow> int \<Rightarrow> ('c, 'f::{comm_monoid_add,times}, 'q, 'k::zero, 'v::zero) rg_model \<Rightarrow> 'c list \<Rightarrow> int
     \<Rightarrow> xp_error + 'f list" where
  "explicit_state_stream cfg keep model codes chunk_frames =
     res_bind (of_c2w (code_chunks codes chunk_frames)) (\<lambda>chunks.
     res_bind (xp_chunks keep model 0 (initial_states cfg keep model) chunks) (\<lambda>(ys, states).
       of_c2w (torch_cat ys)))"

text \<open>What \<^verbatim>\<open>print_state_layout\<close> lists: name, input, output and shape of every state.\<close>

definition state_layout :: "state_spec list \<Rightarrow> (string \<times> string \<times> string \<times> nat list) list" where
  "state_layout specs = map (\<lambda>s. (sp_name s, sp_name s @ ''_in'', sp_name s @ ''_out'', sp_shape s)) specs"

text \<open>Names of the exported graph's inputs and outputs.\<close>

definition input_names :: "state_spec list \<Rightarrow> string list" where
  "input_names specs = [''codes'', ''position_offset''] @ map (\<lambda>s. sp_name s @ ''_in'') specs"

definition output_names :: "state_spec list \<Rightarrow> string list" where
  "output_names specs = ''waveform'' # map (\<lambda>s. sp_name s @ ''_out'') specs"

end
