(* ===== verification/Code2Wav_Export_Props.thy ===== *)
theory Code2Wav_Export_Props
  imports Code2Wav_Export
begin

text \<open>
  The exported module streams exactly.  The contract of one stage of the graph is the locale
  \<open>export_stage\<close>: at the cursor it finds what it remembers of the input so far, it puts what it
  will need next at the same place of the outputs, and its output extends the output on the input
  so far.  Stages compose in sequence, over lists and around residual connections.
\<close>

section \<open>The contract of a stage\<close>

type_synonym ('k, 'v, 'f) stage =
  "int \<Rightarrow> ('k, 'v, 'f) sval list \<Rightarrow> ('k, 'v, 'f) carry \<Rightarrow> xp_error + ('k, 'v, 'f) carry"

text \<open>One call: \<open>s\<close> is read at the cursor and \<open>sout\<close> is appended to the outputs.\<close>

definition consumes ::
  "(('k, 'v, 'f) sval list \<Rightarrow> ('k, 'v, 'f) carry \<Rightarrow> xp_error + ('k, 'v, 'f) carry)
     \<Rightarrow> ('k, 'v, 'f) sval list \<Rightarrow> 'f list \<Rightarrow> 'f list \<Rightarrow> ('k, 'v, 'f) sval list \<Rightarrow> bool" where
  "consumes op s ys out sout \<longleftrightarrow> (\<forall>pre post os. op (pre @ s @ post) (ys, length pre, os)
     = Inr (out, length pre + length s, os @ sout))"

text \<open>Kind and number of frames of a state tensor.\<close>

fun sv_shape :: "('k, 'v, 'f) sval \<Rightarrow> skind \<times> nat" where
  "sv_shape (KS ks) = (KeyState, length ks)"
| "sv_shape (VS vs) = (ValueState, length vs)"
| "sv_shape (FS xs) = (FrameState, length xs)"

locale export_stage =
  fixes op :: "('k, 'v, 'f) stage"
    and mem :: "'f list \<Rightarrow> ('k, 'v, 'f) sval list"
    and full :: "'f list \<Rightarrow> 'f list"
  assumes full_empty: "full [] = []"
    and mem_shape: "map sv_shape (mem xs) = map sv_shape (mem [])"
    and stage_step: "ys \<noteq> [] \<Longrightarrow> \<exists>out. out \<noteq> [] \<and> full (xs @ ys) = full xs @ out
      \<and> consumes (op (int (length xs))) (mem xs) ys out (mem (xs @ ys))"
begin

lemma full_nonempty: "ys \<noteq> [] \<Longrightarrow> full ys \<noteq> []"
  using stage_step [of ys "[]"] full_empty by auto

end

lemma consumes_seq:
  assumes "consumes f s1 ys zs s1'" and "consumes g s2 zs out s2'"
  shows "consumes (\<lambda>states c. res_bind (f states c) (g states)) (s1 @ s2) ys out (s1' @ s2')"
  unfolding consumes_def
proof (intro allI)
  fix pre post os
  from assms(1) have "f (pre @ s1 @ s2 @ post) (ys, length pre, os)
      = Inr (zs, length pre + length s1, os @ s1')" by (simp add: consumes_def)
  moreover from assms(2) have "g ((pre @ s1) @ s2 @ post) (zs, length (pre @ s1), os @ s1')
      = Inr (out, length (pre @ s1) + length s2, (os @ s1') @ s2')"
    unfolding consumes_def by blast
  ultimately show "res_bind (f (pre @ (s1 @ s2) @ post) (ys, length pre, os)) (g (pre @ (s1 @ s2) @ post))
      = Inr (out, length pre + length (s1 @ s2), os @ s1' @ s2')"
    by (simp add: add.assoc)
qed

text \<open>
  What a stage promises when its memory is left open: it starts from \<open>init\<close> and computes \<open>full\<close>.
\<close>

definition streams ::
  "('k, 'v, 'f) stage \<Rightarrow> ('k, 'v, 'f) sval list \<Rightarrow> ('f list \<Rightarrow> 'f list) \<Rightarrow> bool" where
  "streams op init full \<longleftrightarrow> (\<exists>mem. export_stage op mem full \<and> mem [] = init)"

lemma streamsI: "export_stage op mem full \<Longrightarrow> mem [] = init \<Longrightarrow> streams op init full"
  by (auto simp: streams_def)

lemma streams_nonempty: "streams op init full \<Longrightarrow> ys \<noteq> [] \<Longrightarrow> full ys \<noteq> []"
  by (auto simp: streams_def dest: export_stage.full_nonempty)

lemma streams_seq:
  assumes "streams f i1 F" and "streams g i2 G"
    and "\<And>xs. g (int (length (F xs))) = g (int (length xs))"
  shows "streams (\<lambda>off states c. res_bind (f off states c) (g off states)) (i1 @ i2) (\<lambda>xs. G (F xs))"
proof -
  from assms(1,2) obtain mf mg where m: "export_stage f mf F" "mf [] = i1" "export_stage g mg G" "mg [] = i2"
    by (auto simp: streams_def)
  note fe = export_stage.full_empty [OF m(1)] and ge = export_stage.full_empty [OF m(3)]
  show ?thesis
  proof (rule streamsI)
    show "export_stage (\<lambda>off states c. res_bind (f off states c) (g off states))
      (\<lambda>xs. mf xs @ mg (F xs)) (\<lambda>xs. G (F xs))"
    proof
      fix xs ys :: "'c list"
      assume "ys \<noteq> []"
      from export_stage.stage_step [OF m(1) this, of xs] obtain zs where
        z: "zs \<noteq> []" "F (xs @ ys) = F xs @ zs" "consumes (f (int (length xs))) (mf xs) ys zs (mf (xs @ ys))"
        by blast
      from export_stage.stage_step [OF m(3) z(1), of "F xs"] obtain out where
        o: "out \<noteq> []" "G (F xs @ zs) = G (F xs) @ out"
          "consumes (g (int (length xs))) (mg (F xs)) zs out (mg (F xs @ zs))"
        using assms(3) by metis
      show "\<exists>out. out \<noteq> [] \<and> G (F (xs @ ys)) = G (F xs) @ out \<and>
          consumes (\<lambda>states c. res_bind (f (int (length xs)) states c) (g (int (length xs)) states))
            (mf xs @ mg (F xs)) ys out (mf (xs @ ys) @ mg (F (xs @ ys)))"
        using o z(2) consumes_seq [OF z(3) o(3)] by auto
    next
      fix xs :: "'c list"
      show "map sv_shape (mf xs @ mg (F xs)) = map sv_shape (mf [] @ mg (F []))"
        using export_stage.mem_shape [OF m(1), of xs] export_stage.mem_shape [OF m(3), of "F xs"] fe by simp
    qed (simp add: fe ge)
  qed (simp add: m(2,4) fe)
qed


lemma res_bind_assoc: "res_bind (res_bind r f) g = res_bind r (\<lambda>x. res_bind (f x) g)"
  by (cases r) simp_all

lemma on_hidden_comp: "on_hidden f (on_hidden g c) = on_hidden (\<lambda>x. f (g x)) c"
  by (cases c) (simp add: on_hidden_def)

lemma streams_point: "streams (\<lambda>off states c. Inr (on_hidden f c)) [] (map f)"
  by (rule streamsI [where mem = "\<lambda>xs. []"], unfold_locales) (auto simp: consumes_def on_hidden_def)

lemma streams_residual:
  assumes "streams f i F" and "\<And>xs. length (F xs) = length xs"
  shows "streams (\<lambda>off states c. res_bind (f off states c) (\<lambda>d. Inr (residual_of h c d))) i
    (\<lambda>xs. map2 h xs (F xs))"
proof -
  from assms(1) obtain m where m: "export_stage f m F" "m [] = i" by (auto simp: streams_def)
  have "export_stage (\<lambda>off states c. res_bind (f off states c) (\<lambda>d. Inr (residual_of h c d))) m
    (\<lambda>xs. map2 h xs (F xs))"
  proof
    fix xs ys :: "'c list"
    assume "ys \<noteq> []"
    from export_stage.stage_step [OF m(1) this, of xs] obtain out where
      o: "out \<noteq> []" "F (xs @ ys) = F xs @ out" "consumes (f (int (length xs))) (m xs) ys out (m (xs @ ys))"
      by blast
    have l: "length out = length ys" using o(2) assms(2) [of "xs @ ys"] assms(2) [of xs] by simp
    have "map2 h ys out \<noteq> []" using o(1) l by (cases ys; cases out) auto
    moreover have "map2 h (xs @ ys) (F (xs @ ys)) = map2 h xs (F xs) @ map2 h ys out"
      using o(2) assms(2) [of xs] by simp
    moreover have "consumes (\<lambda>states c. res_bind (f (int (length xs)) states c) (\<lambda>d. Inr (residual_of h c d)))
        (m xs) ys (map2 h ys out) (m (xs @ ys))"
      using o(3) by (simp add: consumes_def residual_of_def)
    ultimately show "\<exists>out. out \<noteq> [] \<and> map2 h (xs @ ys) (F (xs @ ys)) = map2 h xs (F xs) @ out
      \<and> consumes (\<lambda>states c. res_bind (f (int (length xs)) states c) (\<lambda>d. Inr (residual_of h c d)))
          (m xs) ys out (m (xs @ ys))"
      by blast
  qed (use export_stage.mem_shape [OF m(1)] in simp_all)
  then show ?thesis using m(2) by (rule streamsI)
qed

lemma res_fold_cong: "(\<And>x. x \<in> set xs \<Longrightarrow> f x = g x) \<Longrightarrow> res_fold f xs s = res_fold g xs s"
proof (induction xs arbitrary: s)
  case (Cons x xs)
  have "f x = g x" "res_fold f xs = res_fold g xs" using Cons by (auto simp: fun_eq_iff)
  then show ?case by simp
qed simp

text \<open>A stage per element of a list; only the first may look at the offset unless all keep the length.\<close>

lemma streams_fold:
  assumes "\<And>b. b \<in> set bs \<Longrightarrow> streams (op b) (ini b) (F b)"
    and "\<And>b b' xs. b \<in> set bs \<Longrightarrow> b' \<in> set bs \<Longrightarrow> op b' (int (length (F b xs))) = op b' (int (length xs))"
  shows "streams (\<lambda>off states. res_fold (\<lambda>b. op b off states) bs) (concat (map ini bs)) (fold F bs)"
  using assms
proof (induction bs)
  case Nil
  show ?case
    by (rule streamsI [where mem = "\<lambda>xs. []"], unfold_locales) (auto simp: consumes_def)
next
  case (Cons b bs)
  have "streams (\<lambda>off states. res_fold (\<lambda>b. op b off states) bs) (concat (map ini bs)) (fold F bs)"
    using Cons.prems by (intro Cons.IH) auto
  moreover have "res_fold (\<lambda>b'. op b' (int (length (F b xs))) states) bs
      = res_fold (\<lambda>b'. op b' (int (length xs)) states) bs" for xs states
  proof -
    have "op b' (int (length (F b xs))) = op b' (int (length xs))" if "b' \<in> set bs" for b'
      using Cons.prems(2) [of b b' xs] that by simp
    then show ?thesis by (intro ext res_fold_cong) simp
  qed
  ultimately have "streams (\<lambda>off states c. res_bind (op b off states c) (res_fold (\<lambda>b. op b off states) bs))
      (ini b @ concat (map ini bs)) (\<lambda>xs. fold F bs (F b xs))"
    by (intro streams_seq Cons.prems(1)) auto
  then show ?case by (simp add: comp_def)
qed

section \<open>Convolutions\<close>

definition conv_init_states :: "'f::zero conv_mod \<Rightarrow> ('k, 'v, 'f) sval list" where
  "conv_init_states m = (if conv_padding m = 0 then [] else [FS (replicate (conv_padding m) 0)])"

definition conv_mem :: "'f::zero conv_mod \<Rightarrow> 'f list \<Rightarrow> ('k, 'v, 'f) sval list" where
  "conv_mem m xs = (if conv_padding m = 0 then []
     else [FS (drop (length xs) (replicate (conv_padding m) 0 @ xs))])"

lemma ex_conv_step_frames:
  assumes "valid_conv m g" and "length st = conv_padding m" and "ys \<noteq> []"
  shows "ex_causal_conv_step m ys st =
     (map (\<lambda>t. g (take (Suc (conv_padding m)) (drop t (st @ ys)))) [0..<length ys],
      if conv_padding m = 0 then st else drop (length ys) (st @ ys))"
proof -
  have "conv_padding m < length (st @ ys)" using assms(2,3) by simp
  then have "conv_fn m (st @ ys) =
      map (\<lambda>t. g (take (Suc (conv_padding m)) (drop t (st @ ys)))) [0..<length ys]"
    using assms(1,2) by (simp add: valid_conv_def)
  then show ?thesis using assms(2)
    by (cases "conv_padding m = 0") (simp_all add: ex_causal_conv_step_def py_from_neg)
qed

lemma xp_conv_stage:
  assumes "valid_conv m g"
  shows "export_stage (\<lambda>off. xp_conv m) (conv_mem m) (causal_frames (conv_padding m) g)"
proof
  fix xs ys :: "'a list"
  assume ys: "ys \<noteq> []"
  let ?st = "drop (length xs) (replicate (conv_padding m) 0 @ xs)"
  let ?out = "map (\<lambda>t. g (take (Suc (conv_padding m)) (drop t (?st @ ys)))) [0..<length ys]"
  have step: "ex_causal_conv_step m ys ?st =
      (?out, if conv_padding m = 0 then ?st else drop (length ys) (?st @ ys))"
    by (rule ex_conv_step_frames [OF assms _ ys]) simp
  have "drop (length ys) (?st @ ys) = drop (length (xs @ ys)) (replicate (conv_padding m) 0 @ xs @ ys)"
    by (subst drop_join) simp_all
  moreover have "conv_fn m ys = ?out" if "conv_padding m = 0"
    using step that by (simp add: ex_causal_conv_step_def)
  ultimately have "consumes (xp_conv m) (conv_mem m xs) ys ?out (conv_mem m (xs @ ys))"
    using step by (simp add: consumes_def xp_conv_def conv_mem_def take_state_def nth_append)
  then show "\<exists>out. out \<noteq> [] \<and> causal_frames (conv_padding m) g (xs @ ys)
      = causal_frames (conv_padding m) g xs @ out \<and> consumes (xp_conv m) (conv_mem m xs) ys out (conv_mem m (xs @ ys))"
    using ys causal_frames_append [of "conv_padding m" g xs ys] by (intro exI [of _ ?out]) simp
qed (auto simp: causal_frames_def conv_mem_def)

interpretation window_export: export_stage "\<lambda>off. xp_conv (window_conv p g)" "conv_mem (window_conv p g)"
  "causal_frames (conv_padding (window_conv p g)) g"
  by (rule xp_conv_stage) (rule window_conv_valid)


section \<open>Transposed convolutions\<close>

definition tconv_init_states :: "'f::zero tconv_mod \<Rightarrow> ('k, 'v, 'f) sval list" where
  "tconv_init_states m = (if tc_right_pad m = 0 then [] else [FS (replicate (tc_right_pad m) 0)])"

definition tconv_mem ::
  "'f::comm_monoid_add tconv_mod \<Rightarrow> nat \<Rightarrow> ('f \<Rightarrow> nat \<Rightarrow> 'f) \<Rightarrow> 'f list \<Rightarrow> ('k, 'v, 'f) sval list" where
  "tconv_mem m K ker xs = (if tc_right_pad m = 0 then [] else
     [FS (map (raw_at (tc_stride m) K ker xs)
       [length xs * tc_stride m..<length xs * tc_stride m + (K - tc_stride m)])])"

definition tconv_frames ::
  "'f::comm_monoid_add tconv_mod \<Rightarrow> nat \<Rightarrow> ('f \<Rightarrow> nat \<Rightarrow> 'f) \<Rightarrow> 'f list \<Rightarrow> 'f list" where
  "tconv_frames m K ker xs =
     map (\<lambda>j. bias_frame (tc_bias m) (raw_at (tc_stride m) K ker xs j)) [0..<length xs * tc_stride m]"

text \<open>
  What the exported step relies on: no left trim, and a right trim of kernel minus stride.
\<close>

definition edge_tconv :: "'f::comm_monoid_add tconv_mod \<Rightarrow> nat \<Rightarrow> ('f \<Rightarrow> nat \<Rightarrow> 'f) \<Rightarrow> bool" where
  "edge_tconv m K ker \<longleftrightarrow>
     overlap_add m K ker \<and> tc_left_pad m = 0 \<and> tc_right_pad m = K - tc_stride m"

lemma xp_tconv_full_frames:
  assumes "edge_tconv m K ker" and "x \<noteq> []"
  shows "tconv_full m x = Inr (tconv_frames m K ker x)"
proof -
  let ?s = "tc_stride m"
  have sK: "?s \<le> K" and raw: "tc_fn m x = map (raw_at ?s K ker x) [0..<raw_len ?s K x]"
    using assms by (simp_all add: edge_tconv_def overlap_add_def)
  have "raw_len ?s K x = length x * ?s + (K - ?s)"
    using assms(2) sK by (cases x) (auto simp: raw_len_def)
  then show ?thesis
    using assms raw
    by (simp add: tconv_full_def edge_tconv_def add_bias_map tconv_frames_def py_slice_nonneg
        take_map o_def Let_def nat_mult_distrib)
qed

lemma tconv_frames_append:
  "tconv_frames m K ker (xs @ ys) = tconv_frames m K ker xs
     @ map (\<lambda>j. bias_frame (tc_bias m) (raw_at (tc_stride m) K ker (xs @ ys) j))
         [length xs * tc_stride m..<length (xs @ ys) * tc_stride m]"
proof -
  have u: "[0..<length (xs @ ys) * tc_stride m] =
      [0..<length xs * tc_stride m] @ [length xs * tc_stride m..<length (xs @ ys) * tc_stride m]"
    by (rule upt_split) (simp_all add: add_mult_distrib)
  show ?thesis
    unfolding tconv_frames_def u map_append by (simp add: raw_at_append)
qed

lemma xp_tconv_stage:
  assumes "edge_tconv m K ker"
  shows "export_stage (\<lambda>off. xp_tconv m) (tconv_mem m K ker) (tconv_frames m K ker)"
proof
  fix xs ys :: "'a list"
  assume ys: "ys \<noteq> []"
  let ?s = "tc_stride m"
  let ?pend = "\<lambda>zs. map (raw_at ?s K ker zs) [length zs * ?s..<length zs * ?s + (K - ?s)]"
  let ?out = "map (\<lambda>j. bias_frame (tc_bias m) (raw_at ?s K ker (xs @ ys) j))
      [length xs * ?s..<length (xs @ ys) * ?s]"
  have ov: "overlap_add m K ker" and rp: "tc_right_pad m = K - ?s" and s: "0 < ?s"
    using assms by (simp_all add: edge_tconv_def overlap_add_def)
  have step: "ex_transposed_conv_step m ys (?pend xs) = (?out, ?pend (xs @ ys))"
    by (rule ex_tconv_step_frames [OF ov _ ys]) (simp add: pending_rep_def)
  have "ex_transposed_conv_no_state m ys = ?out" if "tc_right_pad m = 0"
    using step that rp by (auto simp: ex_transposed_conv_step_def ex_transposed_conv_no_state_def Let_def)
  then have "consumes (xp_tconv m) (tconv_mem m K ker xs) ys ?out (tconv_mem m K ker (xs @ ys))"
    using step by (simp add: consumes_def xp_tconv_def tconv_mem_def take_state_def nth_append)
  moreover have "?out \<noteq> []" using ys s by (simp add: add_mult_distrib)
  ultimately show "\<exists>out. out \<noteq> [] \<and> tconv_frames m K ker (xs @ ys) = tconv_frames m K ker xs @ out
      \<and> consumes (xp_tconv m) (tconv_mem m K ker xs) ys out (tconv_mem m K ker (xs @ ys))"
    using tconv_frames_append by blast
qed (auto simp: tconv_frames_def tconv_mem_def)

lemma kernel_tconv_edge: "edge_tconv (kernel_tconv d 0 k b k ker) (Suc d + k) ker"
  using kernel_tconv_overlap [of d 0 k b k ker] by (simp add: edge_tconv_def kernel_tconv_def Let_def)

interpretation kernel_export: export_stage "\<lambda>off. xp_tconv (kernel_tconv d 0 k b k ker)"
  "tconv_mem (kernel_tconv d 0 k b k ker) (Suc d + k) ker" "tconv_frames (kernel_tconv d 0 k b k ker) (Suc d + k) ker"
  by (rule xp_tconv_stage) (rule kernel_tconv_edge)

lemma xp_tconv_streams:
  assumes "edge_tconv m K ker"
  shows "streams (\<lambda>off. xp_tconv m) (tconv_init_states m) (tconv_frames m K ker)"
proof (rule streamsI [OF xp_tconv_stage [OF assms]])
  show "tconv_mem m K ker [] = tconv_init_states m"
    using assms by (simp add: tconv_mem_def tconv_init_states_def edge_tconv_def raw_at_def [abs_def] map_replicate_const)
qed

lemma xp_conv_streams:
  "valid_conv m g \<Longrightarrow> streams (\<lambda>off. xp_conv m) (conv_init_states m) (causal_frames (conv_padding m) g)"
  by (rule streamsI [OF xp_conv_stage]) (simp_all add: conv_mem_def conv_init_states_def)


section \<open>Attention\<close>

text \<open>
  The cache always has \<open>keep\<close> entries: zeros for the positions before the first one, which the
  mask hides, then the last keys.
\<close>

definition cache :: "nat \<Rightarrow> (nat \<Rightarrow> 'a::zero) \<Rightarrow> nat \<Rightarrow> 'a list" where
  "cache keep f n = replicate (keep - n) 0 @ map f [n - keep..<n]"

lemma length_cache [simp]: "length (cache keep f n) = keep"
  by (simp add: cache_def)

lemma cache_more: "n \<le> N \<Longrightarrow> cache keep f n @ map f [n..<N] = replicate (keep - n) 0 @ map f [n - keep..<N]"
proof -
  assume "n \<le> N"
  then have "[n - keep..<N] = [n - keep..<n] @ [n..<N]" by (intro upt_split) simp_all
  then show ?thesis by (simp add: cache_def)
qed

lemma positions_more:
  "positions_from (int n - int keep) keep @ positions_from (int n) k = positions_from (int n - int keep) (keep + k)"
  unfolding positions_from_def upt_add_map by (simp add: o_def add.assoc)

lemma cache_step:
  assumes "0 < keep"
  shows "py_from (cache keep f n @ map f [n..<n + k]) (- int keep) = cache keep f (n + k)"
proof -
  have a: "n - keep + (k - (keep - n)) = n + k - keep" by linarith
  have "length (cache keep f n @ map f [n..<n + k]) - keep = k" by simp
  then have "py_from (cache keep f n @ map f [n..<n + k]) (- int keep) =
      drop k (replicate (keep - n) 0 @ map f [n - keep..<n + k])"
    using assms by (simp only: py_from_neg cache_more [OF le_add1])
  then show ?thesis by (simp add: cache_def drop_map a)
qed

lemma attend_masked_prefix:
  assumes "masked_no_weight m" and "\<exists>(k, v, b)\<in>set L. b" and "\<forall>(k, v, b)\<in>set P. \<not> b"
  shows "at_attend m q (P @ L) = at_attend m q L"
proof -
  have "filter (\<lambda>(k, v, b). b) P = []" using assms(3) by (auto simp: filter_empty_conv)
  then have "at_attend m q (P @ L) = at_attend m q (filter (\<lambda>(k, v, b). b) L)"
    using masked_no_weightD [OF assms(1), of "P @ L" q] assms(2) by auto
  then show ?thesis using masked_no_weightD [OF assms(1,2)] by simp
qed

text \<open>The entries the exported step scores for a query at position \<open>i\<close>.\<close>

lemma cache_entries:
  fixes m :: "('f, 'q, 'k::zero, 'v::zero) attn_mod"
  assumes "n \<le> N" and "i < N"
  shows "map (\<lambda>(k, v, kp). (k, v, kp \<ge> 0 \<and> valid_key (at_window m) (int i) kp))
      (zip (cache keep (\<lambda>j. at_k m (xs ! j) (int j)) n @ map (\<lambda>j. at_k m (xs ! j) (int j)) [n..<N])
        (zip (cache keep (\<lambda>j. at_v m (xs ! j)) n @ map (\<lambda>j. at_v m (xs ! j)) [n..<N])
          (positions_from (int n - int keep) keep @ positions_from (int n) (N - n))))
    = map (\<lambda>j. (0, 0, False)) [0..<keep - n] @ map (\<lambda>j. flag m i (kv_at m xs j)) [n - keep..<N]"
    (is "map ?f ?z = ?P @ ?L")
proof (rule nth_equalityI)
  show "length (map ?f ?z) = length (?P @ ?L)" using assms by (simp add: positions_from_def)
next
  fix j
  assume "j < length (map ?f ?z)"
  then have j: "j < keep + (N - n)" by (simp add: positions_from_def)
  show "map ?f ?z ! j = (?P @ ?L) ! j"
  proof (cases "j < keep - n")
    case True
    then have "int n - int keep + int j < 0" by linarith
    then show ?thesis using True j
      unfolding cache_more [OF assms(1)] positions_more by (simp add: nth_append positions_from_def)
  next
    case False
    define r where "r = n - keep + (j - (keep - n))"
    have p: "int n - int keep + int j = int r" using False unfolding r_def by linarith
    have "[n - keep..<N] ! (j - (keep - n)) = r" using False j assms(1) unfolding r_def by (intro nth_upt) linarith
    moreover have "j - (keep - n) < N - (n - keep)" "j < keep - n + (N - (n - keep))"
        "[0..<keep + (N - n)] ! j = j"
      using False j assms(1) by auto
    ultimately show ?thesis using False j p
      unfolding cache_more [OF assms(1)] positions_more
      by (simp add: nth_append positions_from_def flag_def kv_at_def del: nth_upt)
  qed
qed

lemma cache_append:
  "cache keep (\<lambda>j. f ((xs @ ys) ! j) (int j)) (length xs) = cache keep (\<lambda>j. f (xs ! j) (int j)) (length xs)"
  by (simp add: cache_def nth_append)

lemma new_entries:
  "map2 f ys (positions_from (int (length xs)) (length ys))
     = map (\<lambda>j. f ((xs @ ys) ! j) (int j)) [length xs..<length (xs @ ys)]"
  by (rule nth_equalityI) (auto simp: nth_append positions_from_def)

lemma xp_attention_exact:
  fixes m :: "('f, 'q, 'k::zero, 'v::zero) attn_mod" and xs ys :: "'f list" and keep :: nat
  defines "K \<equiv> \<lambda>zs j. at_k m (zs ! j) (int j)" and "V \<equiv> \<lambda>zs j. at_v m (zs ! j)"
  assumes "masked_no_weight m" and "0 < keep" and "at_window m = int keep + 1"
  shows "xp_attention_step m (int keep) ys (cache keep (K xs) (length xs)) (cache keep (V xs) (length xs))
      (int (length xs)) =
    (map (seen_out m (xs @ ys)) [length xs..<length (xs @ ys)],
     cache keep (K (xs @ ys)) (length (xs @ ys)), cache keep (V (xs @ ys)) (length (xs @ ys)))"
proof -
  let ?n = "length xs" and ?N = "length (xs @ ys)" and ?zs = "xs @ ys"
  let ?ps = "positions_from (int ?n) (length ys)"
  have k: "cache keep (K xs) ?n @ map2 (at_k m) ys ?ps = cache keep (K ?zs) ?n @ map (K ?zs) [?n..<?N]"
    unfolding K_def new_entries [of "at_k m"] cache_append [of keep "at_k m" xs ys] ..
  have v: "cache keep (V xs) ?n @ map (at_v m) ys = cache keep (V ?zs) ?n @ map (V ?zs) [?n..<?N]"
    unfolding V_def cache_append [of keep "\<lambda>x _. at_v m x" xs ys]
    by (auto simp: nth_append intro: nth_equalityI)
  have N: "[?n..<?N] = [?n..<?n + length ys]" "?N = ?n + length ys" "?N - ?n = length ys" by simp_all
  have out: "at_attend m (at_q m (?zs ! i) (int i))
      (map (\<lambda>(k, v, kp). (k, v, kp \<ge> 0 \<and> valid_key (at_window m) (int i) kp))
        (zip (cache keep (K ?zs) ?n @ map (K ?zs) [?n..<?N])
          (zip (cache keep (V ?zs) ?n @ map (V ?zs) [?n..<?N])
            (positions_from (int ?n - int keep) keep @ ?ps)))) = seen_out m ?zs i"
    if i: "?n \<le> i" "i < ?N" for i
  proof -
    let ?L = "map (\<lambda>j. flag m i (kv_at m ?zs j)) [?n - keep..<?N]"
    have "flag m i (kv_at m ?zs i) \<in> set ?L" using i by auto
    then have ex: "\<exists>(k, v, b)\<in>set ?L. b"
      using assms(5) by (force simp: flag_def kv_at_def valid_key_def)
    have ent: "map (\<lambda>(k, v, kp). (k, v, kp \<ge> 0 \<and> valid_key (at_window m) (int i) kp))
        (zip (cache keep (K ?zs) ?n @ map (K ?zs) [?n..<?N])
          (zip (cache keep (V ?zs) ?n @ map (V ?zs) [?n..<?N])
            (positions_from (int ?n - int keep) keep @ ?ps)))
      = map (\<lambda>j. (0, 0, False)) [0..<keep - ?n] @ ?L"
      using cache_entries [of ?n ?N i m keep ?zs] i(2) unfolding K_def V_def N(3) by simp
    have "at_attend m (at_q m (?zs ! i) (int i)) (map (\<lambda>j. (0, 0, False)) [0..<keep - ?n] @ ?L)
        = at_attend m (at_q m (?zs ! i) (int i)) ?L"
      by (rule attend_masked_prefix [OF assms(3) ex]) auto
    also have "\<dots> = seen_out m ?zs i"
      unfolding seen_out_def using i assms(5) by (intro attend_seen [OF assms(3)]) auto
    finally show ?thesis unfolding ent .
  qed
  have o: "map2 (\<lambda>h p. at_attend m (at_q m h p)
      (map (\<lambda>(k, v, kp). (k, v, kp \<ge> 0 \<and> valid_key (at_window m) p kp))
        (zip (cache keep (K ?zs) ?n @ map (K ?zs) [?n..<?N])
          (zip (cache keep (V ?zs) ?n @ map (V ?zs) [?n..<?N])
            (positions_from (int ?n - int keep) keep @ ?ps))))) ys ?ps
    = map (seen_out m ?zs) [?n..<?N]"
    unfolding new_entries by (rule map_cong [OF refl], rule out) auto
  show ?thesis
    unfolding xp_attention_step_def Let_def k v nat_int o
    by (simp only: cache_step [OF assms(4)] N)
qed


text \<open>A transformer layer of the exported graph.\<close>

definition layer_mem ::
  "nat \<Rightarrow> ('f, 'q, 'k::zero, 'v::zero) rg_layer \<Rightarrow> 'f list \<Rightarrow> ('k, 'v, 'f) sval list" where
  "layer_mem keep ly xs = (let m = rl_self_attn ly; hs = map (rl_input_layernorm ly) xs in
     [KS (cache keep (\<lambda>j. at_k m (hs ! j) (int j)) (length hs)), VS (cache keep (\<lambda>j. at_v m (hs ! j)) (length hs))])"

definition windowed :: "nat \<Rightarrow> ('f, 'q, 'k, 'v) rg_layer \<Rightarrow> bool" where
  "windowed keep ly \<longleftrightarrow> masked_no_weight (rl_self_attn ly) \<and> at_window (rl_self_attn ly) = int keep + 1"

lemma xp_layer_stage:
  fixes ly :: "('f::plus, 'q, 'k::zero, 'v::zero) rg_layer"
  assumes "windowed keep ly" and "0 < keep"
  shows "export_stage (\<lambda>off. xp_layer (int keep) off ly) (layer_mem keep ly) (rg_layer_full ly)"
proof
  fix xs ys :: "'f list"
  assume ys: "ys \<noteq> []"
  let ?m = "rl_self_attn ly" and ?ln = "map (rl_input_layernorm ly)"
  have mw: "masked_no_weight ?m" "at_window ?m = int keep + 1" using assms(1) by (simp_all add: windowed_def)
  let ?a = "map (seen_out ?m (?ln xs @ ?ln ys)) [length (?ln xs)..<length (?ln xs @ ?ln ys)]"
  let ?out = "map (rg_tail ly) (map2 (\<lambda>r y. r + rl_self_attn_layer_scale ly y) ys ?a)"
  note step = xp_attention_exact [OF mw(1) assms(2) mw(2), of "?ln ys" "?ln xs"]
  have "consumes (xp_layer (int keep) (int (length xs)) ly) (layer_mem keep ly xs) ys ?out (layer_mem keep ly (xs @ ys))"
    using step by (simp add: consumes_def xp_layer_def layer_mem_def take_state_def nth_append Let_def)
  moreover have "rg_layer_full ly (xs @ ys) = rg_layer_full ly xs @ ?out"
    using attention_full_append [OF mw(1), of "?ln xs" "?ln ys"]
    by (simp add: rg_layer_full_def zip_append attention_full_def [of _ "?ln xs"])
  moreover have "?out \<noteq> []" using ys by (cases ys) (auto simp: upt_rec)
  ultimately show "\<exists>out. out \<noteq> [] \<and> rg_layer_full ly (xs @ ys) = rg_layer_full ly xs @ out
      \<and> consumes (xp_layer (int keep) (int (length xs)) ly) (layer_mem keep ly xs) ys out (layer_mem keep ly (xs @ ys))"
    by blast
qed (simp_all add: rg_layer_full_def layer_mem_def Let_def)

lemma xp_layer_streams:
  assumes "windowed keep ly" and "0 < keep"
  shows "streams (\<lambda>off. xp_layer (int keep) off ly) [KS (replicate keep 0), VS (replicate keep 0)] (rg_layer_full ly)"
  by (rule streamsI [OF xp_layer_stage [OF assms]]) (simp add: layer_mem_def cache_def)

lemma xp_pre_streams:
  assumes "\<forall>ly\<in>set (rp_layers pre). windowed keep ly" and "0 < keep"
  shows "streams (\<lambda>off states. xp_pre_transformer_step (int keep) pre off states)
    (concat (map (\<lambda>ly. [KS (replicate keep 0), VS (replicate keep 0)]) (rp_layers pre))) (rg_pre_full pre)"
proof -
  let ?i = "concat (map (\<lambda>ly. [KS (replicate keep 0), VS (replicate keep 0)]) (rp_layers pre))"
  have layers: "streams (\<lambda>off states. res_fold (\<lambda>ly. xp_layer (int keep) off ly states) (rp_layers pre))
      ?i (fold rg_layer_full (rp_layers pre))"
    by (rule streams_fold) (use assms in \<open>auto intro: xp_layer_streams\<close>)
  have out: "streams (\<lambda>off states c. Inr (on_hidden (\<lambda>x. rp_output_proj pre (rp_norm pre x)) c) :: xp_error + _) []
      (map (\<lambda>x. rp_output_proj pre (rp_norm pre x)))"
    by (rule streams_point)
  show ?thesis
    using streams_seq [OF streams_point [of "rp_input_proj pre"] streams_seq [OF layers out]]
    by (simp add: on_hidden_comp xp_pre_transformer_step_def [abs_def] rg_pre_full_def [abs_def] o_def)
qed


section \<open>Blocks\<close>

text \<open>The output of a full pass that succeeds.\<close>

definition whole :: "c2w_error + 'a list \<Rightarrow> 'a list" where
  "whole r = (case r of Inl e \<Rightarrow> [] | Inr y \<Rightarrow> y)"

lemma whole_Inr [simp]: "whole (Inr y) = y"
  by (simp add: whole_def)

lemma length_causal_frames [simp]: "length (causal_frames p g xs) = length xs"
  by (simp add: causal_frames_def)

lemma xp_convnext_streams:
  assumes "valid_conv (cx_dwconv b) g"
  shows "streams (\<lambda>off. xp_convnext b) (conv_init_states (cx_dwconv b))
    (\<lambda>xs. map2 (\<lambda>r y. r + convnext_point b y) xs (causal_frames (conv_padding (cx_dwconv b)) g xs))"
  using streams_residual [OF xp_conv_streams [OF assms], of "\<lambda>r y. r + convnext_point b y"]
  by (simp add: xp_convnext_def [abs_def])

lemma xp_unit_streams:
  assumes "valid_conv (ru_conv1 u) g1" and "valid_conv (ru_conv2 u) g2"
  shows "streams (\<lambda>off. xp_unit u) (conv_init_states (ru_conv1 u) @ conv_init_states (ru_conv2 u))
    (\<lambda>xs. map2 (+) xs (causal_frames (conv_padding (ru_conv2 u)) g2 (map (ru_act2 u)
       (causal_frames (conv_padding (ru_conv1 u)) g1 (map (ru_act1 u) xs)))))"
proof -
  note 1 = streams_seq [OF streams_point [of "ru_act1 u"] xp_conv_streams [OF assms(1)] refl]
  note 2 = streams_seq [OF streams_point [of "ru_act2 u"] xp_conv_streams [OF assms(2)] refl]
  from streams_residual [OF streams_seq [OF 1 2 refl], of "(+)"] show ?thesis
    by (simp add: xp_unit_def [abs_def] res_bind_assoc)
qed


text \<open>A stage whose full pass may raise: it streams what the pass computes on a non-empty input.\<close>

definition streams_full ::
  "('k, 'v, 'f) stage \<Rightarrow> ('k, 'v, 'f) sval list \<Rightarrow> ('f list \<Rightarrow> c2w_error + 'f list) \<Rightarrow> bool" where
  "streams_full op i R \<longleftrightarrow> streams op i (\<lambda>x. whole (R x)) \<and> (\<forall>x. x \<noteq> [] \<longrightarrow> R x = Inr (whole (R x)))"

lemma streams_empty: "streams op i F \<Longrightarrow> F [] = []"
  by (auto simp: streams_def dest: export_stage.full_empty)

lemma streams_fullI:
  assumes "streams op i F" and "\<And>x. x \<noteq> [] \<Longrightarrow> R x = Inr (F x)" and "whole (R []) = []"
  shows "streams_full op i R"
proof -
  have "whole (R x) = F x" for x
    using assms(2) [of x] assms(3) streams_empty [OF assms(1)] by (cases "x = []") auto
  then show ?thesis using assms(1,2) by (simp add: streams_full_def)
qed

lemma streams_full_seq:
  assumes "streams_full (\<lambda>off. f) i R" and "streams_full (\<lambda>off. g) j S"
  shows "streams_full (\<lambda>off states c. res_bind (f states c) (g states)) (i @ j) (\<lambda>x. res_bind (R x) S)"
proof (rule streams_fullI [where F = "\<lambda>x. whole (S (whole (R x)))"])
  note f = assms(1) [unfolded streams_full_def] and g = assms(2) [unfolded streams_full_def]
  show "streams (\<lambda>off states c. res_bind (f states c) (g states)) (i @ j) (\<lambda>x. whole (S (whole (R x))))"
    using streams_seq [OF conjunct1 [OF f] conjunct1 [OF g] refl] .
  have e: "whole (R []) = []" "whole (S []) = []"
    using streams_empty [OF conjunct1 [OF f]] streams_empty [OF conjunct1 [OF g]] by auto
  then show "whole (res_bind (R []) S) = []" by (cases "R []") (auto simp: whole_def)
  fix x :: "'c list"
  assume x: "x \<noteq> []"
  then obtain y where y: "R x = Inr y" "y \<noteq> []"
    using f streams_nonempty [OF conjunct1 [OF f] x] by (metis whole_Inr)
  then show "res_bind (R x) S = Inr (whole (S (whole (R x))))" using g by simp
qed

lemma streams_full_fold:
  assumes "\<And>b. b \<in> set bs \<Longrightarrow> streams_full (\<lambda>off. op b) (ini b) (R b)"
  shows "streams_full (\<lambda>off states. res_fold (\<lambda>b. op b states) bs) (concat (map ini bs)) (res_fold R bs)"
  using assms
proof (induction bs)
  case Nil
  have "streams (\<lambda>off states. res_fold (\<lambda>b. op b states) []) (concat (map ini [])) (\<lambda>x. x)"
    using streams_fold [of "[]" "\<lambda>b off. op b" ini "\<lambda>b x. x"] by (simp add: id_def)
  then show ?case by (rule streams_fullI) simp_all
next
  case (Cons b bs)
  have "streams_full (\<lambda>off states. res_fold (\<lambda>b. op b states) bs) (concat (map ini bs)) (res_fold R bs)"
    using Cons.prems by (intro Cons.IH) auto
  from streams_full_seq [OF Cons.prems(1) [of b] this] show ?case
    by (simp add: streams_full_def)
qed

definition edge_ok :: "'f::comm_monoid_add tconv_mod \<Rightarrow> bool" where
  "edge_ok m \<longleftrightarrow> (\<exists>K ker. edge_tconv m K ker)"

definition unit_init_states :: "'f::zero unit_mod \<Rightarrow> ('k, 'v, 'f) sval list" where
  "unit_init_states u = conv_init_states (ru_conv1 u) @ conv_init_states (ru_conv2 u)"

lemma conv_full_streams: "conv_ok m \<Longrightarrow> streams_full (\<lambda>off. xp_conv m) (conv_init_states m) (causal_conv_full m)"
  by (auto simp: conv_ok_def whole_def causal_conv_full_def [of m "[]"]
      intro!: streams_fullI [OF xp_conv_streams] causal_conv_full_frames)

lemma tconv_full_streams: "edge_ok m \<Longrightarrow> streams_full (\<lambda>off. xp_tconv m) (tconv_init_states m) (tconv_full m)"
  by (auto simp: edge_ok_def whole_def tconv_full_def [of m "[]"]
      intro!: streams_fullI [OF xp_tconv_streams] xp_tconv_full_frames)

lemma convnext_full_streams:
  assumes "conv_ok (cx_dwconv b)"
  shows "streams_full (\<lambda>off. xp_convnext b) (conv_init_states (cx_dwconv b)) (convnext_full b)"
proof -
  obtain g where g: "valid_conv (cx_dwconv b) g" using assms by (auto simp: conv_ok_def)
  show ?thesis
    by (rule streams_fullI [OF xp_convnext_streams [OF g]])
      (simp_all add: convnext_full_def causal_conv_full_frames [OF g], simp add: causal_conv_full_def whole_def)
qed

lemma unit_full_streams:
  assumes "conv_ok (ru_conv1 u)" and "conv_ok (ru_conv2 u)"
  shows "streams_full (\<lambda>off. xp_unit u) (unit_init_states u) (unit_full u)"
proof -
  obtain g1 g2 where g: "valid_conv (ru_conv1 u) g1" "valid_conv (ru_conv2 u) g2"
    using assms by (auto simp: conv_ok_def)
  have "causal_frames p h x \<noteq> []" if "x \<noteq> []" for p h and x :: "'a list"
    using that length_causal_frames [of p h x] by (metis length_0_conv)
  then show ?thesis unfolding unit_init_states_def
    by (intro streams_fullI [OF xp_unit_streams [OF g]])
      (simp_all add: unit_full_def causal_conv_full_frames [OF g(1)] causal_conv_full_frames [OF g(2)],
       simp add: causal_conv_full_def whole_def)
qed

end
