(* ===== verification/Code2Wav_Export_Theorems.thy ===== *)
theory Code2Wav_Export_Theorems
  imports Code2Wav_Export_Props Code2Wav_Theorems
begin

text \<open>
  The exported module as a whole: every chunk's call finds its states where the state
  specification puts them, returns states of the same shapes, and the chunks join up to the full
  forward pass.
\<close>

section \<open>The stages after the pre-transformer\<close>

definition block_init_states :: "'f::zero dec_block \<Rightarrow> ('k, 'v, 'f) sval list" where
  "block_init_states b =
     (case b of
        ConvBlock m \<Rightarrow> conv_init_states m
      | StageBlock st \<Rightarrow> tconv_init_states (ds_tconv st) @ concat (map unit_init_states (ds_units st))
      | _ \<Rightarrow> [])"

definition upsample_init_states :: "'f::zero tconv_mod \<times> 'f convnext_mod \<Rightarrow> ('k, 'v, 'f) sval list" where
  "upsample_init_states = (\<lambda>(t, b). tconv_init_states t @ conv_init_states (cx_dwconv b))"

definition block_ok :: "'f::comm_monoid_add dec_block \<Rightarrow> bool" where
  "block_ok b \<longleftrightarrow>
     (case b of
        ConvBlock m \<Rightarrow> conv_ok m
      | StageBlock st \<Rightarrow> edge_ok (ds_tconv st)
          \<and> (\<forall>u\<in>set (ds_units st). conv_ok (ru_conv1 u) \<and> conv_ok (ru_conv2 u))
      | SnakeBlock f \<Rightarrow> True
      | OtherBlock \<Rightarrow> False)"

lemma point_full_streams: "streams_full (\<lambda>off states c. Inr (on_hidden f c)) [] (\<lambda>x. Inr (map f x))"
  by (rule streams_fullI [OF streams_point]) simp_all

lemma stage_full_streams:
  assumes "block_ok (StageBlock st)"
  shows "streams_full (\<lambda>off. xp_stage st) (block_init_states (StageBlock st)) (stage_full st)"
proof -
  have units: "streams_full (\<lambda>off states. res_fold (\<lambda>u. xp_unit u states) (ds_units st))
      (concat (map unit_init_states (ds_units st))) (res_fold unit_full (ds_units st))"
    by (rule streams_full_fold) (use assms in \<open>auto simp: block_ok_def intro: unit_full_streams\<close>)
  have "edge_ok (ds_tconv st)" using assms by (simp add: block_ok_def)
  from streams_full_seq [OF point_full_streams streams_full_seq [OF tconv_full_streams [OF this] units],
      of "ds_act st"]
  show ?thesis
    by (simp add: xp_stage_def [abs_def] stage_full_def [abs_def] block_init_states_def)
qed

lemma block_full_streams: "block_ok b \<Longrightarrow> streams_full (\<lambda>off. xp_block b) (block_init_states b) (block_full b)"
proof (cases b)
  case (ConvBlock m)
  assume "block_ok b"
  then show ?thesis using conv_full_streams [of m]
    by (simp add: ConvBlock block_ok_def xp_block_def [abs_def] block_full_def [abs_def] block_init_states_def)
next
  case (StageBlock st)
  assume "block_ok b"
  then show ?thesis using stage_full_streams [of st]
    by (simp add: StageBlock xp_block_def [abs_def] block_full_def [abs_def])
next
  case (SnakeBlock f)
  show ?thesis using point_full_streams [of f]
    by (simp add: SnakeBlock xp_block_def [abs_def] block_full_def [abs_def] block_init_states_def)
qed (simp add: block_ok_def)

lemma upsample_full_streams:
  "edge_ok t \<Longrightarrow> conv_ok (cx_dwconv b) \<Longrightarrow>
    streams_full (\<lambda>off. xp_upsample (t, b)) (upsample_init_states (t, b)) (upsample_full (t, b))"
  using streams_full_seq [OF tconv_full_streams [of t] convnext_full_streams [of b]]
  by (simp add: xp_upsample_def [abs_def] upsample_full_def [abs_def] upsample_init_states_def)

text \<open>What is assumed of the modules of an exported model.\<close>

definition xp_model_ok ::
  "int \<Rightarrow> ('c, 'f::{comm_monoid_add,times}, 'q, 'k, 'v) rg_model \<Rightarrow> bool" where
  "xp_model_ok keep model \<longleftrightarrow> 0 < keep \<and> conv_ok (qm_pre_conv model) \<and> conv_padding (qm_pre_conv model) \<noteq> 0
     \<and> (\<forall>ly\<in>set (rp_layers (qm_pre model)).
          masked_no_weight (rl_self_attn ly) \<and> at_window (rl_self_attn ly) = keep + 1)
     \<and> (\<forall>(t, b)\<in>set (qm_upsample model). edge_ok t \<and> conv_ok (cx_dwconv b))
     \<and> (\<forall>b\<in>set (qm_decoder model). block_ok b)"

definition tail_init_states ::
  "('c, 'f::zero, 'q, 'k, 'v) rg_model \<Rightarrow> ('k, 'v, 'f) sval list" where
  "tail_init_states model = concat (map upsample_init_states (qm_upsample model))
     @ concat (map block_init_states (qm_decoder model))"

definition xp_tail ::
  "('c, 'f::{comm_monoid_add,times}, 'q, 'k, 'v) rg_model \<Rightarrow> ('k, 'v, 'f) sval list
     \<Rightarrow> ('k, 'v, 'f) carry \<Rightarrow> xp_error + ('k, 'v, 'f) carry" where
  "xp_tail model states c = res_bind (res_fold (\<lambda>b. xp_upsample b states) (qm_upsample model) c)
     (res_fold (\<lambda>b. xp_block b states) (qm_decoder model))"

definition tail_full ::
  "('c, 'f::{comm_monoid_add,times}, 'q, 'k, 'v) rg_model \<Rightarrow> 'f list \<Rightarrow> c2w_error + 'f list" where
  "tail_full model x = res_bind (res_fold upsample_full (qm_upsample model) x) (res_fold block_full (qm_decoder model))"

lemma tail_full_streams:
  assumes "xp_model_ok keep model"
  shows "streams_full (\<lambda>off. xp_tail model) (tail_init_states model) (tail_full model)"
proof -
  have u: "streams_full (\<lambda>off states. res_fold (\<lambda>b. xp_upsample b states) (qm_upsample model))
      (concat (map upsample_init_states (qm_upsample model))) (res_fold upsample_full (qm_upsample model))"
    by (rule streams_full_fold)
      (use assms in \<open>auto simp: xp_model_ok_def intro!: upsample_full_streams\<close>)
  have d: "streams_full (\<lambda>off states. res_fold (\<lambda>b. xp_block b states) (qm_decoder model))
      (concat (map block_init_states (qm_decoder model))) (res_fold block_full (qm_decoder model))"
    by (rule streams_full_fold) (use assms in \<open>auto simp: xp_model_ok_def intro: block_full_streams\<close>)
  show ?thesis
    using streams_full_seq [OF u d] by (simp add: xp_tail_def [abs_def] tail_full_def [abs_def] tail_init_states_def)
qed


section \<open>The state specification\<close>

lemma map_enum_concat:
  "(\<And>i x. map h (f i x) = g x) \<Longrightarrow> map h (enum_concat f i xs) = concat (map g xs)"
  by (induction xs arbitrary: i) auto

lemma zero_add_conv [simp]: "map zero_state (add_conv cfg name m) = conv_init_states m"
  by (simp add: add_conv_def conv_init_states_def zero_state_def)

lemma zero_add_tconv [simp]: "map zero_state (add_tconv cfg name m) = tconv_init_states m"
  by (simp add: add_tconv_def tconv_init_states_def zero_state_def)

lemma zero_unit_specs [simp]: "map zero_state (unit_specs cfg pre j u) = unit_init_states u"
  by (simp add: unit_specs_def unit_init_states_def)

lemma zero_block_specs [simp]: "map zero_state (block_specs cfg i b) = block_init_states b"
  by (cases b) (simp_all add: block_specs_def block_init_states_def Let_def map_enum_concat)

lemma zero_upsample_specs [simp]: "map zero_state (upsample_specs cfg i b) = upsample_init_states b"
  by (cases b) (simp add: upsample_specs_def upsample_init_states_def)

lemma zero_attn_specs [simp]:
  "map zero_state (attn_specs cfg keep i) = [KS (replicate keep 0), VS (replicate keep 0)]"
  by (simp add: attn_specs_def zero_state_def Let_def)

definition layers_init_states ::
  "nat \<Rightarrow> ('f, 'q, 'k::zero, 'v::zero) rg_layer list \<Rightarrow> ('k, 'v, 'f) sval list" where
  "layers_init_states keep lys = concat (map (\<lambda>ly. [KS (replicate keep 0), VS (replicate keep 0)]) lys)"

lemma length_layers_init [simp]: "length (layers_init_states keep lys) = 2 * length lys"
  by (induction lys) (simp_all add: layers_init_states_def)

lemma zero_layer_specs:
  "n = length lys \<Longrightarrow> map zero_state (concat (map (attn_specs cfg keep) [0..<n])) = layers_init_states keep lys"
  by (simp add: layers_init_states_def map_concat o_def map_replicate_const)

lemma initial_states_eq:
  "initial_states cfg (int keep) model = layers_init_states keep (rp_layers (qm_pre model))
     @ conv_init_states (qm_pre_conv model) @ tail_init_states model"
  by (simp add: initial_states_def build_state_specs_def tail_init_states_def map_enum_concat
      zero_layer_specs [OF refl])

text \<open>Kind and number of frames that a specification declares.\<close>

definition spec_shape :: "state_spec \<Rightarrow> skind \<times> nat" where
  "spec_shape spec = (sp_kind spec, sp_shape spec ! 2)"

lemma sv_shape_zero: "sv_shape (zero_state spec) = spec_shape spec"
  by (cases "sp_kind spec") (simp_all add: zero_state_def spec_shape_def Let_def)

section \<open>The forward pass\<close>

lemma xp_forward_tail:
  "xp_forward keep model codes off states =
     res_bind (take_state states (2 * length (rp_layers (qm_pre model)))) (\<lambda>(s, cursor).
     res_bind (as_frames s) (\<lambda>state.
       let (hidden, next_state) = ex_causal_conv_step (qm_pre_conv model) (map (qm_decode model) codes) state in
       res_bind (xp_pre_transformer_step keep (qm_pre model) off states (hidden, 0, []))
         (\<lambda>(hidden, _, pre_outputs).
       res_bind (xp_tail model states (hidden, cursor, pre_outputs @ [FS next_state])) (\<lambda>(hidden, _, outputs).
         Inr (map (qm_clamp model) hidden, outputs)))))"
  by (simp add: xp_forward_def xp_tail_def Let_def res_bind_assoc)

lemma consumes_conv:
  assumes "consumes (xp_conv m) [FS st] ys out [FS st']" and "conv_padding m \<noteq> 0"
  shows "ex_causal_conv_step m ys st = (out, st')"
  using assms(1) [unfolded consumes_def, rule_format, of "[]" "[]" "[]"] assms(2)
  by (auto simp: xp_conv_def take_state_def split: prod.splits)

lemma forward_calls:
  assumes "ex_causal_conv_step (qm_pre_conv model) (map (qm_decode model) ys) st = (h, st')"
    and "consumes (xp_pre_transformer_step keep (qm_pre model) off) A h u A'"
    and "consumes (xp_tail model) B u w B'" and "length A = 2 * length (rp_layers (qm_pre model))"
  shows "xp_forward keep model ys off (A @ [FS st] @ B) = Inr (map (qm_clamp model) w, A' @ [FS st'] @ B')"
proof -
  have "xp_pre_transformer_step keep (qm_pre model) off (A @ [FS st] @ B) (h, 0, []) = Inr (u, length A, A')"
    using assms(2) [unfolded consumes_def, rule_format, of "[]" "[FS st] @ B" "[]"] by simp
  moreover have "xp_tail model (A @ [FS st] @ B) (u, Suc (length A), A' @ [FS st'])
      = Inr (w, Suc (length A) + length B, (A' @ [FS st']) @ B')"
    using assms(3) [unfolded consumes_def, rule_format, of "A @ [FS st]" "[]" "A' @ [FS st']"] by simp
  ultimately show ?thesis
    using assms(1) by (simp add: xp_forward_tail take_state_def assms(4) [symmetric] nth_append)
qed

definition model_frames ::
  "('c, 'f::{comm_monoid_add,times}, 'q, 'k, 'v) rg_model \<Rightarrow> 'c list \<Rightarrow> 'f list" where
  "model_frames model codes = map (qm_clamp model) (whole (tail_full model (rg_pre_full (qm_pre model)
     (whole (causal_conv_full (qm_pre_conv model) (map (qm_decode model) codes))))))"

lemma forward_stream:
  fixes model :: "('c, 'f::{comm_monoid_add,times}, 'q, 'k::zero, 'v::zero) rg_model"
  assumes "xp_model_ok (int keep) model"
  obtains rep where
    "causal_stream (\<lambda>off ys s. xp_forward (int keep) model ys off s) (initial_states cfg (int keep) model)
       rep (model_frames model)"
    "\<And>cs s. rep cs s \<Longrightarrow> map sv_shape s = map spec_shape (build_state_specs cfg (int keep) model)"
proof -
  let ?C = "qm_pre_conv model" and ?P = "qm_pre model" and ?D = "map (qm_decode model)"
  have ok: "0 < keep" "conv_padding ?C \<noteq> 0" "\<forall>ly\<in>set (rp_layers ?P). windowed keep ly"
    using assms by (auto simp: xp_model_ok_def windowed_def)
  obtain g where g: "valid_conv ?C g" using assms by (auto simp: xp_model_ok_def conv_ok_def)
  define F where "F = causal_frames (conv_padding ?C) g"
  have F: "whole (causal_conv_full ?C x) = F x" for x
    using causal_conv_full_frames [OF g, of x]
    by (cases "x = []") (simp_all add: F_def, simp add: causal_conv_full_def causal_frames_def whole_def)
  have Fl: "length (F x) = length x" for x by (simp add: F_def)
  from xp_pre_streams [OF ok(3,1)] obtain mP where
    P: "export_stage (\<lambda>off states. xp_pre_transformer_step (int keep) ?P off states) mP (rg_pre_full ?P)"
      "mP [] = layers_init_states keep (rp_layers ?P)"
    by (auto simp: streams_def layers_init_states_def)
  from tail_full_streams [OF assms] obtain mT where
    T: "export_stage (\<lambda>off. xp_tail model) mT (\<lambda>x. whole (tail_full model x))" "mT [] = tail_init_states model"
    by (auto simp: streams_full_def streams_def)
  have C: "export_stage (\<lambda>off. xp_conv ?C) (conv_mem ?C) F" unfolding F_def by (rule xp_conv_stage [OF g])
  define M where "M cs = mP (F (?D cs)) @ conv_mem ?C (?D cs) @ mT (rg_pre_full ?P (F (?D cs)))" for cs
  have lP: "length (mP hs) = 2 * length (rp_layers ?P)" for hs
    using export_stage.mem_shape [OF P(1), of hs] P(2) by (metis length_map length_layers_init)
  have mem: "conv_mem ?C zs = [FS (drop (length zs) (replicate (conv_padding ?C) 0 @ zs))]" for zs
    using ok(2) by (simp add: conv_mem_def)
  note e = export_stage.full_empty [OF C] export_stage.full_empty [OF P(1)] export_stage.full_empty [OF T(1)]
  have M0: "M [] = initial_states cfg (int keep) model"
    using ok(2) by (simp add: M_def e P(2) T(2) initial_states_eq conv_mem_def conv_init_states_def)
  show ?thesis
  proof (rule that)
    show "causal_stream (\<lambda>off ys s. xp_forward (int keep) model ys off s)
        (initial_states cfg (int keep) model) (\<lambda>cs s. s = M cs) (model_frames model)"
    proof
      fix cs ys :: "'c list" and s
      assume s: "s = M cs" and ys: "ys \<noteq> []"
      let ?h = "F (?D cs)" and ?u = "rg_pre_full ?P (F (?D cs))"
      from ys have "?D ys \<noteq> []" by simp
      from export_stage.stage_step [OF C this, of "?D cs"] obtain h where
        h: "h \<noteq> []" "F (?D cs @ ?D ys) = ?h @ h"
          "consumes (xp_conv ?C) (conv_mem ?C (?D cs)) (?D ys) h (conv_mem ?C (?D cs @ ?D ys))"
        by blast
      from export_stage.stage_step [OF P(1) h(1), of ?h] obtain u where
        u: "u \<noteq> []" "rg_pre_full ?P (?h @ h) = ?u @ u"
          "consumes (xp_pre_transformer_step (int keep) ?P (int (length cs))) (mP ?h) h u (mP (?h @ h))"
        by (auto simp: Fl)
      from export_stage.stage_step [OF T(1) u(1), of ?u] obtain w where
        w: "whole (tail_full model (?u @ u)) = whole (tail_full model ?u) @ w"
          "consumes (xp_tail model) (mT ?u) u w (mT (?u @ u))"
        by blast
      show "\<exists>out s'. xp_forward (int keep) model ys (int (length cs)) s = Inr (out, s') \<and> s' = M (cs @ ys)
          \<and> model_frames model (cs @ ys) = model_frames model cs @ out"
        using forward_calls [OF consumes_conv [OF h(3) [unfolded mem] ok(2)] u(3) w(2) lP] h(2) u(2) w(1)
        by (simp add: s M_def mem model_frames_def F)
    qed (simp_all add: M0 model_frames_def F e)
    fix cs s
    assume "s = M cs"
    then have "map sv_shape s = map sv_shape (M [])"
      using export_stage.mem_shape [OF C, of "?D cs"] export_stage.mem_shape [OF P(1), of "F (?D cs)"]
        export_stage.mem_shape [OF T(1), of "rg_pre_full ?P (F (?D cs))"]
      by (simp add: M_def e)
    then show "map sv_shape s = map spec_shape (build_state_specs cfg (int keep) model)"
      unfolding M0 by (simp add: initial_states_def sv_shape_zero o_def)
  qed
qed


lemma xp_chunks_parts:
  assumes "\<forall>p\<in>set ps. p \<noteq> []"
  shows "xp_chunks keep model off s ps = for_parts (\<lambda>i off ys s. xp_forward keep model ys off s) i off s ps"
  using assms
proof (induction ps arbitrary: i off s)
  case (Cons p ps)
  have "xp_chunks keep model (off + int (length p)) s' ps = for_parts (\<lambda>i off ys s. xp_forward keep model ys off s)
      (Suc i) (off + int (length p)) s' ps" for s'
    using Cons.prems by (intro Cons.IH) simp
  then show ?case using Cons.prems by simp
qed simp

lemma xp_chunks_ok:
  fixes model :: "('c, 'f::{comm_monoid_add,times}, 'q, 'k::zero, 'v::zero) rg_model"
  assumes "xp_model_ok keep model" and "\<forall>p\<in>set ps. p \<noteq> []"
  obtains ys states where "xp_chunks keep model 0 (initial_states cfg keep model) ps = Inr (ys, states)"
    "concat ys = model_frames model (concat ps)"
    "map sv_shape states = map spec_shape (build_state_specs cfg keep model)"
proof -
  obtain k where k: "keep = int k"
    using assms(1) by (metis xp_model_ok_def nonneg_int_cases less_imp_le)
  obtain rep where rep:
    "causal_stream (\<lambda>off ys s. xp_forward (int k) model ys off s) (initial_states cfg (int k) model)
       rep (model_frames model)"
    "\<And>cs s. rep cs s \<Longrightarrow> map sv_shape s = map spec_shape (build_state_specs cfg (int k) model)"
    using forward_stream [OF assms(1) [unfolded k]] by blast
  from causal_stream.parts_full [OF rep(1), of 0 ps] show ?thesis
    using that rep(2) xp_chunks_parts [OF assms(2)] unfolding k by metis
qed

lemma rg_full_frames:
  assumes "xp_model_ok keep model" and "codes \<noteq> []"
  shows "rg_full model codes = Inr (model_frames model codes) \<and> model_frames model codes \<noteq> []"
proof -
  obtain g where g: "valid_conv (qm_pre_conv model) g"
    using assms(1) by (auto simp: xp_model_ok_def conv_ok_def)
  define x where "x = causal_frames (conv_padding (qm_pre_conv model)) g (map (qm_decode model) codes)"
  have c: "causal_conv_full (qm_pre_conv model) (map (qm_decode model) codes) = Inr x"
    using assms(2) unfolding x_def by (intro causal_conv_full_frames [OF g]) simp
  have "length (rg_pre_full (qm_pre model) x) = length codes"
    by (simp add: rg_pre_full_def x_def rg_fold_length)
  then have ne: "rg_pre_full (qm_pre model) x \<noteq> []" using assms(2) by (metis length_0_conv)
  note T = tail_full_streams [OF assms(1), unfolded streams_full_def]
  obtain w where t: "tail_full model (rg_pre_full (qm_pre model) x) = Inr w" "w \<noteq> []"
    using T ne streams_nonempty [OF conjunct1 [OF T] ne] by (metis whole_Inr)
  have "rg_full model codes = res_bind (tail_full model (rg_pre_full (qm_pre model) x))
      (\<lambda>wav. Inr (map (qm_clamp model) wav))"
    by (simp add: rg_full_def c tail_full_def res_bind_assoc)
  then show ?thesis using t by (simp add: model_frames_def c)
qed

section \<open>Example\<close>

definition ex_edge :: "int tconv_mod" where
  "ex_edge = kernel_tconv 1 0 2 (Some 5) 2 (\<lambda>x k. x * (int k + 1))"

definition ex_xp_model :: "(int, int, int, int, int) rg_model" where
  "ex_xp_model = ex_rg_model\<lparr>qm_upsample := [(ex_edge, ex_convnext)],
     qm_decoder := [ConvBlock (ex_conv 2), StageBlock (ex_stage\<lparr>ds_tconv := ex_edge\<rparr>), SnakeBlock (\<lambda>x. x)]\<rparr>"

definition ex_config :: "int xp_config" where
  "ex_config = \<lparr>num_key_value_heads = 1, head_dim = 1, in_channels = (\<lambda>m. 1), out_channels = (\<lambda>m. 1)\<rparr>"

lemma ex_xp_model_ok: "xp_model_ok 2 ex_xp_model"
proof -
  have "edge_ok ex_edge" unfolding edge_ok_def ex_edge_def using kernel_tconv_edge by blast
  moreover have "at_window ex_attn = 3" "conv_padding (ex_conv 2) \<noteq> 0"
    by (simp_all add: ex_attn_def ex_conv_def window_conv_def)
  ultimately show ?thesis
    by (simp add: xp_model_ok_def ex_xp_model_def ex_rg_model_def ex_conv_ok ex_attn_ok ex_convnext_def
        block_ok_def ex_stage_def ex_unit_def)
qed

section \<open>Properties\<close>

text \<open>
  C26: the exported graph is exact.  Driven chunk by chunk, with every output state fed back as
  the next input state, it produces the waveform of the full forward pass, for every code sequence
  and every positive chunk size; in particular no state is missing or taken from the wrong place.
\<close>

theorem export_stream_exact:
  assumes "xp_model_ok keep model" and "codes \<noteq> []" and "0 < chunk_frames"
  shows "\<exists>wav. rg_full model codes = Inr wav \<and> explicit_state_stream cfg keep model codes chunk_frames = Inr wav"
proof -
  obtain cs where cs: "code_chunks codes chunk_frames = Inr cs" "joins cs codes"
    using code_chunks_joins [OF assms(3)] .
  obtain ys states where ys: "xp_chunks keep model 0 (initial_states cfg keep model) cs = Inr (ys, states)"
    "concat ys = model_frames model codes"
    using xp_chunks_ok [OF assms(1), of cs cfg thesis] cs(2) by (auto simp: joins_def)
  have "ys \<noteq> []" using ys(2) rg_full_frames [OF assms(1,2)] by auto
  then show ?thesis
    using rg_full_frames [OF assms(1,2)] cs(1) ys
    by (simp add: explicit_state_stream_def of_c2w_def torch_cat_def)
qed

theorem export_stream_exact_witness:
  "\<exists>wav. rg_full ex_xp_model [1, 0, 2, 1, 0] = Inr wav
     \<and> explicit_state_stream ex_config 2 ex_xp_model [1, 0, 2, 1, 0] 2 = Inr wav"
  by (rule export_stream_exact [OF ex_xp_model_ok]) simp_all

text \<open>
  C27: the graph's state interface is closed.  After any number of chunks the returned states
  match the declared specifications one by one, in kind and in length along time, so that they are
  valid inputs of the next call.
\<close>

theorem export_states_shape:
  assumes "xp_model_ok keep model" and "\<forall>p\<in>set parts. p \<noteq> []"
  shows "\<exists>ys states. xp_chunks keep model 0 (initial_states cfg keep model) parts = Inr (ys, states)
    \<and> map sv_shape states = map spec_shape (build_state_specs cfg keep model)"
  using xp_chunks_ok [OF assms, of cfg] by blast

theorem export_states_shape_witness:
  "\<exists>ys states. xp_chunks 2 ex_xp_model 0 (initial_states ex_config 2 ex_xp_model) [[1, 0], [2], [1, 0, 3]] = Inr (ys, states)
    \<and> map sv_shape states = map spec_shape (build_state_specs ex_config 2 ex_xp_model)"
  by (rule export_states_shape [OF ex_xp_model_ok]) simp

end
