(* ===== verification/Decoder_Weights.thy ===== *)
theory Decoder_Weights
  imports Stream_Core Py_Text
begin

text \<open>
  Loading the weights of the product Code2Wav decoder from its ONNX export
  (\<^verbatim>\<open>load_codes\<close>, \<^verbatim>\<open>snake_parameter_keys\<close>, \<^verbatim>\<open>matmul_parameter_keys\<close> and
  \<^verbatim>\<open>build_real_decoder\<close> of \<^verbatim>\<open>scripts/qwen3_tts_code2wav_stateful_real_gate.py\<close>).  A tensor is
  its shape, its dtype and its elements in row-major order; the conversion between dtypes is a
  parameter, and so is the file that holds the initializers.
\<close>

section \<open>Tensors\<close>

record ('d, 'a) tensor =
  t_shape :: "nat list"
  t_dtype :: "'d"
  t_data :: "'a list"

datatype weight_error =
    NoRvqCodes
  | CodesNdim "nat list"
  | TransposeDim
  | StateKey string
  | ShapeMismatch string "nat list" "nat list"
  | ZipLength
  | NotEnoughMatMul nat nat
  | SnakeCount nat nat
  | MissingTensors "string list"

definition to_dtype :: "('d \<Rightarrow> 'a \<Rightarrow> 'a) \<Rightarrow> 'd \<Rightarrow> ('d, 'a) tensor \<Rightarrow> ('d, 'a) tensor" where
  "to_dtype cast d t = \<lparr>t_shape = t_shape t, t_dtype = d, t_data = map (cast d) (t_data t)\<rparr>"

text \<open>\<^verbatim>\<open>t.transpose(0, 1).contiguous()\<close>: fewer than two axes raise.\<close>

definition transpose01 :: "('d, 'a) tensor \<Rightarrow> weight_error + ('d, 'a) tensor" where
  "transpose01 t =
     (case t_shape t of
        a # b # rest \<Rightarrow>
          let r = prod_list rest in
          Inr (t\<lparr>t_shape := b # a # rest,
                 t_data := map (\<lambda>n. t_data t ! (((n div r) mod a * b + (n div r) div a) * r + n mod r))
                             [0..<a * b * r]\<rparr>)
      | _ \<Rightarrow> Inl TransposeDim)"

text \<open>\<^verbatim>\<open>t.squeeze(0).squeeze(-1)\<close>: an axis of another size than one stays.\<close>

definition squeeze_first :: "nat list \<Rightarrow> nat list" where
  "squeeze_first s = (case s of [] \<Rightarrow> [] | n # ns \<Rightarrow> if n = 1 then ns else s)"

definition squeeze_last :: "nat list \<Rightarrow> nat list" where
  "squeeze_last s = (if s \<noteq> [] \<and> last s = 1 then butlast s else s)"

definition squeeze_ends :: "('d, 'a) tensor \<Rightarrow> weight_error + ('d, 'a) tensor" where
  "squeeze_ends t = Inr (t\<lparr>t_shape := squeeze_last (squeeze_first (t_shape t))\<rparr>)"

section \<open>Codes\<close>

text \<open>
  \<^verbatim>\<open>load_codes\<close>: the matrix \<^verbatim>\<open>[T, Q]\<close> is cut to \<^verbatim>\<open>max_frames\<close> rows and turned into
  \<^verbatim>\<open>[1, Q, T]\<close>.
\<close>

definition row_of :: "nat \<Rightarrow> 'a list \<Rightarrow> nat \<Rightarrow> 'a list" where
  "row_of q xs i = take q (drop (i * q) xs)"

definition load_codes ::
  "(string \<times> ('d, 'a) tensor) list \<Rightarrow> int option \<Rightarrow> weight_error + 'a list list list" where
  "load_codes tensors max_frames =
     (case map_of tensors ''rvq_codes'' of
        None \<Rightarrow> Inl NoRvqCodes
      | Some codes \<Rightarrow>
          (case t_shape codes of
             [t, q] \<Rightarrow>
               let rows = map (row_of q (t_data codes)) [0..<t];
                   rows = (case max_frames of None \<Rightarrow> rows | Some n \<Rightarrow> py_slice rows 0 n)
               in Inr [map (\<lambda>j. map (\<lambda>r. r ! j) rows) [0..<q]]
           | s \<Rightarrow> Inl (CodesNdim s)))"

section \<open>Parameter names\<close>

record decoder_config =
  upsample_rates :: "nat list"
  num_hidden_layers :: nat
  upsampling_ratios :: "nat list"

definition snake_layer_keys :: "nat \<Rightarrow> string list" where
  "snake_layer_keys layer_idx =
     (let pre = ''decoder.'' @ str_nat layer_idx @ ''.block.'' in
      [pre @ ''0.alpha'', pre @ ''0.beta'']
      @ concat (map (\<lambda>unit_idx.
          [pre @ str_nat unit_idx @ ''.act1.alpha'', pre @ str_nat unit_idx @ ''.act1.beta'',
           pre @ str_nat unit_idx @ ''.act2.alpha'', pre @ str_nat unit_idx @ ''.act2.beta'']) [2, 3, 4]))"

definition snake_parameter_keys :: "decoder_config \<Rightarrow> string list" where
  "snake_parameter_keys config =
     concat (map snake_layer_keys [1..<1 + length (upsample_rates config)])
     @ (let final_idx = 1 + length (upsample_rates config) in
        [''decoder.'' @ str_nat final_idx @ ''.alpha'', ''decoder.'' @ str_nat final_idx @ ''.beta''])"

definition layer_weight_keys :: "nat \<Rightarrow> string list" where
  "layer_weight_keys layer_idx =
     (let pre = ''pre_transformer.layers.'' @ str_nat layer_idx in
      [pre @ ''.self_attn.q_proj.weight'', pre @ ''.self_attn.k_proj.weight'',
       pre @ ''.self_attn.v_proj.weight'', pre @ ''.self_attn.o_proj.weight'',
       pre @ ''.mlp.gate_proj.weight'', pre @ ''.mlp.up_proj.weight'', pre @ ''.mlp.down_proj.weight''])"

definition stage_weight_keys :: "nat \<Rightarrow> string list" where
  "stage_weight_keys stage_idx =
     [''upsample.'' @ str_nat stage_idx @ ''.1.pwconv1.weight'',
      ''upsample.'' @ str_nat stage_idx @ ''.1.pwconv2.weight'']"

definition matmul_parameter_keys :: "decoder_config \<Rightarrow> string list" where
  "matmul_parameter_keys config =
     [''pre_transformer.input_proj.weight'']
     @ concat (map layer_weight_keys [0..<num_hidden_layers config])
     @ [''pre_transformer.output_proj.weight'']
     @ concat (map stage_weight_keys [0..<length (upsampling_ratios config)])"

section \<open>Building the decoder\<close>

type_synonym ('d, 'a) params = "(string \<times> ('d, 'a) tensor) list"

text \<open>\<^verbatim>\<open>load_onnx_initializers\<close>: a repeated name keeps its last tensor.\<close>

definition init_dict :: "('d, 'a) params \<Rightarrow> ('d, 'a) params" where
  "init_dict initializer = fold (\<lambda>(n, t). AList.update n t) initializer []"

definition directly :: "('d, 'a) params \<Rightarrow> string \<times> ('d, 'a) tensor \<Rightarrow> ('d, 'a) tensor option" where
  "directly init = (\<lambda>(key, t).
     case map_of init key of
       None \<Rightarrow> None
     | Some u \<Rightarrow> if t_shape u = t_shape t then Some u else None)"

definition direct_load ::
  "('d \<Rightarrow> 'a \<Rightarrow> 'a) \<Rightarrow> ('d, 'a) params \<Rightarrow> ('d, 'a) params \<Rightarrow> ('d, 'a) params \<times> string set" where
  "direct_load cast init state =
     (map (\<lambda>kt. case directly init kt of
             None \<Rightarrow> kt | Some u \<Rightarrow> (fst kt, to_dtype cast (t_dtype (snd kt)) u)) state,
      set (map fst (filter (\<lambda>kt. directly init kt \<noteq> None) state)))"

text \<open>\<^verbatim>\<open>for key, name in zip(keys, names, strict=True)\<close>; \<open>f\<close> is the re-layout of the initializer.\<close>

fun load_zip ::
  "('d \<Rightarrow> 'a \<Rightarrow> 'a) \<Rightarrow> (('d, 'a) tensor \<Rightarrow> weight_error + ('d, 'a) tensor) \<Rightarrow> ('d, 'a) params
     \<Rightarrow> string list \<Rightarrow> string list \<Rightarrow> ('d, 'a) params \<times> string set
     \<Rightarrow> weight_error + ('d, 'a) params \<times> string set" where
  "load_zip cast f init [] [] acc = Inr acc"
| "load_zip cast f init (key # keys) (name # names) (state, loaded) =
     res_bind (of_option (StateKey name) (map_of init name)) (\<lambda>t.
     res_bind (f t) (\<lambda>u.
     res_bind (of_option (StateKey key) (map_of state key)) (\<lambda>old.
       if t_shape u \<noteq> t_shape old then Inl (ShapeMismatch key (t_shape u) (t_shape old))
       else load_zip cast f init keys names
              (AList.update key (to_dtype cast (t_dtype old) u) state, insert key loaded))))"
| "load_zip cast f init _ _ acc = Inl ZipLength"

definition allowed_missing :: "string list" where
  "allowed_missing =
     [''pre_transformer.rotary_emb.inv_freq'', ''pre_transformer.rotary_emb.original_inv_freq'',
      ''quantizer.rvq_first.input_proj.weight'', ''quantizer.rvq_rest.input_proj.weight'']"

text \<open>\<^verbatim>\<open>model.to(dtype=dtype)\<close> converts the parameters and buffers of a floating-point type.\<close>

definition module_to :: "('d \<Rightarrow> 'a \<Rightarrow> 'a) \<Rightarrow> ('d \<Rightarrow> bool) \<Rightarrow> 'd \<Rightarrow> ('d, 'a) params \<Rightarrow> ('d, 'a) params" where
  "module_to cast floating dtype state =
     map (\<lambda>(key, t). (key, if floating (t_dtype t) then to_dtype cast dtype t else t)) state"

definition build_real_decoder ::
  "('d \<Rightarrow> 'a \<Rightarrow> 'a) \<Rightarrow> ('d \<Rightarrow> bool) \<Rightarrow> decoder_config \<Rightarrow> 'd \<Rightarrow> ('d, 'a) params \<Rightarrow> ('d, 'a) params
     \<Rightarrow> weight_error + ('d, 'a) params" where
  "build_real_decoder cast floating config dtype initializer state =
     (let init_names = map fst initializer;
          init = init_dict initializer;
          (state, loaded) = direct_load cast init state;
          matmul_names = filter (prefix ''onnx::MatMul'') init_names;
          matmul_keys = matmul_parameter_keys config
      in if length matmul_names < length matmul_keys
         then Inl (NotEnoughMatMul (length matmul_names) (length matmul_keys))
         else res_bind (load_zip cast transpose01 init matmul_keys matmul_names (state, loaded)) (\<lambda>acc.
           let exp_names = filter (prefix ''onnx::Exp'') init_names;
               exp_keys = snake_parameter_keys config
           in if length exp_names \<noteq> length exp_keys
              then Inl (SnakeCount (length exp_names) (length exp_keys))
              else res_bind (load_zip cast squeeze_ends init exp_keys exp_names acc) (\<lambda>(state, loaded).
                let missing = filter (\<lambda>key. key \<notin> loaded \<and> key \<notin> set allowed_missing) (map fst state)
                in if missing \<noteq> [] then Inl (MissingTensors missing) else Inr (module_to cast floating dtype state))))"

section \<open>Names are distinct\<close>

lemma str_nat_dot: "str_nat i @ CHR ''.'' # s = str_nat j @ CHR ''.'' # t \<longleftrightarrow> i = j \<and> s = t"
proof
  assume e: "str_nat i @ CHR ''.'' # s = str_nat j @ CHR ''.'' # t"
  then have "str_nat i = str_nat j" by (metis before_append dot_not_digit)
  then show "i = j \<and> s = t" using e by simp
qed simp

lemma distinct_indexed:
  assumes "\<And>i. distinct (f i)" and "\<And>i j x. x \<in> set (f i) \<Longrightarrow> x \<in> set (f j) \<Longrightarrow> i = j"
  shows "distinct (concat (map f [a..<b]))"
proof (induction b)
  case (Suc b)
  have "set (f b) \<inter> set (concat (map f [a..<b])) = {}" using assms(2) by fastforce
  then show ?case using Suc assms(1) by auto
qed simp

lemma distinct_matmul: "distinct (matmul_parameter_keys config)"
proof -
  have "distinct (concat (map layer_weight_keys [0..<n]))" for n
    by (rule distinct_indexed) (auto simp: layer_weight_keys_def Let_def str_nat_dot)
  moreover have "distinct (concat (map stage_weight_keys [0..<n]))" for n
    by (rule distinct_indexed) (auto simp: stage_weight_keys_def str_nat_dot)
  ultimately show ?thesis
    by (auto simp: matmul_parameter_keys_def layer_weight_keys_def stage_weight_keys_def Let_def)
qed

lemma distinct_snake: "distinct (snake_parameter_keys config)"
proof -
  have n: "str_nat 2 = ''2''" "str_nat 3 = ''3''" "str_nat 4 = ''4''"
    by code_simp+
  have "distinct (concat (map snake_layer_keys [a..<b]))" for a b
    by (rule distinct_indexed) (auto simp: snake_layer_keys_def Let_def str_nat_dot n)
  then show ?thesis
    by (auto simp: snake_parameter_keys_def snake_layer_keys_def Let_def str_nat_dot n)
qed

lemma matmul_snake_disjoint: "set (matmul_parameter_keys config) \<inter> set (snake_parameter_keys config) = {}"
  by (auto simp: matmul_parameter_keys_def layer_weight_keys_def stage_weight_keys_def
      snake_parameter_keys_def snake_layer_keys_def Let_def)


section \<open>The loading loops\<close>

lemma init_dict_map_of: "map_of (init_dict initializer) = map_of (rev initializer)"
proof -
  have "map_of (fold (\<lambda>(n, t). AList.update n t) xs d) = map_of d ++ map_of (rev xs)" for xs d :: "('a, 'b) params"
    by (induction xs arbitrary: d) (auto simp: map_add_def fun_eq_iff split: option.splits)
  from this [of initializer "[]"] show ?thesis by (simp add: init_dict_def)
qed

text \<open>Shape and dtype of a parameter never change.\<close>

definition layout :: "('d, 'a) params \<Rightarrow> (string \<times> nat list \<times> 'd) list" where
  "layout state = map (\<lambda>(k, t). (k, t_shape t, t_dtype t)) state"

lemma layout_keys: "layout s = layout s' \<Longrightarrow> map fst s = map fst s'"
proof -
  assume "layout s = layout s'"
  then have "map fst (layout s) = map fst (layout s')" by simp
  then show ?thesis by (simp add: layout_def o_def case_prod_beta)
qed

lemma layout_update:
  "map_of state key = Some old \<Longrightarrow> t_shape u = t_shape old \<Longrightarrow> t_dtype u = t_dtype old \<Longrightarrow>
    layout (AList.update key u state) = layout state"
  by (induction state) (auto simp: layout_def split: if_splits)

text \<open>Parameter \<open>key\<close> holds initializer \<open>name\<close>, re-laid out by \<open>f\<close>, in its own dtype.\<close>

definition holds_init ::
  "('d \<Rightarrow> 'a \<Rightarrow> 'a) \<Rightarrow> (('d, 'a) tensor \<Rightarrow> weight_error + ('d, 'a) tensor) \<Rightarrow> ('d, 'a) params
     \<Rightarrow> ('d, 'a) params \<Rightarrow> string \<Rightarrow> string \<Rightarrow> bool" where
  "holds_init cast f init state key name \<longleftrightarrow>
     (\<exists>t u d. map_of init name = Some t \<and> f t = Inr u \<and> map_of state key = Some (to_dtype cast d u))"

lemma load_zip_ok:
  assumes "load_zip cast f init keys names (state, loaded) = Inr (state', loaded')" and "distinct keys"
  shows "length names = length keys \<and> loaded' = loaded \<union> set keys \<and> layout state' = layout state
    \<and> (\<forall>k. k \<notin> set keys \<longrightarrow> map_of state' k = map_of state k)
    \<and> list_all2 (holds_init cast f init state') keys names"
  using assms
proof (induction keys arbitrary: names state loaded)
  case Nil
  then show ?case by (cases names) auto
next
  case (Cons key keys)
  obtain name names' where nm: "names = name # names'" using Cons.prems(1) by (cases names) auto
  from Cons.prems(1) [unfolded nm] obtain t u old where t: "map_of init name = Some t" "f t = Inr u" "map_of state key = Some old"
    "t_shape u = t_shape old"
    "load_zip cast f init keys names' (AList.update key (to_dtype cast (t_dtype old) u) state, insert key loaded)
       = Inr (state', loaded')"
    by (auto simp: of_option_def split: option.splits if_splits)
  let ?s = "AList.update key (to_dtype cast (t_dtype old) u) state"
  have l: "layout ?s = layout state" using t(3,4) by (intro layout_update) (simp_all add: to_dtype_def)
  have IH: "length names' = length keys \<and> loaded' = insert key loaded \<union> set keys \<and> layout state' = layout ?s
    \<and> (\<forall>k. k \<notin> set keys \<longrightarrow> map_of state' k = map_of ?s k) \<and> list_all2 (holds_init cast f init state') keys names'"
    using Cons.IH [OF t(5)] Cons.prems(2) by simp
  then have "map_of state' key = Some (to_dtype cast (t_dtype old) u)" using Cons.prems(2) by simp
  then have "holds_init cast f init state' key name" using t(1,2) unfolding holds_init_def by blast
  then show ?case using IH l nm by auto
qed


lemma direct_load_layout: "layout (fst (direct_load cast init state)) = layout state"
  unfolding layout_def direct_load_def fst_conv map_map
  by (rule map_cong) (auto simp: directly_def to_dtype_def split: option.splits if_splits)

lemma direct_load_holds:
  assumes "key \<in> snd (direct_load cast init state)" and "distinct (map fst state)"
  shows "holds_init cast Inr init (fst (direct_load cast init state)) key key"
proof -
  from assms(1) obtain t u where t: "(key, t) \<in> set state" "directly init (key, t) = Some u"
    by (auto simp: direct_load_def)
  let ?g = "\<lambda>kt. case directly init kt of None \<Rightarrow> kt | Some u \<Rightarrow> (fst kt, to_dtype cast (t_dtype (snd kt)) u)"
  have "map fst (map ?g state) = map fst state" by (auto split: option.splits)
  then have "distinct (map fst (map ?g state))" using assms(2) by (simp only:)
  moreover have "?g (key, t) \<in> set (map ?g state)" using t(1) unfolding set_map by (rule imageI)
  then have "(key, to_dtype cast (t_dtype t) u) \<in> set (map ?g state)" using t(2) by simp
  ultimately have "map_of (map ?g state) key = Some (to_dtype cast (t_dtype t) u)"
    by (rule map_of_is_SomeI)
  moreover have "map_of init key = Some u"
    using t(2) by (auto simp: directly_def split: option.splits if_splits)
  ultimately show ?thesis unfolding holds_init_def direct_load_def fst_conv by blast
qed

lemma list_all2_mono_mem:
  "list_all2 P xs ys \<Longrightarrow> (\<And>x y. x \<in> set xs \<Longrightarrow> P x y \<Longrightarrow> Q x y) \<Longrightarrow> list_all2 Q xs ys"
  by (induction rule: list_all2_induct) auto

lemma holds_init_cong:
  "map_of s key = map_of s' key \<Longrightarrow> holds_init cast f init s key name = holds_init cast f init s' key name"
  by (simp add: holds_init_def)

text \<open>The transposed matrix, entry by entry.\<close>

lemma transpose01_entry:
  assumes "t_shape t = [a, b]" and "transpose01 t = Inr u" and "i < a" and "j < b"
  shows "t_shape u = [b, a]" and "t_data u ! (j * a + i) = t_data t ! (i * b + j)"
proof -
  have "j * a + i < Suc j * a" using assms(3) by simp
  also have "\<dots> \<le> b * a" using assms(4) by (intro mult_right_mono) auto
  finally have "j * a + i < a * b" by (simp add: mult.commute)
  then show "t_shape u = [b, a]" "t_data u ! (j * a + i) = t_data t ! (i * b + j)"
    using assms by (auto simp: transpose01_def Let_def)
qed

section \<open>Example\<close>

definition ex_decoder_config :: decoder_config where
  "ex_decoder_config = \<lparr>upsample_rates = [], num_hidden_layers = 0, upsampling_ratios = []\<rparr>"

definition ex_params :: "(nat, int) params" where
  "ex_params =
     (let z = (\<lambda>s n. \<lparr>t_shape = s, t_dtype = 0, t_data = replicate n 0\<rparr>) in
      [(''pre_conv.conv.bias'', z [2] 2), (''pre_transformer.input_proj.weight'', z [2, 3] 6),
       (''pre_transformer.output_proj.weight'', z [1, 2] 2), (''decoder.1.alpha'', z [2] 2),
       (''decoder.1.beta'', z [2] 2), (''pre_transformer.rotary_emb.inv_freq'', z [4] 4)])"

definition ex_initializer :: "(nat, int) params" where
  "ex_initializer =
     (let t = (\<lambda>s xs. \<lparr>t_shape = s, t_dtype = 1, t_data = xs\<rparr>) in
      [(''pre_conv.conv.bias'', t [2] [7, 8]), (''onnx::MatMul_10'', t [3, 2] [1, 2, 3, 4, 5, 6]),
       (''onnx::Exp_12'', t [1, 2, 1] [3, 4]), (''onnx::MatMul_11'', t [2, 1] [9, 10]),
       (''onnx::Exp_13'', t [1, 2, 1] [5, 6])])"

lemma ex_decoder_runs:
  "case build_real_decoder (\<lambda>d x. x) (\<lambda>d. d = 0) ex_decoder_config 2 ex_initializer ex_params of
     Inl e \<Rightarrow> False
   | Inr s \<Rightarrow> map_of s ''pre_transformer.input_proj.weight''
         = Some \<lparr>t_shape = [2, 3], t_dtype = 2, t_data = [1, 3, 5, 2, 4, 6]\<rparr>"
  by code_simp

section \<open>Properties\<close>

text \<open>
  C28: a decoder that is built has the right weights.  When \<^verbatim>\<open>build_real_decoder\<close> succeeds, it returns
  the loaded parameters converted to the requested dtype where they are of a floating-point type.  In
  the loading every parameter has kept its name, shape and dtype; the i-th linear weight is the
  transposed i-th \<^verbatim>\<open>onnx::MatMul\<close> initializer and the i-th Snake parameter the i-th \<^verbatim>\<open>onnx::Exp\<close> one,
  none is overwritten by a later step, and every other parameter that is not on the short list of
  allowed omissions holds the initializer of its own name.
\<close>

theorem real_decoder_weights:
  assumes "build_real_decoder cast floating config dtype initializer state = Inr final" and "distinct (map fst state)"
  shows "\<exists>state'. final = module_to cast floating dtype state'
    \<and> layout final = map (\<lambda>(key, shape, d). (key, shape, if floating d then dtype else d)) (layout state)
    \<and> layout state' = layout state
    \<and> list_all2 (holds_init cast transpose01 (init_dict initializer) state') (matmul_parameter_keys config)
        (filter (prefix ''onnx::MatMul'') (map fst initializer))
    \<and> list_all2 (holds_init cast squeeze_ends (init_dict initializer) state') (snake_parameter_keys config)
        (filter (prefix ''onnx::Exp'') (map fst initializer))
    \<and> (\<forall>key \<in> set (map fst state) - set (matmul_parameter_keys config) - set (snake_parameter_keys config)
         - set allowed_missing. holds_init cast Inr (init_dict initializer) state' key key)"
proof -
  let ?init = "init_dict initializer" and ?M = "matmul_parameter_keys config" and ?S = "snake_parameter_keys config"
  obtain s0 l0 where d: "direct_load cast ?init state = (s0, l0)" by fastforce
  from assms(1) d obtain s1 l1 state' l2 where
    1: "load_zip cast transpose01 ?init ?M (filter (prefix ''onnx::MatMul'') (map fst initializer)) (s0, l0) = Inr (s1, l1)"
    and 2: "load_zip cast squeeze_ends ?init ?S (filter (prefix ''onnx::Exp'') (map fst initializer)) (s1, l1) = Inr (state', l2)"
    and 3: "\<forall>key\<in>set (map fst state'). key \<in> l2 \<or> key \<in> set allowed_missing"
    and fin: "final = module_to cast floating dtype state'"
    by (auto simp: build_real_decoder_def Let_def filter_empty_conv split: if_splits prod.splits)
  note a = load_zip_ok [OF 1 distinct_matmul] and b = load_zip_ok [OF 2 distinct_snake]
  have lay: "layout state' = layout state"
    using a b direct_load_layout [of cast ?init state] d by simp
  have "list_all2 (holds_init cast transpose01 (init_dict initializer) state') ?M (filter (prefix ''onnx::MatMul'') (map fst initializer))"
  proof (rule list_all2_mono_mem)
    show "list_all2 (holds_init cast transpose01 ?init s1) ?M (filter (prefix ''onnx::MatMul'') (map fst initializer))"
      using a by blast
    fix k n
    assume "k \<in> set ?M" "holds_init cast transpose01 ?init s1 k n"
    then show "holds_init cast transpose01 (init_dict initializer) state' k n"
      using b matmul_snake_disjoint [of config] holds_init_cong [of state' k s1] by blast
  qed
  moreover have "holds_init cast Inr (init_dict initializer) state' k k"
    if "k \<in> set (map fst state)" "k \<notin> set ?M" "k \<notin> set ?S" "k \<notin> set allowed_missing" for k
  proof -
    have "k \<in> l0" using that 3 a b layout_keys [OF lay] by auto
    then have "holds_init cast Inr ?init s0 k k"
      using direct_load_holds [of k cast ?init state] d assms(2) by simp
    moreover have "map_of state' k = map_of s0 k" using that a b by simp
    ultimately show ?thesis using holds_init_cong [of state' k s0] by blast
  qed
  moreover have "layout final = map (\<lambda>(key, shape, d). (key, shape, if floating d then dtype else d)) (layout state)"
    unfolding fin lay [symmetric] by (auto simp: layout_def module_to_def to_dtype_def)
  ultimately show ?thesis using lay b fin by blast
qed

theorem real_decoder_weights_witness:
  "\<exists>s. build_real_decoder (\<lambda>d x. x) (\<lambda>d. d = 0) ex_decoder_config 2 ex_initializer ex_params = Inr s
     \<and> map (snd \<circ> snd) (layout s) = [2, 2, 2, 2, 2, 2]"
proof -
  from ex_decoder_runs obtain s where
    s: "build_real_decoder (\<lambda>d x. x) (\<lambda>d. d = 0) ex_decoder_config 2 ex_initializer ex_params = Inr s"
    by (auto split: sum.splits)
  have "distinct (map fst ex_params)" by code_simp
  from real_decoder_weights [OF s this] s show ?thesis by (auto simp: layout_def ex_params_def Let_def)
qed

end
