(* ===== verification/Tts_Contract.thy ===== *)
theory Tts_Contract
  imports Py_Text Wav_File
begin

text \<open>
  The product contract of Qwen3-TTS, \<^verbatim>\<open>scripts/verify_qwen3_tts_contract.py\<close> and its copy under
  \<^verbatim>\<open>models/qwen3/\<close>, which differ in the prefix of their environment variables.  The Python
  modules that the script imports, TensorRT and the file system are fields of a world; the checks,
  their order and the report are the script's.
\<close>

section \<open>Environment and arguments\<close>

type_synonym environ = "(string \<times> string) list"

datatype contract_error =
    BackendMode string
  | NoProductBackend
  | UnexpectedPath string string "string list"
  | NativeMismatch string string
  | MissingPath string string
  | CpActiveGroups int int
  | ZeroSeed
  | DeserializeFailed string
  | MissingTensor string string
  | TensorDtype string string string
  | MissingCpLogits
  | UnexpectedCpName string
  | FrameCapTooLarge int int
  | VocoderShape "int list"
  | SampleEmpty
  | SampleRateWrong nat
  | SampleSegmented
  | SampleSeed
  | SampleFrames

text \<open>Only a \<^verbatim>\<open>ContractError\<close> is reported as such; any other exception leaves the script.\<close>

datatype contract_exc = Contract contract_error | OtherExc vexc

abbreviation require :: "bool \<Rightarrow> contract_error \<Rightarrow> contract_exc + unit" where
  "require condition msg \<equiv> check condition (Contract msg)"

definition getenv :: "environ \<Rightarrow> string \<Rightarrow> string \<Rightarrow> string" where
  "getenv env name dflt = (case map_of env name of None \<Rightarrow> dflt | Some v \<Rightarrow> v)"

definition setdefault_env :: "string \<Rightarrow> string \<Rightarrow> environ \<Rightarrow> environ" where
  "setdefault_env name v env = (if map_of env name = None then AList.update name v env else env)"

definition bool_env :: "environ \<Rightarrow> string \<Rightarrow> string \<Rightarrow> bool" where
  "bool_env env name dflt = (lower (getenv env name dflt) \<notin> {''0'', ''false'', ''no''})"

record contract_args =
  app_dir :: string
  model_base_arg :: string
  native_module_dir :: string
  expected_so :: string
  seed_arg :: int
  max_audio_length :: int
  expected_cp_active_groups :: int
  expect_frame_cap :: bool
  verbose_engine_meta :: bool
  run_sample :: bool
  sample_text :: string

section \<open>Engines\<close>

record trt_tensor =
  tt_name :: string
  tt_mode :: string
  tt_dtype :: string
  tt_shape :: "int list"
  tt_profile_shape :: "nat \<Rightarrow> int list list"

record trt_engine =
  num_optimization_profiles :: nat
  io_tensors :: "trt_tensor list"

record tensor_item =
  ti_mode :: string
  ti_dtype :: string
  ti_shape :: "int list"
  ti_profiles :: "int list list list option"

datatype engine_meta =
    EngineUnavailable string
  | EngineMeta string nat "(string \<times> tensor_item) list"

text \<open>\<^verbatim>\<open>s.split(".")[-1]\<close>.\<close>

definition last_part :: "string \<Rightarrow> string" where
  "last_part s = rev (before (CHR ''.'') (rev s))"

definition tensor_entry :: "nat \<Rightarrow> trt_tensor \<Rightarrow> tensor_item" where
  "tensor_entry profiles t =
     (let mode = last_part (tt_mode t) in
      \<lparr>ti_mode = mode, ti_dtype = last_part (tt_dtype t), ti_shape = tt_shape t,
       ti_profiles = (if mode = ''INPUT'' then Some (map (tt_profile_shape t) [0..<profiles]) else None)\<rparr>)"

text \<open>
  \<open>trt = None\<close>: TensorRT cannot be imported; an engine file that does not deserialize reads as
  \<open>None\<close>.
\<close>

definition inspect_engine ::
  "(string \<Rightarrow> trt_engine option) option \<Rightarrow> string \<Rightarrow> contract_exc + engine_meta" where
  "inspect_engine trt path =
     (case trt of
        None \<Rightarrow> Inr (EngineUnavailable path)
      | Some deserialize \<Rightarrow>
          (case deserialize path of
             None \<Rightarrow> Inl (Contract (DeserializeFailed path))
           | Some engine \<Rightarrow>
               Inr (EngineMeta path (num_optimization_profiles engine)
                 (fold (\<lambda>t. AList.update (tt_name t) (tensor_entry (num_optimization_profiles engine) t))
                    (io_tensors engine) []))))"

fun engine_summary :: "engine_meta \<Rightarrow> string list \<Rightarrow> engine_meta" where
  "engine_summary (EngineUnavailable path) names = EngineUnavailable path"
| "engine_summary (EngineMeta path profiles tensors) names =
     EngineMeta path profiles
       (List.map_filter (\<lambda>name. map_option (Pair name) (map_of tensors name)) names)"

section \<open>The world\<close>

record wrapper =
  wrapper_file :: string
  backend_mode :: string
  preload :: "vexc + bool"

record contract_world =
  norm_path :: "string \<Rightarrow> string"
  is_dir :: "string \<Rightarrow> bool"
  path_exists :: "string \<Rightarrow> bool"
  read_config :: "string \<Rightarrow> vexc + dict"
  trt :: "(string \<Rightarrow> trt_engine option) option"
  import_wrapper :: "environ \<Rightarrow> string list \<Rightarrow> vexc + wrapper"
  import_file :: "string list \<Rightarrow> string \<Rightarrow> vexc + string"
  synthesize_sample :: "string \<Rightarrow> int \<Rightarrow> int \<Rightarrow> vexc + bytes \<times> dict"

definition of_exc :: "vexc + 'a \<Rightarrow> contract_exc + 'a" where
  "of_exc r = (case r of Inl e \<Rightarrow> Inl (OtherExc e) | Inr x \<Rightarrow> Inr x)"

definition path_under :: "contract_world \<Rightarrow> string \<Rightarrow> string \<Rightarrow> bool" where
  "path_under w path rt \<longleftrightarrow>
     (let path_n = norm_path w path; root_n = norm_path w rt
      in path_n = root_n \<or> prefix (root_n @ ''/'') path_n)"

definition expect_path_under :: "contract_world \<Rightarrow> string \<Rightarrow> string \<Rightarrow> string \<Rightarrow> contract_exc + unit" where
  "expect_path_under w path rt label =
     require (path_under w path rt) (UnexpectedPath label (norm_path w path) [norm_path w rt])"

definition expect_path_under_any ::
  "contract_world \<Rightarrow> string \<Rightarrow> string list \<Rightarrow> string \<Rightarrow> contract_exc + unit" where
  "expect_path_under_any w path roots label =
     require (\<exists>rt\<in>set (filter (\<lambda>rt. rt \<noteq> []) roots). path_under w path rt)
       (UnexpectedPath label (norm_path w path) (map (norm_path w) (filter (\<lambda>rt. rt \<noteq> []) roots)))"

section \<open>Collecting the contract\<close>

text \<open>\<open>pre\<close> is the prefix of the variables: \<^verbatim>\<open>JETSON_VOICE_TTS_\<close> or \<^verbatim>\<open>OVS_TTS_\<close>.\<close>

definition prepare_env :: "string \<Rightarrow> contract_args \<Rightarrow> environ \<Rightarrow> environ" where
  "prepare_env pre args env =
     setdefault_env (pre @ ''NATIVE_MODULE_DIR'') (native_module_dir args)
       (setdefault_env (pre @ ''MODEL_BASE'') (model_base_arg args)
         (AList.update (pre @ ''SEED'') (str_int (seed_arg args))
           (AList.update (pre @ ''BACKEND'') ''product_explicit_kv'' env)))"

definition extend_sys_path :: "contract_world \<Rightarrow> string list \<Rightarrow> string list \<Rightarrow> string list" where
  "extend_sys_path w paths sys_path =
     fold (\<lambda>path sys_path. if path \<noteq> [] \<and> is_dir w path \<and> path \<notin> set sys_path then path # sys_path else sys_path)
       paths sys_path"

definition load_backend ::
  "contract_world \<Rightarrow> contract_args \<Rightarrow> environ \<Rightarrow> string list \<Rightarrow> string
     \<Rightarrow> contract_exc + wrapper \<times> string \<times> string" where
  "load_backend w args env sys_path overlay =
     res_bind (of_exc (import_wrapper w env sys_path)) (\<lambda>backend.
     res_bind (require (backend_mode backend = ''product_explicit_kv'') (BackendMode (backend_mode backend))) (\<lambda>_.
     res_bind (of_exc (preload backend)) (\<lambda>has_product_backend.
     res_bind (require has_product_backend NoProductBackend) (\<lambda>_.
     res_bind (of_exc (import_file w sys_path ''backends.qwen3_trt'')) (\<lambda>qwen3_file.
     res_bind (expect_path_under_any w qwen3_file [app_dir args, overlay] ''backends.qwen3_trt'') (\<lambda>_.
     res_bind (of_exc (import_file w sys_path ''qwen3_speech_engine'')) (\<lambda>so_file.
     res_bind (if expected_so args \<noteq> []
               then require (norm_path w so_file = norm_path w (expected_so args))
                      (NativeMismatch so_file (expected_so args))
               else expect_path_under w so_file overlay ''qwen3_speech_engine'') (\<lambda>_.
       Inr (backend, qwen3_file, so_file)))))))))"

record engine_paths =
  p_model_base :: string
  p_config :: string
  p_talker :: string
  p_legacy_cp :: string
  p_cp_kv :: string
  p_vocoder :: string

definition engine_paths_of :: "environ \<Rightarrow> string \<Rightarrow> engine_paths" where
  "engine_paths_of env model_base =
     (let engines_dir = path_join model_base ''engines'' in
      \<lparr>p_model_base = model_base, p_config = path_join (path_join model_base ''onnx'') ''config.json'',
       p_talker = getenv env ''QWEN3_TALKER_ENGINE'' (path_join engines_dir ''talker_decode_bf16.engine''),
       p_legacy_cp = getenv env ''QWEN3_CP_ENGINE'' (path_join engines_dir ''cp_bf16.engine''),
       p_cp_kv = path_join engines_dir ''cp_unified_bf16.engine'',
       p_vocoder = path_join engines_dir ''vocoder_fp16.engine''\<rparr>)"

definition labelled :: "engine_paths \<Rightarrow> (string \<times> string) list" where
  "labelled p =
     [(''model_base'', p_model_base p), (''config'', p_config p), (''talker_engine'', p_talker p),
      (''legacy_cp_engine'', p_legacy_cp p), (''cp_kv_engine'', p_cp_kv p), (''vocoder_engine'', p_vocoder p)]"

definition require_paths :: "contract_world \<Rightarrow> (string \<times> string) list \<Rightarrow> contract_exc + unit" where
  "require_paths w ps = res_fold (\<lambda>(label, path) _. require (path_exists w path) (MissingPath label path)) ps ()"

text \<open>\<^verbatim>\<open>int(v)\<close> of a JSON value; a float is cut towards zero.\<close>

fun int_of_json :: "json \<Rightarrow> vexc + int" where
  "int_of_json (JInt i) = Inr i"
| "int_of_json (JBool b) = Inr (if b then 1 else 0)"
| "int_of_json (JFloat r) = Inr (if 0 \<le> r then \<lfloor>r\<rfloor> else \<lceil>r\<rceil>)"
| "int_of_json (JStr s) = of_option ValueErr (py_int s)"
| "int_of_json _ = Inl OtherErr"

text \<open>\<^verbatim>\<open>v - 1\<close>; the default is computed whether or not it is needed.\<close>

fun minus_one :: "json \<Rightarrow> vexc + json" where
  "minus_one (JInt i) = Inr (JInt (i - 1))"
| "minus_one (JBool b) = Inr (JInt ((if b then 1 else 0) - 1))"
| "minus_one (JFloat r) = Inr (JFloat (r - 1))"
| "minus_one _ = Inl OtherErr"

definition cp_active_groups :: "dict \<Rightarrow> vexc + int" where
  "cp_active_groups config =
     res_bind (minus_one (case map_of config ''num_code_groups'' of None \<Rightarrow> JInt 16 | Some v \<Rightarrow> v)) (\<lambda>dflt.
       int_of_json (case map_of config ''cp_active_groups'' of None \<Rightarrow> dflt | Some v \<Rightarrow> v))"

definition talker_names :: "string list" where
  "talker_names = [''inputs_embeds'', ''logits'', ''last_hidden'', ''past_key_0'', ''new_past_key_0'']"

fun check_talker :: "engine_meta \<Rightarrow> contract_exc + unit" where
  "check_talker (EngineUnavailable path) = Inr ()"
| "check_talker (EngineMeta path profiles tensors) =
     res_bind (res_fold (\<lambda>name _. require (map_of tensors name \<noteq> None) (MissingTensor ''talker'' name)) talker_names ())
       (\<lambda>_. res_fold (\<lambda>name _. case map_of tensors name of
            None \<Rightarrow> Inl (OtherExc KeyErr)
          | Some t \<Rightarrow> require (ti_dtype t = ''FLOAT'') (TensorDtype name ''FLOAT'' (ti_dtype t))) talker_names ())"

fun check_cp :: "string \<Rightarrow> engine_meta \<Rightarrow> contract_exc + unit" where
  "check_cp cp_kv_engine (EngineUnavailable path) = Inr ()"
| "check_cp cp_kv_engine (EngineMeta path profiles tensors) =
     res_bind (require (path_name cp_kv_engine = ''cp_unified_bf16.engine'') (UnexpectedCpName (path_name cp_kv_engine))) (\<lambda>_.
     res_bind (require (map_of tensors ''logits_all'' \<noteq> None \<or> map_of tensors ''logits'' \<noteq> None) MissingCpLogits) (\<lambda>_.
       case map_of tensors ''new_past_key_0'' of
         None \<Rightarrow> Inl (Contract (MissingTensor ''cp'' ''new_past_key_0''))
       | Some t \<Rightarrow> require (ti_dtype t \<in> {''FLOAT'', ''BF16''}) (TensorDtype ''new_past_key_0'' ''FLOAT'' (ti_dtype t))))"

fun check_vocoder :: "engine_meta \<Rightarrow> contract_exc + unit" where
  "check_vocoder (EngineUnavailable path) = Inr ()"
| "check_vocoder (EngineMeta path profiles tensors) =
     (case map_of tensors ''audio_values'' of
        None \<Rightarrow> Inr ()
      | Some t \<Rightarrow> require (ti_shape t = [1, 192000]) (VocoderShape (ti_shape t)))"

definition vocoder_limit_of :: "environ \<Rightarrow> vexc + int" where
  "vocoder_limit_of env = of_option ValueErr (py_int (getenv env ''TTS_TRT_VOCODER_MAX_FRAMES'' ''100''))"

definition check_engines ::
  "contract_world \<Rightarrow> contract_args \<Rightarrow> environ \<Rightarrow> engine_paths
     \<Rightarrow> contract_exc + engine_meta \<times> engine_meta \<times> engine_meta \<times> int" where
  "check_engines w args env p =
     res_bind (inspect_engine (trt w) (p_talker p)) (\<lambda>talker_meta.
     res_bind (inspect_engine (trt w) (p_cp_kv p)) (\<lambda>cp_meta.
     res_bind (inspect_engine (trt w) (p_vocoder p)) (\<lambda>vocoder_meta.
     res_bind (check_talker talker_meta) (\<lambda>_.
     res_bind (check_cp (p_cp_kv p) cp_meta) (\<lambda>_.
     res_bind (of_exc (vocoder_limit_of env)) (\<lambda>vocoder_limit.
     res_bind (if bool_env env ''TTS_VOCODER_TRT'' ''1''
               then require (max_audio_length args \<le> vocoder_limit \<or> expect_frame_cap args)
                      (FrameCapTooLarge vocoder_limit (max_audio_length args))
               else Inr ()) (\<lambda>_.
     res_bind (check_vocoder vocoder_meta) (\<lambda>_.
       Inr (talker_meta, cp_meta, vocoder_meta, vocoder_limit)))))))))"

record sample_report =
  sr_wav :: wav_info
  sr_meta :: dict

definition meta_int :: "dict \<Rightarrow> string \<Rightarrow> int \<Rightarrow> vexc + int" where
  "meta_int meta name dflt = int_of_json (case map_of meta name of None \<Rightarrow> JInt dflt | Some v \<Rightarrow> v)"

definition collect_sample ::
  "contract_world \<Rightarrow> contract_args \<Rightarrow> environ \<Rightarrow> int \<Rightarrow> contract_exc + sample_report" where
  "collect_sample w args env vocoder_limit =
     res_bind (of_exc (synthesize_sample w (sample_text args) (max_audio_length args) (seed_arg args))) (\<lambda>(bs, meta).
     res_bind (of_exc (wav_open bs)) (\<lambda>info.
     res_bind (require (file_bytes info > 44) SampleEmpty) (\<lambda>_.
     res_bind (require (sample_rate info = 24000) (SampleRateWrong (sample_rate info))) (\<lambda>_.
     res_bind (require (\<not> truthy (dget meta ''segmented'')) SampleSegmented) (\<lambda>_.
     res_bind (of_exc (meta_int meta ''seed'' (-1))) (\<lambda>s.
     res_bind (require (s = seed_arg args) SampleSeed) (\<lambda>_.
     res_bind (if bool_env env ''TTS_VOCODER_TRT'' ''1''
               then res_bind (of_exc (meta_int meta ''n_frames'' 0)) (\<lambda>n. require (n \<le> vocoder_limit) SampleFrames)
               else Inr ()) (\<lambda>_.
       Inr \<lparr>sr_wav = info, sr_meta = meta\<rparr>))))))))"

record contract_report =
  cr_mode :: string
  cr_wrapper :: string
  cr_backend :: string
  cr_native :: string
  cr_paths :: engine_paths
  cr_groups :: int
  cr_seed :: int
  cr_max_audio :: int
  cr_frame_cap :: int
  cr_talker :: engine_meta
  cr_cp :: engine_meta
  cr_vocoder :: engine_meta
  cr_sample :: "sample_report option"

definition collect_contract ::
  "string \<Rightarrow> contract_world \<Rightarrow> contract_args \<Rightarrow> environ \<Rightarrow> string list \<Rightarrow> contract_exc + contract_report" where
  "collect_contract pre w args env sys_path =
     (let env = prepare_env pre args env;
          overlay = getenv env (pre @ ''NATIVE_MODULE_DIR'') [];
          sys_path = extend_sys_path w [app_dir args, overlay, path_join overlay ''backends''] sys_path;
          p = engine_paths_of env (getenv env (pre @ ''MODEL_BASE'') [])
      in
      res_bind (load_backend w args env sys_path overlay) (\<lambda>(backend, qwen3_file, so_file).
      res_bind (require_paths w (labelled p)) (\<lambda>_.
      res_bind (of_exc (read_config w (p_config p))) (\<lambda>config.
      res_bind (of_exc (cp_active_groups config)) (\<lambda>groups.
      res_bind (require (groups = expected_cp_active_groups args)
                  (CpActiveGroups (expected_cp_active_groups args) groups)) (\<lambda>_.
      res_bind (require (seed_arg args \<noteq> 0) ZeroSeed) (\<lambda>_.
      res_bind (check_engines w args env p) (\<lambda>(talker_meta, cp_meta, vocoder_meta, vocoder_limit).
      let summary = (\<lambda>meta names. if verbose_engine_meta args then meta else engine_summary meta names);
          report = (\<lambda>sample. \<lparr>cr_mode = backend_mode backend, cr_wrapper = wrapper_file backend,
            cr_backend = qwen3_file, cr_native = so_file, cr_paths = p, cr_groups = groups,
            cr_seed = seed_arg args, cr_max_audio = max_audio_length args, cr_frame_cap = vocoder_limit,
            cr_talker = summary talker_meta talker_names,
            cr_cp = summary cp_meta [''inputs_embeds'', ''logits_all'', ''logits'', ''past_length'', ''new_past_key_0''],
            cr_vocoder = summary vocoder_meta [''audio_codes'', ''audio_values'', ''lengths''],
            cr_sample = sample\<rparr>)
      in if run_sample args
         then res_bind (collect_sample w args env vocoder_limit) (\<lambda>s. Inr (report (Some s)))
         else Inr (report None)))))))))"

text \<open>The two scripts.\<close>

definition jv_collect_contract ::
  "contract_world \<Rightarrow> contract_args \<Rightarrow> environ \<Rightarrow> string list \<Rightarrow> contract_exc + contract_report" where
  "jv_collect_contract = collect_contract ''JETSON_VOICE_TTS_''"

definition ovs_collect_contract ::
  "contract_world \<Rightarrow> contract_args \<Rightarrow> environ \<Rightarrow> string list \<Rightarrow> contract_exc + contract_report" where
  "ovs_collect_contract = collect_contract ''OVS_TTS_''"

datatype contract_status = ContractOk contract_report | ContractFail contract_error | Traceback vexc

definition contract_exit :: "contract_status \<Rightarrow> nat" where
  "contract_exit s = (case s of ContractOk r \<Rightarrow> 0 | ContractFail e \<Rightarrow> 2 | Traceback e \<Rightarrow> 1)"

definition contract_main :: "contract_exc + contract_report \<Rightarrow> contract_status" where
  "contract_main result =
     (case result of
        Inr report \<Rightarrow> ContractOk report
      | Inl (Contract e) \<Rightarrow> ContractFail e
      | Inl (OtherExc e) \<Rightarrow> Traceback e)"

end
