(* ===== verification/Tts_Contract_Props.thy ===== *)
theory Tts_Contract_Props
  imports Tts_Contract
begin

text \<open>
  What the status \<^verbatim>\<open>CONTRACT_OK\<close> of the contract script says about the installation that was
  inspected.
\<close>

section \<open>Lemmas\<close>

lemma of_exc_Inr [simp]: "of_exc r = Inr x \<longleftrightarrow> r = Inr x"
  by (cases r) (simp_all add: of_exc_def)

lemma require_paths_Inr: "require_paths w ps = Inr u \<Longrightarrow> \<forall>(label, path)\<in>set ps. path_exists w path"
  unfolding require_paths_def by (induction ps) auto

text \<open>The tensor a deserialized engine has under a name: the last one wins, as in the dictionary.\<close>

definition io_named :: "trt_engine \<Rightarrow> string \<Rightarrow> trt_tensor option" where
  "io_named engine name = map_of (rev (map (\<lambda>t. (tt_name t, t)) (io_tensors engine))) name"

lemma map_of_fold_update:
  "map_of (fold (\<lambda>t. AList.update (k t) (v t)) ts d) = map_of d ++ map_of (rev (map (\<lambda>t. (k t, v t)) ts))"
  by (induction ts arbitrary: d) (auto simp: map_add_def fun_eq_iff split: option.splits)

lemma map_of_rev_map_snd:
  "map_of (rev (map (\<lambda>t. (k t, v t)) ts)) name = map_option v (map_of (rev (map (\<lambda>t. (k t, t)) ts)) name)"
  by (induction ts) (auto simp: map_of_append map_add_def split: option.splits)

lemma inspected_tensor:
  "map_of (fold (\<lambda>t. AList.update (tt_name t) (tensor_entry n t)) (io_tensors engine) []) name
     = map_option (tensor_entry n) (io_named engine name)"
  by (simp add: map_of_fold_update map_of_rev_map_snd [of tt_name "tensor_entry n"] io_named_def)

lemma inspect_Inr:
  assumes "inspect_engine rt path = Inr meta"
  shows "(rt = None \<and> meta = EngineUnavailable path) \<or> (\<exists>des engine n tensors. rt = Some des \<and> des path = Some engine
    \<and> meta = EngineMeta path n tensors \<and> map_of tensors = (\<lambda>name. map_option (tensor_entry n) (io_named engine name)))"
  using assms by (auto simp: inspect_engine_def inspected_tensor [abs_def] fun_eq_iff split: option.splits)

lemma res_fold_unit:
  assumes "res_fold (\<lambda>x _. f x) xs () = Inr u" and "x \<in> set xs"
  shows "f x = Inr ()"
  using assms by (induction xs) auto

lemma check_talker_Inr:
  assumes "check_talker (EngineMeta path n tensors) = Inr u" and "name \<in> set talker_names"
  shows "\<exists>t. map_of tensors name = Some t \<and> ti_dtype t = ''FLOAT''"
proof -
  from assms(1) have "res_fold (\<lambda>name _. case map_of tensors name of
            None \<Rightarrow> Inl (OtherExc KeyErr)
          | Some t \<Rightarrow> require (ti_dtype t = ''FLOAT'') (TensorDtype name ''FLOAT'' (ti_dtype t))) talker_names () = Inr ()"
    by simp
  from res_fold_unit [OF this assms(2)] show ?thesis by (auto split: option.splits)
qed

lemma getenv_setdefault:
  "getenv (setdefault_env name v env) name' dflt =
     (if name = name' then getenv env name v else getenv env name' dflt)"
  by (auto simp: getenv_def setdefault_env_def split: option.splits)

lemma getenv_update: "getenv (AList.update name v env) name' dflt = (if name = name' then v else getenv env name' dflt)"
  by (simp add: getenv_def)

lemma prepared_base: "getenv (prepare_env pre args env) (pre @ ''MODEL_BASE'') [] = getenv env (pre @ ''MODEL_BASE'') (model_base_arg args)"
  and prepared_overlay: "getenv (prepare_env pre args env) (pre @ ''NATIVE_MODULE_DIR'') []
    = getenv env (pre @ ''NATIVE_MODULE_DIR'') (native_module_dir args)"
  by (simp_all add: prepare_env_def getenv_setdefault getenv_update)

text \<open>The engines that were inspected have what the contract asks for.\<close>

definition engines_ok :: "contract_world \<Rightarrow> engine_paths \<Rightarrow> bool" where
  "engines_ok w p \<longleftrightarrow> (\<forall>des. trt w = Some des \<longrightarrow>
     (\<exists>talker cp voc. des (p_talker p) = Some talker \<and> des (p_cp_kv p) = Some cp \<and> des (p_vocoder p) = Some voc
      \<and> (\<forall>name\<in>set talker_names. \<exists>t. io_named talker name = Some t \<and> last_part (tt_dtype t) = ''FLOAT'')
      \<and> (\<exists>t. io_named cp ''new_past_key_0'' = Some t \<and> last_part (tt_dtype t) \<in> {''FLOAT'', ''BF16''})
      \<and> (io_named cp ''logits_all'' \<noteq> None \<or> io_named cp ''logits'' \<noteq> None)
      \<and> path_name (p_cp_kv p) = ''cp_unified_bf16.engine''
      \<and> (\<forall>t. io_named voc ''audio_values'' = Some t \<longrightarrow> tt_shape t = [1, 192000])))"

lemma ti_entry [simp]: "ti_dtype (tensor_entry n t) = last_part (tt_dtype t)" "ti_shape (tensor_entry n t) = tt_shape t"
  by (simp_all add: tensor_entry_def Let_def)

lemma check_engines_Inr:
  assumes "check_engines w args env p = Inr (talker_meta, cp_meta, vocoder_meta, limit)"
  shows "engines_ok w p \<and> vocoder_limit_of env = Inr limit
    \<and> (bool_env env ''TTS_VOCODER_TRT'' ''1'' \<longrightarrow> max_audio_length args \<le> limit \<or> expect_frame_cap args)"
proof -
  from assms have m: "inspect_engine (trt w) (p_talker p) = Inr talker_meta" "inspect_engine (trt w) (p_cp_kv p) = Inr cp_meta"
      "inspect_engine (trt w) (p_vocoder p) = Inr vocoder_meta" "check_talker talker_meta = Inr ()"
      "check_cp (p_cp_kv p) cp_meta = Inr ()" "check_vocoder vocoder_meta = Inr ()"
    and lim: "vocoder_limit_of env = Inr limit"
    and cap: "bool_env env ''TTS_VOCODER_TRT'' ''1'' \<longrightarrow> max_audio_length args \<le> limit \<or> expect_frame_cap args"
    by (auto simp: check_engines_def split: if_splits)
  have "engines_ok w p"
    unfolding engines_ok_def
  proof (intro allI impI)
    fix des
    assume d: "trt w = Some des"
    from inspect_Inr [OF m(1)] d obtain talker n1 t1 where
      t: "des (p_talker p) = Some talker" "talker_meta = EngineMeta (p_talker p) n1 t1"
        "map_of t1 = (\<lambda>name. map_option (tensor_entry n1) (io_named talker name))" by auto
    from inspect_Inr [OF m(2)] d obtain cp n2 t2 where
      c: "des (p_cp_kv p) = Some cp" "cp_meta = EngineMeta (p_cp_kv p) n2 t2"
        "map_of t2 = (\<lambda>name. map_option (tensor_entry n2) (io_named cp name))" by auto
    from inspect_Inr [OF m(3)] d obtain voc n3 t3 where
      v: "des (p_vocoder p) = Some voc" "vocoder_meta = EngineMeta (p_vocoder p) n3 t3"
        "map_of t3 = (\<lambda>name. map_option (tensor_entry n3) (io_named voc name))" by auto
    have "\<exists>t. io_named talker name = Some t \<and> last_part (tt_dtype t) = ''FLOAT''" if "name \<in> set talker_names" for name
      using check_talker_Inr [OF m(4) [unfolded t(2)] that] t(3) by auto
    moreover have "(\<exists>t. io_named cp ''new_past_key_0'' = Some t \<and> last_part (tt_dtype t) \<in> {''FLOAT'', ''BF16''})
        \<and> (io_named cp ''logits_all'' \<noteq> None \<or> io_named cp ''logits'' \<noteq> None)
        \<and> path_name (p_cp_kv p) = ''cp_unified_bf16.engine''"
      using m(5) c(2,3) by (auto split: option.splits)
    moreover have "\<forall>t. io_named voc ''audio_values'' = Some t \<longrightarrow> tt_shape t = [1, 192000]"
      using m(6) v(2,3) by (auto split: option.splits)
    ultimately show "\<exists>talker cp voc. des (p_talker p) = Some talker \<and> des (p_cp_kv p) = Some cp \<and> des (p_vocoder p) = Some voc
      \<and> (\<forall>name\<in>set talker_names. \<exists>t. io_named talker name = Some t \<and> last_part (tt_dtype t) = ''FLOAT'')
      \<and> (\<exists>t. io_named cp ''new_past_key_0'' = Some t \<and> last_part (tt_dtype t) \<in> {''FLOAT'', ''BF16''})
      \<and> (io_named cp ''logits_all'' \<noteq> None \<or> io_named cp ''logits'' \<noteq> None)
      \<and> path_name (p_cp_kv p) = ''cp_unified_bf16.engine''
      \<and> (\<forall>t. io_named voc ''audio_values'' = Some t \<longrightarrow> tt_shape t = [1, 192000])"
      using t(1) c(1) v(1) by blast
  qed
  with cap lim show ?thesis by blast
qed

text \<open>The sample that was synthesized, as the file on disk has it.\<close>

definition sample_ok :: "contract_world \<Rightarrow> contract_args \<Rightarrow> environ \<Rightarrow> int \<Rightarrow> sample_report \<Rightarrow> bool" where
  "sample_ok w args env limit s \<longleftrightarrow>
     (\<exists>bs. synthesize_sample w (sample_text args) (max_audio_length args) (seed_arg args) = Inr (bs, sr_meta s)
        \<and> wav_open bs = Inr (sr_wav s))
     \<and> 44 < file_bytes (sr_wav s) \<and> sample_rate (sr_wav s) = 24000
     \<and> \<not> truthy (dget (sr_meta s) ''segmented'') \<and> meta_int (sr_meta s) ''seed'' (-1) = Inr (seed_arg args)
     \<and> (bool_env env ''TTS_VOCODER_TRT'' ''1'' \<longrightarrow>
          (\<exists>n. meta_int (sr_meta s) ''n_frames'' 0 = Inr n \<and> n \<le> limit))"

lemma collect_sample_Inr: "collect_sample w args env limit = Inr s \<Longrightarrow> sample_ok w args env limit s"
  by (auto simp: collect_sample_def sample_ok_def split: if_splits)


lemma load_backend_Inr:
  assumes "load_backend w args env sys_path overlay = Inr (backend, qwen3_file, so_file)"
  shows "backend_mode backend = ''product_explicit_kv''
    \<and> (\<exists>rt\<in>{app_dir args, overlay}. path_under w qwen3_file rt)
    \<and> (if expected_so args = [] then path_under w so_file overlay
       else norm_path w so_file = norm_path w (expected_so args))"
  using assms by (auto simp: load_backend_def expect_path_under_any_def expect_path_under_def split: if_splits)

section \<open>Example\<close>

definition demo_tensor :: "string \<Rightarrow> trt_tensor" where
  "demo_tensor name = \<lparr>tt_name = name, tt_mode = ''TensorIOMode.INPUT'', tt_dtype = ''DataType.FLOAT'',
     tt_shape = [1, 1], tt_profile_shape = (\<lambda>i. [[1], [1], [8]])\<rparr>"

definition demo_engine :: trt_engine where
  "demo_engine = \<lparr>num_optimization_profiles = 1, io_tensors = map demo_tensor talker_names\<rparr>"

definition demo_pcm :: bytes where
  "demo_pcm = [1, 2, 3, 4]"

definition demo_world :: contract_world where
  "demo_world = \<lparr>norm_path = (\<lambda>p. p), is_dir = (\<lambda>p. True), path_exists = (\<lambda>p. True),
     read_config = (\<lambda>p. Inr [(''num_code_groups'', JInt 16)]), trt = Some (\<lambda>p. Some demo_engine),
     import_wrapper = (\<lambda>env sys_path. Inr \<lparr>wrapper_file = ''/app/backends/trt_edge_llm_tts.py'',
        backend_mode = getenv env ''OVS_TTS_BACKEND'' [], preload = Inr True\<rparr>),
     import_file = (\<lambda>sys_path m. Inr (if m = ''qwen3_speech_engine'' then ''/ov/qwen3_speech_engine.so''
        else ''/app/backends/qwen3_trt.py'')),
     synthesize_sample = (\<lambda>txt n s. Inr (wav_header 1 2 24000 (length demo_pcm) @ demo_pcm,
        [(''seed'', JInt s), (''n_frames'', JInt 12)]))\<rparr>"

definition demo_args :: contract_args where
  "demo_args = \<lparr>app_dir = ''/app'', model_base_arg = ''/m'', native_module_dir = ''/ov'', expected_so = [],
     seed_arg = 42, max_audio_length = 100, expected_cp_active_groups = 15, expect_frame_cap = False,
     verbose_engine_meta = False, run_sample = True, sample_text = ''a''\<rparr>"

section \<open>Properties\<close>

text \<open>
  C29: \<^verbatim>\<open>CONTRACT_OK\<close> is sound.  When the script reports it, the backend runs in product mode, the
  Python and native modules come from the expected directories, every engine file exists, the
  active code groups match and the request seed is not zero.  If the TensorRT module can be imported
  (otherwise the code skips every check of an engine), the three engines open and have the tensors
  and types of the contract.  With the TensorRT vocoder switched on, the requested length is within
  the frame cap of the environment unless \<^verbatim>\<open>--expect-frame-cap\<close> waives it.  A requested sample is what the
  backend synthesized for the text, length and seed asked for: a 24 kHz file with audio behind the
  header, not segmented, with the seed echoed and, with the TensorRT vocoder, no more frames than
  the cap.
\<close>

theorem contract_ok_sound:
  assumes "contract_main (collect_contract pre w args env sys_path) = ContractOk report"
  shows "cr_mode report = ''product_explicit_kv''
    \<and> p_model_base (cr_paths report) = getenv env (pre @ ''MODEL_BASE'') (model_base_arg args)
    \<and> (\<exists>rt\<in>{app_dir args, getenv env (pre @ ''NATIVE_MODULE_DIR'') (native_module_dir args)}. path_under w (cr_backend report) rt)
    \<and> (if expected_so args = []
       then path_under w (cr_native report) (getenv env (pre @ ''NATIVE_MODULE_DIR'') (native_module_dir args))
       else norm_path w (cr_native report) = norm_path w (expected_so args))
    \<and> (\<forall>(label, path)\<in>set (labelled (cr_paths report)). path_exists w path)
    \<and> cr_groups report = expected_cp_active_groups args \<and> cr_seed report \<noteq> 0
    \<and> engines_ok w (cr_paths report)
    \<and> (bool_env (prepare_env pre args env) ''TTS_VOCODER_TRT'' ''1'' \<longrightarrow>
         max_audio_length args \<le> cr_frame_cap report \<or> expect_frame_cap args)
    \<and> vocoder_limit_of (prepare_env pre args env) = Inr (cr_frame_cap report)
    \<and> (run_sample args \<longrightarrow> (\<exists>s. cr_sample report = Some s
         \<and> sample_ok w args (prepare_env pre args env) (cr_frame_cap report) s))"
proof -
  let ?env = "prepare_env pre args env"
  let ?p = "engine_paths_of ?env (getenv env (pre @ ''MODEL_BASE'') (model_base_arg args))"
  let ?ov = "getenv env (pre @ ''NATIVE_MODULE_DIR'') (native_module_dir args)"
  from assms obtain backend qwen3_file so_file sp metas groups tm cm vm lim where
    l: "load_backend w args ?env sp ?ov = Inr (backend, qwen3_file, so_file)"
      "require_paths w (labelled ?p) = Inr ()" "groups = expected_cp_active_groups args" "seed_arg args \<noteq> 0"
      "check_engines w args ?env ?p = Inr (tm, cm, vm, lim)"
    and r: "cr_mode report = backend_mode backend" "cr_backend report = qwen3_file" "cr_native report = so_file"
      "cr_paths report = ?p" "cr_groups report = groups" "cr_seed report = seed_arg args"
      "cr_frame_cap report = lim" "run_sample args \<longrightarrow> (\<exists>s. cr_sample report = Some s \<and> collect_sample w args ?env lim = Inr s)"
    unfolding contract_main_def collect_contract_def Let_def prepared_base prepared_overlay
    by (auto split: sum.splits contract_exc.splits if_splits)
  have "p_model_base ?p = getenv env (pre @ ''MODEL_BASE'') (model_base_arg args)"
    by (simp add: engine_paths_of_def Let_def)
  moreover have "run_sample args \<longrightarrow> (\<exists>s. cr_sample report = Some s \<and> sample_ok w args ?env lim s)"
    using r(8) collect_sample_Inr by blast
  ultimately show ?thesis
    using load_backend_Inr [OF l(1)] require_paths_Inr [OF l(2)] l(3,4) check_engines_Inr [OF l(5)]
    by (simp add: r(1-7))
qed

lemma demo_sample: "wav_open (wav_header 1 2 24000 (length demo_pcm) @ demo_pcm) = Inr \<lparr>sample_rate = 24000,
    channels = 1, sample_width = 2, frames = 2, file_bytes = 48\<rparr>"
  using wav_open_written [of 1 24000 2 demo_pcm] by (simp add: demo_pcm_def)

abbreviation demo_env :: environ where
  "demo_env \<equiv> prepare_env ''OVS_TTS_'' demo_args []"

lemma demo_backend:
  "case load_backend demo_world demo_args demo_env sys_path ''/ov'' of Inl e \<Rightarrow> False | Inr b \<Rightarrow> True"
  by (simp add: load_backend_def demo_world_def demo_args_def of_exc_def prepare_env_def getenv_setdefault
      getenv_def [of "[_, _]"] expect_path_under_any_def expect_path_under_def path_under_def check_def)

lemma demo_tensors:
  "map_of (fold (\<lambda>t. AList.update (tt_name t) (tensor_entry n t)) (io_tensors demo_engine) []) name
     = (if name \<in> set talker_names then Some (tensor_entry n (demo_tensor name)) else None)"
  unfolding inspected_tensor by (simp add: io_named_def demo_engine_def talker_names_def demo_tensor_def)

lemma demo_meta:
  "\<exists>tensors. inspect_engine (trt demo_world) p = Inr (EngineMeta p 1 tensors)
     \<and> map_of tensors = (\<lambda>name. if name \<in> set talker_names then Some (tensor_entry 1 (demo_tensor name)) else None)"
  using demo_tensors by (auto simp: inspect_engine_def demo_world_def fun_eq_iff demo_engine_def)

lemma demo_dtype [simp]: "last_part (tt_dtype (demo_tensor name)) = ''FLOAT''"
proof -
  have "last_part ''DataType.FLOAT'' = ''FLOAT''" by code_simp
  then show ?thesis by (simp add: demo_tensor_def)
qed

lemma demo_engines:
  "case check_engines demo_world demo_args demo_env (engine_paths_of demo_env ''/m'') of
     Inl e \<Rightarrow> False | Inr (t, c, v, limit) \<Rightarrow> limit = 100"
proof -
  let ?p = "engine_paths_of demo_env ''/m''"
  let ?m = "\<lambda>name. if name \<in> set talker_names then Some (tensor_entry 1 (demo_tensor name)) else None"
  obtain t1 where t1: "inspect_engine (trt demo_world) (p_talker ?p) = Inr (EngineMeta (p_talker ?p) 1 t1)" "map_of t1 = ?m"
    using demo_meta by blast
  obtain t2 where t2: "inspect_engine (trt demo_world) (p_cp_kv ?p) = Inr (EngineMeta (p_cp_kv ?p) 1 t2)" "map_of t2 = ?m"
    using demo_meta by blast
  obtain t3 where t3: "inspect_engine (trt demo_world) (p_vocoder ?p) = Inr (EngineMeta (p_vocoder ?p) 1 t3)" "map_of t3 = ?m"
    using demo_meta by blast
  have n: "path_name (p_cp_kv ?p) = ''cp_unified_bf16.engine''" by code_simp
  have l: "vocoder_limit_of demo_env = Inr 100" by code_simp
  have "max_audio_length demo_args = 100" by (simp add: demo_args_def)
  then show ?thesis
    by (simp add: check_engines_def t1 t2 t3 n l of_exc_def talker_names_def)
qed

lemma demo_groups: "cp_active_groups [(''num_code_groups'', JInt 16)] = Inr 15"
  by (simp add: cp_active_groups_def)

lemma demo_contract: "\<exists>report. contract_main (ovs_collect_contract demo_world demo_args [] []) = ContractOk report"
proof -
  have s: "\<exists>s. collect_sample demo_world demo_args demo_env 100 = Inr s"
    using demo_sample
    by (simp add: collect_sample_def demo_world_def demo_args_def of_exc_def meta_int_def dget_def check_def)
  have g: "getenv demo_env ''OVS_TTS_MODEL_BASE'' [] = ''/m''" "getenv demo_env ''OVS_TTS_NATIVE_MODULE_DIR'' [] = ''/ov''"
    by code_simp+
  have r: "require_paths demo_world (labelled p) = Inr ()" for p
    by (simp add: require_paths_def labelled_def demo_world_def)
  have c: "read_config demo_world p = Inr [(''num_code_groups'', JInt 16)]" for p by (simp add: demo_world_def)
  have a: "run_sample demo_args" "expected_cp_active_groups demo_args = 15" "seed_arg demo_args = 42"
    by (simp_all add: demo_args_def)
  show ?thesis
    using s demo_engines
      demo_backend [of "extend_sys_path demo_world [app_dir demo_args, ''/ov'', path_join ''/ov'' ''backends''] []"]
    by (auto simp: ovs_collect_contract_def collect_contract_def Let_def contract_main_def g r c a demo_groups of_exc_def
        split: sum.splits)
qed

theorem contract_ok_sound_witness:
  "\<exists>report. contract_main (ovs_collect_contract demo_world demo_args [] []) = ContractOk report
     \<and> p_model_base (cr_paths report) = ''/m'' \<and> engines_ok demo_world (cr_paths report)
     \<and> (\<exists>s. cr_sample report = Some s \<and> sample_ok demo_world demo_args demo_env (cr_frame_cap report) s)"
proof -
  obtain report where r: "contract_main (ovs_collect_contract demo_world demo_args [] []) = ContractOk report"
    using demo_contract by blast
  from contract_ok_sound [OF r [unfolded ovs_collect_contract_def]] r show ?thesis
    by (auto simp: getenv_def demo_args_def)
qed

end
