(* ===== verification/Onnx_Graph.thy ===== *)
theory Onnx_Graph
  imports Py_Text
begin

text \<open>
  ONNX graphs as the rewriting scripts see them: nodes with named inputs and outputs, initializers,
  and the operator-set list; and what a graph computes, for any meaning \<open>sem\<close> of its operators.
  Tensor elements are exact rationals.
\<close>

section \<open>Data\<close>

record onnx_node =
  nd_name :: string
  op_type :: string
  nd_input :: "string list"
  nd_output :: "string list"
  nd_domain :: string
  nd_attribute :: dict

record onnx_init =
  in_name :: string
  in_dims :: "nat list"
  in_vals :: "rat list"
  in_itemsize :: nat

record onnx_graph =
  g_node :: "onnx_node list"
  g_initializer :: "onnx_init list"

record onnx_model =
  m_graph :: onnx_graph
  opset_import :: "(string \<times> nat) list"

text \<open>\<^verbatim>\<open>{initializer.name: initializer for ...}\<close>: the last of a name wins.\<close>

definition initializer_map :: "onnx_init list \<Rightarrow> string \<Rightarrow> onnx_init option" where
  "initializer_map inits = map_of (rev (map (\<lambda>t. (in_name t, t)) inits))"

text \<open>How often a name is an input.\<close>

definition use_count :: "onnx_node list \<Rightarrow> string \<Rightarrow> nat" where
  "use_count nodes name = sum_list (map (\<lambda>nd. count_list (nd_input nd) name) nodes)"

fun ensure_opset :: "string \<Rightarrow> nat \<Rightarrow> (string \<times> nat) list \<Rightarrow> (string \<times> nat) list" where
  "ensure_opset domain version [] = [(domain, version)]"
| "ensure_opset domain version ((d, v) # ops) =
     (if d = domain then (d, max v version) # ops else (d, v) # ensure_opset domain version ops)"

text \<open>\<^verbatim>\<open>name.replace("/", "_").replace(":", "_")\<close>.\<close>

definition safe_chars :: "string \<Rightarrow> string" where
  "safe_chars name = map (\<lambda>c. if c = CHR ''/'' \<or> c = CHR '':'' then CHR ''_'' else c) name"

definition make_node :: "string \<Rightarrow> string list \<Rightarrow> string list \<Rightarrow> string \<Rightarrow> dict \<Rightarrow> onnx_node" where
  "make_node ty inputs outputs name attrs =
     \<lparr>nd_name = name, op_type = ty, nd_input = inputs, nd_output = outputs, nd_domain = [], nd_attribute = attrs\<rparr>"

text \<open>\<^verbatim>\<open>TensorProto.FLOAT\<close> and \<^verbatim>\<open>TensorProto.FLOAT16\<close>.\<close>

definition FLOAT :: int where "FLOAT = 1"
definition FLOAT16 :: int where "FLOAT16 = 10"

section \<open>Rounding\<close>

text \<open>\<^verbatim>\<open>np.rint\<close>: to the nearest integer, a tie to the even one.\<close>

definition rint :: "rat \<Rightarrow> int" where
  "rint x =
     (let f = \<lfloor>x\<rfloor>; d = x - of_int f
      in if d < 1 / 2 then f else if d > 1 / 2 then f + 1 else if even f then f else f + 1)"

definition clip8 :: "int \<Rightarrow> int" where
  "clip8 i = min 127 (max (-128) i)"

lemma rint_near: "\<bar>x - of_int (rint x)\<bar> \<le> 1 / 2"
proof -
  define d where "d = x - of_int \<lfloor>x\<rfloor>"
  have d: "0 \<le> d" "d < 1" unfolding d_def by linarith+
  consider "rint x = \<lfloor>x\<rfloor>" "d \<le> 1 / 2" | "rint x = \<lfloor>x\<rfloor> + 1" "1 / 2 \<le> d"
    unfolding rint_def Let_def d_def [symmetric] by (meson linorder_not_less less_imp_le)
  then show ?thesis
  proof cases
    case 1
    then have "x - of_int (rint x) = d" by (simp add: d_def)
    then show ?thesis using 1 d by simp
  next
    case 2
    then have "x - of_int (rint x) = d - 1" by (simp add: d_def)
    then show ?thesis using 2 d by simp
  qed
qed

lemma rint_bound: "\<bar>x\<bar> \<le> of_int m \<Longrightarrow> \<bar>rint x\<bar> \<le> m"
proof -
  assume a: "\<bar>x\<bar> \<le> of_int m"
  have l: "of_int (rint x) < (of_int (m + 1) :: rat)" "(of_int (- m - 1) :: rat) < of_int (rint x)"
    using rint_near [of x] a unfolding of_int_add of_int_diff of_int_minus of_int_1 by linarith+
  then have "rint x < m + 1" "- m - 1 < rint x" unfolding of_int_less_iff by simp_all
  then show ?thesis by linarith
qed

lemma rint_error:
  assumes "0 < (c :: rat)"
  shows "\<bar>x - of_int (rint (x / c)) * c\<bar> \<le> c / 2"
proof -
  have "x - of_int (rint (x / c)) * c = (x / c - of_int (rint (x / c))) * c"
    using assms by (simp add: left_diff_distrib)
  then have "\<bar>x - of_int (rint (x / c)) * c\<bar> = \<bar>x / c - of_int (rint (x / c))\<bar> * c"
    using assms by (simp add: abs_mult)
  also have "\<dots> \<le> 1 / 2 * c" using rint_near [of "x / c"] assms by (intro mult_right_mono) auto
  finally show ?thesis by simp
qed

section \<open>Evaluation\<close>

type_synonym 'v env = "string \<Rightarrow> 'v option"
type_synonym 'v onnx_sem = "string \<Rightarrow> string \<Rightarrow> dict \<Rightarrow> 'v option list \<Rightarrow> 'v list option"

definition bind_outputs :: "string list \<Rightarrow> 'v list option \<Rightarrow> 'v env \<Rightarrow> 'v env option" where
  "bind_outputs outs r e =
     (case r of None \<Rightarrow> None | Some vs \<Rightarrow> if length vs = length outs then Some (e(outs [\<mapsto>] vs)) else None)"

definition eval_node :: "'v onnx_sem \<Rightarrow> onnx_node \<Rightarrow> 'v env \<Rightarrow> 'v env option" where
  "eval_node sem nd e =
     bind_outputs (nd_output nd) (sem (op_type nd) (nd_domain nd) (nd_attribute nd) (map e (nd_input nd))) e"

fun eval_nodes :: "'v onnx_sem \<Rightarrow> onnx_node list \<Rightarrow> 'v env \<Rightarrow> 'v env option" where
  "eval_nodes sem [] e = Some e"
| "eval_nodes sem (nd # nds) e = (case eval_node sem nd e of None \<Rightarrow> None | Some e' \<Rightarrow> eval_nodes sem nds e')"

text \<open>Initializers on top of the graph's inputs.\<close>

definition init_env :: "(nat list \<Rightarrow> rat list \<Rightarrow> 'v) \<Rightarrow> onnx_init list \<Rightarrow> 'v env \<Rightarrow> 'v env" where
  "init_env denote inits given =
     given ++ map_of (rev (map (\<lambda>t. (in_name t, denote (in_dims t) (in_vals t))) inits))"

definition eval_graph :: "'v onnx_sem \<Rightarrow> (nat list \<Rightarrow> rat list \<Rightarrow> 'v) \<Rightarrow> onnx_graph \<Rightarrow> 'v env \<Rightarrow> 'v env option" where
  "eval_graph sem denote g given = eval_nodes sem (g_node g) (init_env denote (g_initializer g) given)"

lemma eval_nodes_append:
  "eval_nodes sem (xs @ ys) e = (case eval_nodes sem xs e of None \<Rightarrow> None | Some e' \<Rightarrow> eval_nodes sem ys e')"
  by (induction xs arbitrary: e) (auto split: option.splits)

text \<open>A reference evaluation, one step per node with its position.\<close>

fun eval_steps :: "(nat \<Rightarrow> 'n \<Rightarrow> 'e \<Rightarrow> 'e option) \<Rightarrow> nat \<Rightarrow> 'n list \<Rightarrow> 'e \<Rightarrow> 'e option" where
  "eval_steps step i [] e = Some e"
| "eval_steps step i (nd # nds) e =
     (case step i nd e of None \<Rightarrow> None | Some e' \<Rightarrow> eval_steps step (Suc i) nds e')"

text \<open>\<open>concat\<close> over positions.\<close>

fun at_positions :: "(nat \<Rightarrow> 'n \<Rightarrow> 'b list) \<Rightarrow> nat \<Rightarrow> 'n list \<Rightarrow> 'b list" where
  "at_positions f i [] = []"
| "at_positions f i (nd # nds) = f i nd @ at_positions f (Suc i) nds"

text \<open>A rewriting that simulates every node simulates the graph.\<close>

lemma expansion_simulates:
  assumes "\<And>j e e' e1. j < length nodes \<Longrightarrow> R e e' \<Longrightarrow> step (i + j) (nodes ! j) e = Some e1 \<Longrightarrow>
      \<exists>e1'. eval_nodes sem (expand (i + j) (nodes ! j)) e' = Some e1' \<and> R e1 e1'"
    and "R e e'" and "eval_steps step i nodes e = Some e1"
  shows "\<exists>e1'. eval_nodes sem (at_positions expand i nodes) e' = Some e1' \<and> R e1 e1'"
  using assms
proof (induction nodes arbitrary: i e e')
  case (Cons nd nds)
  from Cons.prems(3) obtain e2 where e2: "step i nd e = Some e2" "eval_steps step (Suc i) nds e2 = Some e1"
    by (auto split: option.splits)
  from Cons.prems(1) [of 0 e e' e2] Cons.prems(2) e2(1) obtain e2' where
    e2': "eval_nodes sem (expand i nd) e' = Some e2'" "R e2 e2'" by auto
  have "\<exists>e1'. eval_nodes sem (at_positions expand (Suc i) nds) e2' = Some e1' \<and> R e1 e1'"
  proof (rule Cons.IH [OF _ e2'(2) e2(2)])
    fix j e e' e1
    assume "j < length nds" "R e e'" "step (Suc i + j) (nds ! j) e = Some e1"
    then show "\<exists>e1'. eval_nodes sem (expand (Suc i + j) (nds ! j)) e' = Some e1' \<and> R e1 e1'"
      using Cons.prems(1) [of "Suc j" e e' e1] by simp
  qed
  then show ?case using e2'(1) by (simp add: eval_nodes_append)
qed auto

lemma in_at_positions: "x \<in> set (at_positions f i nodes) \<longleftrightarrow> (\<exists>j<length nodes. x \<in> set (f (i + j) (nodes ! j)))"
proof (induction nodes arbitrary: i)
  case (Cons nd nds)
  have "(\<exists>j<length (nd # nds). x \<in> set (f (i + j) ((nd # nds) ! j))) \<longleftrightarrow>
      x \<in> set (f i nd) \<or> (\<exists>j<length nds. x \<in> set (f (Suc i + j) (nds ! j)))"
    by (auto simp: less_Suc_eq_0_disj)
  then show ?case using Cons by simp
qed simp

end
