(* ===== verification/W8A16.thy ===== *)
theory W8A16
  imports Onnx_Graph
begin

text \<open>
  \<^verbatim>\<open>engine-overlay/addon/scripts/quantize_onnx_matmul_w8a16.py\<close>: constant-weight \<^verbatim>\<open>MatMul\<close>
  nodes become \<^verbatim>\<open>W8A16LinearPlugin\<close> nodes over an INT8 weight and one scale per output.  The
  rounding of a scale to FP16 is a parameter \<open>half\<close>, a compiled pattern is the predicate of its
  search; float32 arithmetic is exact.
\<close>

section \<open>Quantization\<close>

datatype rw_error = NotTwoDim | EmptyMax | OutputIndex

definition column_amax :: "nat \<Rightarrow> nat \<Rightarrow> rat list \<Rightarrow> nat \<Rightarrow> rat" where
  "column_amax k n w j = foldr max (map (\<lambda>i. \<bar>w ! (i * n + j)\<bar>) [0..<k]) 0"

definition column_scale :: "nat \<Rightarrow> nat \<Rightarrow> rat list \<Rightarrow> nat \<Rightarrow> rat" where
  "column_scale k n w j = (let s = column_amax k n w j / 127 in if s = 0 then 1 else s)"

definition column_scales :: "nat \<Rightarrow> nat \<Rightarrow> rat list \<Rightarrow> rat list" where
  "column_scales k n w = map (column_scale k n w) [0..<n]"

definition quantized :: "nat \<Rightarrow> nat \<Rightarrow> rat list \<Rightarrow> int list" where
  "quantized k n w = map (\<lambda>m. clip8 (rint (w ! m / column_scale k n w (m mod n)))) [0..<k * n]"

text \<open>\<^verbatim>\<open>np.max\<close> over an empty axis raises unless there is no column either.\<close>

definition quantize_per_output_int8 ::
  "(rat \<Rightarrow> rat) \<Rightarrow> nat list \<Rightarrow> rat list \<Rightarrow> rw_error + int list \<times> rat list" where
  "quantize_per_output_int8 half dims w =
     (case dims of
        [k, n] \<Rightarrow> if k = 0 \<and> n \<noteq> 0 then Inl EmptyMax
                  else Inr (quantized k n w, map half (column_scales k n w))
      | _ \<Rightarrow> Inl NotTwoDim)"

section \<open>Rewriting\<close>

record w8_opts =
  include_re :: "(string \<Rightarrow> bool) option"
  exclude_re :: "(string \<Rightarrow> bool) option"
  min_elements :: int
  plugin_domain :: string
  keep_original_weights :: bool
  cast_inputs :: bool
  cast_outputs :: bool

definition node_name :: "onnx_node \<Rightarrow> nat \<Rightarrow> string" where
  "node_name nd idx =
     (if nd_name nd \<noteq> [] then nd_name nd
      else if nd_output nd \<noteq> [] then hd (nd_output nd)
      else ''matmul_'' @ str_nat idx)"

definition candidate :: "onnx_node \<Rightarrow> bool" where
  "candidate nd \<longleftrightarrow> op_type nd = ''MatMul'' \<and> length (nd_input nd) = 2"

text \<open>The weight of a candidate that is converted; \<open>None\<close> is a skip.\<close>

definition weight_of :: "w8_opts \<Rightarrow> (string \<Rightarrow> onnx_init option) \<Rightarrow> nat \<Rightarrow> onnx_node \<Rightarrow> onnx_init option" where
  "weight_of opts initializers idx nd =
     (let name = node_name nd idx in
      if (case include_re opts of None \<Rightarrow> False | Some search \<Rightarrow> \<not> search name) then None
      else if (case exclude_re opts of None \<Rightarrow> False | Some search \<Rightarrow> search name) then None
      else case initializers (nd_input nd ! 1) of
             None \<Rightarrow> None
           | Some t \<Rightarrow> (case in_dims t of
               [k, n] \<Rightarrow> if int (k * n) < min_elements opts then None else Some t
             | _ \<Rightarrow> None))"

definition converts :: "w8_opts \<Rightarrow> (string \<Rightarrow> onnx_init option) \<Rightarrow> nat \<Rightarrow> onnx_node \<Rightarrow> onnx_init option" where
  "converts opts initializers idx nd = (if candidate nd then weight_of opts initializers idx nd else None)"

definition plugin_attrs :: "nat \<Rightarrow> nat \<Rightarrow> dict" where
  "plugin_attrs k n =
     [(''gemm_n'', JInt (int n)), (''gemm_k'', JInt (int k)), (''scale_mode'', JInt 0), (''group_size'', JInt 0)]"

definition w8_name :: "onnx_node \<Rightarrow> nat \<Rightarrow> string" where
  "w8_name nd idx = safe_chars (node_name nd idx)"

definition w8_inits :: "string \<Rightarrow> nat \<Rightarrow> nat \<Rightarrow> int list \<Rightarrow> rat list \<Rightarrow> onnx_init list" where
  "w8_inits safe_name k n qweight scales =
     [\<lparr>in_name = safe_name @ ''_w8a16_qweight'', in_dims = [k, n], in_vals = map of_int qweight, in_itemsize = 1\<rparr>,
      \<lparr>in_name = safe_name @ ''_w8a16_scales'', in_dims = [n], in_vals = scales, in_itemsize = 2\<rparr>]"

definition w8_nodes :: "w8_opts \<Rightarrow> string \<Rightarrow> nat \<Rightarrow> nat \<Rightarrow> onnx_node \<Rightarrow> onnx_node list" where
  "w8_nodes opts safe_name k n nd =
     (let act = hd (nd_input nd); out = hd (nd_output nd);
          act16 = safe_name @ ''_w8a16_activation_fp16'';
          plugin_act = (if cast_inputs opts then act16 else act);
          plugin_out = (if cast_outputs opts then safe_name @ ''_w8a16_output_fp16'' else out)
      in (if cast_inputs opts
          then [make_node ''Cast'' [act] [act16] (safe_name @ ''_w8a16_cast_activation_fp16'') [(''to'', JInt FLOAT16)]]
          else [])
         @ [nd\<lparr>nd_input := [plugin_act, safe_name @ ''_w8a16_qweight'', safe_name @ ''_w8a16_scales''],
               nd_output := [plugin_out], op_type := ''W8A16LinearPlugin'', nd_domain := plugin_domain opts,
               nd_attribute := plugin_attrs k n\<rparr>]
         @ (if cast_outputs opts
            then [make_node ''Cast'' [plugin_out] [out] (safe_name @ ''_w8a16_cast_output_fp32'') [(''to'', JInt FLOAT)]]
            else []))"

record rw_state =
  rw_nodes :: "onnx_node list"
  rw_inits :: "onnx_init list"
  converted_weight_counts :: "(string \<times> nat) list"
  converted :: nat
  skipped :: nat
  converted_elements :: nat
  original_weight_bytes :: nat

definition rw_start :: rw_state where
  "rw_start = \<lparr>rw_nodes = [], rw_inits = [], converted_weight_counts = [], converted = 0, skipped = 0,
     converted_elements = 0, original_weight_bytes = 0\<rparr>"

definition count_of :: "(string \<times> nat) list \<Rightarrow> string \<Rightarrow> nat" where
  "count_of counts name = (case map_of counts name of None \<Rightarrow> 0 | Some c \<Rightarrow> c)"

definition rewrite_node ::
  "(rat \<Rightarrow> rat) \<Rightarrow> w8_opts \<Rightarrow> (string \<Rightarrow> onnx_init option) \<Rightarrow> nat \<Rightarrow> onnx_node \<Rightarrow> rw_state
     \<Rightarrow> rw_error + rw_state" where
  "rewrite_node half opts initializers idx nd st =
     (case converts opts initializers idx nd of
        None \<Rightarrow> Inr (st\<lparr>rw_nodes := rw_nodes st @ [nd],
                        skipped := skipped st + (if candidate nd then 1 else 0)\<rparr>)
      | Some t \<Rightarrow>
          let k = in_dims t ! 0; n = in_dims t ! 1; elements = k * n; weight_name = nd_input nd ! 1 in
          res_bind (quantize_per_output_int8 half (in_dims t) (in_vals t)) (\<lambda>(qweight, scales).
            if nd_output nd = [] then Inl OutputIndex
            else Inr \<lparr>rw_nodes = rw_nodes st @ w8_nodes opts (w8_name nd idx) k n nd,
              rw_inits = rw_inits st @ w8_inits (w8_name nd idx) k n qweight scales,
              converted_weight_counts = AList.update weight_name
                (count_of (converted_weight_counts st) weight_name + 1) (converted_weight_counts st),
              converted = converted st + 1, skipped = skipped st,
              converted_elements = converted_elements st + elements,
              original_weight_bytes = original_weight_bytes st + elements * in_itemsize t\<rparr>))"

fun rewrite_loop ::
  "(rat \<Rightarrow> rat) \<Rightarrow> w8_opts \<Rightarrow> (string \<Rightarrow> onnx_init option) \<Rightarrow> nat \<Rightarrow> onnx_node list \<Rightarrow> rw_state
     \<Rightarrow> rw_error + rw_state" where
  "rewrite_loop half opts initializers idx [] st = Inr st"
| "rewrite_loop half opts initializers idx (nd # nds) st =
     res_bind (rewrite_node half opts initializers idx nd st)
       (rewrite_loop half opts initializers (Suc idx) nds)"

definition removable :: "onnx_node list \<Rightarrow> onnx_init list \<Rightarrow> (string \<times> nat) list \<Rightarrow> string \<Rightarrow> bool" where
  "removable nodes inits counts name \<longleftrightarrow>
     map_of counts name \<noteq> None \<and>
     count_of counts name \<ge> (if name \<in> in_name ` set inits then use_count nodes name else 0)"

record w8_summary =
  converted_matmuls :: nat
  skipped_matmuls :: nat
  converted_weight_elements :: nat
  sm_original_weight_bytes :: nat
  fp16_weight_bytes :: nat
  int8_weight_bytes :: nat
  per_output_scale_bytes :: nat
  estimated_weight_savings_bytes :: int

definition w8_rewrite_model ::
  "(rat \<Rightarrow> rat) \<Rightarrow> w8_opts \<Rightarrow> onnx_model \<Rightarrow> rw_error + onnx_model \<times> w8_summary" where
  "w8_rewrite_model half opts model =
     (let g = m_graph model; initializers = initializer_map (g_initializer g) in
      res_bind (rewrite_loop half opts initializers 0 (g_node g) rw_start) (\<lambda>st.
        let counts = converted_weight_counts st;
            kept = (if \<not> keep_original_weights opts \<and> counts \<noteq> []
                    then filter (\<lambda>t. \<not> removable (g_node g) (g_initializer g) counts (in_name t)) (g_initializer g)
                    else g_initializer g)
        in Inr (\<lparr>m_graph = \<lparr>g_node = rw_nodes st, g_initializer = kept @ rw_inits st\<rparr>,
                 opset_import = (if plugin_domain opts \<noteq> [] then ensure_opset (plugin_domain opts) 1 (opset_import model)
                                 else opset_import model)\<rparr>,
                \<lparr>converted_matmuls = converted st, skipped_matmuls = skipped st,
                 converted_weight_elements = converted_elements st,
                 sm_original_weight_bytes = original_weight_bytes st,
                 fp16_weight_bytes = converted_elements st * 2, int8_weight_bytes = converted_elements st,
                 per_output_scale_bytes = converted st * 0,
                 estimated_weight_savings_bytes = int (converted_elements st)\<rparr>)))"

text \<open>The final summary of \<^verbatim>\<open>main\<close>.\<close>

definition scale_elements :: "onnx_init list \<Rightarrow> nat" where
  "scale_elements inits =
     sum_list (map (prod_list \<circ> in_dims) (filter (\<lambda>t. suffix ''_w8a16_scales'' (in_name t)) inits))"

definition w8_main ::
  "(rat \<Rightarrow> rat) \<Rightarrow> w8_opts \<Rightarrow> onnx_model \<Rightarrow> rw_error + onnx_model \<times> w8_summary" where
  "w8_main half opts model =
     res_bind (w8_rewrite_model half opts model) (\<lambda>(model, summary).
       let scale_bytes = scale_elements (g_initializer (m_graph model)) * 2 in
       Inr (model, summary\<lparr>per_output_scale_bytes := scale_bytes,
         estimated_weight_savings_bytes :=
           int (sm_original_weight_bytes summary) - int (int8_weight_bytes summary + scale_bytes)\<rparr>))"

end
