(* ===== verification/Awq.thy ===== *)
theory Awq
  imports W8A16_Props
begin

text \<open>
  \<^verbatim>\<open>engine-overlay/addon/scripts/quantize_onnx_matmul_w8a16_awq.py\<close>: the first MatMul nodes, in
  graph order, are assigned to the layer and operator slots of a calibrated checkpoint and
  rewritten to a multiplication by the inverse smoothing scale followed by the W8A16 plugin.  The
  checkpoint is a dictionary of arrays; arithmetic is exact, the rounding to FP16 is \<open>half\<close>, and
  a division by a zero smoothing scale is not modelled.
\<close>

section \<open>Calibration data\<close>

record ndarray =
  a_shape :: "nat list"
  a_vals :: "rat list"

datatype awq_error =
    MissingQuant nat string
  | WeightNotTwoDim
  | PqsShape
  | ZeroDivide
  | AmaxSize
  | GroupSize
  | TooFewMatMuls nat nat
  | ArrayIndex
  | SlotMismatch nat
  | EmptyMin

definition LAYER_OP_ORDER :: "string list" where
  "LAYER_OP_ORDER = [''q_proj'', ''k_proj'', ''v_proj'', ''o_proj'', ''gate_proj'', ''up_proj'', ''down_proj'']"

definition OPS_PER_LAYER :: nat where
  "OPS_PER_LAYER = length LAYER_OP_ORDER"

type_synonym slot_quant = "ndarray \<times> ndarray \<times> ndarray"

definition slot_prefix :: "nat \<Rightarrow> string \<Rightarrow> string" where
  "slot_prefix li slot =
     (if slot \<in> {''q_proj'', ''k_proj'', ''v_proj'', ''o_proj''}
      then ''model.layers.'' @ str_nat li @ ''.self_attn.'' @ slot
      else ''model.layers.'' @ str_nat li @ ''.mlp.'' @ slot)"

definition slot_quant_of :: "(string \<Rightarrow> ndarray option) \<Rightarrow> nat \<Rightarrow> string \<Rightarrow> awq_error + slot_quant" where
  "slot_quant_of state li slot =
     (let pre = slot_prefix li slot in
      case (state (pre @ ''.weight''), state (pre @ ''.weight_quantizer._amax''),
            state (pre @ ''.input_quantizer._pre_quant_scale'')) of
        (Some w, Some amax, Some pqs) \<Rightarrow> Inr (w, amax, pqs)
      | _ \<Rightarrow> Inl (MissingQuant li slot))"

fun map_res :: "('a \<Rightarrow> 'e + 'b) \<Rightarrow> 'a list \<Rightarrow> 'e + 'b list" where
  "map_res f [] = Inr []"
| "map_res f (x # xs) = res_bind (f x) (\<lambda>y. res_bind (map_res f xs) (\<lambda>ys. Inr (y # ys)))"

text \<open>A layer's dictionary, by the position of the operator in \<open>LAYER_OP_ORDER\<close>.\<close>

definition collect_layer_quant ::
  "(string \<Rightarrow> ndarray option) \<Rightarrow> nat \<Rightarrow> awq_error + slot_quant list list" where
  "collect_layer_quant state num_layers =
     map_res (\<lambda>li. map_res (slot_quant_of state li) LAYER_OP_ORDER) [0..<num_layers]"

section \<open>Quantization\<close>

definition output_amax :: "nat \<Rightarrow> rat list \<Rightarrow> nat \<Rightarrow> rat" where
  "output_amax groups amax out =
     (let row = take groups (drop (out * groups) amax) in foldr max (tl row) (hd row))"

definition output_scale :: "nat \<Rightarrow> rat list \<Rightarrow> nat \<Rightarrow> rat" where
  "output_scale groups amax out = (let s = output_amax groups amax out / 127 in if s > 0 then s else 1)"

text \<open>The smoothed weight is \<^verbatim>\<open>[N, K]\<close>, the quantized one \<^verbatim>\<open>[K, N]\<close>.\<close>

definition smoothed :: "nat \<Rightarrow> rat list \<Rightarrow> rat list \<Rightarrow> nat \<Rightarrow> nat \<Rightarrow> rat" where
  "smoothed in_dim w pqs out i = w ! (out * in_dim + i) * pqs ! i"

definition awq_quantized :: "nat \<Rightarrow> nat \<Rightarrow> nat \<Rightarrow> rat list \<Rightarrow> rat list \<Rightarrow> rat list \<Rightarrow> int list" where
  "awq_quantized out_dim in_dim groups w amax pqs =
     map (\<lambda>m. let i = m div out_dim; out = m mod out_dim
              in clip8 (rint (smoothed in_dim w pqs out i / output_scale groups amax out)))
       [0..<in_dim * out_dim]"

definition awq_scales :: "nat \<Rightarrow> nat \<Rightarrow> rat list \<Rightarrow> rat list" where
  "awq_scales out_dim groups amax = map (output_scale groups amax) [0..<out_dim]"

definition compute_per_output_int8 ::
  "(rat \<Rightarrow> rat) \<Rightarrow> slot_quant \<Rightarrow> awq_error + int list \<times> rat list" where
  "compute_per_output_int8 half = (\<lambda>(w, amax, pqs).
     case a_shape w of
       [out_dim, in_dim] \<Rightarrow>
         let size = length (a_vals amax); groups = size div out_dim in
         if a_shape pqs \<noteq> [in_dim] then Inl PqsShape
         else if out_dim = 0 then Inl ZeroDivide
         else if size mod out_dim \<noteq> 0 then Inl AmaxSize
         else if groups = 0 then Inl ZeroDivide
         else if in_dim mod groups \<noteq> 0 then Inl GroupSize
         else Inr (awq_quantized out_dim in_dim groups (a_vals w) (a_vals amax) (a_vals pqs),
                   map half (awq_scales out_dim groups (a_vals amax)))
     | _ \<Rightarrow> Inl WeightNotTwoDim)"

section \<open>Slots\<close>

definition matmul_nodes :: "onnx_node list \<Rightarrow> onnx_node list" where
  "matmul_nodes nodes = filter (\<lambda>nd. op_type nd = ''MatMul'') nodes"

definition quant_at :: "slot_quant list list \<Rightarrow> nat \<Rightarrow> slot_quant" where
  "quant_at layer_quant pos = layer_quant ! (pos div OPS_PER_LAYER) ! (pos mod OPS_PER_LAYER)"

definition expected_shape :: "slot_quant \<Rightarrow> awq_error + nat list" where
  "expected_shape q =
     (case a_shape (fst q) of n # k # rest \<Rightarrow> Inr [k, n] | _ \<Rightarrow> Inl ArrayIndex)"

definition slot_mismatch :: "(string \<Rightarrow> onnx_init option) \<Rightarrow> onnx_node \<Rightarrow> nat list \<Rightarrow> awq_error + bool" where
  "slot_mismatch initializers mm shape =
     (if length (nd_input mm) < 2 then Inl ArrayIndex
      else Inr (case initializers (nd_input mm ! 1) of None \<Rightarrow> True | Some t \<Rightarrow> in_dims t \<noteq> shape))"

definition check_slots ::
  "(string \<Rightarrow> onnx_init option) \<Rightarrow> slot_quant list list \<Rightarrow> onnx_node list \<Rightarrow> awq_error + unit" where
  "check_slots initializers layer_quant nodes =
     (let mms = matmul_nodes nodes; quant_mm = length layer_quant * OPS_PER_LAYER in
      if length mms < quant_mm then Inl (TooFewMatMuls (length mms) quant_mm)
      else res_bind (map_res expected_shape (concat layer_quant)) (\<lambda>shapes.
           res_bind (map_res (\<lambda>(mm, shape). slot_mismatch initializers mm shape) (zip (take quant_mm mms) shapes)) (\<lambda>bad.
             if \<exists>b\<in>set bad. b then Inl (SlotMismatch (length (filter (\<lambda>b. b) bad))) else Inr ())))"

section \<open>Rewriting\<close>

record awq_opts =
  awq_domain :: string
  awq_cast_inputs :: bool
  awq_cast_outputs :: bool

definition lstrip_underscore :: "string \<Rightarrow> string" where
  "lstrip_underscore s = dropWhile (\<lambda>c. c = CHR ''_'') s"

definition awq_name :: "onnx_node \<Rightarrow> nat \<Rightarrow> string" where
  "awq_name nd pos =
     lstrip_underscore (safe_chars
       (if nd_name nd \<noteq> [] then nd_name nd
        else if hd (nd_output nd) \<noteq> [] then hd (nd_output nd) else ''mm_'' @ str_nat pos))"

definition awq_inits :: "(rat \<Rightarrow> rat) \<Rightarrow> string \<Rightarrow> nat \<Rightarrow> nat \<Rightarrow> int list \<Rightarrow> rat list \<Rightarrow> rat list \<Rightarrow> onnx_init list" where
  "awq_inits half safe_name k n qweight scales pqs =
     [\<lparr>in_name = safe_name @ ''_w8a16_qweight'', in_dims = [k, n], in_vals = map of_int qweight, in_itemsize = 1\<rparr>,
      \<lparr>in_name = safe_name @ ''_w8a16_scales'', in_dims = [n], in_vals = scales, in_itemsize = 2\<rparr>,
      \<lparr>in_name = safe_name @ ''_w8a16_inv_pqs'', in_dims = [k], in_vals = map (\<lambda>p. half (1 / p)) pqs, in_itemsize = 2\<rparr>]"

definition awq_nodes :: "awq_opts \<Rightarrow> string \<Rightarrow> nat \<Rightarrow> nat \<Rightarrow> onnx_node \<Rightarrow> onnx_node list" where
  "awq_nodes opts safe_name k n nd =
     (let act = hd (nd_input nd); out = hd (nd_output nd);
          smooth = safe_name @ ''_w8a16_smoothed_act''; act16 = safe_name @ ''_w8a16_act_fp16'';
          plugin_act = (if awq_cast_inputs opts then act16 else smooth);
          plugin_out = (if awq_cast_outputs opts then safe_name @ ''_w8a16_out_fp16'' else out)
      in [make_node ''Mul'' [act, safe_name @ ''_w8a16_inv_pqs''] [smooth] (safe_name @ ''_w8a16_pqs_mul'') []]
         @ (if awq_cast_inputs opts
            then [make_node ''Cast'' [smooth] [act16] (safe_name @ ''_w8a16_cast_act_fp16'') [(''to'', JInt FLOAT16)]]
            else [])
         @ [nd\<lparr>nd_input := [plugin_act, safe_name @ ''_w8a16_qweight'', safe_name @ ''_w8a16_scales''],
               nd_output := [plugin_out], op_type := ''W8A16LinearPlugin'', nd_domain := awq_domain opts,
               nd_attribute := plugin_attrs k n\<rparr>]
         @ (if awq_cast_outputs opts
            then [make_node ''Cast'' [plugin_out] [out] (safe_name @ ''_w8a16_cast_out_fp32'') [(''to'', JInt FLOAT)]]
            else []))"

record awq_state =
  aw_nodes :: "onnx_node list"
  aw_inits :: "onnx_init list"
  aw_weights :: "string set"
  aw_converted :: nat
  aw_skipped :: nat

definition aw_start :: awq_state where
  "aw_start = \<lparr>aw_nodes = [], aw_inits = [], aw_weights = {}, aw_converted = 0, aw_skipped = 0\<rparr>"

definition convert_slot ::
  "(rat \<Rightarrow> rat) \<Rightarrow> awq_opts \<Rightarrow> slot_quant \<Rightarrow> nat \<Rightarrow> onnx_node \<Rightarrow> awq_state \<Rightarrow> awq_error + awq_state" where
  "convert_slot half opts q pos nd st =
     (if length (nd_input nd) < 2 then Inl ArrayIndex
      else res_bind (compute_per_output_int8 half q) (\<lambda>(qweight, scales).
        let n = a_shape (fst q) ! 0; k = a_shape (fst q) ! 1; safe_name = awq_name nd pos in
        if nd_output nd = [] then Inl ArrayIndex
        else if qweight = [] then Inl EmptyMin
        else Inr \<lparr>aw_nodes = aw_nodes st @ awq_nodes opts safe_name k n nd,
          aw_inits = aw_inits st @ awq_inits half safe_name k n qweight scales (a_vals (snd (snd q))),
          aw_weights = insert (nd_input nd ! 1) (aw_weights st),
          aw_converted = aw_converted st + 1, aw_skipped = aw_skipped st\<rparr>))"

fun awq_loop ::
  "(rat \<Rightarrow> rat) \<Rightarrow> awq_opts \<Rightarrow> slot_quant list list \<Rightarrow> nat \<Rightarrow> onnx_node list \<Rightarrow> awq_state \<Rightarrow> awq_error + awq_state" where
  "awq_loop half opts layer_quant mm_seen [] st = Inr st"
| "awq_loop half opts layer_quant mm_seen (nd # nds) st =
     (if op_type nd \<noteq> ''MatMul''
      then awq_loop half opts layer_quant mm_seen nds (st\<lparr>aw_nodes := aw_nodes st @ [nd]\<rparr>)
      else if mm_seen \<ge> length layer_quant * OPS_PER_LAYER
      then awq_loop half opts layer_quant (Suc mm_seen) nds
             (st\<lparr>aw_nodes := aw_nodes st @ [nd], aw_skipped := aw_skipped st + 1\<rparr>)
      else res_bind (convert_slot half opts (quant_at layer_quant mm_seen) mm_seen nd st)
             (awq_loop half opts layer_quant (Suc mm_seen) nds))"

record awq_summary =
  matmul_total :: nat
  matmul_converted :: nat
  matmul_skipped :: nat
  int8_weight_elements :: nat
  fp16_scale_elements :: nat

definition elements_named :: "string \<Rightarrow> onnx_init list \<Rightarrow> nat" where
  "elements_named suf inits = sum_list (map (prod_list \<circ> in_dims) (filter (\<lambda>t. suffix suf (in_name t)) inits))"

definition awq_rewrite_model ::
  "(rat \<Rightarrow> rat) \<Rightarrow> awq_opts \<Rightarrow> slot_quant list list \<Rightarrow> onnx_model \<Rightarrow> awq_error + onnx_model \<times> awq_summary" where
  "awq_rewrite_model half opts layer_quant model =
     (let g = m_graph model; initializers = initializer_map (g_initializer g) in
      res_bind (check_slots initializers layer_quant (g_node g)) (\<lambda>_.
      res_bind (awq_loop half opts layer_quant 0 (g_node g) aw_start) (\<lambda>st.
        let referenced = (\<Union>nd\<in>set (aw_nodes st). set (nd_input nd));
            kept = filter (\<lambda>t. in_name t \<notin> aw_weights st \<or> in_name t \<in> referenced) (g_initializer g)
        in Inr (\<lparr>m_graph = \<lparr>g_node = aw_nodes st, g_initializer = kept @ aw_inits st\<rparr>,
                 opset_import = ensure_opset (awq_domain opts) 1 (opset_import model)\<rparr>,
                \<lparr>matmul_total = length (matmul_nodes (g_node g)), matmul_converted = aw_converted st,
                 matmul_skipped = aw_skipped st,
                 int8_weight_elements = elements_named ''_w8a16_qweight'' (aw_inits st),
                 fp16_scale_elements = elements_named ''_w8a16_scales'' (aw_inits st)\<rparr>))))"

definition awq_main ::
  "(rat \<Rightarrow> rat) \<Rightarrow> awq_opts \<Rightarrow> (string \<Rightarrow> ndarray option) \<Rightarrow> nat \<Rightarrow> onnx_model
     \<Rightarrow> awq_error + onnx_model \<times> awq_summary" where
  "awq_main half opts state num_layers model =
     res_bind (collect_layer_quant state num_layers) (\<lambda>layer_quant.
       awq_rewrite_model half opts layer_quant model)"

end
