(* ===== verification/Awq_Props.thy ===== *)
theory Awq_Props
  imports Awq
begin

text \<open>
  The AWQ rewriting: which MatMul gets which slot, that the rewritten graph computes the smoothed
  and dequantized product, and how far a calibrated weight can be from its INT8 value.
\<close>

section \<open>Nodes with their slots\<close>

fun annotate :: "nat \<Rightarrow> nat \<Rightarrow> onnx_node list \<Rightarrow> (onnx_node \<times> nat option) list" where
  "annotate quant_mm pos [] = []"
| "annotate quant_mm pos (nd # nds) =
     (if op_type nd \<noteq> ''MatMul'' then (nd, None) # annotate quant_mm pos nds
      else (nd, if pos \<ge> quant_mm then None else Some pos) # annotate quant_mm (Suc pos) nds)"

lemma fst_annotate: "map fst (annotate m pos nodes) = nodes"
  by (induction nodes arbitrary: pos) auto

definition slots :: "slot_quant list list \<Rightarrow> onnx_graph \<Rightarrow> (onnx_node \<times> nat option) list" where
  "slots layer_quant g = annotate (length layer_quant * OPS_PER_LAYER) 0 (g_node g)"

definition dims_of :: "slot_quant \<Rightarrow> nat \<times> nat" where
  "dims_of q = (a_shape (fst q) ! 1, a_shape (fst q) ! 0)"

definition quantized_of :: "(rat \<Rightarrow> rat) \<Rightarrow> slot_quant \<Rightarrow> int list \<times> rat list" where
  "quantized_of half q = (case compute_per_output_int8 half q of Inl e \<Rightarrow> ([], []) | Inr r \<Rightarrow> r)"

definition awq_expand ::
  "awq_opts \<Rightarrow> slot_quant list list \<Rightarrow> nat \<Rightarrow> onnx_node \<times> nat option \<Rightarrow> onnx_node list" where
  "awq_expand opts lq = (\<lambda>_ (nd, slot).
     case slot of
       None \<Rightarrow> [nd]
     | Some pos \<Rightarrow> (case dims_of (quant_at lq pos) of (k, n) \<Rightarrow> awq_nodes opts (awq_name nd pos) k n nd))"

definition awq_new ::
  "(rat \<Rightarrow> rat) \<Rightarrow> slot_quant list list \<Rightarrow> nat \<Rightarrow> onnx_node \<times> nat option \<Rightarrow> onnx_init list" where
  "awq_new half lq = (\<lambda>_ (nd, slot).
     case slot of
       None \<Rightarrow> []
     | Some pos \<Rightarrow> (case dims_of (quant_at lq pos) of (k, n) \<Rightarrow>
         awq_inits half (awq_name nd pos) k n (fst (quantized_of half (quant_at lq pos)))
           (snd (quantized_of half (quant_at lq pos))) (a_vals (snd (snd (quant_at lq pos))))))"

definition awq_safe :: "nat \<Rightarrow> onnx_node \<times> nat option \<Rightarrow> string list" where
  "awq_safe = (\<lambda>_ (nd, slot). case slot of None \<Rightarrow> [] | Some pos \<Rightarrow> [awq_name nd pos])"

lemma convert_slot_Inr:
  assumes "convert_slot half opts (quant_at lq pos) pos nd st = Inr st'"
  shows "aw_nodes st' = aw_nodes st @ awq_expand opts lq i (nd, Some pos)
    \<and> aw_inits st' = aw_inits st @ awq_new half lq i (nd, Some pos)
    \<and> nd_output nd \<noteq> [] \<and> 2 \<le> length (nd_input nd)
    \<and> compute_per_output_int8 half (quant_at lq pos) = Inr (quantized_of half (quant_at lq pos))"
  using assms
  by (auto simp: convert_slot_def awq_expand_def awq_new_def dims_of_def quantized_of_def Let_def split: if_splits)

lemma awq_loop_Inr:
  assumes "awq_loop half opts lq pos nodes st = Inr st'"
  shows "aw_nodes st' = aw_nodes st @ at_positions (awq_expand opts lq) i (annotate (length lq * OPS_PER_LAYER) pos nodes)
    \<and> aw_inits st' = aw_inits st @ at_positions (awq_new half lq) i (annotate (length lq * OPS_PER_LAYER) pos nodes)
    \<and> (\<forall>(nd, slot)\<in>set (annotate (length lq * OPS_PER_LAYER) pos nodes). \<forall>p. slot = Some p \<longrightarrow>
         op_type nd = ''MatMul'' \<and> nd_output nd \<noteq> [] \<and> 2 \<le> length (nd_input nd)
         \<and> compute_per_output_int8 half (quant_at lq p) = Inr (quantized_of half (quant_at lq p)))"
  using assms
proof (induction nodes arbitrary: pos st i)
  case (Cons nd nds)
  consider "op_type nd \<noteq> ''MatMul''" | "op_type nd = ''MatMul''" "pos \<ge> length lq * OPS_PER_LAYER"
    | "op_type nd = ''MatMul''" "pos < length lq * OPS_PER_LAYER" by linarith
  then show ?case
  proof cases
    case 1
    then show ?thesis using Cons.prems Cons.IH [of pos _ "Suc i"] by (fastforce simp: awq_expand_def awq_new_def)
  next
    case 2
    then show ?thesis using Cons.prems Cons.IH [of "Suc pos" _ "Suc i"] by (fastforce simp: awq_expand_def awq_new_def)
  next
    case 3
    then obtain st1 where 1: "convert_slot half opts (quant_at lq pos) pos nd st = Inr st1"
      "awq_loop half opts lq (Suc pos) nds st1 = Inr st'"
      using Cons.prems by auto
    show ?thesis using convert_slot_Inr [OF 1(1), of i] Cons.IH [OF 1(2), of "Suc i"] 3 by auto
  qed
qed simp

lemma compute_Inr:
  assumes "compute_per_output_int8 half q = Inr (qs, ss)"
  shows "\<exists>n k groups. a_shape (fst q) = [n, k] \<and> a_shape (snd (snd q)) = [k] \<and> 0 < n \<and> 0 < groups
    \<and> length (a_vals (fst (snd q))) = n * groups
    \<and> qs = awq_quantized n k groups (a_vals (fst q)) (a_vals (fst (snd q))) (a_vals (snd (snd q)))
    \<and> ss = map half (awq_scales n groups (a_vals (fst (snd q))))"
proof -
  obtain w amax pqs where q: "q = (w, amax, pqs)" by (cases q)
  from assms obtain n k where s: "a_shape w = [n, k]"
    by (auto simp: compute_per_output_int8_def q split: list.splits)
  from assms s have "a_shape pqs = [k]" "0 < n" "length (a_vals amax) mod n = 0" "0 < length (a_vals amax) div n"
    "qs = awq_quantized n k (length (a_vals amax) div n) (a_vals w) (a_vals amax) (a_vals pqs)"
    "ss = map half (awq_scales n (length (a_vals amax) div n) (a_vals amax))"
    by (auto simp: compute_per_output_int8_def q Let_def split: if_splits)
  then show ?thesis using s by (intro exI [of _ n] exI [of _ k] exI [of _ "length (a_vals amax) div n"]) (auto simp: q)
qed


section \<open>Quantization error\<close>

lemma foldr_max_hd: "x \<in> set (y # ys) \<Longrightarrow> x \<le> foldr max ys (y :: rat)"
proof -
  have "y \<le> foldr max ys y" by (induction ys) (auto simp: le_max_iff_disj)
  moreover have "x \<in> set ys \<Longrightarrow> x \<le> foldr max ys y" by (induction ys) (auto simp: le_max_iff_disj)
  moreover assume "x \<in> set (y # ys)"
  ultimately show ?thesis by auto
qed

lemma block_le_output_amax:
  assumes "b < groups" and "length amax = n * groups" and "out < n"
  shows "amax ! (out * groups + b) \<le> output_amax groups amax out"
proof -
  let ?row = "take groups (drop (out * groups) amax)"
  have "out * groups + groups \<le> n * groups" using assms(3) by (metis add.commute mult_Suc mult_le_mono1 Suc_leI)
  then have l: "length ?row = groups" using assms(2) by simp
  then have "?row ! b \<in> set ?row" using assms(1) by (intro nth_mem) simp
  moreover have "?row ! b = amax ! (out * groups + b)" using assms(1) l by simp
  moreover obtain y ys where "?row = y # ys" using l assms(1) by (cases ?row) auto
  ultimately show ?thesis using foldr_max_hd [of "amax ! (out * groups + b)" y ys] by (simp add: output_amax_def)
qed

lemma output_scale_pos: "0 < output_scale groups amax out"
  by (simp add: output_scale_def Let_def)

lemma awq_entry:
  assumes "out < n" and "i < k"
  shows "awq_quantized n k groups w amax pqs ! (i * n + out)
    = clip8 (rint (smoothed k w pqs out i / output_scale groups amax out))"
proof -
  have "i * n + out < Suc i * n" using assms(1) by simp
  also have "\<dots> \<le> k * n" using assms(2) by (intro mult_right_mono) auto
  finally show ?thesis using assms(1) by (simp add: awq_quantized_def Let_def)
qed

lemma scaled_bound:
  assumes "\<bar>x\<bar> \<le> a" and "a \<le> output_amax groups amax out"
  shows "\<bar>rint (x / output_scale groups amax out)\<bar> \<le> 127"
proof -
  let ?c = "output_scale groups amax out"
  have "\<bar>x\<bar> \<le> 127 * ?c" using assms by (auto simp: output_scale_def Let_def)
  then have "\<bar>x / ?c\<bar> \<le> of_int 127"
    using output_scale_pos [of groups amax out] by (simp add: abs_divide divide_le_eq)
  then show ?thesis by (rule rint_bound)
qed

section \<open>Meaning\<close>

definition awq_ref ::
  "'v onnx_sem \<Rightarrow> (nat list \<Rightarrow> rat list \<Rightarrow> 'v) \<Rightarrow> (rat \<Rightarrow> rat) \<Rightarrow> slot_quant list list
     \<Rightarrow> nat \<Rightarrow> onnx_node \<times> nat option \<Rightarrow> 'v env \<Rightarrow> 'v env option" where
  "awq_ref sem denote half lq = (\<lambda>_ (nd, slot) e.
     case slot of
       None \<Rightarrow> eval_node sem nd e
     | Some pos \<Rightarrow>
         let q = quant_at lq pos; k = fst (dims_of q); n = snd (dims_of q) in
         (case sem ''Mul'' [] [] [e (hd (nd_input nd)), Some (denote [k] (map (\<lambda>p. half (1 / p)) (a_vals (snd (snd q)))))] of
            Some [y] \<Rightarrow> bind_outputs (nd_output nd) (sem ''MatMul'' (nd_domain nd) (nd_attribute nd)
              [Some y, Some (denote [k, n] (dequant k n (fst (quantized_of half q)) (snd (quantized_of half q))))]) e
          | _ \<Rightarrow> None))"

definition awq_suffixes :: "string list" where
  "awq_suffixes = [''_w8a16_qweight'', ''_w8a16_scales'', ''_w8a16_inv_pqs'', ''_w8a16_smoothed_act'',
     ''_w8a16_act_fp16'', ''_w8a16_out_fp16'']"

definition awq_names :: "slot_quant list list \<Rightarrow> onnx_graph \<Rightarrow> string list" where
  "awq_names lq g = at_positions awq_safe 0 (slots lq g)"

definition awq_generated :: "string list \<Rightarrow> string set" where
  "awq_generated safe = {s @ x | s x. s \<in> set safe \<and> x \<in> set awq_suffixes}"

definition awq_fresh :: "slot_quant list list \<Rightarrow> onnx_graph \<Rightarrow> 'v env \<Rightarrow> bool" where
  "awq_fresh lq g given \<longleftrightarrow> distinct (awq_names lq g) \<and> awq_generated (awq_names lq g) \<inter> used_names g given = {}"

lemma awq_suffix_inject:
  assumes "s @ x = t @ y" and "x \<in> set awq_suffixes" and "y \<in> set awq_suffixes"
  shows "s = t \<and> x = y"
proof -
  have "rev x @ rev s = rev y @ rev t" using assms(1) by (metis rev_append)
  then have "x = y" using assms(2,3) by (auto simp: awq_suffixes_def)
  then show ?thesis using assms(1) by simp
qed

lemma awq_nodes_agree:
  fixes denote :: "nat list \<Rightarrow> rat list \<Rightarrow> 'v"
  assumes sem: "w8_sem sem denote (awq_domain opts)" and ag: "agrees rm gen cnst e e'"
    and io: "hd (nd_input nd) = act" "act \<notin> rm \<union> gen" "set (nd_output nd) \<inter> fst ` cnst = {}"
    and c: "(safe @ ''_w8a16_qweight'', denote [k, n] (map of_int q)) \<in> cnst"
      "(safe @ ''_w8a16_scales'', denote [n] s) \<in> cnst" "(safe @ ''_w8a16_inv_pqs'', p) \<in> cnst"
      "length q = k * n" "length s = n"
    and tmp: "{safe @ ''_w8a16_smoothed_act'', safe @ ''_w8a16_act_fp16'', safe @ ''_w8a16_out_fp16''} \<subseteq> gen - fst ` cnst"
    and mul: "sem ''Mul'' [] [] [e act, Some p] = Some [y]"
    and ref: "bind_outputs (nd_output nd) (sem ''MatMul'' (nd_domain nd) (nd_attribute nd)
        [Some y, Some (denote [k, n] (dequant k n q s))]) e = Some e1"
  shows "\<exists>e1'. eval_nodes sem (awq_nodes opts safe k n nd) e' = Some e1' \<and> agrees rm gen cnst e1 e1'"
proof -
  let ?sm = "safe @ ''_w8a16_smoothed_act''" and ?a16 = "safe @ ''_w8a16_act_fp16''" and ?o16 = "safe @ ''_w8a16_out_fp16''"
  let ?qn = "safe @ ''_w8a16_qweight''" and ?sn = "safe @ ''_w8a16_scales''" and ?pn = "safe @ ''_w8a16_inv_pqs''"
  from ref obtain vs where vs: "sem ''MatMul'' (nd_domain nd) (nd_attribute nd)
      [Some y, Some (denote [k, n] (dequant k n q s))] = Some vs" "length vs = length (nd_output nd)"
      "e1 = e(nd_output nd [\<mapsto>] vs)"
    by (auto simp: bind_outputs_def split: option.splits if_splits)
  have "length vs = 1" using w8_semD(3) [OF sem vs(1)] .
  then obtain v out where v: "vs = [v]" "nd_output nd = [out]" "e1 = e(out \<mapsto> v)"
    using vs(2,3) by (auto simp: length_Suc_conv)
  have plug: "sem ''W8A16LinearPlugin'' (awq_domain opts) (plugin_attrs k n)
      [Some y, Some (denote [k, n] (map of_int q)), Some (denote [n] s)] = Some [v]"
    using w8_semD(1) [OF sem c(4,5)] vs(1) v(1) by simp
  have cast: "sem ''Cast'' [] [(''to'', JInt FLOAT)] [Some z] = Some [z]"
    "sem ''Cast'' [] [(''to'', JInt FLOAT16)] [Some z] = Some [z]" for z
    using w8_semD(4) [OF sem] by auto
  have cs: "agrees rm gen cnst e e2 \<Longrightarrow> e2 act = e act \<and> e2 ?qn = Some (denote [k, n] (map of_int q))
      \<and> e2 ?sn = Some (denote [n] s) \<and> e2 ?pn = Some p" for e2
    using io(2) c(1,2,3) by (auto simp: agrees_def)
  define es where "es = e'(?sm \<mapsto> y)"
  have es: "agrees rm gen cnst e es" using ag tmp by (auto simp: es_def intro: agrees_temp)
  define ea where "ea = (if awq_cast_inputs opts then es(?a16 \<mapsto> y) else es)"
  have ea: "agrees rm gen cnst e ea" using es tmp by (auto simp: ea_def intro: agrees_temp)
  define eb where "eb = (if awq_cast_outputs opts then ea(?o16 \<mapsto> v) else ea)"
  have eb: "agrees rm gen cnst e eb" using ea tmp by (auto simp: eb_def intro: agrees_temp)
  have "eval_nodes sem (awq_nodes opts safe k n nd) e' = Some (eb(out \<mapsto> v))"
    using cs [OF ag] cs [OF ea] plug v(2) mul
    by (simp add: awq_nodes_def Let_def eval_node_def make_node_def bind_outputs_def io(1) cast es_def ea_def eb_def)
  moreover have "agrees rm gen cnst e1 (eb(out \<mapsto> v))"
    using agrees_outputs [OF eb, of "[v]" "[out]"] io(3) v(2,3) by simp
  ultimately show ?thesis by blast
qed

end
