(* ===== verification/W8A16_Theorems.thy ===== *)
theory W8A16_Theorems
  imports W8A16_Props
begin

text \<open>
  The properties of the W8A16 rewriter, with a small graph as an example.
\<close>

section \<open>Example\<close>

type_synonym tval = "nat list \<times> rat list"

definition eg_product :: "rat list \<Rightarrow> nat \<Rightarrow> nat \<Rightarrow> rat list \<Rightarrow> tval" where
  "eg_product x k n w = ([n], map (\<lambda>j. sum_list (map (\<lambda>i. x ! i * w ! (i * n + j)) [0..<k])) [0..<n])"

definition eg_sem :: "tval onnx_sem" where
  "eg_sem ty domain attrs xs =
     (if ty = ''MatMul'' then
        (case xs of [Some (dx, x), Some (dw, w)] \<Rightarrow> Some [eg_product x (dw ! 0) (dw ! 1) w] | _ \<Rightarrow> None)
      else if ty = ''W8A16LinearPlugin'' then
        (case xs of [Some (dx, x), Some (dw, w), Some (ds, s)] \<Rightarrow>
           Some [eg_product x (dw ! 0) (dw ! 1) (map (\<lambda>m. w ! m * s ! (m mod dw ! 1)) [0..<dw ! 0 * dw ! 1])]
         | _ \<Rightarrow> None)
      else if ty = ''Cast'' then (case xs of [Some v] \<Rightarrow> Some [v] | _ \<Rightarrow> None)
      else None)"

lemma eg_sem_ok: "w8_sem eg_sem Pair domain"
proof -
  have "map (\<lambda>m. map of_int q ! m * s ! (m mod n)) [0..<k * n] = dequant k n q s" if "length q = k * n" for k n q s
    using that by (simp add: dequant_def)
  then show ?thesis
    by (auto simp: w8_sem_def eg_sem_def split: option.splits list.splits prod.splits)
qed

definition eg_opts :: w8_opts where
  "eg_opts = \<lparr>include_re = Some (\<lambda>s. prefix ''/m'' s), exclude_re = None, min_elements = 4, plugin_domain = ''trt'',
     keep_original_weights = False, cast_inputs = True, cast_outputs = True\<rparr>"

definition eg_graph :: onnx_graph where
  "eg_graph =
     \<lparr>g_node = [make_node ''MatMul'' [''x'', ''W''] [''h''] ''/m/q'' [], make_node ''MatMul'' [''h'', ''V''] [''y''] ''head'' []],
      g_initializer = [\<lparr>in_name = ''W'', in_dims = [2, 2], in_vals = [1, -2, 3, 4], in_itemsize = 4\<rparr>,
                       \<lparr>in_name = ''V'', in_dims = [2, 1], in_vals = [5, 6], in_itemsize = 4\<rparr>]\<rparr>"

definition eg_onnx :: onnx_model where
  "eg_onnx = \<lparr>m_graph = eg_graph, opset_import = [([], 17)]\<rparr>"

definition eg_given :: "tval env" where
  "eg_given = [''x'' \<mapsto> ([2], [1, 10])]"

lemma eg_safe: "safe_names eg_opts eg_graph = [''_m_q'']"
  by code_simp

lemma eg_fresh: "w8_fresh eg_opts eg_graph eg_given"
  unfolding w8_fresh_def eg_safe
  by (auto simp: generated_def w8_suffixes_def used_names_def eg_graph_def make_node_def eg_given_def split: if_splits)

lemma eg_rewritten: "case w8_rewrite_model (\<lambda>x. x) eg_opts eg_onnx of Inl e \<Rightarrow> False
    | Inr (m, s) \<Rightarrow> map in_name (g_initializer (m_graph m)) = [''V'', ''_m_q_w8a16_qweight'', ''_m_q_w8a16_scales'']
        \<and> map op_type (g_node (m_graph m)) = [''Cast'', ''W8A16LinearPlugin'', ''Cast'', ''MatMul'']"
  by code_simp

lemma eg_reference: "case eval_steps (w8_ref eg_sem Pair (\<lambda>x. x) eg_opts (initializer_map (g_initializer eg_graph))) 0
      (g_node eg_graph) (init_env Pair (g_initializer eg_graph) eg_given) of None \<Rightarrow> False
    | Some e \<Rightarrow> e ''y'' \<noteq> None"
  by code_simp

section \<open>Properties\<close>

text \<open>
  C30: the W8A16 rewriting preserves the graph.  Whenever the original graph, with every converted
  weight replaced by its dequantized INT8 value, evaluates, the rewritten graph evaluates as well
  and gives every tensor the same value (initializers and the new intermediate names apart); in
  particular no initializer that is still read has been dropped and no cast or plugin is wired
  wrongly.  The names derived from the node names must be new and distinct.
\<close>

theorem w8_rewrite_refines:
  assumes "w8_rewrite_model half opts model = Inr (model', summary)" and "w8_sem sem denote (plugin_domain opts)"
    and "w8_fresh opts (m_graph model) given"
    and "eval_steps (w8_ref sem denote half opts (initializer_map (g_initializer (m_graph model)))) 0
      (g_node (m_graph model)) (init_env denote (g_initializer (m_graph model)) given) = Some e"
  shows "\<exists>e'. eval_graph sem denote (m_graph model') given = Some e'
    \<and> (\<forall>x. x \<notin> in_name ` set (g_initializer (m_graph model)) \<union> generated (safe_names opts (m_graph model)) \<longrightarrow> e' x = e x)"
proof -
  define g where "g = m_graph model"
  let ?I = "initializer_map (g_initializer g)"
  from assms(1) obtain st where
    loop: "rewrite_loop half opts ?I 0 (g_node g) rw_start = Inr st"
    and gn: "g_node (m_graph model') = rw_nodes st"
    and gi: "g_initializer (m_graph model') = (if \<not> keep_original_weights opts \<and> converted_weight_counts st \<noteq> []
        then filter (\<lambda>t. \<not> removable (g_node g) (g_initializer g) (converted_weight_counts st) (in_name t)) (g_initializer g)
        else g_initializer g) @ rw_inits st"
    by (auto simp: w8_rewrite_model_def Let_def g_def)
  define rm where "rm = w8_removed opts g (converted_weight_counts st)"
  define gen where "gen = generated (safe_names opts g)"
  define cnst where "cnst = (\<lambda>t. (in_name t, denote (in_dims t) (in_vals t))) ` set (w8_new_inits half opts g)"
  have kept: "g_initializer (m_graph model') = filter (\<lambda>t. in_name t \<notin> rm) (g_initializer g) @ w8_new_inits half opts g"
    using gi rewrite_loop_Inr [OF loop] by (auto simp: rm_def w8_removed_def rw_start_def intro!: filter_cong)
  have d: "distinct (map in_name (w8_new_inits half opts g))"
    using assms(3) distinct_pairs unfolding new_names_at w8_fresh_def safe_names_def g_def by blast
  have sub: "in_name ` set (w8_new_inits half opts g) \<subseteq> gen"
  proof -
    have "in_name ` set (w8_new_inits half opts g) = set (map in_name (w8_new_inits half opts g))" by simp
    then show ?thesis unfolding new_names_at gen_def generated_def safe_names_def w8_suffixes_def by auto
  qed
  have start: "agrees rm gen cnst (init_env denote (g_initializer g) given)
      (init_env denote (g_initializer (m_graph model')) given)"
    unfolding kept cnst_def by (rule init_env_agrees [OF d sub refl])
  have "\<exists>e'. eval_nodes sem (at_positions (w8_expand opts ?I) 0 (g_node g))
      (init_env denote (g_initializer (m_graph model')) given) = Some e' \<and> agrees rm gen cnst e e'"
  proof (rule expansion_simulates [where R = "agrees rm gen cnst", OF _ start assms(4) [folded g_def]])
    fix j e1 e1' e2
    assume "j < length (g_node g)" "agrees rm gen cnst e1 e1'"
      "w8_ref sem denote half opts ?I (0 + j) (g_node g ! j) e1 = Some e2"
    then show "\<exists>e2'. eval_nodes sem (w8_expand opts ?I (0 + j) (g_node g ! j)) e1' = Some e2' \<and> agrees rm gen cnst e2 e2'"
      using w8_step_agrees [OF loop assms(2) assms(3) [folded g_def]] unfolding rm_def gen_def cnst_def by simp
  qed
  then obtain e' where e': "eval_graph sem denote (m_graph model') given = Some e'" "agrees rm gen cnst e e'"
    using gn rewrite_loop_Inr [OF loop] by (auto simp: eval_graph_def rw_start_def)
  have "rm \<subseteq> in_name ` set (g_initializer g)" by (auto simp: rm_def w8_removed_def)
  then show ?thesis using e' unfolding agrees_def gen_def g_def by blast
qed

theorem w8_rewrite_refines_witness:
  "\<exists>m s e e'. w8_rewrite_model (\<lambda>x. x) eg_opts eg_onnx = Inr (m, s)
     \<and> eval_steps (w8_ref eg_sem Pair (\<lambda>x. x) eg_opts (initializer_map (g_initializer eg_graph))) 0
          (g_node eg_graph) (init_env Pair (g_initializer eg_graph) eg_given) = Some e
     \<and> eval_graph eg_sem Pair (m_graph m) eg_given = Some e' \<and> e' ''y'' = e ''y'' \<and> e ''y'' \<noteq> None"
proof -
  obtain m s where m: "w8_rewrite_model (\<lambda>x. x) eg_opts eg_onnx = Inr (m, s)"
    using eg_rewritten by (auto split: sum.splits)
  obtain e where e: "eval_steps (w8_ref eg_sem Pair (\<lambda>x. x) eg_opts (initializer_map (g_initializer eg_graph))) 0
      (g_node eg_graph) (init_env Pair (g_initializer eg_graph) eg_given) = Some e" "e ''y'' \<noteq> None"
    using eg_reference by (auto split: option.splits)
  have g: "m_graph eg_onnx = eg_graph" by (simp add: eg_onnx_def)
  have y: "''y'' \<notin> in_name ` set (g_initializer eg_graph) \<union> generated (safe_names eg_opts eg_graph)"
    unfolding eg_safe by (auto simp: eg_graph_def generated_def w8_suffixes_def)
  from w8_rewrite_refines [OF m eg_sem_ok] eg_fresh e(1) y show ?thesis unfolding g using m e by blast
qed

text \<open>
  What the stored scale is: numpy converts to binary16, which rounds a value in the normal range
  to 11 significant bits and a smaller one to a multiple of \<open>2\<close> to the power \<open>-24\<close>.
\<close>

definition rounds_half :: "(rat \<Rightarrow> rat) \<Rightarrow> bool" where
  "rounds_half half \<longleftrightarrow> (\<forall>c. 0 < c \<and> c \<le> 65504 \<longrightarrow>
     \<bar>half c - c\<bar> \<le> (if c < 1 / 2 ^ 14 then 1 / 2 ^ 25 else c / 2 ^ 11))"

text \<open>The rounding itself: the spacing of binary16 numbers around \<open>c\<close>, and the nearest one.\<close>

definition half_ulp :: "rat \<Rightarrow> rat" where
  "half_ulp c = (case find (\<lambda>e. c < 2 ^ (e + 11) / 2 ^ 24) [0..<30] of Some e \<Rightarrow> 2 ^ e / 2 ^ 24 | None \<Rightarrow> 2 ^ 5)"

definition half_round :: "rat \<Rightarrow> rat" where
  "half_round c = of_int (rint (c / half_ulp c)) * half_ulp c"

lemma half_ulp_pos: "0 < half_ulp c"
  by (simp add: half_ulp_def split: option.splits)

lemma half_ulp_bound:
  assumes "0 < c" and "c \<le> 65504"
  shows "half_ulp c / 2 \<le> (if c < 1 / 2 ^ 14 then 1 / 2 ^ 25 else c / 2 ^ 11)"
proof -
  have "find (\<lambda>e. c < 2 ^ (e + 11) / 2 ^ 24) [0..<30] \<noteq> None"
    unfolding find_None_iff using assms(2) by (auto intro!: exI [of _ 29])
  then obtain i where f: "find (\<lambda>e. c < 2 ^ (e + 11) / 2 ^ 24) [0..<30] = Some i" by blast
  then have i: "i < 30" "c < 2 ^ (i + 11) / 2 ^ 24" "\<forall>j<i. \<not> c < 2 ^ (j + 11) / 2 ^ 24"
    unfolding find_Some_iff by auto
  have u: "half_ulp c = 2 ^ i / 2 ^ 24" unfolding half_ulp_def f by simp
  show ?thesis
  proof (cases i)
    case 0
    then have "half_ulp c / 2 = 1 / 2 ^ 25" using u by simp
    moreover have "1 / 2 ^ 25 \<le> c / 2 ^ 11" if "\<not> c < 1 / 2 ^ 14" using that by simp
    ultimately show ?thesis by simp
  next
    case (Suc j)
    then have "2 ^ (j + 11) / 2 ^ 24 \<le> c" using i(3) by auto
    then have "2 ^ j / 2 ^ 24 \<le> c / 2 ^ 11" by (simp add: power_add field_simps)
    moreover have "(1 :: rat) \<le> 2 ^ j" by simp
    ultimately show ?thesis using u Suc by (simp add: field_simps)
  qed
qed

lemma half_round_rounds: "rounds_half half_round"
  unfolding rounds_half_def
proof (intro allI impI)
  fix c :: rat
  assume c: "0 < c \<and> c \<le> 65504"
  have "\<bar>half_round c - c\<bar> \<le> half_ulp c / 2"
    using rint_error [OF half_ulp_pos [of c], of c] by (simp add: half_round_def abs_minus_commute)
  then show "\<bar>half_round c - c\<bar> \<le> (if c < 1 / 2 ^ 14 then 1 / 2 ^ 25 else c / 2 ^ 11)"
    using half_ulp_bound c by (meson order_trans)
qed

lemma stored_scale_error:
  fixes c :: rat
  assumes "\<bar>of_int q\<bar> \<le> (127 :: rat)" and "\<bar>x - of_int q * c\<bar> \<le> c / 2" and "\<bar>h - c\<bar> \<le> e"
  shows "\<bar>x - of_int q * h\<bar> \<le> c / 2 + 127 * e"
proof -
  have "x - of_int q * h = (x - of_int q * c) - of_int q * (h - c)" by (simp add: algebra_simps)
  then have "\<bar>x - of_int q * h\<bar> \<le> \<bar>x - of_int q * c\<bar> + \<bar>of_int q * (h - c)\<bar>" by simp
  also have "\<bar>of_int q * (h - c)\<bar> \<le> 127 * e"
    unfolding abs_mult using assms(1,3) by (intro mult_mono) auto
  finally show ?thesis using assms(2) by simp
qed

text \<open>
  C31: the INT8 weight is close.  Every entry is at most 127 in absolute value (so the clipping to
  a byte never changes it).  The exact scale is a 127th of the column's largest absolute value, or 1
  for a column of zeros, and with it an entry misses its weight by at most half a scale step.  The
  stored scale is that one rounded to FP16; with it the dequantized entry misses the weight by at most
  half a step and 127 times the rounding error: nine sixteenths of a step when the scale is in the normal
  FP16 range, and half a step and 127 times \<open>2\<close> to the power \<open>-25\<close> when it is smaller.  Scales above
  65504 become infinite in FP16 and are excluded.
\<close>

theorem w8_quantization_error:
  assumes "quantize_per_output_int8 half [k, n] w = Inr (q, s)" and "i < k" and "j < n"
    and "rounds_half half" and "column_scale k n w j \<le> 65504"
  shows "\<bar>q ! (i * n + j)\<bar> \<le> 127 \<and> s ! j = half (column_scale k n w j)
    \<and> \<bar>w ! (i * n + j)\<bar> \<le> 127 * column_scale k n w j
    \<and> \<bar>w ! (i * n + j) - of_int (q ! (i * n + j)) * column_scale k n w j\<bar> \<le> column_scale k n w j / 2
    \<and> \<bar>w ! (i * n + j) - of_int (q ! (i * n + j)) * s ! j\<bar>
        \<le> (if column_scale k n w j < 1 / 2 ^ 14 then column_scale k n w j / 2 + 127 / 2 ^ 25
            else 9 / 16 * column_scale k n w j)"
proof -
  let ?c = "column_scale k n w j" and ?x = "w ! (i * n + j)" and ?q = "q ! (i * n + j)"
  have c: "0 < ?c" by (rule column_scale_pos)
  have q: "q = quantized k n w" and s: "s = map half (column_scales k n w)"
    using assms(1) by (auto simp: quantize_per_output_int8_def split: if_splits)
  have e: "\<bar>?q\<bar> \<le> 127" "s ! j = half ?c" "\<bar>?x\<bar> \<le> 127 * ?c" "\<bar>?x - of_int ?q * ?c\<bar> \<le> ?c / 2"
    using quantized_entry [OF assms(2,3), of w] entry_le_scale [OF assms(2)] assms(3) rint_error [OF c, of ?x]
    by (simp_all add: q s column_scales_def)
  have "\<bar>of_int ?q\<bar> \<le> (127 :: rat)" using e(1) by linarith
  moreover have "\<bar>s ! j - ?c\<bar> \<le> (if ?c < 1 / 2 ^ 14 then 1 / 2 ^ 25 else ?c / 2 ^ 11)"
    using assms(4,5) c unfolding rounds_half_def e(2) by blast
  ultimately have "\<bar>?x - of_int ?q * s ! j\<bar> \<le> ?c / 2 + 127 * (if ?c < 1 / 2 ^ 14 then 1 / 2 ^ 25 else ?c / 2 ^ 11)"
    by (rule stored_scale_error [OF _ e(4)])
  then have "\<bar>?x - of_int ?q * s ! j\<bar> \<le> (if ?c < 1 / 2 ^ 14 then ?c / 2 + 127 / 2 ^ 25 else 9 / 16 * ?c)"
    using c by (simp split: if_splits)
  with e show ?thesis by blast
qed

theorem w8_quantization_error_witness:
  "\<exists>q s. quantize_per_output_int8 half_round [2, 2] [1, -2, 3, 4] = Inr (q, s) \<and> \<bar>q ! (1 * 2 + 0)\<bar> \<le> 127
     \<and> \<bar>3 - of_int (q ! (1 * 2 + 0)) * s ! 0\<bar> \<le> 9 / 16 * (3 / 127 :: rat)"
proof -
  obtain q s where qs: "quantize_per_output_int8 half_round [2, 2] [1, -2, 3, 4] = Inr (q, s)"
    by (auto simp: quantize_per_output_int8_def)
  have c: "column_scale 2 2 [1, -2, 3, 4] 0 = 3 / 127" by code_simp
  then have le: "column_scale 2 2 [1, -2, 3, 4] 0 \<le> 65504" by simp
  have n: "(1 :: nat) < 2" "(0 :: nat) < 2" "\<not> (3 / 127 :: rat) < 1 / 2 ^ 14" and w: "[1, -2, 3, 4 :: rat] ! (1 * 2 + 0) = 3"
    by simp_all
  have "\<bar>q ! (1 * 2 + 0)\<bar> \<le> 127" "\<bar>3 - of_int (q ! (1 * 2 + 0)) * s ! 0\<bar> \<le> 9 / 16 * (3 / 127 :: rat)"
    using w8_quantization_error [OF qs n(1,2) half_round_rounds le] unfolding c w if_not_P [OF n(3)] by blast+
  with qs show ?thesis by blast
qed

end
