(* ===== verification/Awq_Theorems.thy ===== *)
theory Awq_Theorems
  imports Awq_Props W8A16_Theorems
begin

text \<open>
  The properties of the AWQ rewriter.
\<close>

section \<open>The rewritten graph\<close>

abbreviation awq_new_inits :: "(rat \<Rightarrow> rat) \<Rightarrow> slot_quant list list \<Rightarrow> onnx_graph \<Rightarrow> onnx_init list" where
  "awq_new_inits half lq g \<equiv> at_positions (awq_new half lq) 0 (slots lq g)"

lemma awq_new_names_at:
  "map in_name (at_positions (awq_new half lq) i nodes)
     = concat (map (\<lambda>s. [s @ ''_w8a16_qweight'', s @ ''_w8a16_scales'', s @ ''_w8a16_inv_pqs''])
         (at_positions awq_safe i nodes))"
  by (induction nodes arbitrary: i)
    (auto simp: awq_new_def awq_safe_def awq_inits_def Let_def split: option.splits prod.splits)

lemma distinct_triples:
  "distinct safe \<Longrightarrow>
     distinct (concat (map (\<lambda>s. [s @ ''_w8a16_qweight'', s @ ''_w8a16_scales'', s @ ''_w8a16_inv_pqs'']) safe))"
proof (induction safe)
  case (Cons s safe)
  have "s @ x \<noteq> t @ y" if "t \<in> set safe" "x \<in> set awq_suffixes" "y \<in> set awq_suffixes" for t x y
    using awq_suffix_inject [of s x t y] that Cons.prems by auto
  then show ?case using Cons by (auto simp: awq_suffixes_def)
qed simp

lemma awq_step_agrees:
  fixes denote :: "nat list \<Rightarrow> rat list \<Rightarrow> 'v"
  assumes loop: "awq_loop half opts lq 0 (g_node g) aw_start = Inr st"
    and sem: "w8_sem sem denote (awq_domain opts)" and fresh: "awq_fresh lq g given" and j: "j < length (slots lq g)"
    and rm: "rm \<inter> (\<Union>nd\<in>set (aw_nodes st). set (nd_input nd)) = {}"
  defines "gen \<equiv> awq_generated (awq_names lq g)"
    and "cnst \<equiv> (\<lambda>t. (in_name t, denote (in_dims t) (in_vals t))) ` set (awq_new_inits half lq g)"
  assumes ag: "agrees rm gen cnst e e'" and ref: "awq_ref sem denote half lq j (slots lq g ! j) e = Some e1"
  shows "\<exists>e1'. eval_nodes sem (awq_expand opts lq j (slots lq g ! j)) e' = Some e1' \<and> agrees rm gen cnst e1 e1'"
proof -
  obtain nd slot where ns: "slots lq g ! j = (nd, slot)" by (cases "slots lq g ! j")
  have mem: "(nd, slot) \<in> set (slots lq g)" using j ns by (metis nth_mem)
  then have "nd \<in> set (map fst (slots lq g))" by force
  then have nd: "nd \<in> set (g_node g)" unfolding slots_def fst_annotate .
  have free: "(set (nd_input nd) \<union> set (nd_output nd)) \<inter> gen = {}"
    using fresh nd by (auto simp: awq_fresh_def gen_def used_names_def)
  have cnames: "fst ` cnst = {s @ x | s x. s \<in> set (awq_names lq g)
      \<and> x \<in> {''_w8a16_qweight'', ''_w8a16_scales'', ''_w8a16_inv_pqs''}}"
  proof -
    have "fst ` cnst = set (map in_name (awq_new_inits half lq g))" by (auto simp: cnst_def image_image)
    then show ?thesis unfolding awq_new_names_at awq_names_def by auto
  qed
  have sub: "fst ` cnst \<subseteq> gen" unfolding cnames by (auto simp: gen_def awq_generated_def awq_suffixes_def)
  have outs: "set (nd_output nd) \<inter> fst ` cnst = {}" using free sub by blast
  note L = awq_loop_Inr [OF loop, of 0, folded slots_def]
  have nodes: "set (awq_expand opts lq j (nd, slot)) \<subseteq> set (aw_nodes st)"
    using L j ns by (auto simp: aw_start_def in_at_positions intro!: exI [of _ j])
  show ?thesis
  proof (cases slot)
    case None
    then have "nd \<in> set (aw_nodes st)" using nodes by (simp add: awq_expand_def)
    then have "set (nd_input nd) \<inter> (rm \<union> gen) = {}" using free rm by blast
    moreover have "eval_node sem nd e = Some e1" using ref None ns by (simp add: awq_ref_def)
    ultimately have "\<exists>e1'. eval_node sem nd e' = Some e1' \<and> agrees rm gen cnst e1 e1'"
      by (intro eval_node_agrees [OF ag _ outs])
    then show ?thesis using None ns by (auto simp: awq_expand_def)
  next
    case (Some pos)
    define q where "q = quant_at lq pos"
    define k where "k = fst (dims_of q)"
    define n where "n = snd (dims_of q)"
    define qs where "qs = fst (quantized_of half q)"
    define ss where "ss = snd (quantized_of half q)"
    define p where "p = denote [k] (map (\<lambda>p. half (1 / p)) (a_vals (snd (snd q))))"
    have info: "nd_output nd \<noteq> []" "2 \<le> length (nd_input nd)" "compute_per_output_int8 half q = Inr (qs, ss)"
      using L mem Some by (auto simp: q_def qs_def ss_def)
    obtain act where act: "hd (nd_input nd) = act" "act \<in> set (nd_input nd)"
      using info(2) by (cases "nd_input nd") auto
    let ?mul = "make_node ''Mul'' [act, awq_name nd pos @ ''_w8a16_inv_pqs''] [awq_name nd pos @ ''_w8a16_smoothed_act'']
        (awq_name nd pos @ ''_w8a16_pqs_mul'') []"
    have "?mul \<in> set (awq_expand opts lq j (nd, slot))"
      unfolding Some by (simp add: awq_expand_def awq_nodes_def Let_def act(1) case_prod_beta)
    then have "?mul \<in> set (aw_nodes st)" using nodes by blast
    then have "act \<in> (\<Union>nd\<in>set (aw_nodes st). set (nd_input nd))" by (rule UN_I) (simp add: make_node_def)
    then have act': "act \<notin> rm \<union> gen" using rm free act(2) by blast
    have safe: "awq_name nd pos \<in> set (awq_names lq g)"
      unfolding awq_names_def in_at_positions using j ns Some by (intro exI [of _ j]) (simp add: awq_safe_def)
    have "set (awq_inits half (awq_name nd pos) k n qs ss (a_vals (snd (snd q)))) \<subseteq> set (awq_new_inits half lq g)"
      unfolding subset_iff in_at_positions using j ns Some
      by (intro allI impI exI [of _ j]) (simp add: awq_new_def k_def n_def q_def qs_def ss_def case_prod_beta)
    then have c: "(awq_name nd pos @ ''_w8a16_qweight'', denote [k, n] (map of_int qs)) \<in> cnst"
      "(awq_name nd pos @ ''_w8a16_scales'', denote [n] ss) \<in> cnst" "(awq_name nd pos @ ''_w8a16_inv_pqs'', p) \<in> cnst"
      by (force simp: cnst_def awq_inits_def p_def)+
    have len: "length qs = k * n" "length ss = n"
      using compute_Inr [OF info(3)] by (auto simp: k_def n_def dims_of_def awq_quantized_def awq_scales_def)
    have tmp: "{awq_name nd pos @ ''_w8a16_smoothed_act'', awq_name nd pos @ ''_w8a16_act_fp16'',
        awq_name nd pos @ ''_w8a16_out_fp16''} \<subseteq> gen - fst ` cnst"
    proof -
      have "awq_name nd pos @ x \<notin> fst ` cnst"
        if "x \<in> {''_w8a16_smoothed_act'', ''_w8a16_act_fp16'', ''_w8a16_out_fp16''}" for x
        unfolding cnames using that awq_suffix_inject [of "awq_name nd pos" x] by (auto simp: awq_suffixes_def)
      moreover have "awq_name nd pos @ x \<in> gen" if "x \<in> set awq_suffixes" for x
        using safe that unfolding gen_def awq_generated_def by blast
      ultimately show ?thesis by (simp add: awq_suffixes_def)
    qed
    from ref obtain y where y: "sem ''Mul'' [] [] [e act, Some p] = Some [y]"
      "bind_outputs (nd_output nd) (sem ''MatMul'' (nd_domain nd) (nd_attribute nd)
        [Some y, Some (denote [k, n] (dequant k n qs ss))]) e = Some e1"
      unfolding ns Some
      by (auto simp: awq_ref_def Let_def act(1) k_def n_def q_def qs_def ss_def p_def split: option.splits list.splits)
    have "\<exists>e1'. eval_nodes sem (awq_nodes opts (awq_name nd pos) k n nd) e' = Some e1' \<and> agrees rm gen cnst e1 e1'"
      by (rule awq_nodes_agree [OF sem ag act(1) act' outs c len tmp y])
    then show ?thesis unfolding ns Some by (simp add: awq_expand_def k_def n_def q_def case_prod_beta)
  qed
qed


section \<open>Example\<close>

text \<open>One layer whose seven weights are one by one; an eighth MatMul follows.\<close>

definition eg_slot :: slot_quant where
  "eg_slot = (\<lparr>a_shape = [1, 1], a_vals = [3]\<rparr>, \<lparr>a_shape = [1, 1], a_vals = [6]\<rparr>, \<lparr>a_shape = [1], a_vals = [2]\<rparr>)"

definition eg_layers :: "slot_quant list list" where
  "eg_layers = [replicate 7 eg_slot]"

definition eg_awq_opts :: awq_opts where
  "eg_awq_opts = \<lparr>awq_domain = ''trt'', awq_cast_inputs = True, awq_cast_outputs = False\<rparr>"

definition eg_awq_graph :: onnx_graph where
  "eg_awq_graph =
     \<lparr>g_node = [make_node ''MatMul'' [''x'', ''W''] [''a''] ''/a'' [], make_node ''MatMul'' [''a'', ''W''] [''b''] ''/b'' [],
        make_node ''MatMul'' [''b'', ''W''] [''c''] ''/c'' [], make_node ''MatMul'' [''c'', ''W''] [''d''] ''/d'' [],
        make_node ''MatMul'' [''d'', ''W''] [''e''] ''/e'' [], make_node ''MatMul'' [''e'', ''W''] [''f''] ''/f'' [],
        make_node ''MatMul'' [''f'', ''W''] [''g''] ''/g'' [], make_node ''MatMul'' [''g'', ''H''] [''y''] ''/h'' []],
      g_initializer = [\<lparr>in_name = ''W'', in_dims = [1, 1], in_vals = [3], in_itemsize = 2\<rparr>,
        \<lparr>in_name = ''H'', in_dims = [1, 1], in_vals = [5], in_itemsize = 2\<rparr>]\<rparr>"

definition eg_awq_model :: onnx_model where
  "eg_awq_model = \<lparr>m_graph = eg_awq_graph, opset_import = []\<rparr>"

text \<open>The meaning of the earlier example with an element-wise product added.\<close>

definition eg_awq_sem :: "tval onnx_sem" where
  "eg_awq_sem ty domain attrs xs =
     (if ty = ''Mul'' then (case xs of [Some (d, x), Some (d', y)] \<Rightarrow> Some [(d, map2 (*) x y)] | _ \<Rightarrow> None)
      else eg_sem ty domain attrs xs)"

definition eg_awq_given :: "tval env" where
  "eg_awq_given = [''x'' \<mapsto> ([1], [10])]"

lemma eg_awq_sem_ok: "w8_sem eg_awq_sem Pair domain"
  using eg_sem_ok [of domain] by (simp add: w8_sem_def eg_awq_sem_def)

lemma eg_awq_names: "awq_names eg_layers eg_awq_graph = [''a'', ''b'', ''c'', ''d'', ''e'', ''f'', ''g'']"
  by code_simp

lemma generated_mark: "x \<in> awq_generated safe \<Longrightarrow> CHR ''8'' \<in> set x"
  by (auto simp: awq_generated_def awq_suffixes_def)

lemma eg_awq_used: "\<forall>x\<in>used_names eg_awq_graph eg_awq_given. CHR ''8'' \<notin> set x"
  by (simp add: used_names_def eg_awq_graph_def make_node_def eg_awq_given_def)

lemma eg_awq_fresh: "awq_fresh eg_layers eg_awq_graph eg_awq_given"
  using generated_mark eg_awq_used unfolding awq_fresh_def eg_awq_names by fastforce

lemma eg_awq_rewritten: "case awq_rewrite_model (\<lambda>x. x) eg_awq_opts eg_layers eg_awq_model of Inl e \<Rightarrow> False
    | Inr (m, s) \<Rightarrow> matmul_converted s = 7 \<and> matmul_skipped s = 1
        \<and> map op_type (take 4 (g_node (m_graph m))) = [''Mul'', ''Cast'', ''W8A16LinearPlugin'', ''Mul'']"
  by code_simp

lemma eg_awq_reference: "case eval_steps (awq_ref eg_awq_sem Pair (\<lambda>x. x) eg_layers) 0 (slots eg_layers eg_awq_graph)
      (init_env Pair (g_initializer eg_awq_graph) eg_awq_given) of None \<Rightarrow> False | Some e \<Rightarrow> e ''y'' \<noteq> None"
  by code_simp


section \<open>Properties\<close>

text \<open>
  C32: the AWQ rewriting preserves the graph.  Let the sanitised names of the converted nodes differ
  and let none of the names made from them be in use (the code checks neither).  When the rewriting
  succeeds, the MatMul at position p below
  seven times the number of layers has been given the data of layer p div 7 and operator p mod 7,
  later ones are untouched, and the rewritten graph evaluates like the original one in which each
  assigned product takes the activation times the inverse smoothing scale and the dequantized
  weight of its slot; every weight that is still read has been kept.
\<close>

theorem awq_rewrite_refines:
  assumes "awq_rewrite_model half opts lq model = Inr (model', summary)" and "w8_sem sem denote (awq_domain opts)"
    and "awq_fresh lq (m_graph model) given"
    and "eval_steps (awq_ref sem denote half lq) 0 (slots lq (m_graph model))
      (init_env denote (g_initializer (m_graph model)) given) = Some e"
  shows "\<exists>e'. eval_graph sem denote (m_graph model') given = Some e'
    \<and> (\<forall>x. x \<notin> in_name ` set (g_initializer (m_graph model)) \<union> awq_generated (awq_names lq (m_graph model)) \<longrightarrow> e' x = e x)"
proof -
  define g where "g = m_graph model"
  from assms(1) obtain st where
    loop: "awq_loop half opts lq 0 (g_node g) aw_start = Inr st"
    and gn: "g_node (m_graph model') = aw_nodes st"
    and gi: "g_initializer (m_graph model') = filter (\<lambda>t. in_name t \<notin> aw_weights st
        \<or> in_name t \<in> (\<Union>nd\<in>set (aw_nodes st). set (nd_input nd))) (g_initializer g) @ aw_inits st"
    by (auto simp: awq_rewrite_model_def Let_def g_def)
  define rm where "rm = in_name ` set (g_initializer g) \<inter> aw_weights st - (\<Union>nd\<in>set (aw_nodes st). set (nd_input nd))"
  define gen where "gen = awq_generated (awq_names lq g)"
  define cnst where "cnst = (\<lambda>t. (in_name t, denote (in_dims t) (in_vals t))) ` set (awq_new_inits half lq g)"
  note L = awq_loop_Inr [OF loop, of 0, folded slots_def]
  have kept: "g_initializer (m_graph model') = filter (\<lambda>t. in_name t \<notin> rm) (g_initializer g) @ awq_new_inits half lq g"
    using gi L by (auto simp: rm_def aw_start_def intro!: filter_cong)
  have d: "distinct (map in_name (awq_new_inits half lq g))"
    using assms(3) distinct_triples unfolding awq_new_names_at awq_fresh_def awq_names_def g_def by blast
  have sub: "in_name ` set (awq_new_inits half lq g) \<subseteq> gen"
  proof -
    have "in_name ` set (awq_new_inits half lq g) = set (map in_name (awq_new_inits half lq g))" by simp
    then show ?thesis unfolding awq_new_names_at gen_def awq_generated_def awq_names_def awq_suffixes_def by auto
  qed
  have start: "agrees rm gen cnst (init_env denote (g_initializer g) given)
      (init_env denote (g_initializer (m_graph model')) given)"
    unfolding kept cnst_def by (rule init_env_agrees [OF d sub refl])
  have "\<exists>e'. eval_nodes sem (at_positions (awq_expand opts lq) 0 (slots lq g))
      (init_env denote (g_initializer (m_graph model')) given) = Some e' \<and> agrees rm gen cnst e e'"
  proof (rule expansion_simulates [where R = "agrees rm gen cnst", OF _ start assms(4) [folded g_def]])
    fix j e1 e1' e2
    assume a: "j < length (slots lq g)" "agrees rm gen cnst e1 e1'"
      "awq_ref sem denote half lq (0 + j) (slots lq g ! j) e1 = Some e2"
    have "rm \<inter> (\<Union>nd\<in>set (aw_nodes st). set (nd_input nd)) = {}" by (auto simp: rm_def)
    from awq_step_agrees [OF loop assms(2) assms(3) [folded g_def] a(1) this] a(2,3)
    show "\<exists>e2'. eval_nodes sem (awq_expand opts lq (0 + j) (slots lq g ! j)) e1' = Some e2' \<and> agrees rm gen cnst e2 e2'"
      unfolding gen_def cnst_def by simp
  qed
  then obtain e' where e': "eval_graph sem denote (m_graph model') given = Some e'" "agrees rm gen cnst e e'"
    using gn L by (auto simp: eval_graph_def aw_start_def)
  have "rm \<subseteq> in_name ` set (g_initializer g)" by (auto simp: rm_def)
  then show ?thesis using e' unfolding agrees_def gen_def g_def by blast
qed

theorem awq_rewrite_refines_witness:
  "\<exists>m s e e'. awq_rewrite_model (\<lambda>x. x) eg_awq_opts eg_layers eg_awq_model = Inr (m, s)
     \<and> eval_steps (awq_ref eg_awq_sem Pair (\<lambda>x. x) eg_layers) 0 (slots eg_layers eg_awq_graph)
          (init_env Pair (g_initializer eg_awq_graph) eg_awq_given) = Some e
     \<and> eval_graph eg_awq_sem Pair (m_graph m) eg_awq_given = Some e' \<and> e' ''y'' = e ''y'' \<and> e ''y'' \<noteq> None"
proof -
  obtain m s where m: "awq_rewrite_model (\<lambda>x. x) eg_awq_opts eg_layers eg_awq_model = Inr (m, s)"
    using eg_awq_rewritten by (auto split: sum.splits)
  obtain e where e: "eval_steps (awq_ref eg_awq_sem Pair (\<lambda>x. x) eg_layers) 0 (slots eg_layers eg_awq_graph)
      (init_env Pair (g_initializer eg_awq_graph) eg_awq_given) = Some e" "e ''y'' \<noteq> None"
    using eg_awq_reference by (auto split: option.splits)
  have g: "m_graph eg_awq_model = eg_awq_graph" by (simp add: eg_awq_model_def)
  have "''y'' \<notin> awq_generated (awq_names eg_layers eg_awq_graph)" using generated_mark by fastforce
  moreover have "''y'' \<notin> in_name ` set (g_initializer eg_awq_graph)" by (simp add: eg_awq_graph_def)
  ultimately show ?thesis
    using awq_rewrite_refines [OF m eg_awq_sem_ok] eg_awq_fresh e m unfolding g by blast
qed

text \<open>
  The smoothed weight is quantized within half a step.  When the calibration is right, that
  is, each smoothed entry is bounded by the maximum recorded for its block, collapsing the blocks
  to one scale per output never clips, and undoing the smoothing gives the weight up to half a
  step over the smoothing scale.
\<close>

theorem awq_quantization_error:
  assumes "compute_per_output_int8 half (w, amax, pqs) = Inr (q, s)" and "a_shape w = [n, k]"
    and "out < n" and "i < k" and "groups = length (a_vals amax) div n"
    and "\<bar>smoothed k (a_vals w) (a_vals pqs) out i\<bar> \<le> a_vals amax ! (out * groups + i div (k div groups))"
    and "a_vals pqs ! i \<noteq> 0"
  shows "\<bar>q ! (i * n + out)\<bar> \<le> 127 \<and> s ! out = half (output_scale groups (a_vals amax) out)
    \<and> \<bar>a_vals w ! (out * k + i) - 1 / a_vals pqs ! i * (of_int (q ! (i * n + out)) * output_scale groups (a_vals amax) out)\<bar>
        \<le> output_scale groups (a_vals amax) out / (2 * \<bar>a_vals pqs ! i\<bar>)"
proof -
  let ?c = "output_scale groups (a_vals amax) out" and ?x = "smoothed k (a_vals w) (a_vals pqs) out i"
  let ?p = "a_vals pqs ! i" and ?w = "a_vals w ! (out * k + i)"
  obtain gr where gr: "0 < gr" "length (a_vals amax) = n * gr"
    "q = awq_quantized n k gr (a_vals w) (a_vals amax) (a_vals pqs)" "s = map half (awq_scales n gr (a_vals amax))"
    using compute_Inr [OF assms(1)] assms(2) by auto
  have groups: "groups = gr" using gr assms(3,5) by simp
  have "k mod gr = 0"
    using assms(1,2) groups assms(5) by (auto simp: compute_per_output_int8_def Let_def split: if_splits)
  then have "k = gr * (k div gr)" by (metis add_0 mult_div_mod_eq add.right_neutral)
  then have "i div (k div gr) < gr" using assms(4) by (metis less_mult_imp_div_less mult.commute)
  from block_le_output_amax [OF this gr(2) assms(3)]
  have r: "\<bar>rint (?x / ?c)\<bar> \<le> 127" using scaled_bound [OF assms(6)] groups by simp
  have qe: "q ! (i * n + out) = rint (?x / ?c)"
    using awq_entry [OF assms(3,4)] r groups by (simp add: gr(3) clip8_def)
  have "?w - 1 / ?p * (of_int (rint (?x / ?c)) * ?c) = (?x - of_int (rint (?x / ?c)) * ?c) / ?p"
    using assms(7) by (simp add: smoothed_def field_simps)
  then have "\<bar>?w - 1 / ?p * (of_int (rint (?x / ?c)) * ?c)\<bar> = \<bar>?x - of_int (rint (?x / ?c)) * ?c\<bar> / \<bar>?p\<bar>"
    by (simp only: abs_divide)
  also have "\<dots> \<le> ?c / 2 / \<bar>?p\<bar>"
    using rint_error [OF output_scale_pos, of ?x groups "a_vals amax" out] by (intro divide_right_mono) auto
  also have "\<dots> = ?c / (2 * \<bar>?p\<bar>)" by simp
  finally show ?thesis unfolding qe using r assms(3) by (simp add: gr(4) awq_scales_def groups)
qed

theorem awq_quantization_error_witness:
  "\<exists>q s. compute_per_output_int8 (\<lambda>x. x) eg_slot = Inr (q, s) \<and> \<bar>q ! 0\<bar> \<le> 127"
proof -
  obtain q s where qs: "compute_per_output_int8 (\<lambda>x. x) eg_slot = Inr (q, s)"
    by (auto simp: compute_per_output_int8_def eg_slot_def)
  from awq_quantization_error [OF qs [unfolded eg_slot_def], of 1 1 0 0 1]
  have "\<bar>q ! 0\<bar> \<le> 127" by (simp add: smoothed_def)
  then show ?thesis using qs by blast
qed

end
