(* ===== verification/Onnx_Solve.thy ===== *)
theory Onnx_Solve
  imports Onnx_Graph
begin

text \<open>
  Graphs as systems of equations.  When every name is written once and read after it has been
  written, the environment a graph ends in satisfies each node's equation, and any environment that
  satisfies them is what evaluation in order yields.  The graph edits are proved on the equations,
  where the place of a node in the list does not matter.
\<close>

section \<open>Order\<close>

abbreviation outputs_of :: "onnx_node list \<Rightarrow> string set" where
  "outputs_of nodes \<equiv> \<Union>nd\<in>set nodes. set (nd_output nd)"

abbreviation inputs_of :: "onnx_node list \<Rightarrow> string set" where
  "inputs_of nodes \<equiv> \<Union>nd\<in>set nodes. set (nd_input nd)"

text \<open>Every input is known when it is read; the empty name is an omitted input.\<close>

fun readable :: "string set \<Rightarrow> onnx_node list \<Rightarrow> bool" where
  "readable known [] = True"
| "readable known (nd # nds) \<longleftrightarrow>
     set (nd_input nd) \<subseteq> insert [] known \<and> readable (known \<union> set (nd_output nd)) nds"

text \<open>Every output is written once, and it is no known name.\<close>

definition written_once :: "string set \<Rightarrow> onnx_node list \<Rightarrow> bool" where
  "written_once known nodes \<longleftrightarrow>
     distinct (concat (map nd_output nodes)) \<and> outputs_of nodes \<inter> insert [] known = {}"

lemma once_split:
  "((D \<and> D' \<and> A \<inter> B = {}) \<and> (A \<union> B) \<inter> K = {}) = (D \<and> A \<inter> K = {} \<and> D' \<and> B \<inter> (K \<union> A) = {})"
  by auto

lemma written_once_Cons:
  "written_once known (nd # nds) \<longleftrightarrow>
     distinct (nd_output nd) \<and> set (nd_output nd) \<inter> insert [] known = {}
     \<and> written_once (known \<union> set (nd_output nd)) nds"
proof -
  have 1: "set (concat (map nd_output nds)) = outputs_of nds" by simp
  have 2: "outputs_of (nd # nds) = set (nd_output nd) \<union> outputs_of nds" by simp
  have 3: "insert [] (known \<union> A) = insert [] known \<union> A" for A by simp
  show ?thesis unfolding written_once_def list.map concat.simps distinct_append 1 2 3 by (rule once_split)
qed

lemma readable_mono: "readable known nodes \<Longrightarrow> known \<subseteq> known' \<Longrightarrow> readable known' nodes"
proof (induction nodes arbitrary: known known')
  case (Cons nd nds)
  have "readable (known' \<union> set (nd_output nd)) nds"
    by (rule Cons.IH [of "known \<union> set (nd_output nd)"]) (use Cons.prems in auto)
  then show ?case using Cons.prems by auto
qed simp

lemma readable_append:
  "readable known (xs @ ys) \<longleftrightarrow> readable known xs \<and> readable (known \<union> outputs_of xs) ys"
  by (induction xs arbitrary: known) (auto simp: Un_assoc)

lemma readable_inputs: "readable known nodes \<Longrightarrow> inputs_of nodes \<subseteq> insert [] (known \<union> outputs_of nodes)"
proof (induction nodes arbitrary: known)
  case (Cons nd nds)
  have "inputs_of nds \<subseteq> insert [] (known \<union> set (nd_output nd) \<union> outputs_of nds)"
    using Cons by simp
  then show ?case using Cons.prems by (simp add: Un_assoc) blast
qed simp

lemma written_unique:
  assumes "written_once known nodes" and "i < j" and "j < length nodes" and "x \<in> set (nd_output (nodes ! i))"
  shows "x \<notin> set (nd_output (nodes ! j))"
proof -
  have "nodes = take j nodes @ nodes ! j # drop (Suc j) nodes" using assms(3) by (rule id_take_nth_drop)
  then have "distinct (concat (map nd_output (take j nodes @ nodes ! j # drop (Suc j) nodes)))"
    using assms(1) unfolding written_once_def by metis
  moreover have "x \<in> outputs_of (take j nodes)"
    using assms(2-4) by (metis UN_I in_set_conv_nth length_take min.absorb2 less_imp_le nth_take)
  ultimately show ?thesis by auto
qed

lemma read_after_write:
  assumes "readable known nodes" and "written_once known nodes" and "i < length nodes" and "j < length nodes"
    and "x \<in> set (nd_input (nodes ! i))" and "x \<in> set (nd_output (nodes ! j))"
  shows "j < i"
proof -
  have "nodes = take i nodes @ nodes ! i # drop (Suc i) nodes" using assms(3) by (rule id_take_nth_drop)
  then have "readable known (take i nodes @ nodes ! i # drop (Suc i) nodes)" using assms(1) by metis
  then have "x \<in> insert [] (known \<union> outputs_of (take i nodes))"
    using assms(5) unfolding readable_append by auto
  moreover have "x \<notin> insert [] known"
    using assms(2,4,6) unfolding written_once_def by (metis UN_I disjoint_iff nth_mem)
  ultimately obtain nd where "nd \<in> set (take i nodes)" "x \<in> set (nd_output nd)" by auto
  then obtain k where k: "k < i" "x \<in> set (nd_output (nodes ! k))"
    by (auto simp: in_set_conv_nth [of nd])
  show ?thesis
  proof (rule ccontr)
    assume "\<not> j < i"
    then show False using written_unique [OF assms(2) _ assms(4) k(2)] k(1) assms(6) by simp
  qed
qed

lemma readable_nths:
  assumes "\<And>i x. i < length nodes \<Longrightarrow> i \<in> U \<Longrightarrow> x \<in> set (nd_input (nodes ! i)) \<Longrightarrow>
      x \<in> insert [] known \<or> (\<exists>j\<in>U. j < i \<and> x \<in> set (nd_output (nodes ! j)))"
  shows "readable known (nths nodes U)"
  using assms
proof (induction nodes rule: rev_induct)
  case (snoc nd nodes)
  have "readable known (nths nodes U)"
  proof (rule snoc.IH)
    fix i x
    assume i: "i < length nodes" "i \<in> U" "x \<in> set (nd_input (nodes ! i))"
    then show "x \<in> insert [] known \<or> (\<exists>j\<in>U. j < i \<and> x \<in> set (nd_output (nodes ! j)))"
      using snoc.prems [of i x] by (auto simp: nth_append)
  qed
  moreover have "set (nd_input nd) \<subseteq> insert [] (known \<union> outputs_of (nths nodes U))" if "length nodes \<in> U"
    using snoc.prems [of "length nodes"] that by (fastforce simp: nth_append set_nths)
  ultimately show ?case by (simp add: nths_append readable_append nths_singleton)
qed simp

section \<open>Equations\<close>

definition satisfies :: "'v onnx_sem \<Rightarrow> 'v env \<Rightarrow> onnx_node \<Rightarrow> bool" where
  "satisfies sem e nd \<longleftrightarrow>
     (\<exists>vs. sem (op_type nd) (nd_domain nd) (nd_attribute nd) (map e (nd_input nd)) = Some vs
       \<and> map e (nd_output nd) = map Some vs)"

abbreviation solves :: "'v onnx_sem \<Rightarrow> 'v env \<Rightarrow> onnx_node list \<Rightarrow> bool" where
  "solves sem e nodes \<equiv> \<forall>nd\<in>set nodes. satisfies sem e nd"

lemma satisfies_cong:
  assumes "\<And>x. x \<in> set (nd_input nd) \<union> set (nd_output nd) \<Longrightarrow> e x = e' x"
  shows "satisfies sem e nd \<longleftrightarrow> satisfies sem e' nd"
proof -
  have "map e (nd_input nd) = map e' (nd_input nd)" "map e (nd_output nd) = map e' (nd_output nd)"
    using assms by auto
  then show ?thesis unfolding satisfies_def by presburger
qed

lemma map_upds_known:
  assumes "map e outs = map Some vs" and "e0 x = e x \<or> x \<in> set outs"
  shows "(e0(outs [\<mapsto>] vs)) x = e x"
  using assms
proof (induction outs arbitrary: vs e0)
  case (Cons y ys)
  then obtain v vs' where vs: "vs = v # vs'" by (cases vs) auto
  then show ?case using Cons.prems by (auto intro!: Cons.IH)
qed simp

lemma map_upds_values:
  assumes "distinct xs" and "length vs = length xs"
  shows "map (e(xs [\<mapsto>] vs)) xs = map Some vs"
proof -
  have z: "map (map_of (zip xs vs)) xs = map Some vs"
    using assms by (intro nth_equalityI) (auto simp: map_of_zip_nth)
  have "map (e(xs [\<mapsto>] vs)) xs = map (map_of (zip xs vs)) xs"
    using map_upds_known [OF z, of e] by (intro map_cong refl) blast
  then show ?thesis using z by (rule trans)
qed

text \<open>The final environment of an evaluation satisfies all equations.\<close>

lemma eval_nodes_solves:
  assumes "readable known nodes" and "written_once known nodes" and "eval_nodes sem nodes e0 = Some e"
  shows "solves sem e nodes \<and> (\<forall>x. x \<notin> outputs_of nodes \<longrightarrow> e x = e0 x)"
  using assms
proof (induction nodes arbitrary: known e0)
  case (Cons nd nds)
  from Cons.prems(3) obtain vs where vs: "sem (op_type nd) (nd_domain nd) (nd_attribute nd) (map e0 (nd_input nd)) = Some vs"
    "length vs = length (nd_output nd)" "eval_nodes sem nds (e0(nd_output nd [\<mapsto>] vs)) = Some e"
    by (auto simp: eval_node_def bind_outputs_def split: option.splits if_splits)
  have w: "distinct (nd_output nd)" "set (nd_output nd) \<inter> insert [] known = {}"
    "written_once (known \<union> set (nd_output nd)) nds"
    using Cons.prems(2) by (simp_all add: written_once_Cons)
  have ih: "solves sem e nds" "\<And>x. x \<notin> outputs_of nds \<Longrightarrow> e x = (e0(nd_output nd [\<mapsto>] vs)) x"
    using Cons.IH [OF _ w(3) vs(3)] Cons.prems(1) by auto
  have o: "x \<notin> outputs_of nds" if "x \<in> insert [] (known \<union> set (nd_output nd))" for x
    using w(3) that by (auto simp: written_once_def)
  have "e x = e0 x" if "x \<in> set (nd_input nd)" for x
  proof -
    have x: "x \<in> insert [] known" using Cons.prems(1) that by auto
    then have "x \<notin> set (nd_output nd)" using w(2) by blast
    then show ?thesis using ih(2) [of x] o [of x] x by (simp add: map_upds_apply_nontin)
  qed
  then have "map e (nd_input nd) = map e0 (nd_input nd)" by simp
  moreover have "map e (nd_output nd) = map Some vs"
  proof -
    have "map e (nd_output nd) = map (e0(nd_output nd [\<mapsto>] vs)) (nd_output nd)"
      using o ih(2) by (intro map_cong) auto
    then show ?thesis using map_upds_values [OF w(1) vs(2), of e0] by (rule trans)
  qed
  ultimately have "satisfies sem e nd" using vs(1) unfolding satisfies_def by metis
  then show ?case using ih by (simp add: map_upds_apply_nontin)
qed simp

text \<open>An environment that satisfies all equations is what evaluation yields.\<close>

lemma solves_eval_nodes:
  assumes "readable known nodes" and "solves sem e nodes" and "\<And>x. x \<in> insert [] known \<Longrightarrow> e0 x = e x"
  shows "\<exists>e1. eval_nodes sem nodes e0 = Some e1
    \<and> (\<forall>x\<in>insert [] known \<union> outputs_of nodes. e1 x = e x) \<and> (\<forall>x. x \<notin> outputs_of nodes \<longrightarrow> e1 x = e0 x)"
  using assms
proof (induction nodes arbitrary: known e0)
  case (Cons nd nds)
  from Cons.prems(2) obtain vs where vs: "sem (op_type nd) (nd_domain nd) (nd_attribute nd) (map e (nd_input nd)) = Some vs"
    "map e (nd_output nd) = map Some vs"
    by (auto simp: satisfies_def)
  have "length vs = length (nd_output nd)" using vs(2) by (metis length_map)
  moreover have "map e0 (nd_input nd) = map e (nd_input nd)"
    using Cons.prems(1,3) by (intro map_cong refl) (auto simp: subset_iff)
  ultimately have n: "eval_node sem nd e0 = Some (e0(nd_output nd [\<mapsto>] vs))"
    using vs(1) unfolding eval_node_def bind_outputs_def by (simp only: option.case if_True refl)
  have k: "(e0(nd_output nd [\<mapsto>] vs)) x = e x" if "x \<in> insert [] (known \<union> set (nd_output nd))" for x
    using map_upds_known [OF vs(2), of e0 x] Cons.prems(3) [of x] that by auto
  obtain e1 where e1: "eval_nodes sem nds (e0(nd_output nd [\<mapsto>] vs)) = Some e1"
    "\<And>x. x \<in> insert [] (known \<union> set (nd_output nd)) \<union> outputs_of nds \<Longrightarrow> e1 x = e x"
    "\<And>x. x \<notin> outputs_of nds \<Longrightarrow> e1 x = (e0(nd_output nd [\<mapsto>] vs)) x"
  proof -
    have "readable (known \<union> set (nd_output nd)) nds" "solves sem e nds" using Cons.prems(1,2) by auto
    from Cons.IH [OF this k] that show ?thesis by blast
  qed
  show ?case
  proof (intro exI conjI ballI allI impI)
    show "eval_nodes sem (nd # nds) e0 = Some e1" using n e1(1) by simp
    show "e1 x = e x" if "x \<in> insert [] known \<union> outputs_of (nd # nds)" for x using that e1(2) [of x] by auto
    show "e1 x = e0 x" if "x \<notin> outputs_of (nd # nds)" for x
      using that e1(3) [of x] by (simp add: map_upds_apply_nontin)
  qed
qed simp

section \<open>Initializers\<close>

lemma init_env_lookup:
  fixes denote :: "nat list \<Rightarrow> rat list \<Rightarrow> 'v"
  shows "init_env denote inits given x =
     (case initializer_map inits x of None \<Rightarrow> given x | Some t \<Rightarrow> Some (denote (in_dims t) (in_vals t)))"
proof -
  have "map_of (map (\<lambda>t. (in_name t, f t)) ts) x = map_option f (map_of (map (\<lambda>t. (in_name t, t)) ts) x)" for f :: "onnx_init \<Rightarrow> 'v" and ts
    by (induction ts) auto
  then show ?thesis
    by (simp add: init_env_def initializer_map_def map_add_def rev_map split: option.splits)
qed

lemma initializer_map_append:
  "initializer_map (xs @ ys) x = (case initializer_map ys x of None \<Rightarrow> initializer_map xs x | Some t \<Rightarrow> Some t)"
  by (simp add: initializer_map_def map_add_def split: option.splits)

lemma initializer_map_None: "initializer_map inits x = None \<longleftrightarrow> x \<notin> in_name ` set inits"
  by (auto simp: initializer_map_def map_of_eq_None_iff image_iff)

lemma initializer_map_Some: "initializer_map inits x = Some t \<Longrightarrow> t \<in> set inits \<and> in_name t = x"
  by (auto simp: initializer_map_def dest: map_of_SomeD)

lemma initializer_map_distinct:
  assumes "distinct (map in_name inits)" and "t \<in> set inits"
  shows "initializer_map inits (in_name t) = Some t"
  unfolding initializer_map_def using assms by (intro map_of_is_SomeI) (auto simp: rev_map [symmetric] comp_def)

text \<open>The environment of an evaluation at an initializer.\<close>

lemma eval_graph_initializer:
  assumes "readable known (g_node g)" and "written_once known (g_node g)" and "in_name ` set (g_initializer g) \<subseteq> known"
    and "eval_graph sem denote g given = Some e" and "initializer_map (g_initializer g) x = Some t"
  shows "e x = Some (denote (in_dims t) (in_vals t))"
proof -
  have "x \<in> known" using initializer_map_Some [OF assms(5)] assms(3) by auto
  then have "x \<notin> outputs_of (g_node g)" using assms(2) unfolding written_once_def by blast
  then have "e x = init_env denote (g_initializer g) given x"
    using eval_nodes_solves [OF assms(1,2)] assms(4) unfolding eval_graph_def by blast
  then show ?thesis by (simp add: init_env_lookup assms(5))
qed

text \<open>An edit that keeps the outputs of each node and reads only old or new names.\<close>

lemma readable_edit:
  assumes "readable known nodes" and "length nodes' = length nodes"
    and "\<And>i. i < length nodes \<Longrightarrow> set (nd_output (nodes' ! i)) = set (nd_output (nodes ! i))
      \<and> set (nd_input (nodes' ! i)) \<subseteq> set (nd_input (nodes ! i)) \<union> N"
  shows "readable (known \<union> N) nodes'"
  using assms
proof (induction nodes arbitrary: known nodes')
  case (Cons nd nds)
  then obtain nd' nds' where n: "nodes' = nd' # nds'" by (cases nodes') auto
  have 0: "set (nd_output nd') = set (nd_output nd)" "set (nd_input nd') \<subseteq> set (nd_input nd) \<union> N"
    using Cons.prems(3) [of 0] by (simp_all add: n)
  have "readable (known \<union> set (nd_output nd) \<union> N) nds'"
  proof (rule Cons.IH)
    show "readable (known \<union> set (nd_output nd)) nds" "length nds' = length nds" using Cons.prems by (simp_all add: n)
    fix i
    assume "i < length nds"
    then show "set (nd_output (nds' ! i)) = set (nd_output (nds ! i)) \<and> set (nd_input (nds' ! i)) \<subseteq> set (nd_input (nds ! i)) \<union> N"
      using Cons.prems(3) [of "Suc i"] by (simp add: n)
  qed
  moreover have "known \<union> set (nd_output nd) \<union> N = known \<union> N \<union> set (nd_output nd)" by auto
  ultimately show ?case using Cons.prems(1) 0 by (auto simp: n)
qed simp

text \<open>An edit that puts a list of nodes in the place of each node.\<close>

lemma readable_expand:
  assumes "readable known nodes"
    and "\<And>i. i < length nodes \<Longrightarrow> outputs_of (take i nodes) \<subseteq> outputs_of (concat (map ex [0..<i]))"
    and "\<And>i K. i < length nodes \<Longrightarrow> N \<subseteq> K \<Longrightarrow> set (nd_input (nodes ! i)) \<subseteq> insert [] K \<Longrightarrow> readable K (ex i)"
  shows "readable (known \<union> N) (concat (map ex [0..<length nodes]))"
proof -
  have "readable (known \<union> N) (concat (map ex [0..<n]))" if "n \<le> length nodes" for n
    using that
  proof (induction n)
    case (Suc n)
    let ?K = "known \<union> N \<union> outputs_of (concat (map ex [0..<n]))"
    have "nodes = take n nodes @ nodes ! n # drop (Suc n) nodes" using Suc.prems by (intro id_take_nth_drop) simp
    then have "readable known (take n nodes @ nodes ! n # drop (Suc n) nodes)" using assms(1) by metis
    then have "set (nd_input (nodes ! n)) \<subseteq> insert [] (known \<union> outputs_of (take n nodes))"
      unfolding readable_append by simp
    also have "\<dots> \<subseteq> insert [] ?K" using assms(2) [of n] Suc.prems by auto
    finally have "readable ?K (ex n)" using Suc.prems by (intro assms(3)) auto
    then show ?case using Suc by (simp add: readable_append)
  qed simp
  then show ?thesis by simp
qed

lemma fresh_join: "A \<inter> insert z K = {} \<Longrightarrow> N \<inter> insert z (K \<union> A) = {} \<Longrightarrow> A \<inter> insert z (K \<union> N) = {}"
  by auto

text \<open>From a solution of the edited graph to its evaluation.\<close>

lemma edit_evaluates:
  assumes "readable known (g_node g)" and "solves sem e' (g_node g)" and "outputs_of (g_node g) \<inter> insert [] known = {}"
    and "\<And>x. x \<notin> outputs_of (g_node g) \<Longrightarrow> init_env denote (g_initializer g) given x = e' x"
  shows "eval_graph sem denote g given = Some e'"
proof -
  have "x \<notin> outputs_of (g_node g)" if "x \<in> insert [] known" for x
    using assms(3) that by (meson disjoint_iff)
  then have "init_env denote (g_initializer g) given x = e' x" if "x \<in> insert [] known" for x
    using assms(4) that by blast
  from solves_eval_nodes [OF assms(1,2) this] obtain e1 where
    e1: "eval_nodes sem (g_node g) (init_env denote (g_initializer g) given) = Some e1"
    "\<forall>x\<in>insert [] known \<union> outputs_of (g_node g). e1 x = e' x"
    "\<forall>x. x \<notin> outputs_of (g_node g) \<longrightarrow> e1 x = init_env denote (g_initializer g) given x"
    by blast
  have "e1 x = e' x" for x
    using e1(2,3) assms(4) by (cases "x \<in> outputs_of (g_node g)") (blast, metis)
  then have "e1 = e'" by (rule ext)
  then show ?thesis using e1(1) unfolding eval_graph_def by simp
qed

lemma eval_graph_start:
  assumes "readable known (g_node g)" and "written_once known (g_node g)" and "eval_graph sem denote g given = Some e"
  shows "solves sem e (g_node g)" and "x \<notin> outputs_of (g_node g) \<Longrightarrow> e x = init_env denote (g_initializer g) given x"
  using eval_nodes_solves [OF assms(1,2)] assms(3) unfolding eval_graph_def by blast+

end
