(* ===== verification/Onnx_Trace.thy ===== *)
theory Onnx_Trace
  imports Onnx_Solve "HOL-Library.List_Lexorder" "HOL-Library.Char_ord"
begin

text \<open>
  \<^verbatim>\<open>models/common/trace_onnx_dependencies.py\<close>: the nodes and outside tensors a set of outputs
  depends on, found by a recursive visit.  The number of frames Python leaves to the recursion is
  a parameter; the visit raises when it runs out.
\<close>

section \<open>The visit\<close>

datatype trace_error = RecursionError

record trace_state =
  needed_inputs :: "string set"
  used_nodes :: "nat set"

text \<open>The producer of a name: the last node that writes it; the empty name has none.\<close>

definition producers :: "onnx_node list \<Rightarrow> string \<Rightarrow> nat option" where
  "producers nodes name =
     (if name = [] then None
      else map_of (rev (concat (map (\<lambda>(idx, nd). map (\<lambda>out. (out, idx)) (nd_output nd)) (enumerate 0 nodes)))) name)"

fun visit_tensor ::
  "onnx_node list \<Rightarrow> string set \<Rightarrow> string set \<Rightarrow> nat \<Rightarrow> string \<Rightarrow> trace_state \<Rightarrow> trace_error + trace_state" where
  "visit_tensor nodes initializers stops 0 name st = Inl RecursionError"
| "visit_tensor nodes initializers stops (Suc frames) name st =
     (if name = [] then Inr st
      else if name \<in> stops then Inr (st\<lparr>needed_inputs := insert name (needed_inputs st)\<rparr>)
      else if name \<in> initializers then Inr st
      else case producers nodes name of
             None \<Rightarrow> Inr (st\<lparr>needed_inputs := insert name (needed_inputs st)\<rparr>)
           | Some idx \<Rightarrow>
               if idx \<in> used_nodes st then Inr st
               else res_fold (\<lambda>inp s. visit_tensor nodes initializers stops frames inp s)
                      (nd_input (nodes ! idx)) (st\<lparr>used_nodes := insert idx (used_nodes st)\<rparr>))"

definition trace_start :: trace_state where
  "trace_start = \<lparr>needed_inputs = {}, used_nodes = {}\<rparr>"

definition trace_outputs ::
  "nat \<Rightarrow> onnx_graph \<Rightarrow> string list \<Rightarrow> string list \<Rightarrow> trace_error + trace_state" where
  "trace_outputs frames g stop outputs =
     res_fold (visit_tensor (g_node g) (in_name ` set (g_initializer g)) (set stop) frames) outputs trace_start"

text \<open>The printed report.\<close>

record trace_report =
  tr_outputs :: "string list"
  node_count :: nat
  input_count :: nat
  tr_inputs :: "string list"
  tr_nodes :: "(nat \<times> string \<times> string) list"

definition trace_main ::
  "nat \<Rightarrow> onnx_graph \<Rightarrow> string list \<Rightarrow> string list \<Rightarrow> bool \<Rightarrow> trace_error + trace_report" where
  "trace_main frames g stop outputs show_nodes =
     res_bind (trace_outputs frames g stop outputs) (\<lambda>st.
       Inr \<lparr>tr_outputs = outputs, node_count = card (used_nodes st), input_count = card (needed_inputs st),
            tr_inputs = sorted_list_of_set (needed_inputs st),
            tr_nodes = (if show_nodes
              then map (\<lambda>idx. (idx, op_type (g_node g ! idx), nd_name (g_node g ! idx)))
                     (sorted_list_of_set (used_nodes st))
              else [])\<rparr>)"

section \<open>Producers\<close>

lemma enumerate_nth: "(i, nd) \<in> set (enumerate 0 nodes) \<longleftrightarrow> i < length nodes \<and> nd = nodes ! i"
  by (auto simp: in_set_enumerate_eq)

lemma producers_Some: "producers nodes name = Some i \<Longrightarrow> i < length nodes \<and> name \<in> set (nd_output (nodes ! i))"
proof -
  assume "producers nodes name = Some i"
  then have "(name, i) \<in> set (concat (map (\<lambda>(idx, nd). map (\<lambda>out. (out, idx)) (nd_output nd)) (enumerate 0 nodes)))"
    unfolding producers_def by (metis map_of_SomeD set_rev option.distinct(1))
  then show ?thesis by (auto simp: enumerate_nth)
qed

lemma producers_None: "producers nodes name = None \<Longrightarrow> name \<noteq> [] \<Longrightarrow> name \<notin> outputs_of nodes"
proof
  assume a: "producers nodes name = None" "name \<noteq> []" "name \<in> outputs_of nodes"
  then obtain i where i: "i < length nodes" "name \<in> set (nd_output (nodes ! i))"
    by (metis UN_E in_set_conv_nth)
  then have "(name, i) \<in> set (concat (map (\<lambda>(idx, nd). map (\<lambda>out. (out, idx)) (nd_output nd)) (enumerate 0 nodes)))"
    by (force simp: enumerate_nth)
  then show False using a unfolding producers_def by (auto simp: map_of_eq_None_iff image_iff)
qed

section \<open>What the visit collects\<close>

text \<open>A name is settled when the state accounts for its value.\<close>

definition settled :: "onnx_node list \<Rightarrow> string set \<Rightarrow> string set \<Rightarrow> trace_state \<Rightarrow> string \<Rightarrow> bool" where
  "settled nodes inits stops st name \<longleftrightarrow>
     name = [] \<or> name \<in> needed_inputs st \<or> name \<in> inits - stops
     \<or> name \<notin> stops \<union> inits \<and> (\<exists>i\<in>used_nodes st. producers nodes name = Some i)"

text \<open>The tensors that are visited, and the nodes behind them.\<close>

inductive traced :: "onnx_node list \<Rightarrow> string set \<Rightarrow> string set \<Rightarrow> string set \<Rightarrow> string \<Rightarrow> bool"
  for nodes inits stops outs where
  out: "name \<in> outs \<Longrightarrow> traced nodes inits stops outs name"
| inp: "traced nodes inits stops outs name \<Longrightarrow> name \<notin> stops \<union> inits \<Longrightarrow> producers nodes name = Some i
    \<Longrightarrow> x \<in> set (nd_input (nodes ! i)) \<Longrightarrow> traced nodes inits stops outs x"

definition traced_nodes :: "onnx_node list \<Rightarrow> string set \<Rightarrow> string set \<Rightarrow> string set \<Rightarrow> nat set" where
  "traced_nodes nodes inits stops outs =
     {i. \<exists>name. traced nodes inits stops outs name \<and> name \<notin> stops \<union> inits \<and> producers nodes name = Some i}"

definition traced_inputs :: "onnx_node list \<Rightarrow> string set \<Rightarrow> string set \<Rightarrow> string set \<Rightarrow> string set" where
  "traced_inputs nodes inits stops outs =
     {name. traced nodes inits stops outs name \<and> name \<noteq> []
        \<and> (name \<in> stops \<or> name \<notin> inits \<and> producers nodes name = None)}"

text \<open>Growth of the state, and what it gains.\<close>

definition grows :: "trace_state \<Rightarrow> trace_state \<Rightarrow> bool" where
  "grows st st' \<longleftrightarrow> needed_inputs st \<subseteq> needed_inputs st' \<and> used_nodes st \<subseteq> used_nodes st'"

lemma grows_refl [simp]: "grows st st"
  by (simp add: grows_def)

lemma grows_trans: "grows a b \<Longrightarrow> grows b c \<Longrightarrow> grows a c"
  by (auto simp: grows_def)

lemma settled_grows: "settled nodes inits stops st name \<Longrightarrow> grows st st' \<Longrightarrow> settled nodes inits stops st' name"
  by (auto simp: settled_def grows_def)

definition gains :: "onnx_node list \<Rightarrow> string set \<Rightarrow> string set \<Rightarrow> trace_state \<Rightarrow> trace_state \<Rightarrow> bool" where
  "gains nodes inits stops st st' \<longleftrightarrow> grows st st'
     \<and> (\<forall>i\<in>used_nodes st' - used_nodes st. \<forall>x\<in>set (nd_input (nodes ! i)). settled nodes inits stops st' x)"

lemma gains_refl [simp]: "gains nodes inits stops st st"
  by (simp add: gains_def)

lemma gains_trans:
  assumes "gains nodes inits stops a b" and "gains nodes inits stops b c"
  shows "gains nodes inits stops a c"
  unfolding gains_def
proof (intro conjI ballI)
  show "grows a c" using assms grows_trans by (auto simp: gains_def)
  fix i x
  assume i: "i \<in> used_nodes c - used_nodes a" "x \<in> set (nd_input (nodes ! i))"
  show "settled nodes inits stops c x"
  proof (cases "i \<in> used_nodes b")
    case True
    then have "settled nodes inits stops b x" using assms(1) i by (auto simp: gains_def)
    then show ?thesis using assms(2) settled_grows by (auto simp: gains_def)
  next
    case False
    then show ?thesis using assms(2) i by (auto simp: gains_def)
  qed
qed

lemma fold_gains:
  assumes "\<And>x s s'. visit x s = Inr s' \<Longrightarrow> gains nodes inits stops s s' \<and> settled nodes inits stops s' x"
    and "res_fold visit xs st = Inr st'"
  shows "gains nodes inits stops st st' \<and> (\<forall>x\<in>set xs. settled nodes inits stops st' x)"
  using assms(2)
proof (induction xs arbitrary: st)
  case (Cons x xs)
  then obtain s where s: "visit x st = Inr s" "res_fold visit xs s = Inr st'" by auto
  have *: "gains nodes inits stops s st' \<and> (\<forall>x\<in>set xs. settled nodes inits stops st' x)"
    by (rule Cons.IH) (rule s(2))
  moreover have "grows s st'" using * by (simp add: gains_def)
  ultimately show ?case
    using assms(1) [OF s(1)] gains_trans settled_grows by (metis set_ConsD)
qed simp

lemma visit_gains:
  "visit_tensor nodes inits stops frames name st = Inr st' \<Longrightarrow>
     gains nodes inits stops st st' \<and> settled nodes inits stops st' name"
proof (induction frames arbitrary: name st st')
  case (Suc frames)
  show ?case
  proof (cases "name = [] \<or> name \<in> stops \<or> name \<in> inits \<or> producers nodes name = None")
    case True
    then show ?thesis using Suc.prems
      by (auto simp: gains_def grows_def settled_def split: if_splits)
  next
    case False
    then obtain i where i: "producers nodes name = Some i" by auto
    show ?thesis
    proof (cases "i \<in> used_nodes st")
      case True
      then show ?thesis using Suc.prems False i by (auto simp: settled_def)
    next
      case fresh: False
      let ?s = "st\<lparr>used_nodes := insert i (used_nodes st)\<rparr>"
      have "res_fold (\<lambda>inp s. visit_tensor nodes inits stops frames inp s) (nd_input (nodes ! i)) ?s = Inr st'"
        using Suc.prems False i fresh by simp
      from fold_gains [OF Suc.IH this]
      have g: "gains nodes inits stops ?s st'" "\<forall>x\<in>set (nd_input (nodes ! i)). settled nodes inits stops st' x"
        by auto
      then have "i \<in> used_nodes st'" "grows st st'" by (auto simp: gains_def grows_def)
      then show ?thesis using g i False by (auto simp: gains_def settled_def)
    qed
  qed
qed simp

text \<open>Nothing else is collected.\<close>

definition confined :: "onnx_node list \<Rightarrow> string set \<Rightarrow> string set \<Rightarrow> string set \<Rightarrow> trace_state \<Rightarrow> bool" where
  "confined nodes inits stops outs st \<longleftrightarrow>
     used_nodes st \<subseteq> traced_nodes nodes inits stops outs \<and> needed_inputs st \<subseteq> traced_inputs nodes inits stops outs"

lemma fold_keeps:
  assumes "\<And>x s s'. x \<in> set xs \<Longrightarrow> P s \<Longrightarrow> f x s = Inr s' \<Longrightarrow> P s'" and "P st" and "res_fold f xs st = Inr st'"
  shows "P st'"
  using assms
proof (induction xs arbitrary: st)
  case (Cons x xs)
  then obtain s where s: "f x st = Inr s" "res_fold f xs s = Inr st'" by auto
  have "P s" using Cons.prems(1,2) s(1) by (meson list.set_intros(1))
  then show ?case using Cons.IH [OF _ _ s(2)] Cons.prems(1) by (meson list.set_intros(2))
qed simp

lemma visit_confined:
  "visit_tensor nodes inits stops frames name st = Inr st' \<Longrightarrow> confined nodes inits stops outs st \<Longrightarrow>
     traced nodes inits stops outs name \<Longrightarrow> confined nodes inits stops outs st'"
proof (induction frames arbitrary: name st st')
  case (Suc frames)
  show ?case
  proof (cases "name = [] \<or> name \<in> stops \<or> name \<in> inits \<or> producers nodes name = None")
    case True
    then show ?thesis using Suc.prems
      by (auto simp: confined_def traced_inputs_def split: if_splits)
  next
    case False
    then obtain i where i: "producers nodes name = Some i" by auto
    show ?thesis
    proof (cases "i \<in> used_nodes st")
      case True
      then show ?thesis using Suc.prems False i by auto
    next
      case fresh: False
      let ?s = "st\<lparr>used_nodes := insert i (used_nodes st)\<rparr>"
      have "confined nodes inits stops outs ?s"
        using Suc.prems(2,3) False i by (auto simp: confined_def traced_nodes_def)
      moreover have run: "res_fold (\<lambda>inp s. visit_tensor nodes inits stops frames inp s) (nd_input (nodes ! i)) ?s = Inr st'"
        using Suc.prems(1) False i fresh by simp
      moreover have "traced nodes inits stops outs x" if "x \<in> set (nd_input (nodes ! i))" for x
        using traced.inp [OF Suc.prems(3) _ i that] False by simp
      ultimately show ?thesis
        using fold_keeps [where P = "confined nodes inits stops outs", OF _ _ run] Suc.IH by blast
    qed
  qed
qed simp

text \<open>The recursion is at most one frame deeper than there are nodes.\<close>

lemma fold_total:
  assumes "\<And>x s. grows st s \<Longrightarrow> \<exists>s'. f x s = Inr s' \<and> grows s s'" and "grows st s"
  shows "\<exists>s'. res_fold f xs s = Inr s' \<and> grows s s'"
  using assms(2)
proof (induction xs arbitrary: s)
  case (Cons x xs)
  then obtain s1 where s1: "f x s = Inr s1" "grows s s1" using assms(1) by blast
  then obtain s2 where "res_fold f xs s1 = Inr s2" "grows s1 s2"
    using Cons.IH [of s1] Cons.prems grows_trans by blast
  then show ?case using s1 grows_trans by auto
qed simp

lemma visit_total:
  assumes "card ({..<length nodes} - used_nodes st) < frames"
  shows "\<exists>st'. visit_tensor nodes inits stops frames name st = Inr st' \<and> grows st st'"
  using assms
proof (induction frames arbitrary: name st)
  case (Suc frames)
  show ?case
  proof (cases "name = [] \<or> name \<in> stops \<or> name \<in> inits \<or> producers nodes name = None")
    case True
    then show ?thesis by (auto simp: grows_def)
  next
    case False
    then obtain i where i: "producers nodes name = Some i" by auto
    show ?thesis
    proof (cases "i \<in> used_nodes st")
      case fresh: False
      let ?s = "st\<lparr>used_nodes := insert i (used_nodes st)\<rparr>"
      have "i \<in> {..<length nodes} - used_nodes st" using producers_Some [OF i] fresh by simp
      then have "card ({..<length nodes} - used_nodes st - {i}) < card ({..<length nodes} - used_nodes st)"
        by (intro card_Diff1_less) auto
      moreover have "card ({..<length nodes} - used_nodes s) \<le> card ({..<length nodes} - used_nodes st - {i})"
        if "grows ?s s" for s
        using that by (intro card_mono) (auto simp: grows_def)
      ultimately have "card ({..<length nodes} - used_nodes s) < frames" if "grows ?s s" for s
        using Suc.prems that by (meson less_Suc_eq_le less_le_trans le_less_trans)
      then have "\<exists>s'. res_fold (\<lambda>inp s. visit_tensor nodes inits stops frames inp s) (nd_input (nodes ! i)) ?s = Inr s'
          \<and> grows ?s s'"
        using Suc.IH by (intro fold_total [where st = ?s]) auto
      then show ?thesis using False i fresh by (auto simp: grows_def)
    qed (use False i in auto)
  qed
qed simp

lemma trace_outputs_total:
  assumes "length (g_node g) < frames"
  shows "\<exists>st. trace_outputs frames g stop outputs = Inr st"
proof -
  have "card ({..<length (g_node g)} - used_nodes s) < frames" for s
    using assms card_mono [of "{..<length (g_node g)}" "{..<length (g_node g)} - used_nodes s"] by auto
  then show ?thesis
    unfolding trace_outputs_def using fold_total [where st = trace_start] visit_total grows_refl by metis
qed

lemma trace_outputs_gains:
  assumes "trace_outputs frames g stop outputs = Inr st"
  shows "(\<forall>x\<in>set outputs. settled (g_node g) (in_name ` set (g_initializer g)) (set stop) st x)
    \<and> (\<forall>i\<in>used_nodes st. \<forall>x\<in>set (nd_input (g_node g ! i)).
         settled (g_node g) (in_name ` set (g_initializer g)) (set stop) st x)
    \<and> confined (g_node g) (in_name ` set (g_initializer g)) (set stop) (set outputs) st"
proof -
  have "confined (g_node g) (in_name ` set (g_initializer g)) (set stop) (set outputs) trace_start"
    by (simp add: confined_def trace_start_def)
  then have "confined (g_node g) (in_name ` set (g_initializer g)) (set stop) (set outputs) st"
    using fold_keeps [OF _ _ assms [unfolded trace_outputs_def]] visit_confined traced.out by metis
  then show ?thesis
    using fold_gains [OF visit_gains assms [unfolded trace_outputs_def]]
    by (auto simp: gains_def trace_start_def)
qed

lemma traced_settled:
  assumes "trace_outputs frames g stop outputs = Inr st"
    and "traced (g_node g) (in_name ` set (g_initializer g)) (set stop) (set outputs) name"
  shows "settled (g_node g) (in_name ` set (g_initializer g)) (set stop) st name"
  using assms(2)
proof induction
  case (out name)
  then show ?case using trace_outputs_gains [OF assms(1)] by blast
next
  case (inp name i x)
  have "name \<noteq> []" using inp.hyps by (auto simp: producers_def)
  moreover have "name \<notin> needed_inputs st"
    using trace_outputs_gains [OF assms(1)] inp.hyps by (auto simp: confined_def traced_inputs_def)
  ultimately have "i \<in> used_nodes st" using inp.IH inp.hyps by (auto simp: settled_def)
  then show ?case using trace_outputs_gains [OF assms(1)] inp.hyps by blast
qed

text \<open>The tensors that are collected are finitely many.\<close>

lemma visit_finite:
  "visit_tensor nodes inits stops frames name st = Inr st' \<Longrightarrow> finite (needed_inputs st) \<Longrightarrow> finite (needed_inputs st')"
proof (induction frames arbitrary: name st st')
  case (Suc frames)
  note keep = fold_keeps [where P = "\<lambda>s. finite (needed_inputs s)"]
  show ?case
  proof (cases "name = [] \<or> name \<in> stops \<or> name \<in> inits \<or> producers nodes name = None")
    case True
    then show ?thesis using Suc.prems by (auto split: if_splits)
  next
    case False
    then obtain i where i: "producers nodes name = Some i" by auto
    show ?thesis
    proof (cases "i \<in> used_nodes st")
      case fresh: False
      have "res_fold (\<lambda>inp s. visit_tensor nodes inits stops frames inp s) (nd_input (nodes ! i))
          (st\<lparr>used_nodes := insert i (used_nodes st)\<rparr>) = Inr st'"
        using Suc.prems(1) False i fresh by simp
      from keep [OF _ _ this] show ?thesis using Suc.IH Suc.prems(2) by simp
    qed (use Suc.prems False i in auto)
  qed
qed simp

lemma trace_finite: "trace_outputs frames g stop outputs = Inr st \<Longrightarrow> finite (needed_inputs st)"
  unfolding trace_outputs_def
  by (rule fold_keeps [where P = "\<lambda>s. finite (needed_inputs s)"]) (auto simp: trace_start_def dest: visit_finite)

section \<open>Properties\<close>

definition eg_trace_graph :: onnx_graph where
  "eg_trace_graph =
     \<lparr>g_node = [make_node ''MatMul'' [''x'', ''W''] [''h''] ''/h'' [], make_node ''Relu'' [''z''] [''u''] ''/u'' [],
        make_node ''Relu'' [''h''] [''y''] ''/y'' []],
      g_initializer = [\<lparr>in_name = ''W'', in_dims = [1], in_vals = [3], in_itemsize = 4\<rparr>]\<rparr>"

lemma trace_sets:
  assumes "length (g_node g) < frames"
  shows "\<exists>st. trace_outputs frames g stop outputs = Inr st
    \<and> used_nodes st = traced_nodes (g_node g) (in_name ` set (g_initializer g)) (set stop) (set outputs)
    \<and> needed_inputs st = traced_inputs (g_node g) (in_name ` set (g_initializer g)) (set stop) (set outputs)"
proof -
  obtain st where st: "trace_outputs frames g stop outputs = Inr st" using trace_outputs_total [OF assms] by blast
  let ?c = "confined (g_node g) (in_name ` set (g_initializer g)) (set stop) (set outputs) st"
  have c: ?c using trace_outputs_gains [OF st] by blast
  have "traced_nodes (g_node g) (in_name ` set (g_initializer g)) (set stop) (set outputs) \<subseteq> used_nodes st"
  proof
    fix i
    assume "i \<in> traced_nodes (g_node g) (in_name ` set (g_initializer g)) (set stop) (set outputs)"
    then obtain name where n: "traced (g_node g) (in_name ` set (g_initializer g)) (set stop) (set outputs) name"
      "name \<notin> set stop \<union> in_name ` set (g_initializer g)" "producers (g_node g) name = Some i"
      by (auto simp: traced_nodes_def)
    have "name \<noteq> []" "name \<notin> needed_inputs st"
      using n c by (auto simp: producers_def confined_def traced_inputs_def)
    then show "i \<in> used_nodes st" using traced_settled [OF st n(1)] n(2,3) by (auto simp: settled_def)
  qed
  moreover have "traced_inputs (g_node g) (in_name ` set (g_initializer g)) (set stop) (set outputs) \<subseteq> needed_inputs st"
  proof
    fix x
    assume x: "x \<in> traced_inputs (g_node g) (in_name ` set (g_initializer g)) (set stop) (set outputs)"
    then have "settled (g_node g) (in_name ` set (g_initializer g)) (set stop) st x"
      by (intro traced_settled [OF st]) (simp add: traced_inputs_def)
    then show "x \<in> needed_inputs st" using x unfolding traced_inputs_def settled_def by force
  qed
  ultimately show ?thesis using st c by (auto simp: confined_def)
qed

lemma distinct_position:
  assumes "sorted_wrt (<) xs" and "p < length xs" and "q < length xs" and "xs ! p < (xs ! q :: nat)"
  shows "p < q"
  using assms sorted_wrt_nth_less [OF assms(1), of q p] by (metis less_asym less_irrefl nat_neq_iff)

text \<open>
  C33: the trace is exact.  When Python leaves more frames to the recursion than the graph has
  nodes, the program ends without an error.  The nodes it prints are those an output depends on
  through tensors that are neither stopped at nor initializers, each once, in the order of the graph,
  with its operator and name; the inputs it prints are the stopped tensors and the tensors without a
  producer on the way, each once and sorted; the counts are theirs.  In a graph that writes every
  tensor once and reads it later, the producer of a tensor is printed before its consumers.
\<close>

theorem trace_exact:
  assumes "length (g_node g) < frames"
  shows "\<exists>report. trace_main frames g stop outputs show_nodes = Inr report \<and> tr_outputs report = outputs
    \<and> sorted_wrt (<) (tr_inputs report) \<and> input_count report = length (tr_inputs report)
    \<and> set (tr_inputs report) = traced_inputs (g_node g) (in_name ` set (g_initializer g)) (set stop) (set outputs)
    \<and> node_count report = card (traced_nodes (g_node g) (in_name ` set (g_initializer g)) (set stop) (set outputs))
    \<and> (\<not> show_nodes \<longrightarrow> tr_nodes report = [])
    \<and> (show_nodes \<longrightarrow> sorted_wrt (<) (map fst (tr_nodes report))
         \<and> fst ` set (tr_nodes report) = traced_nodes (g_node g) (in_name ` set (g_initializer g)) (set stop) (set outputs)
         \<and> (\<forall>(i, ty, name)\<in>set (tr_nodes report). i < length (g_node g) \<and> ty = op_type (g_node g ! i) \<and> name = nd_name (g_node g ! i)))
    \<and> (\<forall>known p q x. readable known (g_node g) \<and> written_once known (g_node g)
         \<and> p < length (tr_nodes report) \<and> q < length (tr_nodes report)
         \<and> x \<in> set (nd_output (g_node g ! fst (tr_nodes report ! p))) \<and> x \<in> set (nd_input (g_node g ! fst (tr_nodes report ! q)))
         \<longrightarrow> p < q)"
proof -
  let ?N = "traced_nodes (g_node g) (in_name ` set (g_initializer g)) (set stop) (set outputs)"
  obtain st where st: "trace_outputs frames g stop outputs = Inr st" "used_nodes st = ?N"
      "needed_inputs st = traced_inputs (g_node g) (in_name ` set (g_initializer g)) (set stop) (set outputs)"
    using trace_sets [OF assms] by blast
  have lt: "?N \<subseteq> {..<length (g_node g)}" by (auto simp: traced_nodes_def dest: producers_Some)
  then have fin: "finite ?N" by (rule finite_subset) simp
  have "finite (needed_inputs st)" by (rule trace_finite [OF st(1)])
  then have inp: "set (sorted_list_of_set (needed_inputs st)) = needed_inputs st" "sorted_wrt (<) (sorted_list_of_set (needed_inputs st))"
      "length (sorted_list_of_set (needed_inputs st)) = card (needed_inputs st)"
    by simp_all
  define ns where "ns = (if show_nodes then map (\<lambda>idx. (idx, op_type (g_node g ! idx), nd_name (g_node g ! idx)))
      (sorted_list_of_set ?N) else [])"
  have report: "trace_main frames g stop outputs show_nodes = Inr \<lparr>tr_outputs = outputs, node_count = card ?N,
      input_count = card (needed_inputs st), tr_inputs = sorted_list_of_set (needed_inputs st), tr_nodes = ns\<rparr>"
    by (simp add: trace_main_def st(1,2) ns_def)
  have fsts: "map fst ns = (if show_nodes then sorted_list_of_set ?N else [])" by (simp add: ns_def o_def)
  then have sorted: "sorted_wrt (<) (map fst ns)" using fin by simp
  have mem: "i < length (g_node g) \<and> ty = op_type (g_node g ! i) \<and> name = nd_name (g_node g ! i)"
    if "(i, ty, name) \<in> set ns" for i ty name
    using that lt fin by (auto simp: ns_def split: if_splits)
  have "p < q" if a: "readable known (g_node g)" "written_once known (g_node g)" "p < length ns" "q < length ns"
    "x \<in> set (nd_output (g_node g ! fst (ns ! p)))" "x \<in> set (nd_input (g_node g ! fst (ns ! q)))" for known p q x
  proof -
    have "fst (ns ! p) < length (g_node g)" "fst (ns ! q) < length (g_node g)"
      using mem a(3,4) by (metis nth_mem prod.collapse)+
    then have "fst (ns ! p) < fst (ns ! q)" using read_after_write [OF a(1,2)] a(5,6) by blast
    then show "p < q" using distinct_position [OF sorted] a(3,4) by simp
  qed
  note order = this
  have shown: "fst ` set ns = ?N" if show_nodes using fsts fin that by (simp flip: set_map)
  have hidden: "\<not> show_nodes \<longrightarrow> ns = []" by (simp add: ns_def)
  have entries: "\<forall>(i, ty, name)\<in>set ns. i < length (g_node g) \<and> ty = op_type (g_node g ! i) \<and> name = nd_name (g_node g ! i)"
    using mem by blast
  have ordered: "\<forall>known p q x. readable known (g_node g) \<and> written_once known (g_node g) \<and> p < length ns \<and> q < length ns
      \<and> x \<in> set (nd_output (g_node g ! fst (ns ! p))) \<and> x \<in> set (nd_input (g_node g ! fst (ns ! q))) \<longrightarrow> p < q"
    using order by blast
  obtain rep where rep: "trace_main frames g stop outputs show_nodes = Inr rep" "tr_outputs rep = outputs"
      "node_count rep = card ?N" "input_count rep = card (needed_inputs st)"
      "tr_inputs rep = sorted_list_of_set (needed_inputs st)" "tr_nodes rep = ns"
    by (rule that [OF report]) simp_all
  have hidden': "\<not> show_nodes \<Longrightarrow> ns = []" using hidden by blast
  show ?thesis
    by (rule exI [of _ rep], unfold rep(2-6), intro conjI impI)
      (rule rep(1) refl inp(2,3) inp(3) [symmetric] sorted shown hidden' entries ordered inp(1) [unfolded st(3)]
        | assumption | simp add: inp st(3))+
qed

theorem trace_exact_witness:
  "\<exists>report. trace_main 4 eg_trace_graph [] [''y''] True = Inr report
     \<and> fst ` set (tr_nodes report) = traced_nodes (g_node eg_trace_graph) {''W''} {} {''y''}
     \<and> map fst (tr_nodes report) = [0, 2] \<and> tr_inputs report = [''x'']"
proof -
  have "length (g_node eg_trace_graph) < 4" by (simp add: eg_trace_graph_def)
  from trace_exact [OF this, of "[]" "[''y'']" True]
  obtain report where r: "trace_main 4 eg_trace_graph [] [''y''] True = Inr report"
    "fst ` set (tr_nodes report) = traced_nodes (g_node eg_trace_graph) {''W''} {} {''y''}"
    by (auto simp: eg_trace_graph_def)
  have "case trace_main 4 eg_trace_graph [] [''y''] True of Inl _ \<Rightarrow> False
      | Inr report \<Rightarrow> map fst (tr_nodes report) = [0, 2] \<and> tr_inputs report = [''x'']"
    by code_simp
  then show ?thesis using r by simp
qed

text \<open>The reported nodes are a program slice.  If a graph that writes every tensor once and reads it
  later evaluates to an environment, then running only the reported nodes, in graph order, from any
  environment with the same initializers and the reported inputs set to the values they had,
  succeeds and gives every requested output the value it had.
\<close>

theorem trace_slice_exact:
  assumes "trace_outputs frames g stop outputs = Inr st"
    and "eval_graph sem denote g given = Some e"
    and "readable known (g_node g)" and "written_once known (g_node g)"
    and "in_name ` set (g_initializer g) \<subseteq> known"
    and "\<And>x. x \<in> {[]} \<union> in_name ` set (g_initializer g) \<union> needed_inputs st \<Longrightarrow> e0 x = e x"
  shows "\<exists>e1. eval_nodes sem (nths (g_node g) (used_nodes st)) e0 = Some e1 \<and> (\<forall>x\<in>set outputs. e1 x = e x)"
proof -
  let ?I = "in_name ` set (g_initializer g)" and ?nodes = "g_node g"
  have "solves sem e ?nodes"
    using eval_nodes_solves [OF assms(3,4), of sem "init_env denote (g_initializer g) given" e] assms(2)
    unfolding eval_graph_def by blast
  then have sol: "solves sem e (nths ?nodes (used_nodes st))" by (auto dest: in_set_nthsD)
  note T = trace_outputs_gains [OF assms(1)]
  have producer: "\<exists>j\<in>used_nodes st. j < length ?nodes \<and> x \<in> set (nd_output (?nodes ! j))"
    if "settled ?nodes ?I (set stop) st x" "x \<notin> insert [] (?I \<union> needed_inputs st)" for x
    using that unfolding settled_def by (metis DiffD1 UnCI insertCI producers_Some)
  have "readable (?I \<union> needed_inputs st) (nths ?nodes (used_nodes st))"
  proof (rule readable_nths)
    fix i x
    assume i: "i < length ?nodes" "i \<in> used_nodes st" "x \<in> set (nd_input (?nodes ! i))"
    then have "settled ?nodes ?I (set stop) st x" using T by blast
    then show "x \<in> insert [] (?I \<union> needed_inputs st) \<or> (\<exists>j\<in>used_nodes st. j < i \<and> x \<in> set (nd_output (?nodes ! j)))"
      using producer read_after_write [OF assms(3,4) i(1) _ i(3)] by blast
  qed
  note run = solves_eval_nodes [OF this sol, of e0]
  have "e0 x = e x" if "x \<in> insert [] (?I \<union> needed_inputs st)" for x using assms(6) that by blast
  from run [OF this] obtain e1 where e1: "eval_nodes sem (nths ?nodes (used_nodes st)) e0 = Some e1"
    "\<And>x. x \<in> insert [] (?I \<union> needed_inputs st) \<union> outputs_of (nths ?nodes (used_nodes st)) \<Longrightarrow> e1 x = e x"
    by blast
  have "e1 x = e x" if "x \<in> set outputs" for x
  proof (cases "x \<in> insert [] (?I \<union> needed_inputs st)")
    case False
    have "settled ?nodes ?I (set stop) st x" using T that by blast
    then obtain j where "j \<in> used_nodes st" "j < length ?nodes" "x \<in> set (nd_output (?nodes ! j))"
      using producer False by blast
    then have "x \<in> outputs_of (nths ?nodes (used_nodes st))" by (auto simp: set_nths)
    then show ?thesis using e1(2) by blast
  qed (use e1(2) in blast)
  then show ?thesis using e1(1) by blast
qed

text \<open>The example with numbers: the product and the doubled value.\<close>

definition eg_trace_sem :: "int onnx_sem" where
  "eg_trace_sem ty domain attrs xs =
     (if ty = ''MatMul'' then (case xs of [Some x, Some y] \<Rightarrow> Some [x * y] | _ \<Rightarrow> None)
      else (case xs of [Some x] \<Rightarrow> Some [2 * x] | _ \<Rightarrow> None))"

definition eg_trace_denote :: "nat list \<Rightarrow> rat list \<Rightarrow> int" where
  "eg_trace_denote dims vals = \<lfloor>hd vals\<rfloor>"

theorem trace_slice_exact_witness:
  "\<exists>st e e1. trace_outputs 4 eg_trace_graph [] [''y''] = Inr st
     \<and> eval_graph eg_trace_sem eg_trace_denote eg_trace_graph [''x'' \<mapsto> 5, ''z'' \<mapsto> 1] = Some e
     \<and> eval_nodes eg_trace_sem (nths (g_node eg_trace_graph) (used_nodes st)) [''x'' \<mapsto> 5, ''W'' \<mapsto> 3] = Some e1
     \<and> length (nths (g_node eg_trace_graph) (used_nodes st)) = 2 \<and> e1 ''y'' = e ''y'' \<and> e ''y'' = Some 30"
proof -
  have "case trace_outputs 4 eg_trace_graph [] [''y''] of Inl _ \<Rightarrow> False
      | Inr s \<Rightarrow> needed_inputs s = {''x''} \<and> used_nodes s = {0, 2}"
    by code_simp
  then obtain st where st: "trace_outputs 4 eg_trace_graph [] [''y''] = Inr st" "needed_inputs st = {''x''}" "used_nodes st = {0, 2}"
    by (auto split: sum.splits)
  have "case eval_graph eg_trace_sem eg_trace_denote eg_trace_graph [''x'' \<mapsto> 5, ''z'' \<mapsto> 1] of None \<Rightarrow> False
      | Some e \<Rightarrow> e ''y'' = Some 30 \<and> e [] = None \<and> e ''W'' = Some 3 \<and> e ''x'' = Some 5"
    by code_simp
  then obtain e where e: "eval_graph eg_trace_sem eg_trace_denote eg_trace_graph [''x'' \<mapsto> 5, ''z'' \<mapsto> 1] = Some e"
    "e ''y'' = Some 30" "e [] = None" "e ''W'' = Some 3" "e ''x'' = Some 5"
    by (auto split: option.splits)
  have "\<exists>e1. eval_nodes eg_trace_sem (nths (g_node eg_trace_graph) (used_nodes st)) [''x'' \<mapsto> 5, ''W'' \<mapsto> 3] = Some e1
      \<and> (\<forall>x\<in>set [''y'']. e1 x = e x)"
    by (rule trace_slice_exact [OF st(1) e(1), of "{''x'', ''z'', ''W''}"])
      (auto simp: e st eg_trace_graph_def make_node_def written_once_def)
  moreover have "length (nths (g_node eg_trace_graph) (used_nodes st)) = 2"
    unfolding st(3) by (simp add: eg_trace_graph_def nths_Cons)
  ultimately show ?thesis using st(1) e(1,2) by auto
qed

end
