(* ===== verification/W8_Layout.thy ===== *)
theory W8_Layout
  imports Onnx_Solve
begin

text \<open>
  The two scripts that edit an already quantized graph:
  \<^verbatim>\<open>scripts/selective_w8a16_onnx.py\<close> turns selected plugin nodes back into FP16 products and
  \<^verbatim>\<open>scripts/transpose_w8a16_onnx_layout.py\<close> changes the stored layout of the INT8 weights.
  The rounding to FP16 is \<open>half\<close>; a compiled pattern is the predicate of its search.
\<close>

section \<open>Attributes and labels\<close>

text \<open>The integer field of an attribute of another type is 0.\<close>

definition attr_i :: "json \<Rightarrow> int" where
  "attr_i v = (case v of JInt i \<Rightarrow> i | _ \<Rightarrow> 0)"

definition attr_int :: "dict \<Rightarrow> string \<Rightarrow> int \<Rightarrow> int" where
  "attr_int attrs name dflt = (case map_of attrs name of None \<Rightarrow> dflt | Some v \<Rightarrow> attr_i v)"

definition node_label :: "onnx_node \<Rightarrow> string" where
  "node_label nd = nd_name nd @ concat (map (\<lambda>s. CHR '' '' # s) (nd_input nd @ nd_output nd))"

definition projection_keys :: "string list" where
  "projection_keys = [''q_proj'', ''k_proj'', ''v_proj'', ''o_proj'', ''gate_proj'', ''up_proj'', ''down_proj'']"

definition projection_bucket :: "string \<Rightarrow> string" where
  "projection_bucket label =
     (case List.find (\<lambda>key. sublist key label) projection_keys of
        Some key \<Rightarrow> key
      | None \<Rightarrow> if sublist ''self_attn'' label then ''self_attn_other''
                else if sublist ''mlp'' label then ''mlp_other'' else ''other'')"

section \<open>Dequantization\<close>

datatype layout_error =
    QweightNotTwoDim
  | ScalesMismatch int
  | UnsupportedLayout int
  | NodeIndex
  | MissingInitializer string
  | NothingSelected

text \<open>Entries of a matrix stored with its axes swapped.\<close>

definition swapped :: "nat \<Rightarrow> nat \<Rightarrow> 'a list \<Rightarrow> 'a list" where
  "swapped rows cols xs = map (\<lambda>m. xs ! (m mod rows * cols + m div rows)) [0..<rows * cols]"

text \<open>The weight as \<^verbatim>\<open>[K, N]\<close>, from \<^verbatim>\<open>[K, N]\<close> (layout 0) or \<^verbatim>\<open>[N, K]\<close> (layout 1).\<close>

definition dequant_weight ::
  "(rat \<Rightarrow> rat) \<Rightarrow> nat list \<Rightarrow> rat list \<Rightarrow> rat list \<Rightarrow> int \<Rightarrow> layout_error + nat list \<times> rat list" where
  "dequant_weight half dims qweight scales layout =
     (case dims of
        [rows, cols] \<Rightarrow>
          if layout = 0
          then if length scales \<noteq> cols then Inl (ScalesMismatch 0)
               else Inr ([rows, cols],
                         map (\<lambda>m. half (qweight ! m * half (scales ! (m mod cols)))) [0..<rows * cols])
          else if layout = 1
          then if length scales \<noteq> rows then Inl (ScalesMismatch 1)
               else Inr ([cols, rows],
                         swapped rows cols
                           (map (\<lambda>m. half (qweight ! m * half (scales ! (m div cols)))) [0..<rows * cols]))
          else Inl (UnsupportedLayout layout)
      | _ \<Rightarrow> Inl QweightNotTwoDim)"

section \<open>Selective rollback\<close>

record select_args =
  rollback_regex :: "(string \<Rightarrow> bool) list"
  all_to_fp16 :: bool

record select_state =
  sel_nodes :: "onnx_node list"
  sel_inits :: "onnx_init list"
  sel_kept :: "(string \<times> nat) list"
  sel_rolled :: "(string \<times> nat) list"
  total_w8 :: nat

definition count_bucket :: "string \<Rightarrow> (string \<times> nat) list \<Rightarrow> (string \<times> nat) list" where
  "count_bucket key counts =
     AList.update key ((case map_of counts key of None \<Rightarrow> 0 | Some c \<Rightarrow> c) + 1) counts"

definition should_rollback :: "select_args \<Rightarrow> onnx_node \<Rightarrow> bool" where
  "should_rollback args nd \<longleftrightarrow>
     op_type nd = ''W8A16LinearPlugin''
     \<and> (all_to_fp16 args \<or> (\<exists>search\<in>set (rollback_regex args). search (node_label nd)))"

definition fp16_weight_name :: "onnx_node \<Rightarrow> string" where
  "fp16_weight_name nd = (if nd_name nd \<noteq> [] then nd_name nd else hd (nd_output nd)) @ ''_fp16_weight''"

definition rollback_weight ::
  "(rat \<Rightarrow> rat) \<Rightarrow> (string \<Rightarrow> onnx_init option) \<Rightarrow> onnx_node \<Rightarrow> layout_error + nat list \<times> rat list" where
  "rollback_weight half initializers nd =
     (if length (nd_input nd) < 3 then Inl NodeIndex
      else case (initializers (nd_input nd ! 1), initializers (nd_input nd ! 2)) of
        (Some q, Some s) \<Rightarrow>
          dequant_weight half (in_dims q) (in_vals q) (in_vals s) (attr_int (nd_attribute nd) ''weight_layout'' 0)
      | _ \<Rightarrow> Inl (MissingInitializer (nd_name nd)))"

definition rollback_node :: "onnx_node \<Rightarrow> onnx_node" where
  "rollback_node nd =
     (let out = hd (nd_output nd) in
      \<lparr>nd_name = (if nd_name nd \<noteq> [] then nd_name nd else out) @ ''_fp16_matmul'', op_type = ''MatMul'',
       nd_input = [hd (nd_input nd), fp16_weight_name nd], nd_output = [out], nd_domain = [], nd_attribute = []\<rparr>)"

definition select_node ::
  "(rat \<Rightarrow> rat) \<Rightarrow> select_args \<Rightarrow> (string \<Rightarrow> onnx_init option) \<Rightarrow> onnx_node \<Rightarrow> select_state
     \<Rightarrow> layout_error + select_state" where
  "select_node half args initializers nd st =
     (if op_type nd \<noteq> ''W8A16LinearPlugin'' then Inr (st\<lparr>sel_nodes := sel_nodes st @ [nd]\<rparr>)
      else let bucket = projection_bucket (node_label nd) in
        if \<not> should_rollback args nd
        then Inr (st\<lparr>sel_nodes := sel_nodes st @ [nd], sel_kept := count_bucket bucket (sel_kept st),
                     total_w8 := total_w8 st + 1\<rparr>)
        else res_bind (rollback_weight half initializers nd) (\<lambda>(dims, weight).
          if nd_output nd = [] then Inl NodeIndex
          else Inr (st\<lparr>sel_nodes := sel_nodes st @ [rollback_node nd],
                 sel_inits := sel_inits st @
                   [\<lparr>in_name = fp16_weight_name nd, in_dims = dims, in_vals = weight, in_itemsize = 2\<rparr>],
                 sel_rolled := count_bucket bucket (sel_rolled st), total_w8 := total_w8 st + 1\<rparr>)))"

definition select_start :: select_state where
  "select_start = \<lparr>sel_nodes = [], sel_inits = [], sel_kept = [], sel_rolled = [], total_w8 = 0\<rparr>"

definition select_main ::
  "(rat \<Rightarrow> rat) \<Rightarrow> select_args \<Rightarrow> onnx_graph \<Rightarrow> layout_error + onnx_graph \<times> select_state" where
  "select_main half args g =
     (if rollback_regex args = [] \<and> \<not> all_to_fp16 args then Inl NothingSelected
      else res_bind (res_fold (select_node half args (initializer_map (g_initializer g))) (g_node g) select_start)
        (\<lambda>st. Inr (\<lparr>g_node = sel_nodes st, g_initializer = g_initializer g @ sel_inits st\<rparr>, st)))"

section \<open>Layout change\<close>

text \<open>\<^verbatim>\<open>attr.i = 1\<close> on the first attribute of the name, or a new attribute.\<close>

fun set_layout :: "dict \<Rightarrow> dict" where
  "set_layout [] = [(''weight_layout'', JInt 1)]"
| "set_layout ((k, v) # attrs) = (if k = ''weight_layout'' then (k, JInt 1) # attrs else (k, v) # set_layout attrs)"

text \<open>The tensor object the dictionary holds for a name is the last of the list.\<close>

fun replace_last :: "onnx_init \<Rightarrow> onnx_init list \<Rightarrow> onnx_init list" where
  "replace_last t [] = []"
| "replace_last t (u # us) =
     (if in_name u = in_name t \<and> in_name t \<notin> in_name ` set us then t # us else u # replace_last t us)"

definition transposed :: "onnx_init \<Rightarrow> onnx_init" where
  "transposed t = t\<lparr>in_dims := rev (in_dims t), in_vals := swapped (in_dims t ! 0) (in_dims t ! 1) (in_vals t)\<rparr>"

definition layout_node ::
  "onnx_node \<Rightarrow> onnx_node list \<times> onnx_init list \<times> nat \<Rightarrow> layout_error + onnx_node list \<times> onnx_init list \<times> nat" where
  "layout_node nd = (\<lambda>(nodes, inits, converted).
     if op_type nd \<noteq> ''W8A16LinearPlugin'' then Inr (nodes @ [nd], inits, converted)
     else if length (nd_input nd) < 2 then Inl NodeIndex
     else case initializer_map inits (nd_input nd ! 1) of
            None \<Rightarrow> Inl (MissingInitializer (nd_input nd ! 1))
          | Some t \<Rightarrow>
              if length (in_dims t) \<noteq> 2 then Inl QweightNotTwoDim
              else Inr (nodes @ [nd\<lparr>nd_attribute := set_layout (nd_attribute nd)\<rparr>],
                        replace_last (transposed t) inits, converted + 1))"

definition layout_main :: "onnx_graph \<Rightarrow> layout_error + onnx_graph \<times> nat" where
  "layout_main g =
     res_bind (res_fold layout_node (g_node g) ([], g_initializer g, 0)) (\<lambda>(nodes, inits, converted).
       Inr (\<lparr>g_node = nodes, g_initializer = inits\<rparr>, converted))"

end
