(* ===== verification/W8_Layout_Props.thy ===== *)
theory W8_Layout_Props
  imports W8_Layout
begin

text \<open>
  Rolling plugin nodes back to products keeps what the graph computes, and so does the change of
  layout as long as no weight is shared and no node has the new layout already.
\<close>

section \<open>The plugin\<close>

text \<open>
  What is relied on: the plugin multiplies by the weight that its quantized tensor, scales and layout
  stand for, and a product has one result.
\<close>

definition plugin_sem :: "'v onnx_sem \<Rightarrow> (nat list \<Rightarrow> rat list \<Rightarrow> 'v) \<Rightarrow> (rat \<Rightarrow> rat) \<Rightarrow> bool" where
  "plugin_sem sem denote half \<longleftrightarrow>
     (\<forall>d d' a a' x dims q sdims s kn w.
        dequant_weight half dims q s (attr_int a ''weight_layout'' 0) = Inr (kn, w) \<longrightarrow>
        sem ''W8A16LinearPlugin'' d a [x, Some (denote dims q), Some (denote sdims s)]
          = sem ''MatMul'' d' a' [x, Some (denote kn w)])
     \<and> (\<forall>d a xs vs. sem ''MatMul'' d a xs = Some vs \<longrightarrow> length vs = 1)"

lemma plugin_semD:
  assumes "plugin_sem sem denote half"
  shows "dequant_weight half dims q s (attr_int a ''weight_layout'' 0) = Inr (kn, w) \<Longrightarrow>
      sem ''W8A16LinearPlugin'' d a [x, Some (denote dims q), Some (denote sdims s)]
        = sem ''MatMul'' d' a' [x, Some (denote kn w)]"
    and "sem ''MatMul'' d a xs = Some vs \<Longrightarrow> length vs = 1"
  using assms unfolding plugin_sem_def by blast+

text \<open>A plugin node has an activation, a weight and scales.\<close>

definition plugin_nodes :: "onnx_node list \<Rightarrow> bool" where
  "plugin_nodes nodes \<longleftrightarrow> (\<forall>nd\<in>set nodes. op_type nd = ''W8A16LinearPlugin'' \<longrightarrow> length (nd_input nd) = 3)"

lemma three_inputs: "length xs = 3 \<longleftrightarrow> (\<exists>x y z. xs = [x, y, z])"
  by (auto simp: length_Suc_conv eval_nat_numeral)

section \<open>Rollback\<close>

definition rolled_init :: "(rat \<Rightarrow> rat) \<Rightarrow> (string \<Rightarrow> onnx_init option) \<Rightarrow> onnx_node \<Rightarrow> onnx_init" where
  "rolled_init half inits nd =
     (case rollback_weight half inits nd of
        Inl e \<Rightarrow> undefined
      | Inr (dims, w) \<Rightarrow> \<lparr>in_name = fp16_weight_name nd, in_dims = dims, in_vals = w, in_itemsize = 2\<rparr>)"

lemma select_one:
  assumes "select_node half args inits nd st = Inr s"
  shows "sel_nodes s = sel_nodes st @ [if should_rollback args nd then rollback_node nd else nd]
      \<and> sel_inits s = sel_inits st @ (if should_rollback args nd then [rolled_init half inits nd] else [])
      \<and> (should_rollback args nd \<longrightarrow> nd_output nd \<noteq> [] \<and> (\<exists>dims w. rollback_weight half inits nd = Inr (dims, w)))
      \<and> total_w8 s = total_w8 st + (if op_type nd = ''W8A16LinearPlugin'' then 1 else 0)"
proof (cases "should_rollback args nd")
  case True
  then have p: "op_type nd = ''W8A16LinearPlugin''" by (simp add: should_rollback_def)
  obtain dims w where "rollback_weight half inits nd = Inr (dims, w)" "nd_output nd \<noteq> []"
    using assms True by (auto simp: select_node_def p Let_def split: if_splits)
  then show ?thesis using assms True by (simp add: select_node_def p Let_def rolled_init_def) auto
next
  case False
  show ?thesis
    using assms False by (cases "op_type nd = ''W8A16LinearPlugin''") (auto simp: select_node_def Let_def)
qed

lemma select_fold:
  assumes "res_fold (select_node half args inits) nodes st = Inr st'"
  shows "sel_nodes st' = sel_nodes st @ map (\<lambda>nd. if should_rollback args nd then rollback_node nd else nd) nodes
    \<and> sel_inits st' = sel_inits st @ map (rolled_init half inits) (filter (should_rollback args) nodes)
    \<and> (\<forall>nd\<in>set nodes. should_rollback args nd \<longrightarrow>
         nd_output nd \<noteq> [] \<and> (\<exists>dims w. rollback_weight half inits nd = Inr (dims, w)))
    \<and> total_w8 st' = total_w8 st + length (filter (\<lambda>nd. op_type nd = ''W8A16LinearPlugin'') nodes)"
  using assms
proof (induction nodes arbitrary: st)
  case (Cons nd nds)
  then obtain s where s: "select_node half args inits nd st = Inr s" "res_fold (select_node half args inits) nds s = Inr st'"
    by auto
  from s(1) have "sel_nodes s = sel_nodes st @ [if should_rollback args nd then rollback_node nd else nd]
      \<and> sel_inits s = sel_inits st @ (if should_rollback args nd then [rolled_init half inits nd] else [])
      \<and> (should_rollback args nd \<longrightarrow> nd_output nd \<noteq> [] \<and> (\<exists>dims w. rollback_weight half inits nd = Inr (dims, w)))
      \<and> total_w8 s = total_w8 st + (if op_type nd = ''W8A16LinearPlugin'' then 1 else 0)"
    by (rule select_one)
  then show ?case using Cons.IH [OF s(2)] by auto
qed simp

definition rolled_names :: "select_args \<Rightarrow> onnx_graph \<Rightarrow> string list" where
  "rolled_names args g = map fp16_weight_name (filter (should_rollback args) (g_node g))"

definition select_fresh :: "select_args \<Rightarrow> onnx_graph \<Rightarrow> string set \<Rightarrow> bool" where
  "select_fresh args g known \<longleftrightarrow>
     distinct (rolled_names args g) \<and> set (rolled_names args g) \<inter> insert [] (known \<union> outputs_of (g_node g)) = {}"

text \<open>One rolled back node.\<close>

lemma rollback_satisfies:
  assumes sem: "plugin_sem sem denote half" and sat: "satisfies sem e nd"
    and nd: "op_type nd = ''W8A16LinearPlugin''" "length (nd_input nd) = 3" "nd_output nd \<noteq> []"
    and w: "rollback_weight half inits nd = Inr (dims, w)"
    and e: "\<And>x t. inits x = Some t \<Longrightarrow> e x = Some (denote (in_dims t) (in_vals t))"
    and e': "e' (fp16_weight_name nd) = Some (denote dims w)"
    and same: "\<And>x. x \<in> set (nd_input nd) \<union> set (nd_output nd) \<Longrightarrow> e' x = e x"
  shows "satisfies sem e' (rollback_node nd) \<and> length (nd_output nd) = 1"
proof -
  obtain x y z where i: "nd_input nd = [x, y, z]" using nd(2) unfolding three_inputs by auto
  from w obtain q s where qs: "inits y = Some q" "inits z = Some s"
    "dequant_weight half (in_dims q) (in_vals q) (in_vals s) (attr_int (nd_attribute nd) ''weight_layout'' 0) = Inr (dims, w)"
    by (auto simp: rollback_weight_def i split: if_splits option.splits)
  from sat obtain vs where vs: "sem ''W8A16LinearPlugin'' (nd_domain nd) (nd_attribute nd)
      [e x, Some (denote (in_dims q) (in_vals q)), Some (denote (in_dims s) (in_vals s))] = Some vs"
    "map e (nd_output nd) = map Some vs"
    using e [OF qs(1)] e [OF qs(2)] by (auto simp: satisfies_def nd(1) i)
  have m: "sem ''MatMul'' [] [] [e x, Some (denote dims w)] = Some vs"
    using plugin_semD(1) [OF sem qs(3)] vs(1) by metis
  then have "length vs = 1" by (rule plugin_semD(2) [OF sem])
  then have "length (nd_output nd) = 1" using vs(2) by (metis length_map)
  then obtain out where out: "nd_output nd = [out]" by (auto simp: length_Suc_conv)
  then show ?thesis
    using m vs(2) e' same [of x] same [of out] by (simp add: satisfies_def rollback_node_def i)
qed

lemma rollback_solves:
  fixes denote :: "nat list \<Rightarrow> rat list \<Rightarrow> 'v"
  assumes "select_main half args g = Inr (g', report)" and "plugin_sem sem denote half" and "plugin_nodes (g_node g)"
    and "eval_graph sem denote g given = Some e"
    and "readable known (g_node g)" and "written_once known (g_node g)" and "in_name ` set (g_initializer g) \<subseteq> known"
    and "select_fresh args g known"
  defines "added \<equiv> sel_inits report"
  defines "e' \<equiv> init_env denote added e"
  shows "solves sem e' (g_node g') \<and> g_initializer g' = g_initializer g @ added
    \<and> set (map in_name added) = set (rolled_names args g) \<and> outputs_of (g_node g') = outputs_of (g_node g)
    \<and> readable (known \<union> set (rolled_names args g)) (g_node g')"
proof -
  let ?I = "initializer_map (g_initializer g)" and ?N = "set (rolled_names args g)"
  from assms(1) have g': "g_node g' = sel_nodes report" "g_initializer g' = g_initializer g @ added"
    and run: "res_fold (select_node half args ?I) (g_node g) select_start = Inr report"
    by (auto simp: select_main_def added_def split: if_splits)
  note F = select_fold [OF run]
  have nodes: "g_node g' = map (\<lambda>nd. if should_rollback args nd then rollback_node nd else nd) (g_node g)"
    using F g' by (simp add: select_start_def)
  have add: "added = map (rolled_init half ?I) (filter (should_rollback args) (g_node g))"
    using F by (simp add: added_def select_start_def)
  have iname: "in_name (rolled_init half ?I nd) = fp16_weight_name nd" if "nd \<in> set (g_node g)" "should_rollback args nd" for nd
    using F that by (fastforce simp: rolled_init_def)
  have names: "map in_name added = rolled_names args g"
    unfolding add rolled_names_def using iname by simp
  have sol: "solves sem e (g_node g)"
    using eval_nodes_solves [OF assms(5,6)] assms(4) unfolding eval_graph_def by blast
  have used: "inputs_of (g_node g) \<union> outputs_of (g_node g) \<subseteq> insert [] (known \<union> outputs_of (g_node g))"
    using readable_inputs [OF assms(5)] by blast
  have same: "e' x = e x" if "x \<notin> ?N" for x
    using that initializer_map_None [of added x] unfolding e'_def init_env_lookup names [symmetric]
    by (auto simp: image_iff)
  have keep: "e' x = e x" if "nd \<in> set (g_node g)" "x \<in> set (nd_input nd) \<union> set (nd_output nd)" for nd x
  proof (rule same)
    have "x \<in> insert [] (known \<union> outputs_of (g_node g))" using used that by blast
    then show "x \<notin> ?N" using assms(8) unfolding select_fresh_def by blast
  qed
  have rolled: "satisfies sem e' (rollback_node nd) \<and> length (nd_output nd) = 1"
    if nd: "nd \<in> set (g_node g)" "should_rollback args nd" for nd
  proof -
    obtain dims w where dw: "rollback_weight half ?I nd = Inr (dims, w)" "nd_output nd \<noteq> []" using F nd by blast
    have p: "op_type nd = ''W8A16LinearPlugin''" using nd(2) by (simp add: should_rollback_def)
    have "rolled_init half ?I nd \<in> set added" using add nd by auto
    moreover have "distinct (map in_name added)" using assms(8) names by (simp add: select_fresh_def)
    ultimately have "initializer_map added (in_name (rolled_init half ?I nd)) = Some (rolled_init half ?I nd)"
      by (intro initializer_map_distinct)
    then have "initializer_map added (fp16_weight_name nd) = Some (rolled_init half ?I nd)" using iname [OF nd] by simp
    then have "e' (fp16_weight_name nd) = Some (denote dims w)"
      by (simp add: e'_def init_env_lookup rolled_init_def dw)
    then show ?thesis
      using rollback_satisfies [where e = e and e' = e', OF assms(2) _ p _ dw(2,1) eval_graph_initializer [OF assms(5,6,7,4)]]
        sol nd(1) keep assms(3) p unfolding plugin_nodes_def by blast
  qed
  have "satisfies sem e' nd" if "nd \<in> set (g_node g)" for nd
    using sol satisfies_cong [of nd e' e sem] keep that by blast
  then have "solves sem e' (g_node g')" using rolled nodes by auto
  moreover have out: "set (nd_output (g_node g' ! i)) = set (nd_output (g_node g ! i))
      \<and> set (nd_input (g_node g' ! i)) \<subseteq> set (nd_input (g_node g ! i)) \<union> ?N" if "i < length (g_node g)" for i
  proof (cases "should_rollback args (g_node g ! i)")
    case True
    have m: "g_node g ! i \<in> set (g_node g)" using that by simp
    have "length (nd_output (g_node g ! i)) = 1" using rolled [OF m True] by simp
    moreover have "length (nd_input (g_node g ! i)) = 3"
      using assms(3) m True by (auto simp: plugin_nodes_def should_rollback_def)
    moreover have "fp16_weight_name (g_node g ! i) \<in> ?N" using m True by (auto simp: rolled_names_def)
    ultimately show ?thesis using that True
      by (auto simp: nodes rollback_node_def three_inputs length_Suc_conv)
  qed (use that nodes in auto)
  moreover have "readable (known \<union> ?N) (g_node g')"
    by (rule readable_edit [OF assms(5)]) (use nodes out in auto)
  moreover have "outputs_of (g_node g') = outputs_of (g_node g)"
  proof -
    have l: "length (g_node g') = length (g_node g)" using nodes by simp
    then have "set (nd_output (g_node g' ! i)) = set (nd_output (g_node g ! i))" if "i < length (g_node g)" for i
      using out that by blast
    then show ?thesis using l by (auto simp: set_conv_nth [of "g_node g'"] set_conv_nth [of "g_node g"])
  qed
  ultimately show ?thesis using g'(2) names by (metis list.set_map)
qed

section \<open>Change of layout\<close>

lemma length_swapped [simp]: "length (swapped rows cols xs) = rows * cols"
  by (simp add: swapped_def)

lemma index_bound: "r < rows \<Longrightarrow> c < cols \<Longrightarrow> c * rows + r < cols * (rows :: nat)"
proof -
  assume "r < rows" "c < cols"
  then have "c * rows + r < Suc c * rows" by simp
  also have "\<dots> \<le> cols * rows" using \<open>c < cols\<close> by (intro mult_le_mono1) simp
  finally show ?thesis .
qed

lemma index_parts: "m < cols * rows \<Longrightarrow> m mod cols < cols \<and> m div cols < (rows :: nat)"
  by (cases "cols = 0") (simp_all add: less_mult_imp_div_less mult.commute)

lemma swapped_entry:
  assumes "r < rows" and "c < cols"
  shows "swapped rows cols xs ! (c * rows + r) = xs ! (r * cols + c)"
  using index_bound [OF assms] assms by (simp add: swapped_def mult.commute)

lemma swapped_nth:
  assumes "m < rows * cols"
  shows "swapped rows cols xs ! m = xs ! (m mod rows * cols + m div rows)"
  using assms by (simp add: swapped_def)

lemma swapped_swapped:
  assumes "length xs = rows * cols"
  shows "swapped cols rows (swapped rows cols xs) = xs"
proof (rule nth_equalityI)
  fix m
  assume "m < length (swapped cols rows (swapped rows cols xs))"
  then have m: "m < cols * rows" by simp
  then have c: "m mod cols < cols" "m div cols < rows" using index_parts by blast+
  have "swapped cols rows (swapped rows cols xs) ! m = swapped rows cols xs ! (m mod cols * rows + m div cols)"
    using m by (rule swapped_nth)
  also have "\<dots> = xs ! (m div cols * cols + m mod cols)" using c by (intro swapped_entry)
  finally show "swapped cols rows (swapped rows cols xs) ! m = xs ! m" by simp
qed (simp add: assms mult.commute)

text \<open>A weight means the same in both layouts.\<close>

lemma dequant_swapped:
  assumes "length q = k * n" and "length s = n"
  shows "dequant_weight half [n, k] (swapped k n q) s 1 = dequant_weight half [k, n] q s 0"
proof -
  let ?xs = "map (\<lambda>m. half (swapped k n q ! m * half (s ! (m div k)))) [0..<n * k]"
  have "swapped n k ?xs = map (\<lambda>m. half (q ! m * half (s ! (m mod n)))) [0..<k * n]"
  proof (rule nth_equalityI)
    fix m
    assume "m < length (swapped n k ?xs)"
    then have m: "m < n * k" by simp
    then have c: "m mod n < n" "m div n < k" using index_parts by blast+
    let ?j = "m mod n * k + m div n"
    have j: "?j < n * k" "?j div k = m mod n" "?j mod k = m div n" using index_bound [OF c(2,1)] c by simp_all
    have "swapped n k ?xs ! m = half (swapped k n q ! ?j * half (s ! (m mod n)))"
      using swapped_nth [OF m, of ?xs] j by simp
    also have "swapped k n q ! ?j = q ! (m div n * n + m mod n)"
      using swapped_entry [OF c(2,1)] by simp
    finally show "swapped n k ?xs ! m = map (\<lambda>m. half (q ! m * half (s ! (m mod n)))) [0..<k * n] ! m"
      using m by (simp add: mult.commute)
  qed (simp add: mult.commute)
  then show ?thesis using assms by (simp add: dequant_weight_def)
qed

lemma attr_set_layout: "attr_int (set_layout a) ''weight_layout'' d = 1"
  by (induction a rule: set_layout.induct) (auto simp: attr_int_def attr_i_def)

lemma names_replace_last [simp]: "map in_name (replace_last t inits) = map in_name inits"
  by (induction inits) auto

lemma map_replace_last:
  "initializer_map (replace_last t inits) x =
     (if x = in_name t \<and> x \<in> in_name ` set inits then Some t else initializer_map inits x)"
proof (induction inits)
  case (Cons u us)
  have "initializer_map (v # vs) x =
      (case initializer_map vs x of None \<Rightarrow> if in_name v = x then Some v else None | Some w \<Rightarrow> Some w)" for v vs
    by (simp add: initializer_map_def map_add_def split: option.splits)
  moreover have "in_name ` set (replace_last t us) = in_name ` set us"
    by (metis names_replace_last list.set_map)
  ultimately show ?case using Cons initializer_map_None [of us x] by (auto split: option.splits)
qed (simp add: initializer_map_def)

definition is_plugin :: "onnx_node \<Rightarrow> bool" where
  "is_plugin nd \<longleftrightarrow> op_type nd = ''W8A16LinearPlugin''"

text \<open>The weights the loop meets, in order.\<close>

definition qweights :: "onnx_node list \<Rightarrow> string list" where
  "qweights nodes = map (\<lambda>nd. nd_input nd ! 1) (filter is_plugin nodes)"

definition layout_of :: "onnx_node \<Rightarrow> onnx_node" where
  "layout_of nd = (if is_plugin nd then nd\<lparr>nd_attribute := set_layout (nd_attribute nd)\<rparr> else nd)"

lemma count_distinct: "distinct xs \<Longrightarrow> count_list xs x = (if x \<in> set xs then 1 else 0)"
  by (induction xs) auto

lemma layout_fold:
  assumes "res_fold layout_node nodes (ns, inits, c) = Inr (ns', inits', c')"
  shows "ns' = ns @ map layout_of nodes \<and> c' = c + length (qweights nodes)
    \<and> map in_name inits' = map in_name inits
    \<and> (\<forall>x. initializer_map inits' x = map_option (transposed ^^ count_list (qweights nodes) x) (initializer_map inits x))"
  using assms
proof (induction nodes arbitrary: ns inits c)
  case (Cons nd nds)
  then obtain r where r: "layout_node nd (ns, inits, c) = Inr r" "res_fold layout_node nds r = Inr (ns', inits', c')" by auto
  show ?case
  proof (cases "is_plugin nd")
    case False
    then have "r = (ns @ [nd], inits, c)" using r(1) by (simp add: layout_node_def is_plugin_def)
    then show ?thesis using Cons.IH [of "ns @ [nd]" inits c] r(2) False by (simp add: qweights_def layout_of_def)
  next
    case True
    let ?y = "nd_input nd ! 1"
    from r(1) True obtain t where t: "initializer_map inits ?y = Some t" "length (in_dims t) = 2"
      "r = (ns @ [layout_of nd], replace_last (transposed t) inits, c + 1)"
      by (auto simp: layout_node_def is_plugin_def layout_of_def split: if_splits option.splits)
    have ty: "in_name t = ?y" "?y \<in> in_name ` set inits" using initializer_map_Some [OF t(1)] by force+
    have one: "initializer_map (replace_last (transposed t) inits) x
        = map_option (transposed ^^ (if x = ?y then 1 else 0)) (initializer_map inits x)" for x
      using ty t(1) by (simp add: map_replace_last transposed_def option.map_id)
    from Cons.IH [of "ns @ [layout_of nd]" "replace_last (transposed t) inits" "c + 1"] r(2) t(3)
    have ih: "ns' = (ns @ [layout_of nd]) @ map layout_of nds" "c' = c + 1 + length (qweights nds)"
      "map in_name inits' = map in_name inits"
      "\<And>x. initializer_map inits' x = map_option (transposed ^^ count_list (qweights nds) x)
          (initializer_map (replace_last (transposed t) inits) x)"
      by (auto simp del: map_append)
    have "initializer_map inits' x
        = map_option (transposed ^^ count_list (qweights (nd # nds)) x) (initializer_map inits x)" for x
      unfolding ih(4) one using True by (simp add: qweights_def option.map_comp funpow_swap1 comp_def)
    then show ?thesis using ih(1-3) True by (simp add: qweights_def)
  qed
qed (simp add: qweights_def option.map_id)

text \<open>
  The graphs the script is meant for: every plugin node has a two-dimensional weight of the old
  layout with a scale per column, and no weight is read elsewhere.
\<close>

definition old_layout :: "onnx_graph \<Rightarrow> bool" where
  "old_layout g \<longleftrightarrow>
     distinct (qweights (g_node g))
     \<and> (\<forall>nd\<in>set (g_node g). \<not> is_plugin nd \<longrightarrow> set (nd_input nd) \<inter> set (qweights (g_node g)) = {})
     \<and> (\<forall>nd\<in>set (g_node g). is_plugin nd \<longrightarrow>
          attr_int (nd_attribute nd) ''weight_layout'' 0 = 0
          \<and> (\<exists>x y z q s k n. nd_input nd = [x, y, z] \<and> x \<notin> set (qweights (g_node g)) \<and> z \<notin> set (qweights (g_node g))
               \<and> initializer_map (g_initializer g) y = Some q \<and> initializer_map (g_initializer g) z = Some s
               \<and> in_dims q = [k, n] \<and> length (in_vals q) = k * n \<and> length (in_vals s) = n))"

lemma layout_satisfies:
  assumes sem: "plugin_sem sem denote half" and sat: "satisfies sem e nd" and p: "is_plugin nd"
    and old: "attr_int (nd_attribute nd) ''weight_layout'' 0 = 0" and i: "nd_input nd = [x, y, z]"
    and q: "in_dims q = [k, n]" "length (in_vals q) = k * n" "length (in_vals s) = n"
    and e: "e y = Some (denote (in_dims q) (in_vals q))" "e z = Some (denote (in_dims s) (in_vals s))"
    and e': "e' y = Some (denote (in_dims (transposed q)) (in_vals (transposed q)))" "e' z = e z" "e' x = e x"
      "\<And>out. out \<in> set (nd_output nd) \<Longrightarrow> e' out = e out"
  shows "satisfies sem e' (layout_of nd)"
proof -
  obtain dw where d: "dequant_weight half [k, n] (in_vals q) (in_vals s) 0 = Inr dw"
    using q by (simp add: dequant_weight_def)
  obtain kn w where kw: "dw = (kn, w)" by (cases dw)
  have "dequant_weight half [n, k] (swapped k n (in_vals q)) (in_vals s) 1 = Inr (kn, w)"
    using d kw dequant_swapped q(2,3) by metis
  then have 1: "sem ''W8A16LinearPlugin'' (nd_domain nd) (set_layout (nd_attribute nd))
      [e x, Some (denote [n, k] (swapped k n (in_vals q))), Some (denote (in_dims s) (in_vals s))]
      = sem ''MatMul'' [] [] [e x, Some (denote kn w)]"
    using attr_set_layout by (intro plugin_semD(1) [OF sem]) metis
  have 2: "sem ''W8A16LinearPlugin'' (nd_domain nd) (nd_attribute nd)
      [e x, Some (denote [k, n] (in_vals q)), Some (denote (in_dims s) (in_vals s))]
      = sem ''MatMul'' [] [] [e x, Some (denote kn w)]"
    using d kw old by (intro plugin_semD(1) [OF sem]) simp
  have "map e' (nd_output nd) = map e (nd_output nd)" using e'(4) by simp
  moreover obtain vs where "sem ''MatMul'' [] [] [e x, Some (denote kn w)] = Some vs" "map e (nd_output nd) = map Some vs"
    using sat 2 e p q(1) by (auto simp: satisfies_def is_plugin_def i)
  ultimately have "sem ''W8A16LinearPlugin'' (nd_domain nd) (set_layout (nd_attribute nd)) (map e' (nd_input nd)) = Some vs
      \<and> map e' (nd_output nd) = map Some vs"
    using 1 e e' q(1) by (simp add: i transposed_def)
  then show ?thesis using p by (auto simp: satisfies_def layout_of_def is_plugin_def)
qed

section \<open>Example\<close>

text \<open>Vectors times matrices, with exact scales; two quantized products in a row.\<close>

definition vec_mat :: "nat list \<times> rat list \<Rightarrow> nat list \<times> rat list \<Rightarrow> nat list \<times> rat list" where
  "vec_mat x w =
     (let n = fst w ! 1 in
      ([n], map (\<lambda>j. sum_list (map (\<lambda>i. snd x ! i * snd w ! (i * n + j)) [0..<length (snd x)])) [0..<n]))"

definition eg_layout_sem :: "(nat list \<times> rat list) onnx_sem" where
  "eg_layout_sem ty domain attrs xs =
     (let product = (\<lambda>x w. case x of None \<Rightarrow> None | Some v \<Rightarrow> Some [vec_mat v w]) in
      if ty = ''MatMul'' then (case xs of [x, Some w] \<Rightarrow> product x w | _ \<Rightarrow> None)
      else case xs of
        [x, Some q, Some s] \<Rightarrow>
          (case dequant_weight (\<lambda>r. r) (fst q) (snd q) (snd s) (attr_int attrs ''weight_layout'' 0) of
             Inl _ \<Rightarrow> None
           | Inr w \<Rightarrow> product x w)
      | _ \<Rightarrow> None)"

lemma eg_layout_sem_ok: "plugin_sem eg_layout_sem Pair (\<lambda>r. r)"
  unfolding plugin_sem_def
proof (intro conjI allI impI)
  fix d d' a a' x dims q sdims s kn w
  assume "dequant_weight (\<lambda>r. r) dims q s (attr_int a ''weight_layout'' 0) = Inr (kn, w)"
  then show "eg_layout_sem ''W8A16LinearPlugin'' d a [x, Some (dims, q), Some (sdims, s)]
      = eg_layout_sem ''MatMul'' d' a' [x, Some (kn, w)]"
    by (simp add: eg_layout_sem_def)
next
  fix d a xs vs
  assume "eg_layout_sem ''MatMul'' d a xs = Some vs"
  then show "length vs = 1"
    by (auto simp: eg_layout_sem_def split: list.splits option.splits)
qed

definition eg_layout_graph :: onnx_graph where
  "eg_layout_graph =
     \<lparr>g_node = [make_node ''W8A16LinearPlugin'' [''x'', ''q'', ''s''] [''h''] ''a'' [],
        make_node ''W8A16LinearPlugin'' [''h'', ''p'', ''t''] [''y''] ''b'' []],
      g_initializer = [\<lparr>in_name = ''q'', in_dims = [2, 2], in_vals = [1, 2, 3, 4], in_itemsize = 1\<rparr>,
        \<lparr>in_name = ''s'', in_dims = [2], in_vals = [10, 100], in_itemsize = 2\<rparr>,
        \<lparr>in_name = ''p'', in_dims = [2, 1], in_vals = [5, 6], in_itemsize = 1\<rparr>,
        \<lparr>in_name = ''t'', in_dims = [1], in_vals = [1 / 2], in_itemsize = 2\<rparr>]\<rparr>"

definition eg_layout_args :: select_args where
  "eg_layout_args = \<lparr>rollback_regex = [\<lambda>label. sublist ''b'' label], all_to_fp16 = False\<rparr>"

abbreviation eg_layout_given :: "(nat list \<times> rat list) env" where
  "eg_layout_given \<equiv> [''x'' \<mapsto> ([2], [1, 1])]"

abbreviation eg_layout_known :: "string set" where
  "eg_layout_known \<equiv> {''x'', ''q'', ''s'', ''p'', ''t''}"

lemma eg_layout_order:
  "readable eg_layout_known (g_node eg_layout_graph)" "written_once eg_layout_known (g_node eg_layout_graph)"
  "in_name ` set (g_initializer eg_layout_graph) \<subseteq> eg_layout_known"
  by (auto simp: eg_layout_graph_def make_node_def written_once_def)

lemma eg_layout_value:
  "case eval_graph eg_layout_sem Pair eg_layout_graph eg_layout_given of None \<Rightarrow> False | Some e \<Rightarrow> e ''y'' = Some ([1], [1900])"
  by code_simp

lemma eg_layout_run:
  obtains e where "eval_graph eg_layout_sem Pair eg_layout_graph eg_layout_given = Some e" "e ''y'' = Some ([1], [1900])"
  using eg_layout_value by (auto split: option.splits)

section \<open>Properties\<close>

text \<open>Rolling back keeps the meaning of the graph.  When the selection succeeds on a graph that
  writes every tensor once and reads it later, and the names of the new FP16 weights are fresh and
  distinct, the edited graph evaluates and gives every other tensor the value it had before.
\<close>

theorem rollback_refines:
  assumes "select_main half args g = Inr (g', report)" and "plugin_sem sem denote half" and "plugin_nodes (g_node g)"
    and "eval_graph sem denote g given = Some e"
    and "readable known (g_node g)" and "written_once known (g_node g)" and "in_name ` set (g_initializer g) \<subseteq> known"
    and "select_fresh args g known"
  shows "\<exists>e1. eval_graph sem denote g' given = Some e1 \<and> (\<forall>x. x \<notin> set (rolled_names args g) \<longrightarrow> e1 x = e x)"
proof -
  let ?N = "set (rolled_names args g)"
  define e' where "e' = init_env denote (sel_inits report) e"
  note R = rollback_solves [OF assms, folded e'_def]
  have "init_env denote (g_initializer g') given x = e' x" if "x \<notin> outputs_of (g_node g')" for x
    using R that eval_graph_start(2) [OF assms(5,6,4), of x]
    by (auto simp: e'_def init_env_lookup initializer_map_append split: option.splits)
  moreover have "outputs_of (g_node g') \<inter> insert [] (known \<union> ?N) = {}"
    using assms(6,8) R fresh_join unfolding written_once_def select_fresh_def by metis
  ultimately have "eval_graph sem denote g' given = Some e'" using R by (intro edit_evaluates) blast+
  moreover have "e' x = e x" if "x \<notin> ?N" for x
    using that initializer_map_None [of "sel_inits report" x] R by (simp add: e'_def init_env_lookup)
  ultimately show ?thesis by blast
qed

theorem rollback_refines_witness:
  "\<exists>g' r e1. select_main (\<lambda>r. r) eg_layout_args eg_layout_graph = Inr (g', r)
     \<and> eval_graph eg_layout_sem Pair g' eg_layout_given = Some e1 \<and> e1 ''y'' = Some ([1], [1900])
     \<and> map op_type (g_node g') = [''W8A16LinearPlugin'', ''MatMul'']"
proof -
  have "case select_main (\<lambda>r. r) eg_layout_args eg_layout_graph of Inl _ \<Rightarrow> False
      | Inr (g', r) \<Rightarrow> map op_type (g_node g') = [''W8A16LinearPlugin'', ''MatMul'']"
    by code_simp
  then obtain g' r where g': "select_main (\<lambda>r. r) eg_layout_args eg_layout_graph = Inr (g', r)"
    "map op_type (g_node g') = [''W8A16LinearPlugin'', ''MatMul'']"
    by (auto split: sum.splits)
  have names: "rolled_names eg_layout_args eg_layout_graph = [''b_fp16_weight'']" by code_simp
  have fresh: "select_fresh eg_layout_args eg_layout_graph eg_layout_known"
    by (simp add: select_fresh_def names) (simp add: eg_layout_graph_def make_node_def)
  have "plugin_nodes (g_node eg_layout_graph)" by (simp add: plugin_nodes_def eg_layout_graph_def make_node_def)
  moreover obtain e where e: "eval_graph eg_layout_sem Pair eg_layout_graph eg_layout_given = Some e" "e ''y'' = Some ([1], [1900])"
    by (rule eg_layout_run)
  ultimately obtain e1 where e1: "eval_graph eg_layout_sem Pair g' eg_layout_given = Some e1"
    "\<forall>x. x \<notin> set [''b_fp16_weight''] \<longrightarrow> e1 x = e x"
    using rollback_refines [OF g'(1) eg_layout_sem_ok _ _ eg_layout_order fresh] unfolding names by blast
  then have "e1 ''y'' = Some ([1], [1900])" using e(2) by simp
  then show ?thesis using g' e1(1) by (intro exI [of _ g'] exI [of _ r] exI [of _ e1] conjI)
qed

text \<open>
  C34: the change of layout keeps the meaning of the graph, when every plugin node has an unshared
  weight in the old layout: the edited graph evaluates and gives every tensor but the weights
  themselves the value it had before.
\<close>

theorem layout_refines:
  assumes "layout_main g = Inr (g', converted)" and "plugin_sem sem denote half" and "old_layout g"
    and "eval_graph sem denote g given = Some e"
    and "readable known (g_node g)" and "written_once known (g_node g)" and "in_name ` set (g_initializer g) \<subseteq> known"
  shows "\<exists>e1. eval_graph sem denote g' given = Some e1 \<and> (\<forall>x. x \<notin> set (qweights (g_node g)) \<longrightarrow> e1 x = e x)"
proof -
  let ?Q = "set (qweights (g_node g))" and ?I = "initializer_map (g_initializer g)"
  define e' where "e' = init_env denote (g_initializer g') e"
  from assms(1) have "res_fold layout_node (g_node g) ([], g_initializer g, 0) = Inr (g_node g', g_initializer g', converted)"
    by (auto simp: layout_main_def)
  note F = layout_fold [OF this]
  have nodes: "g_node g' = map layout_of (g_node g)" using F by simp
  have init': "initializer_map (g_initializer g') x = map_option (if x \<in> ?Q then transposed else id) (?I x)" for x
  proof -
    have "count_list (qweights (g_node g)) x = (if x \<in> ?Q then 1 else 0)"
      using assms(3) unfolding old_layout_def by (intro count_distinct) blast
    then show ?thesis using F by simp
  qed
  note E = eval_graph_initializer [OF assms(5,6,7,4)] and S = eval_graph_start [OF assms(5,6,4)]
  have same: "e' x = e x" if "x \<notin> ?Q" for x
    using that E [of x] by (auto simp: e'_def init_env_lookup init' split: option.splits)
  have known: "?Q \<subseteq> known"
  proof
    fix y
    assume "y \<in> ?Q"
    then obtain nd where nd: "nd \<in> set (g_node g)" "is_plugin nd" "y = nd_input nd ! 1" by (auto simp: qweights_def)
    then obtain q where "?I y = Some q" using assms(3) unfolding old_layout_def by fastforce
    then show "y \<in> known" using initializer_map_Some assms(7) by fastforce
  qed
  have out: "e' x = e x" if "nd \<in> set (g_node g)" "x \<in> set (nd_output nd)" for nd x
  proof (rule same)
    have "x \<in> outputs_of (g_node g)" using that by blast
    then show "x \<notin> ?Q" using known assms(6) unfolding written_once_def by blast
  qed
  have "satisfies sem e' (layout_of nd)" if nd: "nd \<in> set (g_node g)" for nd
  proof (cases "is_plugin nd")
    case False
    then have "set (nd_input nd) \<inter> ?Q = {}" using assms(3) nd unfolding old_layout_def by blast
    then have "e' x = e x" if "x \<in> set (nd_input nd) \<union> set (nd_output nd)" for x
      using that same out [OF nd] by blast
    then show ?thesis using S(1) nd False satisfies_cong [of nd e' e sem] by (simp add: layout_of_def)
  next
    case True
    then obtain x y z q s k n where n: "attr_int (nd_attribute nd) ''weight_layout'' 0 = 0" "nd_input nd = [x, y, z]"
      "x \<notin> ?Q" "z \<notin> ?Q" "?I y = Some q" "?I z = Some s" "in_dims q = [k, n]" "length (in_vals q) = k * n" "length (in_vals s) = n"
      using assms(3) nd unfolding old_layout_def by metis
    have "y \<in> ?Q" using nd True n(2) by (force simp: qweights_def)
    then have "e' y = Some (denote (in_dims (transposed q)) (in_vals (transposed q)))"
      using n(5) by (simp add: e'_def init_env_lookup init')
    then show ?thesis
      using layout_satisfies [OF assms(2) _ True n(1,2,7,8,9) E [OF n(5)] E [OF n(6)]] S(1) nd same n(3,4) out [OF nd] by blast
  qed
  then have sol: "solves sem e' (g_node g')" using nodes by auto
  have os: "outputs_of (g_node g') = outputs_of (g_node g)" by (auto simp: nodes layout_of_def)
  have "readable (known \<union> {}) (g_node g')"
    by (rule readable_edit [OF assms(5)]) (auto simp: nodes layout_of_def)
  then have rd: "readable known (g_node g')" by simp
  have "init_env denote (g_initializer g') given x = e' x" if "x \<notin> outputs_of (g_node g')" for x
    using S(2) [of x] that os by (auto simp: e'_def init_env_lookup init' split: option.splits)
  moreover have "outputs_of (g_node g') \<inter> insert [] known = {}" using assms(6) os unfolding written_once_def by simp
  ultimately have "eval_graph sem denote g' given = Some e'" by (intro edit_evaluates [OF rd sol]) blast+
  then show ?thesis using same by blast
qed

theorem layout_refines_witness:
  "\<exists>g' e1. layout_main eg_layout_graph = Inr (g', 2)
     \<and> eval_graph eg_layout_sem Pair g' eg_layout_given = Some e1 \<and> e1 ''y'' = Some ([1], [1900])"
proof -
  have "case layout_main eg_layout_graph of Inl _ \<Rightarrow> False | Inr (g', n) \<Rightarrow> n = 2" by code_simp
  then obtain g' where g': "layout_main eg_layout_graph = Inr (g', 2)" by (auto split: sum.splits)
  have q: "qweights (g_node eg_layout_graph) = [''q'', ''p'']" by code_simp
  have "old_layout eg_layout_graph"
    unfolding old_layout_def q by (simp add: eg_layout_graph_def make_node_def is_plugin_def attr_int_def initializer_map_def)
  moreover obtain e where e: "eval_graph eg_layout_sem Pair eg_layout_graph eg_layout_given = Some e" "e ''y'' = Some ([1], [1900])"
    by (rule eg_layout_run)
  ultimately obtain e1 where e1: "eval_graph eg_layout_sem Pair g' eg_layout_given = Some e1"
    "\<forall>x. x \<notin> set [''q'', ''p''] \<longrightarrow> e1 x = e x"
    using layout_refines [OF g' eg_layout_sem_ok _ _ eg_layout_order] unfolding q by blast
  then have "e1 ''y'' = Some ([1], [1900])" using e(2) by simp
  then show ?thesis using g' e1(1) by blast
qed

text \<open>
  A weight is transposed once per plugin node that reads it.  A weight that an even number of
  nodes share is therefore stored as before, although all its nodes now claim the new layout; the
  script does not notice.
\<close>

theorem layout_shared_weight:
  assumes "layout_main g = Inr (g', converted)" and "initializer_map (g_initializer g) y = Some t"
    and "in_dims t = [k, n]" and "length (in_vals t) = k * n" and "even (count_list (qweights (g_node g)) y)"
  shows "initializer_map (g_initializer g') y = Some t
    \<and> (\<forall>nd\<in>set (g_node g'). is_plugin nd \<longrightarrow> attr_int (nd_attribute nd) ''weight_layout'' 0 = 1)
    \<and> converted = length (qweights (g_node g))"
proof -
  from assms(1) have "res_fold layout_node (g_node g) ([], g_initializer g, 0) = Inr (g_node g', g_initializer g', converted)"
    by (auto simp: layout_main_def)
  note F = layout_fold [OF this]
  have tt: "transposed (transposed t) = t"
    using assms(3,4) swapped_swapped [of "in_vals t" k n] by (simp add: transposed_def)
  obtain m where m: "count_list (qweights (g_node g)) y = m * 2" using assms(5) by (elim evenE) simp
  have "(transposed ^^ 2) t = t" using tt by (simp add: numeral_2_eq_2)
  then have "((transposed ^^ 2) ^^ m) t = t" by (induction m) auto
  then have "(transposed ^^ (m * 2)) t = t" by (simp add: funpow_mult mult.commute)
  then have "initializer_map (g_initializer g') y = Some t" using F assms(2) m by simp
  moreover have "attr_int (nd_attribute nd) ''weight_layout'' 0 = 1" if "nd \<in> set (g_node g')" "is_plugin nd" for nd
    using F that attr_set_layout by (auto simp: layout_of_def is_plugin_def split: if_splits)
  ultimately show ?thesis using F by simp
qed

definition eg_shared_graph :: onnx_graph where
  "eg_shared_graph = eg_layout_graph\<lparr>g_node :=
     [make_node ''W8A16LinearPlugin'' [''x'', ''q'', ''s''] [''h''] ''a'' [],
      make_node ''W8A16LinearPlugin'' [''h'', ''q'', ''s''] [''y''] ''b'' []]\<rparr>"

theorem layout_shared_weight_witness:
  "\<exists>g' t. layout_main eg_shared_graph = Inr (g', 2) \<and> in_dims t = [2, 2]
     \<and> initializer_map (g_initializer eg_shared_graph) ''q'' = Some t \<and> initializer_map (g_initializer g') ''q'' = Some t
     \<and> (\<forall>nd\<in>set (g_node g'). is_plugin nd \<longrightarrow> attr_int (nd_attribute nd) ''weight_layout'' 0 = 1)"
proof -
  have "case layout_main eg_shared_graph of Inl _ \<Rightarrow> False | Inr (g', n) \<Rightarrow> n = 2" by code_simp
  then obtain g' where g': "layout_main eg_shared_graph = Inr (g', 2)" by (auto split: sum.splits)
  have t: "initializer_map (g_initializer eg_shared_graph) ''q''
      = Some \<lparr>in_name = ''q'', in_dims = [2, 2], in_vals = [1, 2, 3, 4], in_itemsize = 1\<rparr>"
    by (simp add: eg_shared_graph_def eg_layout_graph_def initializer_map_def)
  have "even (count_list (qweights (g_node eg_shared_graph)) ''q'')" by code_simp
  from layout_shared_weight [OF g' t _ _ this, of 2 2] t g' show ?thesis by fastforce
qed

end
