(* ===== verification/Mlp_Fuse.thy ===== *)
theory Mlp_Fuse
  imports Onnx_Solve "HOL-Library.List_Lexorder" "HOL-Library.Char_ord"
begin

text \<open>
  \<^verbatim>\<open>scripts/optimize_qwen3_tts_cp_onnx.py\<close>: the gate and the up projection of each layer become one
  product with the concatenated weight and two slices of its result.  A node is identified by its
  position in the graph.
\<close>

section \<open>Text\<close>

text \<open>\<^verbatim>\<open>s.split(sep, 1)[0]\<close>, for a separator that occurs.\<close>

fun split_before :: "string \<Rightarrow> string \<Rightarrow> string" where
  "split_before sep [] = []"
| "split_before sep (c # s) = (if prefix sep (c # s) then [] else c # split_before sep s)"

definition strip_slash :: "string \<Rightarrow> string" where
  "strip_slash s =
     rev (dropWhile (\<lambda>c. c = CHR ''/'') (rev (dropWhile (\<lambda>c. c = CHR ''/'') s)))"

definition safe_layer :: "string \<Rightarrow> string" where
  "safe_layer layer = map (\<lambda>c. if c = CHR ''/'' \<or> c = CHR ''.'' then CHR ''_'' else c) (strip_slash layer)"

definition gate_mark :: string where "gate_mark = ''/mlp/gate_proj/MatMul''"
definition up_mark :: string where "up_mark = ''/mlp/up_proj/MatMul''"

section \<open>Pairs\<close>

datatype fuse_error = NodeInputIndex | NodeOutputIndex | NothingFused

type_synonym layer_map = "(string \<times> nat) list"

definition collect_node :: "nat \<times> onnx_node \<Rightarrow> layer_map \<times> layer_map \<Rightarrow> layer_map \<times> layer_map" where
  "collect_node = (\<lambda>(i, nd) (gates, ups).
     if op_type nd \<noteq> ''MatMul'' then (gates, ups)
     else if sublist gate_mark (nd_name nd) then (AList.update (split_before gate_mark (nd_name nd)) i gates, ups)
     else if sublist up_mark (nd_name nd) then (gates, AList.update (split_before up_mark (nd_name nd)) i ups)
     else (gates, ups))"

definition collect_layers :: "onnx_node list \<Rightarrow> layer_map \<times> layer_map" where
  "collect_layers nodes = fold collect_node (enumerate 0 nodes) ([], [])"

text \<open>\<^verbatim>\<open>np.concatenate([a, b], axis=1)\<close> of two \<^verbatim>\<open>[k, n]\<close> matrices.\<close>

definition concat_cols :: "nat \<Rightarrow> nat \<Rightarrow> rat list \<Rightarrow> rat list \<Rightarrow> rat list" where
  "concat_cols k n a b =
     map (\<lambda>m. let r = m div (2 * n); c = m mod (2 * n) in if c < n then a ! (r * n + c) else b ! (r * n + (c - n)))
       [0..<k * (2 * n)]"

definition const_i64 :: "string \<Rightarrow> int \<Rightarrow> onnx_init" where
  "const_i64 name v = \<lparr>in_name = name, in_dims = [1], in_vals = [of_int v], in_itemsize = 8\<rparr>"

text \<open>The weights of a pair that is fused; \<open>None\<close> is \<^verbatim>\<open>continue\<close>.\<close>

definition pair_weights ::
  "(string \<Rightarrow> onnx_init option) \<Rightarrow> onnx_node \<Rightarrow> onnx_node \<Rightarrow> fuse_error + (onnx_init \<times> onnx_init) option" where
  "pair_weights initializers gate up =
     (if nd_input gate = [] \<or> nd_input up = [] then Inl NodeInputIndex
      else if hd (nd_input gate) \<noteq> hd (nd_input up) then Inr None
      else if length (nd_input gate) < 2 then Inl NodeInputIndex
      else case initializers (nd_input gate ! 1) of
        None \<Rightarrow> Inr None
      | Some gw \<Rightarrow>
          if length (nd_input up) < 2 then Inl NodeInputIndex
          else case initializers (nd_input up ! 1) of
            None \<Rightarrow> Inr None
          | Some uw \<Rightarrow>
              if length (in_dims gw) \<noteq> 2 \<or> length (in_dims uw) \<noteq> 2 \<or> in_dims gw ! 0 \<noteq> in_dims uw ! 0
                 \<or> in_dims gw ! 1 \<noteq> in_dims uw ! 1
              then Inr None else Inr (Some (gw, uw)))"

text \<open>\<^verbatim>\<open>np.concatenate\<close> gives the wider of the two floating-point types.\<close>

definition fused_inits :: "string \<Rightarrow> onnx_init \<Rightarrow> onnx_init \<Rightarrow> onnx_init list" where
  "fused_inits layer gw uw =
     (let safe = safe_layer layer; k = in_dims gw ! 0; n = in_dims gw ! 1 in
      [\<lparr>in_name = safe @ ''_mlp_gate_up_fused_weight'', in_dims = [k, 2 * n],
        in_vals = concat_cols k n (in_vals gw) (in_vals uw), in_itemsize = max (in_itemsize gw) (in_itemsize uw)\<rparr>,
       const_i64 (safe @ ''_gate_slice_starts'') 0, const_i64 (safe @ ''_gate_slice_ends'') (int n),
       const_i64 (safe @ ''_up_slice_starts'') (int n), const_i64 (safe @ ''_up_slice_ends'') (2 * int n),
       const_i64 (safe @ ''_gate_up_slice_axes'') (-1)])"

definition fused_out :: "string \<Rightarrow> string" where
  "fused_out layer = layer @ ''/mlp/gate_up_fused/MatMul_output_0''"

definition fused_nodes :: "string \<Rightarrow> onnx_node \<Rightarrow> onnx_node \<Rightarrow> onnx_node list" where
  "fused_nodes layer gate up =
     (let safe = safe_layer layer in
      [make_node ''MatMul'' [hd (nd_input gate), safe @ ''_mlp_gate_up_fused_weight''] [fused_out layer]
         (layer @ ''/mlp/gate_up_fused/MatMul'') [],
       make_node ''Slice'' [fused_out layer, safe @ ''_gate_slice_starts'', safe @ ''_gate_slice_ends'',
           safe @ ''_gate_up_slice_axes''] [hd (nd_output gate)] (layer @ ''/mlp/gate_proj/SliceFromFused'') [],
       make_node ''Slice'' [fused_out layer, safe @ ''_up_slice_starts'', safe @ ''_up_slice_ends'',
           safe @ ''_gate_up_slice_axes''] [hd (nd_output up)] (layer @ ''/mlp/up_proj/SliceFromFused'') []])"

section \<open>Fusion\<close>

record fuse_state =
  fused :: "(string \<times> onnx_node list) list"
  skip_ids :: "nat set"
  fu_inits :: "onnx_init list"

definition fuse_layer ::
  "onnx_node list \<Rightarrow> (string \<Rightarrow> onnx_init option) \<Rightarrow> layer_map \<Rightarrow> string \<times> nat \<Rightarrow> fuse_state
     \<Rightarrow> fuse_error + fuse_state" where
  "fuse_layer nodes initializers ups = (\<lambda>(layer, gi) st.
     case map_of ups layer of
       None \<Rightarrow> Inr st
     | Some ui \<Rightarrow>
         res_bind (pair_weights initializers (nodes ! gi) (nodes ! ui)) (\<lambda>pair.
           case pair of
             None \<Rightarrow> Inr st
           | Some (gw, uw) \<Rightarrow>
               if nd_output (nodes ! gi) = [] \<or> nd_output (nodes ! ui) = [] then Inl NodeOutputIndex
               else Inr \<lparr>fused = fused st @ [(layer, fused_nodes layer (nodes ! gi) (nodes ! ui))],
                      skip_ids = insert ui (skip_ids st), fu_inits = fu_inits st @ fused_inits layer gw uw\<rparr>))"

definition fuse_start :: fuse_state where
  "fuse_start = \<lparr>fused = [], skip_ids = {}, fu_inits = []\<rparr>"

text \<open>What stands for the node at a position.\<close>

definition fuse_at :: "onnx_node list \<Rightarrow> layer_map \<Rightarrow> fuse_state \<Rightarrow> nat \<Rightarrow> onnx_node list" where
  "fuse_at nodes gates st i =
     (if i \<in> skip_ids st then []
      else if sublist gate_mark (nd_name (nodes ! i))
      then let layer = split_before gate_mark (nd_name (nodes ! i)) in
        case map_of (fused st) layer of
          Some chain \<Rightarrow> if map_of gates layer = Some i then chain else [nodes ! i]
        | None \<Rightarrow> [nodes ! i]
      else [nodes ! i])"

definition fuse_mlp_gate_up :: "onnx_graph \<Rightarrow> fuse_error + onnx_graph \<times> nat" where
  "fuse_mlp_gate_up g =
     (let nodes = g_node g; initializers = initializer_map (g_initializer g); (gates, ups) = collect_layers nodes in
      res_bind (res_fold (fuse_layer nodes initializers ups) (sort_key fst gates) fuse_start) (\<lambda>st.
        if fused st = [] then Inr (g, 0)
        else Inr (\<lparr>g_node = concat (map (fuse_at nodes gates st) [0..<length nodes]),
                   g_initializer = g_initializer g @ fu_inits st\<rparr>, length (fused st))))"

definition fuse_main :: "onnx_graph \<Rightarrow> fuse_error + onnx_graph \<times> nat" where
  "fuse_main g =
     res_bind (fuse_mlp_gate_up g) (\<lambda>(g', count). if count = 0 then Inl NothingFused else Inr (g', count))"

end
