(* ===== verification/Mlp_Fuse_Props.thy ===== *)
theory Mlp_Fuse_Props
  imports Mlp_Fuse
begin

text \<open>
  The fused graph computes what the original does: a slice of the product with the concatenated
  weight is the product with one of its halves.
\<close>

section \<open>Columns\<close>

definition col_range :: "nat \<Rightarrow> nat \<Rightarrow> nat \<Rightarrow> nat \<Rightarrow> rat list \<Rightarrow> rat list" where
  "col_range k m a b w = map (\<lambda>j. w ! (j div (b - a) * m + a + j mod (b - a))) [0..<k * (b - a)]"

lemma concat_cols_entry:
  assumes "r < k" and "c < 2 * n"
  shows "concat_cols k n a b ! (r * (2 * n) + c) = (if c < n then a ! (r * n + c) else b ! (r * n + (c - n)))"
proof -
  have "r * (2 * n) + c < Suc r * (2 * n)" using assms(2) by simp
  also have "\<dots> \<le> k * (2 * n)" using assms(1) by (intro mult_le_mono1) simp
  finally have "r * (2 * n) + c < k * (2 * n)" .
  moreover have "(r * (2 * n) + c) div (2 * n) = r" "(r * (2 * n) + c) mod (2 * n) = c" using assms(2) by simp_all
  ultimately show ?thesis by (simp add: concat_cols_def Let_def)
qed

lemma left_columns:
  assumes "length a = k * n"
  shows "col_range k (2 * n) 0 n (concat_cols k n a b) = a"
proof (rule nth_equalityI)
  fix j
  assume "j < length (col_range k (2 * n) 0 n (concat_cols k n a b))"
  then have j: "j < k * n" by (simp add: col_range_def)
  then have n: "0 < n" by (cases n) auto
  have "j div n < k" "j mod n < n" using j n by (simp_all add: less_mult_imp_div_less)
  then have "concat_cols k n a b ! (j div n * (2 * n) + j mod n) = a ! j"
    by (subst concat_cols_entry) simp_all
  then show "col_range k (2 * n) 0 n (concat_cols k n a b) ! j = a ! j" using j by (simp add: col_range_def)
qed (simp add: assms col_range_def)

lemma right_columns:
  assumes "length b = k * n"
  shows "col_range k (2 * n) n (2 * n) (concat_cols k n a b) = b"
proof (rule nth_equalityI)
  fix j
  assume "j < length (col_range k (2 * n) n (2 * n) (concat_cols k n a b))"
  then have j: "j < k * n" by (simp add: col_range_def)
  then have n: "0 < n" by (cases n) auto
  have "j div n < k" "n + j mod n < 2 * n" using j n by (simp_all add: less_mult_imp_div_less)
  then have "concat_cols k n a b ! (j div n * (2 * n) + (n + j mod n)) = b ! j"
    by (subst concat_cols_entry) simp_all
  then show "col_range k (2 * n) n (2 * n) (concat_cols k n a b) ! j = b ! j"
    using j by (simp add: col_range_def add.assoc)
qed (simp add: assms col_range_def)

text \<open>
  What is relied on, with \<open>cols a b\<close> the columns \<open>a\<close> to \<open>b\<close> of a value: a product takes no
  attributes, has one result, is defined by the number of rows of its weight, and each column of
  its result comes from the same column of the weight; a slice of the last axis takes columns.
\<close>

definition fuse_sem :: "'v onnx_sem \<Rightarrow> (nat list \<Rightarrow> rat list \<Rightarrow> 'v) \<Rightarrow> (nat \<Rightarrow> nat \<Rightarrow> 'v \<Rightarrow> 'v) \<Rightarrow> bool" where
  "fuse_sem sem denote cols \<longleftrightarrow>
     (\<forall>d a xs. sem ''MatMul'' d a xs = sem ''MatMul'' [] [] xs)
     \<and> (\<forall>xs vs. sem ''MatMul'' [] [] xs = Some vs \<longrightarrow> length vs = 1)
     \<and> (\<forall>x k n w m w'. length w = k * n \<longrightarrow> length w' = k * m \<longrightarrow>
          sem ''MatMul'' [] [] [x, Some (denote [k, n] w)] \<noteq> None \<longrightarrow> sem ''MatMul'' [] [] [x, Some (denote [k, m] w')] \<noteq> None)
     \<and> (\<forall>x k m w y a b. length w = k * m \<longrightarrow> a \<le> b \<longrightarrow> b \<le> m \<longrightarrow> sem ''MatMul'' [] [] [x, Some (denote [k, m] w)] = Some [y] \<longrightarrow>
          sem ''MatMul'' [] [] [x, Some (denote [k, b - a] (col_range k m a b w))] = Some [cols a b y])
     \<and> (\<forall>y a b. a \<le> b \<longrightarrow> sem ''Slice'' [] [] [Some y, Some (denote [1] [of_nat a]), Some (denote [1] [of_nat b]),
          Some (denote [1] [-1])] = Some [cols a b y])"

lemma fuse_semD:
  assumes "fuse_sem sem denote cols"
  shows "sem ''MatMul'' d a xs = sem ''MatMul'' [] [] xs"
    and "sem ''MatMul'' [] [] xs = Some vs \<Longrightarrow> length vs = 1"
    and "length w = k * n \<Longrightarrow> length w' = k * m \<Longrightarrow> sem ''MatMul'' [] [] [x, Some (denote [k, n] w)] \<noteq> None \<Longrightarrow>
      sem ''MatMul'' [] [] [x, Some (denote [k, m] w')] \<noteq> None"
    and "length w = k * m \<Longrightarrow> i \<le> j \<Longrightarrow> j \<le> m \<Longrightarrow> sem ''MatMul'' [] [] [x, Some (denote [k, m] w)] = Some [y] \<Longrightarrow>
      sem ''MatMul'' [] [] [x, Some (denote [k, j - i] (col_range k m i j w))] = Some [cols i j y]"
    and "i \<le> j \<Longrightarrow> sem ''Slice'' [] [] [Some y, Some (denote [1] [of_nat i]), Some (denote [1] [of_nat j]),
      Some (denote [1] [-1])] = Some [cols i j y]"
proof -
  note A = assms [unfolded fuse_sem_def]
  note 1 = A [THEN conjunct1] and 2 = A [THEN conjunct2, THEN conjunct1]
    and 3 = A [THEN conjunct2, THEN conjunct2, THEN conjunct1]
    and 4 = A [THEN conjunct2, THEN conjunct2, THEN conjunct2, THEN conjunct1]
    and 5 = A [THEN conjunct2, THEN conjunct2, THEN conjunct2, THEN conjunct2]
  show "sem ''MatMul'' d a xs = sem ''MatMul'' [] [] xs" using 1 by (elim allE)
  show "sem ''MatMul'' [] [] xs = Some vs \<Longrightarrow> length vs = 1" using 2 by blast
  show "length w = k * n \<Longrightarrow> length w' = k * m \<Longrightarrow> sem ''MatMul'' [] [] [x, Some (denote [k, n] w)] \<noteq> None \<Longrightarrow>
      sem ''MatMul'' [] [] [x, Some (denote [k, m] w')] \<noteq> None"
    by (rule 3 [rule_format])
  show "length w = k * m \<Longrightarrow> i \<le> j \<Longrightarrow> j \<le> m \<Longrightarrow> sem ''MatMul'' [] [] [x, Some (denote [k, m] w)] = Some [y] \<Longrightarrow>
      sem ''MatMul'' [] [] [x, Some (denote [k, j - i] (col_range k m i j w))] = Some [cols i j y]"
    by (rule 4 [rule_format])
  show "i \<le> j \<Longrightarrow> sem ''Slice'' [] [] [Some y, Some (denote [1] [of_nat i]), Some (denote [1] [of_nat j]),
      Some (denote [1] [-1])] = Some [cols i j y]"
    by (rule 5 [rule_format])
qed

text \<open>The two products of a pair are the halves of one.\<close>

lemma fused_product:
  assumes sem: "fuse_sem sem denote cols" and l: "length a = k * n" "length b = k * n"
    and g: "sem ''MatMul'' d ga [x, Some (denote [k, n] a)] = Some gs"
    and u: "sem ''MatMul'' d' ua [x, Some (denote [k, n] b)] = Some us"
  obtains y where "sem ''MatMul'' [] [] [x, Some (denote [k, 2 * n] (concat_cols k n a b))] = Some [y]"
    "gs = [cols 0 n y]" "us = [cols n (2 * n) y]"
proof -
  have g0: "sem ''MatMul'' [] [] [x, Some (denote [k, n] a)] = Some gs" using g fuse_semD(1) [OF sem] by metis
  have u0: "sem ''MatMul'' [] [] [x, Some (denote [k, n] b)] = Some us" using u fuse_semD(1) [OF sem] by metis
  have l2: "length (concat_cols k n a b) = k * (2 * n)" by (simp add: concat_cols_def)
  have "sem ''MatMul'' [] [] [x, Some (denote [k, 2 * n] (concat_cols k n a b))] \<noteq> None"
    using fuse_semD(3) [OF sem l(1) l2] g0 by simp
  then obtain vs where vs: "sem ''MatMul'' [] [] [x, Some (denote [k, 2 * n] (concat_cols k n a b))] = Some vs" by blast
  then obtain y where y: "vs = [y]" using fuse_semD(2) [OF sem vs] by (auto simp: length_Suc_conv)
  have "gs = [cols 0 n y]"
    using fuse_semD(4) [OF sem l2 _ _ vs [unfolded y], of 0 n] left_columns [OF l(1)] g0 by simp
  moreover have "us = [cols n (2 * n) y]"
    using fuse_semD(4) [OF sem l2 _ _ vs [unfolded y], of n "2 * n"] right_columns [OF l(2)] u0 by simp
  ultimately show thesis using that vs y by blast
qed

section \<open>Which nodes are fused\<close>

definition gate_node :: "onnx_node list \<Rightarrow> string \<Rightarrow> nat \<Rightarrow> bool" where
  "gate_node nodes layer i \<longleftrightarrow>
     i < length nodes \<and> op_type (nodes ! i) = ''MatMul'' \<and> sublist gate_mark (nd_name (nodes ! i))
     \<and> layer = split_before gate_mark (nd_name (nodes ! i))"

definition up_node :: "onnx_node list \<Rightarrow> string \<Rightarrow> nat \<Rightarrow> bool" where
  "up_node nodes layer i \<longleftrightarrow>
     i < length nodes \<and> op_type (nodes ! i) = ''MatMul'' \<and> \<not> sublist gate_mark (nd_name (nodes ! i))
     \<and> layer = split_before up_mark (nd_name (nodes ! i))"

lemma collect_layers_ok:
  assumes "collect_layers nodes = (gates, ups)"
  shows "distinct (map fst gates) \<and> (\<forall>(layer, i)\<in>set gates. gate_node nodes layer i)
    \<and> (\<forall>(layer, i)\<in>set ups. up_node nodes layer i)"
proof -
  let ?ok = "\<lambda>(gates, ups). distinct (map fst gates) \<and> (\<forall>(layer, i)\<in>set gates. gate_node nodes layer i)
    \<and> (\<forall>(layer, i)\<in>set ups. up_node nodes layer i)"
  have upd: "set (AList.update k v al) \<subseteq> insert (k, v) (set al)" for k and v :: nat and al
    by (induction al) auto
  have step: "?ok (collect_node (i, nd) acc)" if "?ok acc" "i < length nodes" "nd = nodes ! i" for i nd acc
  proof -
    obtain gs us where acc: "acc = (gs, us)" by (cases acc)
    show ?thesis
    proof (cases "op_type nd = ''MatMul'' \<and> sublist gate_mark (nd_name nd)")
      case True
      then have "collect_node (i, nd) acc = (AList.update (split_before gate_mark (nd_name nd)) i gs, us)"
        by (simp add: collect_node_def acc)
      moreover have "gate_node nodes (split_before gate_mark (nd_name nd)) i"
        using True that(2,3) by (simp add: gate_node_def)
      ultimately show ?thesis using that(1) upd [of "split_before gate_mark (nd_name nd)" i gs]
        by (auto simp: acc distinct_update)
    next
      case False
      show ?thesis
      proof (cases "op_type nd = ''MatMul'' \<and> sublist up_mark (nd_name nd)")
        case True
        then have "collect_node (i, nd) acc = (gs, AList.update (split_before up_mark (nd_name nd)) i us)"
          using False by (simp add: collect_node_def acc)
        moreover have "up_node nodes (split_before up_mark (nd_name nd)) i"
          using True False that(2,3) by (simp add: up_node_def)
        ultimately show ?thesis using that(1) upd [of "split_before up_mark (nd_name nd)" i us] by (auto simp: acc)
      next
        case other: False
        then have "collect_node (i, nd) acc = acc" using False by (auto simp: collect_node_def acc)
        then show ?thesis using that(1) by simp
      qed
    qed
  qed
  have "?ok (fold collect_node xs acc)" if "set xs \<subseteq> set (enumerate 0 nodes)" "?ok acc" for xs acc
    using that
  proof (induction xs arbitrary: acc)
    case (Cons x xs)
    obtain i nd where x: "x = (i, nd)" by (cases x)
    then have "?ok (collect_node x acc)"
      using Cons.prems step [of acc i nd] by (simp add: in_set_enumerate_eq)
    then show ?case using Cons by simp
  qed simp
  from this [of "enumerate 0 nodes" "([], [])"] show ?thesis
    using assms by (simp add: collect_layers_def)
qed

record fusion =
  fz_layer :: string
  fz_gate :: nat
  fz_up :: nat
  fz_gw :: onnx_init
  fz_uw :: onnx_init

definition fusion_of ::
  "onnx_node list \<Rightarrow> (string \<Rightarrow> onnx_init option) \<Rightarrow> layer_map \<Rightarrow> string \<times> nat \<Rightarrow> fusion option" where
  "fusion_of nodes inits ups = (\<lambda>(layer, gi).
     case map_of ups layer of
       None \<Rightarrow> None
     | Some ui \<Rightarrow> (case pair_weights inits (nodes ! gi) (nodes ! ui) of
           Inr (Some (gw, uw)) \<Rightarrow> Some \<lparr>fz_layer = layer, fz_gate = gi, fz_up = ui, fz_gw = gw, fz_uw = uw\<rparr>
         | _ \<Rightarrow> None))"

definition fusions :: "onnx_graph \<Rightarrow> fusion list" where
  "fusions g =
     (case collect_layers (g_node g) of (gates, ups) \<Rightarrow>
        List.map_filter (fusion_of (g_node g) (initializer_map (g_initializer g)) ups) (sort_key fst gates))"

abbreviation chain_of :: "onnx_node list \<Rightarrow> fusion \<Rightarrow> onnx_node list" where
  "chain_of nodes f \<equiv> fused_nodes (fz_layer f) (nodes ! fz_gate f) (nodes ! fz_up f)"

abbreviation inits_of :: "fusion \<Rightarrow> onnx_init list" where
  "inits_of f \<equiv> fused_inits (fz_layer f) (fz_gw f) (fz_uw f)"

lemma fusion_of_Some:
  assumes "fusion_of nodes inits ups (layer, gi) = Some f"
  shows "fz_layer f = layer \<and> fz_gate f = gi \<and> map_of ups layer = Some (fz_up f)
    \<and> pair_weights inits (nodes ! gi) (nodes ! fz_up f) = Inr (Some (fz_gw f, fz_uw f))"
  using assms by (auto simp: fusion_of_def split: option.splits sum.splits)

lemma fuse_fold:
  assumes "res_fold (fuse_layer nodes inits ups) L st = Inr st'"
  defines "F \<equiv> List.map_filter (fusion_of nodes inits ups) L"
  shows "fused st' = fused st @ map (\<lambda>f. (fz_layer f, chain_of nodes f)) F
    \<and> skip_ids st' = skip_ids st \<union> fz_up ` set F \<and> fu_inits st' = fu_inits st @ concat (map inits_of F)
    \<and> (\<forall>f\<in>set F. nd_output (nodes ! fz_gate f) \<noteq> [] \<and> nd_output (nodes ! fz_up f) \<noteq> [])"
  using assms(1) unfolding F_def
proof (induction L arbitrary: st)
  case (Cons x xs)
  then obtain s where s: "fuse_layer nodes inits ups x st = Inr s" "res_fold (fuse_layer nodes inits ups) xs s = Inr st'" by auto
  obtain layer gi where x: "x = (layer, gi)" by (cases x)
  show ?case
  proof (cases "fusion_of nodes inits ups x")
    case None
    then have "s = st" using s(1)
      by (auto simp: fuse_layer_def fusion_of_def x split: option.splits prod.splits sum.splits)
    then show ?thesis using Cons.IH [OF s(2)] None by (simp add: map_filter_simps)
  next
    case (Some f)
    then have "s = \<lparr>fused = fused st @ [(fz_layer f, chain_of nodes f)], skip_ids = insert (fz_up f) (skip_ids st),
        fu_inits = fu_inits st @ inits_of f\<rparr> \<and> nd_output (nodes ! fz_gate f) \<noteq> [] \<and> nd_output (nodes ! fz_up f) \<noteq> []"
      using s(1) fusion_of_Some [OF Some [unfolded x]] by (simp add: fuse_layer_def x split: if_splits)
    then show ?thesis using Cons.IH [OF s(2)] Some by (auto simp: map_filter_simps)
  qed
qed (simp add: map_filter_simps)

text \<open>What is known of a fused pair.\<close>

definition fusion_ok :: "onnx_graph \<Rightarrow> fusion \<Rightarrow> bool" where
  "fusion_ok g f \<longleftrightarrow>
     gate_node (g_node g) (fz_layer f) (fz_gate f) \<and> up_node (g_node g) (fz_layer f) (fz_up f)
     \<and> pair_weights (initializer_map (g_initializer g)) (g_node g ! fz_gate f) (g_node g ! fz_up f)
         = Inr (Some (fz_gw f, fz_uw f))"

lemma map_of_fst_set: "map_of xs k = Some v \<Longrightarrow> (k, v) \<in> set xs"
  by (rule map_of_SomeD)

lemma subseq_map_filter:
  assumes "\<And>x y. f x = Some y \<Longrightarrow> h y = k x"
  shows "subseq (map h (List.map_filter f xs)) (map k xs)"
  using assms by (induction xs) (auto simp: map_filter_simps split: option.splits)

lemma fusions_ok: "(\<forall>f\<in>set (fusions g). fusion_ok g f) \<and> distinct (map fz_layer (fusions g))"
proof -
  obtain gates ups where c: "collect_layers (g_node g) = (gates, ups)" by (cases "collect_layers (g_node g)")
  note C = collect_layers_ok [OF c]
  let ?fo = "fusion_of (g_node g) (initializer_map (g_initializer g)) ups"
  have F: "fusions g = List.map_filter ?fo (sort_key fst gates)" by (simp add: fusions_def c)
  have "fusion_ok g f" if "f \<in> set (fusions g)" for f
  proof -
    from that obtain layer gi where x: "(layer, gi) \<in> set gates" "?fo (layer, gi) = Some f"
      unfolding F by (auto simp: List.map_filter_def)
    then show ?thesis
      using fusion_of_Some [OF x(2)] C map_of_fst_set by (fastforce simp: fusion_ok_def)
  qed
  moreover have "subseq (map fz_layer (fusions g)) (map fst (sort_key fst gates))"
    unfolding F by (rule subseq_map_filter) (auto dest: fusion_of_Some)
  then have "distinct (map fz_layer (fusions g))"
  proof -
    assume "subseq (map fz_layer (fusions g)) (map fst (sort_key fst gates))"
    moreover have "distinct (map fst (sort_key fst gates))" using C by (simp add: distinct_map)
    ultimately show ?thesis using distinct_nthsI by (metis subseq_conv_nths)
  qed
  ultimately show ?thesis by blast
qed

lemma fusion_indices:
  assumes "f \<in> set (fusions g)" and "f' \<in> set (fusions g)"
  shows "fz_gate f = fz_gate f' \<Longrightarrow> f = f'" and "fz_up f = fz_up f' \<Longrightarrow> f = f'" and "fz_gate f \<noteq> fz_up f'"
proof -
  note ok = fusions_ok [of g]
  have f: "fusion_ok g f" "fusion_ok g f'" using ok assms by blast+
  have inj: "f = f'" if "fz_layer f = fz_layer f'"
    using ok assms that by (auto simp: distinct_map inj_on_def)
  show "f = f'" if "fz_gate f = fz_gate f'"
    using f that by (intro inj) (simp add: fusion_ok_def gate_node_def)
  show "f = f'" if "fz_up f = fz_up f'"
    using f that by (intro inj) (simp add: fusion_ok_def up_node_def)
  show "fz_gate f \<noteq> fz_up f'" using f by (auto simp: fusion_ok_def gate_node_def up_node_def)
qed

text \<open>The edited graph, position by position.\<close>

definition fuse_block :: "onnx_graph \<Rightarrow> nat \<Rightarrow> onnx_node list" where
  "fuse_block g i =
     (if i \<in> fz_up ` set (fusions g) then []
      else case List.find (\<lambda>f. fz_gate f = i) (fusions g) of
             Some f \<Rightarrow> chain_of (g_node g) f
           | None \<Rightarrow> [g_node g ! i])"

lemma fuse_block_up: "f \<in> set (fusions g) \<Longrightarrow> fuse_block g (fz_up f) = []"
  by (simp add: fuse_block_def)

lemma find_unique: "x \<in> set xs \<Longrightarrow> P x \<Longrightarrow> (\<And>y. y \<in> set xs \<Longrightarrow> P y \<Longrightarrow> y = x) \<Longrightarrow> List.find P xs = Some x"
proof (induction xs)
  case (Cons y xs)
  show ?case
  proof (cases "P y")
    case True
    then have "y = x" using Cons.prems(3) [of y] by simp
    then show ?thesis using True by simp
  next
    case False
    then have "x \<in> set xs" using Cons.prems(1,2) by auto
    then have "List.find P xs = Some x"
      using Cons.IH Cons.prems(2,3) by (meson list.set_intros(2))
    then show ?thesis using False by simp
  qed
qed simp

lemma fuse_block_gate:
  assumes "f \<in> set (fusions g)"
  shows "fuse_block g (fz_gate f) = chain_of (g_node g) f"
proof -
  have "List.find (\<lambda>f'. fz_gate f' = fz_gate f) (fusions g) = Some f"
    using assms fusion_indices(1) [OF _ assms] by (intro find_unique) auto
  then show ?thesis using fusion_indices(3) [OF assms] by (auto simp: fuse_block_def)
qed

lemma fuse_block_other:
  assumes "i \<notin> fz_up ` set (fusions g)" and "i \<notin> fz_gate ` set (fusions g)"
  shows "fuse_block g i = [g_node g ! i]"
proof -
  have "List.find (\<lambda>f. fz_gate f = i) (fusions g) = None" using assms(2) by (auto simp: find_None_iff)
  then show ?thesis using assms(1) by (simp add: fuse_block_def)
qed

lemma fuse_result:
  assumes "fuse_mlp_gate_up g = Inr (g', count)"
  shows "g' = \<lparr>g_node = concat (map (fuse_block g) [0..<length (g_node g)]),
      g_initializer = g_initializer g @ concat (map inits_of (fusions g))\<rparr>
    \<and> count = length (fusions g)
    \<and> (\<forall>f\<in>set (fusions g). nd_output (g_node g ! fz_gate f) \<noteq> [] \<and> nd_output (g_node g ! fz_up f) \<noteq> [])"
proof -
  obtain gates ups where c: "collect_layers (g_node g) = (gates, ups)" by (cases "collect_layers (g_node g)")
  let ?L = "sort_key fst gates" and ?fl = "fuse_layer (g_node g) (initializer_map (g_initializer g)) ups"
  from assms obtain st where st: "res_fold ?fl ?L fuse_start = Inr st"
    by (auto simp: fuse_mlp_gate_up_def c Let_def)
  have F: "fusions g = List.map_filter (fusion_of (g_node g) (initializer_map (g_initializer g)) ups) ?L"
    by (simp add: fusions_def c)
  note S = fuse_fold [OF st, folded F]
  have st': "fused st = map (\<lambda>f. (fz_layer f, chain_of (g_node g) f)) (fusions g)" "skip_ids st = fz_up ` set (fusions g)"
    "fu_inits st = concat (map inits_of (fusions g))"
    using S by (simp_all add: fuse_start_def)
  have gate: "map_of gates (fz_layer f) = Some (fz_gate f)" if f: "f \<in> set (fusions g)" for f
  proof -
    obtain layer gi where x: "(layer, gi) \<in> set gates"
      "fusion_of (g_node g) (initializer_map (g_initializer g)) ups (layer, gi) = Some f"
      using f unfolding F by (auto simp: List.map_filter_def)
    moreover have "fz_layer f = layer" "fz_gate f = gi" using fusion_of_Some [OF x(2)] by simp_all
    ultimately show ?thesis using collect_layers_ok [OF c] by simp
  qed
  have look: "map_of (fused st) l = (case List.find (\<lambda>f. fz_layer f = l) (fusions g) of None \<Rightarrow> None
      | Some f \<Rightarrow> Some (chain_of (g_node g) f))" for l
  proof -
    have "map_of (map (\<lambda>f. (fz_layer f, c f)) fs) l
        = (case List.find (\<lambda>f. fz_layer f = l) fs of None \<Rightarrow> None | Some f \<Rightarrow> Some (c f))"
      for c :: "fusion \<Rightarrow> onnx_node list" and fs
      by (induction fs) auto
    then show ?thesis unfolding st'(1) .
  qed
  have at_eq: "fuse_at (g_node g) gates st i = fuse_block g i" if "i < length (g_node g)" for i
  proof (cases "i \<in> fz_up ` set (fusions g)")
    case up: False
    show ?thesis
    proof (cases "i \<in> fz_gate ` set (fusions g)")
      case True
      then obtain f where f: "f \<in> set (fusions g)" "i = fz_gate f" by blast
      have ok: "gate_node (g_node g) (fz_layer f) i" using fusions_ok f by (auto simp: fusion_ok_def)
      have "List.find (\<lambda>f'. fz_layer f' = fz_layer f) (fusions g) = Some f"
        using f(1) fusions_ok [of g] by (intro find_unique) (auto simp: distinct_map inj_on_def)
      then show ?thesis
        using ok up gate [OF f(1)] fuse_block_gate [OF f(1)] f(2)
        by (simp add: fuse_at_def gate_node_def st'(2) look Let_def)
    next
      case False
      have "map_of gates l \<noteq> Some i" if "List.find (\<lambda>f. fz_layer f = l) (fusions g) = Some f" for l f
        using that gate False by (auto simp: find_Some_iff)
      then show ?thesis
        using up fuse_block_other [OF up False]
        by (auto simp: fuse_at_def st'(2) look Let_def split: option.splits)
    qed
  qed (auto simp: fuse_at_def st'(2) fuse_block_up)
  have "concat (map (fuse_at (g_node g) gates st) [0..<length (g_node g)]) = concat (map (fuse_block g) [0..<length (g_node g)])"
    using at_eq by (intro arg_cong [where f = concat] map_cong) auto
  moreover have "concat (map (fuse_block g) [0..<length (g_node g)]) = g_node g" if "fusions g = []"
  proof -
    have "fuse_block g = (\<lambda>i. [g_node g ! i])" using that by (simp add: fuse_block_def fun_eq_iff)
    then show ?thesis by (simp only: concat_map_singleton map_nth)
  qed
  ultimately show ?thesis
    using assms st S st' by (auto simp: fuse_mlp_gate_up_def c Let_def split: if_splits)
qed

section \<open>The fused graph\<close>

definition binary_products :: "onnx_graph \<Rightarrow> bool" where
  "binary_products g \<longleftrightarrow> (\<forall>nd\<in>set (g_node g). op_type nd = ''MatMul'' \<longrightarrow> length (nd_input nd) = 2)"

definition full_tensors :: "onnx_graph \<Rightarrow> bool" where
  "full_tensors g \<longleftrightarrow> (\<forall>t\<in>set (g_initializer g). length (in_vals t) = prod_list (in_dims t))"

definition gate_first :: "onnx_graph \<Rightarrow> bool" where
  "gate_first g \<longleftrightarrow> (\<forall>f\<in>set (fusions g). fz_gate f < fz_up f)"

definition fused_names :: "onnx_graph \<Rightarrow> string list" where
  "fused_names g = map in_name (concat (map inits_of (fusions g))) @ map (fused_out \<circ> fz_layer) (fusions g)"

definition fuse_fresh :: "onnx_graph \<Rightarrow> string set \<Rightarrow> bool" where
  "fuse_fresh g known \<longleftrightarrow>
     distinct (fused_names g) \<and> set (fused_names g) \<inter> insert [] (known \<union> outputs_of (g_node g)) = {}"

lemma two_elements: "length xs = 2 \<longleftrightarrow> (\<exists>x y. xs = [x, y])"
  by (auto simp: length_Suc_conv eval_nat_numeral)

lemma fusion_parts:
  assumes "f \<in> set (fusions g)" and "binary_products g" and "full_tensors g"
  obtains x gn un k n where "nd_input (g_node g ! fz_gate f) = [x, gn]" "nd_input (g_node g ! fz_up f) = [x, un]"
    "initializer_map (g_initializer g) gn = Some (fz_gw f)" "initializer_map (g_initializer g) un = Some (fz_uw f)"
    "in_dims (fz_gw f) = [k, n]" "in_dims (fz_uw f) = [k, n]"
    "length (in_vals (fz_gw f)) = k * n" "length (in_vals (fz_uw f)) = k * n"
    "g_node g ! fz_gate f \<in> set (g_node g)" "g_node g ! fz_up f \<in> set (g_node g)"
    "op_type (g_node g ! fz_gate f) = ''MatMul''" "op_type (g_node g ! fz_up f) = ''MatMul''"
proof -
  have ok: "fusion_ok g f" using fusions_ok assms(1) by blast
  then have i: "fz_gate f < length (g_node g)" "fz_up f < length (g_node g)"
    "op_type (g_node g ! fz_gate f) = ''MatMul''" "op_type (g_node g ! fz_up f) = ''MatMul''"
    by (simp_all add: fusion_ok_def gate_node_def up_node_def)
  have m: "g_node g ! fz_gate f \<in> set (g_node g)" "g_node g ! fz_up f \<in> set (g_node g)" using i by simp_all
  obtain x gn where gi: "nd_input (g_node g ! fz_gate f) = [x, gn]"
    using assms(2) m(1) i(3) unfolding binary_products_def two_elements by blast
  obtain x' un where ui: "nd_input (g_node g ! fz_up f) = [x', un]"
    using assms(2) m(2) i(4) unfolding binary_products_def two_elements by blast
  have p: "pair_weights (initializer_map (g_initializer g)) (g_node g ! fz_gate f) (g_node g ! fz_up f)
      = Inr (Some (fz_gw f, fz_uw f))"
    using ok by (simp add: fusion_ok_def)
  then have w: "x' = x" "initializer_map (g_initializer g) gn = Some (fz_gw f)"
    "initializer_map (g_initializer g) un = Some (fz_uw f)"
    "length (in_dims (fz_gw f)) = 2" "length (in_dims (fz_uw f)) = 2"
    "in_dims (fz_gw f) ! 0 = in_dims (fz_uw f) ! 0" "in_dims (fz_gw f) ! 1 = in_dims (fz_uw f) ! 1"
    by (auto simp: pair_weights_def gi ui split: if_splits option.splits)
  obtain k n where d: "in_dims (fz_gw f) = [k, n]" using w(4) unfolding two_elements by blast
  then have d': "in_dims (fz_uw f) = [k, n]" using w(5-7) unfolding two_elements by auto
  have "length (in_vals (fz_gw f)) = k * n" "length (in_vals (fz_uw f)) = k * n"
    using assms(3) initializer_map_Some [OF w(2)] initializer_map_Some [OF w(3)] d d' unfolding full_tensors_def by simp_all
  then show thesis using that gi ui w(1-3) d d' m i(3,4) by blast
qed

text \<open>The chain of a pair.\<close>

lemma chain_satisfied:
  assumes sem: "fuse_sem sem denote cols" and f: "f \<in> set (fusions g)" "binary_products g" "full_tensors g"
    and sol: "solves sem e (g_node g)"
    and e: "\<And>x t. initializer_map (g_initializer g) x = Some t \<Longrightarrow> e x = Some (denote (in_dims t) (in_vals t))"
    and inits: "\<And>t. t \<in> set (inits_of f) \<Longrightarrow> e' (in_name t) = Some (denote (in_dims t) (in_vals t))"
    and same: "\<And>nd x. nd \<in> set (g_node g) \<Longrightarrow> x \<in> set (nd_input nd) \<union> set (nd_output nd) \<Longrightarrow> e' x = e x"
    and y: "\<And>vs. sem ''MatMul'' [] [] [e (hd (nd_input (g_node g ! fz_gate f))),
        Some (denote (in_dims (hd (inits_of f))) (in_vals (hd (inits_of f))))] = Some vs \<Longrightarrow> e' (fused_out (fz_layer f)) = Some (hd vs)"
  shows "solves sem e' (chain_of (g_node g) f)
    \<and> length (nd_output (g_node g ! fz_gate f)) = 1 \<and> length (nd_output (g_node g ! fz_up f)) = 1"
proof -
  let ?gate = "g_node g ! fz_gate f" and ?up = "g_node g ! fz_up f"
  obtain x gn un k n where p: "nd_input ?gate = [x, gn]" "nd_input ?up = [x, un]"
    "initializer_map (g_initializer g) gn = Some (fz_gw f)" "initializer_map (g_initializer g) un = Some (fz_uw f)"
    "in_dims (fz_gw f) = [k, n]" "in_dims (fz_uw f) = [k, n]"
    "length (in_vals (fz_gw f)) = k * n" "length (in_vals (fz_uw f)) = k * n"
    "?gate \<in> set (g_node g)" "?up \<in> set (g_node g)" "op_type ?gate = ''MatMul''" "op_type ?up = ''MatMul''"
    using fusion_parts [OF f] by metis
  obtain gs where gs: "sem ''MatMul'' (nd_domain ?gate) (nd_attribute ?gate) [e x, Some (denote [k, n] (in_vals (fz_gw f)))] = Some gs"
    "map e (nd_output ?gate) = map Some gs"
    using sol p(9,11) e [OF p(3)] by (fastforce simp: satisfies_def p(1,5))
  obtain us where us: "sem ''MatMul'' (nd_domain ?up) (nd_attribute ?up) [e x, Some (denote [k, n] (in_vals (fz_uw f)))] = Some us"
    "map e (nd_output ?up) = map Some us"
    using sol p(10,12) e [OF p(4)] by (fastforce simp: satisfies_def p(2,6))
  from fused_product [OF sem p(7,8) gs(1) us(1)] obtain v where
    v: "sem ''MatMul'' [] [] [e x, Some (denote [k, 2 * n] (concat_cols k n (in_vals (fz_gw f)) (in_vals (fz_uw f))))] = Some [v]"
    "gs = [cols 0 n v]" "us = [cols n (2 * n) v]"
    by metis
  obtain go uo where o: "nd_output ?gate = [go]" "nd_output ?up = [uo]" "e go = Some (cols 0 n v)" "e uo = Some (cols n (2 * n) v)"
    using gs(2) us(2) v(2,3) by (auto simp: map_eq_Cons_conv)
  have e'f: "e' (fused_out (fz_layer f)) = Some v"
    using y v(1) by (simp add: fused_inits_def Let_def p)
  have c: "e' x = e x" "e' go = e go" "e' uo = e uo"
    using same [OF p(9)] same [OF p(10)] o p(1) by auto
  have all: "list_all (\<lambda>t. e' (in_name t) = Some (denote (in_dims t) (in_vals t))) (inits_of f)"
    using inits unfolding list_all_iff by blast
  have i: "e' (safe_layer (fz_layer f) @ ''_mlp_gate_up_fused_weight'')
      = Some (denote [k, 2 * n] (concat_cols k n (in_vals (fz_gw f)) (in_vals (fz_uw f))))"
    "e' (safe_layer (fz_layer f) @ ''_gate_slice_starts'') = Some (denote [1] [of_nat 0])"
    "e' (safe_layer (fz_layer f) @ ''_gate_slice_ends'') = Some (denote [1] [of_nat n])"
    "e' (safe_layer (fz_layer f) @ ''_up_slice_starts'') = Some (denote [1] [of_nat n])"
    "e' (safe_layer (fz_layer f) @ ''_up_slice_ends'') = Some (denote [1] [of_nat (2 * n)])"
    "e' (safe_layer (fz_layer f) @ ''_gate_up_slice_axes'') = Some (denote [1] [-1])"
    using all by (simp_all add: fused_inits_def Let_def const_i64_def p)
  have s: "sem ''Slice'' [] [] [Some v, Some (denote [1] [of_nat 0]), Some (denote [1] [of_nat n]), Some (denote [1] [-1])]
      = Some [cols 0 n v]"
    "sem ''Slice'' [] [] [Some v, Some (denote [1] [of_nat n]), Some (denote [1] [of_nat (2 * n)]), Some (denote [1] [-1])]
      = Some [cols n (2 * n) v]"
    by (rule fuse_semD(5) [OF sem], simp)+
  have "satisfies sem e' nd" if "nd \<in> set (chain_of (g_node g) f)" for nd
    using that v(1) s by (auto simp: fused_nodes_def Let_def make_node_def satisfies_def p(1) o c e'f i)
  then show ?thesis using o by simp
qed

text \<open>Where the outputs of the original nodes are written.\<close>

lemma fuse_block_outputs:
  assumes one: "\<And>f. f \<in> set (fusions g) \<Longrightarrow>
      length (nd_output (g_node g ! fz_gate f)) = 1 \<and> length (nd_output (g_node g ! fz_up f)) = 1"
    and first: "gate_first g" and n: "n \<le> length (g_node g)"
  shows "outputs_of (take n (g_node g)) \<subseteq> outputs_of (concat (map (fuse_block g) [0..<n]))"
proof
  fix x
  assume "x \<in> outputs_of (take n (g_node g))"
  then obtain nd where nd: "nd \<in> set (take n (g_node g))" "x \<in> set (nd_output nd)" by blast
  then obtain j where j: "j < n" "x \<in> set (nd_output (g_node g ! j))"
    using n by (auto simp: in_set_conv_nth [of nd])
  have gate: "x \<in> outputs_of (fuse_block g (fz_gate f))"
    if "f \<in> set (fusions g)" "j = fz_gate f \<or> j = fz_up f" for f
    using that one [OF that(1)] j(2) by (auto simp: fuse_block_gate fused_nodes_def Let_def make_node_def length_Suc_conv)
  consider f where "f \<in> set (fusions g)" "j = fz_gate f" | f where "f \<in> set (fusions g)" "j = fz_up f"
    | "j \<notin> fz_up ` set (fusions g)" "j \<notin> fz_gate ` set (fusions g)" by blast
  then have "\<exists>i<n. x \<in> outputs_of (fuse_block g i)"
  proof cases
    case (2 f)
    then have "fz_gate f < n" using first j(1) by (auto simp: gate_first_def)
    then show ?thesis using gate 2 by blast
  next
    case 3
    then show ?thesis using fuse_block_other [OF 3] j by auto
  qed (use gate j(1) in blast)
  then show "x \<in> outputs_of (concat (map (fuse_block g) [0..<n]))" by auto
qed

lemma fuse_block_outputs_new:
  assumes one: "\<And>f. f \<in> set (fusions g) \<Longrightarrow>
      length (nd_output (g_node g ! fz_gate f)) = 1 \<and> length (nd_output (g_node g ! fz_up f)) = 1"
    and i: "i < length (g_node g)"
  shows "outputs_of (fuse_block g i) \<subseteq> outputs_of (g_node g) \<union> (fused_out \<circ> fz_layer) ` set (fusions g)"
proof -
  consider f where "f \<in> set (fusions g)" "i = fz_gate f" | f where "f \<in> set (fusions g)" "i = fz_up f"
    | "i \<notin> fz_up ` set (fusions g)" "i \<notin> fz_gate ` set (fusions g)" by blast
  then show ?thesis
  proof cases
    case (1 f)
    have "fusion_ok g f" using fusions_ok 1 by blast
    then have m: "g_node g ! fz_gate f \<in> set (g_node g)" "g_node g ! fz_up f \<in> set (g_node g)"
      by (simp_all add: fusion_ok_def gate_node_def up_node_def)
    obtain a b where ab: "nd_output (g_node g ! fz_gate f) = [a]" "nd_output (g_node g ! fz_up f) = [b]"
      using one [OF 1(1)] by (auto simp: length_Suc_conv)
    have "a \<in> outputs_of (g_node g)" "b \<in> outputs_of (g_node g)"
      using m ab by (metis UN_I list.set_intros(1))+
    moreover have "outputs_of (fuse_block g i) = {fused_out (fz_layer f), a, b}"
      using 1 ab by (simp add: fuse_block_gate fused_nodes_def Let_def make_node_def) blast
    ultimately show ?thesis using 1(1) by auto
  next
    case (2 f)
    then show ?thesis by (simp add: fuse_block_up)
  next
    case 3
    then show ?thesis using i by (auto simp: fuse_block_other [OF 3])
  qed
qed

lemma fuse_block_readable:
  assumes "binary_products g" and "full_tensors g" and "i < length (g_node g)"
    and "in_name ` set (concat (map inits_of (fusions g))) \<subseteq> K" and "set (nd_input (g_node g ! i)) \<subseteq> insert [] K"
  shows "readable K (fuse_block g i)"
proof -
  consider f where "f \<in> set (fusions g)" "i = fz_gate f" | f where "f \<in> set (fusions g)" "i = fz_up f"
    | "i \<notin> fz_up ` set (fusions g)" "i \<notin> fz_gate ` set (fusions g)" by blast
  then show ?thesis
  proof cases
    case (1 f)
    obtain x gn where x: "nd_input (g_node g ! fz_gate f) = [x, gn]"
      using fusion_parts [OF 1(1) assms(1,2)] by metis
    have "in_name ` set (inits_of f) \<subseteq> K" using assms(4) 1(1) by auto
    then show ?thesis
      using x assms(5) 1 by (simp add: fuse_block_gate fused_nodes_def fused_inits_def const_i64_def Let_def make_node_def)
  next
    case (2 f)
    then show ?thesis by (simp add: fuse_block_up)
  next
    case 3
    then show ?thesis using assms(5) by (simp add: fuse_block_other [OF 3])
  qed
qed

text \<open>The environment of the fused graph.\<close>

definition fused_value :: "'v onnx_sem \<Rightarrow> (nat list \<Rightarrow> rat list \<Rightarrow> 'v) \<Rightarrow> onnx_graph \<Rightarrow> 'v env \<Rightarrow> fusion \<Rightarrow> 'v" where
  "fused_value sem denote g e f =
     hd (the (sem ''MatMul'' [] [] [e (hd (nd_input (g_node g ! fz_gate f))),
       Some (denote (in_dims (hd (inits_of f))) (in_vals (hd (inits_of f))))]))"

definition fused_env :: "'v onnx_sem \<Rightarrow> (nat list \<Rightarrow> rat list \<Rightarrow> 'v) \<Rightarrow> onnx_graph \<Rightarrow> 'v env \<Rightarrow> 'v env" where
  "fused_env sem denote g e =
     init_env denote (concat (map inits_of (fusions g))) e
       ++ map_of (map (\<lambda>f. (fused_out (fz_layer f), fused_value sem denote g e f)) (fusions g))"

lemma fused_env_lookup:
  assumes "distinct (fused_names g)"
  shows "x \<notin> (fused_out \<circ> fz_layer) ` set (fusions g) \<Longrightarrow>
      fused_env sem denote g e x = init_env denote (concat (map inits_of (fusions g))) e x"
    and "x \<notin> set (fused_names g) \<Longrightarrow> fused_env sem denote g e x = e x"
    and "f \<in> set (fusions g) \<Longrightarrow> t \<in> set (inits_of f) \<Longrightarrow>
      fused_env sem denote g e (in_name t) = Some (denote (in_dims t) (in_vals t))"
    and "f \<in> set (fusions g) \<Longrightarrow> fused_env sem denote g e (fused_out (fz_layer f)) = Some (fused_value sem denote g e f)"
proof -
  let ?inits = "concat (map inits_of (fusions g))"
  let ?M = "map (\<lambda>f. (fused_out (fz_layer f), fused_value sem denote g e f)) (fusions g)"
  have d: "distinct (map in_name ?inits)" "distinct (map fst ?M)"
    "in_name ` set ?inits \<inter> (fused_out \<circ> fz_layer) ` set (fusions g) = {}"
    using assms unfolding fused_names_def distinct_append set_map by (simp_all add: comp_def)
  have none: "map_of ?M x = None" if "x \<notin> (fused_out \<circ> fz_layer) ` set (fusions g)" for x
    using that by (auto simp: map_of_eq_None_iff)
  show init: "fused_env sem denote g e x = init_env denote ?inits e x"
    if "x \<notin> (fused_out \<circ> fz_layer) ` set (fusions g)" for x
    using none [OF that] by (simp add: fused_env_def map_add_def)
  show "fused_env sem denote g e x = e x" if "x \<notin> set (fused_names g)"
  proof -
    have "x \<notin> (fused_out \<circ> fz_layer) ` set (fusions g)" "x \<notin> in_name ` set ?inits"
      using that unfolding fused_names_def set_append set_map by blast+
    then show ?thesis using init [of x] initializer_map_None [of ?inits x] by (simp add: init_env_lookup)
  qed
  show "fused_env sem denote g e (in_name t) = Some (denote (in_dims t) (in_vals t))"
    if "f \<in> set (fusions g)" "t \<in> set (inits_of f)"
  proof -
    have t: "t \<in> set ?inits" using that by auto
    then have "in_name t \<notin> (fused_out \<circ> fz_layer) ` set (fusions g)" using d(3) by blast
    then show ?thesis using init initializer_map_distinct [OF d(1) t] by (simp add: init_env_lookup)
  qed
  show "fused_env sem denote g e (fused_out (fz_layer f)) = Some (fused_value sem denote g e f)" if "f \<in> set (fusions g)"
  proof -
    have "map_of ?M (fused_out (fz_layer f)) = Some (fused_value sem denote g e f)"
      using that by (intro map_of_is_SomeI [OF d(2)]) auto
    then show ?thesis by (simp add: fused_env_def map_add_def)
  qed
qed

lemma fused_outs_separate:
  assumes "A \<subseteq> O' \<union> F" and "N = I \<union> F" and "N \<inter> insert z (K \<union> O') = {}" and "O' \<inter> insert z K = {}" and "I \<inter> F = {}"
  shows "A \<inter> insert z (K \<union> I) = {}"
  using assms by auto

text \<open>
  C35: the fused graph runs whenever the original does and gives every original name the same value,
  when a gate precedes its up projection, the new names are new and the operators are as stated.
\<close>

theorem fuse_refines:
  assumes fuse: "fuse_mlp_gate_up g = Inr (g', count)" and sem: "fuse_sem sem denote cols"
    and shape: "binary_products g" "full_tensors g" and first: "gate_first g" and fresh: "fuse_fresh g known"
    and order: "readable known (g_node g)" "written_once known (g_node g)" "in_name ` set (g_initializer g) \<subseteq> known"
    and run: "eval_graph sem denote g given = Some e"
  shows "\<exists>e1. eval_graph sem denote g' given = Some e1 \<and> (\<forall>x. x \<notin> set (fused_names g) \<longrightarrow> e1 x = e x)"
proof -
  let ?inits = "concat (map inits_of (fusions g))" and ?e = "fused_env sem denote g e"
  let ?nodes = "concat (map (fuse_block g) [0..<length (g_node g)])"
  let ?outs = "(fused_out \<circ> fz_layer) ` set (fusions g)"
  have g': "g' = \<lparr>g_node = ?nodes, g_initializer = g_initializer g @ ?inits\<rparr>" using fuse_result [OF fuse] by simp
  have names: "distinct (fused_names g)" "set (fused_names g) = in_name ` set ?inits \<union> ?outs"
    "set (fused_names g) \<inter> insert [] (known \<union> outputs_of (g_node g)) = {}" "in_name ` set ?inits \<inter> ?outs = {}"
    using fresh unfolding fuse_fresh_def by (simp_all add: fused_names_def del: Int_insert_right insert_disjoint)
  note look = fused_env_lookup [OF names(1), where sem = sem and denote = denote and e = e]
  note old = eval_graph_start [OF order(1,2) run]
  have used: "x \<notin> set (fused_names g)"
    if nd: "nd \<in> set (g_node g)" "x \<in> set (nd_input nd) \<union> set (nd_output nd)" for nd x
  proof -
    have "x \<in> inputs_of (g_node g) \<union> outputs_of (g_node g)" using nd by blast
    then have "x \<in> insert [] (known \<union> outputs_of (g_node g))" using readable_inputs [OF order(1)] by blast
    then show ?thesis using names(3) by blast
  qed
  have chain: "solves sem ?e (chain_of (g_node g) f)
      \<and> length (nd_output (g_node g ! fz_gate f)) = 1 \<and> length (nd_output (g_node g ! fz_up f)) = 1"
    if f: "f \<in> set (fusions g)" for f
  proof (rule chain_satisfied [OF sem f shape old(1)])
    show "e x = Some (denote (in_dims t) (in_vals t))" if "initializer_map (g_initializer g) x = Some t" for x t
      using eval_graph_initializer [OF order run that] .
    show "?e x = e x" if "nd \<in> set (g_node g)" "x \<in> set (nd_input nd) \<union> set (nd_output nd)" for nd x
      using look(2) used [OF that] by blast
    show "?e (fused_out (fz_layer f)) = Some (hd vs)" if "sem ''MatMul'' [] [] [e (hd (nd_input (g_node g ! fz_gate f))),
        Some (denote (in_dims (hd (inits_of f))) (in_vals (hd (inits_of f))))] = Some vs" for vs
      using look(4) [OF f] that by (simp add: fused_value_def)
  qed (rule look(3) [OF f])
  have one: "length (nd_output (g_node g ! fz_gate f)) = 1 \<and> length (nd_output (g_node g ! fz_up f)) = 1"
    if "f \<in> set (fusions g)" for f
    using chain [OF that] by simp
  have sat: "satisfies sem ?e nd" if i: "i < length (g_node g)" and nd: "nd \<in> set (fuse_block g i)" for i nd
  proof (cases "i \<in> fz_gate ` set (fusions g)")
    case True
    then show ?thesis using nd chain fuse_block_gate by fastforce
  next
    case other: False
    show ?thesis
    proof (cases "i \<in> fz_up ` set (fusions g)")
      case True
      then show ?thesis using nd fuse_block_up by fastforce
    next
      case False
      then have n: "nd \<in> set (g_node g)" using nd i by (simp add: fuse_block_other [OF False other])
      then show ?thesis using old(1) satisfies_cong [of nd ?e e] look(2) used [OF n] by blast
    qed
  qed
  have sup: "outputs_of (g_node g) \<subseteq> outputs_of ?nodes"
    using fuse_block_outputs [OF one first, of "length (g_node g)"] by simp
  have sub: "outputs_of ?nodes \<subseteq> outputs_of (g_node g) \<union> ?outs"
    using fuse_block_outputs_new [OF one] by (simp add: UN_subset_iff)
  have new: "?outs \<subseteq> outputs_of ?nodes"
  proof
    fix x
    assume "x \<in> ?outs"
    then obtain f where f: "f \<in> set (fusions g)" "x = fused_out (fz_layer f)" by auto
    then have "x \<in> outputs_of (fuse_block g (fz_gate f))"
      by (simp add: fuse_block_gate fused_nodes_def Let_def make_node_def)
    moreover have "fz_gate f < length (g_node g)" using fusions_ok f(1) by (auto simp: fusion_ok_def gate_node_def)
    ultimately show "x \<in> outputs_of ?nodes" by auto
  qed
  have "eval_graph sem denote g' given = Some ?e"
  proof (rule edit_evaluates [where known = "known \<union> in_name ` set ?inits"])
    show "readable (known \<union> in_name ` set ?inits) (g_node g')"
      unfolding g' onnx_graph.select_convs
      by (rule readable_expand [OF order(1)])
        (use fuse_block_outputs [OF one first] fuse_block_readable [OF shape] in \<open>simp_all add: less_imp_le\<close>)
    show "solves sem ?e (g_node g')" using sat by (auto simp: g')
    show "outputs_of (g_node g') \<inter> insert [] (known \<union> in_name ` set ?inits) = {}"
      unfolding g' onnx_graph.select_convs
      by (rule fused_outs_separate [OF sub names(2,3) _ names(4)]) (use order(2) in \<open>simp add: written_once_def\<close>)
    show "init_env denote (g_initializer g') given x = ?e x" if "x \<notin> outputs_of (g_node g')" for x
    proof -
      have x: "x \<notin> ?outs" "x \<notin> outputs_of (g_node g)" using that sup new by (auto simp: g')
      show ?thesis
        using look(1) [OF x(1)] old(2) [OF x(2)]
        by (simp add: g' init_env_lookup initializer_map_append split: option.splits)
    qed
  qed
  then show ?thesis using look(2) by blast
qed

text \<open>Vectors times matrices, and a layer whose two projections are one column each.\<close>

definition row_mat :: "nat list \<times> rat list \<Rightarrow> nat list \<times> rat list \<Rightarrow> nat list \<times> rat list" where
  "row_mat x w =
     (let k = fst w ! 0; n = fst w ! 1 in
      ([n], map (\<lambda>c. sum_list (map (\<lambda>r. snd x ! r * snd w ! (r * n + c)) [0..<k])) [0..<n]))"

definition row_cols :: "nat \<Rightarrow> nat \<Rightarrow> nat list \<times> rat list \<Rightarrow> nat list \<times> rat list" where
  "row_cols a b y = ([b - a], map (\<lambda>c. snd y ! (a + c)) [0..<b - a])"

definition eg_fuse_sem :: "(nat list \<times> rat list) onnx_sem" where
  "eg_fuse_sem ty domain attrs xs =
     (if ty = ''MatMul''
      then (case xs of [Some x, Some w] \<Rightarrow> if length (snd x) = fst w ! 0 then Some [row_mat x w] else None | _ \<Rightarrow> None)
      else (case xs of
          [Some y, Some s, Some t, Some _] \<Rightarrow> Some [row_cols (nat \<lfloor>hd (snd s)\<rfloor>) (nat \<lfloor>hd (snd t)\<rfloor>) y]
        | _ \<Rightarrow> None))"

lemma row_mat_cols:
  assumes "a \<le> b" and "b \<le> m"
  shows "row_mat x ([k, b - a], col_range k m a b w) = row_cols a b (row_mat x ([k, m], w))"
proof -
  have "col_range k m a b w ! (r * (b - a) + c) = w ! (r * m + (a + c))" if "r < k" "c < b - a" for r c
  proof -
    have "r * (b - a) + c < Suc r * (b - a)" using that(2) by simp
    also have "\<dots> \<le> k * (b - a)" using that(1) by (intro mult_le_mono1) simp
    finally show ?thesis using that by (simp add: col_range_def add.assoc)
  qed
  then have "sum_list (map (\<lambda>r. snd x ! r * col_range k m a b w ! (r * (b - a) + c)) [0..<k])
      = sum_list (map (\<lambda>r. snd x ! r * w ! (r * m + (a + c))) [0..<k])" if "c < b - a" for c
    using that by (intro arg_cong [where f = sum_list] map_cong) auto
  moreover have "[0..<m] ! (a + c) = a + c" if "c < b - a" for c using that assms by simp
  ultimately show ?thesis using assms by (auto simp: row_mat_def row_cols_def Let_def)
qed

lemma eg_fuse_sem_ok: "fuse_sem eg_fuse_sem Pair row_cols"
  unfolding fuse_sem_def
proof (intro conjI allI impI)
  fix x k m w y a b
  assume "a \<le> b" "b \<le> m" "eg_fuse_sem ''MatMul'' [] [] [x, Some ([k, m], w)] = Some [y]"
  then show "eg_fuse_sem ''MatMul'' [] [] [x, Some ([k, b - a], col_range k m a b w)] = Some [row_cols a b y]"
    by (auto simp: eg_fuse_sem_def row_mat_cols split: option.splits if_splits)
next
  fix x k n w m w'
  assume "eg_fuse_sem ''MatMul'' [] [] [x, Some ([k, n], w)] \<noteq> None"
  then show "eg_fuse_sem ''MatMul'' [] [] [x, Some ([k, m], w')] \<noteq> None"
    by (auto simp: eg_fuse_sem_def split: option.splits if_splits)
qed (auto simp: eg_fuse_sem_def split: list.splits option.splits if_splits)

definition eg_fuse_graph :: onnx_graph where
  "eg_fuse_graph =
     \<lparr>g_node = [make_node ''MatMul'' [''x'', ''g''] [''h''] ''/l/mlp/gate_proj/MatMul'' [],
        make_node ''MatMul'' [''x'', ''u''] [''y''] ''/l/mlp/up_proj/MatMul'' []],
      g_initializer = [\<lparr>in_name = ''g'', in_dims = [2, 1], in_vals = [1, 2], in_itemsize = 4\<rparr>,
        \<lparr>in_name = ''u'', in_dims = [2, 1], in_vals = [3, 4], in_itemsize = 4\<rparr>]\<rparr>"

abbreviation eg_fuse_known :: "string set" where
  "eg_fuse_known \<equiv> {''x'', ''g'', ''u''}"

lemma eg_fusions:
  "fusions eg_fuse_graph =
     [\<lparr>fz_layer = ''/l'', fz_gate = 0, fz_up = 1, fz_gw = g_initializer eg_fuse_graph ! 0,
       fz_uw = g_initializer eg_fuse_graph ! 1\<rparr>]"
  by code_simp

lemma eg_fuse_value:
  "case eval_graph eg_fuse_sem Pair eg_fuse_graph [''x'' \<mapsto> ([2], [5, 6])] of
     None \<Rightarrow> False | Some e \<Rightarrow> e ''h'' = Some ([1], [17]) \<and> e ''y'' = Some ([1], [39])"
  by code_simp

theorem fuse_refines_witness:
  "\<exists>g' e1. fuse_mlp_gate_up eg_fuse_graph = Inr (g', 1) \<and> map op_type (g_node g') = [''MatMul'', ''Slice'', ''Slice'']
     \<and> eval_graph eg_fuse_sem Pair g' [''x'' \<mapsto> ([2], [5, 6])] = Some e1
     \<and> e1 ''h'' = Some ([1], [17]) \<and> e1 ''y'' = Some ([1], [39])"
proof -
  have "case fuse_mlp_gate_up eg_fuse_graph of Inl _ \<Rightarrow> False
      | Inr (g', n) \<Rightarrow> n = 1 \<and> map op_type (g_node g') = [''MatMul'', ''Slice'', ''Slice'']"
    by code_simp
  then obtain g' where g': "fuse_mlp_gate_up eg_fuse_graph = Inr (g', 1)" "map op_type (g_node g') = [''MatMul'', ''Slice'', ''Slice'']"
    by (auto split: sum.splits)
  obtain e where e: "eval_graph eg_fuse_sem Pair eg_fuse_graph [''x'' \<mapsto> ([2], [5, 6])] = Some e"
    "e ''h'' = Some ([1], [17])" "e ''y'' = Some ([1], [39])"
    using eg_fuse_value by (auto split: option.splits)
  have names: "fused_names eg_fuse_graph = map (\<lambda>s. ''l'' @ s) [''_mlp_gate_up_fused_weight'', ''_gate_slice_starts'',
      ''_gate_slice_ends'', ''_up_slice_starts'', ''_up_slice_ends'', ''_gate_up_slice_axes'']
      @ [''/l/mlp/gate_up_fused/MatMul_output_0'']"
    by code_simp
  have shape: "binary_products eg_fuse_graph" "full_tensors eg_fuse_graph" "gate_first eg_fuse_graph"
    by (simp_all add: binary_products_def full_tensors_def gate_first_def eg_fusions)
      (simp_all add: eg_fuse_graph_def make_node_def)
  have fresh: "fuse_fresh eg_fuse_graph eg_fuse_known"
    unfolding fuse_fresh_def names by (simp add: eg_fuse_graph_def make_node_def)
  have "readable eg_fuse_known (g_node eg_fuse_graph)" "written_once eg_fuse_known (g_node eg_fuse_graph)"
    "in_name ` set (g_initializer eg_fuse_graph) \<subseteq> eg_fuse_known"
    by (auto simp: eg_fuse_graph_def make_node_def written_once_def)
  from fuse_refines [OF g'(1) eg_fuse_sem_ok shape fresh this e(1)] obtain e1 where
    e1: "eval_graph eg_fuse_sem Pair g' [''x'' \<mapsto> ([2], [5, 6])] = Some e1"
    "\<forall>x. x \<notin> set (fused_names eg_fuse_graph) \<longrightarrow> e1 x = e x"
    by blast
  have "e1 ''h'' = e ''h''" "e1 ''y'' = e ''y''" using e1(2) unfolding names by simp_all
  then show ?thesis using g' e1(1) e by (intro exI [of _ g'] exI [of _ e1]) simp
qed

end
