(* ===== verification/Matcha.thy ===== *)
theory Matcha
  imports Onnx_Solve
begin

text \<open>
  \<^verbatim>\<open>models/matcha/surgery_matcha_acoustic.py\<close>: three edits of the acoustic model's graph.  The
  random noise becomes an input that is sliced to size, the length scale an integer in thousandths,
  and the three \<^verbatim>\<open>Range\<close> nodes slices of constants.  A node that a Python variable refers to is
  given by its position in the list; \<^verbatim>\<open>index\<close> and \<^verbatim>\<open>remove\<close> compare nodes by value.
\<close>

section \<open>Model\<close>

record matcha_model =
  mm_graph :: onnx_graph
  mm_input :: "(string \<times> int) list"

datatype matcha_error = InputIndex | OutputIndex | NoMulConsumer | NodeMissing | FileMissing | CheckerFailed | ValidationFailed

definition INT64 :: int where "INT64 = 7"

definition make_int64_tensor :: "string \<Rightarrow> int list \<Rightarrow> onnx_init" where
  "make_int64_tensor name vals = \<lparr>in_name = name, in_dims = [length vals], in_vals = map of_int vals, in_itemsize = 8\<rparr>"

definition make_float_tensor :: "string \<Rightarrow> rat list \<Rightarrow> onnx_init" where
  "make_float_tensor name vals = \<lparr>in_name = name, in_dims = [length vals], in_vals = vals, in_itemsize = 4\<rparr>"

text \<open>Lists: the first position of a property, insertion, and a node with one input changed.\<close>

fun first_position :: "('a \<Rightarrow> bool) \<Rightarrow> 'a list \<Rightarrow> nat option" where
  "first_position P [] = None"
| "first_position P (x # xs) = (if P x then Some 0 else map_option Suc (first_position P xs))"

definition insert_at :: "nat \<Rightarrow> 'a list \<Rightarrow> 'a list \<Rightarrow> 'a list" where
  "insert_at p new xs = take p xs @ new @ drop p xs"

definition set_input :: "nat \<Rightarrow> string \<Rightarrow> onnx_node \<Rightarrow> onnx_node" where
  "set_input idx x nd = nd\<lparr>nd_input := (nd_input nd)[idx := x]\<rparr>"

section \<open>Noise\<close>

text \<open>The last node that reads a name, and where it reads it first.\<close>

definition last_consumer :: "onnx_node list \<Rightarrow> string \<Rightarrow> (nat \<times> nat) option" where
  "last_consumer nodes x =
     fold (\<lambda>(p, nd) found. case first_position (\<lambda>y. y = x) (nd_input nd) of None \<Rightarrow> found | Some idx \<Rightarrow> Some (p, idx))
       (enumerate 0 nodes) None"

definition noise_nodes :: "string \<Rightarrow> string \<Rightarrow> onnx_node list" where
  "noise_nodes name shape_ref =
     [make_node ''Shape'' [shape_ref] [name @ ''_Shape_output_0''] (name @ ''_Shape'') [],
      make_node ''Cast'' [name @ ''_Shape_output_0''] [name @ ''_Cast_output_0''] (name @ ''_Cast'') [(''to'', JInt INT64)],
      make_node ''Slice'' [''noise'', name @ ''_slice_starts'', name @ ''_Cast_output_0'', name @ ''_slice_axes'',
        name @ ''_slice_steps''] [name @ ''_Slice_output_0''] (name @ ''_Slice'') []]"

definition noise_inits :: "string \<Rightarrow> onnx_init list" where
  "noise_inits name =
     [make_int64_tensor (name @ ''_slice_starts'') [0, 0, 0], make_int64_tensor (name @ ''_slice_axes'') [0, 1, 2],
      make_int64_tensor (name @ ''_slice_steps'') [1, 1, 1]]"

definition fix_random_normal_like :: "matcha_model \<Rightarrow> matcha_error + matcha_model" where
  "fix_random_normal_like m =
     (let nodes = g_node (mm_graph m) in
      case first_position (\<lambda>nd. op_type nd = ''RandomNormalLike'') nodes of
        None \<Rightarrow> Inr m
      | Some r \<Rightarrow>
          let rnn = nodes ! r in
          if nd_input rnn = [] then Inl InputIndex
          else if nd_output rnn = [] then Inl OutputIndex
          else case last_consumer nodes (hd (nd_output rnn)) of
            None \<Rightarrow> Inl NoMulConsumer
          | Some (p, idx) \<Rightarrow>
              if idx = 0 \<and> length (nd_input (nodes ! p)) = 1 then Inl InputIndex
              else
                let mul = set_input idx (nd_name rnn @ ''_Slice_output_0'') (nodes ! p);
                    rewired = nodes[p := mul];
                    removed = remove1 (rewired ! r) rewired
                in case first_position (\<lambda>nd. nd = mul) removed of
                     None \<Rightarrow> Inl NodeMissing
                   | Some pos \<Rightarrow>
                       Inr (m\<lparr>mm_graph :=
                                \<lparr>g_node = insert_at pos (noise_nodes (nd_name rnn) (hd (nd_input rnn))) removed,
                                 g_initializer = g_initializer (mm_graph m) @ noise_inits (nd_name rnn)\<rparr>,
                              mm_input := mm_input m @ [(''noise'', FLOAT)]\<rparr>))"

section \<open>Length scale\<close>

definition float_consumers :: "onnx_node list \<Rightarrow> (nat \<times> nat) list" where
  "float_consumers nodes =
     concat (map (\<lambda>(p, nd). map (\<lambda>(idx, x). (p, idx)) (filter (\<lambda>(idx, x). x = ''length_scale'') (enumerate 0 (nd_input nd))))
       (enumerate 0 nodes))"

definition scale_cast :: "nat \<Rightarrow> string" where
  "scale_cast i = ''/length_scale_cast_'' @ str_nat i @ ''_output_0''"

definition scale_div :: "nat \<Rightarrow> string" where
  "scale_div i = ''/length_scale_div_'' @ str_nat i @ ''_output_0''"

definition scale_nodes :: "nat \<Rightarrow> onnx_node list" where
  "scale_nodes i =
     [make_node ''Cast'' [''length_scale''] [scale_cast i] (''/length_scale_cast_'' @ str_nat i) [(''to'', JInt FLOAT)],
      make_node ''Div'' [scale_cast i, ''/length_scale_div_const''] [scale_div i] (''/length_scale_div_'' @ str_nat i) []]"

text \<open>A consumer has moved by two nodes for each one served before it.\<close>

definition scale_consumer :: "nat \<times> nat \<times> nat \<Rightarrow> onnx_node list \<Rightarrow> matcha_error + onnx_node list" where
  "scale_consumer = (\<lambda>(i, p, idx) nodes.
     let q = p + 2 * i; nd = set_input idx (scale_div i) (nodes ! q); rewired = nodes[q := nd] in
     case first_position (\<lambda>nd'. nd' = nd) rewired of
       None \<Rightarrow> Inl NodeMissing
     | Some pos \<Rightarrow> Inr (insert_at pos (scale_nodes i) rewired))"

definition fix_length_scale_type :: "matcha_model \<Rightarrow> matcha_error + matcha_model" where
  "fix_length_scale_type m =
     (case first_position (\<lambda>(name, ty). name = ''length_scale'') (mm_input m) of
        None \<Rightarrow> Inr m
      | Some i \<Rightarrow>
          let nodes = g_node (mm_graph m) in
          res_bind (res_fold scale_consumer (enumerate 0 (float_consumers nodes)) nodes) (\<lambda>nodes'.
            Inr (m\<lparr>mm_graph := \<lparr>g_node = nodes',
                     g_initializer = g_initializer (mm_graph m) @ [make_float_tensor ''/length_scale_div_const'' [1000]]\<rparr>,
                   mm_input := (mm_input m)[i := (''length_scale'', INT64)]\<rparr>)))"

section \<open>Ranges\<close>

definition limit_is_float :: "matcha_model \<Rightarrow> string \<Rightarrow> bool" where
  "limit_is_float m limit \<longleftrightarrow>
     (case List.find (\<lambda>nd. limit \<in> set (nd_output nd)) (g_node (mm_graph m)) of
        None \<Rightarrow> False
      | Some nd \<Rightarrow> (''to'', JInt FLOAT) \<in> set (nd_attribute nd))
     \<or> (limit, FLOAT) \<in> set (mm_input m)"

definition range_extra :: "string \<Rightarrow> string \<Rightarrow> bool \<Rightarrow> onnx_node list" where
  "range_extra name limit is_float =
     (if is_float
      then [make_node ''Cast'' [limit] [name @ ''_cast_int64_output_0''] (name @ ''_cast_int64'') [(''to'', JInt INT64)],
            make_node ''Unsqueeze'' [name @ ''_cast_int64_output_0'', name @ ''_unsq_axes'']
              [name @ ''_unsq_limit_output_0''] (name @ ''_unsq_limit'') [],
            make_node ''Cast'' [name @ ''_Slice_output_0''] [name @ ''_cast_back_float_output_0'']
              (name @ ''_cast_back_float'') [(''to'', JInt FLOAT)]]
      else [make_node ''Unsqueeze'' [limit, name @ ''_unsq_axes''] [name @ ''_unsq_limit_output_0''] (name @ ''_unsq_limit'') []])"

definition range_slice :: "string \<Rightarrow> onnx_node" where
  "range_slice name =
     make_node ''Slice'' [name @ ''_static_range'', name @ ''_slice_starts'', name @ ''_unsq_limit_output_0'',
       name @ ''_slice_axes'', name @ ''_slice_steps''] [name @ ''_Slice_output_0''] (name @ ''_Slice'') []"

definition range_inits :: "string \<Rightarrow> int \<Rightarrow> onnx_init list" where
  "range_inits name max_n =
     [make_int64_tensor (name @ ''_static_range'') [0..max_n - 1], make_int64_tensor (name @ ''_slice_starts'') [0],
      make_int64_tensor (name @ ''_slice_axes'') [0], make_int64_tensor (name @ ''_slice_steps'') [1],
      make_int64_tensor (name @ ''_unsq_axes'') [0]]"

definition range_final :: "string \<Rightarrow> bool \<Rightarrow> string" where
  "range_final name is_float = (if is_float then name @ ''_cast_back_float_output_0'' else name @ ''_Slice_output_0'')"

definition rewire :: "string \<Rightarrow> string \<Rightarrow> onnx_node \<Rightarrow> onnx_node" where
  "rewire x y nd = nd\<lparr>nd_input := map (\<lambda>z. if z = x then y else z) (nd_input nd)\<rparr>"

definition fix_range :: "string \<times> int \<Rightarrow> matcha_model \<Rightarrow> matcha_error + matcha_model" where
  "fix_range = (\<lambda>(name, max_n) m.
     let nodes = g_node (mm_graph m) in
     case first_position (\<lambda>nd. nd_name nd = name) nodes of
       None \<Rightarrow> Inr m
     | Some r \<Rightarrow>
         let rn = nodes ! r in
         if length (nd_input rn) < 2 then Inl InputIndex
         else if nd_output rn = [] then Inl OutputIndex
         else
           let limit = nd_input rn ! 1; is_float = limit_is_float m limit;
               slice_out = name @ ''_Slice_output_0''; final_out = range_final name is_float;
               extra = range_extra name limit is_float;
               rewired = map (rewire (hd (nd_output rn)) final_out) nodes;
               post = filter (\<lambda>nd. slice_out \<in> set (nd_input nd)) extra;
               pre = filter (\<lambda>nd. slice_out \<notin> set (nd_input nd)) extra;
               pos = (case first_position (\<lambda>nd. final_out \<in> set (nd_input nd)) rewired of
                        None \<Rightarrow> length rewired | Some i \<Rightarrow> i)
           in Inr (m\<lparr>mm_graph :=
                       \<lparr>g_node = remove1 (rewired ! r) (insert_at pos (pre @ [range_slice name] @ rev post) rewired),
                        g_initializer = g_initializer (mm_graph m) @ range_inits name max_n\<rparr>\<rparr>))"

definition range_configs :: "int \<Rightarrow> int \<Rightarrow> (string \<times> int) list" where
  "range_configs max_tokens max_mel = [(''/encoder/Range'', max_tokens), (''/Range'', max_mel), (''/Range_1'', max_mel)]"

definition fix_range_nodes :: "int \<Rightarrow> int \<Rightarrow> matcha_model \<Rightarrow> matcha_error + matcha_model" where
  "fix_range_nodes max_tokens max_mel m = res_fold fix_range (range_configs max_tokens max_mel) m"

section \<open>Main\<close>

text \<open>
  The checker and the runtime session are parameters.  A session maps the number of tokens, the
  noise scale and the integer length scale to whether the result is finite, or raises (\<open>None\<close>).
\<close>

definition validate_tests :: "(nat \<times> rat \<times> rat) list" where
  "validate_tests = [(5, 1, 1), (10, 1, 1), (20, 1, 1), (40, 1, 1), (64, 1, 1), (10, 8 / 10, 15 / 10)]"

definition validate_scale :: "rat \<Rightarrow> int" where
  "validate_scale ls = \<lfloor>ls\<rfloor>"

definition validate_model :: "(nat \<Rightarrow> rat \<Rightarrow> int \<Rightarrow> bool option) \<Rightarrow> bool" where
  "validate_model run \<longleftrightarrow>
     list_all (\<lambda>(n_tok, ns, ls). run n_tok ns (validate_scale ls) = Some True) validate_tests"

definition matcha_surgery :: "int \<Rightarrow> matcha_model \<Rightarrow> matcha_error + matcha_model" where
  "matcha_surgery max_mel m =
     res_bind (fix_random_normal_like m) (\<lambda>m1.
       res_bind (fix_length_scale_type m1) (fix_range_nodes 64 max_mel))"

definition matcha_main ::
  "(matcha_model \<Rightarrow> bool) \<Rightarrow> (matcha_model \<Rightarrow> nat \<Rightarrow> rat \<Rightarrow> int \<Rightarrow> bool option) \<Rightarrow> int \<Rightarrow> bool \<Rightarrow> matcha_model option
     \<Rightarrow> matcha_error + matcha_model" where
  "matcha_main check_model session max_mel validate input =
     (case input of
        None \<Rightarrow> Inl FileMissing
      | Some m \<Rightarrow>
          res_bind (matcha_surgery max_mel m) (\<lambda>m'.
            if \<not> check_model m' then Inl CheckerFailed
            else if validate \<and> \<not> validate_model (session m') then Inl ValidationFailed
            else Inr m'))"

end
