(* ===== verification/Matcha_Props.thy ===== *)
theory Matcha_Props
  imports Matcha
begin

text \<open>
  The three edits keep the meaning of the graph: the noise and the ranges are instances of one
  lemma on replacing a node by a block further down, the length scale is an expansion of each node
  that reads it.
\<close>

section \<open>Replacing a node\<close>

definition well_ordered :: "string set \<Rightarrow> onnx_graph \<Rightarrow> bool" where
  "well_ordered known g \<longleftrightarrow>
     readable known (g_node g) \<and> written_once known (g_node g) \<and> in_name ` set (g_initializer g) \<subseteq> known"

lemma readable_empty_name: "readable (insert [] known) nodes = readable known nodes"
proof (induction nodes arbitrary: known)
  case (Cons nd nds)
  then show ?case using Cons [of "known \<union> set (nd_output nd)"] by simp
qed simp

lemma written_once_append:
  "written_once known (xs @ ys) \<longleftrightarrow> written_once known xs \<and> written_once (known \<union> outputs_of xs) ys"
proof (induction xs arbitrary: known)
  case (Cons x xs)
  then show ?case by (simp add: written_once_Cons Un_assoc)
qed (simp add: written_once_def)

lemma outputs_of_append: "outputs_of (xs @ ys) = outputs_of xs \<union> outputs_of ys"
  by simp

lemma rewire_outputs [simp]: "nd_output (rewire x y nd) = nd_output nd"
  by (simp add: rewire_def)

lemma readable_rewire:
  assumes "readable (insert out K) nodes" and "final \<in> K" and "K \<subseteq> K'"
  shows "readable K' (map (rewire out final) nodes)"
  using assms
proof (induction nodes arbitrary: K K')
  case (Cons nd nds)
  have "readable (K' \<union> set (nd_output nd)) (map (rewire out final) nds)"
    by (rule Cons.IH [of "K \<union> set (nd_output nd)"]) (use Cons.prems in auto)
  moreover have "set (nd_input (rewire out final nd)) \<subseteq> insert [] K'"
    using Cons.prems by (auto simp: rewire_def)
  ultimately show ?case by simp
qed simp

lemma readable_unread:
  assumes "readable (insert x K) nodes" and "x \<notin> inputs_of nodes"
  shows "readable K nodes"
  using assms
proof (induction nodes arbitrary: K)
  case (Cons nd nds)
  then have "readable (K \<union> set (nd_output nd)) nds" by simp
  then show ?case using Cons.prems by auto
qed simp

lemma rewire_unread: "x \<notin> set (nd_input nd) \<Longrightarrow> rewire x y nd = nd"
proof -
  assume "x \<notin> set (nd_input nd)"
  then have "map (\<lambda>z. if z = x then y else z) (nd_input nd) = nd_input nd" by (intro map_idI) auto
  then show ?thesis by (simp add: rewire_def)
qed

lemma rewire_unread_list: "x \<notin> inputs_of nodes \<Longrightarrow> map (rewire x y) nodes = nodes"
  by (intro map_idI rewire_unread) auto

lemma rewire_satisfies:
  assumes "satisfies sem e nd" and "e' y = e x" and "\<And>z. z \<in> set (nd_input nd) \<union> set (nd_output nd) \<Longrightarrow> z \<noteq> x \<Longrightarrow> e' z = e z"
    and "x \<notin> set (nd_output nd)"
  shows "satisfies sem e' (rewire x y nd)"
proof -
  have "map e' (nd_input (rewire x y nd)) = map e (nd_input nd)"
    using assms(2,3) by (auto simp: rewire_def)
  moreover have "map e' (nd_output nd) = map e (nd_output nd)" using assms(3,4) by auto
  moreover have "op_type (rewire x y nd) = op_type nd" "nd_domain (rewire x y nd) = nd_domain nd"
    "nd_attribute (rewire x y nd) = nd_attribute nd"
    by (simp_all add: rewire_def)
  ultimately show ?thesis using assms(1) unfolding satisfies_def rewire_outputs by presburger
qed

text \<open>
  \<open>rn\<close> is replaced by the block \<open>B\<close> between \<open>C\<close> and \<open>D\<close>, and the rest reads \<open>final\<close> instead of
  its output.
\<close>

lemma swap_sets:
  assumes "out \<notin> C \<union> D" and "A \<inter> insert out (C \<union> D) = {}" and "C \<inter> D = {}" and "(A \<union> insert out (C \<union> D)) \<inter> insert z K = {}"
    and "B \<inter> insert z (K \<union> N \<union> (A \<union> insert out (C \<union> D))) = {}" and "N \<inter> insert z (K \<union> (A \<union> insert out (C \<union> D))) = {}"
  shows "A \<inter> (C \<union> (B \<union> D)) = {}" and "C \<inter> (B \<union> D) = {}" and "B \<inter> D = {}"
    and "(A \<union> (C \<union> (B \<union> D))) \<inter> insert z (K \<union> N) = {}"
  using assms by auto

lemma swap_ordered:
  assumes nodes: "readable K (A @ rn # C @ D)" "written_once K (A @ rn # C @ D)" and rn: "nd_output rn = [out]"
    and C: "out \<notin> inputs_of C" and B: "readable (N \<union> set (nd_input rn)) B" "final \<in> outputs_of B"
    and fresh: "written_once (K \<union> N \<union> outputs_of (A @ rn # C @ D)) B" "N \<inter> insert [] (K \<union> outputs_of (A @ rn # C @ D)) = {}"
  shows "readable (K \<union> N) (A @ C @ B @ map (rewire out final) D)" and "written_once (K \<union> N) (A @ C @ B @ map (rewire out final) D)"
proof -
  let ?D = "map (rewire out final) D" and ?all = "outputs_of (A @ rn # C @ D)"
  have r: "readable K A" "set (nd_input rn) \<subseteq> insert [] (K \<union> outputs_of A)"
    "readable (insert out (K \<union> outputs_of A)) C" "readable (insert out (K \<union> outputs_of A) \<union> outputs_of C) D"
    using nodes(1) rn by (simp_all add: readable_append)
  have c: "readable (K \<union> outputs_of A) C" using r(3) C by (rule readable_unread)
  show "readable (K \<union> N) (A @ C @ B @ ?D)"
  proof -
    have "readable (K \<union> N) A" "readable (K \<union> N \<union> outputs_of A) C"
      using r(1) c by (auto elim: readable_mono)
    moreover have "readable (insert [] (K \<union> N \<union> outputs_of A \<union> outputs_of C)) B"
      using B(1) by (rule readable_mono) (use r(2) in blast)
    moreover have "readable (K \<union> N \<union> outputs_of A \<union> outputs_of C \<union> outputs_of B) ?D"
      by (rule readable_rewire [where K = "K \<union> N \<union> outputs_of A \<union> outputs_of C \<union> outputs_of B"])
        (use r(4) B(2) in \<open>auto elim: readable_mono\<close>)
    ultimately show ?thesis by (simp add: readable_append readable_empty_name Un_assoc)
  qed
  have D: "outputs_of ?D = outputs_of D" "concat (map nd_output ?D) = concat (map nd_output D)" by (simp_all add: comp_def)
  show "written_once (K \<union> N) (A @ C @ B @ ?D)"
  proof -
    let ?o = "\<lambda>xs. concat (map nd_output xs)"
    have s: "set (?o xs) = outputs_of xs" for xs by simp
    have all: "?all = outputs_of A \<union> insert out (outputs_of C \<union> outputs_of D)" using rn by auto
    have K: "?all \<inter> insert [] K = {}" using nodes(2) unfolding written_once_def by (rule conjunct2)
    have "distinct (?o A @ out # ?o C @ ?o D)" using nodes(2) rn unfolding written_once_def by simp
    then have "distinct (?o A) \<and> (out \<notin> outputs_of C \<union> outputs_of D \<and> distinct (?o C) \<and> distinct (?o D)
        \<and> outputs_of C \<inter> outputs_of D = {}) \<and> outputs_of A \<inter> insert out (outputs_of C \<union> outputs_of D) = {}"
      unfolding distinct_append distinct.simps list.set set_append s .
    then obtain d: "distinct (?o A)" "distinct (?o C)" "distinct (?o D)" and
      sep: "out \<notin> outputs_of C \<union> outputs_of D" "outputs_of A \<inter> insert out (outputs_of C \<union> outputs_of D) = {}"
        "outputs_of C \<inter> outputs_of D = {}"
      by (elim conjE)
    have b: "distinct (?o B)" "outputs_of B \<inter> insert [] (K \<union> N \<union> ?all) = {}"
      using fresh(1) unfolding written_once_def by (rule conjunct1, rule conjunct2)
    note S = swap_sets [OF sep K [unfolded all] b(2) [unfolded all] fresh(2) [unfolded all]]
    show ?thesis
      unfolding written_once_def outputs_of_append
      unfolding map_append concat_append distinct_append set_append s D
      by (intro conjI d b(1) S)
  qed
qed

text \<open>The environment of the edited graph: \<open>bound\<close> gives the outputs of the block.\<close>

definition swap_env ::
  "(nat list \<Rightarrow> rat list \<Rightarrow> 'v) \<Rightarrow> onnx_init list \<Rightarrow> 'v env \<Rightarrow> string set \<Rightarrow> 'v env \<Rightarrow> 'v env \<Rightarrow> 'v env" where
  "swap_env denote inits given N bound e x =
     (if x \<in> dom bound then bound x else if x \<in> N then init_env denote inits given x else e x)"

lemma swap_evaluates:
  assumes g: "g_node g = A @ rn # C @ D" "well_ordered K g" and rn: "nd_output rn = [out]"
    and C: "out \<notin> inputs_of C" and B: "readable (N \<union> set (nd_input rn)) B" "final \<in> outputs_of B"
    and fresh: "written_once (K \<union> N \<union> outputs_of (g_node g)) B" "N \<inter> insert [] (K \<union> outputs_of (g_node g)) = {}"
    and inits: "in_name ` set inits \<subseteq> N" and same: "\<And>x. x \<notin> N \<Longrightarrow> given' x = given x"
    and run: "eval_graph sem denote g given = Some e"
    and e': "e' = swap_env denote inits given' (insert out N) bound e" and bound: "dom bound = outputs_of B"
    and block: "solves sem e' B" "bound final = e out"
  defines "g' \<equiv> \<lparr>g_node = A @ C @ B @ map (rewire out final) D, g_initializer = g_initializer g @ inits\<rparr>"
  shows "eval_graph sem denote g' given' = Some e' \<and> well_ordered (K \<union> N) g'"
proof -
  have w: "readable K (g_node g)" "written_once K (g_node g)" "in_name ` set (g_initializer g) \<subseteq> K"
    using g(2) by (simp_all add: well_ordered_def)
  note ord = swap_ordered [OF w(1,2) [unfolded g(1)] rn C B fresh [unfolded g(1)]]
  note old = eval_graph_start [OF w(1,2) run]
  have used: "z \<in> insert [] (K \<union> outputs_of (g_node g))" if "nd \<in> set (g_node g)" "z \<in> set (nd_input nd) \<union> set (nd_output nd)" for nd z
    using that readable_inputs [OF w(1)] by blast
  have bo: "outputs_of B \<inter> insert [] (K \<union> N \<union> outputs_of (g_node g)) = {}"
    using fresh(1) unfolding written_once_def by (rule conjunct2)
  have keep: "e' z = e z" if "z \<in> insert [] (K \<union> outputs_of (g_node g))" "z \<noteq> out" for z
  proof -
    have "z \<notin> dom bound" "z \<notin> N" unfolding bound using that(1) bo fresh(2) by blast+
    then show ?thesis using that(2) by (simp add: e' swap_env_def)
  qed
  have unread: "out \<notin> inputs_of A" "out \<notin> set (nd_input rn)" "out \<notin> outputs_of (A @ C @ D)"
  proof -
    have out: "out \<in> set (nd_output (g_node g ! length A))" "length A < length (g_node g)" using rn by (simp_all add: g(1) nth_append)
    have "out \<notin> set (nd_input (g_node g ! i))" if "i \<le> length A" for i
      using read_after_write [OF w(1,2) _ out(2) _ out(1), of i] that out(2) by auto
    note early = this
    show "out \<notin> inputs_of A"
    proof
      assume "out \<in> inputs_of A"
      then obtain nd where nd: "nd \<in> set A" "out \<in> set (nd_input nd)" by blast
      then obtain i where "i < length A" "A ! i = nd" by (auto simp: in_set_conv_nth [of nd])
      then show False using early [of i] nd(2) by (simp add: g(1) nth_append)
    qed
    show "out \<notin> set (nd_input rn)" using early [of "length A"] by (simp add: g(1))
    show "out \<notin> outputs_of (A @ C @ D)"
      using w(2) rn unfolding g(1) written_once_def by auto
  qed
  have final: "e' final = e out" using B(2) block(2) by (simp add: e' swap_env_def bound)
  have part: "set A \<subseteq> set (g_node g)" "set C \<subseteq> set (g_node g)" "set D \<subseteq> set (g_node g)" by (auto simp: g(1))
  have "satisfies sem e' (rewire out final nd)" if nd: "nd \<in> set (A @ C @ D)" for nd
  proof (rule rewire_satisfies [where e = e])
    have m: "nd \<in> set (g_node g)" using nd by (auto simp: g(1))
    then show "satisfies sem e nd" using old(1) by blast
    show "e' z = e z" if "z \<in> set (nd_input nd) \<union> set (nd_output nd)" "z \<noteq> out" for z
      using keep [OF used [OF m that(1)] that(2)] .
    show "e' final = e out" by (rule final)
    show "out \<notin> set (nd_output nd)" using unread(3) nd by blast
  qed
  then have "solves sem e' (map (rewire out final) (A @ C @ D))" by auto
  moreover have "map (rewire out final) (A @ C @ D) = A @ C @ map (rewire out final) D"
    using unread(1) C by (simp add: rewire_unread_list)
  ultimately have "solves sem e' (A @ C @ map (rewire out final) D)" by metis
  then have sol: "solves sem e' (A @ C @ B @ map (rewire out final) D)" using block(1) by auto
  have "eval_graph sem denote g' given' = Some e'"
  proof (rule edit_evaluates)
    show "readable (K \<union> N) (g_node g')" "solves sem e' (g_node g')" using ord(1) sol by (simp_all add: g'_def)
    show "outputs_of (g_node g') \<inter> insert [] (K \<union> N) = {}"
      using ord(2) unfolding g'_def onnx_graph.select_convs written_once_def by (rule conjunct2)
    fix x
    assume x: "x \<notin> outputs_of (g_node g')"
    have "x \<notin> dom bound" unfolding bound using x by (simp add: g'_def)
    show "init_env denote (g_initializer g') given' x = e' x"
    proof (cases "x \<in> insert out N")
      case True
      have "x \<notin> in_name ` set (g_initializer g)"
      proof -
        have "out \<in> outputs_of (g_node g)" using rn by (simp add: g(1))
        then have "out \<notin> K" using w(2) unfolding written_once_def by blast
        then show ?thesis using True w(3) fresh(2) by blast
      qed
      then have "initializer_map (g_initializer g) x = None" by (simp add: initializer_map_None)
      then have "init_env denote (g_initializer g') given' x = init_env denote inits given' x"
        by (simp add: g'_def init_env_lookup initializer_map_append split: option.splits)
      then show ?thesis using True \<open>x \<notin> dom bound\<close> by (simp add: e' swap_env_def)
    next
      case False
      have "x \<notin> outputs_of (g_node g)" using x False rn by (auto simp: g'_def g(1))
      moreover have "initializer_map inits x = None" using False inits by (auto simp: initializer_map_None)
      ultimately show ?thesis
        using old(2) [of x] False \<open>x \<notin> dom bound\<close> same [of x]
        by (simp add: g'_def e' swap_env_def init_env_lookup initializer_map_append split: option.splits)
    qed
  qed
  moreover have "well_ordered (K \<union> N) g'" using ord w(3) inits by (auto simp: well_ordered_def g'_def)
  ultimately show ?thesis ..
qed

section \<open>Positions\<close>

lemma first_position_Some:
  "first_position P xs = Some i \<longleftrightarrow> i < length xs \<and> P (xs ! i) \<and> (\<forall>j<i. \<not> P (xs ! j))"
proof (induction xs arbitrary: i)
  case (Cons x xs)
  show ?case
  proof (cases i)
    case 0
    then show ?thesis by auto
  next
    case (Suc k)
    then show ?thesis using Cons [of k] by (auto simp: less_Suc_eq_0_disj)
  qed
qed simp

lemma first_position_None: "first_position P xs = None \<longleftrightarrow> (\<forall>x\<in>set xs. \<not> P x)"
  by (induction xs) auto

lemma first_position_append:
  "(\<And>x. x \<in> set xs \<Longrightarrow> \<not> P x) \<Longrightarrow> P y \<Longrightarrow> first_position P (xs @ y # ys) = Some (length xs)"
  by (auto simp: first_position_Some nth_append)

lemma insert_at_length: "insert_at (length xs) new (xs @ ys) = xs @ new @ ys"
  by (simp add: insert_at_def)

lemma last_consumer_Some:
  assumes "last_consumer nodes x = Some (p, idx)"
  shows "p < length nodes \<and> first_position (\<lambda>y. y = x) (nd_input (nodes ! p)) = Some idx"
proof -
  let ?f = "\<lambda>(p, nd) found. case first_position (\<lambda>y. y = x) (nd_input nd) of None \<Rightarrow> found | Some idx \<Rightarrow> Some (p, idx)"
  have "fold ?f ps found = Some (p, idx) \<Longrightarrow> set ps \<subseteq> set (enumerate 0 nodes) \<Longrightarrow>
      found = None \<or> found = Some (p, idx) \<and> p < length nodes \<and> first_position (\<lambda>y. y = x) (nd_input (nodes ! p)) = Some idx
        \<or> found \<noteq> Some (p, idx) \<Longrightarrow>
      p < length nodes \<and> first_position (\<lambda>y. y = x) (nd_input (nodes ! p)) = Some idx" for ps found
  proof (induction ps arbitrary: found)
    case (Cons q ps)
    obtain k nd where q: "q = (k, nd)" by (cases q)
    then have k: "k < length nodes" "nd = nodes ! k" using Cons.prems(2) by (auto simp: in_set_enumerate_eq)
    show ?case
    proof (rule Cons.IH)
      show "fold ?f ps (?f q found) = Some (p, idx)" using Cons.prems(1) by simp
      show "set ps \<subseteq> set (enumerate 0 nodes)" using Cons.prems(2) by simp
      show "?f q found = None \<or> ?f q found = Some (p, idx) \<and> p < length nodes
          \<and> first_position (\<lambda>y. y = x) (nd_input (nodes ! p)) = Some idx \<or> ?f q found \<noteq> Some (p, idx)"
        using k Cons.prems(3) by (cases "first_position (\<lambda>y. y = x) (nd_input nd)") (auto simp: q)
    qed
  qed auto
  from this [of "enumerate 0 nodes" None] show ?thesis using assms by (simp add: last_consumer_def)
qed

text \<open>A name that is read once.\<close>

lemma use_count_split:
  "use_count (xs @ nd # ys) x = use_count xs x + count_list (nd_input nd) x + use_count ys x"
  by (simp add: use_count_def)

lemma use_count_0: "use_count nodes x = 0 \<longleftrightarrow> x \<notin> inputs_of nodes"
  by (simp add: use_count_def count_list_0_iff)

lemma set_input_rewire:
  assumes "count_list (nd_input nd) x = 1" and "idx < length (nd_input nd)" and "nd_input nd ! idx = x"
  shows "set_input idx y nd = rewire x y nd"
proof -
  have "i = idx" if i: "i < length (nd_input nd)" "nd_input nd ! i = x" for i
  proof (rule ccontr)
    assume n: "i \<noteq> idx"
    have "card {i. i < length (nd_input nd) \<and> nd_input nd ! i = x} = 1"
      using assms(1) by (simp add: count_list_eq_length_filter length_filter_conv_card eq_commute)
    moreover have "card {i, idx} \<le> card {i. i < length (nd_input nd) \<and> nd_input nd ! i = x}"
      using i assms(2,3) by (intro card_mono) auto
    ultimately show False using n by simp
  qed
  note only = this
  have "(nd_input nd)[idx := y] = map (\<lambda>z. if z = x then y else z) (nd_input nd)"
  proof (rule nth_equalityI)
    fix i
    assume "i < length ((nd_input nd)[idx := y])"
    then show "(nd_input nd)[idx := y] ! i = map (\<lambda>z. if z = x then y else z) (nd_input nd) ! i"
      using only [of i] assms(3) by (cases "i = idx") auto
  qed simp
  then show ?thesis by (simp add: set_input_def rewire_def)
qed

section \<open>Noise\<close>

definition noise_slice :: "string \<Rightarrow> string" where
  "noise_slice name = name @ ''_Slice_output_0''"

lemma rewire_reads: "x \<in> set (nd_input nd) \<Longrightarrow> y \<in> set (nd_input (rewire x y nd))"
  by (auto simp: rewire_def)

text \<open>What the edit does when the noise is read once.\<close>

lemma noise_edit:
  assumes edit: "fix_random_normal_like m = Inr m'" and g: "g = mm_graph m" "well_ordered K g"
    and r: "first_position (\<lambda>nd. op_type nd = ''RandomNormalLike'') (g_node g) = Some r" "rnn = g_node g ! r"
    and out: "nd_output rnn = [out]" "use_count (g_node g) out = 1"
    and fresh: "noise_slice (nd_name rnn) \<notin> inputs_of (g_node g)"
  obtains A C D where "g_node g = A @ rnn # C @ D" "out \<notin> inputs_of C" "nd_input rnn \<noteq> []"
    "mm_graph m' = \<lparr>g_node = A @ C @ noise_nodes (nd_name rnn) (hd (nd_input rnn)) @ map (rewire out (noise_slice (nd_name rnn))) D,
       g_initializer = g_initializer g @ noise_inits (nd_name rnn)\<rparr>"
proof -
  let ?nodes = "g_node g" and ?slice = "noise_slice (nd_name rnn)"
  obtain p idx where p: "last_consumer ?nodes out = Some (p, idx)"
    using edit r out(1) g(1) by (auto simp: fix_random_normal_like_def Let_def split: option.splits if_splits)
  note P = last_consumer_Some [OF p, unfolded first_position_Some]
  have r': "r < length ?nodes" "op_type rnn = ''RandomNormalLike''" "\<And>j. j < r \<Longrightarrow> op_type (?nodes ! j) \<noteq> ''RandomNormalLike''"
    using r by (simp_all add: first_position_Some)
  have reads: "out \<in> set (nd_input (?nodes ! p))" using P nth_mem by metis
  have rp: "r < p"
    using read_after_write [of K ?nodes p r out] g(2) P r'(1) reads out(1) r(2) by (simp add: well_ordered_def)
  define A where "A = take r ?nodes"
  define C where "C = drop (Suc r) (take p ?nodes)"
  define E where "E = drop (Suc p) ?nodes"
  define mul where "mul = ?nodes ! p"
  have len: "length A = r" "length (A @ rnn # C) = p" using rp P r'(1) by (simp_all add: A_def C_def)
  have "take p ?nodes = take r (take p ?nodes) @ take p ?nodes ! r # drop (Suc r) (take p ?nodes)"
    using rp P by (intro id_take_nth_drop) simp
  then have "take p ?nodes = A @ rnn # C" using rp by (simp add: A_def C_def r(2) min_def)
  moreover have "?nodes = take p ?nodes @ mul # E" unfolding mul_def E_def using P by (intro id_take_nth_drop) simp
  ultimately have nodes: "?nodes = (A @ rnn # C) @ mul # E" by metis
  have cnt: "use_count (A @ rnn # C) out + count_list (nd_input mul) out + use_count E out = 1"
    using out(2) nodes use_count_split by metis
  have "count_list (nd_input mul) out \<noteq> 0" using reads by (simp add: mul_def count_list_0_iff)
  then have one: "count_list (nd_input mul) out = 1" "out \<notin> inputs_of (A @ rnn # C)" "out \<notin> inputs_of E"
    using cnt unfolding use_count_0 [symmetric] by linarith+
  have mul: "set_input idx ?slice mul = rewire out ?slice mul"
    using set_input_rewire [OF one(1)] P by (simp add: mul_def)
  have notA: "rnn \<notin> set A"
    using r'(2,3) by (auto simp: A_def in_set_conv_nth)
  have rewired: "?nodes[p := rewire out ?slice mul] = A @ rnn # C @ rewire out ?slice mul # E"
    using list_update_length [of "A @ rnn # C" mul E "rewire out ?slice mul"] len(2) nodes by (metis append.assoc append_Cons)
  have removed: "remove1 rnn (A @ rnn # C @ rewire out ?slice mul # E) = (A @ C) @ rewire out ?slice mul # E"
    using notA by (simp add: remove1_append)
  have "first_position (\<lambda>nd. nd = rewire out ?slice mul) ((A @ C) @ rewire out ?slice mul # E) = Some (length (A @ C))"
  proof (rule first_position_append)
    fix nd
    assume "nd \<in> set (A @ C)"
    then have "?slice \<notin> set (nd_input nd)" using fresh by (auto simp: nodes)
    then show "nd \<noteq> rewire out ?slice mul" using rewire_reads [of out mul ?slice] reads by (auto simp: mul_def)
  qed simp
  moreover have "(A @ rnn # C @ rewire out ?slice mul # E) ! r = rnn" using len(1) by (simp add: nth_append)
  ultimately have "mm_graph m' = \<lparr>g_node = A @ C @ noise_nodes (nd_name rnn) (hd (nd_input rnn)) @ rewire out ?slice mul # E,
       g_initializer = g_initializer g @ noise_inits (nd_name rnn)\<rparr> \<and> nd_input rnn \<noteq> []"
    using edit r(1) p out(1)
    by (auto simp: fix_random_normal_like_def Let_def g(1) [symmetric] r(2) [symmetric] mul_def [symmetric] mul [unfolded noise_slice_def]
        rewired [unfolded noise_slice_def] removed [unfolded noise_slice_def] insert_at_def noise_slice_def split: if_splits)
  moreover have "rewire out ?slice mul # E = map (rewire out ?slice) (mul # E)"
    using one(3) by (simp add: rewire_unread_list)
  moreover have "?nodes = A @ rnn # C @ mul # E" "out \<notin> inputs_of C" using nodes one(2) by simp_all
  ultimately show thesis using that by metis
qed

text \<open>
  What is relied on: \<open>dims v\<close> is the shape of \<open>v\<close> as an integer tensor and \<open>crop v w\<close> is \<open>w\<close> cut
  to the shape of \<open>v\<close>.
\<close>

definition noise_sem :: "'v onnx_sem \<Rightarrow> (nat list \<Rightarrow> rat list \<Rightarrow> 'v) \<Rightarrow> ('v \<Rightarrow> 'v) \<Rightarrow> ('v \<Rightarrow> 'v \<Rightarrow> 'v) \<Rightarrow> bool" where
  "noise_sem sem denote dims crop \<longleftrightarrow>
     (\<forall>v. sem ''Shape'' [] [] [Some v] = Some [dims v])
     \<and> (\<forall>v. sem ''Cast'' [] [(''to'', JInt INT64)] [Some (dims v)] = Some [dims v])
     \<and> (\<forall>v w. sem ''Slice'' [] [] [Some w, Some (denote [3] [0, 0, 0]), Some (dims v), Some (denote [3] [0, 1, 2]),
          Some (denote [3] [1, 1, 1])] = Some [crop v w])"

definition noise_known :: "string \<Rightarrow> string list" where
  "noise_known name = ''noise'' # map in_name (noise_inits name)"

definition noise_names :: "string \<Rightarrow> string list" where
  "noise_names name = noise_known name @ concat (map nd_output (noise_nodes name []))"

definition names_fresh :: "string list \<Rightarrow> string set \<Rightarrow> onnx_graph \<Rightarrow> bool" where
  "names_fresh names K g \<longleftrightarrow> distinct names \<and> set names \<inter> insert [] (K \<union> outputs_of (g_node g)) = {}"

text \<open>Fresh names serve as the known names and the outputs of a block.\<close>

lemma names_fresh_block:
  assumes "names_fresh (known @ concat (map nd_output B)) K g"
  shows "written_once (K \<union> set known \<union> outputs_of (g_node g)) B" and "set known \<inter> insert [] (K \<union> outputs_of (g_node g)) = {}"
proof -
  have s: "set (concat (map nd_output B)) = outputs_of B" by simp
  from assms have d: "distinct (concat (map nd_output B))" "set known \<inter> outputs_of B = {}"
    "(set known \<union> outputs_of B) \<inter> insert [] (K \<union> outputs_of (g_node g)) = {}"
    unfolding names_fresh_def distinct_append set_append s by simp_all
  have "X \<inter> insert z (K \<union> Y \<union> O') = {}" if "Y \<inter> X = {}" "(Y \<union> X) \<inter> insert z (K \<union> O') = {}" for X Y O' and z :: string
    using that by auto
  from this [OF d(2,3)] d(1) show "written_once (K \<union> set known \<union> outputs_of (g_node g)) B"
    unfolding written_once_def by (intro conjI)
  have "Y \<inter> Z = {}" if "(Y \<union> X) \<inter> Z = {}" for X Y Z :: "string set" using that by auto
  from this [OF d(3)] show "set known \<inter> insert [] (K \<union> outputs_of (g_node g)) = {}" .
qed

text \<open>A fresh name is not read.\<close>

lemma names_fresh_unread:
  assumes "names_fresh names K g" and "well_ordered K g" and "x \<in> set names"
  shows "x \<notin> inputs_of (g_node g)"
proof -
  have "inputs_of (g_node g) \<subseteq> insert [] (K \<union> outputs_of (g_node g))"
    using assms(2) readable_inputs unfolding well_ordered_def by blast
  then show ?thesis using assms(1,3) unfolding names_fresh_def by blast
qed

text \<open>The values a block starts from.\<close>

lemma swap_env_values:
  assumes e': "e' = swap_env denote inits given (insert out (set known)) bound e" and dom: "dom bound = outputs_of B"
    and fresh: "names_fresh (known @ concat (map nd_output B)) K g" and order: "well_ordered K g"
    and g: "g_node g = A @ rn # C @ D" "nd_output rn = [out]"
    and inits: "distinct (map in_name inits)" "in_name ` set inits \<subseteq> set known"
  shows "t \<in> set inits \<Longrightarrow> e' (in_name t) = Some (denote (in_dims t) (in_vals t))"
    and "x \<in> set known \<Longrightarrow> x \<notin> in_name ` set inits \<Longrightarrow> e' x = given x"
    and "bound x = Some y \<Longrightarrow> e' x = Some y"
    and "x \<in> set (nd_input rn) \<Longrightarrow> e' x = e x"
    and "x \<notin> insert out (set (known @ concat (map nd_output B))) \<Longrightarrow> e' x = e x"
proof -
  note F = names_fresh_block [OF fresh]
  have k: "e' x = init_env denote inits given x" if "x \<in> set known" for x
  proof -
    have "x \<notin> dom bound" using F(1) that unfolding written_once_def dom by blast
    then show ?thesis using that by (simp add: e' swap_env_def)
  qed
  show "e' (in_name t) = Some (denote (in_dims t) (in_vals t))" if "t \<in> set inits"
    using k [of "in_name t"] inits(2) that initializer_map_distinct [OF inits(1) that] by (auto simp: init_env_lookup)
  show "e' x = given x" if "x \<in> set known" "x \<notin> in_name ` set inits"
    using k [OF that(1)] that(2) by (simp add: init_env_lookup initializer_map_None [symmetric])
  show "e' x = Some y" if "bound x = Some y" using that by (auto simp: e' swap_env_def)
  show "e' x = e x" if "x \<in> set (nd_input rn)"
  proof -
    have x: "x \<in> insert [] (K \<union> outputs_of A)" and o: "out \<notin> K \<union> outputs_of A" "out \<noteq> []"
      using order that g unfolding well_ordered_def written_once_def by (auto simp: readable_append)
    then have "x \<noteq> out" by blast
    moreover have "x \<notin> set known" "x \<notin> dom bound"
      using x F g(1) unfolding dom written_once_def by auto
    ultimately show ?thesis by (simp add: e' swap_env_def)
  qed
  show "e' x = e x" if "x \<notin> insert out (set (known @ concat (map nd_output B)))"
    using that by (simp add: e' swap_env_def dom)
qed

text \<open>The graph whose noise is an input computes what the original does when the input, cut to the
  shape of the reference, is what the original drew; it is again in order.  The noise has to be
  read once.
\<close>

theorem noise_refines:
  assumes edit: "fix_random_normal_like m = Inr m'" and sem: "noise_sem sem denote dims crop"
    and rnn: "first_position (\<lambda>nd. op_type nd = ''RandomNormalLike'') (g_node (mm_graph m)) = Some r"
      "rnn = g_node (mm_graph m) ! r" "nd_output rnn = [out]" "use_count (g_node (mm_graph m)) out = 1"
    and order: "well_ordered K (mm_graph m)" "names_fresh (noise_names (nd_name rnn)) K (mm_graph m)"
    and run: "eval_graph sem denote (mm_graph m) given = Some e"
    and draw: "e (hd (nd_input rnn)) = Some v" "e out = Some (crop v w)"
  shows "\<exists>e1. eval_graph sem denote (mm_graph m') (given(''noise'' \<mapsto> w)) = Some e1
    \<and> well_ordered (K \<union> set (noise_known (nd_name rnn))) (mm_graph m')
    \<and> (\<forall>x. x \<notin> insert out (set (noise_names (nd_name rnn))) \<longrightarrow> e1 x = e x)"
proof -
  let ?g = "mm_graph m" and ?name = "nd_name rnn"
  let ?B = "noise_nodes ?name (hd (nd_input rnn))" and ?N = "set (noise_known ?name)"
  have names: "noise_names ?name = noise_known ?name @ concat (map nd_output ?B)"
    by (simp add: noise_names_def noise_nodes_def make_node_def)
  have s: "noise_slice ?name \<in> set (noise_names ?name)"
    by (simp add: names noise_nodes_def make_node_def noise_slice_def)
  from noise_edit [OF edit refl order(1) rnn names_fresh_unread [OF order(2,1) s]]
  obtain A C D where g: "g_node ?g = A @ rnn # C @ D" "out \<notin> inputs_of C" "nd_input rnn \<noteq> []"
    "mm_graph m' = \<lparr>g_node = A @ C @ ?B @ map (rewire out (noise_slice ?name)) D,
       g_initializer = g_initializer ?g @ noise_inits ?name\<rparr>" .
  note fresh = names_fresh_block [OF order(2) [unfolded names]]
  define bound where "bound = [?name @ ''_Shape_output_0'' \<mapsto> dims v, ?name @ ''_Cast_output_0'' \<mapsto> dims v,
    ?name @ ''_Slice_output_0'' \<mapsto> crop v w]"
  define e' where "e' = swap_env denote (noise_inits ?name) (given(''noise'' \<mapsto> w)) (insert out ?N) bound e"
  have dom: "dom bound = outputs_of ?B"
    by (auto simp: bound_def noise_nodes_def make_node_def)
  have dn: "distinct (map in_name (noise_inits ?name))" "''noise'' \<notin> in_name ` set (noise_inits ?name)"
    "in_name ` set (noise_inits ?name) \<subseteq> ?N"
    using order(2) by (auto simp: names_fresh_def noise_names_def noise_known_def)
  note val = swap_env_values [OF e'_def dom order(2) [unfolded names] order(1) g(1) rnn(3) dn(1,3)]
  have n: "e' ''noise'' = Some w" using val(2) [of "''noise''"] dn(2) by (simp add: noise_known_def)
  have inits: "e' (?name @ ''_slice_starts'') = Some (denote [3] [0, 0, 0])" "e' (?name @ ''_slice_axes'') = Some (denote [3] [0, 1, 2])"
    "e' (?name @ ''_slice_steps'') = Some (denote [3] [1, 1, 1])"
    using val(1) [of "make_int64_tensor (?name @ ''_slice_starts'') [0, 0, 0]"]
      val(1) [of "make_int64_tensor (?name @ ''_slice_axes'') [0, 1, 2]"]
      val(1) [of "make_int64_tensor (?name @ ''_slice_steps'') [1, 1, 1]"]
    by (simp_all add: noise_known_def noise_inits_def make_int64_tensor_def numeral_3_eq_3)
  have ref: "e' (hd (nd_input rnn)) = Some v" using val(4) [of "hd (nd_input rnn)"] g(3) draw(1) by (simp add: noise_known_def)
  have b: "e' x = Some y" if "bound x = Some y" for x y using val(3) [OF that] .
  have "eval_graph sem denote (mm_graph m') (given(''noise'' \<mapsto> w)) = Some e' \<and> well_ordered (K \<union> ?N) (mm_graph m')"
    unfolding g(4)
  proof (rule swap_evaluates [OF g(1) order(1) rnn(3) g(2) _ _ fresh _ _ run e'_def dom])
    show "solves sem e' ?B"
      using sem ref n inits b unfolding noise_sem_def
      by (simp add: noise_nodes_def make_node_def satisfies_def bound_def)
    show "bound (noise_slice ?name) = e out" using draw(2) by (simp add: bound_def noise_slice_def)
  qed (use g(3) in \<open>auto simp: noise_nodes_def make_node_def noise_slice_def noise_known_def noise_inits_def make_int64_tensor_def\<close>)
  moreover have "e' x = e x" if "x \<notin> insert out (set (noise_names ?name))" for x
    using val(5) that unfolding names by blast
  ultimately show ?thesis by blast
qed

section \<open>Ranges\<close>

definition range_block :: "string \<Rightarrow> string \<Rightarrow> bool \<Rightarrow> onnx_node list" where
  "range_block name limit is_float =
     (if is_float then take 2 (range_extra name limit True) @ range_slice name # drop 2 (range_extra name limit True)
      else range_extra name limit False @ [range_slice name])"

lemma range_partition:
  assumes "limit \<noteq> name @ ''_Slice_output_0''"
  shows "filter (\<lambda>nd. name @ ''_Slice_output_0'' \<notin> set (nd_input nd)) (range_extra name limit f)
    @ [range_slice name] @ rev (filter (\<lambda>nd. name @ ''_Slice_output_0'' \<in> set (nd_input nd)) (range_extra name limit f))
    = range_block name limit f"
  using assms by (auto simp: range_block_def range_extra_def make_node_def)

lemma written_distinct:
  assumes "written_once K (xs @ nd # ys)" and "nd_output nd \<noteq> []"
  shows "nd \<notin> set xs"
proof
  assume "nd \<in> set xs"
  then have "set (nd_output nd) \<subseteq> outputs_of xs" by blast
  moreover have "set (nd_output nd) \<inter> outputs_of xs = {}"
    using assms(1) unfolding written_once_def by auto
  ultimately show False using assms(2) by (cases "nd_output nd") auto
qed

lemma range_edit:
  assumes edit: "fix_range (name, max_n) m = Inr m'" and g: "g = mm_graph m" "well_ordered K g"
    and r: "first_position (\<lambda>nd. nd_name nd = name) (g_node g) = Some r" "rn = g_node g ! r"
    and out: "nd_output rn = [out]" and f: "f = limit_is_float m (nd_input rn ! 1)"
    and fresh: "range_final name f \<notin> inputs_of (g_node g)" "name @ ''_Slice_output_0'' \<notin> inputs_of (g_node g)"
  obtains A C D where "g_node g = A @ rn # C @ D" "out \<notin> inputs_of C"
    "mm_graph m' = \<lparr>g_node = A @ C @ range_block name (nd_input rn ! 1) f @ map (rewire out (range_final name f)) D,
       g_initializer = g_initializer g @ range_inits name max_n\<rparr>"
proof -
  let ?nodes = "g_node g" and ?final = "range_final name f"
  have r': "r < length ?nodes" using r(1) by (simp add: first_position_Some)
  have two: "2 \<le> length (nd_input rn)"
    using edit r out g(1) by (auto simp: fix_range_def Let_def not_less split: if_splits)
  define pos where "pos = (case first_position (\<lambda>nd. out \<in> set (nd_input nd)) ?nodes of None \<Rightarrow> length ?nodes | Some i \<Rightarrow> i)"
  have before: "out \<notin> set (nd_input (?nodes ! i))" if "i < pos" "i < length ?nodes" for i
    using that by (auto simp: pos_def first_position_Some first_position_None split: option.splits)
  have rp: "r < pos \<and> pos \<le> length ?nodes"
  proof (cases "first_position (\<lambda>nd. out \<in> set (nd_input nd)) ?nodes")
    case (Some i)
    then have "i < length ?nodes" "out \<in> set (nd_input (?nodes ! i))" by (simp_all add: first_position_Some)
    moreover from this have "r < i"
      using read_after_write [of K ?nodes i r out] g(2) r' out r(2) by (simp add: well_ordered_def)
    ultimately show ?thesis using Some by (simp add: pos_def)
  qed (simp add: pos_def r')
  define A where "A = take r ?nodes"
  define C where "C = drop (Suc r) (take pos ?nodes)"
  define D where "D = drop pos ?nodes"
  have "take pos ?nodes = take r (take pos ?nodes) @ take pos ?nodes ! r # drop (Suc r) (take pos ?nodes)"
    using rp by (intro id_take_nth_drop) simp
  then have tk: "take pos ?nodes = A @ rn # C" using rp by (simp add: A_def C_def r(2) min_def)
  then have nodes: "?nodes = A @ rn # C @ D" using append_take_drop_id [of pos ?nodes] by (simp add: D_def)
  have len: "length A = r" "length (A @ rn # C) = pos" using rp r' tk by (auto simp: A_def dest: arg_cong [of _ _ length])
  have unread: "out \<notin> inputs_of (A @ rn # C)"
  proof
    assume "out \<in> inputs_of (A @ rn # C)"
    then obtain nd where nd: "nd \<in> set (take pos ?nodes)" "out \<in> set (nd_input nd)" unfolding tk by blast
    then obtain i where "i < pos" "i < length ?nodes" "?nodes ! i = nd" by (auto simp: in_set_conv_nth [of nd])
    then show False using before nd(2) by blast
  qed
  have rewired: "map (rewire out ?final) ?nodes = A @ rn # C @ map (rewire out ?final) D"
    using rewire_unread_list [OF unread] nodes by simp
  have reads: "?final \<in> set (nd_input (rewire out ?final nd)) \<longleftrightarrow> out \<in> set (nd_input nd)" if "nd \<in> set ?nodes" for nd
  proof -
    have "?final \<notin> set (nd_input nd)" using fresh(1) that by blast
    then show ?thesis by (auto simp: rewire_def split: if_splits)
  qed
  have fp: "first_position (\<lambda>nd. ?final \<in> set (nd_input nd)) (map (rewire out ?final) xs) = first_position (\<lambda>nd. out \<in> set (nd_input nd)) xs"
    if "set xs \<subseteq> set ?nodes" for xs
    using that by (induction xs) (simp_all add: reads)
  have "rn \<in> set ?nodes" using nodes by simp
  then have "nd_input rn ! 1 \<noteq> name @ ''_Slice_output_0''" using fresh(2) two nth_mem [of 1 "nd_input rn"] by fastforce
  note part = range_partition [OF this, of f]
  have rem: "remove1 rn (insert_at pos B (A @ rn # C @ map (rewire out ?final) D)) = A @ C @ B @ map (rewire out ?final) D" for B
  proof -
    have "rn \<notin> set A" using written_distinct [of K A rn "C @ D"] g(2) out nodes by (simp add: well_ordered_def)
    moreover have "insert_at pos B ((A @ rn # C) @ map (rewire out ?final) D) = (A @ rn # C) @ B @ map (rewire out ?final) D"
      unfolding len(2) [symmetric] by (rule insert_at_length)
    ultimately show ?thesis by (simp add: remove1_append)
  qed
  let ?extra = "range_extra name (nd_input rn ! 1) f" and ?rewired = "map (rewire out ?final) ?nodes"
  have "mm_graph m' = \<lparr>g_node = remove1 (?rewired ! r) (insert_at
      (case first_position (\<lambda>nd. ?final \<in> set (nd_input nd)) ?rewired of None \<Rightarrow> length ?rewired | Some i \<Rightarrow> i)
      (filter (\<lambda>nd. name @ ''_Slice_output_0'' \<notin> set (nd_input nd)) ?extra @ [range_slice name]
        @ rev (filter (\<lambda>nd. name @ ''_Slice_output_0'' \<in> set (nd_input nd)) ?extra)) ?rewired),
      g_initializer = g_initializer g @ range_inits name max_n\<rparr>"
    using edit r(1) two out unfolding f r(2) g(1) by (auto simp: fix_range_def Let_def cong: option.case_cong)
  also have "\<dots> = \<lparr>g_node = A @ C @ range_block name (nd_input rn ! 1) f @ map (rewire out ?final) D,
       g_initializer = g_initializer g @ range_inits name max_n\<rparr>"
  proof -
    have "?rewired ! r = rn" unfolding rewired using len(1) by (simp add: nth_append)
    moreover have "(case first_position (\<lambda>nd. ?final \<in> set (nd_input nd)) ?rewired of None \<Rightarrow> length ?rewired | Some i \<Rightarrow> i) = pos"
      unfolding fp [OF subset_refl] pos_def length_map by (rule refl)
    ultimately show ?thesis unfolding part by (simp only: rewired rem)
  qed
  finally have "mm_graph m' = \<lparr>g_node = A @ C @ range_block name (nd_input rn ! 1) f @ map (rewire out ?final) D,
       g_initializer = g_initializer g @ range_inits name max_n\<rparr>" .
  moreover have "out \<notin> inputs_of C" using unread by simp
  ultimately show thesis using that nodes by blast
qed

text \<open>
  What is relied on, with \<open>num f n\<close> the scalar \<open>n\<close> and \<open>arange f n\<close> the numbers below \<open>n\<close>, as
  floats or as integers: a slice of the constant is clamped to its length.
\<close>

definition range_sem ::
  "'v onnx_sem \<Rightarrow> (nat list \<Rightarrow> rat list \<Rightarrow> 'v) \<Rightarrow> (bool \<Rightarrow> nat \<Rightarrow> 'v) \<Rightarrow> (bool \<Rightarrow> nat \<Rightarrow> 'v) \<Rightarrow> bool" where
  "range_sem sem denote num arange \<longleftrightarrow>
     (\<forall>n. sem ''Cast'' [] [(''to'', JInt INT64)] [Some (num True n)] = Some [num False n])
     \<and> (\<forall>n. sem ''Unsqueeze'' [] [] [Some (num False n), Some (denote [1] [0])] = Some [denote [1] [of_nat n]])
     \<and> (\<forall>m n. sem ''Slice'' [] [] [Some (denote [m] (map of_nat [0..<m])), Some (denote [1] [0]), Some (denote [1] [of_nat n]),
          Some (denote [1] [0]), Some (denote [1] [1])] = Some [arange False (min n m)])
     \<and> (\<forall>n. sem ''Cast'' [] [(''to'', JInt FLOAT)] [Some (arange False n)] = Some [arange True n])
     \<and> (\<forall>f n d a. sem ''Range'' d a [Some (num f 0), Some (num f n), Some (num f 1)] = Some [arange f n])"

definition range_known :: "string \<Rightarrow> string list" where
  "range_known name = map in_name (range_inits name 0)"

definition range_names :: "string \<Rightarrow> bool \<Rightarrow> string list" where
  "range_names name f = range_known name @ concat (map nd_output (range_block name [] f))"

lemma static_range: "map (of_int :: int \<Rightarrow> rat) [0..k - 1] = map of_nat [0..<nat k]"
proof (rule nth_equalityI)
  fix i
  assume "i < length (map (of_int :: int \<Rightarrow> rat) [0..k - 1])"
  then have "i < nat k" by simp
  then show "map (of_int :: int \<Rightarrow> rat) [0..k - 1] ! i = map of_nat [0..<nat k] ! i" by (simp add: nth_upto)
qed simp

text \<open>A graph whose range is a slice of a constant computes what the original does, when the range
  is from zero in steps of one, its limit is at most the length of the constant, and the limit has
  the type the edit takes it to have; the edited graph is again in order.
\<close>

theorem range_refines:
  assumes edit: "fix_range (name, max_n) m = Inr m'" and sem: "range_sem sem denote num arange"
    and rn: "first_position (\<lambda>nd. nd_name nd = name) (g_node (mm_graph m)) = Some r"
      "rn = g_node (mm_graph m) ! r" "nd_output rn = [out]" "op_type rn = ''Range''"
    and f: "f = limit_is_float m (nd_input rn ! 1)"
    and order: "well_ordered K (mm_graph m)" "names_fresh (range_names name f) K (mm_graph m)"
    and run: "eval_graph sem denote (mm_graph m) given = Some e"
    and inputs: "map e (nd_input rn) = [Some (num f 0), Some (num f n), Some (num f 1)]" and limit: "int n \<le> max_n"
  shows "\<exists>e1. eval_graph sem denote (mm_graph m') given = Some e1 \<and> well_ordered (K \<union> set (range_known name)) (mm_graph m')
    \<and> (\<forall>x. x \<notin> insert out (set (range_names name f)) \<longrightarrow> e1 x = e x)"
proof -
  let ?g = "mm_graph m" and ?limit = "nd_input rn ! 1" and ?N = "set (range_known name)"
  let ?B = "range_block name ?limit f" and ?inits = "range_inits name max_n"
  note B_defs = range_block_def range_extra_def range_slice_def make_node_def range_final_def
  have names: "range_names name f = range_known name @ concat (map nd_output ?B)"
    by (simp add: range_names_def B_defs)
  have s: "range_final name f \<in> set (range_names name f)" "name @ ''_Slice_output_0'' \<in> set (range_names name f)"
    by (simp_all add: names B_defs)
  from range_edit [OF edit refl order(1) rn(1-3) f names_fresh_unread [OF order(2,1) s(1)] names_fresh_unread [OF order(2,1) s(2)]]
  obtain A C D where g: "g_node ?g = A @ rn # C @ D" "out \<notin> inputs_of C"
    "mm_graph m' = \<lparr>g_node = A @ C @ ?B @ map (rewire out (range_final name f)) D, g_initializer = g_initializer ?g @ ?inits\<rparr>" .
  note fresh = names_fresh_block [OF order(2) [unfolded names]]
  define bound where "bound = (if f then [name @ ''_cast_int64_output_0'' \<mapsto> num False n, name @ ''_cast_back_float_output_0'' \<mapsto> arange True n]
      else Map.empty)(name @ ''_unsq_limit_output_0'' \<mapsto> denote [1] [of_nat n], name @ ''_Slice_output_0'' \<mapsto> arange False n)"
  define e' where "e' = swap_env denote ?inits given (insert out ?N) bound e"
  have dom: "dom bound = outputs_of ?B" by (auto simp: bound_def B_defs)
  have dn: "distinct (map in_name ?inits)" "in_name ` set ?inits \<subseteq> ?N"
    using order(2) by (simp_all add: names_fresh_def range_names_def range_known_def range_inits_def make_int64_tensor_def)
  note val = swap_env_values [OF e'_def dom order(2) [unfolded names] order(1) g(1) rn(3) dn]
  have inits: "e' (name @ ''_static_range'') = Some (denote [nat max_n] (map of_nat [0..<nat max_n]))"
    "e' (name @ ''_slice_starts'') = Some (denote [1] [0])" "e' (name @ ''_slice_axes'') = Some (denote [1] [0])"
    "e' (name @ ''_slice_steps'') = Some (denote [1] [1])" "e' (name @ ''_unsq_axes'') = Some (denote [1] [0])"
    using val(1) [of "make_int64_tensor (name @ ''_static_range'') [0..max_n - 1]"]
      val(1) [of "make_int64_tensor (name @ ''_slice_starts'') [0]"] val(1) [of "make_int64_tensor (name @ ''_slice_axes'') [0]"]
      val(1) [of "make_int64_tensor (name @ ''_slice_steps'') [1]"] val(1) [of "make_int64_tensor (name @ ''_unsq_axes'') [0]"]
    by (simp_all add: range_inits_def make_int64_tensor_def static_range)
  have len: "length (nd_input rn) = 3" using inputs by (metis length_map list.size(3,4) numeral_3_eq_3 One_nat_def add.commute plus_1_eq_Suc)
  have lim: "e' ?limit = Some (num f n)"
  proof -
    have "map e (nd_input rn) ! 1 = Some (num f n)" unfolding inputs by simp
    then show ?thesis using val(4) [of ?limit] len by simp
  qed
  have out: "e out = Some (arange f n)"
  proof -
    have "satisfies sem e rn" using eval_graph_start(1) [OF _ _ run] order(1) g(1) by (auto simp: well_ordered_def)
    then show ?thesis using sem unfolding satisfies_def inputs rn(3,4) range_sem_def by simp
  qed
  have b: "e' x = Some y" if "bound x = Some y" for x y using val(3) [OF that] .
  have "eval_graph sem denote (mm_graph m') given = Some e' \<and> well_ordered (K \<union> ?N) (mm_graph m')"
    unfolding g(3)
  proof (rule swap_evaluates [OF g(1) order(1) rn(3) g(2) _ _ fresh dn(2) _ run e'_def dom])
    show "solves sem e' ?B"
      using sem lim inits b limit unfolding range_sem_def
      by (simp add: B_defs satisfies_def bound_def min_absorb1 split: if_splits)
    show "bound (range_final name f) = e out" using out by (simp add: bound_def range_final_def)
    show "readable (?N \<union> set (nd_input rn)) ?B"
      using nth_mem [of 1 "nd_input rn"] len by (simp add: B_defs range_known_def range_inits_def make_int64_tensor_def)
  qed (simp_all add: B_defs)
  moreover have "e' x = e x" if "x \<notin> insert out (set (range_names name f))" for x
    using val(5) that unfolding names by blast
  ultimately show ?thesis by blast
qed

end
