(* ===== verification/Matcha_Scale.thy ===== *)
theory Matcha_Scale
  imports Matcha_Props "HOL-Library.Multiset"
begin

text \<open>
  The length scale as an integer: each node that reads it is preceded by a cast and a division for
  every place where it does.
\<close>

section \<open>The edited list\<close>

abbreviation LS :: string where
  "LS \<equiv> ''length_scale''"

definition ls_idxs :: "string list \<Rightarrow> nat list" where
  "ls_idxs xs = map fst (filter (\<lambda>(idx, x). x = LS) (enumerate 0 xs))"

definition patched :: "nat \<Rightarrow> nat list \<Rightarrow> string list \<Rightarrow> string list" where
  "patched b idxs xs = fold (\<lambda>(i, idx) ys. ys[idx := scale_div i]) (enumerate b idxs) xs"

definition scale_block :: "onnx_node list \<Rightarrow> nat \<Rightarrow> onnx_node list" where
  "scale_block nodes p =
     (let b = use_count (take p nodes) LS; nd = nodes ! p in
      concat (map scale_nodes [b..<b + count_list (nd_input nd) LS])
        @ [nd\<lparr>nd_input := patched b (ls_idxs (nd_input nd)) (nd_input nd)\<rparr>])"

lemma ls_idxs_set: "set (ls_idxs xs) = {j. j < length xs \<and> xs ! j = LS}"
  by (auto simp: ls_idxs_def in_set_enumerate_eq image_iff)

lemma ls_idxs_length: "length (ls_idxs xs) = count_list xs LS"
proof -
  have "length (filter (\<lambda>(idx, x). x = LS) (enumerate k xs)) = count_list xs LS" for k
    by (induction xs arbitrary: k) auto
  then show ?thesis by (simp add: ls_idxs_def)
qed

lemma float_consumers_snoc:
  "float_consumers (xs @ [nd]) = float_consumers xs @ map (Pair (length xs)) (ls_idxs (nd_input nd))"
  by (simp add: float_consumers_def enumerate_append_eq ls_idxs_def comp_def case_prod_unfold)

lemma use_count_snoc: "use_count (xs @ [nd]) x = use_count xs x + count_list (nd_input nd) x"
  by (simp add: use_count_def)

lemma float_consumers_length: "length (float_consumers nodes) = use_count nodes LS"
proof (induction nodes rule: rev_induct)
  case (snoc nd nodes)
  then show ?case by (simp add: float_consumers_snoc use_count_snoc ls_idxs_length)
qed (simp add: float_consumers_def use_count_def)

lemma use_count_Nil [simp]: "use_count [] x = 0"
  by (simp add: use_count_def)

lemma use_count_take: "n < length nodes \<Longrightarrow>
    use_count (take (Suc n) nodes) x = use_count (take n nodes) x + count_list (nd_input (nodes ! n)) x"
  by (simp add: take_Suc_conv_app_nth use_count_snoc)

lemma use_count_mono: "m \<le> n \<Longrightarrow> use_count (take m nodes) x \<le> use_count (take n nodes) x"
proof -
  assume "m \<le> n"
  then have "take n nodes = take m nodes @ drop m (take n nodes)" by (metis append_take_drop_id min.absorb1 take_take)
  then show ?thesis by (metis le_add1 use_count_def map_append sum_list_append)
qed

text \<open>Patching replaces the listed positions.\<close>

lemma patched_length: "length (patched b idxs xs) = length xs"
proof -
  have "length (fold (\<lambda>(i, idx) ys. ys[idx := scale_div i]) ps xs) = length xs" for ps :: "(nat \<times> nat) list"
    by (induction ps arbitrary: xs) auto
  then show ?thesis by (simp add: patched_def)
qed

lemma patched_nth:
  assumes "j < length xs"
  shows "(j \<in> set idxs \<longrightarrow> (\<exists>i\<in>{b..<b + length idxs}. patched b idxs xs ! j = scale_div i))
    \<and> (j \<notin> set idxs \<longrightarrow> patched b idxs xs ! j = xs ! j)"
  using assms
proof (induction idxs arbitrary: b xs)
  case (Cons k ks)
  have p: "patched b (k # ks) xs = patched (Suc b) ks (xs[k := scale_div b])" by (simp add: patched_def)
  have ih: "(j \<in> set ks \<longrightarrow> (\<exists>i\<in>{Suc b..<Suc b + length ks}. patched b (k # ks) xs ! j = scale_div i))
    \<and> (j \<notin> set ks \<longrightarrow> patched b (k # ks) xs ! j = xs[k := scale_div b] ! j)"
    unfolding p using Cons.IH [of "xs[k := scale_div b]" "Suc b"] Cons.prems by simp
  show ?case
  proof (cases "j \<in> set ks")
    case True
    then show ?thesis using ih by fastforce
  next
    case False
    then show ?thesis using ih Cons.prems by (cases "j = k") auto
  qed
qed (simp add: patched_def)

lemma patched_set:
  "set (patched b (ls_idxs xs) xs) \<subseteq> (set xs - {LS}) \<union> scale_div ` {b..<b + count_list xs LS}"
proof
  fix y
  assume "y \<in> set (patched b (ls_idxs xs) xs)"
  then obtain j where j: "j < length xs" "y = patched b (ls_idxs xs) xs ! j"
    by (auto simp: in_set_conv_nth patched_length)
  show "y \<in> (set xs - {LS}) \<union> scale_div ` {b..<b + count_list xs LS}"
    using patched_nth [OF j(1), of "ls_idxs xs" b] j by (auto simp: ls_idxs_set ls_idxs_length)
qed

lemma patched_values:
  assumes "\<And>i. i < b + count_list xs LS \<Longrightarrow> e' (scale_div i) = e LS" and "\<And>x. x \<in> set xs \<Longrightarrow> x \<noteq> LS \<Longrightarrow> e' x = e x"
  shows "map e' (patched b (ls_idxs xs) xs) = map e xs"
proof (rule nth_equalityI)
  fix j
  assume "j < length (map e' (patched b (ls_idxs xs) xs))"
  then have j: "j < length xs" by (simp add: patched_length)
  note P = patched_nth [OF j, of "ls_idxs xs" b]
  have "e' (patched b (ls_idxs xs) xs ! j) = e (xs ! j)"
  proof (cases "xs ! j = LS")
    case True
    then obtain i where "i < b + count_list xs LS" "patched b (ls_idxs xs) xs ! j = scale_div i"
      using P j by (auto simp: ls_idxs_set ls_idxs_length)
    then show ?thesis using assms(1) True by simp
  next
    case False
    then show ?thesis using P j assms(2) [of "xs ! j"] by (simp add: ls_idxs_set)
  qed
  then show "map e' (patched b (ls_idxs xs) xs) ! j = map e xs ! j" using j by (simp add: patched_length)
qed (simp add: patched_length)

text \<open>The new names differ.\<close>

lemma scale_names_differ:
  "scale_div i = scale_div j \<longleftrightarrow> i = j" "scale_cast i = scale_cast j \<longleftrightarrow> i = j" "scale_div i \<noteq> scale_cast j" "scale_cast i \<noteq> scale_div j"
  "scale_div i \<noteq> LS" "scale_cast i \<noteq> LS" "scale_div i \<noteq> ''/length_scale_div_const''" "scale_cast i \<noteq> ''/length_scale_div_const''"
proof -
  have inj: "str_nat i = str_nat j \<longleftrightarrow> i = j" for i j by (metis of_nat_eq_iff option.inject py_int_str_nat)
  show "scale_div i = scale_div j \<longleftrightarrow> i = j" "scale_cast i = scale_cast j \<longleftrightarrow> i = j"
    by (simp_all add: scale_div_def scale_cast_def inj del: str_nat.simps)
  show "scale_div i \<noteq> scale_cast j" "scale_cast i \<noteq> scale_div j" "scale_div i \<noteq> LS" "scale_cast i \<noteq> LS"
    "scale_cast i \<noteq> ''/length_scale_div_const''"
    by (simp_all add: scale_div_def scale_cast_def del: str_nat.simps)
  have "last (scale_div i) \<noteq> last ''/length_scale_div_const''" by (simp add: scale_div_def del: str_nat.simps)
  then show "scale_div i \<noteq> ''/length_scale_div_const''" by metis
qed

text \<open>The consumers of one node.\<close>

lemma scale_fold_node:
  assumes "\<forall>idx\<in>set idxs. idx < length (nd_input nd)" and "length P = p + 2 * b"
    and "\<forall>i\<in>{b..<b + length idxs}. scale_div i \<notin> inputs_of P"
  shows "res_fold scale_consumer (enumerate b (map (Pair p) idxs)) (P @ nd # R)
    = Inr (P @ concat (map scale_nodes [b..<b + length idxs]) @ nd\<lparr>nd_input := patched b idxs (nd_input nd)\<rparr> # R)"
  using assms
proof (induction idxs arbitrary: b P nd)
  case (Cons idx idxs)
  let ?nd = "set_input idx (scale_div b) nd" and ?P = "P @ scale_nodes b"
  have in': "nd_input ?nd = (nd_input nd)[idx := scale_div b]" by (simp add: set_input_def)
  have "first_position (\<lambda>nd'. nd' = ?nd) (P @ ?nd # R) = Some (length P)"
  proof (rule first_position_append)
    fix nd'
    assume "nd' \<in> set P"
    then have "scale_div b \<notin> set (nd_input nd')" using Cons.prems(3) by fastforce
    moreover have "scale_div b \<in> set (nd_input ?nd)" using Cons.prems(1) by (simp add: in' set_update_memI)
    ultimately show "nd' \<noteq> ?nd" by auto
  qed simp
  moreover have "(P @ nd # R)[p + 2 * b := ?nd] = P @ ?nd # R" "(P @ nd # R) ! (p + 2 * b) = nd"
    using Cons.prems(2) by (metis list_update_length, metis nth_append_length)
  ultimately have step: "scale_consumer (b, p, idx) (P @ nd # R) = Inr (?P @ ?nd # R)"
    by (simp add: scale_consumer_def Let_def insert_at_length)
  have ih: "res_fold scale_consumer (enumerate (Suc b) (map (Pair p) idxs)) (?P @ ?nd # R)
    = Inr (?P @ concat (map scale_nodes [Suc b..<Suc b + length idxs]) @ ?nd\<lparr>nd_input := patched (Suc b) idxs (nd_input ?nd)\<rparr> # R)"
  proof (rule Cons.IH)
    show "\<forall>i\<in>{Suc b..<Suc b + length idxs}. scale_div i \<notin> inputs_of ?P"
    proof
      fix i
      assume i: "i \<in> {Suc b..<Suc b + length idxs}"
      have "scale_div i \<notin> {LS, scale_cast b, ''/length_scale_div_const''}" by (simp add: scale_names_differ)
      moreover have "scale_div i \<notin> inputs_of P" using Cons.prems(3) i by simp
      ultimately show "scale_div i \<notin> inputs_of ?P" by (simp add: scale_nodes_def make_node_def)
    qed
  qed (use Cons.prems in' in \<open>auto simp: scale_nodes_def\<close>)
  have "?nd\<lparr>nd_input := patched (Suc b) idxs (nd_input ?nd)\<rparr> = nd\<lparr>nd_input := patched b (idx # idxs) (nd_input nd)\<rparr>"
    by (simp add: set_input_def patched_def)
  moreover have "[b..<b + length (idx # idxs)] = b # [Suc b..<Suc b + length idxs]"
    using upt_conv_Cons [of b "b + Suc (length idxs)"] by simp
  ultimately show ?case using step ih by simp
qed (simp add: patched_def)

lemma scale_block_length: "length (scale_block nodes p) = Suc (2 * count_list (nd_input (nodes ! p)) LS)"
proof -
  have "length (concat (map scale_nodes xs)) = 2 * length xs" for xs by (induction xs) (auto simp: scale_nodes_def)
  then show ?thesis by (simp add: scale_block_def Let_def)
qed

lemma scale_block_cases:
  assumes "nd \<in> set (scale_block nodes p)"
  shows "(\<exists>i\<in>{use_count (take p nodes) LS..<use_count (take p nodes) LS + count_list (nd_input (nodes ! p)) LS}. nd \<in> set (scale_nodes i))
    \<or> nd = (nodes ! p)\<lparr>nd_input := patched (use_count (take p nodes) LS) (ls_idxs (nd_input (nodes ! p))) (nd_input (nodes ! p))\<rparr>"
  using assms by (auto simp: scale_block_def Let_def)

lemma scale_blocks_length:
  "n \<le> length nodes \<Longrightarrow> length (concat (map (scale_block nodes) [0..<n])) = n + 2 * use_count (take n nodes) LS"
  by (induction n) (auto simp: scale_block_length use_count_take)

lemma scale_block_inputs:
  assumes "p < n" and "n \<le> length nodes"
  shows "inputs_of (scale_block nodes p) \<subseteq> inputs_of nodes \<union> {LS, ''/length_scale_div_const''} \<union> range scale_cast
    \<union> scale_div ` {..<use_count (take n nodes) LS}"
proof -
  let ?b = "use_count (take p nodes) LS" and ?nd = "nodes ! p"
  have b: "?b + count_list (nd_input ?nd) LS \<le> use_count (take n nodes) LS"
    using use_count_mono [of "Suc p" n nodes LS] use_count_take [of p nodes LS] assms by simp
  have m: "?nd \<in> set nodes" using assms by simp
  let ?S = "inputs_of nodes \<union> {LS, ''/length_scale_div_const''} \<union> range scale_cast \<union> scale_div ` {..<use_count (take n nodes) LS}"
  have "set (patched ?b (ls_idxs (nd_input ?nd)) (nd_input ?nd)) \<subseteq> (set (nd_input ?nd) - {LS}) \<union> scale_div ` {..<use_count (take n nodes) LS}"
    using patched_set [of ?b "nd_input ?nd"] b by fastforce
  also have "\<dots> \<subseteq> ?S" using m by blast
  finally have 1: "set (patched ?b (ls_idxs (nd_input ?nd)) (nd_input ?nd)) \<subseteq> ?S" .
  have 2: "inputs_of (concat (map scale_nodes xs)) \<subseteq> {LS, ''/length_scale_div_const''} \<union> range scale_cast" for xs
    by (induction xs) (auto simp: scale_nodes_def make_node_def)
  have 3: "inputs_of (scale_block nodes p) = inputs_of (concat (map scale_nodes [?b..<?b + count_list (nd_input ?nd) LS]))
      \<union> set (patched ?b (ls_idxs (nd_input ?nd)) (nd_input ?nd))"
    by (simp add: scale_block_def Let_def Un_commute)
  show ?thesis unfolding 3 by (rule Un_least [OF subset_trans [OF 2] 1]) blast
qed

text \<open>All consumers.\<close>

lemma scale_fold:
  assumes k: "k = use_count nodes LS" and fresh: "\<forall>i<k. scale_div i \<notin> inputs_of nodes" and n: "n \<le> length nodes"
  shows "res_fold scale_consumer (enumerate 0 (float_consumers (take n nodes))) nodes
    = Inr (concat (map (scale_block nodes) [0..<n]) @ drop n nodes)"
  using n
proof (induction n)
  case 0
  then show ?case by (simp add: float_consumers_def)
next
  case (Suc n)
  let ?b = "use_count (take n nodes) LS" and ?nd = "nodes ! n" and ?P = "concat (map (scale_block nodes) [0..<n])"
  let ?idxs = "ls_idxs (nd_input ?nd)"
  have bk: "?b + length ?idxs \<le> k"
    using use_count_mono [of "Suc n" "length nodes" nodes LS] use_count_take [of n nodes LS] Suc.prems k by (simp add: ls_idxs_length)
  have split: "enumerate 0 (float_consumers (take (Suc n) nodes))
      = enumerate 0 (float_consumers (take n nodes)) @ enumerate ?b (map (Pair n) ?idxs)"
    using Suc.prems by (simp add: take_Suc_conv_app_nth float_consumers_snoc enumerate_append_eq float_consumers_length)
  have "drop n nodes = ?nd # drop (Suc n) nodes" using Suc.prems by (simp add: Cons_nth_drop_Suc)
  moreover have "res_fold scale_consumer (enumerate ?b (map (Pair n) ?idxs)) (?P @ ?nd # drop (Suc n) nodes)
      = Inr (?P @ concat (map scale_nodes [?b..<?b + length ?idxs]) @ ?nd\<lparr>nd_input := patched ?b ?idxs (nd_input ?nd)\<rparr> # drop (Suc n) nodes)"
  proof (rule scale_fold_node)
    show "\<forall>idx\<in>set ?idxs. idx < length (nd_input ?nd)" by (simp add: ls_idxs_set)
    show "length ?P = n + 2 * ?b" using scale_blocks_length [of n nodes] Suc.prems by simp
    show "\<forall>i\<in>{?b..<?b + length ?idxs}. scale_div i \<notin> inputs_of ?P"
    proof
      fix i
      assume i: "i \<in> {?b..<?b + length ?idxs}"
      then have ik: "i < k" using bk by simp
      have "scale_div i \<notin> scale_div ` {..<?b}"
      proof
        assume "scale_div i \<in> scale_div ` {..<?b}"
        then obtain x where x: "x < ?b" "scale_div i = scale_div x" by blast
        then show False using i by (simp add: scale_names_differ)
      qed
      then have "scale_div i \<notin> inputs_of nodes \<union> {LS, ''/length_scale_div_const''} \<union> range scale_cast \<union> scale_div ` {..<?b}"
        using scale_names_differ fresh ik by auto
      moreover have "inputs_of ?P \<subseteq> inputs_of nodes \<union> {LS, ''/length_scale_div_const''} \<union> range scale_cast \<union> scale_div ` {..<?b}"
        using scale_block_inputs [of _ n nodes] Suc.prems by (simp add: UN_subset_iff)
      ultimately show "scale_div i \<notin> inputs_of ?P" by blast
    qed
  qed
  ultimately show ?case using Suc.IH Suc.prems unfolding split res_fold_append
    by (simp add: scale_block_def [of nodes n] Let_def ls_idxs_length)
qed

lemma scale_edit:
  assumes "fix_length_scale_type m = Inr m'" and "LS \<in> fst ` set (mm_input m)"
    and "\<forall>i<use_count (g_node (mm_graph m)) LS. scale_div i \<notin> inputs_of (g_node (mm_graph m))"
  shows "mm_graph m' = \<lparr>g_node = concat (map (scale_block (g_node (mm_graph m))) [0..<length (g_node (mm_graph m))]),
    g_initializer = g_initializer (mm_graph m) @ [make_float_tensor ''/length_scale_div_const'' [1000]]\<rparr>"
proof -
  let ?nodes = "g_node (mm_graph m)"
  obtain i where i: "first_position (\<lambda>(name, ty). name = LS) (mm_input m) = Some i"
    using assms(2) by (cases "first_position (\<lambda>(name, ty). name = LS) (mm_input m)") (auto simp: first_position_None)
  have "res_fold scale_consumer (enumerate 0 (float_consumers ?nodes)) ?nodes
      = Inr (concat (map (scale_block ?nodes) [0..<length ?nodes]))"
    using scale_fold [OF refl assms(3) order_refl] by simp
  then show ?thesis using assms(1) i by (auto simp: fix_length_scale_type_def Let_def)
qed

section \<open>Order\<close>

definition scale_names :: "nat \<Rightarrow> string list" where
  "scale_names k = concat (map (\<lambda>i. [scale_cast i, scale_div i]) [0..<k])"

lemma scale_names_set: "set (scale_names k) = scale_cast ` {..<k} \<union> scale_div ` {..<k}"
  by (auto simp: scale_names_def)

lemma scale_names_distinct: "distinct (scale_names k)"
proof (induction k)
  case (Suc k)
  then have "distinct (scale_names k @ [scale_cast k, scale_div k])"
    unfolding distinct_append by (auto simp: scale_names_set scale_names_differ)
  then show ?case by (simp add: scale_names_def)
qed (simp add: scale_names_def)

lemma scale_block_output_list:
  "concat (map nd_output (scale_block nodes p)) =
     concat (map (\<lambda>i. [scale_cast i, scale_div i]) [use_count (take p nodes) LS..<use_count (take p nodes) LS + count_list (nd_input (nodes ! p)) LS])
     @ nd_output (nodes ! p)"
proof -
  have "concat (map nd_output (concat (map scale_nodes xs))) = concat (map (\<lambda>i. [scale_cast i, scale_div i]) xs)" for xs
    by (induction xs) (auto simp: scale_nodes_def make_node_def)
  then show ?thesis by (simp add: scale_block_def Let_def)
qed

lemma scale_output_mset:
  assumes "n \<le> length nodes"
  shows "mset (concat (map nd_output (concat (map (scale_block nodes) [0..<n]))))
    = mset (concat (map nd_output (take n nodes))) + mset (scale_names (use_count (take n nodes) LS))"
  using assms
proof (induction n)
  case (Suc n)
  let ?b = "use_count (take n nodes) LS" and ?c = "count_list (nd_input (nodes ! n)) LS"
  have "scale_names (?b + ?c) = scale_names ?b @ concat (map (\<lambda>i. [scale_cast i, scale_div i]) [?b..<?b + ?c])"
    unfolding scale_names_def upt_add_eq_append [OF le0] by simp
  then show ?case
    using Suc by (simp add: scale_block_output_list use_count_snoc take_Suc_conv_app_nth ac_simps)
qed (simp add: scale_names_def)

lemma scale_outputs:
  "set (concat (map nd_output (concat (map (scale_block nodes) [0..<length nodes])))) = outputs_of nodes \<union> set (scale_names (use_count nodes LS))"
  "distinct (concat (map nd_output nodes)) \<Longrightarrow> outputs_of nodes \<inter> set (scale_names (use_count nodes LS)) = {} \<Longrightarrow>
    distinct (concat (map nd_output (concat (map (scale_block nodes) [0..<length nodes]))))"
proof -
  let ?new = "concat (map nd_output (concat (map (scale_block nodes) [0..<length nodes])))"
  let ?old = "concat (map nd_output nodes) @ scale_names (use_count nodes LS)"
  have m: "mset ?new = mset ?old" using scale_output_mset [of "length nodes" nodes] by simp
  then have "set ?new = set ?old" by (rule mset_eq_setD)
  also have "set ?old = outputs_of nodes \<union> set (scale_names (use_count nodes LS))" by simp
  finally show "set ?new = outputs_of nodes \<union> set (scale_names (use_count nodes LS))" .
  assume "distinct (concat (map nd_output nodes))" "outputs_of nodes \<inter> set (scale_names (use_count nodes LS)) = {}"
  then have "distinct ?old" by (simp add: scale_names_distinct)
  then show "distinct ?new" using mset_eq_imp_distinct_iff [OF m] by simp
qed

lemma scale_chain_readable:
  assumes "LS \<in> K" and "''/length_scale_div_const'' \<in> K"
  shows "readable K (concat (map scale_nodes xs))"
  using assms
proof (induction xs arbitrary: K)
  case (Cons x xs)
  have "readable (K \<union> {scale_cast x} \<union> {scale_div x}) (concat (map scale_nodes xs))"
    by (rule Cons.IH) (use Cons.prems in auto)
  then show ?case using Cons.prems by (simp add: scale_nodes_def [of x] make_node_def)
qed simp

lemma scale_block_readable:
  assumes "''/length_scale_div_const'' \<in> K" and "set (nd_input (nodes ! p)) \<subseteq> insert [] K"
  shows "readable K (scale_block nodes p)"
proof -
  let ?xs = "nd_input (nodes ! p)" and ?b = "use_count (take p nodes) LS"
  let ?r = "[?b..<?b + count_list ?xs LS]"
  have chain: "readable K (concat (map scale_nodes ?r))"
  proof (cases "LS \<in> set ?xs")
    case True
    then show ?thesis using scale_chain_readable [of K] assms by auto
  qed (simp add: count_list_0_iff)
  have outs: "scale_div ` {?b..<?b + count_list ?xs LS} \<subseteq> outputs_of (concat (map scale_nodes ?r))"
    by (auto simp: scale_nodes_def make_node_def)
  have "set (patched ?b (ls_idxs ?xs) ?xs) \<subseteq> (set ?xs - {LS}) \<union> scale_div ` {?b..<?b + count_list ?xs LS}"
    by (rule patched_set)
  also have "\<dots> \<subseteq> insert [] (K \<union> outputs_of (concat (map scale_nodes ?r)))" using assms(2) outs by blast
  finally show ?thesis using chain unfolding scale_block_def Let_def readable_append by simp
qed

lemma scale_prefix_outputs:
  assumes "n \<le> length nodes"
  shows "outputs_of (take n nodes) \<subseteq> outputs_of (concat (map (scale_block nodes) [0..<n]))"
proof -
  have s: "set (concat (map nd_output xs)) = outputs_of xs" for xs by simp
  have "set_mset (mset (concat (map nd_output (take n nodes)))) \<subseteq> set_mset (mset (concat (map nd_output (concat (map (scale_block nodes) [0..<n])))))"
    unfolding scale_output_mset [OF assms] by simp
  then show ?thesis unfolding set_mset_mset s .
qed

section \<open>Meaning\<close>

text \<open>
  What is relied on, with \<open>whole n\<close> the integer and \<open>fl x\<close> the float as a tensor of one element:
  a cast turns one into the other, and a division by the constant divides.
\<close>

definition scale_sem ::
  "'v onnx_sem \<Rightarrow> (nat list \<Rightarrow> rat list \<Rightarrow> 'v) \<Rightarrow> (int \<Rightarrow> 'v) \<Rightarrow> (rat \<Rightarrow> 'v) \<Rightarrow> bool" where
  "scale_sem sem denote whole fl \<longleftrightarrow>
     (\<forall>n. sem ''Cast'' [] [(''to'', JInt FLOAT)] [Some (whole n)] = Some [fl (of_int n)])
     \<and> (\<forall>x. sem ''Div'' [] [] [Some (fl x), Some (denote [1] [1000])] = Some [fl (x / 1000)])"

definition scale_env :: "'v env \<Rightarrow> (nat list \<Rightarrow> rat list \<Rightarrow> 'v) \<Rightarrow> (int \<Rightarrow> 'v) \<Rightarrow> (rat \<Rightarrow> 'v) \<Rightarrow> int \<Rightarrow> nat \<Rightarrow> 'v env" where
  "scale_env e denote whole fl n k x =
     (if x = LS then Some (whole n) else if x = ''/length_scale_div_const'' then Some (denote [1] [1000])
      else if x \<in> scale_cast ` {..<k} then Some (fl (of_int n))
      else if x \<in> scale_div ` {..<k} then Some (fl (of_int n / 1000)) else e x)"

lemma scale_env_values:
  "scale_env e denote whole fl n k LS = Some (whole n)"
  "scale_env e denote whole fl n k ''/length_scale_div_const'' = Some (denote [1] [1000])"
  "i < k \<Longrightarrow> scale_env e denote whole fl n k (scale_cast i) = Some (fl (of_int n))"
  "i < k \<Longrightarrow> scale_env e denote whole fl n k (scale_div i) = Some (fl (of_int n / 1000))"
  "x \<notin> insert LS (set (''/length_scale_div_const'' # scale_names k)) \<Longrightarrow> scale_env e denote whole fl n k x = e x"
  by (auto simp: scale_env_def scale_names_differ scale_names_set)

lemma scale_chain_solves:
  assumes "scale_sem sem denote whole fl" and "i < k"
  shows "solves sem (scale_env e denote whole fl n k) (scale_nodes i)"
  using assms unfolding scale_sem_def by (simp add: scale_nodes_def make_node_def satisfies_def scale_env_values)

lemma scale_node_solves:
  fixes denote :: "nat list \<Rightarrow> rat list \<Rightarrow> 'v" and whole :: "int \<Rightarrow> 'v"
  assumes "satisfies sem e (nodes ! p)" and p: "p < length nodes" and k: "k = use_count nodes LS"
    and e: "e LS = Some (fl (of_int n / 1000))"
    and used: "\<And>x. x \<in> set (nd_input (nodes ! p)) \<union> set (nd_output (nodes ! p)) \<Longrightarrow> x \<notin> set (''/length_scale_div_const'' # scale_names k)"
    and out: "LS \<notin> set (nd_output (nodes ! p))"
  defines "e' \<equiv> scale_env e denote whole fl n k"
  shows "satisfies sem e' ((nodes ! p)\<lparr>nd_input := patched (use_count (take p nodes) LS) (ls_idxs (nd_input (nodes ! p))) (nd_input (nodes ! p))\<rparr>)"
proof -
  let ?nd = "nodes ! p" and ?b = "use_count (take p nodes) LS"
  have b: "?b + count_list (nd_input ?nd) LS \<le> k"
    using use_count_mono [of "Suc p" "length nodes" nodes LS] use_count_take [OF p, of LS] p k by simp
  have same: "e' x = e x" if "x \<in> set (nd_input ?nd) \<union> set (nd_output ?nd)" "x \<noteq> LS" for x
    unfolding e'_def by (rule scale_env_values(5)) (use used [OF that(1)] that(2) in blast)
  have "map e' (patched ?b (ls_idxs (nd_input ?nd)) (nd_input ?nd)) = map e (nd_input ?nd)"
    by (rule patched_values) (use same b e in \<open>auto simp: e'_def scale_env_values\<close>)
  moreover have "map e' (nd_output ?nd) = map e (nd_output ?nd)" using same out by auto
  ultimately show ?thesis using assms(1) unfolding satisfies_def by (simp del: map_eq_conv)
qed

text \<open>
  C36: the graph with an integer length scale of \<open>n\<close> thousandths computes what the original does
  for the scale \<open>n / 1000\<close>, at every consumer; it is again in order.  Every tensor is written once and
  read afterwards, and the names \<^verbatim>\<open>/length_scale_*\<close> of the new tensors are free.
\<close>

theorem scale_refines:
  assumes edit: "fix_length_scale_type m = Inr m'" and sem: "scale_sem sem denote whole fl"
    and input: "LS \<in> fst ` set (mm_input m)" "LS \<in> K" "LS \<notin> in_name ` set (g_initializer (mm_graph m))"
    and order: "well_ordered K (mm_graph m)"
      "names_fresh (''/length_scale_div_const'' # scale_names (use_count (g_node (mm_graph m)) LS)) K (mm_graph m)"
    and run: "eval_graph sem denote (mm_graph m) given = Some e" and scale: "given LS = Some (fl (of_int n / 1000))"
  shows "\<exists>e1. eval_graph sem denote (mm_graph m') (given(LS \<mapsto> whole n)) = Some e1
    \<and> well_ordered (insert ''/length_scale_div_const'' K) (mm_graph m')
    \<and> (\<forall>x. x \<notin> insert LS (set (''/length_scale_div_const'' # scale_names (use_count (g_node (mm_graph m)) LS))) \<longrightarrow> e1 x = e x)"
proof -
  let ?nodes = "g_node (mm_graph m)" and ?c = "''/length_scale_div_const''"
  let ?k = "use_count ?nodes LS"
  let ?names = "?c # scale_names ?k" and ?new = "concat (map (scale_block ?nodes) [0..<length ?nodes])"
  define e' where "e' = scale_env e denote whole fl n ?k"
  note val = scale_env_values [where e = e and denote = denote and whole = whole and fl = fl and n = n and k = ?k, folded e'_def]
  have unread: "x \<notin> inputs_of ?nodes" if "x \<in> set ?names" for x using names_fresh_unread [OF order(2,1) that] .
  have div: "\<forall>i<?k. scale_div i \<notin> inputs_of ?nodes" using unread by (simp add: scale_names_set)
  note g' = scale_edit [OF edit input(1) div]
  have w: "readable K ?nodes" "written_once K ?nodes" "in_name ` set (g_initializer (mm_graph m)) \<subseteq> K"
    using order(1) by (simp_all add: well_ordered_def)
  note old = eval_graph_start [OF w(1,2) run]
  have wo: "distinct (concat (map nd_output ?nodes))" "outputs_of ?nodes \<inter> insert [] K = {}"
    using w(2) unfolding written_once_def by blast+
  have nf: "set ?names \<inter> insert [] (K \<union> outputs_of ?nodes) = {}" using order(2) by (simp only: names_fresh_def)
  have LS_out: "LS \<notin> outputs_of ?nodes" using wo(2) input(2) by blast
  have eLS: "e LS = Some (fl (of_int n / 1000))"
    using old(2) [OF LS_out] scale input(3) by (simp add: init_env_lookup initializer_map_None [symmetric])
  have outs: "outputs_of ?new = outputs_of ?nodes \<union> set (scale_names ?k)"
    using scale_outputs(1) [of ?nodes] by simp
  have r: "readable (insert ?c K) ?new"
  proof -
    have "readable (K \<union> {?c}) ?new"
      by (rule readable_expand [OF w(1)]) (use scale_prefix_outputs scale_block_readable in \<open>simp_all add: less_imp_le\<close>)
    then show ?thesis by simp
  qed
  have wn: "written_once (insert ?c K) ?new"
  proof -
    have "distinct (concat (map nd_output ?new))" by (rule scale_outputs(2) [OF wo(1)]) (use nf in auto)
    moreover have "(outputs_of ?nodes \<union> set (scale_names ?k)) \<inter> insert [] (insert ?c K) = {}"
    proof -
      have "?c \<notin> outputs_of ?nodes" "?c \<notin> set (scale_names ?k)" "set (scale_names ?k) \<inter> insert [] K = {}"
        using nf order(2) unfolding names_fresh_def by auto
      then show ?thesis using wo(2) by blast
    qed
    ultimately show ?thesis unfolding written_once_def outs by (intro conjI)
  qed
  have sol: "solves sem e' ?new"
  proof -
    have "satisfies sem e' nd" if p: "p < length ?nodes" and nd: "nd \<in> set (scale_block ?nodes p)" for p nd
    proof -
      have m: "?nodes ! p \<in> set ?nodes" using p by simp
      have b: "use_count (take p ?nodes) LS + count_list (nd_input (?nodes ! p)) LS \<le> ?k"
        using use_count_mono [of "Suc p" "length ?nodes" ?nodes LS] use_count_take [OF p, of LS] p by simp
      show ?thesis
        using scale_block_cases [OF nd]
      proof
        assume "\<exists>i\<in>{use_count (take p ?nodes) LS..<use_count (take p ?nodes) LS + count_list (nd_input (?nodes ! p)) LS}. nd \<in> set (scale_nodes i)"
        then obtain i where i: "i < use_count (take p ?nodes) LS + count_list (nd_input (?nodes ! p)) LS" "nd \<in> set (scale_nodes i)" by auto
        then have "i < ?k" using b by linarith
        then show ?thesis using scale_chain_solves [OF sem, of i ?k e n] i(2) by (simp add: e'_def)
      next
        assume 2: "nd = (?nodes ! p)\<lparr>nd_input := patched (use_count (take p ?nodes) LS) (ls_idxs (nd_input (?nodes ! p))) (nd_input (?nodes ! p))\<rparr>"
        show ?thesis unfolding 2 e'_def
        proof (rule scale_node_solves)
          show "p < length ?nodes" "?k = ?k" "e LS = Some (fl (of_int n / 1000))" using p eLS by simp_all
          show "satisfies sem e (?nodes ! p)" using old(1) m by blast
          show "LS \<notin> set (nd_output (?nodes ! p))" using LS_out m by blast
          show "x \<notin> set ?names" if "x \<in> set (nd_input (?nodes ! p)) \<union> set (nd_output (?nodes ! p))" for x
            using that unread m nf by blast
        qed
      qed
    qed
    then show ?thesis by auto
  qed
  have "eval_graph sem denote (mm_graph m') (given(LS \<mapsto> whole n)) = Some e'"
  proof (rule edit_evaluates)
    show "readable (insert ?c K) (g_node (mm_graph m'))" "solves sem e' (g_node (mm_graph m'))"
      unfolding g' using r sol by simp_all
    show "outputs_of (g_node (mm_graph m')) \<inter> insert [] (insert ?c K) = {}"
      unfolding g' using wn by (simp add: written_once_def)
    fix x
    assume "x \<notin> outputs_of (g_node (mm_graph m'))"
    then have x: "x \<notin> outputs_of ?nodes" "x \<notin> set (scale_names ?k)" unfolding g' onnx_graph.select_convs outs by blast+
    have c: "initializer_map [make_float_tensor ?c [1000]] y = (if y = ?c then Some (make_float_tensor ?c [1000]) else None)" for y
      by (simp add: initializer_map_def make_float_tensor_def)
    have i: "init_env denote (g_initializer (mm_graph m')) (given(LS \<mapsto> whole n)) x
        = (if x = ?c then Some (denote [1] [1000]) else init_env denote (g_initializer (mm_graph m)) (given(LS \<mapsto> whole n)) x)"
      unfolding g' onnx_graph.select_convs init_env_lookup initializer_map_append c by (simp add: make_float_tensor_def)
    consider "x = ?c" | "x = LS" | "x \<notin> insert LS (set ?names)" using x(2) by auto
    then show "init_env denote (g_initializer (mm_graph m')) (given(LS \<mapsto> whole n)) x = e' x"
    proof cases
      case 1
      then show ?thesis unfolding i using val(2) by simp
    next
      case 2
      then show ?thesis using i val(1) input(3) by (simp add: init_env_lookup initializer_map_None [symmetric])
    next
      case 3
      then show ?thesis unfolding i using val(5) [OF 3] old(2) [OF x(1)] by (simp add: init_env_lookup split: option.splits)
    qed
  qed
  moreover have "well_ordered (insert ?c K) (mm_graph m')"
    using r wn w(3) unfolding well_ordered_def g' by (auto simp: make_float_tensor_def)
  ultimately show ?thesis using val(5) by blast
qed

end
