(* ===== verification/Matcha_Witness.thy ===== *)
theory Matcha_Witness
  imports Matcha_Scale
begin

text \<open>
  One meaning of the operators that satisfies what the three edits rely on, and a small graph for
  each edit.  A value is a shape with its elements.
\<close>

section \<open>Operators\<close>

definition crop3 :: "nat list \<Rightarrow> nat list \<times> rat list \<Rightarrow> nat list \<times> rat list" where
  "crop3 d w = (d, concat (map (\<lambda>i. concat (map (\<lambda>j. map (\<lambda>k. snd w ! ((i * (fst w ! 1) + j) * (fst w ! 2) + k))
     [0..<d ! 2]) [0..<d ! 1])) [0..<d ! 0]))"

definition shape_of :: "nat list \<times> rat list \<Rightarrow> nat list \<times> rat list" where
  "shape_of v = ([length (fst v)], map of_nat (fst v))"

definition crop_like :: "nat list \<times> rat list \<Rightarrow> nat list \<times> rat list \<Rightarrow> nat list \<times> rat list" where
  "crop_like v w = crop3 (fst v) w"

definition scalar :: "bool \<Rightarrow> nat \<Rightarrow> nat list \<times> rat list" where
  "scalar f n = ([], [of_nat n])"

definition numbers :: "bool \<Rightarrow> nat \<Rightarrow> nat list \<times> rat list" where
  "numbers f n = ([n], map of_nat [0..<n])"

definition as_nats :: "rat list \<Rightarrow> nat list" where
  "as_nats xs = map (\<lambda>x. nat \<lfloor>x\<rfloor>) xs"

lemma as_nats_of_nat [simp]: "as_nats (map of_nat ns) = ns"
  by (simp add: as_nats_def comp_def)

definition eg_noise :: "nat list \<times> rat list" where
  "eg_noise = ([1, 2, 3], [1, 2, 3, 4, 5, 6])"

definition eg_matcha_sem :: "(nat list \<times> rat list) onnx_sem" where
  "eg_matcha_sem ty domain attrs xs =
     (if ty = ''RandomNormalLike'' then (case xs of [Some v] \<Rightarrow> Some [crop_like v eg_noise] | _ \<Rightarrow> None)
      else if ty = ''Shape'' then (case xs of [Some v] \<Rightarrow> Some [shape_of v] | _ \<Rightarrow> None)
      else if ty = ''Cast'' then (case xs of
          [Some v] \<Rightarrow> Some [if attrs = [(''to'', JInt INT64)] then (fst v, map (\<lambda>x. of_int \<lfloor>x\<rfloor>) (snd v)) else v] | _ \<Rightarrow> None)
      else if ty = ''Unsqueeze'' then (case xs of [Some v, Some _] \<Rightarrow> Some [(1 # fst v, snd v)] | _ \<Rightarrow> None)
      else if ty = ''Slice'' then (case xs of
          [Some v, Some s, Some t, Some _, Some _] \<Rightarrow>
            (if length (snd s) = 3 then Some [crop3 (as_nats (snd t)) v]
             else let n = hd (as_nats (snd t)) in Some [([min n (fst v ! 0)], take n (snd v))])
        | _ \<Rightarrow> None)
      else if ty = ''Div'' then (case xs of [Some v, Some w] \<Rightarrow> Some [(fst v, map (\<lambda>x. x / hd (snd w)) (snd v))] | _ \<Rightarrow> None)
      else if ty = ''Mul'' then (case xs of [Some v, Some w] \<Rightarrow> Some [(fst v, map (\<lambda>x. x * hd (snd w)) (snd v))] | _ \<Rightarrow> None)
      else if ty = ''Range'' then (case xs of
          [Some s, Some t, Some d] \<Rightarrow> Some [numbers True (hd (as_nats (snd t)))] | _ \<Rightarrow> None)
      else None)"

lemma eg_matcha_noise: "noise_sem eg_matcha_sem Pair shape_of crop_like"
  by (simp add: noise_sem_def eg_matcha_sem_def shape_of_def crop_like_def INT64_def comp_def)

lemma eg_matcha_scale: "scale_sem eg_matcha_sem Pair (\<lambda>n. ([1], [of_int n])) (\<lambda>x. ([1], [x]))"
  by (simp add: scale_sem_def eg_matcha_sem_def FLOAT_def INT64_def)

lemma eg_matcha_range: "range_sem eg_matcha_sem Pair scalar numbers"
proof -
  have "take n [0..<m] = [0..<min n m]" for m n
    by (cases "n \<le> m") (simp_all add: min_def)
  then have "take n (map (of_nat :: nat \<Rightarrow> rat) [0..<m]) = map of_nat [0..<min n m]" for m n by (simp add: take_map)
  then show ?thesis
    by (simp add: range_sem_def eg_matcha_sem_def scalar_def numbers_def FLOAT_def INT64_def as_nats_def)
qed

section \<open>Noise\<close>

definition eg_noise_model :: matcha_model where
  "eg_noise_model =
     \<lparr>mm_graph = \<lparr>g_node = [make_node ''RandomNormalLike'' [''x''] [''r''] ''rn'' [], make_node ''Mul'' [''r'', ''s''] [''y''] ''mul'' []],
        g_initializer = []\<rparr>, mm_input = [(''x'', FLOAT), (''s'', FLOAT)]\<rparr>"

definition eg_noise_given :: "(nat list \<times> rat list) env" where
  "eg_noise_given = [''x'' \<mapsto> ([1, 2, 2], [0, 0, 0, 0]), ''s'' \<mapsto> ([1], [10])]"

lemma eg_noise_value:
  "case eval_graph eg_matcha_sem Pair (mm_graph eg_noise_model) eg_noise_given of None \<Rightarrow> False
   | Some e \<Rightarrow> e ''x'' = Some ([1, 2, 2], [0, 0, 0, 0]) \<and> e ''r'' = Some ([1, 2, 2], [1, 2, 4, 5])
       \<and> e ''y'' = Some ([1, 2, 2], [10, 20, 40, 50])"
  by code_simp

theorem noise_refines_witness:
  "\<exists>m' e1. fix_random_normal_like eg_noise_model = Inr m' \<and> map fst (mm_input m') = [''x'', ''s'', ''noise'']
     \<and> eval_graph eg_matcha_sem Pair (mm_graph m') (eg_noise_given(''noise'' \<mapsto> eg_noise)) = Some e1
     \<and> e1 ''y'' = Some ([1, 2, 2], [10, 20, 40, 50])"
proof -
  have "case fix_random_normal_like eg_noise_model of Inl _ \<Rightarrow> False | Inr m' \<Rightarrow> map fst (mm_input m') = [''x'', ''s'', ''noise'']"
    by code_simp
  then obtain m' where m': "fix_random_normal_like eg_noise_model = Inr m'" "map fst (mm_input m') = [''x'', ''s'', ''noise'']"
    by (auto split: sum.splits)
  obtain e where e: "eval_graph eg_matcha_sem Pair (mm_graph eg_noise_model) eg_noise_given = Some e"
    "e ''x'' = Some ([1, 2, 2], [0, 0, 0, 0])" "e ''r'' = Some ([1, 2, 2], [1, 2, 4, 5])" "e ''y'' = Some ([1, 2, 2], [10, 20, 40, 50])"
    using eg_noise_value by (auto split: option.splits)
  let ?rnn = "g_node (mm_graph eg_noise_model) ! 0"
  have r: "first_position (\<lambda>nd. op_type nd = ''RandomNormalLike'') (g_node (mm_graph eg_noise_model)) = Some 0"
    "nd_output ?rnn = [''r'']" "use_count (g_node (mm_graph eg_noise_model)) ''r'' = 1" "hd (nd_input ?rnn) = ''x''" "nd_name ?rnn = ''rn''"
    by code_simp+
  have o: "well_ordered {''x'', ''s''} (mm_graph eg_noise_model)"
    by (auto simp: well_ordered_def eg_noise_model_def make_node_def written_once_def)
  have f: "names_fresh (noise_names (nd_name ?rnn)) {''x'', ''s''} (mm_graph eg_noise_model)"
    unfolding r(5) by (simp add: names_fresh_def noise_names_def noise_known_def noise_inits_def make_int64_tensor_def
        noise_nodes_def make_node_def eg_noise_model_def)
  have c: "crop_like ([1, 2, 2], [0, 0, 0, 0]) eg_noise = ([1, 2, 2], [1, 2, 4, 5])" by code_simp
  from noise_refines [OF m'(1) eg_matcha_noise r(1) refl r(2,3) o f e(1), of "([1, 2, 2], [0, 0, 0, 0])" eg_noise]
  obtain e1 where e1: "eval_graph eg_matcha_sem Pair (mm_graph m') (eg_noise_given(''noise'' \<mapsto> eg_noise)) = Some e1"
    "\<forall>x. x \<notin> insert ''r'' (set (noise_names ''rn'')) \<longrightarrow> e1 x = e x"
    unfolding r(4,5) c using e(2,3) by blast
  have "e1 ''y'' = e ''y''"
    using e1(2) by (simp add: noise_names_def noise_known_def noise_inits_def make_int64_tensor_def noise_nodes_def make_node_def)
  then show ?thesis using m' e1(1) e(4) by (intro exI [of _ m'] exI [of _ e1]) simp
qed

section \<open>Length scale\<close>

definition eg_scale_model :: matcha_model where
  "eg_scale_model =
     \<lparr>mm_graph = \<lparr>g_node = [make_node ''Mul'' [''x'', ''length_scale''] [''h''] ''a'' [],
          make_node ''Mul'' [''length_scale'', ''length_scale''] [''y''] ''b'' []], g_initializer = []\<rparr>,
      mm_input = [(''x'', FLOAT), (''length_scale'', FLOAT)]\<rparr>"

definition eg_scale_given :: "(nat list \<times> rat list) env" where
  "eg_scale_given = [''x'' \<mapsto> ([2], [4, 6]), ''length_scale'' \<mapsto> ([1], [1500 / 1000])]"

lemma eg_scale_value:
  "case eval_graph eg_matcha_sem Pair (mm_graph eg_scale_model) eg_scale_given of None \<Rightarrow> False
   | Some e \<Rightarrow> e ''h'' = Some ([2], [6, 9]) \<and> e ''y'' = Some ([1], [9 / 4])"
  by code_simp

theorem scale_refines_witness:
  "\<exists>m' e1. fix_length_scale_type eg_scale_model = Inr m' \<and> mm_input m' = [(''x'', FLOAT), (''length_scale'', INT64)]
     \<and> map op_type (g_node (mm_graph m')) = [''Cast'', ''Div'', ''Mul'', ''Cast'', ''Div'', ''Cast'', ''Div'', ''Mul'']
     \<and> eval_graph eg_matcha_sem Pair (mm_graph m') (eg_scale_given(''length_scale'' \<mapsto> ([1], [1500]))) = Some e1
     \<and> e1 ''h'' = Some ([2], [6, 9]) \<and> e1 ''y'' = Some ([1], [9 / 4])"
proof -
  have "case fix_length_scale_type eg_scale_model of Inl _ \<Rightarrow> False
      | Inr m' \<Rightarrow> mm_input m' = [(''x'', FLOAT), (''length_scale'', INT64)]
          \<and> map op_type (g_node (mm_graph m')) = [''Cast'', ''Div'', ''Mul'', ''Cast'', ''Div'', ''Cast'', ''Div'', ''Mul'']"
    by code_simp
  then obtain m' where m': "fix_length_scale_type eg_scale_model = Inr m'"
    "mm_input m' = [(''x'', FLOAT), (''length_scale'', INT64)]"
    "map op_type (g_node (mm_graph m')) = [''Cast'', ''Div'', ''Mul'', ''Cast'', ''Div'', ''Cast'', ''Div'', ''Mul'']"
    by (auto split: sum.splits)
  obtain e where e: "eval_graph eg_matcha_sem Pair (mm_graph eg_scale_model) eg_scale_given = Some e"
    "e ''h'' = Some ([2], [6, 9])" "e ''y'' = Some ([1], [9 / 4])"
    using eg_scale_value by (auto split: option.splits)
  let ?K = "{''x'', ''length_scale''}"
  have k: "use_count (g_node (mm_graph eg_scale_model)) ''length_scale'' = 3" by code_simp
  have names: "scale_names 3 = [''/length_scale_cast_0_output_0'', ''/length_scale_div_0_output_0'', ''/length_scale_cast_1_output_0'',
      ''/length_scale_div_1_output_0'', ''/length_scale_cast_2_output_0'', ''/length_scale_div_2_output_0'']"
    by code_simp
  have input: "''length_scale'' \<in> fst ` set (mm_input eg_scale_model)"
    "''length_scale'' \<notin> in_name ` set (g_initializer (mm_graph eg_scale_model))"
    by (simp_all add: eg_scale_model_def)
  have o: "well_ordered ?K (mm_graph eg_scale_model)"
    by (auto simp: well_ordered_def eg_scale_model_def make_node_def written_once_def)
  have f: "names_fresh (''/length_scale_div_const'' # scale_names (use_count (g_node (mm_graph eg_scale_model)) ''length_scale'')) ?K (mm_graph eg_scale_model)"
    unfolding k names by (simp add: names_fresh_def make_node_def eg_scale_model_def)
  have g: "eg_scale_given ''length_scale'' = Some ([1], [of_int 1500 / 1000])" by (simp add: eg_scale_given_def)
  from scale_refines [OF m'(1) eg_matcha_scale input(1) _ input(2) o f e(1) g]
  obtain e1 where e1: "eval_graph eg_matcha_sem Pair (mm_graph m') (eg_scale_given(''length_scale'' \<mapsto> ([1], [of_int 1500]))) = Some e1"
    "\<forall>x. x \<notin> insert ''length_scale'' (set (''/length_scale_div_const'' # scale_names 3)) \<longrightarrow> e1 x = e x"
    unfolding k by blast
  have "e1 ''h'' = e ''h''" "e1 ''y'' = e ''y''" using e1(2) unfolding names by simp_all
  then show ?thesis using m' e1(1) e(2,3) by (intro exI [of _ m'] exI [of _ e1]) simp
qed

section \<open>Ranges\<close>

definition eg_range_model :: matcha_model where
  "eg_range_model =
     \<lparr>mm_graph = \<lparr>g_node = [make_node ''Cast'' [''n''] [''l''] ''cast'' [(''to'', JInt FLOAT)],
          make_node ''Range'' [''zero'', ''l'', ''one''] [''r''] ''/Range'' [], make_node ''Mul'' [''r'', ''s''] [''y''] ''mul'' []],
        g_initializer = [\<lparr>in_name = ''zero'', in_dims = [], in_vals = [0], in_itemsize = 4\<rparr>,
          \<lparr>in_name = ''one'', in_dims = [], in_vals = [1], in_itemsize = 4\<rparr>]\<rparr>,
      mm_input = [(''n'', INT64), (''s'', FLOAT)]\<rparr>"

definition eg_range_given :: "(nat list \<times> rat list) env" where
  "eg_range_given = [''n'' \<mapsto> ([], [3]), ''s'' \<mapsto> ([1], [10])]"

lemma eg_range_value:
  "case eval_graph eg_matcha_sem Pair (mm_graph eg_range_model) eg_range_given of None \<Rightarrow> False
   | Some e \<Rightarrow> e ''zero'' = Some ([], [0]) \<and> e ''l'' = Some ([], [3]) \<and> e ''one'' = Some ([], [1]) \<and> e ''y'' = Some ([3], [0, 10, 20])"
  by code_simp

theorem range_refines_witness:
  "\<exists>m' e1. fix_range (''/Range'', 5) eg_range_model = Inr m'
     \<and> map op_type (g_node (mm_graph m')) = [''Cast'', ''Cast'', ''Unsqueeze'', ''Slice'', ''Cast'', ''Mul'']
     \<and> eval_graph eg_matcha_sem Pair (mm_graph m') eg_range_given = Some e1 \<and> e1 ''y'' = Some ([3], [0, 10, 20])"
proof -
  have "case fix_range (''/Range'', 5) eg_range_model of Inl _ \<Rightarrow> False
      | Inr m' \<Rightarrow> map op_type (g_node (mm_graph m')) = [''Cast'', ''Cast'', ''Unsqueeze'', ''Slice'', ''Cast'', ''Mul'']"
    by code_simp
  then obtain m' where m': "fix_range (''/Range'', 5) eg_range_model = Inr m'"
    "map op_type (g_node (mm_graph m')) = [''Cast'', ''Cast'', ''Unsqueeze'', ''Slice'', ''Cast'', ''Mul'']"
    by (auto split: sum.splits)
  obtain e where e: "eval_graph eg_matcha_sem Pair (mm_graph eg_range_model) eg_range_given = Some e"
    "e ''zero'' = Some ([], [0])" "e ''l'' = Some ([], [3])" "e ''one'' = Some ([], [1])" "e ''y'' = Some ([3], [0, 10, 20])"
    using eg_range_value by (auto split: option.splits)
  let ?rn = "g_node (mm_graph eg_range_model) ! 1" and ?K = "{''n'', ''s'', ''zero'', ''one''}"
  have r: "first_position (\<lambda>nd. nd_name nd = ''/Range'') (g_node (mm_graph eg_range_model)) = Some 1"
    "nd_output ?rn = [''r'']" "op_type ?rn = ''Range''" "limit_is_float eg_range_model (nd_input ?rn ! 1)"
    "nd_input ?rn = [''zero'', ''l'', ''one'']"
    by code_simp+
  have f: "True = limit_is_float eg_range_model (nd_input ?rn ! 1)" using r(4) by simp
  have o: "well_ordered ?K (mm_graph eg_range_model)"
    by (auto simp: well_ordered_def eg_range_model_def make_node_def written_once_def)
  have names: "range_names ''/Range'' True = [''/Range_static_range'', ''/Range_slice_starts'', ''/Range_slice_axes'', ''/Range_slice_steps'',
      ''/Range_unsq_axes'', ''/Range_cast_int64_output_0'', ''/Range_unsq_limit_output_0'', ''/Range_Slice_output_0'', ''/Range_cast_back_float_output_0'']"
    by code_simp
  have fresh: "names_fresh (range_names ''/Range'' True) ?K (mm_graph eg_range_model)"
    unfolding names by (simp add: names_fresh_def make_node_def eg_range_model_def)
  have i: "map e (nd_input ?rn) = [Some (scalar True 0), Some (scalar True 3), Some (scalar True 1)]"
    unfolding r(5) using e(2-4) by (simp add: scalar_def)
  from range_refines [OF m'(1) eg_matcha_range r(1) refl r(2,3) f o fresh e(1) i]
  obtain e1 where e1: "eval_graph eg_matcha_sem Pair (mm_graph m') eg_range_given = Some e1"
    "\<forall>x. x \<notin> insert ''r'' (set (range_names ''/Range'' True)) \<longrightarrow> e1 x = e x"
    by auto
  have "e1 ''y'' = e ''y''" using e1(2) unfolding names by simp
  then show ?thesis using m' e1(1) e(5) by (intro exI [of _ m'] exI [of _ e1]) simp
qed

end
