(* ===== verification/Streaming_Gate.thy ===== *)
theory Streaming_Gate
  imports Speech_Text Py_Text "HOL-Library.AList"
begin

text \<open>
  \<^verbatim>\<open>scripts/streaming_e2e_verify.py\<close> with the scenarios, the similarity and the percentile it takes
  from \<^verbatim>\<open>scripts/test_streaming_worker.py\<close>.  A worker process is a function from the messages it
  has been sent to its next answer and the milliseconds it takes, or none when it dies; reading a
  file into samples is a parameter.  Times and similarities are exact rationals.
\<close>

section \<open>Comparison\<close>

text \<open>The characters of \<^verbatim>\<open>"\u3002\uff0c\u3001\uff01\uff1f.,!? \t\n"\<close>.\<close>

definition dropped :: "nat \<Rightarrow> bool" where
  "dropped c \<longleftrightarrow> c \<in> {12290, 65292, 12289, 65281, 65311, 46, 44, 33, 63, 32, 9, 10}"

definition lcs_cell :: "utext \<Rightarrow> utext \<Rightarrow> nat \<Rightarrow> nat list list \<Rightarrow> nat \<Rightarrow> nat list list" where
  "lcs_cell a b i dp j =
     dp[i + 1 := (dp ! (i + 1))[j + 1 :=
       if a ! i = b ! j then dp ! i ! j + 1 else max (dp ! (i + 1) ! j) (dp ! i ! (j + 1))]]"

definition lcs_dp :: "utext \<Rightarrow> utext \<Rightarrow> nat list list" where
  "lcs_dp a b =
     foldl (\<lambda>dp i. foldl (lcs_cell a b i) dp [0..<length b]) (replicate (length a + 1) (replicate (length b + 1) 0)) [0..<length a]"

definition text_similarity :: "utext \<Rightarrow> utext \<Rightarrow> rat" where
  "text_similarity s t =
     (let a = filter (Not \<circ> dropped) s; b = filter (Not \<circ> dropped) t in
      if a = [] \<and> b = [] then 1 else if a = [] \<or> b = [] then 0
      else of_nat (lcs_dp a b ! length a ! length b) / of_nat (max (length a) (length b)))"

definition percentile :: "rat list \<Rightarrow> rat \<Rightarrow> rat" where
  "percentile xs p =
     (if xs = [] then 0
      else let ys = sort xs; k = of_nat (length ys - 1) * (p / 100); f = nat \<lfloor>k\<rfloor>; c = nat \<lceil>k\<rceil> in
        if f = c then ys ! f else ys ! f + (ys ! c - ys ! f) * (k - of_nat f))"

definition languages :: "string list" where
  "languages = [''Chinese'', ''English'', ''Cantonese'', ''Japanese'', ''Korean'', ''French'', ''German'', ''Italian'',
     ''Portuguese'', ''Russian'', ''Spanish'']"

definition points :: "string \<Rightarrow> utext" where
  "points s = map of_char s"

definition strip_language_prefix :: "utext \<Rightarrow> utext" where
  "strip_language_prefix text =
     (if \<not> prefix (points ''language '') text then text
      else case List.find (\<lambda>lang. prefix (points (''language '' @ lang)) text) languages of
        None \<Rightarrow> text
      | Some lang \<Rightarrow> u_lstrip (drop (length (''language '' @ lang)) text))"

section \<open>Worker\<close>

text \<open>What is read of an answer: \<^verbatim>\<open>responses\<close> may be present and empty.\<close>

record answer =
  an_event :: "string option"
  an_ok :: bool
  an_output :: "utext option"
  an_text :: utext

datatype 's message = OneShot "'s list" nat | Begin bool | Chunk "'s list" bool

type_synonym 's worker = "'s message list \<Rightarrow> (answer \<times> rat) option"

datatype stream_error = WorkerDied | NotReady | NoAck | NoFinal | NoResponse | SpecUnpack | AudioFailed

definition send_recv :: "'s worker \<Rightarrow> 's message list \<Rightarrow> 's message \<Rightarrow> stream_error + 's message list \<times> answer \<times> rat" where
  "send_recv w sent msg =
     (case w (sent @ [msg]) of None \<Rightarrow> Inl WorkerDied | Some (an, ms) \<Rightarrow> Inr (sent @ [msg], an, ms))"

text \<open>The constructor reads the first line.\<close>

definition start_worker :: "'s worker \<Rightarrow> stream_error + unit" where
  "start_worker w =
     (case w [] of None \<Rightarrow> Inl WorkerDied
      | Some (an, ms) \<Rightarrow> if an_event an = Some ''ready'' then Inr () else Inl NotReady)"

definition scenario_a_oneshot :: "'s worker \<Rightarrow> 's list \<Rightarrow> nat \<Rightarrow> stream_error + bool \<times> utext" where
  "scenario_a_oneshot w audio max_gen =
     res_bind (start_worker w) (\<lambda>_.
     res_bind (send_recv w [] (OneShot audio max_gen)) (\<lambda>(sent, an, ms).
       case an_output an of
         None \<Rightarrow> Inl NoResponse
       | Some out \<Rightarrow> Inr (an_ok an \<and> an_event an = Some ''done'', strip_language_prefix out)))"

definition SAMPLE_RATE :: nat where "SAMPLE_RATE = 16000"
definition hop_samples :: nat where "hop_samples = 8000"

definition n_hops :: "'s list \<Rightarrow> nat" where
  "n_hops audio = (length audio + hop_samples - 1) div hop_samples"

record 's stream_state =
  ss_sent :: "'s message list"
  ss_rotations :: nat
  ss_final :: "(answer \<times> rat) option"

definition stream_hop :: "'s worker \<Rightarrow> 's list \<Rightarrow> nat \<Rightarrow> 's stream_state \<Rightarrow> stream_error + 's stream_state" where
  "stream_hop w audio k st =
     (let is_last = (k = n_hops audio - 1) in
      res_bind (send_recv w (ss_sent st) (Chunk (take (min ((k + 1) * hop_samples) (length audio)) audio) is_last)) (\<lambda>(sent, an, ms).
        if an_event an = Some ''segment_rotation''
        then Inr (st\<lparr>ss_sent := sent, ss_rotations := ss_rotations st + 1\<rparr>)
        else if is_last then Inr (st\<lparr>ss_sent := sent, ss_final := Some (an, ms)\<rparr>)
        else Inr (st\<lparr>ss_sent := sent\<rparr>)))"

record stream_result =
  sr_text :: utext
  sr_latency :: rat
  sr_hops :: nat
  sr_rotations :: nat

text \<open>Scenarios B and F; the latter sends samples instead of features.\<close>

definition run_hops :: "'s worker \<Rightarrow> bool \<Rightarrow> 's list \<Rightarrow> stream_error + 's stream_state" where
  "run_hops w pcm audio =
     res_bind (start_worker w) (\<lambda>_.
     res_bind (send_recv w [] (Begin pcm)) (\<lambda>(sent, an, ms).
       if an_event an \<noteq> Some ''begin_ack'' then Inl NoAck
       else res_fold (stream_hop w audio) [0..<n_hops audio] \<lparr>ss_sent = sent, ss_rotations = 0, ss_final = None\<rparr>))"

definition scenario_stream :: "'s worker \<Rightarrow> bool \<Rightarrow> 's list \<Rightarrow> stream_error + stream_result" where
  "scenario_stream w pcm audio =
     res_bind (run_hops w pcm audio) (\<lambda>st.
       case ss_final st of
         None \<Rightarrow> Inl NoFinal
       | Some (an, ms) \<Rightarrow> Inr \<lparr>sr_text = strip_language_prefix (an_text an), sr_latency = ms, sr_hops = n_hops audio,
                            sr_rotations = ss_rotations st\<rparr>)"

section \<open>One prompt\<close>

record sargs =
  mel_settings :: bool
  mel_filters :: bool
  max_gen :: nat
  latency_runs :: int
  lcs_gate :: rat
  median_gate_ms :: rat
  p95_gate_ms :: rat

record prompt_result =
  a_ok :: bool
  a_text :: utext
  b_result :: stream_result
  b_lcs :: rat
  f_result :: "(stream_result \<times> rat) option"
  latencies :: "rat list"

fun latency_loop :: "(nat \<Rightarrow> 's worker) \<Rightarrow> 's list \<Rightarrow> nat \<Rightarrow> nat \<Rightarrow> stream_error + rat list" where
  "latency_loop pool audio r 0 = Inr []"
| "latency_loop pool audio r (Suc n) =
     res_bind (scenario_stream (pool r) False audio) (\<lambda>b.
     res_bind (latency_loop pool audio (Suc r) n) (\<lambda>rest. Inr (sr_latency b # rest)))"

text \<open>\<open>pool\<close> gives the worker that is started first, second and so on.\<close>

definition run_one :: "sargs \<Rightarrow> (nat \<Rightarrow> 's worker) \<Rightarrow> 's list \<Rightarrow> stream_error + prompt_result" where
  "run_one args pool samples =
     (let audio = take (SAMPLE_RATE * 5) samples in
      res_bind (scenario_a_oneshot (pool 0) audio (max_gen args)) (\<lambda>(ok, baseline).
      res_bind (scenario_stream (pool 1) False audio) (\<lambda>b.
      res_bind (if mel_settings args \<and> mel_filters args
                then res_bind (scenario_stream (pool 2) True audio) (\<lambda>f. Inr (Some (f, text_similarity (sr_text f) baseline)))
                else Inr None) (\<lambda>f.
      res_bind (latency_loop pool audio 3 (nat (latency_runs args - 1))) (\<lambda>more.
        Inr \<lparr>a_ok = ok, a_text = baseline, b_result = b, b_lcs = text_similarity (sr_text b) baseline, f_result = f,
             latencies = sr_latency b # more\<rparr>)))))"

section \<open>Gates\<close>

datatype gate = A_ok | B_lcs | C_median | C_p95 | F_lcs

definition prompt_gates :: "sargs \<Rightarrow> prompt_result \<Rightarrow> (gate \<times> bool) list" where
  "prompt_gates args res =
     [(A_ok, a_ok res), (B_lcs, b_lcs res \<ge> lcs_gate args),
      (C_median, percentile (latencies res) 50 \<le> median_gate_ms args), (C_p95, percentile (latencies res) 95 \<le> p95_gate_ms args)]
     @ (case f_result res of None \<Rightarrow> [] | Some (f, lcs) \<Rightarrow> [(F_lcs, lcs \<ge> lcs_gate args)])"

definition evaluate_gates :: "sargs \<Rightarrow> (string \<times> prompt_result) list \<Rightarrow> (string \<times> (gate \<times> bool) list) list \<times> bool" where
  "evaluate_gates args per_prompt =
     (let by_prompt = map (\<lambda>(pid, res). (pid, prompt_gates args res)) per_prompt in
      (by_prompt, list_all (\<lambda>(pid, g). list_all snd g) by_prompt))"

section \<open>Main\<close>

text \<open>\<open>None\<close> is the return code 2 for a specification without a separator.\<close>

fun add_specs :: "string list \<Rightarrow> (string \<times> string \<times> string) list \<Rightarrow> stream_error + (string \<times> string \<times> string) list option" where
  "add_specs [] prompts = Inr (Some prompts)"
| "add_specs (spec # specs) prompts =
     (if CHR ''='' \<notin> set spec \<or> CHR ''|'' \<notin> set spec then Inr None
      else
        let pid = before CHR ''='' spec; rest = after CHR ''='' spec in
        if CHR ''|'' \<notin> set rest then Inl SpecUnpack
        else add_specs specs (AList.update pid (before CHR ''|'' rest, after CHR ''|'' rest) prompts))"

fun run_prompts ::
  "sargs \<Rightarrow> (string \<Rightarrow> 's list option) \<Rightarrow> (string \<Rightarrow> nat \<Rightarrow> 's worker) \<Rightarrow> (string \<times> string \<times> string) list
     \<Rightarrow> stream_error + (string \<times> prompt_result) list" where
  "run_prompts args read_audio pools [] = Inr []"
| "run_prompts args read_audio pools ((pid, wav, gt) # prompts) =
     (case read_audio wav of
        None \<Rightarrow> Inl AudioFailed
      | Some samples \<Rightarrow>
          res_bind (run_one args (pools pid) samples) (\<lambda>res.
          res_bind (run_prompts args read_audio pools prompts) (\<lambda>rest. Inr ((pid, res) # rest))))"

definition stream_main ::
  "sargs \<Rightarrow> (string \<Rightarrow> 's list option) \<Rightarrow> (string \<Rightarrow> nat \<Rightarrow> 's worker) \<Rightarrow> (string \<times> string \<times> string) list \<Rightarrow> string list
     \<Rightarrow> stream_error + nat \<times> (string \<times> prompt_result) list" where
  "stream_main args read_audio pools prompts_json specs =
     res_bind (add_specs specs prompts_json) (\<lambda>r.
       case r of
         None \<Rightarrow> Inr (2, [])
       | Some prompts \<Rightarrow>
           if prompts = [] then Inr (2, [])
           else res_bind (run_prompts args read_audio pools prompts) (\<lambda>per_prompt.
             Inr (if snd (evaluate_gates args per_prompt) then 0 else 1, per_prompt)))"

end
