(* ===== verification/Streaming_Gate_Props.thy ===== *)
theory Streaming_Gate_Props
  imports Streaming_Gate "HOL-Library.Multiset"
begin

text \<open>What the gates of the streaming check mean for the workers that were run.\<close>

section \<open>Similarity\<close>

text \<open>The table holds the rows of \<^const>\<open>lcs_table\<close>.\<close>

lemma lcs_cells_row:
  assumes "i + 1 < length dp" and "length (dp ! (i + 1)) = length b + 1" and "m \<le> length b"
  shows "foldl (lcs_cell a b i) dp [0..<m] = dp[i + 1 :=
    foldl (\<lambda>cur j. cur[j := if a ! i = b ! (j - 1) then dp ! i ! (j - 1) + 1 else max (dp ! i ! j) (cur ! (j - 1))]) (dp ! (i + 1)) [1..<m + 1]]"
  using assms(3)
proof (induction m)
  case (Suc m)
  let ?step = "\<lambda>cur j. cur[j := if a ! i = b ! (j - 1) then dp ! i ! (j - 1) + 1 else max (dp ! i ! j) (cur ! (j - 1))]"
  let ?row = "foldl ?step (dp ! (i + 1)) [1..<m + 1]"
  have "foldl (lcs_cell a b i) dp [0..<Suc m] = lcs_cell a b i (dp[i + 1 := ?row]) m" using Suc by simp
  also have "\<dots> = dp[i + 1 := ?step ?row (m + 1)]"
    using assms(1) by (simp add: lcs_cell_def max.commute)
  also have "?step ?row (m + 1) = foldl ?step (dp ! (i + 1)) [1..<Suc m + 1]" by simp
  finally show ?case .
qed (simp add: list_update_id)

lemma lcs_dp_rows:
  fixes b :: utext
  assumes "n \<le> length a"
  defines "T \<equiv> \<lambda>i. lcs_table (take i a) b"
  shows "foldl (\<lambda>dp i. foldl (lcs_cell a b i) dp [0..<length b]) (replicate (length a + 1) (replicate (length b + 1) 0)) [0..<n]
    = map T [0..<n + 1] @ replicate (length a - n) (replicate (length b + 1) 0)"
  using assms(1)
proof (induction n)
  case 0
  have "replicate (length a + 1) x = [x] @ replicate (length a) x" for x :: "nat list" by simp
  then show ?case by (simp add: T_def lcs_table_def)
next
  case (Suc n)
  let ?z = "replicate (length b + 1) 0" and ?dp = "map T [0..<n + 1] @ replicate (length a - n) (replicate (length b + 1) (0 :: nat))"
  have r: "replicate (length a - n) ?z = ?z # replicate (length a - Suc n) ?z"
    using Suc.prems by (metis Suc_diff_Suc Suc_le_lessD replicate_Suc)
  have at0: "?dp ! n = T n" "?dp ! (n + 1) = ?z" "n + 1 < length ?dp"
    using Suc.prems by (simp_all add: nth_append r del: upt_Suc)
  have "lcs_table (take (Suc n) a) b = lcs_row (a ! n) b (lcs_table (take n a) b)"
    using Suc.prems by (simp add: take_Suc_conv_app_nth lcs_table_def)
  then have T: "foldl (\<lambda>cur j. cur[j := if a ! n = b ! (j - 1) then T n ! (j - 1) + 1 else max (T n ! j) (cur ! (j - 1))]) ?z
      [1..<length b + 1] = T (Suc n)"
    unfolding T_def lcs_row_def by (rule sym)
  have "foldl (lcs_cell a b n) ?dp [0..<length b] = ?dp[n + 1 := T (Suc n)]"
  proof -
    have "length (?dp ! (n + 1)) = length b + 1" unfolding at0(2) by simp
    from lcs_cells_row [OF at0(3) this order_refl, of a] show ?thesis unfolding at0(1,2) T .
  qed
  also have "\<dots> = map T [0..<Suc n + 1] @ replicate (length a - Suc n) ?z"
  proof -
    have l: "length (map T [0..<n + 1]) = n + 1" by simp
    have "?dp[n + 1 := T (Suc n)] = map T [0..<n + 1] @ T (Suc n) # replicate (length a - Suc n) ?z"
      unfolding r using list_update_length [of "map T [0..<n + 1]" ?z] l by metis
    then show ?thesis by simp
  qed
  finally show ?case using Suc by simp
qed

lemma lcs_dp_exact: "is_lcs (lcs_dp a b ! length a ! length b) a b"
proof -
  have "lcs_dp a b ! length a = lcs_table a b"
    using lcs_dp_rows [of "length a" a b] by (simp add: lcs_dp_def nth_append del: upt_Suc)
  moreover have "is_lcs (lcs_table a b ! length b) a (take (length b) b)"
    using lcs_table_ok [of a b] unfolding row_ok_def by (metis less_add_one)
  ultimately show ?thesis by simp
qed

text \<open>Two texts without punctuation share a subsequence of the given share of the longer one.\<close>

definition spoken :: "utext \<Rightarrow> utext" where
  "spoken s = filter (Not \<circ> dropped) s"

definition similar :: "rat \<Rightarrow> utext \<Rightarrow> utext \<Rightarrow> bool" where
  "similar g s t \<longleftrightarrow>
     (\<exists>n. is_lcs n (spoken s) (spoken t) \<and> g * of_nat (max (length (spoken s)) (length (spoken t))) \<le> of_nat n)"

lemma similarity_gate:
  assumes "g \<le> text_similarity s t"
  shows "similar g s t"
proof -
  let ?a = "spoken s" and ?b = "spoken t"
  let ?n = "lcs_dp ?a ?b ! length ?a ! length ?b" and ?m = "max (length ?a) (length ?b)"
  have "g * of_nat ?m \<le> of_nat ?n"
  proof (cases "?a = [] \<or> ?b = []")
    case True
    then consider "?m = 0" | "g \<le> 0" using assms by (auto simp: text_similarity_def spoken_def Let_def split: if_splits)
    then show ?thesis
    proof cases
      case 2
      then have "g * of_nat ?m \<le> 0" by (simp add: mult_nonpos_nonneg)
      then show ?thesis using of_nat_0_le_iff order_trans by blast
    qed simp
  next
    case False
    then have "0 < ?m" by (auto simp: less_max_iff_disj)
    moreover have "g \<le> of_nat ?n / of_nat ?m" using assms False by (simp add: text_similarity_def spoken_def Let_def)
    ultimately show ?thesis by (simp add: pos_le_divide_eq)
  qed
  then show ?thesis unfolding similar_def using lcs_dp_exact by blast
qed

section \<open>Percentiles\<close>

lemma percentile_gate:
  assumes "xs \<noteq> []" and "0 \<le> p" and "p \<le> 100" and "percentile xs p \<le> g"
  shows "nat \<lfloor>of_nat (length xs - 1) * (p / 100)\<rfloor> + 1 \<le> length (filter (\<lambda>x. x \<le> g) xs)"
proof -
  define ys where "ys = sort xs"
  define k where "k = (of_nat (length ys - 1) :: rat) * (p / 100)"
  let ?f = "nat \<lfloor>k\<rfloor>" and ?c = "nat \<lceil>k\<rceil>"
  have n: "ys \<noteq> []" "length ys = length xs" using assms(1) by (simp_all add: ys_def) (metis length_sort length_0_conv)
  have k: "0 \<le> k" "k \<le> of_nat (length ys - 1)"
    using assms(2,3) mult_left_mono [of "p / 100" 1 "of_nat (length ys - 1)"] by (simp_all add: k_def)
  have fk: "of_nat ?f \<le> k" "?f \<le> ?c" using k(1) by (simp_all add: nat_mono floor_le_ceiling)
  have c: "?c < length ys"
  proof -
    have "\<lceil>k\<rceil> \<le> int (length ys - 1)" using k(2) by (simp add: ceiling_le_iff)
    then show ?thesis using n(1) by (cases ys) auto
  qed
  have "ys ! ?f \<le> ys ! ?c" using fk(2) c by (simp add: ys_def sorted_nth_mono)
  then have "0 \<le> (ys ! ?c - ys ! ?f) * (k - of_nat ?f)" using fk(1) by simp
  moreover have "percentile xs p = (if ?f = ?c then ys ! ?f else ys ! ?f + (ys ! ?c - ys ! ?f) * (k - of_nat ?f))"
    using assms(1) unfolding percentile_def Let_def ys_def k_def by presburger
  ultimately have "ys ! ?f \<le> percentile xs p" by (simp del: of_nat_nat)
  then have g: "ys ! ?f \<le> g" using assms(4) by simp
  have "?f < length ys" using fk(2) c by simp
  have "x \<le> g" if "x \<in> set (take (?f + 1) ys)" for x
  proof -
    from that obtain i where "i < ?f + 1" "x = ys ! i" by (auto simp: in_set_conv_nth)
    then have "i \<le> ?f" "x = ys ! i" by simp_all
    then have "x \<le> ys ! ?f" using \<open>?f < length ys\<close> by (simp add: ys_def sorted_nth_mono)
    then show ?thesis using g by simp
  qed
  then have "filter (\<lambda>x. x \<le> g) (take (?f + 1) ys) = take (?f + 1) ys" by (simp add: filter_True)
  then have "?f + 1 \<le> length (filter (\<lambda>x. x \<le> g) (take (?f + 1) ys))" using \<open>?f < length ys\<close> by simp
  also have "\<dots> \<le> length (filter (\<lambda>x. x \<le> g) (take (?f + 1) ys @ drop (?f + 1) ys))" unfolding filter_append by simp
  also have "\<dots> = length (filter (\<lambda>x. x \<le> g) xs)"
  proof -
    have "mset (filter (\<lambda>x. x \<le> g) ys) = mset (filter (\<lambda>x. x \<le> g) xs)" by (simp add: ys_def mset_filter)
    then show ?thesis unfolding append_take_drop_id by (rule mset_eq_length)
  qed
  finally show ?thesis by (simp add: k_def n(2))
qed

section \<open>Scenarios\<close>

definition stream_messages :: "bool \<Rightarrow> 's list \<Rightarrow> nat \<Rightarrow> 's message list" where
  "stream_messages pcm audio n =
     Begin pcm # map (\<lambda>k. Chunk (take ((k + 1) * hop_samples) audio) (k = n_hops audio - 1)) [0..<n]"

lemma take_min_length: "take (min m (length xs)) xs = take m xs"
  by (simp add: min_def)

lemma stream_hops:
  assumes "res_fold (stream_hop w audio) [0..<n] \<lparr>ss_sent = [Begin pcm], ss_rotations = 0, ss_final = None\<rparr> = Inr st"
    and "n \<le> n_hops audio"
  shows "ss_sent st = stream_messages pcm audio n
    \<and> (\<forall>an ms. ss_final st = Some (an, ms) \<longrightarrow> n = n_hops audio \<and> 0 < n \<and> w (ss_sent st) = Some (an, ms))"
  using assms
proof (induction n arbitrary: st)
  case 0
  then show ?case by (auto simp: stream_messages_def)
next
  case (Suc n)
  let ?s0 = "\<lparr>ss_sent = [Begin pcm], ss_rotations = 0, ss_final = None\<rparr>"
  have ap: "res_fold f (xs @ [x]) s = res_bind (res_fold f xs s) (f x)" for f :: "nat \<Rightarrow> 'a stream_state \<Rightarrow> stream_error + 'a stream_state" and xs x s
  proof (induction xs arbitrary: s)
    case Nil
    then show ?case by (cases "f x s") auto
  next
    case (Cons y ys)
    then show ?case by (cases "f y s") auto
  qed
  from Suc.prems(1) obtain s1 where s1: "res_fold (stream_hop w audio) [0..<n] ?s0 = Inr s1" "stream_hop w audio n s1 = Inr st"
    by (auto simp: ap)
  have ih: "ss_sent s1 = stream_messages pcm audio n" "\<And>an ms. ss_final s1 = Some (an, ms) \<Longrightarrow> n = n_hops audio"
    using Suc.IH [OF s1(1)] Suc.prems(2) by auto
  then have none: "ss_final s1 = None" using Suc.prems(2) by (cases "ss_final s1") auto
  let ?c = "Chunk (take ((n + 1) * hop_samples) audio) (n = n_hops audio - 1)"
  from s1(2) obtain an ms where w: "w (ss_sent s1 @ [?c]) = Some (an, ms)"
    unfolding stream_hop_def send_recv_def Let_def take_min_length by (cases "w (ss_sent s1 @ [?c])") auto
  have a: "ss_sent st = ss_sent s1 @ [?c]"
    "ss_final st = (if an_event an = Some ''segment_rotation'' \<or> n \<noteq> n_hops audio - 1 then None else Some (an, ms))"
    using s1(2) none w unfolding stream_hop_def send_recv_def Let_def take_min_length by (auto split: if_splits)
  have "ss_sent st = stream_messages pcm audio (Suc n)" using a(1) ih(1) by (simp add: stream_messages_def)
  moreover have "Suc n = n_hops audio \<and> 0 < Suc n \<and> w (ss_sent st) = Some (an', ms')" if "ss_final st = Some (an', ms')" for an' ms'
    using that a w Suc.prems(2) by (auto split: if_splits)
  ultimately show ?case by blast
qed

text \<open>A streaming scenario that returns has sent the beginning and then every prefix of the audio in
  steps of one hop, the last one being all of it and the only one that is marked; the text and the
  latency it reports are those of the answer to that last message.
\<close>

theorem scenario_stream_sound:
  assumes "scenario_stream w pcm audio = Inr r"
  shows "\<exists>an ms sent. sent = Begin pcm # map (\<lambda>k. Chunk (take ((k + 1) * hop_samples) audio) (k = n_hops audio - 1)) [0..<n_hops audio]
    \<and> last sent = Chunk audio True \<and> w sent = Some (an, ms)
    \<and> sr_text r = strip_language_prefix (an_text an) \<and> sr_latency r = ms \<and> audio \<noteq> []"
proof -
  from assms obtain st an ms where st: "run_hops w pcm audio = Inr st" "ss_final st = Some (an, ms)"
    "sr_text r = strip_language_prefix (an_text an)" "sr_latency r = ms"
    by (auto simp: scenario_stream_def split: option.splits)
  then have "res_fold (stream_hop w audio) [0..<n_hops audio] \<lparr>ss_sent = [Begin pcm], ss_rotations = 0, ss_final = None\<rparr> = Inr st"
    by (auto simp: run_hops_def send_recv_def split: option.splits if_splits)
  note H = stream_hops [OF this order_refl]
  have n: "0 < n_hops audio" "w (stream_messages pcm audio (n_hops audio)) = Some (an, ms)" using H st(2) by auto
  have "length audio \<le> n_hops audio * hop_samples"
    using dividend_less_times_div [of hop_samples "length audio + hop_samples - 1"]
    by (simp add: n_hops_def hop_samples_def)
  then have t: "take (n_hops audio * hop_samples) audio = audio" by simp
  obtain k where k: "n_hops audio = Suc k" using n(1) by (cases "n_hops audio") auto
  have "last (stream_messages pcm audio (n_hops audio)) = Chunk (take (Suc k * hop_samples) audio) True"
    unfolding stream_messages_def k by simp
  then have "last (stream_messages pcm audio (n_hops audio)) = Chunk audio True" unfolding t [unfolded k] .
  moreover have "audio \<noteq> []" using n(1) by (auto simp: n_hops_def hop_samples_def)
  ultimately show ?thesis using n(2) st(3,4) unfolding stream_messages_def by blast
qed

section \<open>Gates\<close>

lemma latency_loop_length: "latency_loop pool audio r n = Inr xs \<Longrightarrow> length xs = n"
  by (induction pool audio r n arbitrary: xs rule: latency_loop.induct) auto

text \<open>What a passing prompt guarantees.\<close>

definition prompt_passes :: "sargs \<Rightarrow> prompt_result \<Rightarrow> bool" where
  "prompt_passes args res \<longleftrightarrow>
     a_ok res \<and> similar (lcs_gate args) (sr_text (b_result res)) (a_text res)
     \<and> length (latencies res) = nat (max 1 (latency_runs args))
     \<and> nat \<lfloor>of_nat (length (latencies res) - 1) * (50 / 100 :: rat)\<rfloor> + 1 \<le> length (filter (\<lambda>x. x \<le> median_gate_ms args) (latencies res))
     \<and> nat \<lfloor>of_nat (length (latencies res) - 1) * (95 / 100 :: rat)\<rfloor> + 1 \<le> length (filter (\<lambda>x. x \<le> p95_gate_ms args) (latencies res))
     \<and> (case f_result res of
          None \<Rightarrow> \<not> (mel_settings args \<and> mel_filters args)
        | Some (f, lcs) \<Rightarrow> mel_settings args \<and> mel_filters args \<and> similar (lcs_gate args) (sr_text f) (a_text res))"

lemma run_one_passes:
  assumes "run_one args pool samples = Inr res" and "list_all snd (prompt_gates args res)"
  shows "prompt_passes args res"
proof -
  let ?audio = "take (SAMPLE_RATE * 5) samples"
  from assms(1) obtain ok base b f more where r:
    "scenario_stream (pool 1) False ?audio = Inr b"
    "(if mel_settings args \<and> mel_filters args
      then res_bind (scenario_stream (pool 2) True ?audio) (\<lambda>f. Inr (Some (f, text_similarity (sr_text f) base))) else Inr None) = Inr f"
    "latency_loop pool ?audio 3 (nat (latency_runs args - 1)) = Inr more"
    "res = \<lparr>a_ok = ok, a_text = base, b_result = b, b_lcs = text_similarity (sr_text b) base, f_result = f, latencies = sr_latency b # more\<rparr>"
    by (auto simp: run_one_def Let_def)
  have g: "ok" "lcs_gate args \<le> text_similarity (sr_text b) base" "percentile (latencies res) 50 \<le> median_gate_ms args"
    "percentile (latencies res) 95 \<le> p95_gate_ms args" "\<And>x l. f = Some (x, l) \<Longrightarrow> lcs_gate args \<le> l"
    using assms(2) r(4) by (auto simp: prompt_gates_def split: option.splits)
  have len: "length (latencies res) = nat (max 1 (latency_runs args))" "latencies res \<noteq> []"
    using latency_loop_length [OF r(3)] r(4) by auto
  have "f_result res = f" "a_text res = base" "a_ok res = ok" "b_result res = b" using r(4) by simp_all
  moreover have "case f of None \<Rightarrow> \<not> (mel_settings args \<and> mel_filters args)
      | Some (x, l) \<Rightarrow> mel_settings args \<and> mel_filters args \<and> similar (lcs_gate args) (sr_text x) base"
    using r(2) g(5) by (cases f) (auto split: if_splits intro!: similarity_gate)
  moreover have "nat \<lfloor>of_nat (length (latencies res) - 1) * (50 / 100 :: rat)\<rfloor> + 1 \<le> length (filter (\<lambda>x. x \<le> median_gate_ms args) (latencies res))"
    by (rule percentile_gate [OF len(2) _ _ g(3)]) simp_all
  moreover have "nat \<lfloor>of_nat (length (latencies res) - 1) * (95 / 100 :: rat)\<rfloor> + 1 \<le> length (filter (\<lambda>x. x \<le> p95_gate_ms args) (latencies res))"
    by (rule percentile_gate [OF len(2) _ _ g(4)]) simp_all
  ultimately show ?thesis
    unfolding prompt_passes_def using g(1) similarity_gate [OF g(2)] len(1) by metis
qed

lemma run_prompts_each:
  assumes "run_prompts args read_audio pools prompts = Inr per"
  shows "map fst per = map fst prompts \<and> (\<forall>pid res. (pid, res) \<in> set per \<longrightarrow> (\<exists>samples. run_one args (pools pid) samples = Inr res))"
  using assms
proof (induction prompts arbitrary: per)
  case (Cons p prompts)
  obtain pid wav gt where p: "p = (pid, wav, gt)" by (cases p)
  from Cons.prems obtain samples res rest where r: "run_one args (pools pid) samples = Inr res"
    "run_prompts args read_audio pools prompts = Inr rest" "per = (pid, res) # rest"
    by (auto simp: p split: option.splits)
  then show ?case using Cons.IH [OF r(2)] p by auto
qed simp

text \<open>
  C19: exit status 0 means that at least one prompt was run, that for every prompt the one-shot
  answer was complete and the streamed text shares the required part of a longest common
  subsequence with it, that at least half of the measured runs are within the median gate and 95 in
  100 of their gaps within the other, and that the same holds of the second streaming path when,
  and only when, both of its files were given.
\<close>

theorem stream_gate_sound:
  assumes "stream_main args read_audio pools prompts_json specs = Inr (0, per_prompt)"
  shows "per_prompt \<noteq> [] \<and> (\<forall>(pid, res)\<in>set per_prompt. prompt_passes args res)"
proof -
  from assms obtain prompts where p: "prompts \<noteq> []" "run_prompts args read_audio pools prompts = Inr per_prompt"
    "snd (evaluate_gates args per_prompt)"
    by (auto simp: stream_main_def split: option.splits if_splits)
  note R = run_prompts_each [OF p(2)]
  have "prompt_passes args res" if in_per: "(pid, res) \<in> set per_prompt" for pid res
  proof -
    obtain samples where "run_one args (pools pid) samples = Inr res"
      using R [THEN conjunct2, rule_format, OF in_per] by (elim exE)
    moreover have "list_all snd (prompt_gates args res)"
    proof -
      have "list_all (\<lambda>(pid, g). list_all snd g) (map (\<lambda>(pid, res). (pid, prompt_gates args res)) per_prompt)"
        using p(3) by (simp add: evaluate_gates_def Let_def)
      then show ?thesis using in_per unfolding list_all_iff by fastforce
    qed
    ultimately show ?thesis by (rule run_one_passes)
  qed
  moreover have "per_prompt \<noteq> []" using R p(1) by auto
  ultimately show ?thesis by auto
qed

text \<open>A worker that hears the same word each time, at two paces.\<close>

definition eg_worker :: "rat \<Rightarrow> nat worker" where
  "eg_worker ms sent =
     (case rev sent of
        [] \<Rightarrow> Some (\<lparr>an_event = Some ''ready'', an_ok = True, an_output = Some [], an_text = []\<rparr>, 0)
      | OneShot _ _ # _ \<Rightarrow> Some (\<lparr>an_event = Some ''done'', an_ok = True, an_output = Some (points ''language English one''), an_text = []\<rparr>, 9)
      | Begin _ # _ \<Rightarrow> Some (\<lparr>an_event = Some ''begin_ack'', an_ok = True, an_output = Some [], an_text = []\<rparr>, 1)
      | Chunk _ is_last # _ \<Rightarrow>
          Some (\<lparr>an_event = Some (if is_last then ''final'' else ''partial''), an_ok = True, an_output = Some [], an_text = points ''one.''\<rparr>, ms))"

definition eg_sargs :: sargs where
  "eg_sargs = \<lparr>mel_settings = True, mel_filters = True, max_gen = 200, latency_runs = 3, lcs_gate = 95 / 100,
     median_gate_ms = 500, p95_gate_ms = 1000\<rparr>"

definition eg_pools :: "string \<Rightarrow> nat \<Rightarrow> nat worker" where
  "eg_pools pid n = eg_worker (if n = 3 then 700 else 200)"

lemma eg_scenario_run:
  "scenario_stream (eg_worker ms) pcm [4, 2, 3] = Inr \<lparr>sr_text = points ''one.'', sr_latency = ms, sr_hops = 1, sr_rotations = 0\<rparr>"
proof -
  have "strip_language_prefix (points ''one.'') = points ''one.''" by code_simp
  then show ?thesis
    by (simp add: scenario_stream_def run_hops_def start_worker_def send_recv_def eg_worker_def n_hops_def hop_samples_def stream_hop_def)
qed

lemma eg_oneshot_run: "scenario_a_oneshot (eg_worker ms) audio n = Inr (True, points ''one'')"
proof -
  have "strip_language_prefix (points ''language English one'') = points ''one''" by code_simp
  then show ?thesis by (simp add: scenario_a_oneshot_def start_worker_def send_recv_def eg_worker_def)
qed

definition eg_result :: prompt_result where
  "eg_result =
     (let r = \<lparr>sr_text = points ''one.'', sr_latency = 200, sr_hops = 1, sr_rotations = 0\<rparr> in
      \<lparr>a_ok = True, a_text = points ''one'', b_result = r, b_lcs = 1, f_result = Some (r, 1), latencies = [200, 700, 200]\<rparr>)"

lemma eg_stream_run:
  "stream_main eg_sargs (\<lambda>wav. Some [4, 2, 3]) eg_pools [] [''p=a.wav|one''] = Inr (0, [(''p'', eg_result)])"
proof -
  have p: "points ''one.'' = [111, 110, 101, 46]" "points ''one'' = [111, 110, 101]" by (simp_all add: points_def)
  have "lcs_dp [111, 110, 101] [111, 110, 101] ! 3 ! 3 = 3" by code_simp
  then have t: "text_similarity (points ''one.'') (points ''one'') = 1"
    unfolding p by (simp add: text_similarity_def dropped_def Let_def numeral_3_eq_3)
  have a: "take (SAMPLE_RATE * 5) [4, 2, 3 :: nat] = [4, 2, 3]" by (simp add: SAMPLE_RATE_def)
  have "nat (latency_runs eg_sargs - 1) = Suc (Suc 0)" by (simp add: eg_sargs_def)
  then have "run_one eg_sargs (eg_pools ''p'') [4, 2, 3] = Inr eg_result"
    unfolding run_one_def Let_def a eg_pools_def
    by (simp add: eg_oneshot_run eg_scenario_run t eg_result_def Let_def) (simp add: eg_sargs_def)
  moreover have "list_all snd (prompt_gates eg_sargs eg_result)" by code_simp
  moreover have "add_specs [''p=a.wav|one''] [] = Inr (Some [(''p'', ''a.wav'', ''one'')])" by code_simp
  ultimately show ?thesis by (simp add: stream_main_def evaluate_gates_def)
qed

theorem stream_gate_sound_witness:
  "stream_main eg_sargs (\<lambda>wav. Some [4, 2, 3]) eg_pools [] [''p=a.wav|one''] = Inr (0, [(''p'', eg_result)])
     \<and> prompt_passes eg_sargs eg_result \<and> latencies eg_result = [200, 700, 200]"
  using stream_gate_sound [OF eg_stream_run] eg_stream_run by (simp add: eg_result_def Let_def)

theorem scenario_stream_sound_witness:
  "\<exists>an. eg_worker 200 [Begin False, Chunk [4, 2, 3] True] = Some (an, 200) \<and> strip_language_prefix (an_text an) = points ''one.''"
proof -
  have n: "n_hops [4, 2, 3 :: nat] = 1" by (simp add: n_hops_def hop_samples_def)
  have t: "take hop_samples [4, 2, 3 :: nat] = [4, 2, 3]" by (simp add: hop_samples_def)
  from scenario_stream_sound [OF eg_scenario_run [of 200 False]] show ?thesis unfolding n by (auto simp: t)
qed

end
