(* ===== verification/Seq_Match.thy ===== *)
theory Seq_Match
  imports Speech_Text
begin

text \<open>
  What the round-trip script uses of Python's \<^verbatim>\<open>difflib.SequenceMatcher\<close> with no junk function: the
  index of the second sequence without its popular elements, the longest match by rows, and the
  sum of the matching blocks.
\<close>

section \<open>Definitions\<close>

text \<open>\<^verbatim>\<open>b2j\<close>: positions in ascending order; \<^verbatim>\<open>autojunk\<close> drops an element of a long sequence that
  occurs in more than one place in a hundred, and one more.\<close>

definition positions :: "'a list \<Rightarrow> 'a \<Rightarrow> nat list" where
  "positions b x = filter (\<lambda>j. b ! j = x) [0..<length b]"

definition popular :: "'a list \<Rightarrow> 'a \<Rightarrow> bool" where
  "popular b x \<longleftrightarrow> 200 \<le> length b \<and> length b div 100 + 1 < length (positions b x)"

definition b2j :: "'a list \<Rightarrow> 'a \<Rightarrow> nat list" where
  "b2j b x = (if popular b x then [] else positions b x)"

type_synonym best = "nat \<times> nat \<times> nat"

text \<open>One position of \<^verbatim>\<open>b\<close>: the run that ends there, and the best match.\<close>

definition match_cell :: "nat \<Rightarrow> (nat \<Rightarrow> nat) \<Rightarrow> nat \<Rightarrow> (nat \<Rightarrow> nat) \<times> best \<Rightarrow> (nat \<Rightarrow> nat) \<times> best" where
  "match_cell i j2len j = (\<lambda>(newj2len, (besti, bestj, bestsize)).
     let k = (if j = 0 then 0 else j2len (j - 1)) + 1 in
     (newj2len(j := k), if bestsize < k then (i + 1 - k, j + 1 - k, k) else (besti, bestj, bestsize)))"

definition match_row :: "'a list \<Rightarrow> 'a list \<Rightarrow> nat \<Rightarrow> nat \<Rightarrow> (nat \<Rightarrow> nat) \<times> best \<Rightarrow> nat \<Rightarrow> (nat \<Rightarrow> nat) \<times> best" where
  "match_row a b blo bhi = (\<lambda>(j2len, best) i.
     fold (match_cell i j2len) (filter (\<lambda>j. blo \<le> j \<and> j < bhi) (b2j b (a ! i))) (\<lambda>j. 0, best))"

fun extend_left :: "'a list \<Rightarrow> 'a list \<Rightarrow> nat \<Rightarrow> nat \<Rightarrow> nat \<Rightarrow> nat \<Rightarrow> nat \<Rightarrow> best" where
  "extend_left a b alo blo (Suc i) (Suc j) k =
     (if alo \<le> i \<and> blo \<le> j \<and> a ! i = b ! j then extend_left a b alo blo i j (k + 1) else (Suc i, Suc j, k))"
| "extend_left a b alo blo i j k = (i, j, k)"

function extend_right :: "'a list \<Rightarrow> 'a list \<Rightarrow> nat \<Rightarrow> nat \<Rightarrow> best \<Rightarrow> best" where
  "extend_right a b ahi bhi (i, j, k) =
     (if i + k < ahi \<and> j + k < bhi \<and> a ! (i + k) = b ! (j + k) then extend_right a b ahi bhi (i, j, k + 1) else (i, j, k))"
  by pat_completeness auto
termination by (relation "measure (\<lambda>(a, b, ahi, bhi, (i, j, k)). ahi - (i + k))") auto

definition find_longest_match :: "'a list \<Rightarrow> 'a list \<Rightarrow> nat \<Rightarrow> nat \<Rightarrow> nat \<Rightarrow> nat \<Rightarrow> best" where
  "find_longest_match a b alo ahi blo bhi =
     (let (i, j, k) = snd (foldl (match_row a b blo bhi) (\<lambda>j. 0, (alo, blo, 0)) [alo..<ahi])
      in extend_right a b ahi bhi (extend_left a b alo blo i j k))"

section \<open>Bounds\<close>

text \<open>A block lies in its ranges and holds equal elements.\<close>

definition match_ok :: "'a list \<Rightarrow> 'a list \<Rightarrow> nat \<Rightarrow> nat \<Rightarrow> nat \<Rightarrow> nat \<Rightarrow> best \<Rightarrow> bool" where
  "match_ok a b alo ahi blo bhi = (\<lambda>(i, j, k).
     alo \<le> i \<and> i + k \<le> ahi \<and> blo \<le> j \<and> j + k \<le> bhi \<and> (\<forall>t<k. a ! (i + t) = b ! (j + t)))"

lemma positions_set: "j \<in> set (positions b x) \<longleftrightarrow> j < length b \<and> b ! j = x"
  by (auto simp: positions_def)

lemma b2j_equal: "j \<in> set (b2j b x) \<Longrightarrow> b ! j = x"
  by (auto simp: b2j_def positions_set split: if_splits)

text \<open>The runs of a row: what ends at a position of the first sequence.\<close>

definition runs_ok :: "'a list \<Rightarrow> 'a list \<Rightarrow> nat \<Rightarrow> nat \<Rightarrow> nat \<Rightarrow> nat \<Rightarrow> (nat \<Rightarrow> nat) \<Rightarrow> bool" where
  "runs_ok a b alo i blo bhi j2len \<longleftrightarrow>
     (\<forall>j. 0 < j2len j \<longrightarrow> j < bhi \<and> j2len j \<le> i - alo \<and> blo + j2len j \<le> j + 1 \<and> (\<forall>t<j2len j. a ! (i - 1 - t) = b ! (j - t)))"

lemma run_block:
  assumes "0 < k" and "k \<le> i + 1 - alo" and "alo \<le> i" and "i < ahi" and "blo + k \<le> j + 1" and "j < bhi"
    and "\<forall>t<k. a ! (i - t) = b ! (j - t)"
  shows "match_ok a b alo ahi blo bhi (i + 1 - k, j + 1 - k, k)"
proof -
  have "a ! (i + 1 - k + t) = b ! (j + 1 - k + t)" if "t < k" for t
  proof -
    have "i + 1 - k + t = i - (k - 1 - t)" "j + 1 - k + t = j - (k - 1 - t)" "k - 1 - t < k" using that assms(2,3,5) by auto
    then show ?thesis using assms(7) by metis
  qed
  then show ?thesis using assms by (auto simp: match_ok_def)
qed

lemma match_cells_ok:
  assumes "runs_ok a b alo i blo bhi j2len" and "alo \<le> i" and "i < ahi"
    and "\<forall>j\<in>set js. blo \<le> j \<and> j < bhi \<and> b ! j = a ! i"
    and "runs_ok a b alo (i + 1) blo bhi new" and "match_ok a b alo ahi blo bhi best"
  shows "(\<lambda>(new', best'). runs_ok a b alo (i + 1) blo bhi new' \<and> match_ok a b alo ahi blo bhi best') (fold (match_cell i j2len) js (new, best))"
  using assms(4-6)
proof (induction js arbitrary: new best)
  case (Cons j js)
  obtain bi bj bs where best: "best = (bi, bj, bs)" by (cases best)
  define r where "r = (if j = 0 then 0 else j2len (j - 1))"
  have j: "blo \<le> j" "j < bhi" "b ! j = a ! i" using Cons.prems(1) by simp_all
  have run: "r \<le> i - alo" "blo + (r + 1) \<le> j + 1" "\<forall>t<r + 1. a ! (i - t) = b ! (j - t)"
  proof -
    have k: "0 < r \<Longrightarrow> 0 < j \<and> 0 < j2len (j - 1) \<and> r = j2len (j - 1)" by (auto simp: r_def split: if_splits)
    have R: "0 < r \<Longrightarrow> r \<le> i - alo \<and> blo + r \<le> j \<and> (\<forall>t<r. a ! (i - 1 - t) = b ! (j - 1 - t))"
      using k assms(1) unfolding runs_ok_def by (metis Suc_eq_plus1 Suc_pred')
    show "r \<le> i - alo" "blo + (r + 1) \<le> j + 1" using R j(1) by (cases "r = 0"; simp)+
    show "\<forall>t<r + 1. a ! (i - t) = b ! (j - t)"
    proof (intro allI impI)
      fix t
      assume t: "t < r + 1"
      show "a ! (i - t) = b ! (j - t)"
      proof (cases t)
        case 0
        then show ?thesis using j(3) by simp
      next
        case (Suc u)
        then show ?thesis using R t by simp
      qed
    qed
  qed
  have new': "runs_ok a b alo (i + 1) blo bhi (new(j := r + 1))"
    using Cons.prems(2) run j(2) assms(2) by (auto simp: runs_ok_def)
  have best': "match_ok a b alo ahi blo bhi (if bs < r + 1 then (i + 1 - (r + 1), j + 1 - (r + 1), r + 1) else best)"
    using run_block [of "r + 1" i alo ahi blo j bhi a b] run assms(2,3) j(2) Cons.prems(3) by (auto simp: Suc_diff_le)
  have step: "fold (match_cell i j2len) (j # js) (new, best) = fold (match_cell i j2len) js
      (new(j := r + 1), if bs < r + 1 then (i + 1 - (r + 1), j + 1 - (r + 1), r + 1) else best)"
    by (simp add: match_cell_def r_def Let_def best)
  show ?case unfolding step by (rule Cons.IH [OF _ new' best']) (use Cons.prems(1) in simp)
qed simp

lemma match_rows_ok:
  assumes "n \<le> ahi" and "blo \<le> bhi" and "alo \<le> ahi" and "alo \<le> n"
  shows "(\<lambda>(j2len, best). runs_ok a b alo n blo bhi j2len \<and> match_ok a b alo ahi blo bhi best)
    (foldl (match_row a b blo bhi) (\<lambda>j. 0, (alo, blo, 0)) [alo..<n])"
  using assms
proof (induction n)
  case (Suc n)
  show ?case
  proof (cases "alo = Suc n")
    case True
    then show ?thesis using Suc.prems by (simp add: runs_ok_def match_ok_def)
  next
    case False
    then have n: "alo \<le> n" "n < ahi" using Suc.prems by simp_all
    let ?s = "foldl (match_row a b blo bhi) (\<lambda>j. 0, (alo, blo, 0)) [alo..<n]"
    obtain j2len best where s: "?s = (j2len, best)" by (cases ?s)
    have ih: "runs_ok a b alo n blo bhi j2len" "match_ok a b alo ahi blo bhi best" using Suc.IH n Suc.prems s by auto
    have "\<forall>j\<in>set (filter (\<lambda>j. blo \<le> j \<and> j < bhi) (b2j b (a ! n))). blo \<le> j \<and> j < bhi \<and> b ! j = a ! n"
      using b2j_equal by fastforce
    from match_cells_ok [OF ih(1) n this _ ih(2), of "\<lambda>j. 0"] show ?thesis
      using n(1) s by (simp add: match_row_def runs_ok_def)
  qed
qed (simp add: runs_ok_def match_ok_def)

lemma extend_left_ok:
  assumes "match_ok a b alo ahi blo bhi (i, j, k)"
  shows "match_ok a b alo ahi blo bhi (extend_left a b alo blo i j k) \<and> k \<le> snd (snd (extend_left a b alo blo i j k))"
  using assms
proof (induction a b alo blo i j k rule: extend_left.induct)
  case (1 a b alo blo i j k)
  show ?case
  proof (cases "alo \<le> i \<and> blo \<le> j \<and> a ! i = b ! j")
    case True
    have "a ! (i + t) = b ! (j + t)" if "t < k + 1" for t
    proof (cases t)
      case (Suc u)
      then have "a ! (Suc i + u) = b ! (Suc j + u)" using "1.prems" that by (auto simp: match_ok_def)
      then show ?thesis by (simp add: Suc)
    qed (use True in simp)
    then have "match_ok a b alo ahi blo bhi (i, j, k + 1)" using "1.prems" True by (auto simp: match_ok_def)
    then show ?thesis using "1.IH" [OF True] True by auto
  qed (use "1.prems" in auto)
qed auto

lemma extend_right_ok:
  assumes "match_ok a b alo ahi blo bhi p"
  shows "match_ok a b alo ahi blo bhi (extend_right a b ahi bhi p) \<and> snd (snd p) \<le> snd (snd (extend_right a b ahi bhi p))"
  using assms
proof (induction a b ahi bhi p rule: extend_right.induct)
  case (1 a b ahi bhi i j k)
  show ?case
  proof (cases "i + k < ahi \<and> j + k < bhi \<and> a ! (i + k) = b ! (j + k)")
    case True
    then have "match_ok a b alo ahi blo bhi (i, j, k + 1)" using "1.prems" by (auto simp: match_ok_def less_Suc_eq)
    then show ?thesis using "1.IH" [OF True] True by (auto simp: extend_right.simps [of a b ahi bhi i j k])
  qed (use "1.prems" in auto)
qed

lemma find_longest_match_ok:
  assumes "alo \<le> ahi" and "blo \<le> bhi"
  shows "match_ok a b alo ahi blo bhi (find_longest_match a b alo ahi blo bhi)"
proof -
  let ?s = "foldl (match_row a b blo bhi) (\<lambda>j. 0, (alo, blo, 0)) [alo..<ahi]"
  obtain j2len i j k where s: "?s = (j2len, i, j, k)" by (cases ?s) auto
  have "match_ok a b alo ahi blo bhi (i, j, k)"
    using match_rows_ok [of ahi ahi blo bhi alo a b] assms s by simp
  then have "match_ok a b alo ahi blo bhi (extend_left a b alo blo i j k)" using extend_left_ok by blast
  then show ?thesis using extend_right_ok s by (simp add: find_longest_match_def) blast
qed

section \<open>Matching blocks\<close>

text \<open>
  \<^verbatim>\<open>get_matching_blocks\<close> before adjacent blocks are joined, which does not change the sum of their
  sizes: the longest match splits both ranges.
\<close>

function matching_blocks :: "'a list \<Rightarrow> 'a list \<Rightarrow> nat \<Rightarrow> nat \<Rightarrow> nat \<Rightarrow> nat \<Rightarrow> best list" where
  "matching_blocks a b alo ahi blo bhi =
     (if ahi < alo \<or> bhi < blo then []
      else case find_longest_match a b alo ahi blo bhi of (i, j, k) \<Rightarrow>
        if k = 0 then []
        else (if alo < i \<and> blo < j then matching_blocks a b alo i blo j else [])
          @ [(i, j, k)]
          @ (if i + k < ahi \<and> j + k < bhi then matching_blocks a b (i + k) ahi (j + k) bhi else []))"
  by pat_completeness auto

termination
proof (relation "measure (\<lambda>(a, b, alo, ahi, blo, bhi). ahi - alo)", goal_cases)
  case (2 a b alo ahi blo bhi i p j k)
  then have "find_longest_match a b alo ahi blo bhi = (i, j, k)" by metis
  then have "match_ok a b alo ahi blo bhi (i, j, k)" using find_longest_match_ok [of alo ahi blo bhi a b] 2 by simp
  then have "alo \<le> i" "i + k \<le> ahi" by (simp_all add: match_ok_def)
  moreover have "0 < k" "alo < i" using 2 by simp_all
  ultimately show ?case by simp
next
  case (3 a b alo ahi blo bhi i p j k)
  then have "find_longest_match a b alo ahi blo bhi = (i, j, k)" by metis
  then have "match_ok a b alo ahi blo bhi (i, j, k)" using find_longest_match_ok [of alo ahi blo bhi a b] 3 by simp
  then have "alo \<le> i" "i + k \<le> ahi" by (simp_all add: match_ok_def)
  moreover have "0 < k" "i + k < ahi" using 3 by simp_all
  ultimately show ?case by simp
qed simp

declare matching_blocks.simps [simp del]

definition seq_ratio :: "'a list \<Rightarrow> 'a list \<Rightarrow> rat" where
  "seq_ratio a b =
     (if a = [] \<and> b = [] then 1
      else of_nat (2 * sum_list (map (\<lambda>(i, j, k). k) (matching_blocks a b 0 (length a) 0 (length b)))) / of_nat (length a + length b))"

text \<open>The blocks are a common subsequence.\<close>

abbreviation range_of :: "'a list \<Rightarrow> nat \<Rightarrow> nat \<Rightarrow> 'a list" where
  "range_of xs lo hi \<equiv> drop lo (take hi xs)"

lemma range_split:
  assumes "lo \<le> mid" and "mid \<le> hi"
  shows "range_of xs lo hi = range_of xs lo mid @ range_of xs mid hi"
proof -
  have "take hi xs = take mid xs @ range_of xs mid hi"
    using assms(2) append_take_drop_id [of mid "take hi xs"] by (simp add: min_absorb1)
  then have "range_of xs lo hi = drop lo (take mid xs @ range_of xs mid hi)" by metis
  also have "\<dots> = range_of xs lo mid @ drop (lo - length (take mid xs)) (range_of xs mid hi)" by simp
  also have "drop (lo - length (take mid xs)) (range_of xs mid hi) = range_of xs mid hi"
    using assms(1) by (cases "mid \<le> length xs") (auto simp: min_def)
  finally show ?thesis .
qed

lemma blocks_common:
  assumes "ahi \<le> length a" and "bhi \<le> length b"
  shows "\<exists>zs. length zs = sum_list (map (\<lambda>(i, j, k). k) (matching_blocks a b alo ahi blo bhi))
    \<and> subseq zs (range_of a alo ahi) \<and> subseq zs (range_of b blo bhi)"
  using assms
proof (induction a b alo ahi blo bhi rule: matching_blocks.induct)
  case (1 a b alo ahi blo bhi)
  show ?case
  proof (cases "ahi < alo \<or> bhi < blo \<or> snd (snd (find_longest_match a b alo ahi blo bhi)) = 0")
    case True
    then have "matching_blocks a b alo ahi blo bhi = []"
      by (auto simp: matching_blocks.simps [of a b alo ahi blo bhi] split: prod.splits)
    then show ?thesis by auto
  next
    case False
    obtain i j k where m: "find_longest_match a b alo ahi blo bhi = (i, j, k)" by (cases "find_longest_match a b alo ahi blo bhi")
    have ok: "alo \<le> i" "i + k \<le> ahi" "blo \<le> j" "j + k \<le> bhi" "\<And>t. t < k \<Longrightarrow> a ! (i + t) = b ! (j + t)" "0 < k"
      using find_longest_match_ok [of alo ahi blo bhi a b] False m by (auto simp: match_ok_def)
    have eq: "range_of a i (i + k) = range_of b j (j + k)"
      using ok "1.prems" by (intro nth_equalityI) auto
    let ?l = "if alo < i \<and> blo < j then matching_blocks a b alo i blo j else []"
    let ?r = "if i + k < ahi \<and> j + k < bhi then matching_blocks a b (i + k) ahi (j + k) bhi else []"
    have blocks: "matching_blocks a b alo ahi blo bhi = ?l @ [(i, j, k)] @ ?r"
      using False m ok(6) by (simp add: matching_blocks.simps [of a b alo ahi blo bhi])
    have "\<exists>zs. length zs = sum_list (map (\<lambda>(i, j, k). k) ?l) \<and> subseq zs (range_of a alo i) \<and> subseq zs (range_of b blo j)"
      using "1.IH"(1) [OF _ m [symmetric] refl] False ok "1.prems" by auto
    then obtain ls where l: "length ls = sum_list (map (\<lambda>(i, j, k). k) ?l)" "subseq ls (range_of a alo i)" "subseq ls (range_of b blo j)" by blast
    have "\<exists>zs. length zs = sum_list (map (\<lambda>(i, j, k). k) ?r) \<and> subseq zs (range_of a (i + k) ahi) \<and> subseq zs (range_of b (j + k) bhi)"
      using "1.IH"(2) [OF _ m [symmetric] refl] False ok "1.prems" by auto
    then obtain rs where r: "length rs = sum_list (map (\<lambda>(i, j, k). k) ?r)" "subseq rs (range_of a (i + k) ahi)" "subseq rs (range_of b (j + k) bhi)" by blast
    let ?zs = "ls @ range_of a i (i + k) @ rs"
    have "subseq ?zs (range_of a alo i @ range_of a i (i + k) @ range_of a (i + k) ahi)"
      using l(2) r(2) by (intro list_emb_append_mono) auto
    then have A: "subseq ?zs (range_of a alo ahi)"
      using range_split [of alo i ahi a] range_split [of i "i + k" ahi a] ok by simp
    have "subseq ?zs (range_of b blo j @ range_of b j (j + k) @ range_of b (j + k) bhi)"
      unfolding eq using l(3) r(3) by (intro list_emb_append_mono) auto
    then have B: "subseq ?zs (range_of b blo bhi)"
      using range_split [of blo j bhi b] range_split [of j "j + k" bhi b] ok by simp
    have "length ?zs = sum_list (map (\<lambda>(i, j, k). k) (?l @ [(i, j, k)] @ ?r))"
      using l(1) r(1) ok "1.prems" by (simp del: if_splits)
    then show ?thesis unfolding blocks using A B by blast
  qed
qed

lemma seq_ratio_lcs:
  assumes "is_lcs n a b"
  shows "seq_ratio a b * of_nat (length a + length b) \<le> 2 * of_nat n"
proof (cases "a = [] \<and> b = []")
  case False
  let ?s = "sum_list (map (\<lambda>(i, j, k). k) (matching_blocks a b 0 (length a) 0 (length b)))"
  obtain zs where z: "length zs = ?s" "subseq zs a" "subseq zs b"
    using blocks_common [of "length a" a "length b" b 0 0] by auto
  then have "?s \<le> n" using assms unfolding is_lcs_def common_def by metis
  then have "(of_nat (2 * ?s) :: rat) \<le> 2 * of_nat n" by simp
  moreover have "(of_nat (length a + length b) :: rat) \<noteq> 0" using False by (auto simp del: of_nat_add)
  then have "seq_ratio a b * of_nat (length a + length b) = of_nat (2 * ?s)"
    unfolding seq_ratio_def if_not_P [OF False] by simp
  ultimately show ?thesis by simp
qed simp

section \<open>Equal sequences\<close>

lemma match_cells_grow: "snd (snd (snd p)) \<le> snd (snd (snd (fold (match_cell i j2len) js p)))"
proof (induction js arbitrary: p)
  case (Cons x js)
  obtain new bi bj bs where p: "p = (new, bi, bj, bs)" by (cases p) auto
  have "bs \<le> snd (snd (snd (match_cell i j2len x p)))" by (simp add: match_cell_def p Let_def)
  then show ?case using Cons.IH [of "match_cell i j2len x p"] p by simp
qed simp

lemma match_cells_other: "j \<notin> set js \<Longrightarrow> fst (fold (match_cell i j2len) js p) j = fst p j"
proof (induction js arbitrary: p)
  case (Cons x js)
  obtain new bi bj bs where p: "p = (new, bi, bj, bs)" by (cases p) auto
  have "fst (match_cell i j2len x p) j = fst p j" using Cons.prems by (simp add: match_cell_def p Let_def)
  then show ?case using Cons by simp
qed simp

lemma match_cells_run:
  assumes "j \<in> set js" and "distinct js"
  shows "fst (fold (match_cell i j2len) js p) j = (if j = 0 then 0 else j2len (j - 1)) + 1
    \<and> (if j = 0 then 0 else j2len (j - 1)) + 1 \<le> snd (snd (snd (fold (match_cell i j2len) js p)))"
  using assms
proof (induction js arbitrary: p)
  case (Cons x js)
  show ?case
  proof (cases "x = j")
    case True
    obtain new bi bj bs where p: "p = (new, bi, bj, bs)" by (cases p) auto
    let ?q = "match_cell i j2len x p"
    have "fst ?q j = (if j = 0 then 0 else j2len (j - 1)) + 1" "(if j = 0 then 0 else j2len (j - 1)) + 1 \<le> snd (snd (snd ?q))"
      using True by (auto simp: match_cell_def p Let_def)
    then show ?thesis
      using match_cells_grow [of ?q i j2len js] match_cells_other [of j js i j2len ?q] Cons.prems True by auto
  next
    case False
    then show ?thesis using Cons.IH [of "match_cell i j2len x p"] Cons.prems by simp
  qed
qed simp

lemma match_rows_diagonal:
  assumes "0 < n" and "n \<le> length a" and "length a < 200"
  shows "(\<lambda>(j2len, best). j2len (n - 1) = n \<and> n \<le> snd (snd best))
    (foldl (match_row a a 0 (length a)) (\<lambda>j. 0, (0, 0, 0)) [0..<n])"
  using assms(1,2)
proof (induction n)
  case (Suc n)
  let ?s = "foldl (match_row a a 0 (length a)) (\<lambda>j. 0, (0, 0, 0)) [0..<n]"
  obtain j2len best where s: "?s = (j2len, best)" by (cases ?s)
  have r: "(if n = 0 then 0 else j2len (n - 1)) = n" using Suc s by (cases "n = 0") auto
  let ?js = "filter (\<lambda>j. 0 \<le> j \<and> j < length a) (b2j a (a ! n))"
  have "n \<in> set ?js" "distinct ?js"
    using Suc.prems assms(3) by (auto simp: b2j_def popular_def positions_def)
  from match_cells_run [OF this, of n j2len "(\<lambda>j. 0, best)"] show ?case
    unfolding r using s by (simp add: match_row_def case_prod_unfold)
qed simp

lemma seq_ratio_self:
  assumes "length a < 200"
  shows "seq_ratio a a = 1"
proof (cases "a = []")
  case False
  let ?n = "length a"
  let ?s = "foldl (match_row a a 0 ?n) (\<lambda>j. 0, (0, 0, 0)) [0..<?n]"
  obtain j2len i j k where s: "?s = (j2len, i, j, k)" by (cases ?s) auto
  have "?n \<le> k" using match_rows_diagonal [of ?n a] False assms s by simp
  moreover have "match_ok a a 0 ?n 0 ?n (i, j, k)" using match_rows_ok [of ?n ?n 0 ?n 0 a a] s by simp
  ultimately have ijk: "i = 0" "j = 0" "k = ?n" by (auto simp: match_ok_def)
  have "find_longest_match a a 0 ?n 0 ?n = (0, 0, ?n)"
    using s ijk by (simp add: find_longest_match_def)
  then have "matching_blocks a a 0 ?n 0 ?n = [(0, 0, ?n)]"
    using False by (simp add: matching_blocks.simps [of a a 0 ?n 0 ?n])
  then show ?thesis using False by (simp add: seq_ratio_def)
qed (simp add: seq_ratio_def)

text \<open>In a long text whose every element is popular, nothing but a common beginning is found.\<close>

lemma seq_ratio_popular:
  assumes "\<And>x. x \<in> set a \<Longrightarrow> b2j b x = []" and "a \<noteq> []" and "b \<noteq> []" and "hd a \<noteq> hd b"
  shows "seq_ratio a b = 0"
proof -
  have row: "match_row a b 0 (length b) (f, best) i = (\<lambda>j. 0, best)" if "i < length a" for f best i
    using that assms(1) by (simp add: match_row_def)
  have "foldl (match_row a b 0 (length b)) (\<lambda>j. 0, (0, 0, 0)) [0..<n] = (\<lambda>j. 0, (0, 0, 0))" if "n \<le> length a" for n
    using that by (induction n) (simp_all add: row)
  from this [of "length a"] have "find_longest_match a b 0 (length a) 0 (length b) = (0, 0, 0)"
    using assms(2-4) by (simp add: find_longest_match_def hd_conv_nth)
  then have "matching_blocks a b 0 (length a) 0 (length b) = []" by (simp add: matching_blocks.simps [of a b 0 "length a" 0 "length b"])
  then show ?thesis using assms(2) by (simp add: seq_ratio_def)
qed

end
