(* ===== verification/Asr_Roundtrip.thy ===== *)
theory Asr_Roundtrip
  imports Seq_Match Wav_File Py_Text
begin

text \<open>
  The in-process round trip \<^verbatim>\<open>scripts/verify_qwen3_tts_asr_roundtrip.py\<close> and its copy in
  \<^verbatim>\<open>models/qwen3\<close>: synthesize every case with the product backend, transcribe the file in the
  Paraformer container or with the product recogniser, and compare the normalised texts.  The
  backends, \<^verbatim>\<open>docker\<close>, the decoding of the container's answer and the Unicode tables are
  parameters.
\<close>

section \<open>Comparison\<close>

record rt_env =
  lower_table :: "nat \<Rightarrow> nat list"
  alnum :: "nat \<Rightarrow> bool"
  tts_backend :: "utext \<Rightarrow> int \<Rightarrow> vexc + bytes"
  docker_cp :: "bytes \<Rightarrow> vexc + unit"
  docker_exec :: "bytes \<Rightarrow> vexc + string"
  answer_text :: "string \<Rightarrow> vexc + utext"
  product_asr :: "bytes \<Rightarrow> vexc + utext"

text \<open>\<^verbatim>\<open>re.sub(r"[\s\W_]+", "", text.lower())\<close> keeps the alphanumeric characters.\<close>

definition norm_text :: "rt_env \<Rightarrow> utext \<Rightarrow> utext" where
  "norm_text env text = filter (alnum env) (u_lower (lower_table env) text)"

definition rt_similarity :: "rt_env \<Rightarrow> utext \<Rightarrow> utext \<Rightarrow> rat" where
  "rt_similarity env expected actual =
     (let e = norm_text env expected; a = norm_text env actual in if e = [] \<and> a = [] then 1 else seq_ratio e a)"

section \<open>Cases\<close>

text \<open>\<open>Some None\<close> is a length that \<^verbatim>\<open>int\<close> rejects.\<close>

record rt_case =
  rc_name :: "utext option"
  rc_text :: "utext option"
  rc_max :: "int option option"

definition DEFAULT_CASES :: "(string \<times> utext \<times> int) list" where
  "DEFAULT_CASES =
     [(''short_cn'', [35821, 38899, 21512, 25104, 30340, 31283, 23450, 24615, 12290], 100),
      (''tail_cn'', [20170, 22825, 22825, 27668, 24456, 22909, 65292, 25105, 20204, 19968, 36215, 27979, 35797, 35821,
        38899, 21512, 25104, 12290], 120),
      (''long_cn'', [35821, 38899, 21512, 25104, 30340, 31283, 23450, 24615, 38656, 35201, 22312, 38271, 21477, 12289,
        30701, 21477, 20197, 21450, 20013, 33521, 25991, 26631, 28857, 20043, 38388, 20445, 25345, 33258,
        28982, 28165, 26224, 12290, 20170, 22825, 25105, 20204, 32487, 32493, 39564, 35777, 23448, 26041,
        21518, 21488, 30340, 38899, 36136, 26159, 21542, 24050, 32463, 25509, 36817, 20135, 21697, 20391,
        21442, 32771, 12290], 180),
      (''mixed_zh_en'', [81, 119, 101, 110, 32, 116, 104, 114, 101, 101, 32, 84, 84, 83, 65292, 29616, 22312, 21548, 36215,
        26469, 28165, 26224, 21527, 65311, 22914, 26524, 26377, 32, 69, 110, 103, 108, 105, 115, 104, 32,
        119, 111, 114, 100, 115, 65292, 20063, 24212, 35813, 20445, 25345, 31283, 23450, 33258, 28982,
        12290], 160)]"

definition builtin_case :: "string \<times> utext \<times> int \<Rightarrow> rt_case" where
  "builtin_case = (\<lambda>(name, text, n). \<lparr>rc_name = Some (map of_char name), rc_text = Some text, rc_max = Some (Some n)\<rparr>)"

text \<open>The file's content when a path is given: an error, no list, or the cases.\<close>

definition load_rt_cases :: "(vexc + rt_case list option) option \<Rightarrow> vexc + rt_case list" where
  "load_rt_cases file =
     (case file of
        None \<Rightarrow> Inr (map builtin_case DEFAULT_CASES)
      | Some r \<Rightarrow> res_bind r (\<lambda>c. case c of None \<Rightarrow> Inl ValueErr | Some cases \<Rightarrow> Inr cases))"

definition rt_synthesize :: "rt_env \<Rightarrow> utext \<Rightarrow> int \<Rightarrow> vexc + bytes \<times> wav_info" where
  "rt_synthesize env text max_audio_length =
     res_bind (tts_backend env text max_audio_length) (\<lambda>wav. res_bind (wav_open wav) (\<lambda>info. Inr (wav, info)))"

definition asr_container :: "rt_env \<Rightarrow> bytes \<Rightarrow> vexc + utext" where
  "asr_container env wav =
     res_bind (docker_cp env wav) (\<lambda>_.
     res_bind (docker_exec env wav) (\<lambda>out.
       let ls = splitlines (strip out) in if ls = [] then Inl OtherErr else answer_text env (last ls)))"

definition transcribe :: "rt_env \<Rightarrow> bool \<Rightarrow> bytes \<Rightarrow> vexc + utext" where
  "transcribe env container wav = (if container then asr_container env wav else product_asr env wav)"

record rt_report =
  rp_name :: utext
  rp_expected :: utext
  rp_max :: int
  rp_actual :: "utext option"
  rp_similarity :: "rat option"
  rp_pass :: bool
  rp_error :: "vexc option"

text \<open>What is outside the \<^verbatim>\<open>try\<close> of a case ends the program.\<close>

definition rt_fields :: "rt_case \<Rightarrow> vexc + utext \<times> utext \<times> int" where
  "rt_fields c =
     (case rc_name c of None \<Rightarrow> Inl KeyErr
      | Some name \<Rightarrow> (case rc_text c of None \<Rightarrow> Inl KeyErr
          | Some text \<Rightarrow> (case rc_max c of None \<Rightarrow> Inr (name, text, 120)
              | Some None \<Rightarrow> Inl ValueErr
              | Some (Some n) \<Rightarrow> Inr (name, text, n))))"

definition rt_run_case :: "rt_env \<Rightarrow> bool \<Rightarrow> rat \<Rightarrow> rt_case \<Rightarrow> vexc + rt_report" where
  "rt_run_case env container min_similarity c =
     res_bind (rt_fields c) (\<lambda>(name, text, n).
       Inr (case res_bind (rt_synthesize env text n) (\<lambda>(wav, info). transcribe env container wav) of
              Inl err \<Rightarrow> \<lparr>rp_name = name, rp_expected = text, rp_max = n, rp_actual = None, rp_similarity = None,
                          rp_pass = False, rp_error = Some err\<rparr>
            | Inr actual \<Rightarrow>
                let sim = rt_similarity env text actual in
                \<lparr>rp_name = name, rp_expected = text, rp_max = n, rp_actual = Some actual, rp_similarity = Some sim,
                 rp_pass = (min_similarity \<le> sim), rp_error = None\<rparr>))"

fun rt_run_cases :: "rt_env \<Rightarrow> bool \<Rightarrow> rat \<Rightarrow> rt_case list \<Rightarrow> vexc + rt_report list" where
  "rt_run_cases env container m [] = Inr []"
| "rt_run_cases env container m (c # cs) =
     res_bind (rt_run_case env container m c) (\<lambda>r. res_bind (rt_run_cases env container m cs) (\<lambda>rs. Inr (r # rs)))"

text \<open>The exit status and the report.\<close>

definition rt_main :: "rt_env \<Rightarrow> bool \<Rightarrow> rat \<Rightarrow> (vexc + rt_case list option) option \<Rightarrow> vexc + nat \<times> rt_report list" where
  "rt_main env container min_similarity file =
     res_bind (load_rt_cases file) (\<lambda>cases.
     res_bind (rt_run_cases env container min_similarity cases) (\<lambda>reports.
       Inr (if list_all rp_pass reports then 0 else 2, reports)))"

text \<open>The copy in \<^verbatim>\<open>models/qwen3\<close> knows only the container.\<close>

definition qwen3_rt_main :: "rt_env \<Rightarrow> rat \<Rightarrow> (vexc + rt_case list option) option \<Rightarrow> vexc + nat \<times> rt_report list" where
  "qwen3_rt_main env min_similarity file = rt_main env True min_similarity file"

section \<open>Properties\<close>

lemma rt_run_cases_each:
  "rt_run_cases env container m cs = Inr rs \<Longrightarrow> list_all2 (\<lambda>c r. rt_run_case env container m c = Inr r) cs rs"
  by (induction cs arbitrary: rs) auto

lemma lcs_exists: "\<exists>n. is_lcs n (a :: utext) b"
  by (rule exI, rule lcs_table_last)

lemma rt_similarity_lcs:
  assumes "m \<le> rt_similarity env x y"
  shows "\<exists>n. is_lcs n (norm_text env x) (norm_text env y)
    \<and> m * of_nat (length (norm_text env x) + length (norm_text env y)) \<le> 2 * of_nat n"
proof -
  let ?e = "norm_text env x" and ?a = "norm_text env y"
  obtain n where n: "is_lcs n ?e ?a" using lcs_exists by blast
  have "m * of_nat (length ?e + length ?a) \<le> 2 * of_nat n"
  proof (cases "?e = [] \<and> ?a = []")
    case False
    then have "m \<le> seq_ratio ?e ?a" using assms unfolding rt_similarity_def Let_def by (simp only: if_False)
    then have "m * of_nat (length ?e + length ?a) \<le> seq_ratio ?e ?a * of_nat (length ?e + length ?a)"
      by (rule mult_right_mono) simp
    then show ?thesis using seq_ratio_lcs [OF n] by linarith
  qed simp
  then show ?thesis using n by blast
qed

text \<open>
  C20: exit status 0 means that every case of the file was synthesized as a readable WAV file and
  transcribed, and that the longest common subsequence of the two normalised texts is at least the
  required share of their mean length.
\<close>

theorem rt_pass_sound:
  assumes "rt_main env container m file = Inr (0, reports)" and "load_rt_cases file = Inr cases"
  shows "list_all2 (\<lambda>c r. \<exists>text n wav info actual k. rc_text c = Some text \<and> rp_max r = n
      \<and> tts_backend env text n = Inr wav \<and> wav_open wav = Inr info \<and> transcribe env container wav = Inr actual
      \<and> rp_actual r = Some actual \<and> is_lcs k (norm_text env text) (norm_text env actual)
      \<and> m * of_nat (length (norm_text env text) + length (norm_text env actual)) \<le> 2 * of_nat k) cases reports"
proof -
  have r: "rt_run_cases env container m cases = Inr reports" "list_all rp_pass reports"
    using assms by (auto simp: rt_main_def split: if_splits)
  have one: "\<exists>text n wav info actual k. rc_text c = Some text \<and> rp_max r = n
      \<and> tts_backend env text n = Inr wav \<and> wav_open wav = Inr info \<and> transcribe env container wav = Inr actual
      \<and> rp_actual r = Some actual \<and> is_lcs k (norm_text env text) (norm_text env actual)
      \<and> m * of_nat (length (norm_text env text) + length (norm_text env actual)) \<le> 2 * of_nat k"
    if run: "rt_run_case env container m c = Inr r" "rp_pass r" for c r
  proof -
    obtain name s n where f: "rt_fields c = Inr (name, s, n)" using run(1) by (auto simp: rt_run_case_def)
    let ?res = "res_bind (rt_synthesize env s n) (\<lambda>(wav, info). transcribe env container wav)"
    obtain actual where "?res = Inr actual" using run f by (cases ?res) (auto simp: rt_run_case_def)
    moreover from this have "rp_max r = n" "rp_actual r = Some actual" "m \<le> rt_similarity env s actual"
      using run f by (auto simp: rt_run_case_def Let_def)
    ultimately obtain wav info where x: "rt_fields c = Inr (name, s, n)" "rt_synthesize env s n = Inr (wav, info)"
      "transcribe env container wav = Inr actual" "rp_max r = n" "rp_actual r = Some actual" "m \<le> rt_similarity env s actual"
      using f by (auto simp: case_prod_unfold)
    then have "rc_text c = Some s" "tts_backend env s n = Inr wav" "wav_open wav = Inr info"
      by (auto simp: rt_fields_def rt_synthesize_def split: option.splits)
    then show ?thesis using x rt_similarity_lcs [OF x(6)] by blast
  qed
  have "list_all2 (\<lambda>c r. rt_run_case env container m c = Inr r \<and> rp_pass r) cases reports"
    using rt_run_cases_each [OF r(1)] r(2) by (auto simp: list_all2_conv_all_nth list_all_length)
  then show ?thesis by (rule list_all2_mono) (use one in blast)
qed

text \<open>
  The similarity of a text with itself is 1 when fewer than 200 of its characters are compared.
\<close>

theorem rt_similarity_self:
  assumes "length (norm_text env text) < 200"
  shows "rt_similarity env text text = 1"
  using seq_ratio_self [OF assms] by (simp add: rt_similarity_def Let_def)

text \<open>
  With 200 characters and more, the matcher ignores frequent characters, and a transcript that
  only misses the first one of such a text has the similarity 0, although all the others are a
  common subsequence.
\<close>

theorem rt_similarity_long:
  assumes "200 \<le> n" and "alnum env 97" and "alnum env 98"
  shows "rt_similarity env (98 # replicate n 97) (replicate n 97) = 0
    \<and> is_lcs n (norm_text env (98 # replicate n 97)) (norm_text env (replicate n 97))"
proof -
  have rep: "concat (replicate k [97]) = replicate k 97" "filter (alnum env) (replicate k 97) = replicate k 97" for k
    using assms(2) by (induction k) auto
  have t: "norm_text env (98 # replicate n 97) = 98 # replicate n 97" "norm_text env (replicate n 97) = replicate n 97"
    using assms(3) by (simp_all add: norm_text_def u_lower_def map_replicate rep)
  have p: "positions (replicate n (97 :: nat)) x = (if x = 97 then [0..<n] else [])" for x
    by (auto simp: positions_def filter_empty_conv intro!: filter_True)
  have "b2j (replicate n (97 :: nat)) x = []" for x using assms(1) by (simp add: b2j_def popular_def p)
  then have "seq_ratio (98 # replicate n (97 :: nat)) (replicate n 97) = 0"
    using assms(1) by (intro seq_ratio_popular) (auto simp: hd_replicate)
  moreover have "is_lcs n (98 # replicate n (97 :: nat)) (replicate n 97)"
    unfolding is_lcs_def common_def by (auto dest: list_emb_length intro!: exI [of _ "replicate n 97"])
  ultimately show ?thesis by (simp add: rt_similarity_def t)
qed

section \<open>Examples\<close>

text \<open>A backend that writes the text as samples and a recogniser that reads them back.\<close>

definition eg_rt_env :: rt_env where
  "eg_rt_env =
     \<lparr>lower_table = (\<lambda>c. [c]), alnum = (\<lambda>c. 97 \<le> c \<and> c \<le> 122),
      tts_backend = (\<lambda>s n. Inr (wav_header 1 1 8 (length s) @ s)), docker_cp = (\<lambda>w. Inl OtherErr), docker_exec = (\<lambda>w. Inl OtherErr),
      answer_text = (\<lambda>s. Inl OtherErr), product_asr = (\<lambda>w. Inr (drop 44 w))\<rparr>"

definition eg_rt_case :: rt_case where
  "eg_rt_case = \<lparr>rc_name = Some [], rc_text = Some [97, 98, 46], rc_max = None\<rparr>"

lemma eg_rt_run:
  "rt_main eg_rt_env False (3 / 4) (Some (Inr (Some [eg_rt_case]))) = Inr (0, [\<lparr>rp_name = [], rp_expected = [97, 98, 46], rp_max = 120,
     rp_actual = Some [97, 98, 46], rp_similarity = Some 1, rp_pass = True, rp_error = None\<rparr>])"
proof -
  have f: "rt_fields eg_rt_case = Inr ([], [97, 98, 46], 120)" by (simp add: rt_fields_def eg_rt_case_def)
  have w: "tts_backend eg_rt_env [97, 98, 46] 120 = Inr (wav_header 1 1 8 (length [97, 98, 46 :: nat]) @ [97, 98, 46])"
    by (simp add: eg_rt_env_def)
  have t: "norm_text eg_rt_env [97, 98, 46] = [97, 98]" by (simp add: norm_text_def u_lower_def eg_rt_env_def)
  have "rt_similarity eg_rt_env [97, 98, 46] [97, 98, 46] = 1"
    using seq_ratio_self [of "[97, 98 :: nat]"] by (simp add: rt_similarity_def t)
  moreover have "product_asr eg_rt_env v = Inr (drop 44 v)" for v by (simp add: eg_rt_env_def)
  ultimately show ?thesis
    using w wav_open_written [of 1 8 1 "[97, 98, 46]"]
    by (simp add: rt_main_def load_rt_cases_def rt_run_case_def f rt_synthesize_def transcribe_def drop_field [OF length_wav_header])
qed

theorem rt_pass_sound_witness:
  "\<exists>k. is_lcs k (norm_text eg_rt_env [97, 98, 46]) (norm_text eg_rt_env [97, 98, 46]) \<and> 3 / 4 * (4 :: rat) \<le> 2 * of_nat k"
proof -
  have t: "norm_text eg_rt_env [97, 98, 46] = [97, 98]" by (simp add: norm_text_def u_lower_def eg_rt_env_def)
  have l: "load_rt_cases (Some (Inr (Some [eg_rt_case]))) = Inr [eg_rt_case]" by (simp add: load_rt_cases_def)
  from rt_pass_sound [OF eg_rt_run l] show ?thesis by (auto simp: eg_rt_case_def t)
qed

theorem rt_similarity_self_witness: "rt_similarity eg_rt_env [97, 98, 46] [97, 98, 46] = 1"
  by (rule rt_similarity_self) (simp add: norm_text_def u_lower_def eg_rt_env_def)

theorem rt_similarity_long_witness: "rt_similarity eg_rt_env (98 # replicate 200 97) (replicate 200 97) = 0"
  using rt_similarity_long [of 200 eg_rt_env] by (simp add: eg_rt_env_def)

end
