(* ===== verification/Cuda_Buffers.thy ===== *)
theory Cuda_Buffers
  imports Wav_File "HOL-Library.AList"
begin

text \<open>
  Device buffers of the INT8 calibrators: \<^verbatim>\<open>CudaMem\<close> and \<^verbatim>\<open>CtypesCalibrator\<close> of
  \<^verbatim>\<open>models/qwen3/build_talker_int8_engine.py\<close> and their counterparts in
  \<^verbatim>\<open>scripts/build_qwen3_asr_thinker_mlp_int8.py\<close>.  Device memory is a map from addresses to bytes
  with the blocks that are allocated; the CUDA runtime, which both reach by \<^verbatim>\<open>ctypes\<close> without any
  checks, is a parameter.
\<close>

section \<open>Memory\<close>

record device =
  live :: "(nat \<times> nat) list"
  cell :: "nat \<Rightarrow> nat"

text \<open>\<^verbatim>\<open>cudaMalloc\<close> gives an error code or an address, \<^verbatim>\<open>cudaMemcpy\<close> a status.\<close>

record cuda =
  cudaMalloc :: "(nat \<times> nat) list \<Rightarrow> nat \<Rightarrow> nat + nat"
  cudaMemcpy :: "device \<Rightarrow> nat \<Rightarrow> nat \<Rightarrow> nat"

datatype calib_error =
    MallocFailed nat nat
  | MemcpyFailed nat
  | NoTensor string
  | NoBuffer string
  | BadBatchId
  | BatchMissing int string
  | NoBatchesFound
  | NegativeDim string
  | PositionRank
  | UnsupportedDtype string

text \<open>A contiguous host array.\<close>

record harray =
  ha_shape :: "int list"
  ha_bytes :: bytes

definition write_cells :: "nat \<Rightarrow> bytes \<Rightarrow> device \<Rightarrow> device" where
  "write_cells p bs d = d\<lparr>cell := (\<lambda>a. if p \<le> a \<and> a < p + length bs then bs ! (a - p) else cell d a)\<rparr>"

definition alloc_block :: "cuda \<Rightarrow> nat \<Rightarrow> device \<Rightarrow> calib_error + nat \<times> device" where
  "alloc_block c n d =
     (case cudaMalloc c (live d) n of
        Inl err \<Rightarrow> Inl (MallocFailed n err)
      | Inr p \<Rightarrow> Inr (p, d\<lparr>live := live d @ [(p, n)]\<rparr>))"

text \<open>\<^verbatim>\<open>CudaMem.alloc\<close> and \<^verbatim>\<open>copy_to_device\<close>.\<close>

definition cuda_alloc :: "cuda \<Rightarrow> nat \<Rightarrow> device \<Rightarrow> calib_error + nat \<times> device" where
  "cuda_alloc c nbytes d = (let n = (nbytes + 255) div 256 * 256 in alloc_block c (if n = 0 then 256 else n) d)"

definition copy_to_device :: "cuda \<Rightarrow> nat \<Rightarrow> harray \<Rightarrow> device \<Rightarrow> calib_error + device" where
  "copy_to_device c dptr arr d =
     (let n = length (ha_bytes arr) in
      if n = 0 then Inr d
      else if cudaMemcpy c d dptr n \<noteq> 0 then Inl (MemcpyFailed (cudaMemcpy c d dptr n))
      else Inr (write_cells dptr (ha_bytes arr) d))"

text \<open>\<^verbatim>\<open>_cuda_malloc\<close> and \<^verbatim>\<open>_cuda_copy_to_device\<close>.\<close>

definition cuda_malloc :: "cuda \<Rightarrow> nat \<Rightarrow> device \<Rightarrow> calib_error + nat \<times> device" where
  "cuda_malloc c nbytes d = alloc_block c (max 256 ((nbytes + 255) div 256 * 256)) d"

definition cuda_copy_to_device :: "cuda \<Rightarrow> nat \<Rightarrow> harray \<Rightarrow> device \<Rightarrow> calib_error + device" where
  "cuda_copy_to_device c dptr arr d =
     (let n = length (ha_bytes arr) in
      if cudaMemcpy c d dptr n \<noteq> 0 then Inl (MemcpyFailed (cudaMemcpy c d dptr n))
      else Inr (write_cells dptr (ha_bytes arr) d))"

definition cuda_free :: "nat \<Rightarrow> device \<Rightarrow> device" where
  "cuda_free ptr d = (if ptr = 0 then d else d\<lparr>live := filter (\<lambda>(p, n). p \<noteq> ptr) (live d)\<rparr>)"

section \<open>Calibrator\<close>

type_synonym batch = "(string \<times> harray) list"

record calibrator =
  host_batches :: "batch list"
  batch_idx :: nat
  device_ptrs :: "(string \<times> nat) list"

definition grow_size :: "string \<times> harray \<Rightarrow> (string \<times> nat) list \<Rightarrow> (string \<times> nat) list" where
  "grow_size = (\<lambda>(name, arr) sizes.
     AList.update name (max (case map_of sizes name of None \<Rightarrow> 0 | Some n \<Rightarrow> n) (length (ha_bytes arr))) sizes)"

definition max_sizes :: "batch list \<Rightarrow> (string \<times> nat) list" where
  "max_sizes batches = fold (fold grow_size) batches []"

definition alloc_buffers ::
  "(nat \<Rightarrow> device \<Rightarrow> calib_error + nat \<times> device) \<Rightarrow> (string \<times> nat) list \<Rightarrow> device
     \<Rightarrow> calib_error + (string \<times> nat) list \<times> device" where
  "alloc_buffers alloc sizes d =
     res_fold (\<lambda>(name, size) (ptrs, d). res_bind (alloc size d) (\<lambda>(p, d'). Inr (AList.update name p ptrs, d'))) sizes ([], d)"

definition stage ::
  "(nat \<Rightarrow> harray \<Rightarrow> device \<Rightarrow> calib_error + device) \<Rightarrow> batch \<Rightarrow> (string \<times> nat) list \<Rightarrow> string
     \<Rightarrow> nat list \<times> device \<Rightarrow> calib_error + nat list \<times> device" where
  "stage copy batch buffers name = (\<lambda>(ptrs, d).
     case map_of batch name of
       None \<Rightarrow> Inl (NoTensor name)
     | Some arr \<Rightarrow>
         (case map_of buffers name of
            None \<Rightarrow> Inl (NoBuffer name)
          | Some p \<Rightarrow> res_bind (copy p arr d) (\<lambda>d'. Inr (ptrs @ [p], d'))))"

text \<open>
  \<^verbatim>\<open>get_batch\<close>: \<open>None\<close> ends the calibration, and so does an exception, which reaches the builder, so
  no state follows it.
\<close>

definition get_batch ::
  "(nat \<Rightarrow> harray \<Rightarrow> device \<Rightarrow> calib_error + device) \<Rightarrow> string list \<Rightarrow> calibrator \<times> device
     \<Rightarrow> calib_error + nat list option \<times> calibrator \<times> device" where
  "get_batch copy names = (\<lambda>(cal, d).
     if length (host_batches cal) \<le> batch_idx cal then Inr (None, cal, d)
     else let batch = host_batches cal ! batch_idx cal;
              cal = cal\<lparr>batch_idx := batch_idx cal + 1\<rparr>
          in res_bind (res_fold (stage copy batch (device_ptrs cal)) names ([], d)) (\<lambda>(ptrs, d').
               Inr (Some ptrs, cal, d')))"

text \<open>What TensorRT does with a calibrator: so many calls in a row.\<close>

fun get_batches ::
  "(nat \<Rightarrow> harray \<Rightarrow> device \<Rightarrow> calib_error + device) \<Rightarrow> string list \<Rightarrow> nat \<Rightarrow> calibrator \<times> device
     \<Rightarrow> calib_error + nat list option list \<times> calibrator \<times> device" where
  "get_batches copy names 0 s = Inr ([], s)"
| "get_batches copy names (Suc n) s =
     res_bind (get_batches copy names n s) (\<lambda>(outs, s').
     res_bind (get_batch copy names s') (\<lambda>(r, s''). Inr (outs @ [r], s'')))"

end
