(* ===== verification/Int8_Engines.thy ===== *)
theory Int8_Engines
  imports Cuda_Buffers Speech_Text Py_Text
begin

text \<open>
  The INT8 engine builders: the talker (\<^verbatim>\<open>models/qwen3/build_talker_int8_engine.py\<close>) and the
  thinker (\<^verbatim>\<open>scripts/build_qwen3_asr_thinker_mlp_int8.py\<close>).  Modelled are the calibration batches,
  the layers whose precision is fixed, the optimization profiles and the order of the build.
  TensorRT (the parsed network, what it refuses, the engine it builds) and NumPy's random generator
  are parameters.
\<close>

section \<open>Network\<close>

datatype trt_dtype = HALF | BF16 | TFLOAT | INT8 | TINT32 | TINT64 | OtherType

datatype layer_type = MATRIX_MULTIPLY | PLUGIN_V2 | OtherLayer

record layer =
  ly_type :: layer_type
  ly_name :: string
  ly_inputs :: "int list list"
  ly_outputs :: "trt_dtype list"

record tensor_input =
  ti_name :: string
  ti_shape :: "int list"
  ti_dtype :: trt_dtype

record network =
  layers :: "layer list"
  inputs :: "tensor_input list"

text \<open>What the builder fixes: the precision of a layer and the type of an output.\<close>

record constraints =
  precision :: "nat \<Rightarrow> trt_dtype option"
  output_type :: "nat \<Rightarrow> nat \<Rightarrow> trt_dtype option"

definition no_constraints :: constraints where
  "no_constraints = \<lparr>precision = (\<lambda>i. None), output_type = (\<lambda>i j. None)\<rparr>"

text \<open>Assignments that raise.\<close>

record refusals =
  no_precision :: "nat \<Rightarrow> trt_dtype \<Rightarrow> bool"
  no_output_type :: "nat \<Rightarrow> nat \<Rightarrow> bool"

type_synonym profile = "(string \<times> int list \<times> int list \<times> int list) list"

section \<open>Random arrays\<close>

text \<open>\<^verbatim>\<open>randint(0, n)\<close>; samples of a scale as elements of some bytes.\<close>

record 'r rng =
  randint :: "'r \<Rightarrow> nat \<Rightarrow> nat \<times> 'r"
  samples :: "'r \<Rightarrow> nat \<Rightarrow> rat \<Rightarrow> int list \<Rightarrow> bytes \<times> 'r"

definition elements :: "int list \<Rightarrow> nat" where
  "elements shape = prod_list (map nat shape)"

definition int64_full :: "nat \<Rightarrow> int list \<Rightarrow> harray" where
  "int64_full v shape = \<lparr>ha_shape = shape, ha_bytes = concat (replicate (elements shape) (le 8 v))\<rparr>"

definition int64_range :: "nat \<Rightarrow> nat \<Rightarrow> harray" where
  "int64_range start n = \<lparr>ha_shape = [1, int n], ha_bytes = concat (map (le 8) [start..<start + n])\<rparr>"

definition int32_full :: "nat \<Rightarrow> int list \<Rightarrow> harray" where
  "int32_full v shape = \<lparr>ha_shape = shape, ha_bytes = concat (replicate (elements shape) (le 4 v))\<rparr>"

section \<open>Talker\<close>

definition MAX_PAST :: nat where "MAX_PAST = 200"
definition MAX_SEQ :: nat where "MAX_SEQ = 200"
definition HIDDEN_DIM :: int where "HIDDEN_DIM = 1024"
definition N_LAYERS :: nat where "N_LAYERS = 28"
definition N_HEADS :: int where "N_HEADS = 8"
definition HEAD_DIM :: int where "HEAD_DIM = 128"

definition is_past :: "string \<Rightarrow> bool" where
  "is_past name \<longleftrightarrow> contains ''past_key'' name \<or> contains ''past_value'' name"

definition resolve :: "nat \<Rightarrow> string \<Rightarrow> int \<Rightarrow> int" where
  "resolve past name d =
     (if d = -1 then
        if is_past name then int past else if contains ''attention_mask'' name then int past + 1 else 1
      else d)"

definition synthetic_array ::
  "'r rng \<Rightarrow> nat \<Rightarrow> string \<times> int list \<Rightarrow> 'r \<Rightarrow> calib_error + harray \<times> 'r" where
  "synthetic_array rng past = (\<lambda>(name, dims) r.
     let resolved = map (resolve past name) dims;
         draw = (\<lambda>scale.
           if \<exists>d\<in>set resolved. d < 0 then Inl (NegativeDim name)
           else let (bs, r') = samples rng r 4 scale resolved in Inr (\<lparr>ha_shape = resolved, ha_bytes = bs\<rparr>, r'))
     in if contains ''attention_mask'' name
        then if \<exists>d\<in>set resolved. d < 0 then Inl (NegativeDim name) else Inr (int64_full 1 resolved, r)
        else if contains ''position_ids'' name
        then if length resolved < 2 then Inl PositionRank
             else if resolved ! 1 < 0 then Inl (NegativeDim name)
             else Inr (int64_range past (nat (resolved ! 1)), r)
        else if is_past name then draw (2 / 100)
        else if contains ''inputs_embeds'' name then draw (5 / 10)
        else draw (1 / 10))"

definition synthetic_batch ::
  "'r rng \<Rightarrow> (string \<times> int list) list \<Rightarrow> 'r \<Rightarrow> calib_error + batch \<times> 'r" where
  "synthetic_batch rng specs r =
     (let (past, r) = randint rng r (MAX_PAST + 1) in
      res_fold (\<lambda>spec (b, r). res_bind (synthetic_array rng past spec r) (\<lambda>(arr, r'). Inr (AList.update (fst spec) arr b, r')))
        specs ([], r))"

definition make_synthetic_batches ::
  "'r rng \<Rightarrow> 'r \<Rightarrow> (string \<times> int list) list \<Rightarrow> nat \<Rightarrow> calib_error + batch list" where
  "make_synthetic_batches rng seed specs n_batches =
     res_bind (res_fold (\<lambda>i (bs, r). res_bind (synthetic_batch rng specs r) (\<lambda>(b, r'). Inr (bs @ [b], r'))) [0..<n_batches]
       ([], seed)) (\<lambda>(bs, r). Inr bs)"

text \<open>Real batches: the number of a key is what follows \<^verbatim>\<open>batch\<close> up to the underscore.\<close>

definition add_batch_id :: "string \<times> harray \<Rightarrow> int list \<Rightarrow> calib_error + int list" where
  "add_batch_id = (\<lambda>(key, arr) ids.
     if prefix ''batch'' key \<and> CHR ''_'' \<in> set key
     then case py_int (drop 5 (before CHR ''_'' key)) of None \<Rightarrow> Inl BadBatchId | Some i \<Rightarrow> Inr (List.insert i ids)
     else Inr ids)"

definition load_real_batch :: "(string \<times> harray) list \<Rightarrow> string list \<Rightarrow> int \<Rightarrow> calib_error + batch" where
  "load_real_batch data required i =
     res_fold (\<lambda>name b.
       case map_of data (''batch'' @ str_int i @ ''_'' @ name) of
         None \<Rightarrow> Inl (BatchMissing i name)
       | Some arr \<Rightarrow> Inr (AList.update name arr b)) required []"

definition load_real_batches :: "(string \<times> harray) list \<Rightarrow> string list \<Rightarrow> calib_error + batch list" where
  "load_real_batches data required =
     res_bind (res_fold add_batch_id data []) (\<lambda>ids.
     res_bind (res_fold (\<lambda>i bs. res_bind (load_real_batch data required i) (\<lambda>b. Inr (bs @ [b]))) (sort ids) []) (\<lambda>bs.
       if bs = [] then Inl NoBatchesFound else Inr bs))"

text \<open>The constructor.\<close>

definition talker_calibrator ::
  "cuda \<Rightarrow> 'r rng \<Rightarrow> 'r \<Rightarrow> (string \<times> int list) list \<Rightarrow> nat \<Rightarrow> (string \<times> harray) list option \<Rightarrow> device
     \<Rightarrow> calib_error + calibrator \<times> device" where
  "talker_calibrator c rng seed specs n_batches calib_data d =
     res_bind (case calib_data of
         Some data \<Rightarrow> load_real_batches data (map fst specs)
       | None \<Rightarrow> make_synthetic_batches rng seed specs n_batches) (\<lambda>bs.
     res_bind (alloc_buffers (cuda_alloc c) (map (\<lambda>(name, sz). (name, max sz 256)) (max_sizes bs)) d) (\<lambda>(ptrs, d').
       Inr (\<lparr>host_batches = bs, batch_idx = 0, device_ptrs = ptrs\<rparr>, d')))"

text \<open>Layers and profiles.\<close>

definition find_attention_matmul_layers :: "network \<Rightarrow> nat list" where
  "find_attention_matmul_layers net =
     map fst (filter (\<lambda>(i, l). ly_type l = MATRIX_MULTIPLY \<and> list_all (\<lambda>s. length s = 4) (ly_inputs l))
       (enumerate 0 (layers net)))"

definition pin_attention :: "refusals \<Rightarrow> nat list \<Rightarrow> constraints \<times> nat \<Rightarrow> constraints \<times> nat" where
  "pin_attention ref idxs s =
     fold (\<lambda>i (con, pinned).
       if no_precision ref i BF16 then (con, pinned)
       else (con\<lparr>precision := (precision con)(i := Some BF16)\<rparr>, pinned + 1)) idxs s"

definition setup_decode_profiles :: profile where
  "setup_decode_profiles =
     [(''inputs_embeds'', [1, 1, HIDDEN_DIM], [1, 1, HIDDEN_DIM], [1, 1, HIDDEN_DIM]),
      (''attention_mask'', [1, 1], [1, int MAX_PAST div 2], [1, int MAX_PAST + 1]),
      (''position_ids'', [1, 1], [1, 1], [1, 1])]
     @ concat (map (\<lambda>i.
         [(''past_key_'' @ str_nat i, [1, N_HEADS, 0, HEAD_DIM], [1, N_HEADS, int MAX_PAST div 2, HEAD_DIM],
           [1, N_HEADS, int MAX_PAST, HEAD_DIM]),
          (''past_value_'' @ str_nat i, [1, N_HEADS, 0, HEAD_DIM], [1, N_HEADS, int MAX_PAST div 2, HEAD_DIM],
           [1, N_HEADS, int MAX_PAST, HEAD_DIM])]) [0..<N_LAYERS])"

definition setup_prefill_profiles :: profile where
  "setup_prefill_profiles =
     [(''inputs_embeds'', [1, 1, HIDDEN_DIM], [1, 60, HIDDEN_DIM], [1, int MAX_SEQ, HIDDEN_DIM]),
      (''attention_mask'', [1, 1], [1, 60], [1, int MAX_SEQ]),
      (''position_ids'', [1, 1], [1, 60], [1, int MAX_SEQ])]"

section \<open>Build\<close>

datatype build_error = ParseFailed | Calibration calib_error | BuildFailed | WrongMlpCount nat | UnhandledInput string

record build_config =
  bc_flags :: "string list"
  bc_constraints :: constraints
  bc_profile :: profile
  bc_calibrator :: calibrator

text \<open>\<open>parsed\<close> is what the ONNX parser makes of the file, \<open>engine\<close> what the builder returns.\<close>

record 'r trt_env =
  te_cuda :: cuda
  te_rng :: "'r rng"
  te_refuses :: refusals
  parsed :: "network option"
  engine :: "network \<Rightarrow> build_config \<Rightarrow> device \<Rightarrow> bytes option"

definition of_calib :: "calib_error + 'a \<Rightarrow> build_error + 'a" where
  "of_calib r = (case r of Inl e \<Rightarrow> Inl (Calibration e) | Inr x \<Rightarrow> Inr x)"

definition CALIB_BATCHES :: nat where "CALIB_BATCHES = 50"

text \<open>The engine file's content, and the configuration it was built with.\<close>

definition build_engine ::
  "'r trt_env \<Rightarrow> 'r \<Rightarrow> profile \<Rightarrow> (string \<times> harray) list option \<Rightarrow> device \<Rightarrow> build_error + bytes \<times> build_config" where
  "build_engine env seed prof calib_data d =
     (case parsed env of
        None \<Rightarrow> Inl ParseFailed
      | Some net \<Rightarrow>
          let (con, pinned) = pin_attention (te_refuses env) (find_attention_matmul_layers net) (no_constraints, 0) in
          res_bind (of_calib (talker_calibrator (te_cuda env) (te_rng env) seed (map (\<lambda>t. (ti_name t, ti_shape t)) (inputs net))
            CALIB_BATCHES calib_data d)) (\<lambda>(cal, d').
            let config = \<lparr>bc_flags = [''INT8'', ''BF16'', ''OBEY_PRECISION_CONSTRAINTS''], bc_constraints = con,
                          bc_profile = prof, bc_calibrator = cal\<rparr> in
            case engine env net config d' of None \<Rightarrow> Inl BuildFailed | Some bs \<Rightarrow> Inr (bs, config)))"

section \<open>Thinker\<close>

definition past_lengths :: "int \<Rightarrow> int list" where
  "past_lengths opt_past = [0, 16, 64, 128, opt_past]"

definition seq_lengths :: "int \<Rightarrow> int list" where
  "seq_lengths opt_input_len = [1, 8, 32, opt_input_len]"

definition thinker_dim :: "int \<Rightarrow> int \<Rightarrow> string \<Rightarrow> int \<Rightarrow> int" where
  "thinker_dim past seq name d =
     (if d \<noteq> -1 then d
      else if name = ''inputs_embeds'' then seq
      else if prefix ''past_key_values_'' name then past
      else if name = ''rope_rotary_cos_sin'' then max 256 (past + seq + 8)
      else 1)"

text \<open>\<^verbatim>\<open>past_len + seq_len\<close> as one \<^verbatim>\<open>int32\<close>.\<close>

definition thinker_array ::
  "'r rng \<Rightarrow> int \<Rightarrow> int \<Rightarrow> tensor_input \<Rightarrow> 'r \<Rightarrow> calib_error + harray \<times> 'r" where
  "thinker_array rng past seq t r =
     (let name = ti_name t; resolved = map (thinker_dim past seq name) (ti_shape t);
          neg = (\<exists>d\<in>set resolved. d < 0);
          draw = (\<lambda>item scale.
            if neg then Inl (NegativeDim name)
            else let (bs, r') = samples rng r item scale resolved in Inr (\<lparr>ha_shape = resolved, ha_bytes = bs\<rparr>, r'))
      in case ti_dtype t of
           HALF \<Rightarrow> draw 2 (if name = ''inputs_embeds'' then 35 / 100 else 2 / 100)
         | TFLOAT \<Rightarrow> draw 4 (if name = ''rope_rotary_cos_sin'' then 5 / 10 else 1 / 10)
         | TINT32 \<Rightarrow>
             if name = ''context_lengths'' then Inr (int32_full (nat (take_bit 32 (past + seq))) [1], r)
             else if name = ''kvcache_start_index'' then Inr (int32_full 0 [1], r)
             else if neg then Inl (NegativeDim name) else Inr (int32_full 0 resolved, r)
         | TINT64 \<Rightarrow> if neg then Inl (NegativeDim name) else Inr (int64_full 0 resolved, r)
         | _ \<Rightarrow> Inl (UnsupportedDtype name))"

definition make_batch ::
  "'r rng \<Rightarrow> tensor_input list \<Rightarrow> int \<Rightarrow> int \<Rightarrow> nat \<Rightarrow> 'r \<Rightarrow> calib_error + batch \<times> 'r" where
  "make_batch rng specs opt_input_len opt_past index r =
     (let past = past_lengths opt_past ! (index mod 5); seq = seq_lengths opt_input_len ! (index mod 4) in
      res_fold (\<lambda>t (b, r). res_bind (thinker_array rng past seq t r) (\<lambda>(arr, r'). Inr (AList.update (ti_name t) arr b, r')))
        specs ([], r))"

definition make_batches ::
  "'r rng \<Rightarrow> 'r \<Rightarrow> tensor_input list \<Rightarrow> nat \<Rightarrow> int \<Rightarrow> int \<Rightarrow> calib_error + batch list" where
  "make_batches rng seed specs batches opt_input_len opt_past =
     res_bind (res_fold (\<lambda>i (bs, r). res_bind (make_batch rng specs opt_input_len opt_past i r) (\<lambda>(b, r'). Inr (bs @ [b], r')))
       [0..<batches] ([], seed)) (\<lambda>(bs, r). Inr bs)"

definition thinker_calibrator ::
  "cuda \<Rightarrow> 'r rng \<Rightarrow> 'r \<Rightarrow> tensor_input list \<Rightarrow> nat \<Rightarrow> int \<Rightarrow> int \<Rightarrow> device \<Rightarrow> calib_error + calibrator \<times> device" where
  "thinker_calibrator c rng seed specs batches opt_input_len opt_past d =
     res_bind (make_batches rng seed specs batches opt_input_len opt_past) (\<lambda>bs.
     res_bind (alloc_buffers (cuda_malloc c) (max_sizes bs) d) (\<lambda>(ptrs, d').
       Inr (\<lparr>host_batches = bs, batch_idx = 0, device_ptrs = ptrs\<rparr>, d')))"

definition is_mlp_matmul :: "layer \<Rightarrow> bool" where
  "is_mlp_matmul l \<longleftrightarrow> ly_type l = MATRIX_MULTIPLY \<and> contains ''/mlp/'' (ly_name l)"

definition set_precision :: "nat \<Rightarrow> trt_dtype \<Rightarrow> constraints \<Rightarrow> constraints" where
  "set_precision i t con = con\<lparr>precision := (precision con)(i := Some t)\<rparr>"

text \<open>Setting output types one after the other; the flag says that none was refused.\<close>

fun set_outputs :: "refusals \<Rightarrow> nat \<Rightarrow> nat list \<Rightarrow> constraints \<Rightarrow> constraints \<times> bool" where
  "set_outputs ref i [] con = (con, True)"
| "set_outputs ref i (j # js) con =
     (if no_output_type ref i j then (con, False)
      else set_outputs ref i js (con\<lparr>output_type := (output_type con)(i := (output_type con i)(j := Some HALF))\<rparr>))"

definition constrain_layer ::
  "refusals \<Rightarrow> nat \<times> layer \<Rightarrow> constraints \<times> nat \<times> nat \<Rightarrow> constraints \<times> nat \<times> nat" where
  "constrain_layer ref = (\<lambda>(i, l) (con, mlp, conservative).
     if is_mlp_matmul l then
       if no_precision ref i INT8 then (con, mlp, conservative)
       else let (con', ok) = set_outputs ref i [0..<length (ly_outputs l)] (set_precision i INT8 con) in
         (con', if ok then mlp + 1 else mlp, conservative)
     else if ly_type l = MATRIX_MULTIPLY then
       if no_precision ref i HALF then (con, mlp, conservative)
       else let (con', ok) = set_outputs ref i (filter (\<lambda>j. ly_outputs l ! j \<in> {TFLOAT, HALF}) [0..<length (ly_outputs l)])
              (set_precision i HALF con) in
         (con', mlp, if ok then conservative + 1 else conservative)
     else if ly_type l = PLUGIN_V2 \<and> contains ''AttentionPlugin'' (ly_name l) then
       if no_precision ref i HALF then (con, mlp, conservative) else (set_precision i HALF con, mlp, conservative + 1)
     else (con, mlp, conservative))"

definition set_precisions :: "refusals \<Rightarrow> network \<Rightarrow> constraints \<times> nat \<times> nat" where
  "set_precisions ref net = fold (constrain_layer ref) (enumerate 0 (layers net)) (no_constraints, 0, 0)"

record thinker_args =
  max_input_len :: int
  max_kv :: int
  opt_input :: int
  opt_kv :: int
  calib_batches :: nat

definition input_shapes :: "thinker_args \<Rightarrow> string \<Rightarrow> (int list \<times> int list \<times> int list) option" where
  "input_shapes args name =
     (if name = ''inputs_embeds'' then Some ([1, 1, HIDDEN_DIM], [1, opt_input args, HIDDEN_DIM], [1, max_input_len args, HIDDEN_DIM])
      else if prefix ''past_key_values_'' name
      then Some ([1, 2, N_HEADS, 0, HEAD_DIM], [1, 2, N_HEADS, opt_kv args, HEAD_DIM], [1, 2, N_HEADS, max_kv args, HEAD_DIM])
      else if name = ''rope_rotary_cos_sin''
      then Some ([1, 1, HEAD_DIM], [1, max_kv args, HEAD_DIM], [1, max_kv args + max_input_len args, HEAD_DIM])
      else if name = ''context_lengths'' then Some ([1], [1], [1])
      else if name = ''last_token_ids'' then Some ([1, 1], [1, 1], [1, 1])
      else if name = ''kvcache_start_index'' then Some ([1], [1], [1])
      else None)"

definition add_profile :: "thinker_args \<Rightarrow> tensor_input list \<Rightarrow> build_error + profile" where
  "add_profile args ts =
     res_fold (\<lambda>t prof.
       case input_shapes args (ti_name t) of
         None \<Rightarrow> Inl (UnhandledInput (ti_name t))
       | Some s \<Rightarrow> Inr (AList.update (ti_name t) s prof)) ts []"

definition thinker_main :: "'r trt_env \<Rightarrow> 'r \<Rightarrow> thinker_args \<Rightarrow> device \<Rightarrow> build_error + bytes \<times> build_config" where
  "thinker_main env seed args d =
     (case parsed env of
        None \<Rightarrow> Inl ParseFailed
      | Some net \<Rightarrow>
          let (con, mlp_int8, conservative) = set_precisions (te_refuses env) net in
          if mlp_int8 \<noteq> 84 then Inl (WrongMlpCount mlp_int8)
          else res_bind (add_profile args (inputs net)) (\<lambda>prof.
            res_bind (of_calib (thinker_calibrator (te_cuda env) (te_rng env) seed (inputs net) (calib_batches args)
              (opt_input args) (opt_kv args) d)) (\<lambda>(cal, d').
              let config = \<lparr>bc_flags = [''INT8'', ''FP16'', ''OBEY_PRECISION_CONSTRAINTS''], bc_constraints = con,
                            bc_profile = prof, bc_calibrator = cal\<rparr> in
              case engine env net config d' of None \<Rightarrow> Inl BuildFailed | Some bs \<Rightarrow> Inr (bs, config))))"

end
