(* ===== verification/Cuda_Buffers_Props.thy ===== *)
theory Cuda_Buffers_Props
  imports Cuda_Buffers
begin

text \<open>
  The buffers of a calibrator are separate blocks, each large enough for every array of its name,
  and a call of \<^verbatim>\<open>get_batch\<close> leaves the arrays of one batch in them.  The two calibrators
  allocate and copy differently; the lemmas are proved once from what both promise.
\<close>

section \<open>Blocks\<close>

definition separate :: "nat \<times> nat \<Rightarrow> nat \<times> nat \<Rightarrow> bool" where
  "separate a b \<longleftrightarrow> fst a + snd a \<le> fst b \<or> fst b + snd b \<le> fst a"

definition inside :: "nat \<Rightarrow> nat \<times> nat \<Rightarrow> bool" where
  "inside a b \<longleftrightarrow> fst b \<le> a \<and> a < fst b + snd b"

definition holds_at :: "device \<Rightarrow> nat \<Rightarrow> bytes \<Rightarrow> bool" where
  "holds_at d p bs \<longleftrightarrow> (\<forall>i<length bs. cell d (p + i) = bs ! i)"

text \<open>The documented law of \<^verbatim>\<open>cudaMalloc\<close>: a new block overlaps no block that is in use.\<close>

definition malloc_fresh :: "cuda \<Rightarrow> bool" where
  "malloc_fresh c \<longleftrightarrow>
     (\<forall>blocks n p. cudaMalloc c blocks n = Inr p \<longrightarrow> (\<forall>b\<in>set blocks. separate (p, n) b))"

text \<open>The documented law of \<^verbatim>\<open>cudaMemcpy\<close>: a copy to the start of a block that is in use and not longer than it succeeds.\<close>

definition memcpy_in_block :: "cuda \<Rightarrow> bool" where
  "memcpy_in_block c \<longleftrightarrow> (\<forall>d p m n. (p, m) \<in> set (live d) \<and> n \<le> m \<longrightarrow> cudaMemcpy c d p n = 0)"

lemma separate_sym: "separate a b \<Longrightarrow> separate b a"
  by (auto simp: separate_def)

lemma separate_inside: "separate a b \<Longrightarrow> inside x a \<Longrightarrow> inside x b \<Longrightarrow> False"
  by (auto simp: separate_def inside_def)

lemma write_holds: "holds_at (write_cells p bs d) p bs"
  by (simp add: holds_at_def write_cells_def)

lemma write_outside: "\<not> inside a (p, length bs) \<Longrightarrow> cell (write_cells p bs d) a = cell d a"
  by (auto simp: write_cells_def inside_def)

lemma write_live: "live (write_cells p bs d) = live d"
  by (simp add: write_cells_def)

lemma holds_frame:
  "holds_at d p bs \<Longrightarrow> (\<And>a. inside a (p, length bs) \<Longrightarrow> cell d' a = cell d a) \<Longrightarrow> holds_at d' p bs"
  by (auto simp: holds_at_def inside_def)

section \<open>Sizes\<close>

definition covered :: "(string \<times> nat) list \<Rightarrow> string \<Rightarrow> nat \<Rightarrow> bool" where
  "covered sizes name k \<longleftrightarrow> (\<exists>n. map_of sizes name = Some n \<and> k \<le> n)"

lemma grow_covers: "covered (grow_size (name, arr) sizes) name (length (ha_bytes arr))"
  by (auto simp: covered_def grow_size_def)

lemma grow_keeps: "covered sizes name k \<Longrightarrow> covered (grow_size x sizes) name k"
  by (cases x) (auto simp: covered_def grow_size_def)

lemma grow_fold_keeps: "covered sizes name k \<Longrightarrow> covered (fold grow_size b sizes) name k"
  by (induction b arbitrary: sizes) (auto intro: grow_keeps)

lemma grow_fold_covers:
  "(name, arr) \<in> set b \<Longrightarrow> covered (fold grow_size b sizes) name (length (ha_bytes arr))"
  by (induction b arbitrary: sizes) (auto intro: grow_fold_keeps grow_covers)

lemma max_sizes_covers:
  assumes "b \<in> set batches" and "(name, arr) \<in> set b"
  shows "covered (max_sizes batches) name (length (ha_bytes arr))"
proof -
  have keep: "covered sizes name k \<Longrightarrow> covered (fold (fold grow_size) bs sizes) name k" for sizes k bs
    by (induction bs arbitrary: sizes) (auto intro: grow_fold_keeps)
  have "b \<in> set bs \<Longrightarrow> covered (fold (fold grow_size) bs sizes) name (length (ha_bytes arr))" for bs sizes
    by (induction bs arbitrary: sizes) (auto intro: keep grow_fold_covers [OF assms(2)])
  then show ?thesis using assms(1) by (simp add: max_sizes_def)
qed

lemma max_sizes_distinct: "distinct (map fst (max_sizes batches))"
proof -
  have one: "distinct (map fst sizes) \<Longrightarrow> distinct (map fst (grow_size x sizes))" for x sizes
    by (cases x) (simp add: grow_size_def distinct_update)
  have "distinct (map fst sizes) \<Longrightarrow> distinct (map fst (fold grow_size b sizes))" for b sizes
    by (induction b arbitrary: sizes) (auto intro: one)
  then have "distinct (map fst sizes) \<Longrightarrow> distinct (map fst (fold (fold grow_size) bs sizes))" for bs sizes
    by (induction bs arbitrary: sizes) auto
  then show ?thesis by (simp add: max_sizes_def)
qed

section \<open>Staging\<close>

text \<open>
  The buffers with their block sizes: each is allocated and holds what was asked for, and the
  blocks of two names are separate.
\<close>

definition buffers_ok :: "(string \<Rightarrow> nat) \<Rightarrow> (string \<times> nat) list \<Rightarrow> device \<Rightarrow> bool" where
  "buffers_ok blk ptrs d \<longleftrightarrow>
     (\<forall>name p. map_of ptrs name = Some p \<longrightarrow> (p, blk name) \<in> set (live d)
        \<and> (\<forall>name' p'. name' \<noteq> name \<and> map_of ptrs name' = Some p' \<longrightarrow> separate (p, blk name) (p', blk name')))"

text \<open>No buffer overlaps one of these blocks.\<close>

definition apart :: "(string \<Rightarrow> nat) \<Rightarrow> (string \<times> nat) list \<Rightarrow> (nat \<times> nat) list \<Rightarrow> bool" where
  "apart blk ptrs blocks \<longleftrightarrow>
     (\<forall>name p. map_of ptrs name = Some p \<longrightarrow> (\<forall>b\<in>set blocks. separate (p, blk name) b))"

text \<open>The bytes in the buffers of these names.\<close>

definition in_buffers :: "(string \<Rightarrow> nat) \<Rightarrow> (string \<times> nat) list \<Rightarrow> string set \<Rightarrow> nat \<Rightarrow> bool" where
  "in_buffers blk ptrs names a \<longleftrightarrow> (\<exists>name\<in>names. \<exists>p. map_of ptrs name = Some p \<and> inside a (p, blk name))"

definition batch_fits :: "(string \<Rightarrow> nat) \<Rightarrow> batch \<Rightarrow> bool" where
  "batch_fits blk b \<longleftrightarrow> (\<forall>name arr. map_of b name = Some arr \<longrightarrow> length (ha_bytes arr) \<le> blk name)"

text \<open>The array of a name is in its buffer, inside its block.\<close>

definition delivered :: "(string \<Rightarrow> nat) \<Rightarrow> batch \<Rightarrow> (string \<times> nat) list \<Rightarrow> device \<Rightarrow> string \<Rightarrow> bool" where
  "delivered blk b ptrs d name \<longleftrightarrow>
     (\<exists>arr p. map_of b name = Some arr \<and> map_of ptrs name = Some p \<and> (p, blk name) \<in> set (live d)
        \<and> length (ha_bytes arr) \<le> blk name \<and> holds_at d p (ha_bytes arr))"

locale staging =
  fixes alloc :: "cuda \<Rightarrow> nat \<Rightarrow> device \<Rightarrow> calib_error + nat \<times> device"
    and copy :: "cuda \<Rightarrow> nat \<Rightarrow> harray \<Rightarrow> device \<Rightarrow> calib_error + device"
  assumes alloc_fresh: "malloc_fresh c \<Longrightarrow> alloc c n d = Inr (p, d')
      \<Longrightarrow> \<exists>m\<ge>n. d' = d\<lparr>live := live d @ [(p, m)]\<rparr> \<and> (\<forall>b\<in>set (live d). separate (p, m) b)"
    and copy_writes: "copy c p arr d = Inr d' \<Longrightarrow> d' = write_cells p (ha_bytes arr) d"
    and copy_succeeds: "memcpy_in_block c \<Longrightarrow> (p, m) \<in> set (live d) \<Longrightarrow> length (ha_bytes arr) \<le> m
      \<Longrightarrow> \<exists>d'. copy c p arr d = Inr d'"
begin

lemma alloc_fold:
  assumes "malloc_fresh c"
    and "res_fold (\<lambda>(name, size) (ptrs, d). res_bind (alloc c size d) (\<lambda>(p, d'). Inr (AList.update name p ptrs, d'))) sizes (ptrs, d)
      = Inr (ptrs', d')"
    and "distinct (map fst sizes)" and "\<forall>name\<in>fst ` set sizes. map_of ptrs name = None" and "buffers_ok blk ptrs d"
  shows "\<exists>blk'. buffers_ok blk' ptrs' d' \<and> (\<forall>name size. (name, size) \<in> set sizes \<longrightarrow> size \<le> blk' name)
    \<and> (\<forall>name. name \<notin> fst ` set sizes \<longrightarrow> blk' name = blk name) \<and> cell d' = cell d \<and> set (live d) \<subseteq> set (live d')
    \<and> (\<forall>name p. map_of ptrs' name = Some p \<longrightarrow> name \<notin> fst ` set sizes \<and> map_of ptrs name = Some p
        \<or> name \<in> fst ` set sizes \<and> (\<forall>b\<in>set (live d). separate (p, blk' name) b))"
  using assms(2-)
proof (induction sizes arbitrary: ptrs d blk)
  case Nil
  then show ?case by auto
next
  case (Cons x sizes)
  obtain name size where x: "x = (name, size)" by force
  obtain p d1 where a: "alloc c size d = Inr (p, d1)" using Cons.prems(1) by (auto simp: x split_beta)
  then obtain m where m: "size \<le> m" "d1 = d\<lparr>live := live d @ [(p, m)]\<rparr>" "\<forall>b\<in>set (live d). separate (p, m) b"
    using alloc_fresh [OF assms(1)] by blast
  have new: "map_of ptrs name = None" using Cons.prems(3) x by simp
  have ok: "buffers_ok (blk(name := m)) (AList.update name p ptrs) d1"
    using Cons.prems(4) m new unfolding buffers_ok_def by (auto simp: map_of_update intro: separate_sym)
  have dist: "distinct (map fst sizes)" "name \<notin> fst ` set sizes" using Cons.prems(2) x by simp_all
  have fresh: "\<forall>n\<in>fst ` set sizes. map_of (AList.update name p ptrs) n = None"
    using Cons.prems(3) dist(2) x by (auto simp: map_of_update)
  have rest: "res_fold (\<lambda>(name, size) (ptrs, d). res_bind (alloc c size d) (\<lambda>(p, d'). Inr (AList.update name p ptrs, d')))
      sizes (AList.update name p ptrs, d1) = Inr (ptrs', d')"
    using Cons.prems(1) a x by simp
  from Cons.IH [OF rest dist(1) fresh ok] obtain blk' where b: "buffers_ok blk' ptrs' d'" "\<forall>n s. (n, s) \<in> set sizes \<longrightarrow> s \<le> blk' n"
      "\<forall>n. n \<notin> fst ` set sizes \<longrightarrow> blk' n = (blk(name := m)) n" "cell d' = cell d1" "set (live d1) \<subseteq> set (live d')"
      "\<forall>n q. map_of ptrs' n = Some q \<longrightarrow> n \<notin> fst ` set sizes \<and> map_of (AList.update name p ptrs) n = Some q
        \<or> n \<in> fst ` set sizes \<and> (\<forall>b\<in>set (live d1). separate (q, blk' n) b)"
    by blast
  have blk_name: "blk' name = m" using b(3) dist(2) by simp
  have sep: "n \<notin> fst ` set (x # sizes) \<and> map_of ptrs n = Some q
      \<or> n \<in> fst ` set (x # sizes) \<and> (\<forall>b\<in>set (live d). separate (q, blk' n) b)" if n: "map_of ptrs' n = Some q" for n q
  proof (cases "n = name")
    case True
    then have "map_of (AList.update name p ptrs) name = Some q" using b(6) n dist(2) by blast
    then have "q = p" by (simp add: map_of_update)
    then show ?thesis using True m(3) blk_name x by simp
  next
    case False
    from b(6) n have "n \<notin> fst ` set sizes \<and> map_of (AList.update name p ptrs) n = Some q
        \<or> n \<in> fst ` set sizes \<and> (\<forall>b\<in>set (live d1). separate (q, blk' n) b)" by blast
    then show ?thesis using False m(2) x by (auto simp: map_of_update)
  qed
  show ?case
    using b(1-5) sep blk_name m(1,2) x by (intro exI [of _ blk']) auto
qed

lemma alloc_buffers_ok:
  assumes "malloc_fresh c" and "alloc_buffers (alloc c) sizes d = Inr (ptrs, d')" and "distinct (map fst sizes)"
  obtains blk where "buffers_ok blk ptrs d'" "\<And>name size. (name, size) \<in> set sizes \<Longrightarrow> size \<le> blk name"
    "apart blk ptrs (live d)" "cell d' = cell d" "set (live d) \<subseteq> set (live d')"
  using alloc_fold [OF assms(1) assms(2) [unfolded alloc_buffers_def] assms(3), of "\<lambda>_. 0"]
  by (auto simp: buffers_ok_def apart_def)

lemma alloc_buffers_dom:
  assumes "alloc_buffers (alloc c) sizes d = Inr (ptrs, d')"
  shows "dom (map_of ptrs) = fst ` set sizes"
proof -
  have "res_fold (\<lambda>(name, size) (ptrs, d). res_bind (alloc c size d) (\<lambda>(p, d'). Inr (AList.update name p ptrs, d'))) sizes (ptrs0, d0)
      = Inr (ptrs', d'') \<Longrightarrow> dom (map_of ptrs') = dom (map_of ptrs0) \<union> fst ` set sizes" for ptrs0 d0 ptrs' d''
  proof (induction sizes arbitrary: ptrs0 d0)
    case (Cons x sizes)
    obtain p d1 where "alloc c (snd x) d0 = Inr (p, d1)"
        "res_fold (\<lambda>(name, size) (ptrs, d). res_bind (alloc c size d) (\<lambda>(p, d'). Inr (AList.update name p ptrs, d'))) sizes
          (AList.update (fst x) p ptrs0, d1) = Inr (ptrs', d'')"
      using Cons.prems by (auto simp: case_prod_beta')
    from Cons.IH [OF this(2)] show ?case by auto
  qed simp
  from this [OF assms [unfolded alloc_buffers_def]] show ?thesis by simp
qed

lemma stage_Inr:
  "stage (copy c) b ptrs name (ps, d) = Inr (ps', d')
    \<longleftrightarrow> (\<exists>arr p. map_of b name = Some arr \<and> map_of ptrs name = Some p \<and> copy c p arr d = Inr d' \<and> ps' = ps @ [p])"
  by (auto simp: stage_def split: option.splits)

lemma stage_fold:
  assumes "buffers_ok blk ptrs d" and "batch_fits blk b"
    and "res_fold (stage (copy c) b ptrs) names (ps, d) = Inr (ps', d')"
  shows "ps' = ps @ map (\<lambda>name. the (map_of ptrs name)) names \<and> live d' = live d
    \<and> (\<forall>name\<in>set names. delivered blk b ptrs d' name)
    \<and> (\<forall>a. (\<forall>name\<in>set names. \<forall>p. map_of ptrs name = Some p \<longrightarrow> \<not> inside a (p, blk name)) \<longrightarrow> cell d' a = cell d a)"
  using assms(1,3)
proof (induction names arbitrary: ps d)
  case Nil
  then show ?case by simp
next
  case (Cons name names)
  obtain arr p d1 where s: "map_of b name = Some arr" "map_of ptrs name = Some p" "copy c p arr d = Inr d1"
      "res_fold (stage (copy c) b ptrs) names (ps @ [p], d1) = Inr (ps', d')"
    using Cons.prems(2) by (auto simp: stage_Inr)
  have w: "d1 = write_cells p (ha_bytes arr) d" using s(3) by (rule copy_writes)
  have l: "live d1 = live d" by (simp add: w write_live)
  have ok: "buffers_ok blk ptrs d1" using Cons.prems(1) l by (simp add: buffers_ok_def)
  note IH = Cons.IH [OF ok s(4)]
  have fit: "length (ha_bytes arr) \<le> blk name" using assms(2) s(1) by (simp add: batch_fits_def)
  then have sub: "inside a (p, length (ha_bytes arr)) \<Longrightarrow> inside a (p, blk name)" for a by (auto simp: inside_def)
  have "delivered blk b ptrs d' name"
  proof (cases "name \<in> set names")
    case False
    have "cell d' a = cell d1 a" if a: "inside a (p, length (ha_bytes arr))" for a
    proof -
      have "\<not> inside a (q, blk n)" if "n \<in> set names" "map_of ptrs n = Some q" for n q
        using ok s(2) that False sub [OF a] separate_inside unfolding buffers_ok_def by metis
      then show ?thesis using IH by blast
    qed
    moreover have "holds_at d1 p (ha_bytes arr)" unfolding w by (rule write_holds)
    ultimately have "holds_at d' p (ha_bytes arr)" by (rule holds_frame [rotated])
    moreover have "(p, blk name) \<in> set (live d')" using ok s(2) IH l unfolding buffers_ok_def by auto
    ultimately show ?thesis unfolding delivered_def using s fit by blast
  qed (use IH in blast)
  moreover have "cell d' a = cell d a"
    if "\<forall>n\<in>set (name # names). \<forall>p. map_of ptrs n = Some p \<longrightarrow> \<not> inside a (p, blk n)" for a
    using IH that sub s(2) write_outside [of a p "ha_bytes arr" d] w by (metis list.set_intros)
  ultimately show ?case using IH l s(2) by auto
qed

text \<open>A run of calls: the batches in their order, each in its buffers, and then nothing.\<close>

lemma get_batches_ok:
  assumes "buffers_ok blk (device_ptrs cal) d" and "batch_idx cal = 0" and "\<forall>b\<in>set (host_batches cal). batch_fits blk b"
    and "get_batches (copy c) names n (cal, d) = Inr (outs, cal', d')"
  shows "cal' = cal\<lparr>batch_idx := min n (length (host_batches cal))\<rparr> \<and> live d' = live d
    \<and> outs = map (\<lambda>i. if i < length (host_batches cal)
        then Some (map (\<lambda>name. the (map_of (device_ptrs cal) name)) names) else None) [0..<n]
    \<and> (0 < n \<and> n \<le> length (host_batches cal)
        \<longrightarrow> (\<forall>name\<in>set names. delivered blk (host_batches cal ! (n - 1)) (device_ptrs cal) d' name))
    \<and> (\<forall>a. \<not> in_buffers blk (device_ptrs cal) (set names) a \<longrightarrow> cell d' a = cell d a)"
  using assms(4)
proof (induction n arbitrary: outs cal' d')
  case 0
  then show ?case using assms(2) by simp
next
  case (Suc n)
  obtain outs1 cal1 d1 r where r: "get_batches (copy c) names n (cal, d) = Inr (outs1, cal1, d1)"
      "get_batch (copy c) names (cal1, d1) = Inr (r, cal', d')" "outs = outs1 @ [r]"
    using Suc.prems by (auto simp: split_beta)
  note IH = Suc.IH [OF r(1)]
  let ?bs = "host_batches cal"
  show ?case
  proof (cases "n < length ?bs")
    case False
    then have "r = None" "cal' = cal1" "d' = d1" using r(2) IH by (auto simp: get_batch_def)
    then show ?thesis using IH r(3) False by (auto simp: min_def)
  next
    case True
    then have c1: "host_batches cal1 = ?bs" "device_ptrs cal1 = device_ptrs cal" "batch_idx cal1 = n" using IH by simp_all
    obtain ps where ps: "res_fold (stage (copy c) (?bs ! n) (device_ptrs cal)) names ([], d1) = Inr (ps, d')"
        "r = Some ps" "cal' = cal1\<lparr>batch_idx := n + 1\<rparr>"
      using r(2) True c1 by (auto simp: get_batch_def Let_def split_beta)
    have ok: "buffers_ok blk (device_ptrs cal) d1" using assms(1) IH by (simp add: buffers_ok_def)
    have fit: "batch_fits blk (?bs ! n)" using assms(3) True by simp
    note S = stage_fold [OF ok fit ps(1)]
    have "cell d' a = cell d a" if "\<not> in_buffers blk (device_ptrs cal) (set names) a" for a
    proof -
      have "cell d' a = cell d1 a" using S that unfolding in_buffers_def by blast
      then show ?thesis using IH that by simp
    qed
    moreover have "cal' = cal\<lparr>batch_idx := min (Suc n) (length ?bs)\<rparr>" using IH ps(3) True by (simp add: min_def)
    ultimately show ?thesis using S IH ps(2) r(3) True by simp
  qed
qed

lemma stage_fold_total:
  assumes "memcpy_in_block c" and "buffers_ok blk ptrs d" and "batch_fits blk b"
    and "set names \<subseteq> dom (map_of b)" and "set names \<subseteq> dom (map_of ptrs)"
  shows "\<exists>r. res_fold (stage (copy c) b ptrs) names (ps, d) = Inr r"
  using assms(2,4,5)
proof (induction names arbitrary: ps d)
  case (Cons name names)
  obtain arr p where m: "map_of b name = Some arr" "map_of ptrs name = Some p" using Cons.prems by auto
  have fit: "length (ha_bytes arr) \<le> blk name" using assms(3) m(1) by (simp add: batch_fits_def)
  have l: "(p, blk name) \<in> set (live d)" using Cons.prems(1) m(2) by (simp add: buffers_ok_def)
  obtain d' where d': "copy c p arr d = Inr d'" using copy_succeeds [OF assms(1) l fit] by blast
  have "live d' = live d" using copy_writes [OF d'] by (simp add: write_live)
  then have "buffers_ok blk ptrs d'" using Cons.prems(1) by (simp add: buffers_ok_def)
  moreover have "stage (copy c) b ptrs name (ps, d) = Inr (ps @ [p], d')" using m d' by (simp add: stage_def)
  ultimately show ?case using Cons by simp
qed simp

lemma get_batches_total:
  assumes "memcpy_in_block c" and "buffers_ok blk (device_ptrs cal) d" and "batch_idx cal = 0"
    and "\<forall>b\<in>set (host_batches cal). batch_fits blk b \<and> set names \<subseteq> dom (map_of b) \<and> set names \<subseteq> dom (map_of (device_ptrs cal))"
  shows "\<exists>r. get_batches (copy c) names n (cal, d) = Inr r"
proof (induction n)
  case (Suc n)
  then obtain outs cal' d' where IH: "get_batches (copy c) names n (cal, d) = Inr (outs, cal', d')" by auto
  have "\<forall>b\<in>set (host_batches cal). batch_fits blk b" using assms(4) by blast
  note G = get_batches_ok [OF assms(2,3) this IH]
  show ?case
  proof (cases "n < length (host_batches cal)")
    case True
    let ?b = "host_batches cal ! n"
    have c: "host_batches cal' = host_batches cal" "device_ptrs cal' = device_ptrs cal" "batch_idx cal' = n"
      using G True by simp_all
    have ok: "buffers_ok blk (device_ptrs cal) d'" using assms(2) G by (simp add: buffers_ok_def)
    have "batch_fits blk ?b" "set names \<subseteq> dom (map_of ?b)" "set names \<subseteq> dom (map_of (device_ptrs cal))"
      using assms(4) nth_mem [OF True] by blast+
    from stage_fold_total [OF assms(1) ok this] obtain ps d'' where
      "res_fold (stage (copy c) ?b (device_ptrs cal)) names ([], d') = Inr (ps, d'')" by (metis surj_pair)
    then show ?thesis using True IH c by (simp add: get_batch_def)
  next
    case False
    then show ?thesis using IH G by (simp add: get_batch_def)
  qed
qed simp

end

text \<open>Both calibrators keep the contract.\<close>

lemma alloc_block_fresh:
  assumes "malloc_fresh c" and "alloc_block c m d = Inr (p, d')"
  shows "d' = d\<lparr>live := live d @ [(p, m)]\<rparr> \<and> (\<forall>b\<in>set (live d). separate (p, m) b)"
  using assms by (auto simp: alloc_block_def malloc_fresh_def split: sum.splits)

lemma round_up: "n \<le> (n + 255) div 256 * (256 :: nat)"
  using div_mult_mod_eq [of "n + 255" 256] mod_less_divisor [of 256 "n + 255"] by linarith

lemma write_nothing: "write_cells p [] d = d"
  by (cases d) (auto simp: write_cells_def)

interpretation talker: staging cuda_alloc copy_to_device
proof (unfold_locales, goal_cases)
  case (1 c n d p d')
  let ?m = "if (n + 255) div 256 * 256 = 0 then 256 else (n + 255) div 256 * 256"
  have "n \<le> ?m" using round_up [of n] by (auto simp: Let_def)
  then show ?case using alloc_block_fresh [OF 1(1), of ?m d p d'] 1(2) by (auto simp: cuda_alloc_def Let_def)
next
  case (2 c p arr d d')
  then show ?case by (auto simp: copy_to_device_def write_nothing Let_def split: if_splits)
qed (auto simp: copy_to_device_def memcpy_in_block_def Let_def)

interpretation thinker: staging cuda_malloc cuda_copy_to_device
proof (unfold_locales, goal_cases)
  case (1 c n d p d')
  let ?m = "max 256 ((n + 255) div 256 * 256)"
  have "n \<le> ?m" using round_up [of n] by simp
  then show ?case using alloc_block_fresh [OF 1(1), of ?m d p d'] 1(2) by (auto simp: cuda_malloc_def)
next
  case (2 c p arr d d')
  then show ?case by (auto simp: cuda_copy_to_device_def Let_def split: if_splits)
qed (auto simp: cuda_copy_to_device_def memcpy_in_block_def Let_def)

end
