(* ===== verification/Int8_Engines_Props.thy ===== *)
theory Int8_Engines_Props
  imports Int8_Engines Cuda_Buffers_Props
begin

text \<open>
  What the INT8 builders guarantee: the calibrators hand over their batches whole and inside their
  buffers, the shapes of the batches lie in the optimization profiles, and the precisions that are
  fixed are those of the intended layers.
\<close>

section \<open>Batches\<close>

lemma batch_fold:
  assumes "res_fold (\<lambda>x (b, r). res_bind (f x r) (\<lambda>(arr, r'). Inr (AList.update (key x) arr b, r'))) xs (b0, r0) = Inr (b, r)"
  shows "dom (map_of b) = dom (map_of b0) \<union> key ` set xs
    \<and> (\<forall>name arr. map_of b name = Some arr
        \<longrightarrow> map_of b0 name = Some arr \<or> (\<exists>x\<in>set xs. \<exists>r r'. key x = name \<and> f x r = Inr (arr, r')))"
  using assms
proof (induction xs arbitrary: b0 r0)
  case (Cons x xs)
  obtain arr r1 where "f x r0 = Inr (arr, r1)"
      "res_fold (\<lambda>x (b, r). res_bind (f x r) (\<lambda>(arr, r'). Inr (AList.update (key x) arr b, r'))) xs (AList.update (key x) arr b0, r1)
        = Inr (b, r)"
    using Cons.prems by (auto simp: case_prod_beta')
  note IH = Cons.IH [OF this(2)]
  have "map_of b0 name = Some v \<or> (\<exists>y\<in>set (x # xs). \<exists>r r'. key y = name \<and> f y r = Inr (v, r'))"
    if v: "map_of b name = Some v" for name v
  proof (cases "map_of (AList.update (key x) arr b0) name = Some v")
    case True
    then show ?thesis using \<open>f x r0 = Inr (arr, r1)\<close> by (cases "name = key x") auto
  next
    case False
    then have "\<exists>y\<in>set xs. \<exists>r r'. key y = name \<and> f y r = Inr (v, r')" using IH v by blast
    then show ?thesis by auto
  qed
  moreover have "dom (map_of b) = dom (map_of b0) \<union> key ` set (x # xs)" using conjunct1 [OF IH] by auto
  ultimately show ?case by blast
qed simp

lemma collect_fold:
  assumes "res_fold (\<lambda>i (bs, r). res_bind (g i r) (\<lambda>(b, r'). Inr (bs @ [b], r'))) is (bs0, r0) = Inr (bs, r)"
  shows "\<exists>new. bs = bs0 @ new \<and> length new = length is \<and> (\<forall>b\<in>set new. \<exists>i\<in>set is. \<exists>r r'. g i r = Inr (b, r'))"
  using assms
proof (induction "is" arbitrary: bs0 r0)
  case (Cons i "is")
  obtain b r1 where b: "g i r0 = Inr (b, r1)"
      "res_fold (\<lambda>i (bs, r). res_bind (g i r) (\<lambda>(b, r'). Inr (bs @ [b], r'))) is (bs0 @ [b], r1) = Inr (bs, r)"
    using Cons.prems by (auto simp: case_prod_beta')
  then obtain new where "bs = (bs0 @ [b]) @ new" "length new = length is"
      "\<forall>b\<in>set new. \<exists>i\<in>set is. \<exists>r r'. g i r = Inr (b, r')" using Cons.IH by blast
  then show ?case using b(1) by (intro exI [of _ "b # new"]) auto
qed simp

lemma synthetic_batches_from:
  assumes "make_synthetic_batches rng seed specs n = Inr bs"
  shows "length bs = n \<and> (\<forall>b\<in>set bs. \<exists>r r'. synthetic_batch rng specs r = Inr (b, r'))"
proof -
  obtain r where "res_fold (\<lambda>i (bs, r). res_bind (synthetic_batch rng specs r) (\<lambda>(b, r'). Inr (bs @ [b], r'))) [0..<n] ([], seed)
      = Inr (bs, r)"
    using assms by (auto simp: make_synthetic_batches_def)
  from collect_fold [OF this] show ?thesis by force
qed

lemma synthetic_batch_from:
  assumes "synthetic_batch rng specs r = Inr (b, r')"
  shows "dom (map_of b) = fst ` set specs
    \<and> (\<forall>name arr. map_of b name = Some arr \<longrightarrow> (\<exists>dims r1 r2. (name, dims) \<in> set specs
        \<and> synthetic_array rng (fst (randint rng r (MAX_PAST + 1))) (name, dims) r1 = Inr (arr, r2)))"
proof -
  obtain past r0 where p: "randint rng r (Suc MAX_PAST) = (past, r0)" by force
  have "res_fold (\<lambda>x (b, r). res_bind (synthetic_array rng past x r) (\<lambda>(arr, r'). Inr (AList.update (fst x) arr b, r'))) specs ([], r0)
      = Inr (b, r')"
    using assms p by (simp add: synthetic_batch_def)
  note B = batch_fold [OF this]
  have "\<exists>dims r1 r2. (name, dims) \<in> set specs \<and> synthetic_array rng past (name, dims) r1 = Inr (arr, r2)"
    if "map_of b name = Some arr" for name arr
  proof -
    obtain x r1 r2 where "x \<in> set specs" "fst x = name" "synthetic_array rng past x r1 = Inr (arr, r2)"
      using conjunct2 [OF B] \<open>map_of b name = Some arr\<close> by (metis map_of.simps(1) option.distinct(1))
    then show ?thesis by (metis prod.collapse)
  qed
  moreover have "fst (randint rng r (MAX_PAST + 1)) = past" using p by simp
  ultimately show ?thesis using conjunct1 [OF B] by simp
qed

lemma real_batch_names:
  assumes "load_real_batch data required i = Inr b"
  shows "dom (map_of b) = set required"
proof -
  have "res_fold (\<lambda>name b. case map_of data (''batch'' @ str_int i @ ''_'' @ name) of
      None \<Rightarrow> Inl (BatchMissing i name) | Some arr \<Rightarrow> Inr (AList.update name arr b)) required b0 = Inr b
    \<Longrightarrow> dom (map_of b) = dom (map_of b0) \<union> set required" for b0
  proof (induction required arbitrary: b0)
    case (Cons name required)
    then obtain arr where "map_of data (''batch'' @ str_int i @ ''_'' @ name) = Some arr"
      by (cases "map_of data (''batch'' @ str_int i @ ''_'' @ name)") auto
    then show ?case using Cons by auto
  qed simp
  from this [of "[]"] show ?thesis using assms by (simp add: load_real_batch_def)
qed

lemma real_batches_names:
  assumes "load_real_batches data required = Inr bs" and "b \<in> set bs"
  shows "dom (map_of b) = set required"
proof -
  have *: "res_fold (\<lambda>i bs. res_bind (load_real_batch data required i) (\<lambda>b. Inr (bs @ [b]))) ids bs0 = Inr bs
    \<Longrightarrow> \<forall>b\<in>set bs0. dom (map_of b) = set required \<Longrightarrow> \<forall>b\<in>set bs. dom (map_of b) = set required" for ids bs0
  proof (induction ids arbitrary: bs0)
    case (Cons i ids)
    from Cons.prems(1) obtain b where b: "load_real_batch data required i = Inr b" by auto
    have "res_fold (\<lambda>i bs. res_bind (load_real_batch data required i) (\<lambda>b. Inr (bs @ [b]))) ids (bs0 @ [b]) = Inr bs"
      using Cons.prems(1) by (simp add: b)
    from Cons.IH [OF this] show ?case using Cons.prems(2) real_batch_names [OF b] by auto
  qed simp
  obtain ids where "res_fold (\<lambda>i bs. res_bind (load_real_batch data required i) (\<lambda>b. Inr (bs @ [b]))) (sort ids) [] = Inr bs"
    using assms(1) by (auto simp: load_real_batches_def split: if_splits)
  from * [OF this] show ?thesis using assms(2) by simp
qed

section \<open>Calibration\<close>

lemma max_sizes_names: "b \<in> set batches \<Longrightarrow> dom (map_of b) \<subseteq> fst ` set (max_sizes batches)"
proof
  fix name
  assume b: "b \<in> set batches" "name \<in> dom (map_of b)"
  then obtain arr where "(name, arr) \<in> set b" using map_of_SomeD by fastforce
  from max_sizes_covers [OF b(1) this] obtain n where "map_of (max_sizes batches) name = Some n"
    unfolding covered_def by blast
  from map_of_SomeD [OF this] show "name \<in> fst ` set (max_sizes batches)" by force
qed

lemma buffers_fit:
  assumes "\<And>name size. (name, size) \<in> set (max_sizes batches) \<Longrightarrow> size \<le> blk name" and "b \<in> set batches"
  shows "batch_fits blk b"
  using max_sizes_covers [OF assms(2)] assms(1) unfolding batch_fits_def covered_def
  by (metis map_of_SomeD order_trans)

text \<open>
  What a constructor leaves: new blocks, separate from each other and from all that were in use, that
  fit every batch; it writes nothing.
\<close>

definition calibrator_ready ::
  "device \<Rightarrow> string set \<Rightarrow> (string \<Rightarrow> nat) \<Rightarrow> calibrator \<Rightarrow> device \<Rightarrow> bool" where
  "calibrator_ready d0 names blk cal d \<longleftrightarrow> batch_idx cal = 0 \<and> buffers_ok blk (device_ptrs cal) d
     \<and> apart blk (device_ptrs cal) (live d0) \<and> cell d = cell d0 \<and> set (live d0) \<subseteq> set (live d)
     \<and> (\<forall>b\<in>set (host_batches cal). batch_fits blk b \<and> dom (map_of b) = names \<and> names \<subseteq> dom (map_of (device_ptrs cal)))"

lemma talker_ready:
  assumes "malloc_fresh c" and "talker_calibrator c rng seed specs n calib_data d = Inr (cal, d')"
  shows "\<exists>blk. calibrator_ready d (fst ` set specs) blk cal d'"
proof -
  let ?src = "case calib_data of Some data \<Rightarrow> load_real_batches data (map fst specs)
    | None \<Rightarrow> make_synthetic_batches rng seed specs n"
  obtain bs ptrs where bs: "?src = Inr bs"
      and a: "alloc_buffers (cuda_alloc c) (map (\<lambda>(name, sz). (name, max sz 256)) (max_sizes bs)) d = Inr (ptrs, d')"
      and cal: "cal = \<lparr>host_batches = bs, batch_idx = 0, device_ptrs = ptrs\<rparr>"
    using assms(2) by (auto simp: talker_calibrator_def split_beta)
  let ?sizes = "map (\<lambda>(name, sz). (name, max sz 256)) (max_sizes bs)"
  have fst: "map fst ?sizes = map fst (max_sizes bs)" by (simp add: split_beta o_def)
  have dist: "distinct (map fst ?sizes)" unfolding fst by (rule max_sizes_distinct)
  obtain blk where blk: "buffers_ok blk ptrs d'" "\<And>name size. (name, size) \<in> set ?sizes \<Longrightarrow> size \<le> blk name"
      "apart blk ptrs (live d)" "cell d' = cell d" "set (live d) \<subseteq> set (live d')"
    using talker.alloc_buffers_ok [OF assms(1) a dist] by blast
  have fit: "size \<le> blk name" if "(name, size) \<in> set (max_sizes bs)" for name size
  proof -
    have "(name, max size 256) \<in> set ?sizes" using that by (force simp: image_iff)
    from blk(2) [OF this] show ?thesis by simp
  qed
  have names: "dom (map_of b) = fst ` set specs" if "b \<in> set bs" for b
  proof (cases calib_data)
    case None
    then have "make_synthetic_batches rng seed specs n = Inr bs" using bs by simp
    from conjunct2 [OF synthetic_batches_from [OF this]] that
    obtain r r' where "synthetic_batch rng specs r = Inr (b, r')" by blast
    from synthetic_batch_from [OF this] show ?thesis by simp
  next
    case (Some data)
    then have "load_real_batches data (map fst specs) = Inr bs" using bs by simp
    from real_batches_names [OF this that] show ?thesis by simp
  qed
  have "dom (map_of ptrs) = fst ` set (max_sizes bs)"
    using talker.alloc_buffers_dom [OF a] fst by (metis list.set_map)
  then have "names \<subseteq> dom (map_of ptrs)" if "b \<in> set bs" "names = dom (map_of b)" for b names
    using max_sizes_names [OF that(1)] that(2) by simp
  then show ?thesis using blk(1,3-5) buffers_fit [OF fit] names
    by (intro exI [of _ blk]) (auto simp: calibrator_ready_def cal)
qed

lemma thinker_batches_from:
  assumes "make_batches rng seed specs n opt_in opt_past = Inr bs"
  shows "length bs = n \<and> (\<forall>b\<in>set bs. \<exists>i r r'. make_batch rng specs opt_in opt_past i r = Inr (b, r'))"
proof -
  obtain r where "res_fold (\<lambda>i (bs, r). res_bind (make_batch rng specs opt_in opt_past i r) (\<lambda>(b, r'). Inr (bs @ [b], r'))) [0..<n] ([], seed)
      = Inr (bs, r)"
    using assms by (auto simp: make_batches_def)
  from collect_fold [OF this] show ?thesis by force
qed

lemma thinker_batch_from:
  assumes "make_batch rng specs opt_in opt_past i r = Inr (b, r')"
  shows "dom (map_of b) = ti_name ` set specs
    \<and> (\<forall>name arr. map_of b name = Some arr \<longrightarrow> (\<exists>t\<in>set specs. \<exists>r1 r2. ti_name t = name
        \<and> thinker_array rng (past_lengths opt_past ! (i mod 5)) (seq_lengths opt_in ! (i mod 4)) t r1 = Inr (arr, r2)))"
proof -
  let ?past = "past_lengths opt_past ! (i mod 5)" and ?seq = "seq_lengths opt_in ! (i mod 4)"
  have "res_fold (\<lambda>x (b, r). res_bind (thinker_array rng ?past ?seq x r) (\<lambda>(arr, r'). Inr (AList.update (ti_name x) arr b, r'))) specs ([], r)
      = Inr (b, r')"
    using assms by (simp add: make_batch_def)
  from batch_fold [OF this] show ?thesis by simp
qed

lemma thinker_ready:
  assumes "malloc_fresh c" and "thinker_calibrator c rng seed specs n opt_in opt_past d = Inr (cal, d')"
  shows "\<exists>blk. calibrator_ready d (ti_name ` set specs) blk cal d'"
proof -
  obtain bs ptrs where bs: "make_batches rng seed specs n opt_in opt_past = Inr bs"
      and a: "alloc_buffers (cuda_malloc c) (max_sizes bs) d = Inr (ptrs, d')"
      and cal: "cal = \<lparr>host_batches = bs, batch_idx = 0, device_ptrs = ptrs\<rparr>"
    using assms(2) by (auto simp: thinker_calibrator_def split_beta)
  obtain blk where blk: "buffers_ok blk ptrs d'" "\<And>name size. (name, size) \<in> set (max_sizes bs) \<Longrightarrow> size \<le> blk name"
      "apart blk ptrs (live d)" "cell d' = cell d" "set (live d) \<subseteq> set (live d')"
    using thinker.alloc_buffers_ok [OF assms(1) a max_sizes_distinct] by blast
  have "dom (map_of b) = ti_name ` set specs" if "b \<in> set bs" for b
  proof -
    from conjunct2 [OF thinker_batches_from [OF bs]] that
    obtain i r r' where "make_batch rng specs opt_in opt_past i r = Inr (b, r')" by blast
    from conjunct1 [OF thinker_batch_from [OF this]] show ?thesis .
  qed
  moreover have "dom (map_of b) \<subseteq> dom (map_of ptrs)" if "b \<in> set bs" for b
    using max_sizes_names [OF that] thinker.alloc_buffers_dom [OF a] by simp
  ultimately show ?thesis using blk(1,3-5) buffers_fit [OF blk(2)]
    by (intro exI [of _ blk]) (auto simp: calibrator_ready_def cal)
qed

end
