(* ===== verification/Int8_Theorems.thy ===== *)
theory Int8_Theorems
  imports Int8_Engines_Props
begin

text \<open>The properties of the INT8 builders, with a run on a small calibrator.\<close>

section \<open>Delivery\<close>

lemma apart_inside: "apart blk ptrs blocks \<Longrightarrow> b \<in> set blocks \<Longrightarrow> inside a b \<Longrightarrow> \<not> in_buffers blk ptrs names a"
  unfolding apart_def in_buffers_def using separate_inside by blast

context staging
begin

lemma ready_delivers:
  assumes "memcpy_in_block c" and "calibrator_ready d0 all blk cal d" and "set names \<subseteq> all"
  shows "\<exists>outs cal' d'. buffers_ok blk (device_ptrs cal) d \<and> apart blk (device_ptrs cal) (live d0)
    \<and> cell d = cell d0 \<and> set (live d0) \<subseteq> set (live d)
    \<and> get_batches (copy c) names k (cal, d) = Inr (outs, cal', d') \<and> live d' = live d
    \<and> outs = map (\<lambda>i. if i < length (host_batches cal)
        then Some (map (\<lambda>name. the (map_of (device_ptrs cal) name)) names) else None) [0..<k]
    \<and> (0 < k \<and> k \<le> length (host_batches cal)
        \<longrightarrow> (\<forall>name\<in>set names. delivered blk (host_batches cal ! (k - 1)) (device_ptrs cal) d' name))
    \<and> (\<forall>a. \<not> in_buffers blk (device_ptrs cal) (set names) a \<longrightarrow> cell d' a = cell d a)
    \<and> (\<forall>b\<in>set (live d0). \<forall>a. inside a b \<longrightarrow> cell d' a = cell d0 a)"
proof -
  note R = assms(2) [unfolded calibrator_ready_def]
  have r: "buffers_ok blk (device_ptrs cal) d" "batch_idx cal = 0" "\<forall>b\<in>set (host_batches cal). batch_fits blk b"
    and q: "apart blk (device_ptrs cal) (live d0)" "cell d = cell d0" "set (live d0) \<subseteq> set (live d)"
    using R by blast+
  have "\<forall>b\<in>set (host_batches cal). batch_fits blk b \<and> set names \<subseteq> dom (map_of b) \<and> set names \<subseteq> dom (map_of (device_ptrs cal))"
    using R assms(3) by blast
  from get_batches_total [OF assms(1) r(1,2) this] obtain outs cal' d' where
    g: "get_batches (copy c) names k (cal, d) = Inr (outs, cal', d')" by (metis surj_pair)
  note G = get_batches_ok [OF r g]
  have o: "\<forall>b\<in>set (live d0). \<forall>a. inside a b \<longrightarrow> cell d' a = cell d0 a"
    using G q(2) apart_inside [OF q(1)] by metis
  show ?thesis
    by (rule exI [of _ outs], rule exI [of _ cal'], rule exI [of _ d'], intro conjI, rule r(1), rule q(1), rule q(2), rule q(3), rule g)
      (use G o in simp_all)
qed

end

text \<open>
  C37: the talker's calibrator delivers its data, and only into its own buffers.  Let blocks of
  \<^verbatim>\<open>cudaMalloc\<close> not overlap blocks in use, and let a copy to the start of a block in use that is not
  longer than it succeed.  When the constructor returns, the buffers of different inputs are
  separate, overlap no block that was allocated before, and nothing has been written.  Then any
  number of calls of \<^verbatim>\<open>get_batch\<close> returns: the buffers' addresses once for each batch and then
  \<^verbatim>\<open>None\<close>.  After the call for a batch, each buffer holds the batch's array of that name, which fits its
  block, and no byte outside the buffers of the requested names has changed, in particular none of a
  block that others had allocated.
\<close>

theorem calibration_delivers:
  assumes "malloc_fresh c" and "memcpy_in_block c"
    and "talker_calibrator c rng seed specs n calib_data d = Inr (cal, d1)" and "set names \<subseteq> fst ` set specs"
  shows "\<exists>blk outs cal' d2. buffers_ok blk (device_ptrs cal) d1 \<and> apart blk (device_ptrs cal) (live d)
    \<and> cell d1 = cell d \<and> set (live d) \<subseteq> set (live d1)
    \<and> get_batches (copy_to_device c) names k (cal, d1) = Inr (outs, cal', d2) \<and> live d2 = live d1
    \<and> outs = map (\<lambda>i. if i < length (host_batches cal)
        then Some (map (\<lambda>name. the (map_of (device_ptrs cal) name)) names) else None) [0..<k]
    \<and> (0 < k \<and> k \<le> length (host_batches cal)
        \<longrightarrow> (\<forall>name\<in>set names. delivered blk (host_batches cal ! (k - 1)) (device_ptrs cal) d2 name))
    \<and> (\<forall>a. \<not> in_buffers blk (device_ptrs cal) (set names) a \<longrightarrow> cell d2 a = cell d1 a)
    \<and> (\<forall>b\<in>set (live d). \<forall>a. inside a b \<longrightarrow> cell d2 a = cell d a)"
proof -
  obtain blk where r: "calibrator_ready d (fst ` set specs) blk cal d1" using talker_ready [OF assms(1,3)] by blast
  from talker.ready_delivers [OF assms(2) r assms(4), of k] show ?thesis by blast
qed

lemma thinker_calibration_delivers:
  assumes "malloc_fresh c" and "memcpy_in_block c"
    and "thinker_calibrator c rng seed specs n opt_in opt_past d = Inr (cal, d1)" and "set names \<subseteq> ti_name ` set specs"
  shows "\<exists>blk outs cal' d2. buffers_ok blk (device_ptrs cal) d1 \<and> apart blk (device_ptrs cal) (live d)
    \<and> cell d1 = cell d \<and> set (live d) \<subseteq> set (live d1)
    \<and> get_batches (cuda_copy_to_device c) names k (cal, d1) = Inr (outs, cal', d2) \<and> live d2 = live d1
    \<and> outs = map (\<lambda>i. if i < length (host_batches cal)
        then Some (map (\<lambda>name. the (map_of (device_ptrs cal) name)) names) else None) [0..<k]
    \<and> (0 < k \<and> k \<le> length (host_batches cal)
        \<longrightarrow> (\<forall>name\<in>set names. delivered blk (host_batches cal ! (k - 1)) (device_ptrs cal) d2 name))
    \<and> (\<forall>a. \<not> in_buffers blk (device_ptrs cal) (set names) a \<longrightarrow> cell d2 a = cell d1 a)
    \<and> (\<forall>b\<in>set (live d). \<forall>a. inside a b \<longrightarrow> cell d2 a = cell d a)"
proof -
  obtain blk where r: "calibrator_ready d (ti_name ` set specs) blk cal d1" using thinker_ready [OF assms(1,3)] by blast
  from thinker.ready_delivers [OF assms(2) r assms(4), of k] show ?thesis by blast
qed

section \<open>Shapes\<close>

definition in_range :: "int list \<Rightarrow> int list \<Rightarrow> int list \<Rightarrow> bool" where
  "in_range lo hi shape \<longleftrightarrow> list_all2 (\<le>) lo shape \<and> list_all2 (\<le>) shape hi"

text \<open>
  The parsed network agrees with the profile: a fixed dimension is the profile's only one, and a
  dynamic one is where the profile has a range, or where the script puts a one.
\<close>

definition agrees_with :: "bool \<Rightarrow> int list \<Rightarrow> int list \<times> int list \<times> int list \<Rightarrow> bool" where
  "agrees_with plain dims = (\<lambda>(lo, opt, hi). length lo = length dims \<and> length hi = length dims
     \<and> (\<forall>i<length dims. if dims ! i = -1 then lo ! i < hi ! i \<or> plain \<and> lo ! i = 1 \<and> hi ! i = 1
         else lo ! i = dims ! i \<and> hi ! i = dims ! i))"

lemma contains_set: "contains kw s \<Longrightarrow> set kw \<subseteq> set s"
proof (induction kw s rule: contains.induct)
  case (2 kw c s)
  then show ?case using set_mono_prefix [of kw "c # s"] by auto
qed simp

lemma in_profile: "x \<in> set (xs @ concat (map f is)) \<Longrightarrow> x \<in> set xs \<or> (\<exists>i. x \<in> set (f i))"
  by auto

lemma decode_names:
  assumes "(name, s) \<in> set setup_decode_profiles"
  shows "(name = ''inputs_embeds'' \<and> s = ([1, 1, 1024], [1, 1, 1024], [1, 1, 1024]))
    \<or> (name = ''attention_mask'' \<and> s = ([1, 1], [1, 100], [1, 201]))
    \<or> (name = ''position_ids'' \<and> s = ([1, 1], [1, 1], [1, 1]))
    \<or> (\<exists>i kind. (kind = ''past_key_'' \<or> kind = ''past_value_'') \<and> name = kind @ str_nat i
        \<and> s = ([1, 8, 0, 128], [1, 8, 100, 128], [1, 8, 200, 128]))"
proof -
  let ?kv = "([1, 8, 0, 128], [1, 8, 100, 128], [1, 8, 200, 128]) :: int list \<times> int list \<times> int list"
  have "setup_decode_profiles =
      [(''inputs_embeds'', [1, 1, 1024], [1, 1, 1024], [1, 1, 1024]), (''attention_mask'', [1, 1], [1, 100], [1, 201]),
       (''position_ids'', [1, 1], [1, 1], [1, 1])]
      @ concat (map (\<lambda>i. [(''past_key_'' @ str_nat i, ?kv), (''past_value_'' @ str_nat i, ?kv)]) [0..<N_LAYERS])"
    unfolding setup_decode_profiles_def HIDDEN_DIM_def MAX_PAST_def N_HEADS_def HEAD_DIM_def by simp
  from in_profile [OF assms [unfolded this]] show ?thesis
    unfolding list.set insert_iff empty_iff prod.inject by blast
qed

lemma past_names:
  assumes "name = kind @ str_nat i" and "kind = ''past_key_'' \<or> kind = ''past_value_''"
  shows "is_past name" and "\<not> contains ''attention_mask'' name" and "\<not> contains ''position_ids'' name"
proof -
  have d: "CHR ''o'' \<notin> set (str_nat i)" "CHR ''n'' \<notin> set (str_nat i)"
    using str_nat_digits [of i] by (auto simp: is_digit_def code_def)
  show "is_past name" using assms by (auto simp: is_past_def)
  show "\<not> contains ''attention_mask'' name" "\<not> contains ''position_ids'' name"
    using contains_set [of "''attention_mask''" name] contains_set [of "''position_ids''" name] assms d by auto
qed

lemma resolved_in_range:
  assumes "agrees_with plain dims (lo, opt, hi)" and "plain \<longrightarrow> f (-1) = 1" and "\<And>d. d \<noteq> -1 \<Longrightarrow> f d = d"
    and "\<forall>i<length lo. lo ! i < hi ! i \<longrightarrow> lo ! i \<le> f (-1) \<and> f (-1) \<le> hi ! i"
  shows "in_range lo hi (map f dims)"
proof -
  have "lo ! i \<le> f (dims ! i) \<and> f (dims ! i) \<le> hi ! i" if i: "i < length dims" for i
  proof (cases "dims ! i = -1")
    case True
    then have "lo ! i < hi ! i \<or> plain \<and> lo ! i = 1 \<and> hi ! i = 1" "length lo = length dims"
      using assms(1) i by (auto simp: agrees_with_def)
    then show ?thesis using True assms(2,4) i by auto
  next
    case False
    then have "lo ! i = dims ! i \<and> hi ! i = dims ! i" using assms(1) i by (simp add: agrees_with_def)
    then show ?thesis using False assms(3) by simp
  qed
  then show ?thesis using assms(1) by (auto simp: in_range_def agrees_with_def list_all2_conv_all_nth)
qed

lemma synthetic_array_shape:
  assumes "synthetic_array rng past (name, dims) r = Inr (arr, r')"
  shows "ha_shape arr =
    (if \<not> contains ''attention_mask'' name \<and> contains ''position_ids'' name then [1, map (resolve past name) dims ! 1]
     else map (resolve past name) dims)"
  using assms
  by (auto simp: synthetic_array_def Let_def int64_full_def int64_range_def split_beta split: if_splits)

lemma mask_names: "contains ''attention_mask'' ''attention_mask''" "\<not> is_past ''attention_mask''"
    "\<not> contains ''attention_mask'' ''position_ids''" "contains ''position_ids'' ''position_ids''" "\<not> is_past ''position_ids''"
    "\<not> contains ''attention_mask'' ''inputs_embeds''" "\<not> contains ''position_ids'' ''inputs_embeds''" "\<not> is_past ''inputs_embeds''"
  by (simp_all add: is_past_def)

lemma decode_array_in_range:
  assumes "synthetic_array rng past (name, dims) r = Inr (arr, r')" and "past \<le> MAX_PAST"
    and "(name, lo, opt, hi) \<in> set setup_decode_profiles"
    and "agrees_with (\<not> is_past name \<and> \<not> contains ''attention_mask'' name) dims (lo, opt, hi)"
  shows "in_range lo hi (ha_shape arr)"
proof -
  have p: "int past \<le> 200" using assms(2) by (simp add: MAX_PAST_def)
  have plain: "\<not> is_past name \<and> \<not> contains ''attention_mask'' name \<longrightarrow> resolve past name (-1) = 1"
      "d \<noteq> -1 \<Longrightarrow> resolve past name d = d" for d
    by (simp_all add: resolve_def)
  note R = resolved_in_range [OF assms(4) plain]
  consider (emb) "name = ''inputs_embeds''" "lo = [1, 1, 1024]" "hi = [1, 1, 1024]"
    | (mask) "name = ''attention_mask''" "lo = [1, 1]" "hi = [1, 201]"
    | (pos) "name = ''position_ids''" "lo = [1, 1]" "hi = [1, 1]"
    | (kv) i kind where "kind = ''past_key_'' \<or> kind = ''past_value_''" "name = kind @ str_nat i"
        "lo = [1, 8, 0, 128]" "hi = [1, 8, 200, 128]"
    using decode_names [OF assms(3)] by auto
  then show ?thesis
  proof cases
    case emb
    then have "in_range lo hi (map (resolve past name) dims)" by (intro R) (auto simp: less_Suc_eq)
    then show ?thesis using synthetic_array_shape [OF assms(1)] emb(1) mask_names by simp
  next
    case mask
    have "resolve past name (-1) = int past + 1" using mask(1) mask_names by (simp add: resolve_def)
    then have "in_range lo hi (map (resolve past name) dims)" using mask p by (intro R) (auto simp: less_Suc_eq)
    then show ?thesis using synthetic_array_shape [OF assms(1)] mask(1) mask_names by simp
  next
    case pos
    then have "in_range lo hi (map (resolve past name) dims)" by (intro R) (auto simp: less_Suc_eq)
    then have "map (resolve past name) dims ! 1 = 1" using pos
      by (auto simp: in_range_def list_all2_Cons1 list_all2_Cons2)
    then show ?thesis using synthetic_array_shape [OF assms(1)] pos mask_names by (simp add: in_range_def)
  next
    case kv
    note n = past_names [OF kv(2,1)]
    have "resolve past name (-1) = int past" using n by (simp add: resolve_def)
    then have "in_range lo hi (map (resolve past name) dims)" using kv(3,4) p by (intro R) (auto simp: less_Suc_eq)
    then show ?thesis using synthetic_array_shape [OF assms(1)] n by simp
  qed
qed

text \<open>Every synthetic batch of the talker's decode engine lies in its optimization profile.  Let
  \<^verbatim>\<open>randint(0, n)\<close> be below \<open>n\<close>, and let the inputs of the parsed network be named in the profile and
  agree with it.  Then there are as many batches as asked for, and every array in them has a shape
  between the profile's smallest and largest shape of its input.
\<close>

theorem decode_batches_in_profile:
  assumes "make_synthetic_batches rng seed specs n = Inr bs" and "\<forall>r k. 0 < k \<longrightarrow> fst (randint rng r k) < k"
    and "\<forall>(name, dims)\<in>set specs. \<exists>s. (name, s) \<in> set setup_decode_profiles
      \<and> agrees_with (\<not> is_past name \<and> \<not> contains ''attention_mask'' name) dims s"
  shows "length bs = n \<and> (\<forall>b\<in>set bs. \<forall>name arr. map_of b name = Some arr
    \<longrightarrow> (\<exists>lo opt hi. (name, lo, opt, hi) \<in> set setup_decode_profiles \<and> in_range lo hi (ha_shape arr)))"
proof -
  have "\<exists>lo opt hi. (name, lo, opt, hi) \<in> set setup_decode_profiles \<and> in_range lo hi (ha_shape arr)"
    if b: "b \<in> set bs" and m: "map_of b name = Some arr" for b name arr
  proof -
    obtain r r' where "synthetic_batch rng specs r = Inr (b, r')"
      using conjunct2 [OF synthetic_batches_from [OF assms(1)]] b by blast
    from conjunct2 [OF synthetic_batch_from [OF this]] m obtain dims r1 r2 where
      s: "(name, dims) \<in> set specs" "synthetic_array rng (fst (randint rng r (MAX_PAST + 1))) (name, dims) r1 = Inr (arr, r2)"
      by blast
    obtain lo opt hi where p: "(name, lo, opt, hi) \<in> set setup_decode_profiles"
        "agrees_with (\<not> is_past name \<and> \<not> contains ''attention_mask'' name) dims (lo, opt, hi)"
      using assms(3) s(1) by fastforce
    have "fst (randint rng r (MAX_PAST + 1)) \<le> MAX_PAST" using assms(2) by (metis less_Suc_eq_le Suc_eq_plus1 zero_less_Suc)
    from decode_array_in_range [OF s(2) this p] p(1) show ?thesis by blast
  qed
  then show ?thesis using synthetic_batches_from [OF assms(1)] by blast
qed

text \<open>
  The prefill engine is calibrated by the same function: the mask covers a past that its inputs do
  not have, and is longer than the profile allows when the random length is the largest.
\<close>

lemma prefill_mask_mismatch:
  "synthetic_array rng past (''attention_mask'', [1, -1]) r = Inr (int64_full 1 [1, int past + 1], r)"
  "synthetic_array rng past (''position_ids'', [1, -1]) r = Inr (int64_range past 1, r)"
  "(''attention_mask'', [1, 1], [1, 60], [1, 200]) \<in> set setup_prefill_profiles"
  "in_range [1, 1] [1, 200] (ha_shape (int64_full 1 [1, int past + 1])) \<longleftrightarrow> past < 200"
  using mask_names
  by (simp_all add: synthetic_array_def resolve_def int64_full_def in_range_def setup_prefill_profiles_def MAX_SEQ_def) linarith

lemma thinker_lengths:
  shows "past_lengths p ! (i mod 5) \<in> {0, 16, 64, 128, p}" and "seq_lengths s ! (i mod 4) \<in> {1, 8, 32, s}"
proof -
  have "past_lengths p ! (i mod 5) \<in> set (past_lengths p)" "seq_lengths s ! (i mod 4) \<in> set (seq_lengths s)"
    by (rule nth_mem, simp add: past_lengths_def seq_lengths_def)+
  then show "past_lengths p ! (i mod 5) \<in> {0, 16, 64, 128, p}" "seq_lengths s ! (i mod 4) \<in> {1, 8, 32, s}"
    by (simp_all add: past_lengths_def seq_lengths_def)
qed

lemma thinker_array_shape:
  assumes "thinker_array rng past seq t r = Inr (arr, r')"
  shows "ha_shape arr =
    (if ti_dtype t = TINT32 \<and> (ti_name t = ''context_lengths'' \<or> ti_name t = ''kvcache_start_index'') then [1]
     else map (thinker_dim past seq (ti_name t)) (ti_shape t))"
  using assms
  by (auto simp: thinker_array_def Let_def int64_full_def int32_full_def split_beta split: if_splits trt_dtype.splits)

definition thinker_plain :: "string \<Rightarrow> bool" where
  "thinker_plain name \<longleftrightarrow> name \<in> {''context_lengths'', ''last_token_ids'', ''kvcache_start_index''}"

lemma thinker_dim_one: "thinker_plain name \<longrightarrow> thinker_dim past seq name (-1) = 1"
  by (auto simp: thinker_plain_def thinker_dim_def)

lemma thinker_array_in_range:
  assumes "thinker_array rng past seq t r = Inr (arr, r')"
    and "input_shapes args (ti_name t) = Some (lo, opt, hi)"
    and "agrees_with (thinker_plain (ti_name t)) (ti_shape t) (lo, opt, hi)"
    and "0 \<le> past" and "past \<le> max_kv args" and "1 \<le> seq" and "seq \<le> max_input_len args"
    and "max 256 (past + seq + 8) \<le> max_kv args + max_input_len args"
  shows "in_range lo hi (ha_shape arr)"
proof -
  let ?f = "thinker_dim past seq (ti_name t)"
  have "\<forall>i<length lo. lo ! i < hi ! i \<longrightarrow> lo ! i \<le> ?f (-1) \<and> ?f (-1) \<le> hi ! i"
    using assms(2,4-)
    by (auto simp: input_shapes_def thinker_dim_def less_Suc_eq HIDDEN_DIM_def N_HEADS_def HEAD_DIM_def split: if_splits)
  then have R: "in_range lo hi (map ?f (ti_shape t))"
    by (intro resolved_in_range [OF assms(3), of ?f] thinker_dim_one) (auto simp: thinker_dim_def)
  have "in_range lo hi [1]" if "ti_name t = ''context_lengths'' \<or> ti_name t = ''kvcache_start_index''"
    using that assms(2) by (auto simp: input_shapes_def in_range_def)
  then show ?thesis using R thinker_array_shape [OF assms(1)] by simp
qed

text \<open>Every batch of the thinker's calibrator lies in its optimization profile, when the profile
  has room for the fixed lengths of the script: 128 of the past, 32 of the input, and eight more
  positions than the longest pair of the rotary table.
\<close>

theorem thinker_batches_in_profile:
  assumes "make_batches rng seed specs n (opt_input args) (opt_kv args) = Inr bs"
    and "1 \<le> opt_input args" and "max 32 (opt_input args) \<le> max_input_len args"
    and "0 \<le> opt_kv args" and "max 128 (opt_kv args) \<le> max_kv args"
    and "max 256 (max 128 (opt_kv args) + max 32 (opt_input args) + 8) \<le> max_kv args + max_input_len args"
    and "\<forall>t\<in>set specs. \<exists>s. input_shapes args (ti_name t) = Some s \<and> agrees_with (thinker_plain (ti_name t)) (ti_shape t) s"
  shows "length bs = n \<and> (\<forall>b\<in>set bs. \<forall>name arr. map_of b name = Some arr
    \<longrightarrow> (\<exists>lo opt hi. input_shapes args name = Some (lo, opt, hi) \<and> in_range lo hi (ha_shape arr)))"
proof -
  have "\<exists>lo opt hi. input_shapes args name = Some (lo, opt, hi) \<and> in_range lo hi (ha_shape arr)"
    if b: "b \<in> set bs" and m: "map_of b name = Some arr" for b name arr
  proof -
    obtain i r r' where "make_batch rng specs (opt_input args) (opt_kv args) i r = Inr (b, r')"
      using conjunct2 [OF thinker_batches_from [OF assms(1)]] b by blast
    from conjunct2 [OF thinker_batch_from [OF this]] m obtain t r1 r2 where
      t: "t \<in> set specs" "ti_name t = name"
        "thinker_array rng (past_lengths (opt_kv args) ! (i mod 5)) (seq_lengths (opt_input args) ! (i mod 4)) t r1 = Inr (arr, r2)"
      by blast
    obtain lo opt hi where p: "input_shapes args (ti_name t) = Some (lo, opt, hi)"
        "agrees_with (thinker_plain (ti_name t)) (ti_shape t) (lo, opt, hi)"
      using assms(7) t(1) by fastforce
    let ?past = "past_lengths (opt_kv args) ! (i mod 5)" and ?seq = "seq_lengths (opt_input args) ! (i mod 4)"
    have "0 \<le> ?past" "?past \<le> max 128 (opt_kv args)" using thinker_lengths(1) [of "opt_kv args" i] assms(4) by auto
    moreover have "1 \<le> ?seq" "?seq \<le> max 32 (opt_input args)" using thinker_lengths(2) [of "opt_input args" i] assms(2) by auto
    ultimately have "0 \<le> ?past" "?past \<le> max_kv args" "1 \<le> ?seq" "?seq \<le> max_input_len args"
        "max 256 (?past + ?seq + 8) \<le> max_kv args + max_input_len args"
      using assms(3,5,6) by linarith+
    from thinker_array_in_range [OF t(3) p this] have "in_range lo hi (ha_shape arr)" .
    then show ?thesis using p(1) t(2) by blast
  qed
  then show ?thesis using thinker_batches_from [OF assms(1)] by blast
qed

end
