(* ===== verification/Int8_Precision.thy ===== *)
theory Int8_Precision
  imports Int8_Theorems
begin

text \<open>Which layers the two builders fix to which precision, and runs of the calibrators.\<close>

section \<open>Thinker\<close>

lemma set_outputs_result:
  assumes "set_outputs ref i js con = (con', ok)"
  shows "precision con' = precision con \<and> (\<forall>k. k \<noteq> i \<longrightarrow> output_type con' k = output_type con k)
    \<and> (ok \<longleftrightarrow> (\<forall>j\<in>set js. \<not> no_output_type ref i j)) \<and> (ok \<longrightarrow> (\<forall>j\<in>set js. output_type con' i j = Some HALF))
    \<and> (\<forall>j. output_type con' i j = output_type con i j \<or> output_type con' i j = Some HALF)"
  using assms
proof (induction js arbitrary: con)
  case (Cons j js)
  show ?case
  proof (cases "no_output_type ref i j")
    case False
    let ?con = "con\<lparr>output_type := (output_type con)(i := (output_type con i)(j := Some HALF))\<rparr>"
    have "set_outputs ref i js ?con = (con', ok)" using Cons.prems False by simp
    note IH = Cons.IH [OF this]
    have "output_type con' i j = Some HALF" using IH by (metis constraints.select_convs(2) constraints.surjective
        constraints.update_convs(2) fun_upd_same)
    then show ?thesis using IH False by (auto split: if_splits)
  qed (use Cons.prems in auto)
qed simp

text \<open>The precision a layer ends with.\<close>

definition layer_precision :: "refusals \<Rightarrow> nat \<Rightarrow> layer \<Rightarrow> trt_dtype option" where
  "layer_precision ref i l =
     (if is_mlp_matmul l then (if no_precision ref i INT8 then None else Some INT8)
      else if ly_type l = MATRIX_MULTIPLY \<or> ly_type l = PLUGIN_V2 \<and> contains ''AttentionPlugin'' (ly_name l)
      then (if no_precision ref i HALF then None else Some HALF) else None)"

definition converted_mlp :: "refusals \<Rightarrow> nat \<Rightarrow> layer \<Rightarrow> bool" where
  "converted_mlp ref i l \<longleftrightarrow> is_mlp_matmul l \<and> \<not> no_precision ref i INT8 \<and> (\<forall>j<length (ly_outputs l). \<not> no_output_type ref i j)"

definition constrained :: "refusals \<Rightarrow> layer list \<Rightarrow> constraints \<times> nat \<times> nat \<Rightarrow> bool" where
  "constrained ref ls = (\<lambda>(con, mlp, conservative).
     (\<forall>i. precision con i = (if i < length ls then layer_precision ref i (ls ! i) else None))
     \<and> mlp = card {i. i < length ls \<and> converted_mlp ref i (ls ! i)}
     \<and> (\<forall>i j. i < length ls \<and> converted_mlp ref i (ls ! i) \<and> j < length (ly_outputs (ls ! i)) \<longrightarrow> output_type con i j = Some HALF)
     \<and> (\<forall>i j. output_type con i j \<in> {None, Some HALF}) \<and> (\<forall>i j. length ls \<le> i \<longrightarrow> output_type con i j = None))"

lemma card_snoc:
  "card {i. i < Suc n \<and> P i} = card {i. i < n \<and> P i} + (if P n then 1 else 0)"
proof -
  have "{i. i < Suc n \<and> P i} = (if P n then insert n {i. i < n \<and> P i} else {i. i < n \<and> P i})" by (auto simp: less_Suc_eq)
  then show ?thesis by simp
qed

lemma constrain_layer_step:
  assumes "constrained ref ls s"
  shows "constrained ref (ls @ [l]) (constrain_layer ref (length ls, l) s)"
proof -
  let ?n = "length ls"
  obtain con mlp conservative where s: "s = (con, mlp, conservative)" by (cases s) auto
  define js where "js = (if is_mlp_matmul l then [0..<length (ly_outputs l)]
    else filter (\<lambda>j. ly_outputs l ! j \<in> {TFLOAT, HALF}) [0..<length (ly_outputs l)])"
  obtain con' mlp' cons' where r: "constrain_layer ref (?n, l) s = (con', mlp', cons')" by (cases "constrain_layer ref (?n, l) s") auto
  note C = assms [unfolded constrained_def s prod.case]
  have n: "output_type con ?n j = None" "precision con ?n = None" for j using C by auto
  have "precision con' = (precision con)(?n := layer_precision ref ?n l)
    \<and> mlp' = mlp + (if converted_mlp ref ?n l then 1 else 0)
    \<and> (\<forall>k. k \<noteq> ?n \<longrightarrow> output_type con' k = output_type con k)
    \<and> (\<forall>j. output_type con' ?n j \<in> {None, Some HALF})
    \<and> (converted_mlp ref ?n l \<longrightarrow> (\<forall>j<length (ly_outputs l). output_type con' ?n j = Some HALF))"
  proof (cases "ly_type l = MATRIX_MULTIPLY \<and> \<not> no_precision ref ?n (if is_mlp_matmul l then INT8 else HALF)")
    case True
    let ?t = "if is_mlp_matmul l then INT8 else HALF"
    obtain c ok where o: "set_outputs ref ?n js (set_precision ?n ?t con) = (c, ok)" by force
    note O = set_outputs_result [OF o]
    have "con' = c" "mlp' = (if is_mlp_matmul l \<and> ok then mlp + 1 else mlp)"
      using r o True by (auto simp: s constrain_layer_def js_def split: if_splits)
    moreover have "converted_mlp ref ?n l \<longleftrightarrow> is_mlp_matmul l \<and> ok"
      using O True by (cases "is_mlp_matmul l") (auto simp: converted_mlp_def js_def)
    moreover have "layer_precision ref ?n l = Some ?t" using True by (cases "is_mlp_matmul l") (auto simp: layer_precision_def)
    moreover have st: "precision (set_precision ?n ?t con) = (precision con)(?n := Some ?t)"
        "output_type (set_precision ?n ?t con) = output_type con" by (simp_all add: set_precision_def)
    moreover have "is_mlp_matmul l \<longrightarrow> set js = {..<length (ly_outputs l)}" by (auto simp: js_def)
    moreover have "output_type c ?n j \<in> {None, Some HALF}" for j
    proof -
      have "output_type c ?n j = output_type (set_precision ?n ?t con) ?n j \<or> output_type c ?n j = Some HALF" using O by blast
      then show ?thesis unfolding st n(1) by auto
    qed
    ultimately show ?thesis using O by simp
  next
    case False
    then have "con' = (if layer_precision ref ?n l = None then con else set_precision ?n HALF con)" "mlp' = mlp"
        "\<not> converted_mlp ref ?n l" "layer_precision ref ?n l \<in> {None, Some HALF}"
      using r by (auto simp: s constrain_layer_def layer_precision_def converted_mlp_def is_mlp_matmul_def split: if_splits)
    then show ?thesis using n by (auto simp: set_precision_def fun_upd_idem)
  qed
  then have P: "precision con' = (precision con)(?n := layer_precision ref ?n l)"
      and M: "mlp' = mlp + (if converted_mlp ref ?n l then 1 else 0)"
      and F: "\<forall>k. k \<noteq> ?n \<longrightarrow> output_type con' k = output_type con k" "\<forall>j. output_type con' ?n j \<in> {None, Some HALF}"
        "converted_mlp ref ?n l \<longrightarrow> (\<forall>j<length (ly_outputs l). output_type con' ?n j = Some HALF)"
    by blast+
  have "\<forall>i. precision con' i = (if i < length (ls @ [l]) then layer_precision ref i ((ls @ [l]) ! i) else None)"
    using C unfolding P by (simp add: nth_append less_Suc_eq)
  moreover have "{i. i < ?n \<and> converted_mlp ref i ((ls @ [l]) ! i)} = {i. i < ?n \<and> converted_mlp ref i (ls ! i)}"
    by (auto simp: nth_append)
  then have "mlp' = card {i. i < length (ls @ [l]) \<and> converted_mlp ref i ((ls @ [l]) ! i)}"
    using C unfolding M by (simp add: card_snoc)
  moreover have "output_type con' i j = Some HALF"
    if "i < length (ls @ [l])" "converted_mlp ref i ((ls @ [l]) ! i)" "j < length (ly_outputs ((ls @ [l]) ! i))" for i j
  proof (cases "i = ?n")
    case False
    then have "i < ?n" "(ls @ [l]) ! i = ls ! i" using that(1) by (simp_all add: nth_append)
    then show ?thesis using C F(1) that False by metis
  qed (use F(3) that in simp)
  moreover have "\<forall>i j. output_type con' i j \<in> {None, Some HALF}" using C F(1,2) by metis
  moreover have "\<forall>i j. length (ls @ [l]) \<le> i \<longrightarrow> output_type con' i j = None" using C F(1) by simp
  ultimately show ?thesis unfolding constrained_def r prod.case by blast
qed

lemma set_precisions_constrained: "constrained ref (layers net) (set_precisions ref net)"
proof -
  have "constrained ref ls (fold (constrain_layer ref) (enumerate 0 ls) (no_constraints, 0, 0))" for ls
  proof (induction ls rule: rev_induct)
    case Nil
    then show ?case by (simp add: constrained_def no_constraints_def)
  next
    case (snoc l ls)
    then show ?case using constrain_layer_step [OF snoc] by (simp add: enumerate_append_eq)
  qed
  then show ?thesis by (simp add: set_precisions_def)
qed

text \<open>
  C38: where the thinker is built with INT8.  The program swallows every refusal of the API, so the
  statement names them.  When the program succeeds, the layers with the precision INT8 are the MLP
  products for which the API accepted it; those of them that also accepted all output types are 84,
  and their outputs are half floats (an MLP product that accepted INT8 and refused an output type stays
  INT8 and is not counted); every other product for which the API accepted it runs in half floats, one
  that refused it is unconstrained, and no output has another type.  When nothing is refused, there are
  84 MLP products, exactly they run in INT8, and all their outputs are half floats.  The engine file is
  what the builder made of this configuration.
\<close>

theorem thinker_precisions_exact:
  assumes "thinker_main env seed args d = Inr (bs, config)" and "parsed env = Some net"
  shows "{i. precision (bc_constraints config) i = Some INT8}
      = {i. i < length (layers net) \<and> is_mlp_matmul (layers net ! i) \<and> \<not> no_precision (te_refuses env) i INT8}
    \<and> card {i. i < length (layers net) \<and> converted_mlp (te_refuses env) i (layers net ! i)} = 84
    \<and> (\<forall>i j. i < length (layers net) \<and> converted_mlp (te_refuses env) i (layers net ! i) \<and> j < length (ly_outputs (layers net ! i))
        \<longrightarrow> output_type (bc_constraints config) i j = Some HALF)
    \<and> (\<forall>i<length (layers net). ly_type (layers net ! i) = MATRIX_MULTIPLY \<and> \<not> is_mlp_matmul (layers net ! i)
        \<and> \<not> no_precision (te_refuses env) i HALF \<longrightarrow> precision (bc_constraints config) i = Some HALF)
    \<and> (\<forall>i<length (layers net). ly_type (layers net ! i) = MATRIX_MULTIPLY \<and> \<not> is_mlp_matmul (layers net ! i)
        \<and> no_precision (te_refuses env) i HALF \<longrightarrow> precision (bc_constraints config) i = None)
    \<and> (\<forall>i j. output_type (bc_constraints config) i j \<in> {None, Some HALF})
    \<and> ((\<forall>i t. \<not> no_precision (te_refuses env) i t) \<and> (\<forall>i j. \<not> no_output_type (te_refuses env) i j) \<longrightarrow>
         card {i. i < length (layers net) \<and> is_mlp_matmul (layers net ! i)} = 84
         \<and> {i. precision (bc_constraints config) i = Some INT8} = {i. i < length (layers net) \<and> is_mlp_matmul (layers net ! i)}
         \<and> (\<forall>i j. i < length (layers net) \<and> is_mlp_matmul (layers net ! i) \<and> j < length (ly_outputs (layers net ! i))
             \<longrightarrow> output_type (bc_constraints config) i j = Some HALF))
    \<and> (\<exists>d'. engine env net config d' = Some bs)"
proof -
  obtain con mlp cons where s: "set_precisions (te_refuses env) net = (con, mlp, cons)" by (cases "set_precisions (te_refuses env) net") auto
  have m: "mlp = 84" "bc_constraints config = con" "\<exists>d'. engine env net config d' = Some bs"
    using assms by (auto simp: thinker_main_def s Let_def split_beta split: if_splits option.splits)
  note C = set_precisions_constrained [of "te_refuses env" net, unfolded s constrained_def prod.case]
  then have p: "precision con i = (if i < length (layers net) then layer_precision (te_refuses env) i (layers net ! i) else None)" for i
    by blast
  have int8: "{i. precision con i = Some INT8}
      = {i. i < length (layers net) \<and> is_mlp_matmul (layers net ! i) \<and> \<not> no_precision (te_refuses env) i INT8}"
    unfolding p by (auto simp: layer_precision_def split: if_splits)
  have half: "precision con i = Some HALF"
    if "i < length (layers net)" "ly_type (layers net ! i) = MATRIX_MULTIPLY" "\<not> is_mlp_matmul (layers net ! i)"
      "\<not> no_precision (te_refuses env) i HALF" for i
    using that by (simp add: p layer_precision_def)
  have none: "precision con i = None"
    if "i < length (layers net)" "ly_type (layers net ! i) = MATRIX_MULTIPLY" "\<not> is_mlp_matmul (layers net ! i)"
      "no_precision (te_refuses env) i HALF" for i
    using that by (simp add: p layer_precision_def)
  have c84: "card {i. i < length (layers net) \<and> converted_mlp (te_refuses env) i (layers net ! i)} = 84"
    and outs: "\<forall>i j. i < length (layers net) \<and> converted_mlp (te_refuses env) i (layers net ! i) \<and> j < length (ly_outputs (layers net ! i))
      \<longrightarrow> output_type con i j = Some HALF"
    and types: "\<forall>i j. output_type con i j \<in> {None, Some HALF}" using C m(1) by blast+
  have clean: "card {i. i < length (layers net) \<and> is_mlp_matmul (layers net ! i)} = 84
      \<and> {i. precision con i = Some INT8} = {i. i < length (layers net) \<and> is_mlp_matmul (layers net ! i)}
      \<and> (\<forall>i j. i < length (layers net) \<and> is_mlp_matmul (layers net ! i) \<and> j < length (ly_outputs (layers net ! i))
          \<longrightarrow> output_type con i j = Some HALF)"
    if "\<forall>i t. \<not> no_precision (te_refuses env) i t" "\<forall>i j. \<not> no_output_type (te_refuses env) i j"
  proof -
    have *: "converted_mlp (te_refuses env) i l \<longleftrightarrow> is_mlp_matmul l" for i l
      using that by (auto simp: converted_mlp_def)
    show ?thesis using c84 outs int8 that(1) unfolding * by simp
  qed
  show ?thesis unfolding m(2) using int8 c84 outs half none types clean m(3) by blast
qed

section \<open>Talker\<close>

lemma pin_attention_result:
  "distinct idxs \<Longrightarrow> pin_attention ref idxs (con, k) = (con', k') \<Longrightarrow>
    output_type con' = output_type con \<and> k' = k + length (filter (\<lambda>i. \<not> no_precision ref i BF16) idxs)
    \<and> (\<forall>i. precision con' i = (if i \<in> set idxs \<and> \<not> no_precision ref i BF16 then Some BF16 else precision con i))"
proof (induction idxs arbitrary: con k)
  case (Cons i idxs)
  let ?c = "if no_precision ref i BF16 then con else con\<lparr>precision := (precision con)(i := Some BF16)\<rparr>"
  let ?k = "if no_precision ref i BF16 then k else k + 1"
  have "pin_attention ref idxs (?c, ?k) = (con', k')" using Cons.prems(2)
    by (cases "no_precision ref i BF16") (simp_all add: pin_attention_def)
  from Cons.IH [OF _ this] show ?case using Cons.prems(1) by (auto split: if_splits)
qed (simp add: pin_attention_def)

text \<open>
  The talker's builder pins the products of two rank-4 tensors to BF16, where the API accepts it,
  and constrains nothing else.
\<close>

lemma talker_pins_attention:
  assumes "build_engine env seed prof calib_data d = Inr (bs, config)" and "parsed env = Some net"
  shows "bc_profile config = prof \<and> output_type (bc_constraints config) = (\<lambda>i j. None)
    \<and> (\<forall>i. precision (bc_constraints config) i =
        (if i < length (layers net) \<and> ly_type (layers net ! i) = MATRIX_MULTIPLY
            \<and> (\<forall>s\<in>set (ly_inputs (layers net ! i)). length s = 4) \<and> \<not> no_precision (te_refuses env) i BF16
         then Some BF16 else None))"
proof -
  let ?idxs = "find_attention_matmul_layers net"
  obtain con k where p: "pin_attention (te_refuses env) ?idxs (no_constraints, 0) = (con, k)" by force
  have c: "bc_constraints config = con" "bc_profile config = prof"
    using assms by (auto simp: build_engine_def p Let_def split: option.splits)
  have "distinct ?idxs" unfolding find_attention_matmul_layers_def by (simp add: distinct_map_filter)
  from pin_attention_result [OF this p] have
    r: "output_type con = output_type no_constraints"
      "\<forall>i. precision con i = (if i \<in> set ?idxs \<and> \<not> no_precision (te_refuses env) i BF16 then Some BF16 else precision no_constraints i)"
    by auto
  have "i \<in> set ?idxs \<longleftrightarrow> i < length (layers net) \<and> ly_type (layers net ! i) = MATRIX_MULTIPLY
      \<and> (\<forall>s\<in>set (ly_inputs (layers net ! i)). length s = 4)" for i
    by (auto simp: find_attention_matmul_layers_def in_set_enumerate_eq list_all_iff image_iff)
  then show ?thesis using r c by (simp add: no_constraints_def)
qed

section \<open>Examples\<close>

text \<open>Blocks one after the other, copies that succeed, and a generator that counts.\<close>

definition eg_cuda :: cuda where
  "eg_cuda = \<lparr>cudaMalloc = (\<lambda>blocks n. Inr (foldr (\<lambda>(p, m) q. max (p + m) q) blocks 256)), 
     cudaMemcpy = (\<lambda>d p n. if list_ex (\<lambda>(q, m). q = p \<and> n \<le> m) (live d) then 0 else 1)\<rparr>"

definition eg_rng :: "nat rng" where
  "eg_rng = \<lparr>randint = (\<lambda>r n. (r mod n, r + 1)), samples = (\<lambda>r item scale shape. (replicate (item * elements shape) 7, r))\<rparr>"

definition eg_device :: device where "eg_device = \<lparr>live = [], cell = (\<lambda>a. 0)\<rparr>"

definition eg_specs :: "(string \<times> int list) list" where
  "eg_specs = [(''attention_mask'', [1, -1]), (''past_key_0'', [1, 8, -1, 128])]"

lemma eg_malloc_fresh: "malloc_fresh eg_cuda"
proof -
  have "b \<in> set blocks \<Longrightarrow> fst b + snd b \<le> foldr (\<lambda>(p, m) q. max (p + m) q) blocks q" for b :: "nat \<times> nat" and blocks q
    by (induction blocks) (auto simp: le_max_iff_disj)
  then show ?thesis by (auto simp: malloc_fresh_def eg_cuda_def separate_def)
qed

lemma eg_names: "is_past ''past_key_0''" "\<not> contains ''attention_mask'' ''past_key_0''" "\<not> contains ''position_ids'' ''past_key_0''"
  by (simp_all add: is_past_def)

lemma eg_arrays:
  "synthetic_array eg_rng p (''attention_mask'', [1, -1]) r = Inr (int64_full 1 [1, int p + 1], r)"
  "synthetic_array eg_rng p (''past_key_0'', [1, 8, -1, 128]) r
    = Inr (\<lparr>ha_shape = [1, 8, int p, 128], ha_bytes = replicate (4 * elements [1, 8, int p, 128]) 7\<rparr>, r)"
  using mask_names eg_names by (simp_all add: synthetic_array_def resolve_def eg_rng_def Let_def)

lemma eg_batch: "synthetic_batch eg_rng eg_specs r = Inr ([(''attention_mask'', int64_full 1 [1, int (r mod 201) + 1]),
    (''past_key_0'', \<lparr>ha_shape = [1, 8, int (r mod 201), 128], ha_bytes = replicate (4 * elements [1, 8, int (r mod 201), 128]) 7\<rparr>)], r + 1)"
proof -
  have "randint eg_rng r (MAX_PAST + 1) = (r mod 201, r + 1)" by (simp add: eg_rng_def MAX_PAST_def)
  then show ?thesis by (simp add: synthetic_batch_def eg_specs_def eg_arrays del: One_nat_def add_Suc_right Suc_eq_plus1)
qed

lemma eg_synthetic: "\<exists>b0 b1. make_synthetic_batches eg_rng 3 eg_specs 2 = Inr [b0, b1]"
proof -
  have "[0..<2 :: nat] = [0, 1]" by (simp add: upt_rec)
  then show ?thesis by (simp add: make_synthetic_batches_def eg_batch)
qed

lemma eg_buffers: "\<exists>ptrs d'. alloc_buffers (cuda_alloc eg_cuda) sizes d = Inr (ptrs, d')"
proof -
  have "\<exists>r. res_fold (\<lambda>(name, size) (ptrs, d). res_bind (cuda_alloc eg_cuda size d) (\<lambda>(p, d'). Inr (AList.update name p ptrs, d'))) sizes s = Inr r" for s
    by (induction sizes arbitrary: s) (auto simp: cuda_alloc_def alloc_block_def eg_cuda_def Let_def split: prod.splits)
  then show ?thesis unfolding alloc_buffers_def by (metis surj_pair)
qed

lemma eg_talker:
  obtains cal d1 where "talker_calibrator eg_cuda eg_rng 3 eg_specs 2 None eg_device = Inr (cal, d1)" "length (host_batches cal) = 2"
proof -
  obtain b0 b1 where b: "make_synthetic_batches eg_rng 3 eg_specs 2 = Inr [b0, b1]" using eg_synthetic by blast
  obtain ptrs d1 where a: "alloc_buffers (cuda_alloc eg_cuda) (map (\<lambda>(name, sz). (name, max sz 256)) (max_sizes [b0, b1])) eg_device
      = Inr (ptrs, d1)" using eg_buffers by blast
  have "talker_calibrator eg_cuda eg_rng 3 eg_specs 2 None eg_device
      = Inr (\<lparr>host_batches = [b0, b1], batch_idx = 0, device_ptrs = ptrs\<rparr>, d1)"
    by (simp add: talker_calibrator_def b a)
  then show ?thesis by (rule that) simp
qed

theorem calibration_delivers_witness:
  "\<exists>cal d1 blk outs cal' d2. talker_calibrator eg_cuda eg_rng 3 eg_specs 2 None eg_device = Inr (cal, d1)
    \<and> length (host_batches cal) = 2 \<and> get_batches (copy_to_device eg_cuda) [''attention_mask''] 2 (cal, d1) = Inr (outs, cal', d2)
    \<and> delivered blk (host_batches cal ! 1) (device_ptrs cal) d2 ''attention_mask''"
proof -
  obtain cal d1 where t: "talker_calibrator eg_cuda eg_rng 3 eg_specs 2 None eg_device = Inr (cal, d1)"
    and l: "length (host_batches cal) = 2" by (rule eg_talker)
  have m: "memcpy_in_block eg_cuda" by (auto simp: memcpy_in_block_def eg_cuda_def list_ex_iff)
  have n: "set [''attention_mask''] \<subseteq> fst ` set eg_specs" by (simp add: eg_specs_def)
  from calibration_delivers [OF eg_malloc_fresh m t n, of 2] obtain blk outs cal' d2 where
    "get_batches (copy_to_device eg_cuda) [''attention_mask''] 2 (cal, d1) = Inr (outs, cal', d2)"
    "0 < (2 :: nat) \<and> 2 \<le> length (host_batches cal)
      \<longrightarrow> (\<forall>name\<in>set [''attention_mask'']. delivered blk (host_batches cal ! (2 - 1)) (device_ptrs cal) d2 name)"
    by blast
  then show ?thesis using t l by (simp del: Suc_1) blast
qed

lemma eg_decode_entries: "(''attention_mask'', [1, 1], [1, 100], [1, 201]) \<in> set setup_decode_profiles"
    "(''past_key_0'', [1, 8, 0, 128], [1, 8, 100, 128], [1, 8, 200, 128]) \<in> set setup_decode_profiles"
proof -
  have "''past_key_0'' = ''past_key_'' @ str_nat 0" by code_simp
  moreover have "0 \<in> set [0..<N_LAYERS]" by (simp add: N_LAYERS_def)
  ultimately show "(''past_key_0'', [1, 8, 0, 128], [1, 8, 100, 128], [1, 8, 200, 128]) \<in> set setup_decode_profiles"
    by (auto simp: setup_decode_profiles_def MAX_PAST_def N_HEADS_def HEAD_DIM_def)
qed (simp add: setup_decode_profiles_def MAX_PAST_def)

theorem decode_batches_in_profile_witness:
  "\<exists>bs. make_synthetic_batches eg_rng 3 eg_specs 2 = Inr bs \<and> length bs = 2 \<and> (\<forall>b\<in>set bs. \<forall>name arr. map_of b name = Some arr
    \<longrightarrow> (\<exists>lo opt hi. (name, lo, opt, hi) \<in> set setup_decode_profiles \<and> in_range lo hi (ha_shape arr)))"
proof -
  obtain b0 b1 where b: "make_synthetic_batches eg_rng 3 eg_specs 2 = Inr [b0, b1]" using eg_synthetic by blast
  have r: "\<forall>r k. 0 < k \<longrightarrow> fst (randint eg_rng r k) < k" by (simp add: eg_rng_def)
  have "\<forall>(name, dims)\<in>set eg_specs. \<exists>s. (name, s) \<in> set setup_decode_profiles
      \<and> agrees_with (\<not> is_past name \<and> \<not> contains ''attention_mask'' name) dims s"
    using eg_decode_entries by (force simp: eg_specs_def agrees_with_def less_Suc_eq)
  from decode_batches_in_profile [OF b r this] b show ?thesis by blast
qed

text \<open>The default arguments of the thinker's builder.\<close>

definition eg_thinker_args :: thinker_args where
  "eg_thinker_args = \<lparr>max_input_len = 128, max_kv = 256, opt_input = 39, opt_kv = 128, calib_batches = 0\<rparr>"

definition eg_thinker_specs :: "tensor_input list" where
  "eg_thinker_specs = [\<lparr>ti_name = ''inputs_embeds'', ti_shape = [1, -1, 1024], ti_dtype = HALF\<rparr>,
     \<lparr>ti_name = ''context_lengths'', ti_shape = [-1], ti_dtype = TINT32\<rparr>]"

lemma eg_thinker_batches: "\<exists>bs. make_batches eg_rng 0 eg_thinker_specs 2 39 128 = Inr bs"
proof -
  have "[0..<2 :: nat] = [0, 1]" by (simp add: upt_rec)
  then show ?thesis
    by (simp add: make_batches_def make_batch_def eg_thinker_specs_def thinker_array_def thinker_dim_def
        past_lengths_def seq_lengths_def eg_rng_def Let_def)
qed

theorem thinker_batches_in_profile_witness:
  "\<exists>bs. make_batches eg_rng 0 eg_thinker_specs 2 39 128 = Inr bs \<and> length bs = 2 \<and> (\<forall>b\<in>set bs. \<forall>name arr. map_of b name = Some arr
    \<longrightarrow> (\<exists>lo opt hi. input_shapes eg_thinker_args name = Some (lo, opt, hi) \<and> in_range lo hi (ha_shape arr)))"
proof -
  obtain bs where b: "make_batches eg_rng 0 eg_thinker_specs 2 39 128 = Inr bs" using eg_thinker_batches by blast
  then have b': "make_batches eg_rng 0 eg_thinker_specs 2 (opt_input eg_thinker_args) (opt_kv eg_thinker_args) = Inr bs"
    by (simp add: eg_thinker_args_def)
  have "\<forall>t\<in>set eg_thinker_specs. \<exists>s. input_shapes eg_thinker_args (ti_name t) = Some s
      \<and> agrees_with (thinker_plain (ti_name t)) (ti_shape t) s"
    by (simp add: eg_thinker_specs_def input_shapes_def agrees_with_def thinker_plain_def eg_thinker_args_def HIDDEN_DIM_def less_Suc_eq)
  from thinker_batches_in_profile [OF b' _ _ _ _ _ this] b show ?thesis by (simp add: eg_thinker_args_def)
qed

text \<open>A network of 84 MLP products and one other, on an API that accepts everything.\<close>

definition eg_network :: network where
  "eg_network = \<lparr>layers = replicate 84 \<lparr>ly_type = MATRIX_MULTIPLY, ly_name = ''/mlp/'', ly_inputs = [], ly_outputs = [TFLOAT]\<rparr>
     @ [\<lparr>ly_type = MATRIX_MULTIPLY, ly_name = ''qk'', ly_inputs = [], ly_outputs = [TFLOAT]\<rparr>], inputs = []\<rparr>"

definition eg_trt :: "nat trt_env" where
  "eg_trt = \<lparr>te_cuda = eg_cuda, te_rng = eg_rng, te_refuses = \<lparr>no_precision = (\<lambda>i t. False), no_output_type = (\<lambda>i j. False)\<rparr>,
     parsed = Some eg_network, engine = (\<lambda>net config d. Some [1])\<rparr>"

theorem thinker_precisions_exact_witness:
  "\<exists>bs config. thinker_main eg_trt 0 eg_thinker_args eg_device = Inr (bs, config)
    \<and> {i. precision (bc_constraints config) i = Some INT8} = {i. i < 84} \<and> precision (bc_constraints config) 84 = Some HALF"
proof -
  have mlp: "is_mlp_matmul (layers eg_network ! i) \<longleftrightarrow> i < 84" if "i < 85" for i
    using that by (auto simp: eg_network_def is_mlp_matmul_def nth_append)
  have len: "length (layers eg_network) = 85" by (simp add: eg_network_def)
  have "{i. i < 85 \<and> converted_mlp (te_refuses eg_trt) i (layers eg_network ! i)} = {..<84}"
    using mlp by (auto simp: converted_mlp_def eg_trt_def)
  then have "fst (snd (set_precisions (te_refuses eg_trt) eg_network)) = 84"
    using set_precisions_constrained [of "te_refuses eg_trt" eg_network] len by (auto simp: constrained_def split: prod.splits)
  then obtain con cons where s: "set_precisions (te_refuses eg_trt) eg_network = (con, 84, cons)"
    by (cases "set_precisions (te_refuses eg_trt) eg_network") auto
  have p: "parsed eg_trt = Some eg_network" by (simp add: eg_trt_def)
  have r: "\<exists>bs config. thinker_main eg_trt 0 eg_thinker_args eg_device = Inr (bs, config)"
    using s by (simp add: thinker_main_def p eg_network_def add_profile_def thinker_calibrator_def make_batches_def
        eg_thinker_args_def max_sizes_def alloc_buffers_def of_calib_def eg_trt_def Let_def)
  then obtain bs config where r: "thinker_main eg_trt 0 eg_thinker_args eg_device = Inr (bs, config)" by blast
  from thinker_precisions_exact [OF r p] mlp len have
    "{i. precision (bc_constraints config) i = Some INT8} = {i. i < 84}" by (auto simp: eg_trt_def)
  moreover have "precision (bc_constraints config) 84 = Some HALF"
    using thinker_precisions_exact [OF r p] mlp [of 84] len by (auto simp: eg_trt_def eg_network_def nth_append)
  ultimately show ?thesis using r by blast
qed

end
