(* ===== verification/Base64.thy ===== *)
theory Base64
  imports Wav_File
begin

text \<open>
  Base64 as the streaming scripts use it: \<^verbatim>\<open>b64encode\<close> of the samples that
  \<^verbatim>\<open>scripts/test_streaming_worker.py\<close> sends, and the lenient \<^verbatim>\<open>b64decode\<close> of the chunks that
  \<^verbatim>\<open>models/qwen3/run_qwen3_tts_worker_smoke.py\<close> receives, character by character with the state
  of \<^verbatim>\<open>binascii\<close>: the position in a group of four, the bits left over, and the pads seen.
\<close>

definition alphabet :: string where
  "alphabet = ''ABCDEFGHIJKLMNOPQRSTUVWXYZabcdefghijklmnopqrstuvwxyz0123456789+/''"

definition b64_char :: "nat \<Rightarrow> char" where
  "b64_char n = alphabet ! n"

definition sextet :: "char \<Rightarrow> nat option" where
  "sextet c = (if c \<in> set alphabet then Some (length (takeWhile (\<lambda>d. d \<noteq> c) alphabet)) else None)"

fun b64encode :: "bytes \<Rightarrow> string" where
  "b64encode [] = []"
| "b64encode [a] = [b64_char (a div 4), b64_char (a mod 4 * 16), CHR ''='', CHR ''='']"
| "b64encode [a, b] = [b64_char (a div 4), b64_char (a mod 4 * 16 + b div 16), b64_char (b mod 16 * 4), CHR ''='']"
| "b64encode (a # b # c # bs) =
     b64_char (a div 4) # b64_char (a mod 4 * 16 + b div 16) # b64_char (b mod 16 * 4 + c div 64) # b64_char (c mod 64)
     # b64encode bs"

text \<open>A character outside the alphabet is skipped; enough pads end the input.\<close>

fun b64_scan :: "nat \<Rightarrow> nat \<Rightarrow> nat \<Rightarrow> bytes \<Rightarrow> string \<Rightarrow> vexc + bytes" where
  "b64_scan quad left pads out [] = (if quad = 0 then Inr out else Inl ValueErr)"
| "b64_scan quad left pads out (c # s) =
     (if c = CHR ''='' then
        if 2 \<le> quad \<and> 4 \<le> quad + (pads + 1) then Inr out
        else b64_scan quad left (if 2 \<le> quad then pads + 1 else pads) out s
      else case sextet c of
        None \<Rightarrow> b64_scan quad left pads out s
      | Some v \<Rightarrow>
          if quad = 0 then b64_scan 1 v 0 out s
          else if quad = 1 then b64_scan 2 (v mod 16) 0 (out @ [left * 4 + v div 16]) s
          else if quad = 2 then b64_scan 3 (v mod 4) 0 (out @ [left * 16 + v div 4]) s
          else b64_scan 0 0 0 (out @ [left * 64 + v]) s)"

definition b64decode :: "string \<Rightarrow> vexc + bytes" where
  "b64decode s = (if list_all (\<lambda>c. of_char c < (128 :: nat)) s then b64_scan 0 0 0 [] s else Inl ValueErr)"

section \<open>Round trip\<close>

lemma index_nth: "distinct xs \<Longrightarrow> n < length xs \<Longrightarrow> length (takeWhile (\<lambda>d. d \<noteq> xs ! n) xs) = n"
proof (induction xs arbitrary: n)
  case (Cons x xs)
  then show ?case by (cases n) (auto simp: nth_Cons')
qed simp

lemma alphabet_ok: "length alphabet = 64" "distinct alphabet" "CHR ''='' \<notin> set alphabet" "list_all (\<lambda>c. of_char c < (128 :: nat)) alphabet"
  by code_simp+

lemma b64_char_ok:
  assumes "n < 64"
  shows "sextet (b64_char n) = Some n" "b64_char n \<noteq> CHR ''=''" "of_char (b64_char n) < (128 :: nat)"
proof -
  have m: "b64_char n \<in> set alphabet" using assms alphabet_ok(1) by (simp add: b64_char_def)
  then show "sextet (b64_char n) = Some n"
    using index_nth [OF alphabet_ok(2), of n] assms alphabet_ok(1) by (simp add: sextet_def b64_char_def)
  show "b64_char n \<noteq> CHR ''=''" using m alphabet_ok(3) by metis
  show "of_char (b64_char n) < (128 :: nat)" using m alphabet_ok(4) by (simp add: list_all_iff)
qed

lemma scan_char: "n < 64 \<Longrightarrow> b64_scan quad left pads out (b64_char n # s) =
    (if quad = 0 then b64_scan 1 n 0 out s
     else if quad = 1 then b64_scan 2 (n mod 16) 0 (out @ [left * 4 + n div 16]) s
     else if quad = 2 then b64_scan 3 (n mod 4) 0 (out @ [left * 16 + n div 4]) s
     else b64_scan 0 0 0 (out @ [left * 64 + n]) s)"
  using b64_char_ok [of n] by simp

lemma scan_groups:
  assumes "n1 < 64" and "n2 < 64"
  shows "b64_scan 0 0 0 out [b64_char n1, b64_char n2, CHR ''='', CHR ''=''] = Inr (out @ [n1 * 4 + n2 div 16])"
    and "n3 < 64 \<Longrightarrow> b64_scan 0 0 0 out [b64_char n1, b64_char n2, b64_char n3, CHR ''='']
      = Inr (out @ [n1 * 4 + n2 div 16, n2 mod 16 * 16 + n3 div 4])"
    and "n3 < 64 \<Longrightarrow> n4 < 64 \<Longrightarrow> b64_scan 0 0 0 out (b64_char n1 # b64_char n2 # b64_char n3 # b64_char n4 # s)
      = b64_scan 0 0 0 (out @ [n1 * 4 + n2 div 16, n2 mod 16 * 16 + n3 div 4, n3 mod 4 * 64 + n4]) s"
proof -
  note c = scan_char [OF assms(1)] scan_char [OF assms(2)]
  have p: "b64_scan 2 l 0 out [CHR ''='', CHR ''=''] = Inr out" "b64_scan 3 l 0 out [CHR ''=''] = Inr out" for l out
    by simp_all
  show "b64_scan 0 0 0 out [b64_char n1, b64_char n2, CHR ''='', CHR ''=''] = Inr (out @ [n1 * 4 + n2 div 16])"
    by (simp only: c p) simp
  show "b64_scan 0 0 0 out [b64_char n1, b64_char n2, b64_char n3, CHR ''='']
      = Inr (out @ [n1 * 4 + n2 div 16, n2 mod 16 * 16 + n3 div 4])" if "n3 < 64"
    by (simp only: c p scan_char [OF that]) simp
  show "b64_scan 0 0 0 out (b64_char n1 # b64_char n2 # b64_char n3 # b64_char n4 # s)
      = b64_scan 0 0 0 (out @ [n1 * 4 + n2 div 16, n2 mod 16 * 16 + n3 div 4, n3 mod 4 * 64 + n4]) s" if "n3 < 64" "n4 < 64"
    by (simp only: c scan_char [OF that(1)] scan_char [OF that(2)]) simp
qed

lemma join_bits:
  fixes a b c :: nat
  assumes "a < 256" and "b < 256" and "c < 256"
  shows "a div 4 * 4 + (a mod 4 * 16 + b div 16) div 16 = a" and "a div 4 * 4 + a mod 4 * 16 div 16 = a"
    and "(a mod 4 * 16 + b div 16) mod 16 * 16 + (b mod 16 * 4 + c div 64) div 4 = b"
    and "(a mod 4 * 16 + b div 16) mod 16 * 16 + b mod 16 * 4 div 4 = b"
    and "(b mod 16 * 4 + c div 64) mod 4 * 64 + c mod 64 = c"
proof -
  have "b div 16 < 16" "c div 64 < 4" using assms by auto
  then show "a div 4 * 4 + (a mod 4 * 16 + b div 16) div 16 = a" "a div 4 * 4 + a mod 4 * 16 div 16 = a"
    "(a mod 4 * 16 + b div 16) mod 16 * 16 + (b mod 16 * 4 + c div 64) div 4 = b"
    "(a mod 4 * 16 + b div 16) mod 16 * 16 + b mod 16 * 4 div 4 = b"
    "(b mod 16 * 4 + c div 64) mod 4 * 64 + c mod 64 = c"
    by simp_all
qed

lemma scan_encoded: "list_all (\<lambda>b. b < 256) bs \<Longrightarrow> b64_scan 0 0 0 out (b64encode bs) = Inr (out @ bs)"
proof (induction bs arbitrary: out rule: b64encode.induct)
  case (2 a)
  then have a: "a div 4 < 64" "a mod 4 * 16 < 64" "a < 256" by auto
  show ?case unfolding b64encode.simps scan_groups(1) [OF a(1,2)] join_bits(2) [OF a(3) a(3) a(3)] ..
next
  case (3 a b)
  then have a: "a div 4 < 64" "a mod 4 * 16 + b div 16 < 64" "b mod 16 * 4 < 64" "a < 256" "b < 256" by auto
  show ?case unfolding b64encode.simps scan_groups(2) [OF a(1-3)] join_bits(1,4) [OF a(4,5,5)] ..
next
  case (4 a b c bs)
  then have a: "a div 4 < 64" "a mod 4 * 16 + b div 16 < 64" "b mod 16 * 4 + c div 64 < 64" "c mod 64 < 64"
      "a < 256" "b < 256" "c < 256" by auto
  have "b64_scan 0 0 0 out (b64encode (a # b # c # bs)) = b64_scan 0 0 0 (out @ [a, b, c]) (b64encode bs)"
    unfolding b64encode.simps scan_groups(3) [OF a(1-4)] join_bits(1,3,5) [OF a(5-7)] ..
  then show ?case using 4 by simp
qed simp

lemma encoded_ascii: "list_all (\<lambda>b. b < 256) bs \<Longrightarrow> list_all (\<lambda>c. of_char c < (128 :: nat)) (b64encode bs)"
proof (induction bs rule: b64encode.induct)
  case (2 a)
  then show ?case by (simp add: b64_char_ok)
next
  case (3 a b)
  then have "a mod 4 * 16 + b div 16 < 64" "a div 4 < 64" "b mod 16 * 4 < 64" by auto
  with 3 show ?case by (simp add: b64_char_ok)
next
  case (4 a b c bs)
  then have "a mod 4 * 16 + b div 16 < 64" "b mod 16 * 4 + c div 64 < 64" "a div 4 < 64" "c mod 64 < 64" by auto
  with 4 show ?case by (simp add: b64_char_ok)
qed simp

lemma b64_roundtrip: "list_all (\<lambda>b. b < 256) bs \<Longrightarrow> b64decode (b64encode bs) = Inr bs"
  by (simp add: b64decode_def encoded_ascii scan_encoded)

end
