(* ===== verification/Tts_Smoke.thy ===== *)
theory Tts_Smoke
  imports Base64 Py_Text
begin

text \<open>
  The streaming smoke run \<^verbatim>\<open>models/qwen3/run_qwen3_tts_worker_smoke.py\<close>: warm-up and measured
  requests to one worker process, the events of each request up to \<^verbatim>\<open>done\<close>, and the files they
  leave.  A worker is a function from the requests it has received to the lines it then writes,
  each parsed or not; when the lines are used up it has exited.  Times are left out.
\<close>

section \<open>Arguments\<close>

record smoke_args =
  sm_text :: json
  sm_language :: json
  sm_speaker :: string
  embedding :: string
  async_code2wav :: json
  option_values :: "json list"
  output_pcm :: string
  output_wav :: string
  repeat :: int
  warmup_runs :: int

datatype smoke_error = NotReady | BadReady | WorkerExited | BadJson | NotAnObject | WorkerError | ChunkError vexc | WavError vexc

type_synonym line = "json option"

type_synonym tts_worker = "dict list \<Rightarrow> line list"

text \<open>The command line: older workers do not know the backend options.\<close>

definition worker_cmd :: "string \<Rightarrow> (string \<times> string) list \<Rightarrow> string \<Rightarrow> bool \<Rightarrow> string list" where
  "worker_cmd worker dirs talker_engine knows_backend =
     worker # concat (map (\<lambda>(k, v). [k, v]) dirs)
     @ (if knows_backend
        then [''--qwen3TtsTalkerBackend'', ''qwen3_tts_explicit_kv'', ''--qwen3TtsTalkerEngine'', talker_engine,
              ''--codePredictorBackend'', ''qwen3_tts_native'', ''--qwen3TtsTextProjection'', ''host_fp32'',
              ''--qwen3TtsPromptKvCache'', ''0'']
        else [])"

section \<open>One request\<close>

definition is_warmup :: "smoke_args \<Rightarrow> nat \<Rightarrow> bool" where
  "is_warmup args run_idx \<longleftrightarrow> int run_idx < warmup_runs args"

definition req_id :: "smoke_args \<Rightarrow> nat \<Rightarrow> string" where
  "req_id args run_idx =
     (if is_warmup args run_idx then ''warmup_'' @ str_nat (run_idx + 1)
      else ''smoke_'' @ str_int (int run_idx - warmup_runs args + 1))"

text \<open>The arguments that are copied under their own names.\<close>

definition option_names :: "string list" where
  "option_names =
     [''first_chunk_frames'', ''chunk_frames'', ''adaptive_chunks'', ''max_chunk_frames'', ''chunk_growth_frames'',
      ''max_audio_length'', ''min_audio_length'', ''talker_temperature'', ''talker_top_k'', ''talker_top_p'',
      ''predictor_temperature'', ''predictor_top_k'', ''predictor_top_p'', ''repetition_penalty'']"

definition smoke_request :: "smoke_args \<Rightarrow> nat \<Rightarrow> dict" where
  "smoke_request args run_idx =
     [(''id'', JStr (req_id args run_idx)), (''text'', sm_text args), (''language'', sm_language args),
      (''stream'', JBool True), (''stream_only'', JBool True), (''async_code2wav'', async_code2wav args),
      (''chunk_transport'', JStr ''base64''), (''chunk_format'', JStr ''pcm_s16le'')]
     @ zip option_names (option_values args) @ [(''codec_eos_logit_offset'', JFloat 0)]
     @ [if embedding args \<noteq> [] then (''speaker_embedding_b64'', JStr (embedding args)) else (''speaker'', JStr (sm_speaker args))]"

record received =
  chunks :: nat
  pcm_parts :: "bytes list"

text \<open>\<^verbatim>\<open>event.get("audio_b64", "")\<close> and its decoding.\<close>

definition chunk_audio :: "dict \<Rightarrow> vexc + bytes" where
  "chunk_audio event =
     (case map_of event ''audio_b64'' of
        None \<Rightarrow> b64decode []
      | Some (JStr s) \<Rightarrow> b64decode s
      | Some _ \<Rightarrow> Inl OtherErr)"

fun read_events :: "line list \<Rightarrow> received \<Rightarrow> smoke_error + received \<times> line list" where
  "read_events [] got = Inl WorkerExited"
| "read_events (None # ls) got = Inl BadJson"
| "read_events (Some (JObj event) # ls) got =
     (if \<not> truthy (dget event ''ok'') then Inl WorkerError
      else if dget event ''event'' = JStr ''chunk'' then
        (case chunk_audio event of
           Inl e \<Rightarrow> Inl (ChunkError e)
         | Inr chunk \<Rightarrow> read_events ls \<lparr>chunks = chunks got + 1, pcm_parts = pcm_parts got @ [chunk]\<rparr>)
      else if dget event ''event'' = JStr ''done'' then Inr (got, ls)
      else read_events ls got)"
| "read_events (Some v # ls) got = Inl NotAnObject"

section \<open>Files\<close>

text \<open>\<^verbatim>\<open>os.path.splitext\<close>: the last dot of the last component, after its leading dots.\<close>

definition basename_of :: "string \<Rightarrow> string" where
  "basename_of path = rev (takeWhile (\<lambda>c. c \<noteq> CHR ''/'') (rev path))"

definition split_ext :: "string \<Rightarrow> string \<times> string" where
  "split_ext path =
     (let name = basename_of path; ext = rev (takeWhile (\<lambda>c. c \<noteq> CHR ''.'') (rev name)) in
      if CHR ''.'' \<in> set name \<and> \<not> list_all (\<lambda>c. c = CHR ''.'') (take (length name - length ext - 1) name)
      then (take (length path - length ext - 1) path, CHR ''.'' # ext)
      else (path, []))"

definition run_path :: "nat \<Rightarrow> string \<Rightarrow> string \<Rightarrow> string \<Rightarrow> string" where
  "run_path nruns rid path default_ext =
     (if 1 < nruns \<and> path \<noteq> [] then
        let (root, ext) = split_ext path in root @ ''.'' @ rid @ (if ext = [] then default_ext else ext)
      else path)"

type_synonym files = "string \<Rightarrow> bytes option"

definition write_wav :: "string \<Rightarrow> bytes \<Rightarrow> files \<Rightarrow> smoke_error + files" where
  "write_wav path pcm fs =
     (case wav_write 1 2 24000 pcm of Inl e \<Rightarrow> Inl (WavError e) | Inr file \<Rightarrow> Inr (fs(path \<mapsto> file)))"

record summary =
  su_id :: string
  su_warmup :: bool
  su_chunks :: nat
  su_bytes :: nat
  su_pcm :: string
  su_wav :: string

record smoke_state =
  sent :: "dict list"
  pending :: "line list"
  written :: files
  summaries :: "summary list"

section \<open>Runs\<close>

definition total_runs :: "smoke_args \<Rightarrow> nat" where
  "total_runs args = nat (max 1 (repeat args + warmup_runs args))"

definition pcm_path :: "smoke_args \<Rightarrow> nat \<Rightarrow> string" where
  "pcm_path args i = run_path (total_runs args) (req_id args i) (output_pcm args) ''.pcm''"

definition wav_path :: "smoke_args \<Rightarrow> nat \<Rightarrow> string" where
  "wav_path args i = run_path (total_runs args) (req_id args i) (output_wav args) ''.wav''"

definition smoke_run :: "smoke_args \<Rightarrow> tts_worker \<Rightarrow> nat \<Rightarrow> smoke_state \<Rightarrow> smoke_error + smoke_state" where
  "smoke_run args w run_idx st =
     (let warm = is_warmup args run_idx; pcm_to = pcm_path args run_idx; wav_to = wav_path args run_idx;
          sent' = sent st @ [smoke_request args run_idx] in
      res_bind (read_events (pending st @ w sent') \<lparr>chunks = 0, pcm_parts = []\<rparr>) (\<lambda>(got, rest).
        let pcm = concat (pcm_parts got);
            fs = (if pcm_to \<noteq> [] \<and> \<not> warm then (written st)(pcm_to \<mapsto> pcm) else written st)
        in res_bind (if wav_to \<noteq> [] \<and> \<not> warm then write_wav wav_to pcm fs else Inr fs) (\<lambda>fs'.
          Inr \<lparr>sent = sent', pending = rest, written = fs',
               summaries = summaries st @ [\<lparr>su_id = req_id args run_idx, su_warmup = warm, su_chunks = chunks got,
                 su_bytes = length pcm, su_pcm = (if warm then [] else pcm_to), su_wav = (if warm then [] else wav_to)\<rparr>]\<rparr>)))"

text \<open>The whole program, from the first line of the worker.\<close>

definition smoke_main :: "smoke_args \<Rightarrow> tts_worker \<Rightarrow> files \<Rightarrow> smoke_error + smoke_state" where
  "smoke_main args w fs =
     (case w [] of
        [] \<Rightarrow> Inl NotReady
      | None # ls \<Rightarrow> Inl BadJson
      | Some (JObj ready) # ls \<Rightarrow>
          if dget ready ''event'' \<noteq> JStr ''ready'' then Inl BadReady
          else res_fold (smoke_run args w) [0..<total_runs args] \<lparr>sent = [], pending = ls, written = fs, summaries = []\<rparr>
      | Some v # ls \<Rightarrow> Inl NotAnObject)"

end
