(* ===== verification/Tts_Smoke_Props.thy ===== *)
theory Tts_Smoke_Props
  imports Tts_Smoke
begin

text \<open>
  What a successful smoke run has read and written: every line of the worker once, in order; for
  each request the events up to its \<^verbatim>\<open>done\<close>; and for each measured run the decoded audio in a file
  of its own.
\<close>

section \<open>Events\<close>

definition is_event :: "string \<Rightarrow> dict \<Rightarrow> bool" where
  "is_event e event \<longleftrightarrow> dget event ''event'' = JStr e"

text \<open>The events of one request, and the audio in them.\<close>

definition answers :: "dict list \<Rightarrow> bytes list \<Rightarrow> bool" where
  "answers evs parts \<longleftrightarrow> evs \<noteq> [] \<and> is_event ''done'' (last evs) \<and> (\<forall>e\<in>set (butlast evs). \<not> is_event ''done'' e)
     \<and> (\<forall>e\<in>set evs. truthy (dget e ''ok'')) \<and> map chunk_audio (filter (is_event ''chunk'') evs) = map Inr parts"

lemma read_events_spec:
  assumes "read_events ls got = Inr (got', rest)"
  shows "\<exists>evs parts. ls = map (\<lambda>e. Some (JObj e)) evs @ rest \<and> answers evs parts
    \<and> pcm_parts got' = pcm_parts got @ parts \<and> chunks got' = chunks got + length parts"
  using assms
proof (induction ls got rule: read_events.induct)
  case (3 event ls got)
  have ok: "truthy (dget event ''ok'')" using "3.prems" by (simp split: if_splits)
  consider (chunk) c where "is_event ''chunk'' event" "chunk_audio event = Inr c"
      "read_events ls \<lparr>chunks = chunks got + 1, pcm_parts = pcm_parts got @ [c]\<rparr> = Inr (got', rest)"
    | (fin) "is_event ''done'' event" "\<not> is_event ''chunk'' event" "got' = got" "rest = ls"
    | (other) "\<not> is_event ''done'' event" "\<not> is_event ''chunk'' event" "read_events ls got = Inr (got', rest)"
    using "3.prems" ok by (auto simp: is_event_def split: if_splits sum.splits)
  then show ?case
  proof cases
    case chunk
    with "3.IH"(1) ok obtain evs parts where IH: "ls = map (\<lambda>e. Some (JObj e)) evs @ rest" "answers evs parts"
        "pcm_parts got' = (pcm_parts got @ [c]) @ parts" "chunks got' = chunks got + 1 + length parts"
      by (fastforce simp: is_event_def)
    have "answers (event # evs) (c # parts)" using IH(2) chunk ok by (auto simp: answers_def is_event_def)
    then show ?thesis using IH by (intro exI [of _ "event # evs"] exI [of _ "c # parts"]) simp
  next
    case fin
    then have "answers [event] []" using ok by (simp add: answers_def)
    then show ?thesis using fin by (intro exI [of _ "[event]"] exI [of _ "[]"]) simp
  next
    case other
    with "3.IH"(2) ok obtain evs parts where IH: "ls = map (\<lambda>e. Some (JObj e)) evs @ rest" "answers evs parts"
        "pcm_parts got' = pcm_parts got @ parts" "chunks got' = chunks got + length parts"
      by (fastforce simp: is_event_def)
    have "answers (event # evs) parts" using IH(2) other ok by (auto simp: answers_def)
    then show ?thesis using IH by (intro exI [of _ "event # evs"] exI [of _ parts]) simp
  qed
qed simp_all

text \<open>A worker that ends the lines of an answer with its only \<^verbatim>\<open>done\<close>.\<close>

definition one_done :: "line list \<Rightarrow> bool" where
  "one_done ls \<longleftrightarrow> (\<exists>evs. ls = map (\<lambda>e. Some (JObj e)) evs \<and> evs \<noteq> [] \<and> is_event ''done'' (last evs)
     \<and> (\<forall>e\<in>set (butlast evs). \<not> is_event ''done'' e))"

lemma answers_take_block:
  assumes "one_done ls" and "ls = map (\<lambda>e. Some (JObj e)) evs @ rest" and "answers evs parts"
  shows "rest = []"
proof (rule ccontr)
  assume "rest \<noteq> []"
  obtain bs where b: "ls = map (\<lambda>e. Some (JObj e)) bs" "\<forall>e\<in>set (butlast bs). \<not> is_event ''done'' e"
    using assms(1) by (auto simp: one_done_def)
  then obtain us cs where c: "bs = us @ cs" "map (\<lambda>e. Some (JObj e)) us = map (\<lambda>e. Some (JObj e)) evs"
      "rest = map (\<lambda>e. Some (JObj e)) cs"
    using assms(2) by (auto simp: map_eq_append_conv append_eq_map_conv)
  have "inj (\<lambda>e. Some (JObj e))" by (simp add: inj_def)
  from map_injective [OF c(2) this] c(1) have c: "bs = evs @ cs" "rest = map (\<lambda>e. Some (JObj e)) cs"
    using c(3) by simp_all
  then have "set evs \<subseteq> set (butlast bs)" using \<open>rest \<noteq> []\<close> by (auto simp: butlast_append)
  moreover have "last evs \<in> set evs" "is_event ''done'' (last evs)" using assms(3) by (auto simp: answers_def)
  ultimately show False using b(2) by blast
qed

section \<open>Paths\<close>

lemma run_path_inject:
  "1 < nruns \<Longrightarrow> path \<noteq> [] \<Longrightarrow> run_path nruns a path e = run_path nruns b path e \<longleftrightarrow> a = b"
  by (simp add: run_path_def split_beta)

lemma run_path_empty: "run_path nruns a path e = [] \<longleftrightarrow> path = []"
  by (simp add: run_path_def split_beta)

lemma req_id_inject: "req_id args i = req_id args j \<longleftrightarrow> i = j"
proof
  assume e: "req_id args i = req_id args j"
  have m: "str_int (int k - warmup_runs args + 1) = str_nat (nat (int k - warmup_runs args + 1))" if "\<not> is_warmup args k" for k
    using that by (simp add: str_int_def is_warmup_def)
  show "i = j"
  proof (cases "is_warmup args i")
    case True
    then have "is_warmup args j" using e by (auto simp: req_id_def split: if_splits)
    then show ?thesis using True e by (simp add: req_id_def)
  next
    case False
    then have j: "\<not> is_warmup args j" using e by (auto simp: req_id_def split: if_splits)
    then have "nat (int i - warmup_runs args + 1) = nat (int j - warmup_runs args + 1)"
      using False e m [OF False] m [OF j] by (simp add: req_id_def)
    then show ?thesis using False j by (simp add: is_warmup_def)
  qed
qed simp

lemma paths_inject:
  assumes "i < total_runs args" and "j < total_runs args" and "i \<noteq> j"
  shows "pcm_path args i \<noteq> [] \<Longrightarrow> pcm_path args i \<noteq> pcm_path args j"
    and "wav_path args i \<noteq> [] \<Longrightarrow> wav_path args i \<noteq> wav_path args j"
  using assms run_path_inject [of "total_runs args"] req_id_inject [of args i j]
  by (auto simp: pcm_path_def wav_path_def run_path_empty)

section \<open>Runs\<close>

text \<open>What the worker has written after so many requests.\<close>

definition worker_lines :: "smoke_args \<Rightarrow> tts_worker \<Rightarrow> nat \<Rightarrow> line list" where
  "worker_lines args w n = concat (map (\<lambda>k. w (map (smoke_request args) [0..<k])) [0..<Suc n])"

text \<open>What it writes when it gets request \<open>i\<close>.\<close>

definition answer_to :: "smoke_args \<Rightarrow> tts_worker \<Rightarrow> nat \<Rightarrow> line list" where
  "answer_to args w i = w (map (smoke_request args) [0..<Suc i])"

definition summary_of :: "smoke_args \<Rightarrow> nat \<Rightarrow> bytes list \<Rightarrow> summary" where
  "summary_of args i parts =
     \<lparr>su_id = req_id args i, su_warmup = is_warmup args i, su_chunks = length parts, su_bytes = length (concat parts),
      su_pcm = (if is_warmup args i then [] else pcm_path args i), su_wav = (if is_warmup args i then [] else wav_path args i)\<rparr>"

text \<open>The files of a run.\<close>

definition run_files :: "smoke_args \<Rightarrow> files \<Rightarrow> nat \<Rightarrow> bytes list \<Rightarrow> bool" where
  "run_files args fs i parts \<longleftrightarrow> (\<not> is_warmup args i \<longrightarrow>
     (pcm_path args i \<noteq> [] \<longrightarrow> fs (pcm_path args i) = Some (concat parts))
     \<and> (wav_path args i \<noteq> [] \<longrightarrow> (\<exists>file. fs (wav_path args i) = Some file \<and> wav_write 1 2 24000 (concat parts) = Inr file)))"

definition separate_outputs :: "smoke_args \<Rightarrow> bool" where
  "separate_outputs args \<longleftrightarrow> (\<forall>i<total_runs args. \<forall>j<total_runs args. pcm_path args i \<noteq> [] \<longrightarrow> pcm_path args i \<noteq> wav_path args j)"

definition own_path :: "smoke_args \<Rightarrow> nat \<Rightarrow> string \<Rightarrow> bool" where
  "own_path args i path \<longleftrightarrow> \<not> is_warmup args i \<and> path \<noteq> [] \<and> (path = pcm_path args i \<or> path = wav_path args i)"

lemma smoke_run_Inr:
  assumes "smoke_run args w i st = Inr st'"
  shows "\<exists>evs parts. pending st @ w (sent st @ [smoke_request args i]) = map (\<lambda>e. Some (JObj e)) evs @ pending st' \<and> answers evs parts
    \<and> sent st' = sent st @ [smoke_request args i] \<and> summaries st' = summaries st @ [summary_of args i parts]
    \<and> (\<forall>path. \<not> own_path args i path \<longrightarrow> written st' path = written st path)
    \<and> ((pcm_path args i \<noteq> [] \<longrightarrow> pcm_path args i \<noteq> wav_path args i) \<longrightarrow> run_files args (written st') i parts)"
proof -
  obtain got rest where r: "read_events (pending st @ w (sent st @ [smoke_request args i])) \<lparr>chunks = 0, pcm_parts = []\<rparr> = Inr (got, rest)"
    using assms by (auto simp: smoke_run_def Let_def)
  obtain evs parts where e: "pending st @ w (sent st @ [smoke_request args i]) = map (\<lambda>e. Some (JObj e)) evs @ rest" "answers evs parts"
      "pcm_parts got = parts" "chunks got = length parts" using read_events_spec [OF r] by auto
  define fs where "fs = (if pcm_path args i \<noteq> [] \<and> \<not> is_warmup args i then (written st)(pcm_path args i \<mapsto> concat parts) else written st)"
  obtain fs' where f: "(if wav_path args i \<noteq> [] \<and> \<not> is_warmup args i then write_wav (wav_path args i) (concat parts) fs else Inr fs) = Inr fs'"
      "st' = \<lparr>sent = sent st @ [smoke_request args i], pending = rest, written = fs', summaries = summaries st @ [summary_of args i parts]\<rparr>"
    using assms r e(3,4) by (auto simp: smoke_run_def Let_def summary_of_def fs_def split: if_splits)
  have o: "\<not> own_path args i path \<longrightarrow> fs' path = written st path" for path
    using f(1) by (auto simp: own_path_def fs_def write_wav_def split: if_splits sum.splits)
  have "run_files args fs' i parts" if "pcm_path args i \<noteq> [] \<longrightarrow> pcm_path args i \<noteq> wav_path args i"
    using f(1) that by (auto simp: run_files_def fs_def write_wav_def split: if_splits sum.splits)
  then show ?thesis using e f(2) o by (intro exI [of _ evs] exI [of _ parts]) simp
qed

lemma run_files_frame:
  "run_files args fs i parts \<Longrightarrow> (\<And>path. own_path args i path \<Longrightarrow> fs' path = fs path) \<Longrightarrow> run_files args fs' i parts"
  by (auto simp: run_files_def own_path_def)

lemma own_paths_differ:
  assumes "separate_outputs args" and "i < total_runs args" and "j < total_runs args" and "i \<noteq> j" and "own_path args i path"
  shows "\<not> own_path args j path"
  using assms paths_inject [OF assms(2-4)] unfolding own_path_def separate_outputs_def by metis

lemma smoke_runs:
  assumes "n \<le> total_runs args" and "w [] = ready # ls"
    and "res_fold (smoke_run args w) [0..<n] \<lparr>sent = [], pending = ls, written = fs, summaries = []\<rparr> = Inr st"
  shows "\<exists>evss partss. length evss = n \<and> length partss = n \<and> sent st = map (smoke_request args) [0..<n]
    \<and> worker_lines args w n = ready # map (\<lambda>e. Some (JObj e)) (concat evss) @ pending st
    \<and> summaries st = map (\<lambda>i. summary_of args i (partss ! i)) [0..<n]
    \<and> (\<forall>i<n. answers (evss ! i) (partss ! i))
    \<and> (separate_outputs args \<longrightarrow> (\<forall>i<n. run_files args (written st) i (partss ! i)))
    \<and> (\<forall>path. (\<forall>i<n. \<not> own_path args i path) \<longrightarrow> written st path = fs path)
    \<and> (ls = [] \<and> (\<forall>k<n. one_done (answer_to args w k)) \<longrightarrow>
         pending st = [] \<and> (\<forall>i<n. map (\<lambda>e. Some (JObj e)) (evss ! i) = answer_to args w i))"
  using assms(1,3)
proof (induction n arbitrary: st)
  case 0
  then show ?case using assms(2) by (auto simp: worker_lines_def)
next
  case (Suc n)
  obtain st0 where st0: "res_fold (smoke_run args w) [0..<n] \<lparr>sent = [], pending = ls, written = fs, summaries = []\<rparr> = Inr st0"
      "smoke_run args w n st0 = Inr st"
    using Suc.prems(2) by (auto simp: res_fold_append)
  obtain evss partss where IH: "length evss = n" "length partss = n" "sent st0 = map (smoke_request args) [0..<n]"
      "worker_lines args w n = ready # map (\<lambda>e. Some (JObj e)) (concat evss) @ pending st0"
      "summaries st0 = map (\<lambda>i. summary_of args i (partss ! i)) [0..<n]"
      "\<forall>i<n. answers (evss ! i) (partss ! i)"
      "separate_outputs args \<longrightarrow> (\<forall>i<n. run_files args (written st0) i (partss ! i))"
      "\<forall>path. (\<forall>i<n. \<not> own_path args i path) \<longrightarrow> written st0 path = fs path"
      "ls = [] \<and> (\<forall>k<n. one_done (answer_to args w k)) \<longrightarrow>
         pending st0 = [] \<and> (\<forall>i<n. map (\<lambda>e. Some (JObj e)) (evss ! i) = answer_to args w i)"
    using Suc.IH [OF Suc_leD [OF Suc.prems(1)] st0(1)] by blast
  obtain evs parts where R: "pending st0 @ w (sent st0 @ [smoke_request args n]) = map (\<lambda>e. Some (JObj e)) evs @ pending st" "answers evs parts"
      "sent st = sent st0 @ [smoke_request args n]" "summaries st = summaries st0 @ [summary_of args n parts]"
      "\<forall>path. \<not> own_path args n path \<longrightarrow> written st path = written st0 path"
      "(pcm_path args n \<noteq> [] \<longrightarrow> pcm_path args n \<noteq> wav_path args n) \<longrightarrow> run_files args (written st) n parts"
    using smoke_run_Inr [OF st0(2)] by blast
  have "worker_lines args w (Suc n) = worker_lines args w n @ w (sent st0 @ [smoke_request args n])"
    by (simp add: worker_lines_def IH(3))
  then have l: "worker_lines args w (Suc n) = ready # map (\<lambda>e. Some (JObj e)) (concat (evss @ [evs])) @ pending st"
    using IH(4) R(1) by simp
  have "run_files args (written st) i (partss ! i)" if "i < n" "separate_outputs args" for i
    by (rule run_files_frame [of args "written st0"])
      (use IH(7) R(5) own_paths_differ [OF that(2), of i n] that Suc.prems(1) in auto)
  moreover have "run_files args (written st) n parts" if "separate_outputs args"
    using R(6) that Suc.prems(1) by (simp add: separate_outputs_def)
  ultimately have f: "separate_outputs args \<longrightarrow> (\<forall>i<Suc n. run_files args (written st) i ((partss @ [parts]) ! i))"
    using IH(2) by (simp add: nth_append less_Suc_eq)
  have a: "\<forall>i<Suc n. answers ((evss @ [evs]) ! i) ((partss @ [parts]) ! i)"
    using IH(1,2,6) R(2) by (simp add: nth_append less_Suc_eq)
  have b: "ls = [] \<and> (\<forall>k<Suc n. one_done (answer_to args w k)) \<longrightarrow>
         pending st = [] \<and> (\<forall>i<Suc n. map (\<lambda>e. Some (JObj e)) ((evss @ [evs]) ! i) = answer_to args w i)"
  proof (rule impI, elim conjE)
    assume h: "ls = []" "\<forall>k<Suc n. one_done (answer_to args w k)"
    then have p: "pending st0 = []" "\<forall>i<n. map (\<lambda>e. Some (JObj e)) (evss ! i) = answer_to args w i" using IH(9) by simp_all
    have e: "answer_to args w n = map (\<lambda>e. Some (JObj e)) evs @ pending st"
      using R(1) p(1) IH(3) by (simp add: answer_to_def)
    then have "pending st = []" using answers_take_block h(2) R(2) by blast
    then show "pending st = [] \<and> (\<forall>i<Suc n. map (\<lambda>e. Some (JObj e)) ((evss @ [evs]) ! i) = answer_to args w i)"
      using e p(2) IH(1) by (simp add: nth_append less_Suc_eq)
  qed
  have s: "summaries st = map (\<lambda>i. summary_of args i ((partss @ [parts]) ! i)) [0..<Suc n]"
    using R(4) IH(2,5) by (simp add: nth_append)
  have k: "\<forall>path. (\<forall>i<Suc n. \<not> own_path args i path) \<longrightarrow> written st path = fs path" using IH(8) R(5) by simp
  show ?case
    by (rule exI [of _ "evss @ [evs]"], rule exI [of _ "partss @ [parts]"]) (use IH(1-3) R(3) l f a b s k in simp)
qed

text \<open>
  C21: what a successful smoke run means.  The program has sent the warm-up and measured requests in
  their order, and the lines of the worker are cut by position, since the program compares no
  request id: after the ready line, the events of a request are those up to and with the
  next \<^verbatim>\<open>done\<close>; all are ok, and the chunks decode; the summary of the run counts them and their
  bytes.  When the worker writes nothing before the first request and ends each answer with its only
  \<^verbatim>\<open>done\<close>, the events of a run are exactly the lines the worker wrote for its request.  When the PCM
  and WAV paths of the runs are separate, each measured run leaves exactly its audio in the PCM file
  and in a mono 16-bit WAV file of 24 kHz under names of its own.  No other file changes.
\<close>

theorem smoke_run_exact:
  assumes "smoke_main args w fs = Inr st"
  shows "\<exists>ready evss partss. length evss = total_runs args \<and> length partss = total_runs args
    \<and> sent st = map (smoke_request args) [0..<total_runs args]
    \<and> worker_lines args w (total_runs args) = ready # map (\<lambda>e. Some (JObj e)) (concat evss) @ pending st
    \<and> summaries st = map (\<lambda>i. summary_of args i (partss ! i)) [0..<total_runs args]
    \<and> (\<forall>i<total_runs args. answers (evss ! i) (partss ! i))
    \<and> (w [] = [ready] \<and> (\<forall>i<total_runs args. one_done (answer_to args w i)) \<longrightarrow>
         (\<forall>i<total_runs args. map (\<lambda>e. Some (JObj e)) (evss ! i) = answer_to args w i))
    \<and> (separate_outputs args \<longrightarrow> (\<forall>i<total_runs args. run_files args (written st) i (partss ! i)))
    \<and> (\<forall>path. (\<forall>i<total_runs args. \<not> own_path args i path) \<longrightarrow> written st path = fs path)"
proof -
  obtain ready ls where w: "w [] = ready # ls"
      "res_fold (smoke_run args w) [0..<total_runs args] \<lparr>sent = [], pending = ls, written = fs, summaries = []\<rparr> = Inr st"
    using assms(1) by (auto simp: smoke_main_def split: list.splits option.splits json.splits if_splits)
  obtain evss partss where R: "length evss = total_runs args" "length partss = total_runs args"
      "sent st = map (smoke_request args) [0..<total_runs args]"
      "worker_lines args w (total_runs args) = ready # map (\<lambda>e. Some (JObj e)) (concat evss) @ pending st"
      "summaries st = map (\<lambda>i. summary_of args i (partss ! i)) [0..<total_runs args]"
      "\<forall>i<total_runs args. answers (evss ! i) (partss ! i)"
      "separate_outputs args \<longrightarrow> (\<forall>i<total_runs args. run_files args (written st) i (partss ! i))"
      "\<forall>path. (\<forall>i<total_runs args. \<not> own_path args i path) \<longrightarrow> written st path = fs path"
      "ls = [] \<and> (\<forall>i<total_runs args. one_done (answer_to args w i)) \<longrightarrow>
         (\<forall>i<total_runs args. map (\<lambda>e. Some (JObj e)) (evss ! i) = answer_to args w i)"
    using smoke_runs [OF order_refl w] by blast
  have "w [] = [ready] \<longrightarrow> ls = []" using w(1) by simp
  with R show ?thesis by (intro exI [of _ ready] exI [of _ evss] exI [of _ partss]) simp
qed

text \<open>A WAV file of a run reads back with the audio of the run.\<close>

lemma run_wav_opens:
  assumes "run_files args fs i parts" and "\<not> is_warmup args i" and "wav_path args i \<noteq> []"
  shows "\<exists>file. fs (wav_path args i) = Some file \<and> wav_open file = Inr \<lparr>sample_rate = 24000, channels = 1, sample_width = 2,
    frames = length (concat parts) div 2, file_bytes = 44 + length (concat parts)\<rparr>"
proof -
  obtain wav where f: "fs (wav_path args i) = Some wav" "wav_write 1 2 24000 (concat parts) = Inr wav"
    using assms by (auto simp: run_files_def)
  then have "wav = wav_header 1 2 24000 (length (concat parts)) @ concat parts" "36 + length (concat parts) < 2 ^ 32"
    by (auto simp: wav_write_def split: if_splits)
  then show ?thesis using wav_open_written [of 1 24000 2 "concat parts"] f(1) by simp
qed

definition chunk_event :: "bytes \<Rightarrow> dict" where
  "chunk_event bs = [(''ok'', JBool True), (''event'', JStr ''chunk''), (''audio_b64'', JStr (b64encode bs))]"

definition done_event :: dict where
  "done_event = [(''ok'', JBool True), (''event'', JStr ''done'')]"

text \<open>Base64 chunks arrive whole.  When the worker sends byte strings as chunks encoded in Base64 and
  then \<^verbatim>\<open>done\<close>, the program has collected exactly these byte strings in their order, and the lines
  after \<^verbatim>\<open>done\<close> are left for the next request.
\<close>

theorem smoke_chunks_roundtrip:
  assumes "\<forall>bs\<in>set parts. list_all (\<lambda>b. b < 256) bs"
  shows "read_events (map (\<lambda>bs. Some (JObj (chunk_event bs))) parts @ Some (JObj done_event) # rest) got
    = Inr (\<lparr>chunks = chunks got + length parts, pcm_parts = pcm_parts got @ parts\<rparr>, rest)"
  using assms
proof (induction parts arbitrary: got)
  case Nil
  then show ?case by (cases got) (simp add: done_event_def)
next
  case (Cons bs parts)
  have "chunk_audio (chunk_event bs) = Inr bs" using Cons.prems by (simp add: chunk_audio_def chunk_event_def b64_roundtrip)
  then show ?case using Cons by (simp add: chunk_event_def)
qed

section \<open>Examples\<close>

text \<open>One warm-up and one measured run.\<close>

definition eg_smoke :: smoke_args where
  "eg_smoke = \<lparr>sm_text = JStr ''hello'', sm_language = JStr ''chinese'', sm_speaker = ''serena'', embedding = [],
     async_code2wav = JBool True, option_values = replicate 14 (JInt 1), output_pcm = ''out.pcm'', output_wav = ''out.wav'', repeat = 1, warmup_runs = 1\<rparr>"

definition eg_tts_worker :: tts_worker where
  "eg_tts_worker reqs = (if reqs = [] then [Some (JObj [(''event'', JStr ''ready'')])]
     else [Some (JObj (chunk_event [length reqs, 0])), Some (JObj done_event)])"

lemma eg_paths: "total_runs eg_smoke = 2" "is_warmup eg_smoke 0" "\<not> is_warmup eg_smoke 1"
    "pcm_path eg_smoke 0 = ''out.warmup_1.pcm''" "pcm_path eg_smoke 1 = ''out.smoke_1.pcm''"
    "wav_path eg_smoke 0 = ''out.warmup_1.wav''" "wav_path eg_smoke 1 = ''out.smoke_1.wav''"
  by code_simp+

lemma eg_separate: "separate_outputs eg_smoke"
  unfolding separate_outputs_def eg_paths(1) by (auto simp: less_2_cases_iff eg_paths eg_paths [unfolded One_nat_def])

lemma eg_read: "k < 256 \<Longrightarrow> read_events [Some (JObj (chunk_event [k, 0])), Some (JObj done_event)] \<lparr>chunks = 0, pcm_parts = []\<rparr>
    = Inr (\<lparr>chunks = 1, pcm_parts = [[k, 0]]\<rparr>, [])"
  using b64_roundtrip [of "[k, 0]"]
  by (simp add: chunk_event_def done_event_def chunk_audio_def)

lemma eg_smoke_runs: "\<exists>st. smoke_main eg_smoke eg_tts_worker (\<lambda>p. None) = Inr st"
proof -
  have u: "[0..<2 :: nat] = [0, 1]" by (simp add: upt_rec)
  have w: "eg_tts_worker (r # rs) = [Some (JObj (chunk_event [length (r # rs), 0])), Some (JObj done_event)]" for r rs
    by (simp add: eg_tts_worker_def)
  have r: "wav_write 1 2 24000 [k, 0] = Inr (wav_header 1 2 24000 (length [k, 0]) @ [k, 0])" for k
    by (simp add: wav_write_def)
  show ?thesis using eg_read [of "Suc 0"] eg_read [of "Suc (Suc 0)"]
    by (simp add: smoke_main_def eg_tts_worker_def eg_paths u smoke_run_def w write_wav_def r Let_def del: read_events.simps One_nat_def)
qed

lemma eg_answers: "i < 2 \<Longrightarrow> one_done (answer_to eg_smoke eg_tts_worker i)"
  unfolding one_done_def answer_to_def
  by (rule exI [of _ "[chunk_event [Suc i, 0], done_event]"])
    (simp add: eg_tts_worker_def is_event_def chunk_event_def done_event_def)

theorem smoke_run_exact_witness:
  "\<exists>st parts. smoke_main eg_smoke eg_tts_worker (\<lambda>p. None) = Inr st \<and> sent st = [smoke_request eg_smoke 0, smoke_request eg_smoke 1]
    \<and> answers [chunk_event [2, 0], done_event] parts \<and> written st ''out.smoke_1.pcm'' = Some (concat parts)"
proof -
  obtain st where m: "smoke_main eg_smoke eg_tts_worker (\<lambda>p. None) = Inr st" using eg_smoke_runs by blast
  have u: "[0..<2 :: nat] = [0, 1]" by (simp add: upt_rec)
  from smoke_run_exact [OF m] obtain r evss partss where x:
    "worker_lines eg_smoke eg_tts_worker 2 = r # map (\<lambda>e. Some (JObj e)) (concat evss) @ pending st"
    "sent st = map (smoke_request eg_smoke) [0..<2]" "\<forall>i<2. answers (evss ! i) (partss ! i)"
    "eg_tts_worker [] = [r] \<longrightarrow> (\<forall>i<2. map (\<lambda>e. Some (JObj e)) (evss ! i) = answer_to eg_smoke eg_tts_worker i)"
    "\<forall>i<2. run_files eg_smoke (written st) i (partss ! i)"
    using eg_separate eg_answers unfolding eg_paths(1) by auto
  have "r = Some (JObj [(''event'', JStr ''ready'')])"
    using x(1) by (simp add: worker_lines_def eg_tts_worker_def upt_rec)
  then have "\<forall>i<2. map (\<lambda>e. Some (JObj e)) (evss ! i) = answer_to eg_smoke eg_tts_worker i"
    using x(4) by (simp add: eg_tts_worker_def)
  then have "map (\<lambda>e. Some (JObj e)) (evss ! 1) = answer_to eg_smoke eg_tts_worker 1"
    using one_less_numeral_iff semiring_norm(76) by blast
  then have "map (\<lambda>e. Some (JObj e)) (evss ! 1) = map (\<lambda>e. Some (JObj e)) [chunk_event [2, 0], done_event]"
    by (simp add: answer_to_def eg_tts_worker_def numeral_2_eq_2)
  then have "evss ! 1 = [chunk_event [2, 0], done_event]" by (auto simp: map_eq_Cons_conv)
  moreover have "(1 :: nat) < 2" by simp
  then have "answers (evss ! 1) (partss ! 1)" "run_files eg_smoke (written st) 1 (partss ! 1)" using x(3,5) by blast+
  then have "answers (evss ! 1) (partss ! 1)" "written st ''out.smoke_1.pcm'' = Some (concat (partss ! 1))"
    using eg_paths by (simp_all add: run_files_def del: One_nat_def)
  moreover have "sent st = [smoke_request eg_smoke 0, smoke_request eg_smoke 1]" using x(2) u by simp
  ultimately show ?thesis using m by metis
qed

theorem smoke_chunks_roundtrip_witness:
  "read_events [Some (JObj (chunk_event [1, 2, 3, 4])), Some (JObj done_event)] \<lparr>chunks = 0, pcm_parts = []\<rparr>
    = Inr (\<lparr>chunks = 1, pcm_parts = [[1, 2, 3, 4]]\<rparr>, [])"
  using smoke_chunks_roundtrip [of "[[1, 2, 3, 4]]" "[]" "\<lparr>chunks = 0, pcm_parts = []\<rparr>"] by simp

end
