(* ===== verification/Mask_Inputs.thy ===== *)
theory Mask_Inputs
  imports Matcha_Props "HOL-Library.Multiset"
begin

text \<open>
  \<^verbatim>\<open>models/paraformer/surgery_paraformer_decoder.py\<close>: the two subgraphs of the decoder that compute
  padding masks are cut out, and the masks become inputs.  A node that a Python variable refers to
  is given by its position; \<^verbatim>\<open>remove\<close> compares nodes by value.
\<close>

section \<open>Model\<close>

text \<open>A new input has a name, an element type and named dimensions.\<close>

record decoder_model =
  dm_graph :: onnx_graph
  dm_input :: "(string \<times> int \<times> string list) list"

datatype surgery_error = NoCastNodes | NoMaskOutput | NoMaskConsumer | InputMissing | CheckFailed

definition mask_prefix :: string where "mask_prefix = ''/decoder/make_pad_mask/''"
definition mask_prefix_1 :: string where "mask_prefix_1 = ''/decoder/make_pad_mask_1/''"

definition mask_positions :: "string \<Rightarrow> onnx_node list \<Rightarrow> nat list" where
  "mask_positions p nodes = map fst (filter (\<lambda>(i, nd). prefix p (nd_name nd)) (enumerate 0 nodes))"

text \<open>The last of some nodes that has a name.\<close>

definition last_named :: "onnx_node list \<Rightarrow> string \<Rightarrow> nat list \<Rightarrow> nat option" where
  "last_named nodes name ps = fold (\<lambda>p found. if nd_name (nodes ! p) = name then Some p else found) ps None"

definition find_mask_subgraphs :: "onnx_node list \<Rightarrow> surgery_error + nat list \<times> nat list \<times> nat \<times> nat" where
  "find_mask_subgraphs nodes =
     (let ms = mask_positions mask_prefix nodes; ms1 = mask_positions mask_prefix_1 nodes in
      case (last_named nodes (mask_prefix @ ''Cast_3'') ms, last_named nodes (mask_prefix_1 @ ''Cast_3'') ms1) of
        (Some c, Some c1) \<Rightarrow> Inr (ms, ms1, c, c1)
      | _ \<Rightarrow> Inl NoCastNodes)"

text \<open>The first node that reads a name, and where it reads it first.\<close>

fun find_consumer :: "string \<Rightarrow> onnx_node list \<Rightarrow> (nat \<times> nat) option" where
  "find_consumer x [] = None"
| "find_consumer x (nd # nds) =
     (case first_position (\<lambda>y. y = x) (nd_input nd) of
        Some idx \<Rightarrow> Some (0, idx)
      | None \<Rightarrow> map_option (\<lambda>(p, idx). (Suc p, idx)) (find_consumer x nds))"

definition mask_inputs :: "(string \<times> int \<times> string list) list" where
  "mask_inputs =
     [(''pad_mask'', FLOAT, [''batch_size'', ''token_length'']), (''enc_pad_mask'', FLOAT, [''batch_size'', ''enc_length''])]"

definition rewire_at :: "nat \<times> nat \<Rightarrow> string \<Rightarrow> onnx_node list \<Rightarrow> onnx_node list" where
  "rewire_at = (\<lambda>(p, idx) x nodes. nodes[p := set_input idx x (nodes ! p)])"

definition replace_mask_subgraphs :: "decoder_model \<Rightarrow> surgery_error + decoder_model" where
  "replace_mask_subgraphs m =
     (let nodes = g_node (dm_graph m) in
      res_bind (find_mask_subgraphs nodes) (\<lambda>(ms, ms1, c, c1).
        if nd_output (nodes ! c) = [] \<or> nd_output (nodes ! c1) = [] then Inl NoMaskOutput
        else case (find_consumer (hd (nd_output (nodes ! c))) nodes, find_consumer (hd (nd_output (nodes ! c1))) nodes) of
          (Some u, Some u1) \<Rightarrow>
            (let rewired = rewire_at u1 ''enc_pad_mask'' (rewire_at u ''pad_mask'' nodes) in
             Inr \<lparr>dm_graph = (dm_graph m)\<lparr>g_node := fold (\<lambda>p. remove1 (rewired ! p)) (ms @ ms1) rewired\<rparr>,
                  dm_input = dm_input m @ mask_inputs\<rparr>)
        | _ \<Rightarrow> Inl NoMaskConsumer))"

text \<open>The whole command: the model that is saved.  The comparison of the two models only prints.\<close>

definition surgery_main :: "(decoder_model \<Rightarrow> bool) \<Rightarrow> decoder_model option \<Rightarrow> surgery_error + decoder_model" where
  "surgery_main check_model input =
     (case input of
        None \<Rightarrow> Inl InputMissing
      | Some m \<Rightarrow> res_bind (replace_mask_subgraphs m) (\<lambda>m'. if check_model m' then Inr m' else Inl CheckFailed))"

section \<open>Cutting nodes out\<close>

definition is_mask :: "onnx_node \<Rightarrow> bool" where
  "is_mask nd \<longleftrightarrow> prefix mask_prefix (nd_name nd) \<or> prefix mask_prefix_1 (nd_name nd)"

lemma mset_fold_remove1: "mset (fold remove1 xs ys) = mset ys - mset xs"
  by (induction xs arbitrary: ys) simp_all

lemma filter_fold_remove1: "(\<And>x. x \<in> set xs \<Longrightarrow> \<not> P x) \<Longrightarrow> filter P (fold remove1 xs ys) = filter P ys"
  by (induction xs arbitrary: ys) (simp_all add: filter_remove1)

text \<open>Removing by value all elements of a kind leaves the others in their order.\<close>

lemma fold_remove1_kind:
  assumes "mset xs = mset (filter P ys)"
  shows "fold remove1 xs ys = filter (\<lambda>y. \<not> P y) ys"
proof -
  have "mset (fold remove1 xs ys) = mset (filter (\<lambda>y. \<not> P y) ys)"
    unfolding mset_fold_remove1 assms mset_filter using multiset_partition [of "mset ys" P] by (metis add_diff_cancel_left')
  then have "filter (\<lambda>y. \<not> P y) (fold remove1 xs ys) = fold remove1 xs ys"
    by (metis (no_types, lifting) filter_True mem_Collect_eq set_filter set_mset_mset)
  moreover have "\<not> \<not> P x" if "x \<in> set xs" for x using that mset_eq_setD [OF assms] by simp
  ultimately show ?thesis using filter_fold_remove1 [of xs "\<lambda>y. \<not> P y" ys] by metis
qed

text \<open>The kept nodes, edited, in a graph where they read nothing that only the others write.\<close>

lemma readable_cut:
  assumes "readable K nodes" and "K - R \<subseteq> K'" and "N \<subseteq> K'"
    and "\<And>nd. nd \<in> set nodes \<Longrightarrow> P nd \<Longrightarrow> set (nd_input (f nd)) \<subseteq> N \<union> (set (nd_input nd) - R) \<and> nd_output (f nd) = nd_output nd"
    and "\<And>nd. nd \<in> set nodes \<Longrightarrow> \<not> P nd \<Longrightarrow> set (nd_output nd) \<subseteq> R"
  shows "readable K' (map f (filter P nodes))"
  using assms
proof (induction nodes arbitrary: K K')
  case (Cons nd nds)
  have r: "set (nd_input nd) \<subseteq> insert [] K" "readable (K \<union> set (nd_output nd)) nds" using Cons.prems(1) by simp_all
  show ?case
  proof (cases "P nd")
    case True
    have "readable (K' \<union> set (nd_output nd)) (map f (filter P nds))"
      by (rule Cons.IH [OF r(2)]) (use Cons.prems(2-5) in auto)
    moreover have "set (nd_input (f nd)) \<subseteq> insert [] K'" using Cons.prems(2-4) True r(1) by fastforce
    ultimately show ?thesis using True Cons.prems(4) by simp
  next
    case False
    have "set (nd_output nd) \<subseteq> R" using Cons.prems(5) [OF list.set_intros(1) False] .
    then have "K \<union> set (nd_output nd) - R \<subseteq> K'" using Cons.prems(2) by blast
    then have "readable K' (map f (filter P nds))"
      by (rule Cons.IH [OF r(2) _ Cons.prems(3)]) (use Cons.prems(4,5) in auto)
    then show ?thesis using False by simp
  qed
qed simp

lemma written_separate:
  assumes "written_once known nodes" and "nd \<in> set nodes" and "nd' \<in> set nodes" and "nd \<noteq> nd'"
  shows "set (nd_output nd) \<inter> set (nd_output nd') = {}"
proof -
  obtain i j where i: "i < length nodes" "nodes ! i = nd" "j < length nodes" "nodes ! j = nd'"
    using assms(2,3) by (metis in_set_conv_nth)
  then consider "i < j" | "j < i" using assms(4) by (metis linorder_neqE_nat)
  then show ?thesis using written_unique [OF assms(1)] i by cases blast+
qed

section \<open>Rewiring the only reader\<close>

lemma find_consumer_Some:
  "find_consumer x nodes = Some (p, idx) \<Longrightarrow> p < length nodes \<and> idx < length (nd_input (nodes ! p)) \<and> nd_input (nodes ! p) ! idx = x"
proof (induction nodes arbitrary: p)
  case (Cons nd nds)
  then show ?case by (cases p) (auto simp: first_position_Some split: option.splits)
qed simp

lemma rewire_at_only:
  assumes "use_count nodes x = 1" and "p < length nodes" and "idx < length (nd_input (nodes ! p))" and "nd_input (nodes ! p) ! idx = x"
  shows "rewire_at (p, idx) y nodes = map (rewire x y) nodes"
proof -
  let ?nd = "nodes ! p"
  have s: "nodes = take p nodes @ ?nd # drop (Suc p) nodes" using assms(2) by (rule id_take_nth_drop)
  have "x \<in> set (nd_input ?nd)" using assms(3,4) by (metis nth_mem)
  then have "0 < count_list (nd_input ?nd) x" by (simp add: count_list_0_iff zero_less_iff_neq_zero)
  moreover have "use_count (take p nodes) x + count_list (nd_input ?nd) x + use_count (drop (Suc p) nodes) x = 1"
    using assms(1) use_count_split s by metis
  ultimately have c: "count_list (nd_input ?nd) x = 1" "x \<notin> inputs_of (take p nodes)" "x \<notin> inputs_of (drop (Suc p) nodes)"
    unfolding use_count_0 [symmetric] by linarith+
  have "rewire_at (p, idx) y nodes = take p nodes @ rewire x y ?nd # drop (Suc p) nodes"
    using assms(2) set_input_rewire [OF c(1) assms(3,4), of y] by (simp add: rewire_at_def upd_conv_take_nth_drop)
  also have "\<dots> = map (rewire x y) (take p nodes) @ rewire x y ?nd # map (rewire x y) (drop (Suc p) nodes)"
    using c(2,3) by (simp add: rewire_unread_list)
  also have "\<dots> = map (rewire x y) nodes" by (metis list.simps(9) map_append s)
  finally show ?thesis .
qed

lemma use_count_rewire:
  assumes "w \<noteq> x" and "w \<noteq> y"
  shows "use_count (map (rewire x y) nodes) w = use_count nodes w"
proof -
  have "count_list (map (\<lambda>z. if z = x then y else z) xs) w = count_list xs w" for xs using assms by (induction xs) auto
  then show ?thesis by (simp add: use_count_def rewire_def comp_def)
qed

end
