(* ===== verification/Mask_Inputs_Props.thy ===== *)
theory Mask_Inputs_Props
  imports Mask_Inputs
begin

text \<open>
  With the masks as inputs the decoder computes what it computed before, when it is given the masks
  that the removed nodes computed.
\<close>

section \<open>The edit\<close>

lemma mask_positions_nodes:
  "map ((!) nodes) (mask_positions p nodes) = filter (\<lambda>nd. prefix p (nd_name nd)) nodes"
proof -
  let ?F = "filter (\<lambda>(i, nd). prefix p (nd_name nd)) (enumerate 0 nodes)"
  have "map ((!) nodes) (map fst ?F) = map snd ?F" by (auto simp: in_set_enumerate_eq)
  also have "\<dots> = filter (\<lambda>nd. prefix p (nd_name nd)) (map snd (enumerate 0 nodes))"
    by (simp add: filter_map comp_def case_prod_unfold del: map_snd_enumerate)
  finally show ?thesis by (simp add: mask_positions_def)
qed

lemma last_named_Some:
  assumes "last_named nodes name ps = Some c"
  shows "c \<in> set ps \<and> nd_name (nodes ! c) = name"
  using assms unfolding last_named_def by (induction ps rule: rev_induct) (auto split: if_splits)

lemma one_prefix: "\<not> (prefix mask_prefix s \<and> prefix mask_prefix_1 s)"
  by (auto simp: mask_prefix_def mask_prefix_1_def prefix_def)

text \<open>What the edited list of nodes is when each mask is read once.\<close>

definition to_inputs :: "string \<Rightarrow> string \<Rightarrow> onnx_node \<Rightarrow> onnx_node" where
  "to_inputs out out1 nd = rewire out1 ''enc_pad_mask'' (rewire out ''pad_mask'' nd)"

lemma to_inputs_simps [simp]:
  "nd_name (to_inputs out out1 nd) = nd_name nd" "nd_output (to_inputs out out1 nd) = nd_output nd"
  by (simp_all add: to_inputs_def rewire_def)

lemma masks_removed:
  assumes "nds = map (to_inputs out out1) nodes"
  shows "fold (\<lambda>p. remove1 (nds ! p)) (mask_positions mask_prefix nodes @ mask_positions mask_prefix_1 nodes) nds
    = map (to_inputs out out1) (filter (\<lambda>nd. \<not> is_mask nd) nodes)"
proof -
  have n: "mask_positions p nodes = mask_positions p nds" for p
    by (rule sym) (simp add: assms mask_positions_def enumerate_map_upt filter_map comp_def case_prod_unfold enumerate_eq_zip zip_map2)
  let ?ps = "mask_positions mask_prefix nds @ mask_positions mask_prefix_1 nds"
  have f: "fold (\<lambda>p. remove1 (nds ! p)) ps xs = fold remove1 (map ((!) nds) ps) xs" for ps xs
    by (simp add: fold_map comp_def)
  have "mset (map ((!) nds) ?ps) = mset (filter is_mask nds)"
    unfolding map_append mask_positions_nodes
    by (induction nds) (use one_prefix in \<open>auto simp: is_mask_def\<close>)
  from fold_remove1_kind [OF this] show ?thesis
    unfolding n f by (simp add: assms filter_map comp_def is_mask_def)
qed

lemma mask_edit:
  assumes "replace_mask_subgraphs m = Inr m'" and "find_mask_subgraphs (g_node (dm_graph m)) = Inr (ms, ms1, c, c1)"
    and "out = hd (nd_output (g_node (dm_graph m) ! c))" and "out1 = hd (nd_output (g_node (dm_graph m) ! c1))"
    and "use_count (g_node (dm_graph m)) out = 1" and "use_count (g_node (dm_graph m)) out1 = 1"
    and "out1 \<noteq> out" and "out1 \<noteq> ''pad_mask''"
  shows "g_node (dm_graph m') = map (to_inputs out out1) (filter (\<lambda>nd. \<not> is_mask nd) (g_node (dm_graph m)))
    \<and> g_initializer (dm_graph m') = g_initializer (dm_graph m) \<and> dm_input m' = dm_input m @ mask_inputs
    \<and> nd_output (g_node (dm_graph m) ! c) \<noteq> [] \<and> nd_output (g_node (dm_graph m) ! c1) \<noteq> []"
proof -
  let ?nodes = "g_node (dm_graph m)"
  have ms: "ms = mask_positions mask_prefix ?nodes" "ms1 = mask_positions mask_prefix_1 ?nodes"
    using assms(2) by (auto simp: find_mask_subgraphs_def Let_def split: option.splits)
  from assms(1) obtain u u1 where u: "find_consumer out ?nodes = Some u" "find_consumer out1 ?nodes = Some u1"
    and m': "m' = \<lparr>dm_graph = (dm_graph m)\<lparr>g_node := fold (\<lambda>p. remove1
        (rewire_at u1 ''enc_pad_mask'' (rewire_at u ''pad_mask'' ?nodes) ! p)) (ms @ ms1)
        (rewire_at u1 ''enc_pad_mask'' (rewire_at u ''pad_mask'' ?nodes))\<rparr>, dm_input = dm_input m @ mask_inputs\<rparr>"
      "nd_output (?nodes ! c) \<noteq> []" "nd_output (?nodes ! c1) \<noteq> []"
    using assms(2) by (auto simp: replace_mask_subgraphs_def Let_def assms(3,4) split: if_splits option.splits)
  obtain p idx p1 idx1 where q: "u = (p, idx)" "u1 = (p1, idx1)" by (cases u, cases u1)
  note f = find_consumer_Some [OF u(1) [unfolded q]] find_consumer_Some [OF u(2) [unfolded q]]
  have 1: "rewire_at u ''pad_mask'' ?nodes = map (rewire out ''pad_mask'') ?nodes"
    unfolding q by (rule rewire_at_only) (use f(1) assms(5) in auto)
  have 2: "rewire_at u1 ''enc_pad_mask'' (map (rewire out ''pad_mask'') ?nodes)
      = map (rewire out1 ''enc_pad_mask'') (map (rewire out ''pad_mask'') ?nodes)"
    unfolding q
  proof (rule rewire_at_only)
    show "use_count (map (rewire out ''pad_mask'') ?nodes) out1 = 1" using assms(6-8) by (simp add: use_count_rewire)
  qed (use f(2) assms(7) in \<open>auto simp: rewire_def\<close>)
  have "rewire_at u1 ''enc_pad_mask'' (rewire_at u ''pad_mask'' ?nodes) = map (to_inputs out out1) ?nodes"
    unfolding 1 2 by (simp add: to_inputs_def comp_def)
  note r = this
  show ?thesis using masks_removed [OF refl, of out out1 ?nodes] m'(2,3) unfolding m'(1) r ms by simp
qed

section \<open>Meaning\<close>

text \<open>
  Each mask is read once, the kept nodes read nothing else of the removed ones, and the names of the
  new inputs are free.
\<close>

abbreviation mask_outputs :: "onnx_graph \<Rightarrow> string set" where
  "mask_outputs g \<equiv> outputs_of (filter is_mask (g_node g))"

definition masks_separate :: "string set \<Rightarrow> onnx_graph \<Rightarrow> string \<Rightarrow> string \<Rightarrow> bool" where
  "masks_separate known g out out1 \<longleftrightarrow>
     use_count (g_node g) out = 1 \<and> use_count (g_node g) out1 = 1
     \<and> (\<forall>nd\<in>set (g_node g). \<not> is_mask nd \<longrightarrow> set (nd_input nd) \<inter> mask_outputs g \<subseteq> {out, out1})
     \<and> {''pad_mask'', ''enc_pad_mask''} \<inter> (known \<union> outputs_of (g_node g)) = {}"

text \<open>The equations of a kept node, with the masks read from the inputs.\<close>

lemma to_inputs_satisfies:
  assumes "satisfies sem e nd" and "out1 \<noteq> out" and "{out, out1} \<inter> set (nd_output nd) = {}"
    and "{''pad_mask'', ''enc_pad_mask''} \<inter> (set (nd_input nd) \<union> set (nd_output nd) \<union> {out, out1}) = {}"
    and "e' ''pad_mask'' = e out" and "e' ''enc_pad_mask'' = e out1"
    and "\<And>z. z \<in> set (nd_input nd) \<union> set (nd_output nd) \<Longrightarrow> z \<notin> {out, out1} \<Longrightarrow> e' z = e z"
  shows "satisfies sem e' (to_inputs out out1 nd)"
proof -
  let ?e1 = "e(''pad_mask'' := e out)"
  have in1: "set (nd_input (rewire out ''pad_mask'' nd)) \<subseteq> insert ''pad_mask'' (set (nd_input nd) - {out})"
    by (auto simp: rewire_def)
  have "satisfies sem ?e1 (rewire out ''pad_mask'' nd)"
    by (rule rewire_satisfies [OF assms(1)]) (use assms(3,4) in auto)
  then show ?thesis unfolding to_inputs_def
  proof (rule rewire_satisfies)
    show "e' ''enc_pad_mask'' = ?e1 out1" using assms(4,6) by auto
    show "out1 \<notin> set (nd_output (rewire out ''pad_mask'' nd))" using assms(3) by simp
    fix z
    assume "z \<in> set (nd_input (rewire out ''pad_mask'' nd)) \<union> set (nd_output (rewire out ''pad_mask'' nd))" "z \<noteq> out1"
    then have "z = ''pad_mask'' \<or> z \<in> set (nd_input nd) \<union> set (nd_output nd) \<and> z \<notin> {out, out1}" using in1 assms(3) by auto
    then show "e' z = ?e1 z" using assms(4,5,7) by auto
  qed
qed

lemma mask_nodes:
  assumes "find_mask_subgraphs nodes = Inr (ms, ms1, c, c1)"
  shows "c < length nodes \<and> c1 < length nodes \<and> is_mask (nodes ! c) \<and> is_mask (nodes ! c1) \<and> nodes ! c \<noteq> nodes ! c1"
proof -
  have l: "last_named nodes (mask_prefix @ ''Cast_3'') (mask_positions mask_prefix nodes) = Some c"
    "last_named nodes (mask_prefix_1 @ ''Cast_3'') (mask_positions mask_prefix_1 nodes) = Some c1"
    using assms by (auto simp: find_mask_subgraphs_def Let_def split: option.splits)
  have pos: "q < length nodes \<and> prefix p (nd_name (nodes ! q))" if "q \<in> set (mask_positions p nodes)" for q p
    using that by (auto simp: mask_positions_def in_set_enumerate_eq)
  have n: "nd_name (nodes ! c) = mask_prefix @ ''Cast_3''" "nd_name (nodes ! c1) = mask_prefix_1 @ ''Cast_3''"
    using last_named_Some [OF l(1)] last_named_Some [OF l(2)] by blast+
  have "mask_prefix @ ''Cast_3'' \<noteq> mask_prefix_1 @ ''Cast_3''" by (simp add: mask_prefix_def mask_prefix_1_def)
  with n have "nodes ! c \<noteq> nodes ! c1" by metis
  moreover have "is_mask (nodes ! c)" "is_mask (nodes ! c1)" by (simp_all add: is_mask_def n)
  ultimately show ?thesis using pos last_named_Some [OF l(1)] last_named_Some [OF l(2)] by blast
qed

text \<open>The environment of the edited graph.\<close>

definition mask_env ::
  "(nat list \<Rightarrow> rat list \<Rightarrow> 'v) \<Rightarrow> onnx_graph \<Rightarrow> 'v env \<Rightarrow> 'v env \<Rightarrow> string \<Rightarrow> string \<Rightarrow> 'v env" where
  "mask_env denote g given e out out1 x =
     (if x = ''pad_mask'' then e out else if x = ''enc_pad_mask'' then e out1
      else if x \<in> mask_outputs g then init_env denote (g_initializer g) given x else e x)"

lemma masks_evaluate:
  assumes w: "well_ordered known g" "masks_separate known g out out1" and run: "eval_graph sem denote g given = Some e"
    and out: "out1 \<noteq> out" "{out, out1} \<subseteq> mask_outputs g"
    and g': "g_node g' = map (to_inputs out out1) (filter (\<lambda>nd. \<not> is_mask nd) (g_node g))" "g_initializer g' = g_initializer g"
  shows "eval_graph sem denote g' (given(''pad_mask'' := e out, ''enc_pad_mask'' := e out1)) = Some (mask_env denote g given e out out1)"
    (is "eval_graph sem denote g' ?given = Some ?e")
proof -
  let ?R = "mask_outputs g" and ?N = "{''pad_mask'', ''enc_pad_mask''}" and ?kept = "filter (\<lambda>nd. \<not> is_mask nd) (g_node g)"
  have o: "readable known (g_node g)" "written_once known (g_node g)" "in_name ` set (g_initializer g) \<subseteq> known"
    using w(1) by (simp_all add: well_ordered_def)
  note old = eval_graph_start [OF o(1,2) run]
  have free: "?N \<inter> (known \<union> outputs_of (g_node g)) = {}" using w(2) unfolding masks_separate_def by (elim conjE)
  have known: "outputs_of (g_node g) \<inter> insert [] known = {}" using o(2) unfolding written_once_def by (rule conjunct2)
  have reads: "set (nd_input nd) \<inter> ?R \<subseteq> {out, out1}" if "nd \<in> set ?kept" for nd
    using that w(2) unfolding masks_separate_def by simp
  have writes: "set (nd_output nd) \<inter> ?R = {}" if "nd \<in> set ?kept" for nd
  proof -
    have "set (nd_output nd) \<inter> set (nd_output nd') = {}" if "nd' \<in> set (filter is_mask (g_node g))" for nd'
      using written_separate [OF o(2), of nd nd'] that \<open>nd \<in> set ?kept\<close> by fastforce
    then show ?thesis by blast
  qed
  have used: "set (nd_input nd) \<union> set (nd_output nd) \<subseteq> insert [] (known \<union> outputs_of (g_node g))" if "nd \<in> set ?kept" for nd
  proof -
    have "nd \<in> set (g_node g)" using that by simp
    then show ?thesis using readable_inputs [OF o(1)] by blast
  qed
  have R: "?R \<subseteq> outputs_of (g_node g)" by auto
  have outs: "outputs_of (g_node g') \<subseteq> outputs_of (g_node g)" "outputs_of (g_node g') \<inter> ?R = {}"
    using writes by (auto simp: g'(1))
  show ?thesis
  proof (rule edit_evaluates)
    show "readable (known \<union> ?N) (g_node g')" unfolding g'(1)
    proof (rule readable_cut [where R = ?R and N = ?N])
      show "readable known (g_node g)" by (rule o(1))
      show "set (nd_output nd) \<subseteq> ?R" if "nd \<in> set (g_node g)" "\<not> \<not> is_mask nd" for nd using that by auto
      show "set (nd_input (to_inputs out out1 nd)) \<subseteq> ?N \<union> (set (nd_input nd) - ?R) \<and> nd_output (to_inputs out out1 nd) = nd_output nd"
        if "nd \<in> set (g_node g)" "\<not> is_mask nd" for nd
        using reads [of nd] that by (auto simp: to_inputs_def rewire_def)
    qed auto
    show "outputs_of (g_node g') \<inter> insert [] (known \<union> ?N) = {}" using outs(1) free known by auto
    have "satisfies sem ?e (to_inputs out out1 nd)" if nd: "nd \<in> set ?kept" for nd
    proof (rule to_inputs_satisfies)
      show "satisfies sem e nd" using nd old(1) by simp
      show "{out, out1} \<inter> set (nd_output nd) = {}" using writes [OF nd] out(2) by blast
      show "?N \<inter> (set (nd_input nd) \<union> set (nd_output nd) \<union> {out, out1}) = {}"
        using used [OF nd] free out(2) R by auto
      show "?e ''pad_mask'' = e out" "?e ''enc_pad_mask'' = e out1" by (simp_all add: mask_env_def)
      fix z
      assume z: "z \<in> set (nd_input nd) \<union> set (nd_output nd)" "z \<notin> {out, out1}"
      then have "z \<notin> ?R" "z \<notin> ?N" using reads [OF nd] writes [OF nd] used [OF nd] free by auto
      then show "?e z = e z" by (simp add: mask_env_def)
    qed (rule out(1))
    then show "solves sem ?e (g_node g')" by (auto simp: g'(1))
    fix x
    assume x: "x \<notin> outputs_of (g_node g')"
    show "init_env denote (g_initializer g') ?given x = ?e x"
    proof (cases "x \<in> ?N")
      case True
      then have "initializer_map (g_initializer g) x = None" using free o(3) by (auto simp: initializer_map_None)
      then show ?thesis using True by (auto simp: init_env_lookup g'(2) mask_env_def)
    next
      case False
      have i: "init_env denote (g_initializer g') ?given x = init_env denote (g_initializer g) given x"
        using False by (auto simp: init_env_lookup g'(2) split: option.splits)
      show ?thesis
      proof (cases "x \<in> ?R")
        case True
        then show ?thesis using False i by (simp add: mask_env_def)
      next
        case R: False
        have "x \<notin> outputs_of (g_node g)" using x R by (auto simp: g'(1))
        then show ?thesis using old(2) [of x] False R i by (simp add: mask_env_def)
      qed
    qed
  qed
qed

text \<open>
  C39: the Paraformer surgery refines.  Let every tensor be written once and read afterwards, let each
  of the two masks be read once and nothing else of the mask subgraphs be read outside them, and let
  the names of the new inputs be free.  If the original decoder evaluates, then the edited one, given
  the two masks that the original computed as its new inputs, evaluates as well and gives every
  tensor outside the removed subgraphs the same value; exactly the nodes of the two subgraphs are
  gone, in order, and the two inputs are declared last.
\<close>

theorem masks_refine:
  assumes "replace_mask_subgraphs m = Inr m'" and "find_mask_subgraphs (g_node (dm_graph m)) = Inr (ms, ms1, c, c1)"
    and "out = hd (nd_output (g_node (dm_graph m) ! c))" and "out1 = hd (nd_output (g_node (dm_graph m) ! c1))"
    and "well_ordered known (dm_graph m)" and "masks_separate known (dm_graph m) out out1"
    and "eval_graph sem denote (dm_graph m) given = Some e"
  shows "(\<exists>e'. eval_graph sem denote (dm_graph m') (given(''pad_mask'' := e out, ''enc_pad_mask'' := e out1)) = Some e'
      \<and> (\<forall>x. x \<notin> mask_outputs (dm_graph m) \<union> {''pad_mask'', ''enc_pad_mask''} \<longrightarrow> e' x = e x))
    \<and> map nd_name (g_node (dm_graph m')) = filter (\<lambda>name. \<not> prefix mask_prefix name \<and> \<not> prefix mask_prefix_1 name)
        (map nd_name (g_node (dm_graph m)))
    \<and> dm_input m' = dm_input m @ mask_inputs"
proof -
  note n = mask_nodes [OF assms(2)]
  have s: "use_count (g_node (dm_graph m)) out = 1" "use_count (g_node (dm_graph m)) out1 = 1"
    "{''pad_mask'', ''enc_pad_mask''} \<inter> (known \<union> outputs_of (g_node (dm_graph m))) = {}"
    using assms(6) unfolding masks_separate_def by simp_all
  have w: "written_once known (g_node (dm_graph m))" using assms(5) by (simp add: well_ordered_def)
  have ne: "nd_output (g_node (dm_graph m) ! c) \<noteq> []" "nd_output (g_node (dm_graph m) ! c1) \<noteq> []"
    using assms(1,2) by (auto simp: replace_mask_subgraphs_def Let_def split: if_splits)
  have o: "out \<in> set (nd_output (g_node (dm_graph m) ! c))" "out1 \<in> set (nd_output (g_node (dm_graph m) ! c1))"
    using ne unfolding assms(3,4) by simp_all
  have "g_node (dm_graph m) ! c \<in> set (filter is_mask (g_node (dm_graph m)))"
    "g_node (dm_graph m) ! c1 \<in> set (filter is_mask (g_node (dm_graph m)))"
    using n by simp_all
  then have R: "{out, out1} \<subseteq> mask_outputs (dm_graph m)" using o by blast
  then have "out1 \<noteq> ''pad_mask''" using s(3) by auto
  moreover have d: "out1 \<noteq> out" using written_separate [OF w _ _ conjunct2 [OF conjunct2 [OF conjunct2 [OF conjunct2 [OF n]]]]] n o by auto
  ultimately have e: "g_node (dm_graph m') = map (to_inputs out out1) (filter (\<lambda>nd. \<not> is_mask nd) (g_node (dm_graph m)))"
    "g_initializer (dm_graph m') = g_initializer (dm_graph m)" "dm_input m' = dm_input m @ mask_inputs"
    using mask_edit [OF assms(1-4) s(1,2)] by blast+
  have "map nd_name (g_node (dm_graph m')) = filter (\<lambda>name. \<not> prefix mask_prefix name \<and> \<not> prefix mask_prefix_1 name)
      (map nd_name (g_node (dm_graph m)))"
    by (simp add: e(1) filter_map comp_def is_mask_def)
  moreover have "\<forall>x. x \<notin> mask_outputs (dm_graph m) \<union> {''pad_mask'', ''enc_pad_mask''}
      \<longrightarrow> mask_env denote (dm_graph m) given e out out1 x = e x"
    by (simp add: mask_env_def)
  ultimately show ?thesis using masks_evaluate [OF assms(5-7) d R e(1,2)] e(3) by blast
qed

end
