(* ===== verification/Mask_Inputs_Witness.thy ===== *)
theory Mask_Inputs_Witness
  imports Mask_Inputs_Props
begin

text \<open>
  A small decoder with both mask subgraphs, and one whose mask has two readers: only the first is
  rewired.
\<close>

definition eg_mask_sem :: "rat list onnx_sem" where
  "eg_mask_sem ty domain attrs xs =
     (if ty \<in> {''Range'', ''Cast'', ''Unsqueeze''} then (case xs of [Some v] \<Rightarrow> Some [v] | _ \<Rightarrow> None)
      else if ty = ''Mul'' then (case xs of [Some v, Some w] \<Rightarrow> Some [map2 (*) v w] | _ \<Rightarrow> None)
      else None)"

definition eg_mask_nodes :: "string \<Rightarrow> onnx_node list" where
  "eg_mask_nodes extra =
     [make_node ''Range'' [''len''] [''r0''] (mask_prefix @ ''Range'') [],
      make_node ''Cast'' [''r0''] [''m0''] (mask_prefix @ ''Cast_3'') [],
      make_node ''Cast'' [''enc_len''] [''m1''] (mask_prefix_1 @ ''Cast_3'') [],
      make_node ''Unsqueeze'' [''m0''] [''u0''] ''/decoder/Unsqueeze'' [],
      make_node ''Mul'' [extra, ''m1''] [''y''] ''/decoder/Mul'' []]"

definition eg_decoder :: "string \<Rightarrow> decoder_model" where
  "eg_decoder extra = \<lparr>dm_graph = \<lparr>g_node = eg_mask_nodes extra, g_initializer = []\<rparr>, dm_input = [(''len'', 7, []), (''enc_len'', 7, [])]\<rparr>"

definition eg_lengths :: "rat list env" where
  "eg_lengths = [''len'' \<mapsto> [1, 1], ''enc_len'' \<mapsto> [2, 3]]"

lemma eg_decoder_run:
  "case eval_graph eg_mask_sem (\<lambda>d v. v) (dm_graph (eg_decoder ''u0'')) eg_lengths of None \<Rightarrow> False
   | Some e \<Rightarrow> e ''m0'' = Some [1, 1] \<and> e ''m1'' = Some [2, 3] \<and> e ''y'' = Some [2, 3]"
  by code_simp

theorem masks_refine_witness:
  "\<exists>m' e'. replace_mask_subgraphs (eg_decoder ''u0'') = Inr m' \<and> map nd_name (g_node (dm_graph m')) = [''/decoder/Unsqueeze'', ''/decoder/Mul'']
     \<and> eval_graph eg_mask_sem (\<lambda>d v. v) (dm_graph m') (eg_lengths(''pad_mask'' := Some [1, 1], ''enc_pad_mask'' := Some [2, 3])) = Some e'
     \<and> e' ''y'' = Some [2, 3]"
proof -
  let ?m = "eg_decoder ''u0''" and ?K = "{''len'', ''enc_len''}"
  have "case replace_mask_subgraphs ?m of Inl _ \<Rightarrow> False | Inr m' \<Rightarrow> True" by code_simp
  then obtain m' where m': "replace_mask_subgraphs ?m = Inr m'" by (auto split: sum.splits)
  obtain e where e: "eval_graph eg_mask_sem (\<lambda>d v. v) (dm_graph ?m) eg_lengths = Some e"
    "e ''m0'' = Some [1, 1]" "e ''m1'' = Some [2, 3]" "e ''y'' = Some [2, 3]"
    using eg_decoder_run by (auto split: option.splits)
  have f: "find_mask_subgraphs (g_node (dm_graph ?m)) = Inr ([0, 1], [2], 1, 2)"
    "''m0'' = hd (nd_output (g_node (dm_graph ?m) ! 1))" "''m1'' = hd (nd_output (g_node (dm_graph ?m) ! 2))"
    by code_simp+
  have o: "well_ordered ?K (dm_graph ?m)"
    by (auto simp: well_ordered_def eg_decoder_def eg_mask_nodes_def make_node_def written_once_def)
  have k: "filter is_mask (eg_mask_nodes ''u0'') = take 3 (eg_mask_nodes ''u0'')" by code_simp
  have n: "\<forall>nd\<in>set (g_node (dm_graph ?m)). \<not> is_mask nd \<longrightarrow> nd \<in> set (drop 3 (eg_mask_nodes ''u0''))" by code_simp
  have "masks_separate ?K (dm_graph ?m) ''m0'' ''m1''"
    unfolding masks_separate_def
  proof (intro conjI ballI impI)
    fix nd
    assume "nd \<in> set (g_node (dm_graph ?m))" "\<not> is_mask nd"
    then have "nd \<in> set (drop 3 (eg_mask_nodes ''u0''))" using n by blast
    then show "set (nd_input nd) \<inter> mask_outputs (dm_graph ?m) \<subseteq> {''m0'', ''m1''}"
      by (auto simp: eg_decoder_def k) (auto simp: eg_mask_nodes_def make_node_def)
  qed (auto simp: eg_decoder_def eg_mask_nodes_def make_node_def use_count_def)
  note t = masks_refine [OF m' f o this e(1), unfolded e(2,3)]
  have "map nd_name (g_node (dm_graph m')) = [''/decoder/Unsqueeze'', ''/decoder/Mul'']"
  proof -
    have "filter (\<lambda>name. \<not> prefix mask_prefix name \<and> \<not> prefix mask_prefix_1 name) (map nd_name (g_node (dm_graph ?m)))
        = [''/decoder/Unsqueeze'', ''/decoder/Mul'']" by code_simp
    then show ?thesis using t by metis
  qed
  moreover have "''y'' \<notin> mask_outputs (dm_graph ?m) \<union> {''pad_mask'', ''enc_pad_mask''}"
    by (simp add: eg_decoder_def k) (simp add: eg_mask_nodes_def make_node_def)
  moreover obtain e' where "eval_graph eg_mask_sem (\<lambda>d v. v) (dm_graph m')
        (eg_lengths(''pad_mask'' := Some [1, 1], ''enc_pad_mask'' := Some [2, 3])) = Some e'"
      "\<forall>x. x \<notin> mask_outputs (dm_graph ?m) \<union> {''pad_mask'', ''enc_pad_mask''} \<longrightarrow> e' x = e x"
    using conjunct1 [OF t] by (elim exE conjE)
  ultimately have "e' ''y'' = Some [2, 3]" using e(4) by (elim allE [of _ "''y''"]) (simp only: not_False_eq_True simp_thms)
  show ?thesis by (intro exI [of _ m'] exI [of _ e'] conjI) fact+
qed

text \<open>A mask with a second reader: the edit succeeds and leaves a graph that cannot be evaluated.\<close>

lemma second_reader_dangles:
  "case replace_mask_subgraphs (eg_decoder ''m0'') of Inl _ \<Rightarrow> False
   | Inr m' \<Rightarrow> eval_graph eg_mask_sem (\<lambda>d v. v) (dm_graph (eg_decoder ''m0'')) eg_lengths \<noteq> None
       \<and> eval_graph eg_mask_sem (\<lambda>d v. v) (dm_graph m')
           (eg_lengths(''pad_mask'' := Some [1, 1], ''enc_pad_mask'' := Some [2, 3])) = None"
proof -
  have n: "(r :: rat list env option) \<noteq> None \<longleftrightarrow> \<not> Option.is_none r" "r = None \<longleftrightarrow> Option.is_none r" for r
    by (simp_all add: Option.is_none_def)
  show ?thesis unfolding n by code_simp
qed

end
