(* ===== verification/Cp_Head.thy ===== *)
theory Cp_Head
  imports Mask_Inputs W8_Layout_Props
begin

text \<open>
  \<^verbatim>\<open>scripts/optimize_qwen3_tts_cp_lm_head_transpose.py\<close>: the stacked heads of the code predictor
  are stored transposed, the node that transposed the gathered head is removed, and the product
  reads the gathered head itself.
\<close>

section \<open>The script\<close>

datatype head_error = NoStackedWeights | StackedShape | NoTail | NodeOutput | TransposeInput | MatMulInput

text \<open>\<^verbatim>\<open>weights.transpose(0, 2, 1)\<close> on the flat elements.\<close>

definition slice :: "nat \<Rightarrow> nat \<Rightarrow> 'a list \<Rightarrow> 'a list" where
  "slice len k xs = take len (drop (k * len) xs)"

definition swap_last :: "nat \<Rightarrow> nat \<Rightarrow> nat \<Rightarrow> 'a list \<Rightarrow> 'a list" where
  "swap_last n rows cols xs = concat (map (\<lambda>k. swapped rows cols (slice (rows * cols) k xs)) [0..<n])"

text \<open>The loop over the nodes keeps the last node of each name.\<close>

record tail_nodes =
  gather :: "nat option"
  transposer :: "nat option"
  matmul :: "nat option"

definition find_tail :: "onnx_node list \<Rightarrow> tail_nodes" where
  "find_tail nodes =
     fold (\<lambda>(i, nd) t.
         if nd_name nd = ''/Gather'' then t\<lparr>gather := Some i\<rparr>
         else if nd_name nd = ''/Transpose'' then t\<lparr>transposer := Some i\<rparr>
         else if nd_name nd = ''/MatMul'' then t\<lparr>matmul := Some i\<rparr>
         else t)
       (enumerate 0 nodes) \<lparr>gather = None, transposer = None, matmul = None\<rparr>"

definition rewire_tail :: "onnx_node list \<Rightarrow> nat \<Rightarrow> nat \<Rightarrow> nat \<Rightarrow> head_error + onnx_node list" where
  "rewire_tail nodes ga tr ma =
     (if nd_output (nodes ! ga) = [] then Inl NodeOutput
      else if nd_input (nodes ! tr) \<noteq> [hd (nd_output (nodes ! ga))] then Inl TransposeInput
      else if length (nd_input (nodes ! ma)) < 2 then Inl MatMulInput
      else if nd_output (nodes ! tr) = [] then Inl NodeOutput
      else if nd_input (nodes ! ma) ! 1 \<noteq> hd (nd_output (nodes ! tr)) then Inl MatMulInput
      else Inr (filter (\<lambda>nd. nd_name nd \<noteq> ''/Transpose'')
        (nodes[ma := set_input 1 (hd (nd_output (nodes ! ga))) (nodes ! ma)])))"

definition head_main :: "onnx_graph \<Rightarrow> head_error + onnx_graph" where
  "head_main g =
     (case initializer_map (g_initializer g) ''stacked_weights'' of
        None \<Rightarrow> Inl NoStackedWeights
      | Some t \<Rightarrow>
          if in_dims t \<noteq> [15, 2048, 1024] then Inl StackedShape
          else (let stacked = t\<lparr>in_dims := [15, 1024, 2048], in_vals := swap_last 15 2048 1024 (in_vals t)\<rparr>;
                    nodes = g_node g; found = find_tail nodes
                in case (gather found, transposer found, matmul found) of
                     (Some ga, Some tr, Some ma) \<Rightarrow>
                       res_bind (rewire_tail nodes ga tr ma) (\<lambda>nodes'.
                         Inr \<lparr>g_node = nodes', g_initializer = replace_last stacked (g_initializer g)\<rparr>)
                   | _ \<Rightarrow> Inl NoTail))"

section \<open>Slices\<close>

lemma swap_last_slice:
  assumes "k < n"
  shows "slice (rows * cols) k (swap_last n rows cols xs) = swapped rows cols (slice (rows * cols) k xs)"
proof -
  let ?f = "\<lambda>k. swapped rows cols (slice (rows * cols) k xs)"
  have len: "length (concat (map ?f [a..<b])) = (b - a) * (rows * cols)" for a b
    by (simp add: length_concat comp_def sum_list_triv)
  have "[0..<n] = [0..<k] @ k # [Suc k..<n]" using assms upt_add_eq_append [of 0 k "n - k"] upt_conv_Cons [of k n] by simp
  then have "swap_last n rows cols xs = concat (map ?f [0..<k]) @ ?f k @ concat (map ?f [Suc k..<n])"
    by (simp add: swap_last_def)
  then show ?thesis using len [of 0 k] by (simp add: slice_def)
qed

lemma tail_fold:
  fixes P Q R :: "onnx_node \<Rightarrow> bool" and nodes :: "onnx_node list"
  defines "f \<equiv> \<lambda>(i, nd) t. if P nd then t\<lparr>gather := Some i\<rparr> else if Q nd then t\<lparr>transposer := Some i\<rparr>
    else if R nd then t\<lparr>matmul := Some i\<rparr> else t"
    and "ok \<equiv> \<lambda>t. (\<forall>i. gather t = Some i \<longrightarrow> i < length nodes \<and> P (nodes ! i))
    \<and> (\<forall>i. transposer t = Some i \<longrightarrow> i < length nodes \<and> Q (nodes ! i))
    \<and> (\<forall>i. matmul t = Some i \<longrightarrow> i < length nodes \<and> R (nodes ! i))"
  assumes "ok t" and "set ps \<subseteq> set (enumerate 0 nodes)"
  shows "ok (fold f ps (t :: tail_nodes))"
  using assms(3,4)
proof (induction ps arbitrary: t)
  case (Cons p ps)
  obtain i nd where p: "p = (i, nd)" by (cases p)
  then have "i < length nodes" "nd = nodes ! i" using Cons.prems(2) by (auto simp: in_set_enumerate_eq)
  then have "ok (f p t)" using Cons.prems(1) by (simp add: p f_def ok_def)
  then show ?case using Cons.IH [of "f p t"] Cons.prems(2) by simp
qed simp

lemma find_tail_Some:
  "gather (find_tail nodes) = Some i \<Longrightarrow> i < length nodes \<and> nd_name (nodes ! i) = ''/Gather''"
  "transposer (find_tail nodes) = Some i \<Longrightarrow> i < length nodes \<and> nd_name (nodes ! i) = ''/Transpose''"
  "matmul (find_tail nodes) = Some i \<Longrightarrow> i < length nodes \<and> nd_name (nodes ! i) = ''/MatMul''"
  using tail_fold [of "\<lparr>gather = None, transposer = None, matmul = None\<rparr>" nodes "\<lambda>nd. nd_name nd = ''/Gather''"
      "\<lambda>nd. nd_name nd = ''/Transpose''" "\<lambda>nd. nd_name nd = ''/MatMul''" "enumerate 0 nodes"]
  unfolding find_tail_def by simp_all

end
