(* ===== verification/Cp_Head_Props.thy ===== *)
theory Cp_Head_Props
  imports Cp_Head
begin

text \<open>
  The code predictor with pre-transposed heads computes what it computed before, for every step
  whose head exists.
\<close>

section \<open>Operators\<close>

definition axis_first :: "dict \<Rightarrow> bool" where
  "axis_first attrs \<longleftrightarrow> map_of attrs ''axis'' \<in> {None, Some (JInt 0)}"

definition perm_swap :: "dict \<Rightarrow> bool" where
  "perm_swap attrs \<longleftrightarrow> map_of attrs ''perm'' \<in> {None, Some (JList [JInt 1, JInt 0])}"

text \<open>\<^verbatim>\<open>Gather\<close> of one element along the first axis, \<^verbatim>\<open>Transpose\<close> of a matrix.\<close>

definition head_sem :: "'v onnx_sem \<Rightarrow> (nat list \<Rightarrow> rat list \<Rightarrow> 'v) \<Rightarrow> bool" where
  "head_sem sem denote \<longleftrightarrow>
     (\<forall>attrs n rows cols vals k. axis_first attrs \<and> k < n \<and> length vals = n * (rows * cols) \<longrightarrow>
        sem ''Gather'' [] attrs [Some (denote [n, rows, cols] vals), Some (denote [] [of_nat k])]
          = Some [denote [rows, cols] (slice (rows * cols) k vals)])
     \<and> (\<forall>attrs rows cols vals. perm_swap attrs \<and> length vals = rows * cols \<longrightarrow>
        sem ''Transpose'' [] attrs [Some (denote [rows, cols] vals)] = Some [denote [cols, rows] (swapped rows cols vals)])"

lemma head_semD:
  assumes "head_sem sem denote"
  shows "axis_first attrs \<Longrightarrow> k < n \<Longrightarrow> length vals = n * (rows * cols) \<Longrightarrow>
      sem ''Gather'' [] attrs [Some (denote [n, rows, cols] vals), Some (denote [] [of_nat k])]
        = Some [denote [rows, cols] (slice (rows * cols) k vals)]"
    and "perm_swap attrs \<Longrightarrow> length vals = rows * cols \<Longrightarrow>
      sem ''Transpose'' [] attrs [Some (denote [rows, cols] vals)] = Some [denote [cols, rows] (swapped rows cols vals)]"
  using assms unfolding head_sem_def by blast+

lemma length_slice: "k < n \<Longrightarrow> length xs = n * len \<Longrightarrow> length (slice len k xs) = len"
proof -
  assume "k < n" "length xs = n * len"
  then have "Suc k * len \<le> length xs" by (metis Suc_leI mult_le_mono1)
  then show ?thesis by (simp add: slice_def)
qed

lemma length_swap_last: "length (swap_last n rows cols xs) = n * (cols * rows)"
  by (simp add: swap_last_def length_concat comp_def sum_list_triv mult.commute)

text \<open>Gathering and then transposing is gathering from the transposed heads.\<close>

lemma gather_swapped:
  assumes "head_sem sem denote" and "axis_first attrs" and "perm_swap attrs'" and "k < n" and "length vals = n * (rows * cols)"
    and "sem ''Gather'' [] attrs [Some (denote [n, rows, cols] vals), Some (denote [] [of_nat k])] = Some [w]"
    and "sem ''Transpose'' [] attrs' [Some w] = Some [v]"
  shows "sem ''Gather'' [] attrs [Some (denote [n, cols, rows] (swap_last n rows cols vals)), Some (denote [] [of_nat k])] = Some [v]"
proof -
  have w: "w = denote [rows, cols] (slice (rows * cols) k vals)"
    using assms(6) head_semD(1) [OF assms(1,2,4,5)] by simp
  then have v: "v = denote [cols, rows] (swapped rows cols (slice (rows * cols) k vals))"
    using assms(7) head_semD(2) [OF assms(1,3), of "slice (rows * cols) k vals" rows cols] length_slice [OF assms(4,5)] by simp
  have "slice (cols * rows) k (swap_last n rows cols vals) = swapped rows cols (slice (rows * cols) k vals)"
    using swap_last_slice [OF assms(4), of rows cols vals] by (simp add: mult.commute)
  then show ?thesis unfolding v using head_semD(1) [OF assms(1,2,4) length_swap_last [of n rows cols vals]] by simp
qed

section \<open>The tail\<close>

lemma read_once:
  assumes "use_count nodes x = 1" and "i < length nodes" and "j < length nodes"
    and "x \<in> set (nd_input (nodes ! i))" and "x \<in> set (nd_input (nodes ! j))"
  shows "i = j"
proof (rule ccontr)
  assume n: "i \<noteq> j"
  have s: "nodes = take i nodes @ nodes ! i # drop (Suc i) nodes" using assms(2) by (rule id_take_nth_drop)
  have "0 < count_list (nd_input (nodes ! i)) x" using assms(4) by (simp add: count_list_0_iff zero_less_iff_neq_zero)
  moreover have "use_count (take i nodes) x + count_list (nd_input (nodes ! i)) x + use_count (drop (Suc i) nodes) x = 1"
    using assms(1) use_count_split s by metis
  ultimately have "x \<notin> inputs_of (take i nodes)" "x \<notin> inputs_of (drop (Suc i) nodes)"
    unfolding use_count_0 [symmetric] by linarith+
  moreover have "nodes ! j \<in> set (take i nodes) \<or> nodes ! j \<in> set (drop (Suc i) nodes)"
  proof (cases "j < i")
    case True
    then show ?thesis using assms(2) by (metis length_take min.absorb4 nth_mem nth_take)
  next
    case False
    then have "drop (Suc i) nodes ! (j - Suc i) = nodes ! j" "j - Suc i < length (drop (Suc i) nodes)" using n assms(3) by auto
    then show ?thesis by (metis nth_mem)
  qed
  ultimately show False using assms(5) by blast
qed

text \<open>
  The three nodes are a gather along the first axis from the stacked heads, a transposition of its
  result, and whatever reads that result; each of the three names is read once.
\<close>

definition head_tail :: "onnx_node list \<Rightarrow> nat \<Rightarrow> nat \<Rightarrow> string \<Rightarrow> string \<Rightarrow> string \<Rightarrow> bool" where
  "head_tail nodes ga tr idx gout tout \<longleftrightarrow>
     op_type (nodes ! ga) = ''Gather'' \<and> nd_domain (nodes ! ga) = [] \<and> axis_first (nd_attribute (nodes ! ga))
     \<and> nd_input (nodes ! ga) = [''stacked_weights'', idx] \<and> nd_output (nodes ! ga) = [gout]
     \<and> op_type (nodes ! tr) = ''Transpose'' \<and> nd_domain (nodes ! tr) = [] \<and> perm_swap (nd_attribute (nodes ! tr))
     \<and> nd_output (nodes ! tr) = [tout]
     \<and> use_count nodes ''stacked_weights'' = 1 \<and> use_count nodes gout = 1 \<and> use_count nodes tout = 1
     \<and> (\<forall>i<length nodes. nd_name (nodes ! i) = ''/Transpose'' \<longrightarrow> i = tr)"

lemma rewire_tail_Inr:
  assumes "rewire_tail nodes ga tr ma = Inr nodes'" and "head_tail nodes ga tr idx gout tout"
  shows "nd_input (nodes ! tr) = [gout] \<and> 1 < length (nd_input (nodes ! ma)) \<and> nd_input (nodes ! ma) ! 1 = tout
    \<and> nodes' = filter (\<lambda>nd. nd_name nd \<noteq> ''/Transpose'') (rewire_at (ma, 1) gout nodes)"
proof -
  have o: "nd_output (nodes ! ga) = [gout]" "nd_output (nodes ! tr) = [tout]" using assms(2) by (simp_all add: head_tail_def)
  show ?thesis using assms(1) unfolding rewire_tail_def o rewire_at_def prod.case
    by (simp only: list.sel list.distinct if_False not_Cons_self2 split: if_split_asm) auto
qed

lemma unread_before:
  assumes "readable known nodes" and "written_once known nodes" and "tr < length nodes" and "tout \<in> set (nd_output (nodes ! tr))"
  shows "tout \<notin> inputs_of (take tr nodes)"
proof
  assume "tout \<in> inputs_of (take tr nodes)"
  then obtain nd where nd: "nd \<in> set (take tr nodes)" "tout \<in> set (nd_input nd)" by blast
  then obtain i where "i < tr" "nodes ! i = nd" using assms(3) by (auto simp: in_set_conv_nth [of nd])
  then have "i < tr" "tout \<in> set (nd_input (nodes ! i))" using nd(2) by simp_all
  then show False using read_after_write [OF assms(1,2) _ assms(3) _ assms(4), of i] assms(3) by simp
qed

lemma head_nodes:
  assumes "rewire_tail nodes ga tr ma = Inr nodes'" and "head_tail nodes ga tr idx gout tout"
    and "readable known nodes" and "written_once known nodes"
    and "tr < length nodes" and "ma < length nodes" and "nd_name (nodes ! tr) = ''/Transpose''"
  shows "nodes' = take tr nodes @ map (rewire tout gout) (drop (Suc tr) nodes) \<and> nd_input (nodes ! tr) = [gout]"
proof -
  note r = rewire_tail_Inr [OF assms(1,2)]
  have h: "use_count nodes tout = 1" "nd_output (nodes ! tr) = [tout]" "\<forall>i<length nodes. nd_name (nodes ! i) = ''/Transpose'' \<longrightarrow> i = tr"
    using assms(2) by (simp_all add: head_tail_def)
  let ?f = "rewire tout gout"
  have "rewire_at (ma, 1) gout nodes = map ?f nodes"
    by (rule rewire_at_only) (use h(1) assms(6) r in auto)
  moreover have "nodes = take tr nodes @ nodes ! tr # drop (Suc tr) nodes" using assms(5) by (rule id_take_nth_drop)
  moreover have "map ?f (take tr nodes) = take tr nodes"
    by (rule rewire_unread_list) (rule unread_before [OF assms(3-5)], simp add: h(2))
  ultimately have all: "rewire_at (ma, 1) gout nodes = take tr nodes @ ?f (nodes ! tr) # map ?f (drop (Suc tr) nodes)"
    by (metis list.simps(9) map_append)
  have name: "nd_name (?f nd) = nd_name nd" for nd by (simp add: rewire_def)
  have "\<forall>nd\<in>set (take tr nodes). nd_name nd \<noteq> ''/Transpose''" 
  proof
    fix nd
    assume "nd \<in> set (take tr nodes)"
    then obtain i where "i < tr" "nd = nodes ! i" using assms(5) by (auto simp: in_set_conv_nth)
    then show "nd_name nd \<noteq> ''/Transpose''" using h(3) [rule_format, of i] assms(5) by auto
  qed
  moreover have "\<forall>nd\<in>set (drop (Suc tr) nodes). nd_name nd \<noteq> ''/Transpose''"
  proof
    fix nd
    assume "nd \<in> set (drop (Suc tr) nodes)"
    then obtain i where "i < length nodes - Suc tr" "nd = nodes ! (Suc tr + i)" by (auto simp: in_set_conv_nth)
    moreover have "Suc tr + i < length nodes" using \<open>i < length nodes - Suc tr\<close> by linarith
    ultimately show "nd_name nd \<noteq> ''/Transpose''" using h(3) [rule_format, of "Suc tr + i"] by auto
  qed
  ultimately have "filter (\<lambda>nd. nd_name nd \<noteq> ''/Transpose'') (rewire_at (ma, 1) gout nodes)
      = take tr nodes @ map ?f (drop (Suc tr) nodes)"
    unfolding all using assms(7) by (simp only: filter_append filter.simps name filter_map comp_def simp_thms if_False filter_True filter_id_conv)
  then show ?thesis using r by simp
qed

lemma head_readable:
  assumes "readable known nodes" and "written_once known nodes" and "tr < length nodes"
    and "nd_input (nodes ! tr) = [gout]" and "nd_output (nodes ! tr) = [tout]" and "gout \<noteq> []"
  shows "readable known (take tr nodes @ map (rewire tout gout) (drop (Suc tr) nodes))"
proof -
  have s: "nodes = take tr nodes @ nodes ! tr # drop (Suc tr) nodes" using assms(3) by (rule id_take_nth_drop)
  let ?K = "known \<union> outputs_of (take tr nodes)"
  have "readable known (take tr nodes @ nodes ! tr # drop (Suc tr) nodes)" using assms(1) s by simp
  then have r: "readable known (take tr nodes)" "gout \<in> ?K" "readable (insert tout ?K) (drop (Suc tr) nodes)"
    using assms(4-6) by (simp_all add: readable_append)
  have "readable ?K (map (rewire tout gout) (drop (Suc tr) nodes))"
    by (rule readable_rewire [OF r(3,2)]) simp
  then show ?thesis using r(1) unfolding readable_append by blast
qed

section \<open>Meaning\<close>

definition head_env ::
  "(nat list \<Rightarrow> rat list \<Rightarrow> 'v) \<Rightarrow> onnx_init list \<Rightarrow> 'v env \<Rightarrow> 'v \<Rightarrow> string \<Rightarrow> string \<Rightarrow> 'v env \<Rightarrow> 'v env" where
  "head_env denote inits given stacked gout tout e x =
     (if x = ''stacked_weights'' then Some stacked else if x = gout then e tout
      else if x = tout then init_env denote inits given tout else e x)"

text \<open>The two removed equations give the new one.\<close>

lemma head_gather:
  assumes "head_sem sem denote" and h: "head_tail nodes ga tr idx gout tout" and "nd_input (nodes ! tr) = [gout]"
    and "satisfies sem e (nodes ! ga)" and "satisfies sem e (nodes ! tr)"
    and "e ''stacked_weights'' = Some (denote [n, rows, cols] vals)" and "length vals = n * (rows * cols)"
    and "e idx = Some (denote [] [of_nat k])" and "k < n"
    and "idx \<notin> {''stacked_weights'', gout, tout}" and "gout \<noteq> ''stacked_weights''"
  shows "satisfies sem (head_env denote inits given (denote [n, cols, rows] (swap_last n rows cols vals)) gout tout e) (nodes ! ga)"
proof -
  have t: "op_type (nodes ! ga) = ''Gather''" "nd_domain (nodes ! ga) = []" "nd_input (nodes ! ga) = [''stacked_weights'', idx]"
    "nd_output (nodes ! ga) = [gout]" "op_type (nodes ! tr) = ''Transpose''" "nd_domain (nodes ! tr) = []" "nd_output (nodes ! tr) = [tout]"
    and a: "axis_first (nd_attribute (nodes ! ga))" "perm_swap (nd_attribute (nodes ! tr))"
    using h by (simp_all add: head_tail_def)
  obtain w where w: "sem ''Gather'' [] (nd_attribute (nodes ! ga)) [Some (denote [n, rows, cols] vals), Some (denote [] [of_nat k])] = Some [w]"
    "e gout = Some w"
    using assms(4,6,8) by (auto simp: satisfies_def t)
  obtain v where v: "sem ''Transpose'' [] (nd_attribute (nodes ! tr)) [Some w] = Some [v]" "e tout = Some v"
    using assms(5) w(2) by (auto simp: satisfies_def t assms(3))
  note g = gather_swapped [OF assms(1) a assms(9,7) w(1) v(1)]
  have idx: "idx \<noteq> ''stacked_weights''" "idx \<noteq> gout" "idx \<noteq> tout" using assms(10) by simp_all
  have "head_env denote inits given s gout tout e ''stacked_weights'' = Some s" for s by (simp add: head_env_def)
  moreover have "head_env denote inits given s gout tout e idx = Some (denote [] [of_nat k])" for s
    unfolding head_env_def using idx assms(8) by (simp only: if_False)
  moreover have "head_env denote inits given s gout tout e gout = Some v" for s
    unfolding head_env_def using assms(11) v(2) by (simp only: if_False if_True refl)
  ultimately show ?thesis unfolding satisfies_def t list.map using g by auto
qed

text \<open>The names of the tail, in a graph that is written once and read afterwards.\<close>

lemma head_names:
  assumes "readable known nodes" and "written_once known nodes" and "sw \<in> known"
    and "ga < length nodes" and "tr < length nodes" and "nodes ! ga \<noteq> nodes ! tr" and "use_count nodes sw = 1"
    and "nd_input (nodes ! ga) = [sw, idx]" and "nd_output (nodes ! ga) = [gout]"
    and "nd_input (nodes ! tr) = [gout]" and "nd_output (nodes ! tr) = [tout]"
  shows "distinct [sw, gout, tout] \<and> idx \<notin> {sw, gout, tout} \<and> gout \<noteq> [] \<and> tout \<noteq> []"
proof -
  have k: "outputs_of nodes \<inter> insert [] known = {}" using assms(2) unfolding written_once_def by (rule conjunct2)
  have o: "gout \<in> outputs_of nodes" "tout \<in> outputs_of nodes"
    using assms(4,5,9,11) by (metis UN_I list.set_intros(1) nth_mem)+
  have d: "gout \<noteq> tout" using written_separate [OF assms(2) nth_mem [OF assms(4)] nth_mem [OF assms(5)] assms(6)] assms(9,11) by simp
  note raw = read_after_write [OF assms(1,2)]
  have "idx \<noteq> gout" using raw [OF assms(4,4), of gout] assms(8,9) by auto
  moreover have "idx \<noteq> tout"
    using raw [OF assms(4,5), of tout] raw [OF assms(5,4), of gout] assms(8-11) by auto
  moreover have "idx \<noteq> sw"
  proof
    assume "idx = sw"
    then have "count_list (nd_input (nodes ! ga)) sw = 2" by (simp add: assms(8))
    moreover have "nodes = take ga nodes @ nodes ! ga # drop (Suc ga) nodes" using assms(4) by (rule id_take_nth_drop)
    ultimately show False using assms(7) use_count_split [of "take ga nodes" "nodes ! ga" "drop (Suc ga) nodes" sw] by simp
  qed
  ultimately show ?thesis using k o d assms(3) by auto
qed

lemma written_at:
  assumes "written_once known nodes" and "i < length nodes" and "j < length nodes" and "i \<noteq> j" and "x \<in> set (nd_output (nodes ! j))"
  shows "x \<notin> set (nd_output (nodes ! i))"
  using assms written_unique [OF assms(1), of i j] written_unique [OF assms(1), of j i] by (cases "i < j") auto

lemma head_evaluates:
  assumes w: "readable known (g_node g)" "written_once known (g_node g)" "in_name ` set (g_initializer g) \<subseteq> known"
    and run: "eval_graph sem denote g given = Some e"
    and h: "head_sem sem denote" "head_tail (g_node g) ga tr idx gout tout" "nd_input (g_node g ! tr) = [gout]"
    and pos: "ga < length (g_node g)" "tr < length (g_node g)" "g_node g ! ga \<noteq> g_node g ! tr"
    and sw: "initializer_map (g_initializer g) ''stacked_weights'' = Some t" "in_dims t = [n, rows, cols]" "length (in_vals t) = n * (rows * cols)"
    and idx: "e idx = Some (denote [] [of_nat k])" "k < n"
  defines "s \<equiv> swap_last n rows cols (in_vals t)"
  shows "eval_graph sem denote \<lparr>g_node = take tr (g_node g) @ map (rewire tout gout) (drop (Suc tr) (g_node g)),
      g_initializer = replace_last (t\<lparr>in_dims := [n, cols, rows], in_vals := s\<rparr>) (g_initializer g)\<rparr> given
    = Some (head_env denote (g_initializer g) given (denote [n, cols, rows] s) gout tout e)"
    (is "eval_graph sem denote ?g given = Some ?e")
proof -
  let ?nodes = "g_node g" and ?sw = "''stacked_weights''" and ?f = "rewire tout gout"
  have t: "nd_input (?nodes ! ga) = [?sw, idx]" "nd_output (?nodes ! ga) = [gout]" "nd_output (?nodes ! tr) = [tout]"
    "use_count ?nodes ?sw = 1" "use_count ?nodes gout = 1" "use_count ?nodes tout = 1"
    using h(2) by (simp_all add: head_tail_def)
  have it: "t \<in> set (g_initializer g)" "in_name t = ?sw" using initializer_map_Some [OF sw(1)] by simp_all
  then have "?sw \<in> in_name ` set (g_initializer g)" by (metis image_eqI)
  then have "?sw \<in> known" using w(3) by blast
  note n = head_names [OF w(1,2) this pos t(4) t(1,2) h(3) t(3)]
  note old = eval_graph_start [OF w(1,2) run]
  have known: "outputs_of ?nodes \<inter> insert [] known = {}" using w(2) unfolding written_once_def by (rule conjunct2)
  have split: "?nodes = take tr ?nodes @ ?nodes ! tr # drop (Suc tr) ?nodes" using pos(2) by (rule id_take_nth_drop)
  have keep: "?e x = e x" if "x \<noteq> ?sw" "x \<noteq> gout" "x \<noteq> tout" for x using that unfolding head_env_def by (simp only: if_False)
  have new: "satisfies sem ?e (?f (?nodes ! i))" if i: "i < length ?nodes" "i \<noteq> tr" for i
  proof (cases "i = ga")
    case True
    have v: "e ?sw = Some (denote [n, rows, cols] (in_vals t))" using eval_graph_initializer [OF w run sw(1)] by (simp add: sw(2))
    have "satisfies sem e (?nodes ! ga)" "satisfies sem e (?nodes ! tr)" using old(1) pos(1,2) by simp_all
    note g = head_gather [OF h this v sw(3) idx, of "g_initializer g" given]
    have "satisfies sem ?e (?nodes ! ga)" unfolding s_def by (rule g) (use n in auto)
    moreover have "?f (?nodes ! ga) = ?nodes ! ga" by (rule rewire_unread) (use n t(1) in auto)
    ultimately show ?thesis unfolding True by (simp only:)
  next
    case False
    have free: "?sw \<notin> set (nd_input (?nodes ! i))" "gout \<notin> set (nd_input (?nodes ! i))"
      using read_once [OF t(4) i(1) pos(1)] read_once [OF t(5) i(1) pos(2)] False i(2) t(1) h(3) by auto
    have "gout \<notin> set (nd_output (?nodes ! i))" "tout \<notin> set (nd_output (?nodes ! i))"
      using written_at [OF w(2) i(1) pos(1) False] written_at [OF w(2) i(1) pos(2) i(2)] t(2,3) by auto
    moreover have "?sw \<notin> set (nd_output (?nodes ! i))"
      using known \<open>?sw \<in> known\<close> nth_mem [OF i(1)] by blast
    ultimately have out: "{?sw, gout, tout} \<inter> set (nd_output (?nodes ! i)) = {}" by (simp only: Int_insert_left if_False Int_empty_left)
    show ?thesis
    proof (rule rewire_satisfies)
      show "satisfies sem e (?nodes ! i)" using old(1) i(1) by simp
      show "?e gout = e tout" unfolding head_env_def using n by (simp only: distinct.simps list.set insert_iff empty_iff if_False if_True refl) auto
      show "tout \<notin> set (nd_output (?nodes ! i))" using out by blast
      show "?e z = e z" if "z \<in> set (nd_input (?nodes ! i)) \<union> set (nd_output (?nodes ! i))" "z \<noteq> tout" for z
      proof (rule keep)
        show "z \<noteq> ?sw" using that(1) free(1) out by blast
        show "z \<noteq> gout" using that(1) free(2) out by blast
        show "z \<noteq> tout" by (rule that(2))
      qed
    qed
  qed
  have g: "g_node ?g = take tr ?nodes @ map ?f (drop (Suc tr) ?nodes)"
    "g_initializer ?g = replace_last (t\<lparr>in_dims := [n, cols, rows], in_vals := s\<rparr>) (g_initializer g)" by simp_all
  show ?thesis
  proof (rule edit_evaluates)
    show "readable known (g_node ?g)" unfolding g(1) by (rule head_readable [OF w(1,2) pos(2) h(3) t(3)]) (use n in simp)
    have "map ?f (take tr ?nodes) = take tr ?nodes"
      by (rule rewire_unread_list) (rule unread_before [OF w(1,2) pos(2)], simp add: t(3))
    then have nodes: "g_node ?g = map ?f (take tr ?nodes @ drop (Suc tr) ?nodes)" by (simp add: g(1))
    have at: "\<exists>i<length ?nodes. i \<noteq> tr \<and> ?nodes ! i = nd" if nd: "nd \<in> set (take tr ?nodes @ drop (Suc tr) ?nodes)" for nd
    proof -
      consider j where "j < tr" "j < length ?nodes" "?nodes ! j = nd" | j where "j < length ?nodes - Suc tr" "?nodes ! (Suc tr + j) = nd"
        using nd by (auto simp: in_set_conv_nth [of nd])
      then show ?thesis
      proof cases
        case (2 j)
        then have "Suc tr + j < length ?nodes" by linarith
        then show ?thesis using 2(2) by (intro exI [of _ "Suc tr + j"]) simp
      qed blast
    qed
    then show "solves sem ?e (g_node ?g)" using new unfolding nodes by auto
    have "set (take tr ?nodes @ drop (Suc tr) ?nodes) \<subseteq> set ?nodes" by (auto dest: in_set_takeD in_set_dropD)
    then have "outputs_of (g_node ?g) \<subseteq> outputs_of ?nodes" unfolding nodes by fastforce
    then show "outputs_of (g_node ?g) \<inter> insert [] known = {}" using known by blast
    fix x
    assume x: "x \<notin> outputs_of (g_node ?g)"
    have init: "initializer_map (g_initializer ?g) x =
        (if x = ?sw then Some (t\<lparr>in_dims := [n, cols, rows], in_vals := s\<rparr>) else initializer_map (g_initializer g) x)"
      using it \<open>?sw \<in> in_name ` set (g_initializer g)\<close> unfolding g(2) map_replace_last by simp
    show "init_env denote (g_initializer ?g) given x = ?e x"
    proof (cases "x = ?sw")
      case True
      then show ?thesis using init by (simp add: init_env_lookup head_env_def del: onnx_graph.select_convs)
    next
      case False
      then have same: "init_env denote (g_initializer ?g) given x = init_env denote (g_initializer g) given x"
        using init by (simp add: init_env_lookup del: onnx_graph.select_convs)
      have "?nodes ! ga \<in> set (take tr ?nodes @ drop (Suc tr) ?nodes)" using nth_mem [OF pos(1)] pos(3) split
        by (metis Un_iff set_ConsD set_append)
      then have "gout \<in> outputs_of (g_node ?g)" unfolding nodes using t(2) by force
      then have "x \<noteq> gout" using x by metis
      show ?thesis
      proof (cases "x = tout")
        case True
        then show ?thesis using same False \<open>x \<noteq> gout\<close> by (simp add: head_env_def)
      next
        case tout: False
        have "x \<notin> outputs_of (take tr ?nodes @ ?nodes ! tr # drop (Suc tr) ?nodes)" using x tout t(3) unfolding nodes by auto
        then have "x \<notin> outputs_of ?nodes" using split by metis
        then show ?thesis using old(2) same keep [OF False \<open>x \<noteq> gout\<close> tout] by simp
      qed
    qed
  qed
qed

text \<open>
  C40: the transposed heads refine.  Let every tensor be written once and read afterwards, and let the
  tail be a gather along the first axis from the stacked heads, a plain transposition of its result
  and a reader of that, each of the three names read once.  If the original graph evaluates with a
  step index below 15, then so does the edited graph: the gather now gives the transposed head, every
  other tensor keeps its value, and no node named \<^verbatim>\<open>/Transpose\<close> is left.
\<close>

theorem head_refines:
  assumes "head_main g = Inr g'" and "find_tail (g_node g) = \<lparr>gather = Some ga, transposer = Some tr, matmul = Some ma\<rparr>"
    and "initializer_map (g_initializer g) ''stacked_weights'' = Some t" and "length (in_vals t) = 15 * (2048 * 1024)"
    and "well_ordered known g" and "head_tail (g_node g) ga tr idx gout tout" and "head_sem sem denote"
    and "eval_graph sem denote g given = Some e" and "e idx = Some (denote [] [of_nat k])" and "k < 15"
  shows "(\<exists>e'. eval_graph sem denote g' given = Some e' \<and> e' gout = e tout
      \<and> (\<forall>x. x \<notin> {''stacked_weights'', gout, tout} \<longrightarrow> e' x = e x))
    \<and> ''/Transpose'' \<notin> nd_name ` set (g_node g')"
proof -
  let ?nodes = "g_node g"
  have w: "readable known ?nodes" "written_once known ?nodes" "in_name ` set (g_initializer g) \<subseteq> known"
    using assms(5) by (simp_all add: well_ordered_def)
  have f: "ga < length ?nodes" "nd_name (?nodes ! ga) = ''/Gather''" "tr < length ?nodes" "nd_name (?nodes ! tr) = ''/Transpose''"
    "ma < length ?nodes"
    using find_tail_Some [of ?nodes] by (simp_all add: assms(2))
  have d: "in_dims t = [15, 2048, 1024]" using assms(1,3) by (simp add: head_main_def split: if_splits)
  obtain nodes' where r: "rewire_tail ?nodes ga tr ma = Inr nodes'"
    and g': "g' = \<lparr>g_node = nodes', g_initializer = replace_last
      (t\<lparr>in_dims := [15, 1024, 2048], in_vals := swap_last 15 2048 1024 (in_vals t)\<rparr>) (g_initializer g)\<rparr>"
    using assms(1) by (auto simp: head_main_def assms(2,3) d Let_def)
  note n = head_nodes [OF r assms(6) w(1,2) f(3,5,4)]
  have "nd_name (?nodes ! ga) \<noteq> nd_name (?nodes ! tr)" unfolding f(2,4) by simp
  then have ne: "?nodes ! ga \<noteq> ?nodes ! tr" by (rule contrapos_nn) simp
  note run = head_evaluates [OF w assms(8,7,6) conjunct2 [OF n] f(1,3) ne assms(3) d assms(4,9,10)]
  have io: "nd_input (?nodes ! ga) = [''stacked_weights'', idx]" "nd_output (?nodes ! ga) = [gout]" "nd_output (?nodes ! tr) = [tout]"
    "use_count ?nodes ''stacked_weights'' = 1"
    using assms(6) by (simp_all add: head_tail_def)
  have "''stacked_weights'' \<in> in_name ` set (g_initializer g)"
    using initializer_map_None [of "g_initializer g" "''stacked_weights''"] unfolding assms(3) by blast
  then have "''stacked_weights'' \<in> known" by (rule subsetD [OF w(3)])
  note names = head_names [OF w(1,2) this f(1,3) ne io(4,1,2) conjunct2 [OF n] io(3)]
  have "''/Transpose'' \<notin> nd_name ` set (g_node g')" using rewire_tail_Inr [OF r assms(6)] by (auto simp: g')
  moreover have "head_env denote (g_initializer g) given s gout tout e gout = e tout" for s
    using names by (auto simp: head_env_def)
  moreover have "head_env denote (g_initializer g) given s gout tout e x = e x" if "x \<notin> {''stacked_weights'', gout, tout}" for s x
    using that by (simp add: head_env_def)
  ultimately show ?thesis using run unfolding g' conjunct1 [OF n] by blast
qed

section \<open>Example\<close>

definition eg_head_sem :: "(nat list \<times> rat list) onnx_sem" where
  "eg_head_sem ty domain attrs xs =
     (if ty = ''Gather'' then (case xs of
          [Some (n # ds, vals), Some ([], [k])] \<Rightarrow> Some [(ds, slice (prod_list ds) (nat \<lfloor>k\<rfloor>) vals)] | _ \<Rightarrow> None)
      else if ty = ''Transpose'' then (case xs of
          [Some ([rows, cols], vals)] \<Rightarrow> Some [([cols, rows], swapped rows cols vals)] | _ \<Rightarrow> None)
      else if ty = ''MatMul'' then (case xs of
          [Some ([one, r], a), Some ([r', c], b)] \<Rightarrow>
            Some [([one, c], map (\<lambda>j. \<Sum>i\<leftarrow>[0..<r]. a ! i * b ! (i * c + j)) [0..<c])]
        | _ \<Rightarrow> None)
      else None)"

lemma eg_head_sem_ok: "head_sem eg_head_sem Pair"
  by (simp add: head_sem_def eg_head_sem_def)

definition eg_heads :: onnx_init where
  "eg_heads = \<lparr>in_name = ''stacked_weights'', in_dims = [15, 2048, 1024], in_vals = replicate (15 * (2048 * 1024)) (1 / 2), in_itemsize = 4\<rparr>"

definition eg_head_nodes :: "onnx_node list" where
  "eg_head_nodes =
     [make_node ''Gather'' [''stacked_weights'', ''gen_step''] [''head''] ''/Gather'' [(''axis'', JInt 0)],
      make_node ''Transpose'' [''head''] [''head_t''] ''/Transpose'' [(''perm'', JList [JInt 1, JInt 0])],
      make_node ''MatMul'' [''hidden'', ''head_t''] [''logits''] ''/MatMul'' []]"

definition eg_head_graph :: onnx_graph where
  "eg_head_graph = \<lparr>g_node = eg_head_nodes, g_initializer = [eg_heads]\<rparr>"

definition eg_head_given :: "(nat list \<times> rat list) env" where
  "eg_head_given = [''gen_step'' \<mapsto> ([], [3]), ''hidden'' \<mapsto> ([1, 1024], replicate 1024 1)]"

lemma eg_heads_simps: "in_name eg_heads = ''stacked_weights''" "in_dims eg_heads = [15, 2048, 1024]"
    "length (in_vals eg_heads) = 15 * (2048 * 1024)"
  by (simp_all add: eg_heads_def)

lemma eg_head_tail: "find_tail eg_head_nodes = \<lparr>gather = Some 0, transposer = Some 1, matmul = Some 2\<rparr>"
    "head_tail eg_head_nodes 0 1 ''gen_step'' ''head'' ''head_t''"
proof -
  show "find_tail eg_head_nodes = \<lparr>gather = Some 0, transposer = Some 1, matmul = Some 2\<rparr>" by code_simp
  have "\<forall>i<length eg_head_nodes. nd_name (eg_head_nodes ! i) = ''/Transpose'' \<longrightarrow> i = 1"
    by (auto simp: eg_head_nodes_def make_node_def less_Suc_eq numeral_3_eq_3)
  then show "head_tail eg_head_nodes 0 1 ''gen_step'' ''head'' ''head_t''"
    by (simp add: head_tail_def) (simp add: eg_head_nodes_def make_node_def axis_first_def perm_swap_def use_count_def)
qed

lemma eg_head_run:
  assumes "e0 ''stacked_weights'' = Some ([15, 2048, 1024], vals)" and "e0 ''gen_step'' = Some ([], [3])"
    and "e0 ''hidden'' = Some ([1, 1024], h)"
  shows "\<exists>e. eval_nodes eg_head_sem eg_head_nodes e0 = Some e \<and> e ''gen_step'' = Some ([], [3]) \<and> e ''logits'' \<noteq> None"
  using assms by (simp add: eg_head_nodes_def make_node_def eval_node_def eg_head_sem_def bind_outputs_def del: upt_Suc)

theorem head_refines_witness:
  "\<exists>g' e e'. head_main eg_head_graph = Inr g' \<and> eval_graph eg_head_sem Pair eg_head_graph eg_head_given = Some e
     \<and> eval_graph eg_head_sem Pair g' eg_head_given = Some e' \<and> e' ''logits'' = e ''logits'' \<and> e' ''logits'' \<noteq> None"
proof -
  have i: "initializer_map (g_initializer eg_head_graph) ''stacked_weights'' = Some eg_heads"
    by (simp add: eg_head_graph_def initializer_map_def eg_heads_simps)
  have f: "find_tail (g_node eg_head_graph) = \<lparr>gather = Some 0, transposer = Some 1, matmul = Some 2\<rparr>"
    "head_tail (g_node eg_head_graph) 0 1 ''gen_step'' ''head'' ''head_t''"
    using eg_head_tail by (simp_all add: eg_head_graph_def)
  have "\<exists>g'. head_main eg_head_graph = Inr g'"
    by (simp add: head_main_def i f(1) eg_heads_simps Let_def rewire_tail_def)
      (simp add: eg_head_graph_def eg_head_nodes_def make_node_def)
  then obtain g' where g': "head_main eg_head_graph = Inr g'" by blast
  have w: "well_ordered {''stacked_weights'', ''gen_step'', ''hidden''} eg_head_graph"
    by (simp add: well_ordered_def eg_head_graph_def eg_head_nodes_def make_node_def written_once_def eg_heads_simps)
  have e0: "init_env Pair (g_initializer eg_head_graph) eg_head_given x
      = (if x = ''stacked_weights'' then Some ([15, 2048, 1024], in_vals eg_heads) else eg_head_given x)" for x
    by (auto simp: init_env_lookup eg_head_graph_def initializer_map_def eg_heads_simps)
  have "\<exists>e. eval_graph eg_head_sem Pair eg_head_graph eg_head_given = Some e \<and> e ''gen_step'' = Some ([], [3]) \<and> e ''logits'' \<noteq> None"
    unfolding eval_graph_def
    using eg_head_run [of "init_env Pair (g_initializer eg_head_graph) eg_head_given" "in_vals eg_heads" "replicate 1024 1"]
    unfolding e0 by (simp add: eg_head_graph_def eg_head_given_def)
  then obtain e where e: "eval_graph eg_head_sem Pair eg_head_graph eg_head_given = Some e" "e ''gen_step'' = Some ([], [3])"
    "e ''logits'' \<noteq> None" by blast
  have k: "e ''gen_step'' = Some ([], [of_nat 3])" using e(2) by simp
  from head_refines [OF g' f(1) i eg_heads_simps(3) w f(2) eg_head_sem_ok e(1) k] obtain e' where
    "eval_graph eg_head_sem Pair g' eg_head_given = Some e'" "\<forall>x. x \<notin> {''stacked_weights'', ''head'', ''head_t''} \<longrightarrow> e' x = e x"
    by auto
  moreover have "''logits'' \<notin> {''stacked_weights'', ''head'', ''head_t''}" by simp
  ultimately show ?thesis using g' e(1,3) by metis
qed

end
