(* ===== verification/Worker_Accept.thy ===== *)
theory Worker_Accept
  imports Streaming_Gate
begin

text \<open>
  The acceptance test of the streaming worker, \<^verbatim>\<open>scripts/test_streaming_worker.py\<close>: the scenarios
  that \<open>Streaming_Gate\<close> does not use (long audio in rotating segments, error paths) and the
  main program with its gates.  A worker is a function from what it has been sent to its next answer
  and the milliseconds it takes; \<open>pool\<close> gives the worker that is started first, second and so on.
\<close>

section \<open>Workers\<close>

record wide_answer = answer +
  an_error :: string
  an_carryover :: "rat option"
  an_segments :: int

text \<open>
  A chunk says how many seconds it holds; \<open>Sized\<close> is one that says something else.  A missing
  \<^verbatim>\<open>segment_count\<close> or \<^verbatim>\<open>error\<close> counts as 0 and as the empty string.
\<close>

datatype 's probe = Session "'s message" | Malformed | UnknownEvent | Sized "'s list" rat bool

type_synonym 's probe_worker = "'s probe list \<Rightarrow> (wide_answer \<times> rat) option"

datatype accept_error = Stream stream_error | UnexpectedEvent | NoLatencies

definition of_stream :: "stream_error + 'a \<Rightarrow> accept_error + 'a" where
  "of_stream r = (case r of Inl e \<Rightarrow> Inl (Stream e) | Inr x \<Rightarrow> Inr x)"

definition session_worker :: "'s probe_worker \<Rightarrow> 's worker" where
  "session_worker w msgs = map_option (\<lambda>(an, ms). (answer.truncate an, ms)) (w (map Session msgs))"

definition ask :: "'s probe_worker \<Rightarrow> 's probe list \<Rightarrow> accept_error + wide_answer" where
  "ask w sent = (case w sent of None \<Rightarrow> Inl (Stream WorkerDied) | Some (an, ms) \<Rightarrow> Inr an)"

definition start_probe :: "'s probe_worker \<Rightarrow> accept_error + unit" where
  "start_probe w = of_stream (start_worker (session_worker w))"

section \<open>Rotation\<close>

text \<open>\<^verbatim>\<open>int()\<close> of a float.\<close>

definition py_trunc :: "rat \<Rightarrow> int" where
  "py_trunc x = (if x < 0 then \<lceil>x\<rceil> else \<lfloor>x\<rfloor>)"

definition carry_samples :: "wide_answer \<Rightarrow> int" where
  "carry_samples an = py_trunc ((case an_carryover an of None \<Rightarrow> 1 | Some c \<Rightarrow> c) * of_nat SAMPLE_RATE)"

record 's rotation_state =
  ro_sent :: "'s probe list"
  ro_start :: nat
  ro_consumed :: nat
  ro_rotations :: nat
  ro_final :: "wide_answer option"

definition rotate_hop :: "'s probe_worker \<Rightarrow> 's list \<Rightarrow> 's rotation_state \<Rightarrow> accept_error + 's rotation_state" where
  "rotate_hop w audio st =
     (let new_end = min (ro_consumed st + hop_samples) (length audio);
          sent = ro_sent st @ [Session (Chunk (drop (ro_start st) (take new_end audio)) (length audio \<le> new_end))];
          st' = st\<lparr>ro_sent := sent, ro_consumed := new_end\<rparr>
      in res_bind (ask w sent) (\<lambda>an.
        if an_event an = Some ''segment_rotation''
        then Inr (st'\<lparr>ro_rotations := ro_rotations st + 1, ro_start := nat (max 0 (int new_end - carry_samples an))\<rparr>)
        else if an_event an = Some ''final'' then Inr (st'\<lparr>ro_final := Some an\<rparr>)
        else if an_event an = Some ''partial'' then Inr st'
        else Inl UnexpectedEvent))"

lemma rotate_hop_consumed:
  "rotate_hop w audio st = Inr st' \<Longrightarrow> ro_consumed st' = min (ro_consumed st + hop_samples) (length audio)"
  by (auto simp: rotate_hop_def Let_def split: if_splits)

text \<open>The loop until all of the audio has been sent.\<close>

function rotate_loop :: "'s probe_worker \<Rightarrow> 's list \<Rightarrow> 's rotation_state \<Rightarrow> accept_error + 's rotation_state" where
  "rotate_loop w audio st =
     (if length audio \<le> ro_consumed st then Inr st
      else case rotate_hop w audio st of Inl e \<Rightarrow> Inl e | Inr st' \<Rightarrow> rotate_loop w audio st')"
  by pat_completeness auto

termination
  by (relation "measure (\<lambda>(w, audio, st). length audio - ro_consumed st)")
    (auto dest!: rotate_hop_consumed simp: hop_samples_def)

declare rotate_loop.simps [simp del]

record rotation_result =
  rr_rotations :: nat
  rr_final :: "wide_answer option"
  rr_text :: utext
  rr_segments :: int

text \<open>Scenarios D and G; the latter sends samples instead of features.\<close>

definition scenario_rotating :: "'s probe_worker \<Rightarrow> bool \<Rightarrow> 's list \<Rightarrow> accept_error + rotation_result" where
  "scenario_rotating w pcm audio =
     res_bind (start_probe w) (\<lambda>_.
     res_bind (ask w [Session (Begin pcm)]) (\<lambda>ack.
       if an_event ack \<noteq> Some ''begin_ack'' then Inl (Stream NoAck)
       else res_bind (rotate_loop w audio
           \<lparr>ro_sent = [Session (Begin pcm)], ro_start = 0, ro_consumed = 0, ro_rotations = 0, ro_final = None\<rparr>) (\<lambda>st.
         Inr \<lparr>rr_rotations = ro_rotations st, rr_final = ro_final st,
              rr_text = (case ro_final st of None \<Rightarrow> [] | Some an \<Rightarrow> strip_language_prefix (an_text an)),
              rr_segments = (case ro_final st of None \<Rightarrow> 0 | Some an \<Rightarrow> an_segments an)\<rparr>)))"

section \<open>Error paths\<close>

record error_results =
  malformed_json :: bool
  unknown_event :: bool
  chunk_too_long :: bool
  session_cleared :: bool

text \<open>\<open>dummy\<close> is a tenth of a second of silence; the chunk claims to hold 16 seconds.\<close>

definition scenario_e_errors :: "(nat \<Rightarrow> 's probe_worker) \<Rightarrow> 's list \<Rightarrow> accept_error + error_results" where
  "scenario_e_errors pool dummy =
     res_bind (start_probe (pool 0)) (\<lambda>_.
     res_bind (ask (pool 0) [Malformed]) (\<lambda>r1.
     res_bind (start_probe (pool 1)) (\<lambda>_.
     res_bind (ask (pool 1) [UnknownEvent]) (\<lambda>r2.
     res_bind (start_probe (pool 2)) (\<lambda>_.
     res_bind (ask (pool 2) [Session (Begin False)]) (\<lambda>ack.
       if an_event ack \<noteq> Some ''begin_ack'' then Inl (Stream NoAck)
       else
         let sent = [Session (Begin False), Sized dummy 16 False] in
         res_bind (ask (pool 2) sent) (\<lambda>r3.
         res_bind (ask (pool 2) (sent @ [Session (Chunk dummy False)])) (\<lambda>r4.
           Inr \<lparr>malformed_json = (an_event r1 = Some ''error'' \<and> contains ''json_parse_failed'' (an_error r1)),
                unknown_event = (an_event r2 = Some ''error'' \<and> an_error r2 = ''unknown_event''),
                chunk_too_long = (an_event r3 = Some ''error'' \<and> an_error r3 = ''chunk_too_long''),
                session_cleared = (an_error r4 = ''no_active_session'')\<rparr>))))))))"

section \<open>Main\<close>

record accept_args =
  short_wav :: string
  long_wav :: string
  long_baseline :: utext
  d_lcs_hard_gate :: "rat option"
  rotation_wav :: string
  rotation_baseline :: utext
  g_lcs_hard_gate :: rat
  pcm_mode :: bool
  aa_max_gen :: nat
  aa_latency_runs :: int

definition ZH_LONG_04_GT :: utext where
  "ZH_LONG_04_GT =
     [31185, 23398, 23478, 20204, 21487, 20197, 24471, 20986, 32467, 35770, 65306, 26263, 29289, 36136, 23545, 20854,
      20182, 26263, 29289, 36136, 30340, 24433, 21709, 26041, 24335, 19982, 26222, 36890, 29289, 36136, 30456, 21516,
      12290]"

definition ZH_LONG_ROTATION_GT :: utext where
  "ZH_LONG_ROTATION_GT = ZH_LONG_04_GT @
     [19968, 20108, 19977, 22235, 20116, 20845, 19971, 20843, 20061, 21313, 12290]"

text \<open>The texts the long recordings are compared with; the empty text is none.\<close>

definition curated_text :: "accept_args \<Rightarrow> utext" where
  "curated_text args =
     (if long_wav args \<noteq> [] \<and> long_baseline args = [] \<and> contains ''zh-long-04'' (path_name (long_wav args)) then ZH_LONG_04_GT
      else long_baseline args)"

text \<open>\<open>present\<close> is the recording of the repository, when it is there.\<close>

definition rotation_path :: "accept_args \<Rightarrow> string option \<Rightarrow> string option" where
  "rotation_path args present =
     (if rotation_wav args \<noteq> [] then Some (rotation_wav args) else if pcm_mode args then present else None)"

definition rotation_text :: "accept_args \<Rightarrow> string option \<Rightarrow> utext" where
  "rotation_text args path =
     (case path of
        Some p \<Rightarrow> if rotation_baseline args = [] \<and> contains ''zh-long-rotation'' (path_name p) then ZH_LONG_ROTATION_GT
                  else rotation_baseline args
      | None \<Rightarrow> rotation_baseline args)"

datatype accept_gate =
    GA_ok | GB_lcs | GC_median | GC_p95 | GD_final | GD_rotation | GD_lcs | GD_lcs_soft
  | GE_json | GE_unknown | GE_long | GE_cleared | GF_lcs | GG_rotations | GG_segments | GG_lcs

definition is_soft :: "accept_gate \<Rightarrow> bool" where
  "is_soft g \<longleftrightarrow> g = GD_lcs_soft"

record accept_results =
  ac_a :: "bool \<times> utext"
  ac_b :: stream_result
  ac_latencies :: "rat list"
  ac_long_baseline :: "utext option"
  ac_d :: rotation_result
  ac_errors :: error_results
  ac_f :: "stream_result option"
  ac_g :: "rotation_result option"

text \<open>\<^verbatim>\<open>max\<close> of the similarities that there are; an empty text is no baseline.\<close>

definition best_lcs :: "utext \<Rightarrow> accept_results \<Rightarrow> rat" where
  "best_lcs curated res =
     (let d = rr_text (ac_d res); base = snd (ac_a res);
          opt = (\<lambda>t. case t of None \<Rightarrow> [] | Some u \<Rightarrow> if u = [] then [] else [text_similarity d u]) in
      foldr max (opt (Some curated) @ opt (ac_long_baseline res) @ [text_similarity d (base @ base)])
        (text_similarity d base))"

definition accept_gates :: "accept_args \<Rightarrow> utext \<Rightarrow> accept_results \<Rightarrow> (accept_gate \<times> bool) list" where
  "accept_gates args rotation_gt res =
     (let d = ac_d res; e = ac_errors res; curated = curated_text args in
      [(GA_ok, fst (ac_a res)), (GB_lcs, 95 / 100 \<le> text_similarity (sr_text (ac_b res)) (snd (ac_a res))),
       (GC_median, percentile (ac_latencies res) 50 \<le> 500), (GC_p95, percentile (ac_latencies res) 95 \<le> 1000),
       (GD_final, case rr_final d of None \<Rightarrow> False | Some an \<Rightarrow> an_event an = Some ''final''),
       (GD_rotation, 1 \<le> rr_segments d \<or> 1 \<le> rr_rotations d)]
      @ (case d_lcs_hard_gate args of
           Some g \<Rightarrow> if curated \<noteq> [] then [(GD_lcs, g \<le> text_similarity (rr_text d) curated)]
                     else [(GD_lcs_soft, 90 / 100 \<le> best_lcs curated res)]
         | None \<Rightarrow> [(GD_lcs_soft, 90 / 100 \<le> best_lcs curated res)])
      @ [(GE_json, malformed_json e), (GE_unknown, unknown_event e), (GE_long, chunk_too_long e), (GE_cleared, session_cleared e)]
      @ (case ac_f res of None \<Rightarrow> [] | Some f \<Rightarrow> [(GF_lcs, 95 / 100 \<le> text_similarity (sr_text f) (sr_text (ac_b res)))])
      @ (case ac_g res of None \<Rightarrow> []
         | Some g \<Rightarrow> [(GG_rotations, 1 \<le> rr_rotations g), (GG_segments, 2 \<le> rr_segments g)]
             @ (if rotation_gt = [] then [] else [(GG_lcs, g_lcs_hard_gate args \<le> text_similarity (rr_text g) rotation_gt)])))"

definition read_wav :: "(string \<Rightarrow> 's list option) \<Rightarrow> string \<Rightarrow> accept_error + 's list" where
  "read_wav read_audio path = (case read_audio path of None \<Rightarrow> Inl (Stream AudioFailed) | Some samples \<Rightarrow> Inr samples)"

text \<open>Workers 0 and 1 serve A and B, then come the latency runs, and the rest one after the other.\<close>

definition accept_main ::
  "accept_args \<Rightarrow> (string \<Rightarrow> 's list option) \<Rightarrow> 's list \<Rightarrow> string option \<Rightarrow> (nat \<Rightarrow> 's probe_worker)
     \<Rightarrow> accept_error + nat \<times> accept_results" where
  "accept_main args read_audio dummy present pool =
     res_bind (read_wav read_audio (short_wav args)) (\<lambda>samples.
     let short = take (SAMPLE_RATE * 5) samples; n = nat (aa_latency_runs args); sessions = session_worker \<circ> pool in
     res_bind (if long_wav args \<noteq> [] then read_wav read_audio (long_wav args) else Inr (short @ short)) (\<lambda>long.
     res_bind (of_stream (scenario_a_oneshot (sessions 0) short (aa_max_gen args))) (\<lambda>a.
     res_bind (of_stream (scenario_stream (sessions 1) False short)) (\<lambda>b.
     res_bind (of_stream (latency_loop sessions short 2 n)) (\<lambda>lats.
     if lats = [] then Inl NoLatencies else
     let brief = 10 * length long \<le> 65 * SAMPLE_RATE; next = 2 + n + (if brief then 1 else 0) in
     res_bind (if brief then res_bind (of_stream (scenario_a_oneshot (sessions (2 + n)) long (aa_max_gen args))) (\<lambda>(ok, t). Inr (Some t))
               else Inr None) (\<lambda>long_base.
     res_bind (scenario_rotating (pool next) False long) (\<lambda>d.
     res_bind (scenario_e_errors (\<lambda>i. pool (next + 1 + i)) dummy) (\<lambda>e.
     res_bind (if pcm_mode args then res_bind (of_stream (scenario_stream (sessions (next + 4)) True short)) (\<lambda>f. Inr (Some f))
               else Inr None) (\<lambda>f.
     let path = rotation_path args present in
     res_bind (case path of
         Some p \<Rightarrow>
           if pcm_mode args
           then res_bind (read_wav read_audio p) (\<lambda>rot.
             res_bind (scenario_rotating (pool (next + 5)) True rot) (\<lambda>g. Inr (Some g)))
           else Inr None
       | None \<Rightarrow> Inr None) (\<lambda>g.
       let res = \<lparr>ac_a = a, ac_b = b, ac_latencies = lats, ac_long_baseline = long_base, ac_d = d, ac_errors = e,
                  ac_f = f, ac_g = g\<rparr>;
           hard = filter (\<lambda>(k, v). \<not> is_soft k) (accept_gates args (rotation_text args path) res)
       in Inr (if list_all snd hard then 0 else 1, res)))))))))))"

end
