(* ===== verification/Worker_Accept_Props.thy ===== *)
theory Worker_Accept_Props
  imports Worker_Accept Streaming_Gate_Props
begin

text \<open>
  What the rotating driver sends, and what an accepted worker has shown.
\<close>

section \<open>Rotation\<close>

definition hop_end :: "'s list \<Rightarrow> nat \<Rightarrow> nat" where
  "hop_end audio k = min (Suc k * hop_samples) (length audio)"

text \<open>Where the window of a hop begins, after the answers to the hops before it.\<close>

fun window_start :: "'s list \<Rightarrow> wide_answer list \<Rightarrow> nat \<Rightarrow> nat" where
  "window_start audio answers 0 = 0"
| "window_start audio answers (Suc k) =
     (if an_event (answers ! k) = Some ''segment_rotation''
      then nat (max 0 (int (hop_end audio k) - carry_samples (answers ! k)))
      else window_start audio answers k)"

definition window_message :: "'s list \<Rightarrow> wide_answer list \<Rightarrow> nat \<Rightarrow> 's probe" where
  "window_message audio answers k =
     Session (Chunk (drop (window_start audio answers k) (take (hop_end audio k) audio)) (length audio \<le> hop_end audio k))"

definition rotation_messages :: "bool \<Rightarrow> 's list \<Rightarrow> wide_answer list \<Rightarrow> nat \<Rightarrow> 's probe list" where
  "rotation_messages pcm audio answers n = Session (Begin pcm) # map (window_message audio answers) [0..<n]"

definition rotation_events :: "string set" where
  "rotation_events = {''segment_rotation'', ''final'', ''partial''}"

text \<open>A state of the loop is determined by the answers so far.\<close>

definition rotated :: "'s probe_worker \<Rightarrow> bool \<Rightarrow> 's list \<Rightarrow> wide_answer list \<Rightarrow> 's rotation_state \<Rightarrow> bool" where
  "rotated w pcm audio answers st \<longleftrightarrow>
     (let n = length answers in
      ro_sent st = rotation_messages pcm audio answers n \<and> ro_start st = window_start audio answers n
      \<and> ro_consumed st = min (n * hop_samples) (length audio)
      \<and> ro_rotations st = length (filter (\<lambda>an. an_event an = Some ''segment_rotation'') answers)
      \<and> ro_final st = (let fs = filter (\<lambda>an. an_event an = Some ''final'') answers in if fs = [] then None else Some (last fs))
      \<and> (\<forall>k<n. ask w (rotation_messages pcm audio answers (Suc k)) = Inr (answers ! k)
           \<and> the (an_event (answers ! k)) \<in> rotation_events \<and> an_event (answers ! k) \<noteq> None))"

lemma window_start_append:
  "k \<le> length answers \<Longrightarrow> window_start audio (answers @ ans2) k = window_start audio answers k"
  by (induction k) (simp_all add: nth_append)

lemma window_message_append:
  "k \<le> length answers \<Longrightarrow> window_message audio (answers @ ans2) k = window_message audio answers k"
  by (simp add: window_message_def window_start_append)

lemma rotation_messages_append:
  "k \<le> Suc (length answers) \<Longrightarrow> rotation_messages pcm audio (answers @ ans2) k = rotation_messages pcm audio answers k"
  by (auto simp: rotation_messages_def window_message_append)

lemma rotate_hop_rotated:
  assumes "rotated w pcm audio answers st" and "rotate_hop w audio st = Inr st'" and "length answers * hop_samples < length audio"
  shows "\<exists>an. rotated w pcm audio (answers @ [an]) st'"
proof -
  let ?n = "length answers"
  have st: "ro_sent st = rotation_messages pcm audio answers ?n" "ro_start st = window_start audio answers ?n"
    "ro_consumed st = ?n * hop_samples"
    using assms(1,3) by (simp_all add: rotated_def Let_def)
  have e: "min (ro_consumed st + hop_samples) (length audio) = hop_end audio ?n" by (simp add: st(3) hop_end_def add.commute)
  have s: "ro_sent st @ [Session (Chunk (drop (ro_start st) (take (hop_end audio ?n) audio)) (length audio \<le> hop_end audio ?n))]
      = rotation_messages pcm audio answers (Suc ?n)"
    by (simp add: st(1,2) rotation_messages_def window_message_def)
  from assms(2) obtain an where an: "ask w (rotation_messages pcm audio answers (Suc ?n)) = Inr an"
    and st': "st' = (let st1 = st\<lparr>ro_sent := rotation_messages pcm audio answers (Suc ?n), ro_consumed := hop_end audio ?n\<rparr> in
        if an_event an = Some ''segment_rotation''
        then st1\<lparr>ro_rotations := ro_rotations st + 1, ro_start := nat (max 0 (int (hop_end audio ?n) - carry_samples an))\<rparr>
        else if an_event an = Some ''final'' then st1\<lparr>ro_final := Some an\<rparr> else st1)"
      "an_event an \<noteq> None \<and> the (an_event an) \<in> rotation_events"
    unfolding rotate_hop_def Let_def e s by (auto simp: rotation_events_def split: if_splits)
  have app: "rotation_messages pcm audio (answers @ [an]) (Suc k) = rotation_messages pcm audio answers (Suc k)" if "k \<le> ?n" for k
    using that by (simp add: rotation_messages_append)
  have "\<forall>k<Suc ?n. ask w (rotation_messages pcm audio (answers @ [an]) (Suc k)) = Inr ((answers @ [an]) ! k)
      \<and> the (an_event ((answers @ [an]) ! k)) \<in> rotation_events \<and> an_event ((answers @ [an]) ! k) \<noteq> None"
  proof (intro allI impI)
    fix k
    assume "k < Suc ?n"
    then consider "k = ?n" | "k < ?n" by linarith
    then show "ask w (rotation_messages pcm audio (answers @ [an]) (Suc k)) = Inr ((answers @ [an]) ! k)
        \<and> the (an_event ((answers @ [an]) ! k)) \<in> rotation_events \<and> an_event ((answers @ [an]) ! k) \<noteq> None"
    proof cases
      case 1
      then show ?thesis using an st'(2) app [of k] by simp
    next
      case 2
      then show ?thesis using assms(1) app [of k] by (simp add: rotated_def Let_def nth_append)
    qed
  qed
  moreover have "ro_sent st' = rotation_messages pcm audio (answers @ [an]) (Suc ?n)"
    unfolding app [OF order_refl] by (simp add: st'(1) Let_def)
  moreover have "ro_start st' = window_start audio (answers @ [an]) (Suc ?n)"
    using st(2) by (simp add: st'(1) Let_def window_start_append)
  moreover have "ro_consumed st' = min (Suc ?n * hop_samples) (length audio)" by (simp add: st'(1) Let_def hop_end_def)
  moreover have "''final'' \<noteq> ''segment_rotation''" by simp
  ultimately have "rotated w pcm audio (answers @ [an]) st'"
    using assms(1) unfolding rotated_def Let_def by (auto simp: st'(1) Let_def)
  then show ?thesis ..
qed

lemma rotate_loop_rotated:
  assumes "rotated w pcm audio answers st" and "rotate_loop w audio st = Inr st'" and "length answers \<le> n_hops audio"
  shows "\<exists>answers'. rotated w pcm audio answers' st' \<and> length answers' = n_hops audio"
  using assms
proof (induction w audio st arbitrary: answers rule: rotate_loop.induct)
  case (1 w audio st)
  have c: "ro_consumed st = min (length answers * hop_samples) (length audio)" using "1.prems"(1) by (simp add: rotated_def Let_def)
  show ?case
  proof (cases "length audio \<le> ro_consumed st")
    case True
    then have "st' = st" using "1.prems"(2) by (simp add: rotate_loop.simps)
    moreover have "n_hops audio \<le> length answers"
    proof -
      have "length audio \<le> length answers * hop_samples" using True c by simp
      then have "length audio + hop_samples - 1 < Suc (length answers) * hop_samples" by (simp add: hop_samples_def)
      then have "n_hops audio < Suc (length answers)" unfolding n_hops_def by (rule less_mult_imp_div_less)
      then show ?thesis by simp
    qed
    ultimately show ?thesis using "1.prems"(1,3) by (intro exI [of _ answers]) simp
  next
    case False
    then obtain st1 where h: "rotate_hop w audio st = Inr st1" "rotate_loop w audio st1 = Inr st'"
      using "1.prems"(2) by (subst (asm) rotate_loop.simps) (auto split: sum.splits)
    have l: "length answers * hop_samples < length audio" using False c by simp
    from rotate_hop_rotated [OF "1.prems"(1) h(1) l] obtain an where "rotated w pcm audio (answers @ [an]) st1" by blast
    moreover have "length (answers @ [an]) \<le> n_hops audio"
    proof -
      have "Suc (length answers) * hop_samples \<le> length audio + hop_samples - 1" using l by (simp add: hop_samples_def)
      then have "Suc (length answers) \<le> n_hops audio"
        unfolding n_hops_def by (simp add: less_eq_div_iff_mult_less_eq hop_samples_def)
      then show ?thesis by simp
    qed
    ultimately show ?thesis using "1.IH" [OF False h(1)] h(2) by blast
  qed
qed

text \<open>With no negative carry every sample is in a window.\<close>

lemma window_start_le:
  assumes "\<forall>an\<in>set answers. 0 \<le> carry_samples an" and "k \<le> length answers"
  shows "window_start audio answers k \<le> k * hop_samples"
  using assms(2)
proof (induction k)
  case (Suc k)
  have "0 \<le> carry_samples (answers ! k)" using assms(1) Suc.prems by simp
  then have "nat (max 0 (int (hop_end audio k) - carry_samples (answers ! k))) \<le> hop_end audio k" by simp
  also have "\<dots> \<le> Suc k * hop_samples" by (simp add: hop_end_def)
  finally have "nat (max 0 (int (hop_end audio k) - carry_samples (answers ! k))) \<le> Suc k * hop_samples" .
  then show ?case using Suc by simp
qed simp

text \<open>
  C23: the rotating driver loses nothing.  A scenario that returns has sent one chunk per hop, each
  ending where the hop ends and beginning where the answers so far have moved the window; exactly the
  last one is marked; every answer was a rotation, a partial or a final result, the rotations are
  counted and the last final result is reported.  As long as no answer asks for a negative carry,
  every sample of the audio was in a chunk.
\<close>

theorem rotation_exact:
  assumes "scenario_rotating w pcm audio = Inr r"
  shows "\<exists>answers. length answers = n_hops audio
    \<and> (\<forall>k<n_hops audio. ask w (rotation_messages pcm audio answers (Suc k)) = Inr (answers ! k)
        \<and> an_event (answers ! k) \<in> Some ` rotation_events \<and> (length audio \<le> hop_end audio k \<longleftrightarrow> k = n_hops audio - 1))
    \<and> rr_rotations r = length (filter (\<lambda>an. an_event an = Some ''segment_rotation'') answers)
    \<and> rr_final r = (let fs = filter (\<lambda>an. an_event an = Some ''final'') answers in if fs = [] then None else Some (last fs))
    \<and> ((\<forall>an\<in>set answers. 0 \<le> carry_samples an)
        \<longrightarrow> (\<forall>i<length audio. \<exists>k<n_hops audio. window_start audio answers k \<le> i \<and> i < hop_end audio k))"
proof -
  let ?s0 = "\<lparr>ro_sent = [Session (Begin pcm)], ro_start = 0, ro_consumed = 0, ro_rotations = 0, ro_final = None\<rparr>"
  from assms obtain st where st: "rotate_loop w audio ?s0 = Inr st" "rr_rotations r = ro_rotations st" "rr_final r = ro_final st"
    by (auto simp: scenario_rotating_def split: if_splits)
  have "rotated w pcm audio [] ?s0" by (simp add: rotated_def rotation_messages_def)
  from rotate_loop_rotated [OF this st(1)] obtain answers where
    r: "rotated w pcm audio answers st" "length answers = n_hops audio" by auto
  have e: "an_event (answers ! k) \<in> Some ` rotation_events" "ask w (rotation_messages pcm audio answers (Suc k)) = Inr (answers ! k)"
    if "k < n_hops audio" for k
    using r that unfolding rotated_def Let_def by force+
  have last: "length audio \<le> hop_end audio k \<longleftrightarrow> k = n_hops audio - 1" if "k < n_hops audio" for k
  proof -
    have "length audio \<le> hop_end audio k \<longleftrightarrow> length audio + hop_samples - 1 < Suc (Suc k) * hop_samples"
      by (auto simp: hop_end_def hop_samples_def)
    also have "\<dots> \<longleftrightarrow> n_hops audio < Suc (Suc k)"
      unfolding n_hops_def by (simp add: div_less_iff_less_mult hop_samples_def)
    finally show ?thesis using that by auto
  qed
  have "\<exists>k<n_hops audio. window_start audio answers k \<le> i \<and> i < hop_end audio k"
    if c: "\<forall>an\<in>set answers. 0 \<le> carry_samples an" and i: "i < length audio" for i
  proof (intro exI [of _ "i div hop_samples"] conjI)
    show k: "i div hop_samples < n_hops audio"
    proof -
      have "Suc (i div hop_samples) * hop_samples \<le> length audio + hop_samples - 1"
        using i div_times_less_eq_dividend [of i hop_samples] by (simp add: hop_samples_def)
      then have "Suc (i div hop_samples) \<le> n_hops audio"
        unfolding n_hops_def by (simp add: less_eq_div_iff_mult_less_eq hop_samples_def)
      then show ?thesis by simp
    qed
    show "window_start audio answers (i div hop_samples) \<le> i"
    proof (rule order_trans)
      show "window_start audio answers (i div hop_samples) \<le> i div hop_samples * hop_samples"
        using window_start_le [OF c, of "i div hop_samples" audio] k r(2) by simp
    qed (rule div_times_less_eq_dividend)
    show "i < hop_end audio (i div hop_samples)"
      using i by (simp add: hop_end_def hop_samples_def)
  qed
  moreover have "ro_rotations st = length (filter (\<lambda>an. an_event an = Some ''segment_rotation'') answers)"
    "ro_final st = (let fs = filter (\<lambda>an. an_event an = Some ''final'') answers in if fs = [] then None else Some (last fs))"
    using r(1) by (simp_all add: rotated_def Let_def)
  ultimately show ?thesis using r(2) e last st(2,3) by (intro exI [of _ answers]) auto
qed

section \<open>Gates\<close>

definition accepted :: "accept_args \<Rightarrow> utext \<Rightarrow> accept_results \<Rightarrow> bool" where
  "accepted args rotation_gt res \<longleftrightarrow>
     (let a = ac_a res; b = ac_b res; ls = ac_latencies res; d = ac_d res; e = ac_errors res in
      fst a \<and> similar (95 / 100) (sr_text b) (snd a)
      \<and> nat \<lfloor>of_nat (length ls - 1) * (50 / 100 :: rat)\<rfloor> + 1 \<le> length (filter (\<lambda>x. x \<le> 500) ls)
      \<and> nat \<lfloor>of_nat (length ls - 1) * (95 / 100 :: rat)\<rfloor> + 1 \<le> length (filter (\<lambda>x. x \<le> 1000) ls)
      \<and> rr_final d \<noteq> None \<and> (1 \<le> rr_segments d \<or> 1 \<le> rr_rotations d)
      \<and> (\<forall>g. d_lcs_hard_gate args = Some g \<and> curated_text args \<noteq> [] \<longrightarrow> similar g (rr_text d) (curated_text args))
      \<and> malformed_json e \<and> unknown_event e \<and> chunk_too_long e \<and> session_cleared e
      \<and> (\<forall>f. ac_f res = Some f \<longrightarrow> similar (95 / 100) (sr_text f) (sr_text b))
      \<and> (\<forall>g. ac_g res = Some g \<longrightarrow> 1 \<le> rr_rotations g \<and> 2 \<le> rr_segments g
          \<and> (rotation_gt \<noteq> [] \<longrightarrow> similar (g_lcs_hard_gate args) (rr_text g) rotation_gt)))"

lemma gates_accepted:
  assumes "\<forall>(k, v)\<in>set (accept_gates args rotation_gt res). \<not> is_soft k \<longrightarrow> v" and "ac_latencies res \<noteq> []"
  shows "accepted args rotation_gt res"
proof -
  have v: "v" if "(k, v) \<in> set (accept_gates args rotation_gt res)" "k \<noteq> GD_lcs_soft" for k v
    using assms(1) that by (auto simp: is_soft_def)
  note d = accept_gates_def Let_def
  have fixed: "fst (ac_a res)"
    "95 / 100 \<le> text_similarity (sr_text (ac_b res)) (snd (ac_a res))"
    "percentile (ac_latencies res) 50 \<le> 500"
    "percentile (ac_latencies res) 95 \<le> 1000"
    "case rr_final (ac_d res) of None \<Rightarrow> False | Some an \<Rightarrow> an_event an = Some ''final''"
    "1 \<le> rr_segments (ac_d res) \<or> 1 \<le> rr_rotations (ac_d res)"
    "malformed_json (ac_errors res)"
    "unknown_event (ac_errors res)"
    "chunk_too_long (ac_errors res)"
    "session_cleared (ac_errors res)"
  proof -
    show "fst (ac_a res)" by (rule v [of GA_ok]) (simp_all add: d)
    show "95 / 100 \<le> text_similarity (sr_text (ac_b res)) (snd (ac_a res))" by (rule v [of GB_lcs]) (simp_all add: d)
    show "percentile (ac_latencies res) 50 \<le> 500" by (rule v [of GC_median]) (simp_all add: d)
    show "percentile (ac_latencies res) 95 \<le> 1000" by (rule v [of GC_p95]) (simp_all add: d)
    show "case rr_final (ac_d res) of None \<Rightarrow> False | Some an \<Rightarrow> an_event an = Some ''final''" by (rule v [of GD_final]) (simp_all add: d)
    show "1 \<le> rr_segments (ac_d res) \<or> 1 \<le> rr_rotations (ac_d res)" by (rule v [of GD_rotation]) (simp_all add: d)
    show "malformed_json (ac_errors res)" by (rule v [of GE_json]) (simp_all add: d)
    show "unknown_event (ac_errors res)" by (rule v [of GE_unknown]) (simp_all add: d)
    show "chunk_too_long (ac_errors res)" by (rule v [of GE_long]) (simp_all add: d)
    show "session_cleared (ac_errors res)" by (rule v [of GE_cleared]) (simp_all add: d)
  qed
  have cur: "similar x (rr_text (ac_d res)) (curated_text args)" if "d_lcs_hard_gate args = Some x" "curated_text args \<noteq> []" for x
    by (rule similarity_gate, rule v [of GD_lcs]) (use that in \<open>simp_all add: d\<close>)
  have f: "similar (95 / 100) (sr_text x) (sr_text (ac_b res))" if "ac_f res = Some x" for x
    by (rule similarity_gate, rule v [of GF_lcs]) (use that in \<open>simp_all add: d\<close>)
  have r: "1 \<le> rr_rotations x" "2 \<le> rr_segments x" if "ac_g res = Some x" for x
  proof -
    show "1 \<le> rr_rotations x" by (rule v [of GG_rotations]) (use that in \<open>simp_all add: d\<close>)
    show "2 \<le> rr_segments x" by (rule v [of GG_segments]) (use that in \<open>simp_all add: d\<close>)
  qed
  have rt: "similar (g_lcs_hard_gate args) (rr_text x) rotation_gt" if "ac_g res = Some x" "rotation_gt \<noteq> []" for x
    by (rule similarity_gate, rule v [of GG_lcs]) (use that in \<open>simp_all add: d\<close>)
  have fin: "rr_final (ac_d res) \<noteq> None" using fixed(5) by (auto split: option.splits)
  have p: "nat \<lfloor>of_nat (length (ac_latencies res) - 1) * (50 / 100 :: rat)\<rfloor> + 1 \<le> length (filter (\<lambda>x. x \<le> 500) (ac_latencies res))"
    by (rule percentile_gate [OF assms(2) _ _ fixed(3)]) simp_all
  have q: "nat \<lfloor>of_nat (length (ac_latencies res) - 1) * (95 / 100 :: rat)\<rfloor> + 1 \<le> length (filter (\<lambda>x. x \<le> 1000) (ac_latencies res))"
    by (rule percentile_gate [OF assms(2) _ _ fixed(4)]) simp_all
  show ?thesis
    unfolding accepted_def Let_def
    using fixed(1,6-10) fin similarity_gate [OF fixed(2)] p q cur f r rt by blast
qed

lemma guard_eq_Inr: "((if b then Inl e else r) = Inr y) \<longleftrightarrow> \<not> b \<and> r = Inr y"
  by simp

lemma status_eq_Inr: "(Inr (if b then 0 else 1, x) = Inr (0 :: nat, y)) \<longleftrightarrow> b \<and> x = y"
  by simp

text \<open>
  C22: exit status 0 of the acceptance test.  The one-shot answer was complete and the streamed text
  shares 95 in 100 of a longest common subsequence with it; as many latencies were measured as asked
  for, with the stated shares within 500 and 1000 milliseconds; the long audio was rotated or
  segmented, ended in a final answer and, when there is a curated text and a gate, is similar to it;
  all four error paths were answered as specified; with sample streaming the same holds of it against
  the streamed text, and a rotation recording was rotated into two segments and is similar to its
  text.  The long result is that of a rotating scenario on the long recording or on the short one twice.
\<close>

theorem accept_sound:
  assumes "accept_main args read_audio dummy present pool = Inr (0, res)"
  shows "accepted args (rotation_text args (rotation_path args present)) res
    \<and> ac_latencies res \<noteq> [] \<and> length (ac_latencies res) = nat (aa_latency_runs args)
    \<and> (ac_f res \<noteq> None \<longleftrightarrow> pcm_mode args) \<and> (ac_g res \<noteq> None \<longleftrightarrow> pcm_mode args \<and> rotation_path args present \<noteq> None)
    \<and> (\<exists>samples long k. read_audio (short_wav args) = Some samples
        \<and> (if long_wav args = [] then long = take (SAMPLE_RATE * 5) samples @ take (SAMPLE_RATE * 5) samples
           else read_audio (long_wav args) = Some long)
        \<and> scenario_rotating (pool k) False long = Inr (ac_d res))"
proof -
  let ?sessions = "session_worker \<circ> pool"
  from assms obtain samples long lats k d f path g where r:
    "read_wav read_audio (short_wav args) = Inr samples"
    "(if long_wav args \<noteq> [] then read_wav read_audio (long_wav args)
      else Inr (take (SAMPLE_RATE * 5) samples @ take (SAMPLE_RATE * 5) samples)) = Inr long"
    "of_stream (latency_loop ?sessions (take (SAMPLE_RATE * 5) samples) 2 (nat (aa_latency_runs args))) = Inr lats" "lats \<noteq> []"
    "scenario_rotating (pool k) False long = Inr d"
    "(if pcm_mode args then res_bind (of_stream (scenario_stream (?sessions (k + 4)) True (take (SAMPLE_RATE * 5) samples))) (\<lambda>f. Inr (Some f))
      else Inr None) = Inr f"
    "(case rotation_path args present of
        Some p \<Rightarrow>
          if pcm_mode args
          then res_bind (read_wav read_audio p) (\<lambda>rot. res_bind (scenario_rotating (pool (k + 5)) True rot) (\<lambda>g. Inr (Some g)))
          else Inr None
      | None \<Rightarrow> Inr None) = Inr g"
    "ac_latencies res = lats" "ac_d res = d" "ac_f res = f" "ac_g res = g"
    "list_all snd (filter (\<lambda>(k, v). \<not> is_soft k) (accept_gates args (rotation_text args (rotation_path args present)) res))"
    unfolding accept_main_def Let_def res_bind_eq_Inr guard_eq_Inr status_eq_Inr
    by - (elim exE conjE, rule that, (assumption | (hypsubst, (assumption | simp only: accept_results.select_convs)))+)
  have "accepted args (rotation_text args (rotation_path args present)) res"
    using r(4,8,12) by (intro gates_accepted) (auto simp: list_all_iff)
  moreover have "length lats = nat (aa_latency_runs args)"
    using r(3) latency_loop_length [of ?sessions] by (auto simp: of_stream_def split: sum.splits)
  moreover have "f \<noteq> None \<longleftrightarrow> pcm_mode args" using r(6) by (auto split: if_splits)
  moreover have "g \<noteq> None \<longleftrightarrow> pcm_mode args \<and> rotation_path args present \<noteq> None"
    using r(7) by (auto split: if_splits option.splits)
  moreover have "read_audio (short_wav args) = Some samples" "if long_wav args = [] then
      long = take (SAMPLE_RATE * 5) samples @ take (SAMPLE_RATE * 5) samples else read_audio (long_wav args) = Some long"
    using r(1,2) by (auto simp: read_wav_def split: option.splits if_splits)
  ultimately show ?thesis using r(4,5,8-11) by blast
qed

end
