(* ===== verification/Worker_Accept_Witness.thy ===== *)
theory Worker_Accept_Witness
  imports Worker_Accept_Props
begin

text \<open>A worker that passes the acceptance test, and its run on a short and a rotating recording.\<close>

definition eg_reply :: "string \<Rightarrow> string \<Rightarrow> string \<Rightarrow> wide_answer" where
  "eg_reply event err text =
     \<lparr>an_event = Some event, an_ok = True, an_output = Some (points ''language English one''), an_text = points text,
      an_error = err, an_carryover = Some (1 / 4), an_segments = 2\<rparr>"

definition eg_probe :: "nat probe_worker" where
  "eg_probe sent =
     Some (case rev sent of
         [] \<Rightarrow> eg_reply ''ready'' [] []
       | msg # _ \<Rightarrow>
           (case msg of
              Session (OneShot _ _) \<Rightarrow> eg_reply ''done'' [] []
            | Session (Begin _) \<Rightarrow> eg_reply ''begin_ack'' [] []
            | Session (Chunk _ is_last) \<Rightarrow>
                if list_ex (\<lambda>m. case m of Sized _ _ _ \<Rightarrow> True | _ \<Rightarrow> False) sent then eg_reply ''error'' ''no_active_session'' []
                else if is_last then eg_reply ''final'' [] ''one.'' else eg_reply ''segment_rotation'' [] []
            | Malformed \<Rightarrow> eg_reply ''error'' ''json_parse_failed: 1'' []
            | UnknownEvent \<Rightarrow> eg_reply ''error'' ''unknown_event'' []
            | Sized _ _ _ \<Rightarrow> eg_reply ''error'' ''chunk_too_long'' []), 200)"

lemma eg_prefix: "strip_language_prefix (points ''one.'') = points ''one.''"
    "strip_language_prefix (points ''language English one'') = points ''one''"
  by code_simp+

lemma eg_reply_simps [simp]:
  "an_event (eg_reply ev err t) = Some ev" "an_ok (eg_reply ev err t)" "an_text (eg_reply ev err t) = points t"
  "an_output (eg_reply ev err t) = Some (points ''language English one'')" "an_error (eg_reply ev err t) = err"
  "an_carryover (eg_reply ev err t) = Some (1 / 4)" "an_segments (eg_reply ev err t) = 2"
  "answer.truncate (eg_reply ev err t) = \<lparr>an_event = Some ev, an_ok = True, an_output = Some (points ''language English one''), an_text = points t\<rparr>"
  by (simp_all add: eg_reply_def answer.truncate_def)

lemma eg_probe_start: "start_worker (session_worker eg_probe) = Inr ()" "start_probe eg_probe = Inr ()"
  by (simp_all add: start_probe_def of_stream_def start_worker_def session_worker_def eg_probe_def)

lemma eg_probe_oneshot: "scenario_a_oneshot (session_worker eg_probe) audio n = Inr (True, points ''one'')"
  by (simp add: scenario_a_oneshot_def eg_probe_start send_recv_def session_worker_def eg_probe_def eg_prefix)

lemma eg_probe_stream:
  "scenario_stream (session_worker eg_probe) pcm [4, 2, 3] = Inr \<lparr>sr_text = points ''one.'', sr_latency = 200, sr_hops = 1, sr_rotations = 0\<rparr>"
  by (simp add: scenario_stream_def run_hops_def eg_probe_start send_recv_def n_hops_def hop_samples_def stream_hop_def session_worker_def eg_probe_def eg_prefix)

lemma eg_carry: "carry_samples (eg_reply ev err t) = 4000"
  by (simp add: carry_samples_def py_trunc_def SAMPLE_RATE_def)

lemma eg_rotating_short:
  "scenario_rotating eg_probe pcm [4, 2, 3, 4, 2, 3]
    = Inr \<lparr>rr_rotations = 0, rr_final = Some (eg_reply ''final'' [] ''one.''), rr_text = points ''one.'', rr_segments = 2\<rparr>"
  by (simp add: scenario_rotating_def eg_probe_start ask_def rotate_loop.simps rotate_hop_def Let_def hop_samples_def eg_probe_def eg_prefix)

lemma eg_rotating_long:
  "scenario_rotating eg_probe pcm (replicate 12000 0)
    = Inr \<lparr>rr_rotations = 1, rr_final = Some (eg_reply ''final'' [] ''one.''), rr_text = points ''one.'', rr_segments = 2\<rparr>"
  by (simp add: scenario_rotating_def eg_probe_start ask_def rotate_loop.simps rotate_hop_def Let_def hop_samples_def eg_probe_def eg_prefix eg_carry)

theorem rotation_exact_witness:
  "\<exists>answers. length answers = 2 \<and> (\<forall>an\<in>set answers. 0 \<le> carry_samples an)
    \<and> (\<forall>i<12000. \<exists>k<2. window_start (replicate 12000 (0 :: nat)) answers k \<le> i \<and> i < hop_end (replicate 12000 (0 :: nat)) k)"
proof -
  let ?audio = "replicate 12000 (0 :: nat)"
  have n: "n_hops ?audio = 2" by (simp add: n_hops_def hop_samples_def)
  from rotation_exact [OF eg_rotating_long [of False]] obtain answers where a: "length answers = 2"
    "\<forall>k<2. ask eg_probe (rotation_messages False ?audio answers (Suc k)) = Inr (answers ! k)"
    "(\<forall>an\<in>set answers. 0 \<le> carry_samples an)
        \<longrightarrow> (\<forall>i<12000. \<exists>k<2. window_start ?audio answers k \<le> i \<and> i < hop_end ?audio k)"
    unfolding n length_replicate by (elim exE conjE) blast
  have "\<exists>ev err t. an = eg_reply ev err t" if "ask eg_probe sent = Inr an" for sent an
    using that by (auto simp: ask_def eg_probe_def split: list.splits probe.splits message.splits if_splits)
  then have "\<forall>an\<in>set answers. 0 \<le> carry_samples an"
    using a(1,2) by (metis eg_carry in_set_conv_nth zero_le_numeral)
  then show ?thesis using a(1,3) by blast
qed

definition eg_accept_args :: accept_args where
  "eg_accept_args = \<lparr>short_wav = ''short.wav'', long_wav = [], long_baseline = points ''one'', d_lcs_hard_gate = Some (95 / 100),
     rotation_wav = ''rotation.wav'', rotation_baseline = points ''one'', g_lcs_hard_gate = 85 / 100, pcm_mode = True,
     aa_max_gen = 200, aa_latency_runs = 1\<rparr>"

definition eg_audio :: "string \<Rightarrow> nat list option" where
  "eg_audio path = Some (if path = ''short.wav'' then [4, 2, 3] else replicate 12000 0)"

lemma eg_similarity: "text_similarity (points ''one.'') (points ''one'') = 1" "text_similarity (points ''one.'') (points ''one.'') = 1"
proof -
  have p: "points ''one.'' = [111, 110, 101, 46]" "points ''one'' = [111, 110, 101]" by (simp_all add: points_def)
  have "lcs_dp [111, 110, 101] [111, 110, 101] ! 3 ! 3 = 3" by code_simp
  then show "text_similarity (points ''one.'') (points ''one'') = 1" "text_similarity (points ''one.'') (points ''one.'') = 1"
    unfolding p by (simp_all add: text_similarity_def dropped_def Let_def numeral_3_eq_3)
qed

lemma eg_error_paths:
  "scenario_e_errors (\<lambda>i. eg_probe) dummy = Inr \<lparr>malformed_json = True, unknown_event = True, chunk_too_long = True, session_cleared = True\<rparr>"
proof -
  have "contains ''json_parse_failed'' ''json_parse_failed: 1''" by code_simp
  then show ?thesis by (simp add: scenario_e_errors_def eg_probe_start ask_def eg_probe_def Let_def)
qed

lemma eg_texts: "curated_text eg_accept_args = points ''one''" "rotation_path eg_accept_args None = Some ''rotation.wav''"
    "rotation_text eg_accept_args (Some ''rotation.wav'') = points ''one''" "points ''one'' \<noteq> []"
  by (simp_all add: curated_text_def rotation_path_def rotation_text_def eg_accept_args_def points_def)

lemma eg_accept_run: "\<exists>res. accept_main eg_accept_args eg_audio [] None (\<lambda>i. eg_probe) = Inr (0, res)"
proof -
  have t: "take (SAMPLE_RATE * 5) [4, 2, 3 :: nat] = [4, 2, 3]" by (simp add: SAMPLE_RATE_def)
  have w: "read_wav eg_audio (short_wav eg_accept_args) = Inr [4, 2, 3]" "read_wav eg_audio ''rotation.wav'' = Inr (replicate 12000 0)"
    by (simp_all add: read_wav_def eg_audio_def eg_accept_args_def)
  have a: "long_wav eg_accept_args = []" "pcm_mode eg_accept_args" "nat (aa_latency_runs eg_accept_args) = Suc 0"
    "d_lcs_hard_gate eg_accept_args = Some (95 / 100)" "g_lcs_hard_gate eg_accept_args = 85 / 100"
    by (simp_all add: eg_accept_args_def)
  have brief: "10 * length [4, 2, 3, 4, 2, 3 :: nat] \<le> 65 * SAMPLE_RATE" by (simp add: SAMPLE_RATE_def)
  have p: "percentile [200] 50 = 200" "percentile [200] 95 = 200" by code_simp+
  show ?thesis
    unfolding accept_main_def Let_def
    by (simp add: w t a brief [simplified] eg_probe_oneshot eg_probe_stream eg_rotating_short eg_rotating_long eg_error_paths of_stream_def
        eg_texts accept_gates_def Let_def is_soft_def eg_similarity p comp_def)
qed

theorem accept_sound_witness:
  "\<exists>res. accept_main eg_accept_args eg_audio [] None (\<lambda>i. eg_probe) = Inr (0, res)
    \<and> accepted eg_accept_args (points ''one'') res \<and> ac_g res \<noteq> None"
proof -
  obtain res where r: "accept_main eg_accept_args eg_audio [] None (\<lambda>i. eg_probe) = Inr (0, res)" using eg_accept_run by blast
  have "pcm_mode eg_accept_args" by (simp add: eg_accept_args_def)
  with accept_sound [OF r] r show ?thesis unfolding eg_texts by blast
qed

end
