(* ===== verification/Audio_In.thy ===== *)
theory Audio_In
  imports Wav_File Onnx_Graph
begin

text \<open>
  From a WAV file to the input of the ASR encoder, as \<^verbatim>\<open>scripts/test_streaming_worker.py\<close> and
  \<^verbatim>\<open>scripts/validate_qwen3_tts_quality_gate.py\<close> both do it: samples, channel mean, resampling to
  16 kHz, the number of feature frames and the tensor file.  Samples are exact rationals; the
  spectrum itself is NumPy's.
\<close>

section \<open>Samples\<close>

definition words :: "nat \<Rightarrow> bytes \<Rightarrow> nat list" where
  "words n bs = map (\<lambda>i. from_le (take n (drop (i * n) bs))) [0..<length bs div n]"

definition signed :: "nat \<Rightarrow> nat \<Rightarrow> int" where
  "signed n v = (if 2 * v < 256 ^ n then int v else int v - 256 ^ n)"

text \<open>\<^verbatim>\<open>np.frombuffer\<close> with little-endian words, scaled to the unit interval.\<close>

definition unit_samples :: "nat \<Rightarrow> bytes \<Rightarrow> vexc + rat list" where
  "unit_samples width bs =
     (if width = 2 then if length bs mod 2 \<noteq> 0 then Inl ValueErr else Inr (map (\<lambda>v. of_int (signed 2 v) / 32768) (words 2 bs))
      else if width = 4 then if length bs mod 4 \<noteq> 0 then Inl ValueErr else Inr (map (\<lambda>v. of_int (signed 4 v) / 2147483648) (words 4 bs))
      else if width = 1 then Inr (map (\<lambda>b. (of_nat b - 128) / 128) bs)
      else Inl ValueErr)"

definition channel_mean :: "nat \<Rightarrow> rat list \<Rightarrow> vexc + rat list" where
  "channel_mean n xs =
     (if n \<le> 1 then Inr xs
      else if length xs mod n \<noteq> 0 then Inl ValueErr
      else Inr (map (\<lambda>i. sum_list (take n (drop (i * n) xs)) / of_nat n) [0..<length xs div n]))"

definition wav_to_audio :: "bytes \<Rightarrow> vexc + rat list \<times> nat" where
  "wav_to_audio file =
     res_bind (wav_read file) (\<lambda>(info, data).
     res_bind (unit_samples (sample_width info) data) (\<lambda>xs.
     res_bind (channel_mean (channels info) xs) (\<lambda>audio. Inr (audio, sample_rate info))))"

section \<open>Resampling\<close>

text \<open>\<^verbatim>\<open>np.interp\<close> at the \<open>j\<close>-th of \<open>m\<close> points in between the samples.\<close>

definition interp_at :: "rat list \<Rightarrow> nat \<Rightarrow> nat \<Rightarrow> rat" where
  "interp_at xs m j =
     (let i = j * length xs div m in
      if length xs \<le> i + 1 then last xs
      else xs ! i + (xs ! (i + 1) - xs ! i) * (of_nat (j * length xs) / of_nat m - of_nat i))"

definition resample_to_16k :: "rat list \<Rightarrow> nat \<Rightarrow> vexc + rat list" where
  "resample_to_16k audio sr =
     (if sr = 16000 then Inr audio
      else if sr = 0 then Inl OtherErr
      else if audio = [] then Inl ValueErr
      else let m = nat (rint (of_nat (length audio * 16000) / of_nat sr)) in Inr (map (interp_at audio m) [0..<m]))"

section \<open>Features\<close>

text \<open>
  Windows of 400 samples every 160 over the audio, padded to two samples at least and by 200 on both
  sides; the last window is dropped and at least 100 frames are written.  The maximum of no window raises.
\<close>

definition mel_windows :: "nat \<Rightarrow> nat" where
  "mel_windows n = (let padded = (if n \<le> 1 then n + (2 - n) else n) + 200 + 200 in 1 + (padded - 400) div 160)"

definition audio_to_mel :: "(rat list \<Rightarrow> bytes) \<Rightarrow> rat list \<Rightarrow> vexc + nat list \<times> bytes" where
  "audio_to_mel spectrum audio =
     (let frames = mel_windows (length audio) - 1 in
      if frames = 0 then Inl ValueErr
      else Inr ([1, 128, if frames < 100 then frames + (100 - frames) else frames], spectrum audio))"

text \<open>The header that \<^verbatim>\<open>json.dumps\<close> prints for a name without characters to escape.\<close>

fun commas :: "nat list \<Rightarrow> string" where
  "commas [] = []"
| "commas [n] = str_nat n"
| "commas (n # m # ns) = str_nat n @ [CHR 44] @ commas (m # ns)"

definition tensor_header :: "string \<Rightarrow> nat list \<Rightarrow> nat \<Rightarrow> string" where
  "tensor_header name shape nbytes =
     [CHR 123, CHR 34] @ name @ [CHR 34, CHR 58, CHR 123, CHR 34] @ ''dtype'' @ [CHR 34, CHR 58, CHR 34] @ ''F16''
     @ [CHR 34, CHR 44, CHR 34] @ ''shape'' @ [CHR 34, CHR 58, CHR 91] @ commas shape @ [CHR 93, CHR 44, CHR 34]
     @ ''data_offsets'' @ [CHR 34, CHR 58, CHR 91] @ ''0'' @ [CHR 44] @ str_nat nbytes @ [CHR 93, CHR 125, CHR 125]"

definition write_safetensors :: "nat list \<times> bytes \<Rightarrow> string \<Rightarrow> bytes" where
  "write_safetensors = (\<lambda>(shape, bs) name.
     let h = ascii (tensor_header name shape (length bs)); h' = h @ replicate ((8 - length h mod 8) mod 8) 32 in
     le 8 (length h') @ h' @ bs)"

section \<open>Bounds\<close>

lemma from_le_bound: "list_all (\<lambda>b. b < 256) bs \<Longrightarrow> from_le bs < 256 ^ length bs"
proof (induction bs)
  case (Cons b bs)
  then have "from_le bs < 256 ^ length bs" "b < 256" by simp_all
  then have "b + 256 * from_le bs < 256 * 256 ^ length bs" by linarith
  then show ?case by simp
qed simp

lemma le_bytes: "list_all (\<lambda>b. b < 256) (le n x)"
  by (induction n arbitrary: x) simp_all

lemma ascii_bytes: "list_all (\<lambda>b. b < 256) (ascii s)"
  by (auto simp: ascii_def list_all_iff nat_of_char_less_256)

lemma word_bound:
  assumes "list_all (\<lambda>b. b < 256) bs" and "v \<in> set (words n bs)"
  shows "v < 256 ^ n"
proof -
  obtain i where v: "v = from_le (take n (drop (i * n) bs))" using assms(2) by (auto simp: words_def)
  have "list_all (\<lambda>b. b < 256) (take n (drop (i * n) bs))"
    using assms(1) by (auto simp: list_all_iff dest: in_set_takeD in_set_dropD)
  then have "v < 256 ^ length (take n (drop (i * n) bs))" unfolding v by (rule from_le_bound)
  also have "\<dots> \<le> 256 ^ n" by (intro power_increasing) auto
  finally show ?thesis .
qed

lemma signed_bound:
  assumes "v < 256 ^ n" and "0 < n"
  shows "2 * \<bar>signed n v\<bar> \<le> 256 ^ n"
proof -
  have "int v < 256 ^ n" using assms(1) by (metis of_nat_less_iff of_nat_numeral of_nat_power)
  moreover have "2 * v < 256 ^ n \<longleftrightarrow> 2 * int v < 256 ^ n"
    by (metis of_nat_less_iff of_nat_mult of_nat_numeral of_nat_power)
  ultimately show ?thesis by (auto simp: signed_def)
qed

definition unit_range :: "rat list \<Rightarrow> bool" where
  "unit_range xs \<longleftrightarrow> (\<forall>x\<in>set xs. \<bar>x\<bar> \<le> 1)"

lemma unit_samples_range:
  assumes "unit_samples width bs = Inr xs" and "list_all (\<lambda>b. b < 256) bs"
  shows "unit_range xs"
proof -
  have "2 * \<bar>signed 2 v\<bar> \<le> 65536" if "v \<in> set (words 2 bs)" for v
    using signed_bound [OF word_bound [OF assms(2) that]] by simp
  then have "\<bar>of_int (signed 2 v) / 32768\<bar> \<le> (1 :: rat)" if "v \<in> set (words 2 bs)" for v
    using that of_int_le_iff [of "\<bar>signed 2 v\<bar>" 32768, where 'a = rat] by (fastforce simp: abs_divide)
  note two = this
  have "2 * \<bar>signed 4 v\<bar> \<le> 4294967296" if "v \<in> set (words 4 bs)" for v
    using signed_bound [OF word_bound [OF assms(2) that]] by simp
  then have "\<bar>of_int (signed 4 v) / 2147483648\<bar> \<le> (1 :: rat)" if "v \<in> set (words 4 bs)" for v
    using that of_int_le_iff [of "\<bar>signed 4 v\<bar>" 2147483648, where 'a = rat] by (fastforce simp: abs_divide)
  note four = this
  have "\<bar>(of_nat b - 128) / 128\<bar> \<le> (1 :: rat)" if "b \<in> set bs" for b
  proof -
    have "b \<le> 255" using assms(2) that by (auto simp: list_all_iff)
    then have "(of_nat b :: rat) \<le> 255" by (metis of_nat_le_iff of_nat_numeral)
    moreover have "(0 :: rat) \<le> of_nat b" by simp
    ultimately show ?thesis by (simp add: abs_divide abs_le_iff)
  qed
  then show ?thesis using assms(1) two four by (auto simp: unit_samples_def unit_range_def split: if_splits)
qed

lemma channel_mean_range:
  assumes "channel_mean n xs = Inr ys" and "unit_range xs"
  shows "unit_range ys"
proof (cases "n \<le> 1")
  case False
  have "\<bar>sum_list (take n (drop k xs)) / of_nat n\<bar> \<le> 1" for k
  proof -
    let ?zs = "take n (drop k xs)"
    have u: "\<forall>z\<in>set ?zs. \<bar>z\<bar> \<le> 1" using assms(2) by (auto simp: unit_range_def dest: in_set_takeD in_set_dropD)
    have "\<bar>sum_list zs\<bar> \<le> of_nat (length zs)" if "\<forall>z\<in>set zs. \<bar>z\<bar> \<le> 1" for zs :: "rat list"
      using that by (induction zs) fastforce+
    from this [OF u] have "\<bar>sum_list ?zs\<bar> \<le> of_nat (length ?zs)" .
    also have "\<dots> \<le> of_nat n" by simp
    finally show ?thesis using False by (simp add: abs_divide)
  qed
  then show ?thesis using assms(1) False by (auto simp: channel_mean_def unit_range_def split: if_splits)
qed (use assms in \<open>simp add: channel_mean_def\<close>)

lemma interp_range:
  assumes "unit_range xs" and "xs \<noteq> []" and "0 < m"
  shows "\<bar>interp_at xs m j\<bar> \<le> 1"
proof -
  let ?i = "j * length xs div m"
  show ?thesis
  proof (cases "length xs \<le> ?i + 1")
    case True
    then show ?thesis using assms by (simp add: interp_at_def unit_range_def)
  next
    case False
    define t where "t = of_nat (j * length xs) / of_nat m - (of_nat ?i :: rat)"
    have t: "0 \<le> t" "t \<le> 1"
    proof -
      have "?i * m \<le> j * length xs" by (rule div_times_less_eq_dividend)
      then have "of_nat (?i * m) \<le> (of_nat (j * length xs) :: rat)" by (rule of_nat_mono)
      then have "of_nat ?i * of_nat m \<le> (of_nat (j * length xs) :: rat)" by simp
      then show "0 \<le> t" using assms(3) by (simp add: t_def pos_le_divide_eq)
      have "j * length xs \<le> Suc ?i * m" using assms(3) dividend_less_div_times [of m "j * length xs"] by simp
      then have "of_nat (j * length xs) \<le> (of_nat (Suc ?i * m) :: rat)" by (rule of_nat_mono)
      then have "of_nat (j * length xs) \<le> (of_nat ?i + 1) * (of_nat m :: rat)" by (simp add: algebra_simps)
      then have "of_nat (j * length xs) / of_nat m \<le> (of_nat ?i + 1 :: rat)"
        using assms(3) by (simp add: pos_divide_le_eq del: of_nat_mult)
      then show "t \<le> 1" unfolding t_def by linarith
    qed
    have a: "\<bar>xs ! ?i\<bar> \<le> 1" "\<bar>xs ! (?i + 1)\<bar> \<le> 1" using assms(1) False by (simp_all add: unit_range_def)
    have "interp_at xs m j = (1 - t) * xs ! ?i + t * xs ! (?i + 1)"
      using False unfolding t_def by (simp add: interp_at_def Let_def algebra_simps)
    also have "\<bar>\<dots>\<bar> \<le> (1 - t) * \<bar>xs ! ?i\<bar> + t * \<bar>xs ! (?i + 1)\<bar>"
      using t by (intro order_trans [OF abs_triangle_ineq]) (simp add: abs_mult)
    also have "\<dots> \<le> (1 - t) * 1 + t * 1" using t a by (intro add_mono mult_left_mono) auto
    finally show ?thesis by simp
  qed
qed

lemma read_chunks_bytes:
  "read_chunks fmt left bs = Inr (f, len, data) \<Longrightarrow> set data \<subseteq> set bs"
proof (induction fmt left bs rule: read_chunks.induct)
  case (1 fmt left bs)
  let ?name = "take 4 bs" and ?size = "from_le (take 4 (drop 4 bs))"
  let ?skip = "?size + ?size mod 2"
  have enough: "\<not> length (take left bs) < 8" using "1.prems" by (subst (asm) read_chunks.simps) (auto split: if_splits)
  have sub: "set (drop ?skip (drop 8 bs)) \<subseteq> set bs" by (metis drop_drop set_drop_subset)
  have next_part: "set data \<subseteq> set bs"
    if ih: "\<not> left - 8 < ?skip \<Longrightarrow> read_chunks fmt' (left - 8 - ?skip) (drop ?skip (drop 8 bs)) = Inr (f, len, data)
        \<Longrightarrow> set data \<subseteq> set (drop ?skip (drop 8 bs))"
      and r: "(if left - 8 < ?skip then Inl RuntimeErr else read_chunks fmt' (left - 8 - ?skip) (drop ?skip (drop 8 bs))) = Inr (f, len, data)"
    for fmt'
    using ih r sub by (auto split: if_splits)
  consider "?name = ascii ''fmt ''" | "?name = ascii ''data''" | "?name \<noteq> ascii ''fmt ''" "?name \<noteq> ascii ''data''" by blast
  then show ?case
  proof cases
    case 1
    then obtain g where g: "read_fmt (take (left - 8) (take ?size (drop 8 bs))) = Inr g"
      "(if left - 8 < ?skip then Inl RuntimeErr else read_chunks (Some g) (left - 8 - ?skip) (drop ?skip (drop 8 bs))) = Inr (f, len, data)"
      using "1.prems" enough by (subst (asm) read_chunks.simps) (auto simp: Let_def split: sum.splits if_splits)
    show ?thesis
      by (rule next_part [OF _ g(2)]) (rule "1.IH" [OF enough refl refl refl refl])
  next
    case 2
    then have "data = take ?size (take (left - 8) (drop 8 bs))"
      using "1.prems" enough by (subst (asm) read_chunks.simps) (auto simp: Let_def split: option.splits)
    then show ?thesis by (metis set_take_subset set_drop_subset order_trans)
  next
    case 3
    then have "(if left - 8 < ?skip then Inl RuntimeErr else read_chunks fmt (left - 8 - ?skip) (drop ?skip (drop 8 bs))) = Inr (f, len, data)"
      using "1.prems" enough by (subst (asm) read_chunks.simps) (simp add: Let_def)
    then show ?thesis by (rule next_part [rotated]) (rule "1.IH" [OF enough refl refl refl refl])
  qed
qed

lemma wav_read_bytes:
  assumes "wav_read bs = Inr (info, data)"
  shows "set data \<subseteq> set bs"
proof -
  obtain f len raw n where r: "read_chunks None (from_le (take 4 (drop 4 bs)) - 4) (drop 12 bs) = Inr (f, len, raw)"
    "data = take n raw"
    using assms by (auto simp: wav_read_def Let_def split: if_splits)
  have "set data \<subseteq> set raw" unfolding r(2) by (rule set_take_subset)
  also have "\<dots> \<subseteq> set (drop 12 bs)" using r(1) by (rule read_chunks_bytes)
  also have "\<dots> \<subseteq> set bs" by (rule set_drop_subset)
  finally show ?thesis .
qed

lemma mel_shape:
  "audio_to_mel spectrum audio =
    (if length audio < 160 then Inl ValueErr else Inr ([1, 128, max 100 (length audio div 160)], spectrum audio))"
  by (auto simp: audio_to_mel_def mel_windows_def Let_def div_eq_0_iff)

text \<open>
  C24: the audio that reaches the encoder.  Whatever WAV file is read, its samples lie in the unit
  interval, and so do the resampled ones, of which there are as many as 16000 per second make, to
  half a sample.  One frame of features is written for every 160 of them, 100 at least; fewer than
  160 samples raise, although short audio was meant to be padded.
\<close>

theorem audio_bounded:
  assumes "list_all (\<lambda>b. b < 256) file" and "wav_to_audio file = Inr (audio, sr)" and "resample_to_16k audio sr = Inr out"
  shows "unit_range audio \<and> unit_range out \<and> 0 < sr
    \<and> \<bar>of_nat (length out) - of_nat (length audio) * 16000 / (of_nat sr :: rat)\<bar> \<le> 1 / 2
    \<and> audio_to_mel spectrum out
      = (if length out < 160 then Inl ValueErr else Inr ([1, 128, max 100 (length out div 160)], spectrum out))"
proof -
  have mel: "audio_to_mel spectrum out
      = (if length out < 160 then Inl ValueErr else Inr ([1, 128, max 100 (length out div 160)], spectrum out))"
    by (rule mel_shape)
  obtain info data xs where r: "wav_read file = Inr (info, data)" "unit_samples (sample_width info) data = Inr xs"
    "channel_mean (channels info) xs = Inr audio"
    using assms(2) by (auto simp: wav_to_audio_def)
  have "list_all (\<lambda>b. b < 256) data" using assms(1) wav_read_bytes [OF r(1)] by (auto simp: list_all_iff)
  then have a: "unit_range audio" using unit_samples_range [OF r(2)] channel_mean_range [OF r(3)] by blast
  show ?thesis
  proof (cases "sr = 16000")
    case True
    then show ?thesis using a assms(3) mel by (simp add: resample_to_16k_def)
  next
    case False
    define m where "m = nat (rint (of_nat (length audio * 16000) / of_nat sr))"
    have o: "sr \<noteq> 0" "audio \<noteq> []" "out = map (interp_at audio m) [0..<m]"
      using assms(3) False by (auto simp: resample_to_16k_def m_def Let_def split: if_splits)
    have "unit_range out" using interp_range [OF a o(2)] by (auto simp: o(3) unit_range_def)
    moreover have "\<bar>of_nat m - of_nat (length audio) * 16000 / (of_nat sr :: rat)\<bar> \<le> 1 / 2"
    proof -
      let ?q = "of_nat (length audio * 16000) / (of_nat sr :: rat)"
      have "0 \<le> ?q" by simp
      then have "0 \<le> rint ?q" using rint_near [of ?q] by linarith
      then have "(of_nat m :: rat) = of_int (rint ?q)" by (simp add: m_def)
      then show ?thesis using rint_near [of ?q] by (simp add: abs_minus_commute)
    qed
    ultimately show ?thesis using a o mel by simp
  qed
qed

section \<open>The tensor file\<close>

text \<open>A reader finds the header, which fills whole words, and the data.\<close>

lemma safetensors_layout:
  assumes "length (tensor_header name shape (length bs)) < 2 ^ 32"
  defines "file \<equiv> write_safetensors (shape, bs) name"
  shows "from_le (take 8 file) mod 8 = 0 \<and> drop (8 + from_le (take 8 file)) file = bs
    \<and> take (length (tensor_header name shape (length bs))) (drop 8 file) = ascii (tensor_header name shape (length bs))"
proof -
  let ?h = "ascii (tensor_header name shape (length bs))"
  let ?pad = "(8 - length ?h mod 8) mod 8"
  have pad: "(n + (8 - n mod 8) mod 8) mod 8 = (0 :: nat)" for n
  proof -
    have "(k + (8 - k) mod 8) mod 8 = 0" if "k < 8" for k :: nat using that by (cases "k = 0") simp_all
    from this [of "n mod 8"] have "(n mod 8 + (8 - n mod 8) mod 8) mod 8 = 0" by simp
    then show ?thesis by (simp add: mod_add_left_eq)
  qed
  have b: "?pad < 8" by simp
  have "length ?h < 2 ^ 32" using assms(1) by simp
  with b have "length ?h + ?pad < 2 ^ 32 + 8" by (rule add_strict_mono [rotated])
  also have "(2 ^ 32 + 8 :: nat) < 256 ^ 8" by simp
  finally have "from_le (le 8 (length ?h + ?pad)) = length ?h + ?pad" by (rule from_le_le_id)
  moreover define h where "h = ?h @ replicate ?pad 32"
  moreover have "length h = length ?h + ?pad" by (simp add: h_def)
  ultimately have h: "from_le (le 8 (length h)) = length h" "length h mod 8 = 0" "take (length ?h) h = ?h" "length ?h \<le> length h"
    using pad [of "length ?h"] by (simp_all add: h_def)
  have f: "file = le 8 (length h) @ h @ bs" by (simp add: file_def write_safetensors_def Let_def h_def)
  have t: "take 8 file = le 8 (length h)" "drop 8 file = h @ bs" unfolding f by (intro take_field drop_field, simp)+
  have "drop (8 + length h) file = drop (length h) (drop 8 file)" by (simp add: add.commute)
  then have "drop (8 + length h) file = bs" unfolding t(2) by simp
  then show ?thesis unfolding t h(1) using h by simp
qed

section \<open>Example\<close>

text \<open>Two stereo frames at 8 kHz.\<close>

definition eg_pcm :: bytes where "eg_pcm = [0, 64, 0, 192, 255, 127, 1, 0]"

lemma eg_rate: "nat (rint (of_nat (length [0, 1 / 2 :: rat] * 16000) / of_nat 8000)) = 4"
  by (simp add: rint_def)

lemma eg_audio_in:
  "wav_to_audio (wav_header 2 2 8000 8 @ eg_pcm) = Inr ([0, 1 / 2], 8000)"
  "resample_to_16k [0, 1 / 2] 8000 = Inr [0, 1 / 4, 1 / 2, 1 / 2]"
proof -
  have l: "length eg_pcm = 8" by (simp add: eg_pcm_def)
  have "wav_read (wav_header 2 2 8000 (length eg_pcm) @ eg_pcm) = Inr (\<lparr>sample_rate = 8000, channels = 2,
      sample_width = 2, frames = length eg_pcm div (2 * 2), file_bytes = 44 + length eg_pcm\<rparr>, take (length eg_pcm div (2 * 2) * (2 * 2)) eg_pcm)"
    by (rule wav_read_written) (simp_all add: l)
  then have "wav_read (wav_header 2 2 8000 8 @ eg_pcm) = Inr (\<lparr>sample_rate = 8000, channels = 2, sample_width = 2, frames = 2,
      file_bytes = 52\<rparr>, eg_pcm)"
    unfolding l by (simp add: l)
  moreover have "words 2 eg_pcm = [16384, 49152, 32767, 1]" by (simp add: words_def eg_pcm_def)
  then have "unit_samples 2 eg_pcm = Inr [1 / 2, - 1 / 2, 32767 / 32768, 1 / 32768]"
    by (simp add: unit_samples_def l signed_def)
  moreover have "channel_mean 2 [1 / 2, - 1 / 2, 32767 / 32768, 1 / 32768] = Inr [0, 1 / 2]" by code_simp
  ultimately show "wav_to_audio (wav_header 2 2 8000 8 @ eg_pcm) = Inr ([0, 1 / 2], 8000)" by (simp add: wav_to_audio_def)
  have "map (interp_at [0, 1 / 2] 4) [0..<4] = [0, 1 / 4, 1 / 2, 1 / 2]" by code_simp
  then show "resample_to_16k [0, 1 / 2] 8000 = Inr [0, 1 / 4, 1 / 2, 1 / 2]"
    unfolding resample_to_16k_def Let_def eg_rate by simp
qed

theorem audio_bounded_witness:
  "wav_to_audio (wav_header 2 2 8000 8 @ eg_pcm) = Inr ([0, 1 / 2], 8000) \<and> unit_range [0, 1 / 4, 1 / 2, 1 / 2]
    \<and> audio_to_mel (\<lambda>_. []) [0, 1 / 4, 1 / 2, 1 / 2] = Inl ValueErr"
proof -
  have "list_all (\<lambda>b. b < 256) eg_pcm" by (simp add: eg_pcm_def)
  then have "list_all (\<lambda>b. b < 256) (wav_header 2 2 8000 8 @ eg_pcm)"
    unfolding wav_header_def list_all_append using le_bytes ascii_bytes by blast
  from audio_bounded [OF this eg_audio_in, of "\<lambda>_. []"] eg_audio_in(1) show ?thesis by simp
qed

end
