(* ===== verification/Quality_Gate.thy ===== *)
theory Quality_Gate
  imports Audio_In Streaming_Gate
begin

text \<open>
  \<^verbatim>\<open>scripts/validate_qwen3_tts_quality_gate.py\<close>: figures of each WAV file and the text an ASR worker
  finds in it.  The worker process is a function of its command line and environment; reading a file
  and the spectrum are parameters.  Elapsed times are left out.
\<close>

section \<open>Figures\<close>

text \<open>\<open>root_square\<close> is the square of the root mean square that is printed to one digit.\<close>

record wav_figures =
  fig_duration :: rat
  root_square :: rat
  fig_peak :: rat
  silence_ratio :: rat

definition round_to :: "nat \<Rightarrow> rat \<Rightarrow> rat" where
  "round_to n x = of_int (rint (x * 10 ^ n)) / 10 ^ n"

definition mean :: "rat list \<Rightarrow> rat" where
  "mean xs = sum_list xs / of_nat (length xs)"

definition wav_metrics :: "bytes \<Rightarrow> vexc + wav_figures" where
  "wav_metrics file =
     res_bind (wav_read file) (\<lambda>(info, data).
       if length data mod 2 \<noteq> 0 then Inl ValueErr
       else if sample_rate info = 0 then Inl OtherErr
       else let samples = map (\<lambda>v. of_int (signed 2 v)) (words 2 data) in
         Inr \<lparr>fig_duration = round_to 3 (of_nat (frames info) / of_nat (sample_rate info)),
              root_square = (if samples = [] then 0 else mean (map (\<lambda>x. x * x) samples)),
              fig_peak = (if samples = [] then 0 else round_to 1 (Max (set (map abs samples)))),
              silence_ratio = (if samples = [] then 1
                else round_to 4 (mean (map (\<lambda>x. if \<bar>x\<bar> < 64 then 1 else 0) samples)))\<rparr>)"

section \<open>Transcription\<close>

record quality_args =
  qa_worker :: string
  qa_plugin :: string
  qa_engine :: "string option"
  qa_encoder :: string
  qa_tensor_name :: string
  qa_max_gen :: int

definition asr_candidates :: "string list" where
  "asr_candidates =
     [''/home/harvest/qwen3-asr-edgellm-runtime/engines/thinker_full_in128_kv256_fp8embed_0510'',
      ''/home/harvest/qwen3-asr-edgellm-runtime/engines/thinker_full_in128_kv256_0510'',
      ''/home/harvest/qwen3-asr-edgellm-runtime/engines/thinker_kv512'',
      ''/home/harvest/qwen3-asr-trt-edge-llm-export/engines/thinker'']"

definition default_asr_engine :: "(string \<Rightarrow> bool) \<Rightarrow> string" where
  "default_asr_engine exists =
     (case List.find (\<lambda>c. exists (c @ ''/llm.engine'')) asr_candidates of
        Some c \<Rightarrow> c
      | None \<Rightarrow> asr_candidates ! 1)"

definition asr_env :: "quality_args \<Rightarrow> (string \<rightharpoonup> string) \<Rightarrow> string \<rightharpoonup> string" where
  "asr_env args env =
     (let e = env(''EDGELLM_PLUGIN_PATH'' \<mapsto> qa_plugin args) in
      if e ''EDGE_LLM_ASR_CUDA_GRAPH'' = None then e(''EDGE_LLM_ASR_CUDA_GRAPH'' \<mapsto> ''0'') else e)"

definition asr_cmd :: "quality_args \<Rightarrow> (string \<Rightarrow> bool) \<Rightarrow> string list" where
  "asr_cmd args exists =
     [qa_worker args, ''--engineDir'', case qa_engine args of Some d \<Rightarrow> d | None \<Rightarrow> default_asr_engine exists,
      ''--multimodalEngineDir'', qa_encoder args]"

text \<open>The request names a file with these contents; sampling is greedy at a fixed batch of one.\<close>

record asr_request =
  ar_tensor :: bytes
  ar_max_generate :: int

text \<open>The outputs of an answer are its \<^verbatim>\<open>responses\<close>, or the empty response when it has none.\<close>

record asr_reply =
  ap_ok :: bool
  ap_outputs :: "utext option list option"

type_synonym asr_process = "string option option \<times> (asr_request \<Rightarrow> asr_reply option)"

datatype quality_error = Unreadable | Audio vexc | NotStarted | WrongReady | NoAnswer | AsrFailed | NoOutput

definition of_audio :: "vexc + 'a \<Rightarrow> quality_error + 'a" where
  "of_audio r = (case r of Inl e \<Rightarrow> Inl (Audio e) | Inr x \<Rightarrow> Inr x)"

definition audio_bytes_to_mel :: "(rat list \<Rightarrow> bytes) \<Rightarrow> bytes \<Rightarrow> vexc + nat list \<times> bytes" where
  "audio_bytes_to_mel spectrum file =
     res_bind (wav_to_audio file) (\<lambda>(audio, sr).
     res_bind (resample_to_16k audio sr) (\<lambda>audio. audio_to_mel spectrum audio))"

definition transcribe_with_worker ::
  "quality_args \<Rightarrow> (rat list \<Rightarrow> bytes) \<Rightarrow> asr_process \<Rightarrow> bytes \<Rightarrow> quality_error + utext" where
  "transcribe_with_worker args spectrum proc file =
     res_bind (of_audio (audio_bytes_to_mel spectrum file)) (\<lambda>mel.
     case fst proc of
       None \<Rightarrow> Inl NotStarted
     | Some ready \<Rightarrow>
         if ready \<noteq> Some ''ready'' then Inl WrongReady
         else case snd proc \<lparr>ar_tensor = write_safetensors mel (qa_tensor_name args), ar_max_generate = qa_max_gen args\<rparr> of
           None \<Rightarrow> Inl NoAnswer
         | Some reply \<Rightarrow>
             if \<not> ap_ok reply then Inl AsrFailed
             else case (case ap_outputs reply of None \<Rightarrow> [None] | Some os \<Rightarrow> os) of
               [] \<Rightarrow> Inl NoOutput
             | out # _ \<Rightarrow> Inr (strip_language_prefix (case out of None \<Rightarrow> [] | Some t \<Rightarrow> t)))"

section \<open>Main\<close>

record quality_item =
  qi_path :: string
  qi_figures :: wav_figures
  qi_text :: utext

definition quality_item_of ::
  "quality_args \<Rightarrow> (rat list \<Rightarrow> bytes) \<Rightarrow> asr_process \<Rightarrow> (string \<Rightarrow> bytes option) \<Rightarrow> string \<Rightarrow> quality_error + quality_item" where
  "quality_item_of args spectrum proc read_file path =
     (case read_file path of
        None \<Rightarrow> Inl Unreadable
      | Some file \<Rightarrow>
          res_bind (of_audio (wav_metrics file)) (\<lambda>figures.
          res_bind (transcribe_with_worker args spectrum proc file) (\<lambda>t.
            Inr \<lparr>qi_path = path, qi_figures = figures, qi_text = t\<rparr>)))"

text \<open>The items that are printed, and the error that ends the run; without one the summary repeats them.\<close>

fun quality_items :: "(nat \<Rightarrow> string \<Rightarrow> quality_error + quality_item) \<Rightarrow> nat \<Rightarrow> string list \<Rightarrow> quality_item list \<times> quality_error option" where
  "quality_items item i [] = ([], None)"
| "quality_items item i (path # paths) =
     (case item i path of
        Inl e \<Rightarrow> ([], Some e)
      | Inr it \<Rightarrow> (let (its, e) = quality_items item (i + 1) paths in (it # its, e)))"

text \<open>\<open>spawn\<close> gives the process that is started for the \<open>i\<close>-th file.\<close>

definition quality_main ::
  "quality_args \<Rightarrow> (string \<Rightarrow> bool) \<Rightarrow> (string \<rightharpoonup> string) \<Rightarrow> (rat list \<Rightarrow> bytes)
     \<Rightarrow> (string list \<Rightarrow> (string \<rightharpoonup> string) \<Rightarrow> nat \<Rightarrow> asr_process) \<Rightarrow> (string \<Rightarrow> bytes option) \<Rightarrow> string list
     \<Rightarrow> quality_item list \<times> (quality_error + quality_item list)" where
  "quality_main args exists env spectrum spawn read_file paths =
     (let proc = spawn (asr_cmd args exists) (asr_env args env);
          (items, e) = quality_items (\<lambda>i. quality_item_of args spectrum (proc i) read_file) 0 paths
      in (items, case e of None \<Rightarrow> Inr items | Some e \<Rightarrow> Inl e))"

section \<open>Figures in range\<close>

lemma rint_int [simp]: "rint (of_int k) = k"
  by (simp add: rint_def)

lemma round_to_int [simp]: "round_to n (of_int k) = of_int k"
proof -
  have "rint (of_int k * 10 ^ n) = k * 10 ^ n" using rint_int [of "k * 10 ^ n"] by simp
  then show ?thesis by (simp add: round_to_def)
qed

lemma round_to_unit:
  assumes "0 \<le> x" and "x \<le> 1"
  shows "0 \<le> round_to n x \<and> round_to n x \<le> 1"
proof -
  let ?y = "x * 10 ^ n"
  have y: "0 \<le> ?y" "?y \<le> of_int (10 ^ n)" using assms by (simp_all add: mult_le_cancel_right1)
  then have "\<bar>rint ?y\<bar> \<le> 10 ^ n" by (intro rint_bound) simp
  moreover have "0 \<le> rint ?y" using rint_near [of ?y] y(1) by linarith
  ultimately have "(0 :: rat) \<le> of_int (rint ?y)" "of_int (rint ?y) \<le> (of_int (10 ^ n) :: rat)" by simp_all
  then show ?thesis by (simp add: round_to_def)
qed

lemma mean_range:
  assumes "\<forall>x\<in>set xs. a \<le> x \<and> x \<le> b" and "xs \<noteq> []"
  shows "a \<le> mean xs \<and> mean xs \<le> b"
proof -
  have "of_nat (length ys) * a \<le> sum_list ys \<and> sum_list ys \<le> of_nat (length ys) * b"
    if "\<forall>x\<in>set ys. a \<le> x \<and> x \<le> b" for ys
    using that by (induction ys) (auto simp: algebra_simps intro: add_mono)
  from this [OF assms(1)] assms(2) show ?thesis by (simp add: mean_def divide_le_eq le_divide_eq mult.commute)
qed

lemma figures_in_range:
  assumes "list_all (\<lambda>b. b < 256) file" and "wav_metrics file = Inr fig"
  shows "0 \<le> silence_ratio fig \<and> silence_ratio fig \<le> 1 \<and> 0 \<le> fig_peak fig \<and> fig_peak fig \<le> 32768
    \<and> 0 \<le> root_square fig \<and> root_square fig \<le> fig_peak fig * fig_peak fig"
proof -
  obtain info data where r: "wav_read file = Inr (info, data)"
    using assms(2) by (auto simp: wav_metrics_def)
  define samples where "samples = map (\<lambda>v. of_int (signed 2 v) :: rat) (words 2 data)"
  have f: "root_square fig = (if samples = [] then 0 else mean (map (\<lambda>x. x * x) samples))"
      "fig_peak fig = (if samples = [] then 0 else round_to 1 (Max (set (map abs samples))))"
      "silence_ratio fig = (if samples = [] then 1 else round_to 4 (mean (map (\<lambda>x. if \<bar>x\<bar> < 64 then 1 else 0) samples)))"
    using assms(2) r by (auto simp: wav_metrics_def samples_def Let_def split: if_splits)
  show ?thesis
  proof (cases "samples = []")
    case False
    have "list_all (\<lambda>b. b < 256) data" using assms(1) wav_read_bytes [OF r] by (auto simp: list_all_iff)
    then have b: "\<bar>signed 2 v\<bar> \<le> 32768" if "v \<in> set (words 2 data)" for v
      using signed_bound [OF word_bound [OF _ that]] by simp
    let ?m = "Max (set (map abs samples))"
    have "?m \<in> set (map abs samples)" using False by (intro Max_in) auto
    then obtain v where v: "v \<in> set (words 2 data)" "?m = of_int \<bar>signed 2 v\<bar>" by (auto simp: samples_def)
    have p: "fig_peak fig = of_int \<bar>signed 2 v\<bar>" unfolding f(2) v(2) round_to_int using False by simp
    have "(of_int \<bar>signed 2 v\<bar> :: rat) \<le> of_int 32768" using b [OF v(1)] by (simp only: of_int_le_iff)
    then have peak: "0 \<le> fig_peak fig" "fig_peak fig \<le> 32768" unfolding p by simp_all
    have "\<bar>x\<bar> \<le> fig_peak fig" if "x \<in> set samples" for x
      unfolding p v(2) [symmetric] using that by (intro Max_ge) auto
    then have "\<bar>x\<bar> * \<bar>x\<bar> \<le> fig_peak fig * fig_peak fig" if "x \<in> set samples" for x
      using that peak(1) by (intro mult_mono) auto
    then have "x * x \<le> fig_peak fig * fig_peak fig" if "x \<in> set samples" for x
      using that by (simp only: abs_mult_self_eq)
    then have "0 \<le> root_square fig \<and> root_square fig \<le> fig_peak fig * fig_peak fig"
      unfolding f(1) using False mean_range [of "map (\<lambda>x. x * x) samples" 0 "fig_peak fig * fig_peak fig"] by simp
    moreover have "0 \<le> silence_ratio fig \<and> silence_ratio fig \<le> 1"
    proof -
      let ?q = "mean (map (\<lambda>x. if \<bar>x\<bar> < 64 then 1 else 0) samples)"
      have "0 \<le> ?q \<and> ?q \<le> 1" by (rule mean_range) (use False in auto)
      then show ?thesis unfolding f(3) using False round_to_unit [of ?q 4] by presburger
    qed
    ultimately show ?thesis using peak by blast
  qed (simp add: f)
qed

section \<open>The report\<close>

lemma quality_items_exact:
  assumes "quality_items item i paths = (items, e)"
  shows "(\<forall>k<length items. item (i + k) (paths ! k) = Inr (items ! k))
    \<and> (case e of None \<Rightarrow> length items = length paths
       | Some e \<Rightarrow> length items < length paths \<and> item (i + length items) (paths ! length items) = Inl e)"
  using assms
proof (induction item i paths arbitrary: items rule: quality_items.induct)
  case (2 item i path paths)
  show ?case
  proof (cases "item i path")
    case (Inr it)
    then obtain its where its: "quality_items item (i + 1) paths = (its, e)" "items = it # its"
      using "2.prems" by (auto split: prod.splits)
    show ?thesis using "2.IH" [OF Inr its(1)] Inr
      by (auto simp: its(2) less_Suc_eq_0_disj split: option.splits)
  qed (use "2.prems" in auto)
qed auto

lemma quality_item_ofD:
  assumes "quality_item_of args spectrum proc read_file path = Inr it"
  shows "\<exists>file. read_file path = Some file \<and> qi_path it = path \<and> wav_metrics file = Inr (qi_figures it)
    \<and> transcribe_with_worker args spectrum proc file = Inr (qi_text it)"
  using assms by (auto simp: quality_item_of_def of_audio_def split: option.splits sum.splits)

text \<open>
  C25: the report of the quality script.  The printed items are those of the given files in order, each
  with the figures of its bytes and the text the worker that was started for it gave; the script either
  stops at the first file that fails, or it prints the summary.  The figures are in range.
\<close>

theorem quality_report_exact:
  assumes "quality_main args exists env spectrum spawn read_file paths = (items, r)"
    and "\<forall>path file. read_file path = Some file \<longrightarrow> list_all (\<lambda>b. b < 256) file"
  defines "proc \<equiv> spawn (asr_cmd args exists) (asr_env args env)"
  shows "(\<forall>k<length items. \<exists>file. read_file (paths ! k) = Some file \<and> qi_path (items ! k) = paths ! k
        \<and> wav_metrics file = Inr (qi_figures (items ! k))
        \<and> transcribe_with_worker args spectrum (proc k) file = Inr (qi_text (items ! k))
        \<and> silence_ratio (qi_figures (items ! k)) \<le> 1 \<and> fig_peak (qi_figures (items ! k)) \<le> 32768
        \<and> root_square (qi_figures (items ! k)) \<le> fig_peak (qi_figures (items ! k)) * fig_peak (qi_figures (items ! k)))
    \<and> (case r of Inr summary \<Rightarrow> summary = items \<and> length items = length paths
       | Inl e \<Rightarrow> length items < length paths
           \<and> quality_item_of args spectrum (proc (length items)) read_file (paths ! length items) = Inl e)"
proof -
  let ?item = "\<lambda>i. quality_item_of args spectrum (proc i) read_file"
  obtain e where q: "quality_items ?item 0 paths = (items, e)" "r = (case e of None \<Rightarrow> Inr items | Some e \<Rightarrow> Inl e)"
    using assms(1) by (auto simp: quality_main_def proc_def split: prod.splits)
  note exact = quality_items_exact [OF q(1), unfolded add_0]
  have "\<exists>file. read_file (paths ! k) = Some file \<and> qi_path (items ! k) = paths ! k
        \<and> wav_metrics file = Inr (qi_figures (items ! k))
        \<and> transcribe_with_worker args spectrum (proc k) file = Inr (qi_text (items ! k))
        \<and> silence_ratio (qi_figures (items ! k)) \<le> 1 \<and> fig_peak (qi_figures (items ! k)) \<le> 32768
        \<and> root_square (qi_figures (items ! k)) \<le> fig_peak (qi_figures (items ! k)) * fig_peak (qi_figures (items ! k))"
    if "k < length items" for k
    using quality_item_ofD [of args spectrum "proc k" read_file "paths ! k" "items ! k"] exact that assms(2) figures_in_range by blast
  moreover have "case r of Inr summary \<Rightarrow> summary = items \<and> length items = length paths
       | Inl e \<Rightarrow> length items < length paths
           \<and> quality_item_of args spectrum (proc (length items)) read_file (paths ! length items) = Inl e"
    using exact unfolding q(2) by (cases e) simp_all
  ultimately show ?thesis by blast
qed

text \<open>Nothing is compared with a threshold: silence and an empty transcript make a summary like any other.\<close>

definition eg_silent :: bytes where "eg_silent = wav_header 1 2 100 2 @ [0, 0]"

definition eg_quality :: quality_args where
  "eg_quality = \<lparr>qa_worker = ''w'', qa_plugin = ''p'', qa_engine = None, qa_encoder = ''e'', qa_tensor_name = ''mel'', qa_max_gen = 200\<rparr>"

definition eg_asr :: asr_process where
  "eg_asr = (Some (Some ''ready''), \<lambda>_. Some \<lparr>ap_ok = True, ap_outputs = None\<rparr>)"

definition eg_item :: quality_item where
  "eg_item = \<lparr>qi_path = ''a.wav'', qi_figures = \<lparr>fig_duration = 1 / 100, root_square = 0, fig_peak = 0, silence_ratio = 1\<rparr>, qi_text = []\<rparr>"

definition eg_disk :: "string \<Rightarrow> bytes option" where
  "eg_disk path = (if path = ''a.wav'' then Some eg_silent else None)"

lemma eg_silent_read:
  "wav_read eg_silent = Inr (\<lparr>sample_rate = 100, channels = 1, sample_width = 2, frames = 1, file_bytes = 46\<rparr>, [0, 0])"
proof -
  have l: "length [0, 0 :: nat] = 2" by simp
  have "wav_read (wav_header 1 2 100 (length [0, 0 :: nat]) @ [0, 0]) = Inr (\<lparr>sample_rate = 100, channels = 1, sample_width = 2,
      frames = length [0, 0 :: nat] div (1 * 2), file_bytes = 44 + length [0, 0 :: nat]\<rparr>, take (length [0, 0 :: nat] div (1 * 2) * (1 * 2)) [0, 0])"
    by (rule wav_read_written) (simp_all only: l, simp_all)
  then show ?thesis unfolding l eg_silent_def by simp
qed

lemma eg_silent_words: "words 2 [0, 0] = [0]"
  by (simp add: words_def)

lemma eg_silent_figures: "wav_metrics eg_silent = Inr (qi_figures eg_item)"
  by (simp add: wav_metrics_def eg_silent_read eg_silent_words signed_def mean_def eg_item_def round_to_def rint_def Let_def)

lemma eg_silent_mel: "\<exists>mel. audio_bytes_to_mel (\<lambda>_. []) eg_silent = Inr mel"
proof -
  have "nat (rint (of_nat (length [0 :: rat] * 16000) / of_nat 100)) = 160" by (simp add: rint_def)
  then obtain out where "resample_to_16k [0] 100 = Inr out" "length out = 160"
    unfolding resample_to_16k_def Let_def by simp
  moreover have "wav_to_audio eg_silent = Inr ([0], 100)"
    by (simp add: wav_to_audio_def eg_silent_read eg_silent_words unit_samples_def signed_def channel_mean_def)
  ultimately show ?thesis by (simp add: audio_bytes_to_mel_def mel_shape)
qed

lemma eg_report: "quality_main eg_quality (\<lambda>_. False) (\<lambda>_. None) (\<lambda>_. []) (\<lambda>_ _ _. eg_asr) eg_disk [''a.wav''] = ([eg_item], Inr [eg_item])"
proof -
  have "strip_language_prefix [] = []" by code_simp
  then have "transcribe_with_worker eg_quality (\<lambda>_. []) eg_asr eg_silent = Inr []"
    using eg_silent_mel by (auto simp: transcribe_with_worker_def eg_asr_def of_audio_def)
  then show ?thesis
    using eg_silent_figures by (simp add: quality_main_def quality_item_of_def eg_disk_def of_audio_def eg_item_def)
qed

lemma eg_silent_bytes: "list_all (\<lambda>b. b < 256) eg_silent"
proof -
  have "list_all (\<lambda>b. b < 256) [0, 0 :: nat]" by simp
  then show ?thesis unfolding eg_silent_def wav_header_def list_all_append using le_bytes ascii_bytes by blast
qed

theorem quality_report_exact_witness:
  "fig_peak (qi_figures eg_item) \<le> 32768
    \<and> transcribe_with_worker eg_quality (\<lambda>_. []) eg_asr eg_silent = Inr (qi_text eg_item)"
proof -
  have "\<forall>path file. eg_disk path = Some file \<longrightarrow> list_all (\<lambda>b. b < 256) file"
    by (simp add: eg_disk_def eg_silent_bytes)
  from quality_report_exact [OF eg_report this] show ?thesis by (auto simp: eg_disk_def split: if_splits)
qed

end
