(* ===== verification/Spec2Isabelle.thy ===== *)
theory Spec2Isabelle
  imports WorkerIO_Theorems Code2Wav_Theorems Release_Gates_Props Artifacts_Props Engine_Bundle_Props
    Roundtrip_Verify Pruned_Vocab Code2Wav_Export_Theorems Decoder_Weights Tts_Contract_Props
    Awq_Theorems Onnx_Trace W8_Layout_Props Mlp_Fuse_Props Matcha_Witness Streaming_Gate_Props
    Asr_Roundtrip Int8_Precision Tts_Smoke_Props
    Mask_Inputs_Witness Cp_Head_Props Worker_Accept_Witness Quality_Gate
begin

text \<open>
  A verification development for jetson-voice-engine, the tool set that builds, packages,
  validates and drives speech models (Qwen3 TTS/ASR, Matcha, Kokoro, Paraformer) on Jetson.  A
  model goes through it in this order: weights are quantized inside their ONNX graph, the vocoder
  is exported as a streaming module and checked against its full forward pass, engines are built,
  bundled, packaged and deployed with digests, the release gates and the contract verifier decide
  whether an installation may serve, the server multiplexes its requests over one worker process,
  and a round-trip verifier listens to the result.  Each theory below is named with the files
  under \<open>src/\<close> it models.

  \<^bold>\<open>Shared vocabulary.\<close>  \<open>Voice_Prelude\<close> has JSON values, dictionaries in insertion order,
  results \<open>error + value\<close> with their bind, generic list lemmas and the locale \<open>step_invariant\<close>
  (invariants of step relations by rule induction).  \<open>Py_Text\<close> has the string and integer
  operations of Python, \<open>Speech_Text\<close> text normalisation and similarity, \<open>Wav_File\<close> WAV
  files as bytes, \<open>Base64\<close> the encoding of bytes as text and its lenient decoder, \<open>Onnx_Graph\<close> ONNX graphs and their evaluation, and \<open>Onnx_Solve\<close> the equational
  view of it that the graph edits share: in a graph that writes every tensor once and reads it
  afterwards, an environment is the result of the evaluation exactly when every node holds in it.

  \<^bold>\<open>Subprocess multiplexer\<close> (\<^verbatim>\<open>deploy/docker/worker_io.voxedge-patch.py\<close>).  \<open>WorkerIO\<close> models
  every operation as atomic steps of callers with program counters, the reader thread and
  \<^verbatim>\<open>close\<close> calls over one shared state; the bounded thread pool behind the \<^verbatim>\<open>acquire\<close> and \<^verbatim>\<open>q.get\<close> of the
  asynchronous generator is part of it, with the threads that cancelled waits leave behind.  \<open>WorkerIO_Props\<close> has the structural invariants,
  \<open>WorkerIO_Wake\<close>, \<open>WorkerIO_Route\<close> the invariants of whole runs, \<open>WorkerIO_Live\<close> the single
  call, \<open>WorkerIO_Theorems\<close> the properties: permits are conserved, a completed close wakes every
  waiting caller and each that has or finds a thread then ends by its own steps, a caller gets exactly
  the events of its request in order; and how a permit or the reader can be lost for good, and how the
  pool can be used up by callers that wait for a permit.

  \<^bold>\<open>Streaming vocoder\<close> (\<^verbatim>\<open>scripts/qwen3_code2wav_stateful_reference.py\<close>,
  \<^verbatim>\<open>scripts/qwen3_tts_code2wav_stateful_real_gate.py\<close>,
  \<^verbatim>\<open>scripts/qwen3_tts_code2wav_stateful_export.py\<close>).  A tensor is the list of its frames along time.
  \<open>Stream_Core\<close> has the contracts: \<open>causal_stream\<close> (a step that remembers enough of its
  input), \<open>frame_stream\<close> (one frame out per frame in) and \<open>finishing_stream\<close> (an edge released
  by the last part).  \<open>Code2Wav_Conv\<close>, \<open>Code2Wav_Attn\<close>, \<open>Code2Wav_Model\<close> model the reference,
  \<open>Code2Wav_Gate\<close> the product decoder, \<open>Code2Wav_Export\<close> the exported module with its state
  tensors; the theories with \<open>_Props\<close> interpret the contracts on them, and
  \<open>Code2Wav_Theorems\<close>, \<open>Code2Wav_Export_Theorems\<close> conclude that every way of streaming gives the
  full forward pass, for every chunking with positive parts, and that the exported states keep
  the specified shapes.  \<open>Decoder_Weights\<close> shows which initializer each parameter of the product
  decoder receives and what the final conversion of its dtype leaves.

  \<^bold>\<open>Release gates\<close> (\<^verbatim>\<open>engine-overlay/validate-manifest.py\<close>, \<^verbatim>\<open>verify-release-target.py\<close>,
  \<^verbatim>\<open>probe-cuda-compat.py\<close>, \<^verbatim>\<open>validate-spark-token-gate.py\<close>).  \<open>Release_Gates\<close> has one error
  constructor per failure; \<open>Release_Gates_Props\<close> shows what acceptance guarantees, that a
  changed file is detected, and that each gate fails closed.

  \<^bold>\<open>Contract verifier\<close> (\<^verbatim>\<open>scripts/verify_qwen3_tts_contract.py\<close> and its copy under
  \<^verbatim>\<open>models/qwen3/\<close>).  \<open>Tts_Contract\<close> has every check in order, \<open>Tts_Contract_Props\<close> what the
  status \<^verbatim>\<open>CONTRACT_OK\<close> implies.

  \<^bold>\<open>Artifacts\<close> (\<^verbatim>\<open>scripts/deploy_qwen3_artifacts.py\<close>, \<^verbatim>\<open>scripts/package_qwen3_artifacts.py\<close>,
  \<^verbatim>\<open>models/common/build_engine_bundle.py\<close>).  \<open>Artifacts\<close>, \<open>Engine_Bundle\<close> model the commands over a
  store of files; \<open>Artifacts_Props\<close>, \<open>Engine_Bundle_Props\<close> show that sidecars verify and detect
  changes, that a staged set deploys, that exit statuses are right, that a bundle is complete and
  its manifest true.

  \<^bold>\<open>Round trip\<close> (\<^verbatim>\<open>models/common/verify_tts_asr_roundtrip.py\<close>).  \<open>Roundtrip_Verify\<close> has the case
  runner; the two-row LCS table equals the recursive definition, a reported pass means that every
  case passed, and streamed PCM survives the WAV file.

  \<^bold>\<open>Vocabulary expansion\<close> (\<^verbatim>\<open>models/qwen3/expand_qwen3_tts_pruned_vocab.py\<close>).  \<open>Pruned_Vocab\<close>:
  the new token map extends the old one exactly, and the files written read back.

  \<^bold>\<open>Weight quantization\<close> (\<^verbatim>\<open>engine-overlay/addon/scripts/quantize_onnx_matmul_w8a16.py\<close> and
  \<^verbatim>\<open>quantize_onnx_matmul_w8a16_awq.py\<close>).  \<open>W8A16\<close>, \<open>Awq\<close> model the two graph rewriters,
  \<open>W8A16_Props\<close>, \<open>Awq_Props\<close> relate the environments of the two graphs node by node, and
  \<open>W8A16_Theorems\<close>, \<open>Awq_Theorems\<close> show that the new graph refines the old one with dequantized
  weights and bound the quantization error, for the exact scale and for the one that is stored.

  \<^bold>\<open>Graph edits\<close>.  \<open>W8_Layout\<close> (\<^verbatim>\<open>scripts/selective_w8a16_onnx.py\<close>,
  \<^verbatim>\<open>scripts/transpose_w8a16_onnx_layout.py\<close>) rolls plugin nodes back to products and changes the
  layout of their weights, \<open>Mlp_Fuse\<close> (\<^verbatim>\<open>scripts/optimize_qwen3_tts_cp_onnx.py\<close>) fuses two products
  of one input, \<open>Matcha\<close> (\<^verbatim>\<open>models/matcha/surgery_matcha_acoustic.py\<close>) turns the noise into an
  input, the length scale into an integer and ranges into slices of a constant.  \<open>W8_Layout_Props\<close>,
  \<open>Mlp_Fuse_Props\<close>, \<open>Matcha_Props\<close>, \<open>Matcha_Scale\<close> show that the edited graph gives every name that
  is kept the value it had; \<open>Matcha_Witness\<close> runs the three edits on small graphs.  What the edits
  need and do not check (fresh names, unshared weights, the order of the two products, a single
  reader of the noise) is a hypothesis of the property.  \<open>Mask_Inputs\<close>
  (\<^verbatim>\<open>models/paraformer/surgery_paraformer_decoder.py\<close>) cuts the computation of two padding masks out of
  the Paraformer decoder and makes the masks inputs; \<open>Cp_Head\<close>
  (\<^verbatim>\<open>scripts/optimize_qwen3_tts_cp_lm_head_transpose.py\<close>) stores the stacked heads of the code
  predictor transposed.  \<open>Mask_Inputs_Props\<close>, \<open>Cp_Head_Props\<close> have the same kind of refinement.

  \<^bold>\<open>INT8 engine builders\<close> (\<^verbatim>\<open>models/qwen3/build_talker_int8_engine.py\<close>,
  \<^verbatim>\<open>scripts/build_qwen3_asr_thinker_mlp_int8.py\<close>).  \<open>Cuda_Buffers\<close> has the device memory and the
  calibrators that stage a batch in it, \<open>Int8_Engines\<close> the batches, the precision of the layers, the
  profiles and the order of the build.  The contract between them is the locale \<open>staging\<close> of
  \<open>Cuda_Buffers_Props\<close> (an allocation is fresh, a copy inside a block succeeds and writes exactly its
  bytes), interpreted on both memory interfaces; \<open>Int8_Theorems\<close> shows that TensorRT sees every batch
  whole, that no byte outside the calibrator's buffers changes and that the batches fit the profile, \<open>Int8_Precision\<close> which layers are fixed to INT8 and when a build is refused.

  \<^bold>\<open>Dependency tracing\<close> (\<^verbatim>\<open>models/common/trace_onnx_dependencies.py\<close>).  \<open>Onnx_Trace\<close>: the
  recursive visit returns, its report lists exactly what the outputs depend on, once and in order, and
  what it reports suffices to compute them.

  \<^bold>\<open>Speech gates\<close>.  \<open>Streaming_Gate\<close> (\<^verbatim>\<open>scripts/streaming_e2e_verify.py\<close> with the scenarios it takes
  from \<^verbatim>\<open>scripts/test_streaming_worker.py\<close>) drives the recogniser over growing prefixes of the audio,
  and \<open>Streaming_Gate_Props\<close> shows what was sent and what an exit status 0 implies.
  \<open>Asr_Roundtrip\<close> (\<^verbatim>\<open>scripts/verify_qwen3_tts_asr_roundtrip.py\<close> and its copy under
  \<^verbatim>\<open>models/qwen3/\<close>) is the round trip in process, on the model of Python's sequence matcher in
  \<open>Seq_Match\<close>.  \<open>Worker_Accept\<close> has the rest of \<^verbatim>\<open>scripts/test_streaming_worker.py\<close>: the driver whose
  window follows the rotations of the worker, the error paths, and the main program with its gates;
  \<open>Worker_Accept_Props\<close> shows that no sample is skipped and what acceptance implies.
  \<open>Audio_In\<close> is the way from a WAV file to the tensor file the recogniser reads, and \<open>Quality_Gate\<close>
  (\<^verbatim>\<open>scripts/validate_qwen3_tts_quality_gate.py\<close>) the report on synthesized files that uses it.

  \<^bold>\<open>Worker smoke run\<close> (\<^verbatim>\<open>models/qwen3/run_qwen3_tts_worker_smoke.py\<close>).  \<open>Tts_Smoke\<close>: the requests of
  a session, the events read for each, the files and summaries; \<open>Tts_Smoke_Props\<close> shows that a session
  without an error leaves exactly the audio the worker sent; events are told apart by position, as
  the program does.

  \<^bold>\<open>Parameters.\<close>  Tensor modules (convolutions, projections, norms, softmax), file systems,
  SHA-256, JSON and TOML parsers, HTTP services, TensorRT and imported modules are arguments or
  fields of an environment record; what the code relies on of them is a named hypothesis of the
  property, and the witness instantiates it.  Floating-point arithmetic is exact (rationals or an
  arbitrary ring), so the streaming theorems are about which terms are added up, not about
  rounding; rounding to FP16 is a parameter.

  \<^bold>\<open>Loops and bounds.\<close>  All loops are structural recursions or folds except six.  The matcher
  extends a block to the right and splits the ranges around it; both end because what is left of
  the first sequence shrinks.  The chunks of a WAV file are read until its bytes are used up, and the
  rotating driver ends because every hop of 8000 samples uses up audio.  The tracer takes the frames Python leaves to the recursion, and
  \<open>trace_exact\<close> shows that one more than the nodes of the graph is enough.  \<^verbatim>\<open>make_chunks\<close> has a
  Python loop that may run for ever when the pattern has an entry that is not positive; its model takes
  fuel, one more than the sequence length, and \<open>make_chunks_total\<close> shows that this is enough for
  every pattern of positive lengths.
  WAV fields wrap at their byte widths.

  \<^bold>\<open>Not modelled.\<close>  Argument parsing and printed reports; spectra (the filter bank and the
  transform are NumPy's); the engine builder of the code predictor, exports, calibration studies and
  benches, which only configure or measure third-party libraries; the surgeries whose meaning is that
  of a single operator they replace (short-time transform by convolution) and the splits of one
  exported model by fixed tensor names; a spike that starts the worker and prints timings; the C++
  worker and the patches of the Edge-LLM runtime; shell scripts and configuration.
\<close>

end
